(* ===== verification/Prelude.thy ===== *)
theory Prelude
  imports Complex_Main "HOL-Library.AList"
begin

text \<open>
  What the component theories share: Python exceptions as values, dictionaries as
  insertion-ordered association lists, the counter updates the telemetry of the code is
  made of, and integer arithmetic.

  A Python \<open>dict\<close> or \<open>OrderedDict\<close> is an association list in insertion order.
  \<open>AList.update\<close> of the library does what \<open>d[k] = v\<close> does: it keeps the place of a
  key that is present and appends a new one; \<open>AList.delete\<close> is \<open>del d[k]\<close>.
  Python integers are \<open>int\<close>; a counter that starts at zero and only grows is \<open>nat\<close>.
  Python floats (microseconds, scores) are modelled by \<open>real\<close>: rounding is not modelled.
\<close>

section \<open>Exceptions\<close>

datatype exn =
    ValueError | KeyError | IndexError | RuntimeError | ZeroDivisionError
  | TypeError | OSError | UnboundLocalError | NotImplementedError | AttributeError
  | StructError | ConnectionResetError | TimeoutError | StopIteration | AssertionError

type_synonym 'a res = "exn + 'a"

definition rbind :: "'a res \<Rightarrow> ('a \<Rightarrow> 'b res) \<Rightarrow> 'b res" where
  "rbind r f = (case r of Inl e \<Rightarrow> Inl e | Inr x \<Rightarrow> f x)"

lemma rbind_simps [simp]:
  "rbind (Inl e) f = Inl e"
  "rbind (Inr x) f = f x"
  by (simp_all add: rbind_def)

lemma rbind_Inr_iff: "rbind r f = Inr y \<longleftrightarrow> (\<exists>x. r = Inr x \<and> f x = Inr y)"
  by (cases r) simp_all

lemma rbind_Inl_iff: "rbind r f = Inl e \<longleftrightarrow> r = Inl e \<or> (\<exists>x. r = Inr x \<and> f x = Inl e)"
  by (cases r) simp_all

text \<open>A comprehension whose body can raise.\<close>

fun map_res :: "('a \<Rightarrow> 'b res) \<Rightarrow> 'a list \<Rightarrow> 'b list res" where
  "map_res f [] = Inr []"
| "map_res f (x # xs) = rbind (f x) (\<lambda>y. rbind (map_res f xs) (\<lambda>ys. Inr (y # ys)))"

lemma map_res_Inr: "map_res f xs = Inr ys \<longleftrightarrow> list_all2 (\<lambda>x y. f x = Inr y) xs ys"
proof (induction xs arbitrary: ys)
  case (Cons x xs)
  then show ?case by (cases ys) (auto simp: rbind_Inr_iff)
qed auto

section \<open>Collections of rules\<close>

named_theorems dict_simps "lookups, keys and sums of dictionaries after an update"
named_theorems inv_intros "every operation keeps its component's invariant"

section \<open>Dictionaries\<close>

type_synonym ('k, 'v) dict = "('k \<times> 'v) list"

abbreviation dget :: "('k, 'v) dict \<Rightarrow> 'k \<Rightarrow> 'v option" where
  "dget d k \<equiv> map_of d k"

abbreviation dset :: "'k \<Rightarrow> 'v \<Rightarrow> ('k, 'v) dict \<Rightarrow> ('k, 'v) dict" where
  "dset k v d \<equiv> AList.update k v d"

abbreviation dpop :: "'k \<Rightarrow> ('k, 'v) dict \<Rightarrow> ('k, 'v) dict" where
  "dpop k d \<equiv> AList.delete k d"

abbreviation dkeys :: "('k, 'v) dict \<Rightarrow> 'k list" where
  "dkeys d \<equiv> map fst d"

abbreviation dvalues :: "('k, 'v) dict \<Rightarrow> 'v list" where
  "dvalues d \<equiv> map snd d"

definition dmem :: "'k \<Rightarrow> ('k, 'v) dict \<Rightarrow> bool" where
  "dmem k d \<longleftrightarrow> map_of d k \<noteq> None"

text \<open>Distinct keys: what every Python dictionary satisfies.\<close>

definition dict_ok :: "('k, 'v) dict \<Rightarrow> bool" where
  "dict_ok d \<longleftrightarrow> distinct (map fst d)"

lemma dget_dset [dict_simps]: "dget (dset k v d) j = (if j = k then Some v else dget d j)"
  by (simp add: update_conv')

lemma dget_dpop [dict_simps]: "dget (dpop k d) j = (if j = k then None else dget d j)"
  by (simp add: delete_conv')

lemma dmem_keys: "dmem k d \<longleftrightarrow> k \<in> set (dkeys d)"
  by (simp add: dmem_def map_of_eq_None_iff)

lemma dict_ok_Nil [simp]: "dict_ok []"
  by (simp add: dict_ok_def)

lemma dict_ok_dset [simp]: "dict_ok d \<Longrightarrow> dict_ok (dset k v d)"
  by (simp add: dict_ok_def distinct_update)

lemma dict_ok_dpop [simp]: "dict_ok d \<Longrightarrow> dict_ok (dpop k d)"
  by (simp add: dict_ok_def distinct_delete)

lemma dict_ok_tl: "dict_ok d \<Longrightarrow> dict_ok (tl d)"
  by (cases d) (simp_all add: dict_ok_def)

lemma dset_fresh: "\<not> dmem k d \<Longrightarrow> dset k v d = d @ [(k, v)]"
  by (induction d) (auto simp: dmem_def split: if_splits)

lemma dkeys_dset [dict_simps]:
  "dkeys (dset k v d) = (if k \<in> set (dkeys d) then dkeys d else dkeys d @ [k])"
  by (simp add: update_keys)

lemma length_dset [dict_simps]:
  "length (dset k v d) = (if dmem k d then length d else Suc (length d))"
proof -
  have "length (dset k v d) = length (dkeys (dset k v d))" by simp
  also have "\<dots> = (if k \<in> set (dkeys d) then length d else Suc (length d))"
    by (simp only: dkeys_dset) simp
  finally show ?thesis by (simp add: dmem_keys)
qed

lemma set_dkeys_dpop: "set (dkeys (dpop k d)) = set (dkeys d) - {k}"
  by (simp add: delete_keys)

lemma length_dpop_mem: "dict_ok d \<Longrightarrow> dmem k d \<Longrightarrow> Suc (length (dpop k d)) = length d"
proof (induction d)
  case Nil
  then show ?case by (simp add: dmem_def)
next
  case (Cons p d)
  show ?case
  proof (cases "fst p = k")
    case True
    with Cons.prems(1) have "k \<notin> fst ` set d" by (auto simp: dict_ok_def)
    with True show ?thesis by (cases p) simp
  next
    case False
    with Cons.prems have "dict_ok d" and "dmem k d"
      by (auto simp: dict_ok_def dmem_def split: if_splits)
    with Cons.IH False show ?thesis by (cases p) simp
  qed
qed

text \<open>\<open>OrderedDict.move_to_end\<close>.\<close>

definition move_to_end :: "'k \<Rightarrow> ('k, 'v) dict \<Rightarrow> ('k, 'v) dict" where
  "move_to_end k d = (case dget d k of None \<Rightarrow> d | Some v \<Rightarrow> dpop k d @ [(k, v)])"

lemma dget_move_to_end [simp]: "dget (move_to_end k d) j = dget d j"
  by (auto simp: move_to_end_def map_add_def dict_simps split: option.split)

lemma dict_ok_move_to_end [simp]: "dict_ok d \<Longrightarrow> dict_ok (move_to_end k d)"
proof (cases "dget d k")
  case (Some v)
  have "k \<notin> set (map fst (dpop k d))" using set_dkeys_dpop [of k d] by simp
  moreover assume "dict_ok d"
  then have "dict_ok (dpop k d)" by simp
  ultimately show ?thesis using Some by (simp add: move_to_end_def dict_ok_def)
qed (simp add: move_to_end_def)

lemma length_move_to_end [simp]: "dict_ok d \<Longrightarrow> length (move_to_end k d) = length d"
  using length_dpop_mem [of d k] by (auto simp: move_to_end_def dmem_def split: option.split)

section \<open>Counters\<close>

text \<open>
  \<open>dadd k n d\<close> is \<open>d[k] += n\<close>, which raises \<open>KeyError\<close> for a missing key;
  \<open>dinc k n d\<close> is \<open>d[k] = d.get(k, 0) + n\<close> (and \<open>+=\<close> on a \<open>Counter\<close>).
\<close>

definition dadd :: "'k \<Rightarrow> int \<Rightarrow> ('k, int) dict \<Rightarrow> ('k, int) dict res" where
  "dadd k n d = (case dget d k of None \<Rightarrow> Inl KeyError | Some v \<Rightarrow> Inr (dset k (v + n) d))"

definition dinc :: "'k \<Rightarrow> int \<Rightarrow> ('k, int) dict \<Rightarrow> ('k, int) dict" where
  "dinc k n d = dset k ((case dget d k of None \<Rightarrow> 0 | Some v \<Rightarrow> v) + n) d"

definition dsum :: "('k, int) dict \<Rightarrow> int" where
  "dsum d = sum_list (dvalues d)"

lemma dsum_dset_mem: "dget d k = Some w \<Longrightarrow> dsum (dset k v d) = dsum d - w + v"
proof (induction d)
  case Nil
  then show ?case by simp
next
  case (Cons p d)
  then show ?case by (cases p) (auto simp: dsum_def split: if_splits)
qed

lemma dsum_dset_fresh: "dget d k = None \<Longrightarrow> dsum (dset k v d) = dsum d + v"
  by (simp add: dset_fresh dmem_def dsum_def)

lemma dsum_dinc [dict_simps]: "dsum (dinc k n d) = dsum d + n"
  by (cases "dget d k") (simp_all add: dinc_def dsum_dset_mem dsum_dset_fresh)

lemma dsum_dadd: "dadd k n d = Inr d' \<Longrightarrow> dsum d' = dsum d + n"
  by (auto simp: dadd_def dsum_dset_mem split: option.splits)

lemma dadd_keys: "dadd k n d = Inr d' \<Longrightarrow> dkeys d' = dkeys d"
  by (force simp: dadd_def dkeys_dset image_iff dest: map_of_SomeD split: option.splits)

lemma dadd_total: "k \<in> set (dkeys d) \<Longrightarrow> \<exists>d'. dadd k n d = Inr d'"
  by (auto simp: dadd_def dest: weak_map_of_SomeI split: option.splits)

lemma dinc_dget: "dget (dinc k n d) j =
  (if j = k then Some ((case dget d k of None \<Rightarrow> 0 | Some v \<Rightarrow> v) + n) else dget d j)"
  by (simp add: dinc_def dict_simps)

lemma dict_ok_dinc [simp]: "dict_ok d \<Longrightarrow> dict_ok (dinc k n d)"
  by (simp add: dinc_def)

text \<open>\<open>{c: 0 for c in range(n)}\<close>.\<close>

definition zero_counters :: "int \<Rightarrow> (int, int) dict" where
  "zero_counters n = map (\<lambda>c. (c, 0)) [0..n - 1]"

lemma zero_counters_keys [simp]: "dkeys (zero_counters n) = [0..n - 1]"
  by (simp add: zero_counters_def comp_def)

lemma zero_counters_mem: "c \<in> set (dkeys (zero_counters n)) \<longleftrightarrow> 0 \<le> c \<and> c < n"
  by auto

lemma dsum_zero_counters [simp]: "dsum (zero_counters n) = 0"
  by (simp add: dsum_def zero_counters_def comp_def sum_list_0)

section \<open>Sequencing with state and exceptions\<close>

text \<open>
  A method that mutates its object and may raise is a function from the state to a result and
  the state at its end; what was assigned before an exception stays assigned.
\<close>

type_synonym ('s, 'a) meth = "'s \<Rightarrow> 'a res \<times> 's"

definition sret :: "'a \<Rightarrow> ('s, 'a) meth" where
  "sret x s = (Inr x, s)"

definition sraise :: "exn \<Rightarrow> ('s, 'a) meth" where
  "sraise e s = (Inl e, s)"

definition slift :: "'a res \<Rightarrow> ('s, 'a) meth" where
  "slift r s = (r, s)"

definition sread :: "('s \<Rightarrow> 'a) \<Rightarrow> ('s, 'a) meth" where
  "sread f s = (Inr (f s), s)"

definition supd :: "('s \<Rightarrow> 's) \<Rightarrow> ('s, unit) meth" where
  "supd f s = (Inr (), f s)"

definition sbind :: "('s, 'a) meth \<Rightarrow> ('a \<Rightarrow> ('s, 'b) meth) \<Rightarrow> ('s, 'b) meth" where
  "sbind m f s = (case m s of (Inl e, s') \<Rightarrow> (Inl e, s') | (Inr x, s') \<Rightarrow> f x s')"

definition sthen :: "('s, unit) meth \<Rightarrow> ('s, 'b) meth \<Rightarrow> ('s, 'b) meth" where
  "sthen m k = sbind m (\<lambda>_. k)"

text \<open>\<open>for x in xs: acc = f(acc, x)\<close>.\<close>

fun sfor :: "('a \<Rightarrow> 'b \<Rightarrow> ('s, 'b) meth) \<Rightarrow> 'a list \<Rightarrow> 'b \<Rightarrow> ('s, 'b) meth" where
  "sfor f [] acc = sret acc"
| "sfor f (x # xs) acc = sbind (f x acc) (sfor f xs)"

lemma meth_simps [simp]:
  "sret x s = (Inr x, s)"
  "sraise e s = (Inl e, s)"
  "slift r s = (r, s)"
  "sread g s = (Inr (g s), s)"
  "supd h s = (Inr (), h s)"
  "sbind (sret x) f s = f x s"
  "sbind (sraise e) f' s = (Inl e, s)"
  "sbind (sread g) f'' s = f'' (g s) s"
  "sbind (slift r) f3 s = (case r of Inl e \<Rightarrow> (Inl e, s) | Inr y \<Rightarrow> f3 y s)"
  "sbind (supd h) f4 s = f4 () (h s)"
  "sthen (supd h) k s = k (h s)"
  by (simp_all add: sret_def sraise_def slift_def sread_def supd_def sbind_def sthen_def split: sum.split)

lemma meth_run:
  "sbind m f s = (case m s of (Inl e, s') \<Rightarrow> (Inl e, s') | (Inr x, s') \<Rightarrow> f x s')"
  "sthen m' k s = (case m' s of (Inl e, s') \<Rightarrow> (Inl e, s') | (Inr x, s') \<Rightarrow> k s')"
  by (simp_all add: sbind_def sthen_def)

text \<open>Invariants pass through the combinators, whatever the outcome.\<close>

definition keeps :: "('s \<Rightarrow> bool) \<Rightarrow> ('s, 'a) meth \<Rightarrow> bool" where
  "keeps I m \<longleftrightarrow> (\<forall>s. I s \<longrightarrow> I (snd (m s)))"

lemma keepsD: "keeps I m \<Longrightarrow> I s \<Longrightarrow> m s = (r, s') \<Longrightarrow> I s'"
  by (force simp: keeps_def)

lemma keeps_basic [inv_intros]:
  "keeps I (sret x)" "keeps I (sraise e)" "keeps I (slift r)" "keeps I (sread g)"
  by (simp_all add: keeps_def)

lemma keeps_supd [inv_intros]: "(\<And>s. I s \<Longrightarrow> I (h s)) \<Longrightarrow> keeps I (supd h)"
  by (simp add: keeps_def)

lemma keeps_sbind [inv_intros]: "keeps I m \<Longrightarrow> (\<And>x. keeps I (f x)) \<Longrightarrow> keeps I (sbind m f)"
  by (auto simp: keeps_def sbind_def split: prod.splits sum.splits)

lemma keeps_sthen [inv_intros]: "keeps I m \<Longrightarrow> keeps I k \<Longrightarrow> keeps I (sthen m k)"
  unfolding sthen_def by (rule keeps_sbind)

lemma keeps_if [inv_intros]: "(b \<Longrightarrow> keeps I m) \<Longrightarrow> (\<not> b \<Longrightarrow> keeps I k) \<Longrightarrow> keeps I (if b then m else k)"
  by simp

lemma keeps_sfor [inv_intros]: "(\<And>x acc. keeps I (f x acc)) \<Longrightarrow> keeps I (sfor f xs acc)"
  by (induction xs arbitrary: acc) (auto intro!: inv_intros)

lemma keeps_sbind_post:
  assumes "\<And>s r s'. I s \<Longrightarrow> m s = (r, s') \<Longrightarrow> I s' \<and> (\<forall>x. r = Inr x \<longrightarrow> Q x)"
    and "\<And>x. Q x \<Longrightarrow> keeps I (f x)"
  shows "keeps I (sbind m f)"
proof -
  have "I (snd (sbind m f s))" if s: "I s" for s
  proof -
    obtain r s' where m: "m s = (r, s')" by fastforce
    with assms(1) [OF s m] assms(2) show ?thesis by (cases r) (auto simp: meth_run keeps_def)
  qed
  then show ?thesis by (simp add: keeps_def)
qed

lemma keeps_weaken_bind:
  assumes "keeps I m" "I s" "\<And>s. I s \<Longrightarrow> J s" "\<And>x. keeps J (k x)"
  shows "J (snd (sbind m k s))"
proof -
  obtain r s' where m: "m s = (r, s')" by fastforce
  then have "J s'" using assms(1-3) keepsD by metis
  with m assms(4) show ?thesis by (cases r) (auto simp: meth_run keeps_def)
qed

lemma keeps_sfor_mem: "(\<And>x acc. x \<in> set xs \<Longrightarrow> keeps I (f x acc)) \<Longrightarrow> keeps I (sfor f xs acc)"
proof (induction xs arbitrary: acc)
  case Nil
  show ?case by (simp add: keeps_def)
next
  case (Cons x xs)
  then show ?case by (simp add: keeps_sbind)
qed

text \<open>The order of three nested loops.\<close>

definition points3 :: "'a list \<Rightarrow> 'b list \<Rightarrow> 'c list \<Rightarrow> ('a \<times> 'b \<times> 'c) list" where
  "points3 xs ys zs = concat (map (\<lambda>x. concat (map (\<lambda>y. map (\<lambda>z. (x, y, z)) zs) ys)) xs)"

section \<open>Arithmetic\<close>

text \<open>\<open>(a + b - 1) // b\<close>, the number of blocks of size \<open>b\<close> that hold \<open>a\<close> items.\<close>

definition ceil_div :: "int \<Rightarrow> int \<Rightarrow> int" where
  "ceil_div a b = (a + b - 1) div b"

lemma ceil_div_bounds:
  assumes "0 < b"
  shows "a \<le> ceil_div a b * b" and "ceil_div a b * b < a + b"
proof -
  let ?n = "a + b - 1"
  have m: "?n div b * b + ?n mod b = ?n" by (rule div_mult_mod_eq)
  have "0 \<le> ?n mod b" "?n mod b < b" using assms by simp_all
  with m show "a \<le> ceil_div a b * b" and "ceil_div a b * b < a + b"
    unfolding ceil_div_def by linarith+
qed

lemma ceil_div_le_iff:
  assumes "0 < b"
  shows "i < ceil_div a b \<longleftrightarrow> i * b < a"
proof
  assume "i < ceil_div a b"
  then have "i + 1 \<le> ceil_div a b" by simp
  then have "(i + 1) * b \<le> ceil_div a b * b" using assms by simp
  with ceil_div_bounds(2) [OF assms, of a] show "i * b < a" by (simp add: algebra_simps)
next
  assume "i * b < a"
  then have "i * b < ceil_div a b * b" using ceil_div_bounds(1) [OF assms, of a] by linarith
  then show "i < ceil_div a b" using assms by simp
qed

text \<open>\<open>round(x, n)\<close>: ties to even.\<close>

definition round_to :: "nat \<Rightarrow> real \<Rightarrow> real" where
  "round_to n x = (let y = 10 ^ n * x; f = \<lfloor>y\<rfloor>
     in of_int (if y - of_int f < 1 / 2 then f else if 1 / 2 < y - of_int f then f + 1
                else if even f then f else f + 1) / 10 ^ n)"

text \<open>\<open>int(x)\<close> of a float.\<close>

definition trunc :: "real \<Rightarrow> int" where
  "trunc x = (if 0 \<le> x then \<lfloor>x\<rfloor> else \<lceil>x\<rceil>)"

lemma trunc_le: "x \<le> of_int n \<Longrightarrow> trunc x \<le> max 0 n"
  by (auto simp: trunc_def le_floor_iff floor_le_iff ceiling_le_iff max_def split: if_splits)

definition ratio :: "int \<Rightarrow> int \<Rightarrow> real" where
  "ratio a b = (if 0 < b then of_int a / of_int b else 0)"

lemma mod_range [simp]: "0 < (m::int) \<Longrightarrow> 0 \<le> a mod m \<and> a mod m < m"
  by simp

lemma div_less_of_mult:
  fixes n m b :: int
  assumes "0 < b" "n < m * b"
  shows "n div b < m"
proof (rule ccontr)
  assume "\<not> n div b < m"
  then have "m * b \<le> n div b * b" using assms(1) by simp
  also have "\<dots> \<le> n" using div_mult_mod_eq [of n b] pos_mod_sign [OF assms(1), of n] by linarith
  finally show False using assms(2) by simp
qed

lemma mod_shift_inj:
  fixes a i j m :: int
  assumes "(a + i) mod m = (a + j) mod m" "0 \<le> i" "i < m" "0 \<le> j" "j < m"
  shows "i = j"
proof (rule ccontr)
  assume "i \<noteq> j"
  have "m dvd (i - j)" using assms(1) by (simp add: mod_eq_dvd_iff)
  then have "\<bar>m\<bar> \<le> \<bar>i - j\<bar>" using \<open>i \<noteq> j\<close> by (intro dvd_imp_le_int) auto
  with assms(2-) show False by linarith
qed

lemma list_update_add_add:
  fixes xs :: "int list"
  shows "xs[i := xs[i := xs ! i + a] ! i + b] = xs[i := xs ! i + (a + b)]"
  by (cases "i < length xs") (simp_all add: list_update_beyond add.assoc)

text \<open>A mixed-radix digit and its carry stay below the product of the radices.\<close>

lemma mixed_radix_bound:
  fixes a b m n :: int
  assumes "0 \<le> a" "a < m" "0 \<le> b" "b < n"
  shows "0 \<le> a * n + b \<and> a * n + b < m * n"
proof -
  have "a + 1 \<le> m" using assms(2) by simp
  then have "(a + 1) * n \<le> m * n" using assms by (simp add: mult_right_mono)
  then have "a * n + n \<le> m * n" by (simp add: distrib_right)
  moreover have "0 \<le> a * n" using assms by simp
  ultimately show ?thesis using assms by linarith
qed

lemma mixed_radix_inj:
  fixes a a' b b' n :: int
  assumes "a * n + b = a' * n + b'" "0 \<le> b" "b < n" "0 \<le> b'" "b' < n"
  shows "a = a' \<and> b = b'"
proof -
  have "a = (a * n + b) div n" using assms(2,3) by simp
  also have "\<dots> = (a' * n + b') div n" by (simp only: assms(1))
  also have "\<dots> = a'" using assms(4,5) by simp
  finally have "a = a'" .
  with assms(1) show ?thesis by simp
qed

end
