(* ===== verification/Nand.thy ===== *)
theory Nand
  imports Prelude
begin

text \<open>
  The physical NAND structures of \<open>person2_ssd/nand\<close>: pages (\<open>page.py\<close>), erase blocks
  (\<open>block.py\<close>), planes and dies (\<open>nand.py\<close>), with the timing constants of
  \<open>common/constants.py\<close>.
\<close>

section \<open>Constants\<close>

definition SSD_PAGE_SIZE_BYTES :: int where "SSD_PAGE_SIZE_BYTES = 4096"
definition SSD_PAGES_PER_BLOCK :: int where "SSD_PAGES_PER_BLOCK = 128"
definition SSD_CHANNELS :: int where "SSD_CHANNELS = 8"
definition SSD_DIES_PER_CHANNEL :: int where "SSD_DIES_PER_CHANNEL = 4"
definition SSD_PLANES_PER_DIE :: int where "SSD_PLANES_PER_DIE = 2"

definition T_R_US :: real where "T_R_US = 25"
definition T_PROG_US :: real where "T_PROG_US = 200"
definition T_BERS_US :: real where "T_BERS_US = 2000"
definition BUS_TRANSFER_US_PER_PAGE :: real where "BUS_TRANSFER_US_PER_PAGE = 5"
definition PCIE_OVERHEAD_US :: real where "PCIE_OVERHEAD_US = 10"

lemmas timing_defs = T_R_US_def T_PROG_US_def T_BERS_US_def
  BUS_TRANSFER_US_PER_PAGE_def PCIE_OVERHEAD_US_def

section \<open>Pages\<close>

datatype page_state = FREE | VALID | INVALID

record flash_page =
  page_id :: int
  size_bytes :: int
  pstate :: page_state
  data_block_id :: "int option"
  program_count :: nat
  read_count :: nat
  last_accessed_us :: real

definition new_page :: "int \<Rightarrow> int \<Rightarrow> flash_page" where
  "new_page pid sz = \<lparr>page_id = pid, size_bytes = sz, pstate = FREE, data_block_id = None,
     program_count = 0, read_count = 0, last_accessed_us = 0\<rparr>"

text \<open>\<open>program(data_block_id, block_id)\<close>: the first identifier that is not \<open>None\<close> is stored.\<close>

definition page_program :: "int option \<Rightarrow> int option \<Rightarrow> flash_page \<Rightarrow> flash_page res" where
  "page_program dbid bid p =
     (let b = (if dbid \<noteq> None then dbid else bid)
      in if pstate p \<noteq> FREE then Inl ValueError
         else Inr (p\<lparr>pstate := VALID, data_block_id := b,
                     program_count := Suc (program_count p)\<rparr>))"

definition page_read :: "real \<Rightarrow> flash_page \<Rightarrow> int option \<times> flash_page" where
  "page_read t p =
     (let p' = p\<lparr>read_count := Suc (read_count p), last_accessed_us := t\<rparr>
      in (if pstate p' = VALID then data_block_id p' else None, p'))"

definition page_invalidate :: "flash_page \<Rightarrow> flash_page" where
  "page_invalidate p = p\<lparr>pstate := INVALID, data_block_id := None\<rparr>"

definition page_erase :: "flash_page \<Rightarrow> flash_page" where
  "page_erase p = p\<lparr>pstate := FREE, data_block_id := None, read_count := 0\<rparr>"

text \<open>\<open>__eq__\<close> accepts an integer (compared with the page id), a page, or anything else.\<close>

datatype py_obj = ObjInt int | ObjPage flash_page | ObjOther

fun page_eq :: "flash_page \<Rightarrow> py_obj \<Rightarrow> bool" where
  "page_eq p (ObjInt i) \<longleftrightarrow> page_id p = i"
| "page_eq p (ObjPage q) \<longleftrightarrow> page_id p = page_id q \<and> pstate p = pstate q \<and>
     data_block_id p = data_block_id q"
| "page_eq p ObjOther \<longleftrightarrow> False"

section \<open>Erase blocks\<close>

record flash_block =
  fb_id :: int
  pages_count :: int
  max_erase_cycles :: int
  pages :: "flash_page list"
  erase_count :: nat
  free_page_index :: nat

definition new_block :: "int \<Rightarrow> int \<Rightarrow> int \<Rightarrow> flash_block" where
  "new_block bid n mx = \<lparr>fb_id = bid, pages_count = n, max_erase_cycles = mx,
     pages = map (\<lambda>i. new_page i SSD_PAGE_SIZE_BYTES) [0..n - 1],
     erase_count = 0, free_page_index = 0\<rparr>"

definition count_state :: "page_state \<Rightarrow> flash_block \<Rightarrow> nat" where
  "count_state s b = length (filter (\<lambda>p. pstate p = s) (pages b))"

definition valid_page_count :: "flash_block \<Rightarrow> nat" where
  "valid_page_count b = count_state VALID b"

definition invalid_page_count :: "flash_block \<Rightarrow> nat" where
  "invalid_page_count b = count_state INVALID b"

definition free_page_count :: "flash_block \<Rightarrow> nat" where
  "free_page_count b = count_state FREE b"

definition is_full :: "flash_block \<Rightarrow> bool" where
  "is_full b \<longleftrightarrow> length (pages b) \<le> free_page_index b"

definition is_empty_block :: "flash_block \<Rightarrow> bool" where
  "is_empty_block b \<longleftrightarrow> free_page_count b = length (pages b)"

definition is_bad_block :: "flash_block \<Rightarrow> bool" where
  "is_bad_block b \<longleftrightarrow> max_erase_cycles b \<le> int (erase_count b)"

definition garbage_ratio :: "flash_block \<Rightarrow> real" where
  "garbage_ratio b = (if pages b \<noteq> [] then real (invalid_page_count b) / real (length (pages b)) else 0)"

text \<open>
  \<open>allocate_page\<close>: \<open>None\<close> when every page has been handed out; an exception of
  \<open>program\<close> leaves the block as it was, because the index is advanced afterwards.
\<close>

definition allocate_page ::
    "int option \<Rightarrow> int option \<Rightarrow> flash_block \<Rightarrow> (flash_page option \<times> flash_block) res" where
  "allocate_page dbid lbid b =
     (let bid = (if dbid \<noteq> None then dbid else lbid)
      in if length (pages b) \<le> free_page_index b then Inr (None, b)
         else (case page_program bid None (pages b ! free_page_index b) of
                 Inl e \<Rightarrow> Inl e
               | Inr p \<Rightarrow> Inr (Some p, b\<lparr>pages := (pages b)[free_page_index b := p],
                                        free_page_index := Suc (free_page_index b)\<rparr>)))"

definition block_erase :: "flash_block \<Rightarrow> flash_block" where
  "block_erase b = b\<lparr>pages := map page_erase (pages b), free_page_index := 0,
                     erase_count := Suc (erase_count b)\<rparr>"

text \<open>Invalidating page \<open>i\<close> of a block (what a client does through \<open>block[i]\<close>).\<close>

definition block_invalidate :: "nat \<Rightarrow> flash_block \<Rightarrow> flash_block" where
  "block_invalidate i b = b\<lparr>pages := (pages b)[i := page_invalidate (pages b ! i)]\<rparr>"

section \<open>Planes and dies\<close>

record flash_plane =
  plane_id :: int
  blocks :: "flash_block list"

definition new_plane :: "int \<Rightarrow> int \<Rightarrow> flash_plane" where
  "new_plane pid n = \<lparr>plane_id = pid,
     blocks = map (\<lambda>i. new_block i SSD_PAGES_PER_BLOCK 3000) [0..n - 1]\<rparr>"

definition total_valid_pages :: "flash_plane \<Rightarrow> nat" where
  "total_valid_pages pl = sum_list (map valid_page_count (blocks pl))"

definition total_invalid_pages :: "flash_plane \<Rightarrow> nat" where
  "total_invalid_pages pl = sum_list (map invalid_page_count (blocks pl))"

definition total_free_pages :: "flash_plane \<Rightarrow> nat" where
  "total_free_pages pl = sum_list (map free_page_count (blocks pl))"

record flash_die =
  die_id :: int
  planes :: "flash_plane list"
  busy_until_us :: real

definition new_die :: "int \<Rightarrow> int \<Rightarrow> int \<Rightarrow> flash_die" where
  "new_die did npl nblk = \<lparr>die_id = did, planes = map (\<lambda>p. new_plane p nblk) [0..npl - 1],
     busy_until_us = 0\<rparr>"

definition is_busy :: "real \<Rightarrow> flash_die \<Rightarrow> bool" where
  "is_busy t d \<longleftrightarrow> t < busy_until_us d"

definition die_schedule :: "real \<Rightarrow> real \<Rightarrow> flash_die \<Rightarrow> real \<times> flash_die" where
  "die_schedule dur t d =
     (let fin = max t (busy_until_us d) + dur in (fin, d\<lparr>busy_until_us := fin\<rparr>))"

definition schedule_read :: "real \<Rightarrow> flash_die \<Rightarrow> real \<times> flash_die" where
  "schedule_read t d = die_schedule T_R_US t d"

definition schedule_program :: "real \<Rightarrow> flash_die \<Rightarrow> real \<times> flash_die" where
  "schedule_program t d = die_schedule T_PROG_US t d"

definition schedule_erase :: "real \<Rightarrow> flash_die \<Rightarrow> real \<times> flash_die" where
  "schedule_erase t d = die_schedule T_BERS_US t d"

definition die_reset :: "flash_die \<Rightarrow> flash_die" where
  "die_reset d = d\<lparr>busy_until_us := 0\<rparr>"

section \<open>The block state machine\<close>

text \<open>Reading page \<open>i\<close> of a block.\<close>

definition block_read :: "nat \<Rightarrow> real \<Rightarrow> flash_block \<Rightarrow> flash_block" where
  "block_read i t b = b\<lparr>pages := (pages b)[i := snd (page_read t (pages b ! i))]\<rparr>"

text \<open>
  What a client may do with a block: besides allocation and erasure of the block it can read,
  program, invalidate and erase any of its pages. A call that raises leaves the block as it was.
\<close>

inductive block_step :: "flash_block \<Rightarrow> flash_block \<Rightarrow> bool" where
  st_alloc: "allocate_page d l b = Inr (r, b') \<Longrightarrow> block_step b b'"
| st_read: "i < length (pages b) \<Longrightarrow> block_step b (block_read i t b)"
| st_program: "i < length (pages b) \<Longrightarrow> page_program d l (pages b ! i) = Inr p \<Longrightarrow> block_step b (b\<lparr>pages := (pages b)[i := p]\<rparr>)"
| st_invalidate: "i < length (pages b) \<Longrightarrow> block_step b (block_invalidate i b)"
| st_erase_page: "i < length (pages b) \<Longrightarrow> block_step b (b\<lparr>pages := (pages b)[i := page_erase (pages b ! i)]\<rparr>)"
| st_erase: "block_step b (block_erase b)"

inductive_cases block_stepE: "block_step b b'"

text \<open>
  The discipline of a flash translation layer: pages are programmed by allocation only, only
  pages handed out are invalidated, and pages are erased with their block.
\<close>

inductive ordered_step :: "flash_block \<Rightarrow> flash_block \<Rightarrow> bool" where
  bs_alloc: "allocate_page d l b = Inr (r, b') \<Longrightarrow> ordered_step b b'"
| bs_read: "i < length (pages b) \<Longrightarrow> ordered_step b (block_read i t b)"
| bs_invalidate: "i < free_page_index b \<Longrightarrow> i < length (pages b) \<Longrightarrow> ordered_step b (block_invalidate i b)"
| bs_erase: "ordered_step b (block_erase b)"

inductive_cases ordered_stepE: "ordered_step b b'"

definition page_ok :: "nat \<Rightarrow> nat \<Rightarrow> nat \<Rightarrow> flash_page \<Rightarrow> bool" where
  "page_ok fp ec i p \<longleftrightarrow> page_id p = int i \<and> (pstate p = FREE \<longleftrightarrow> fp \<le> i) \<and>
     program_count p \<le> (if fp \<le> i then ec else Suc ec) \<and>
     (data_block_id p \<noteq> None \<longrightarrow> pstate p = VALID)"

definition block_inv :: "flash_block \<Rightarrow> bool" where
  "block_inv b \<longleftrightarrow> free_page_index b \<le> length (pages b) \<and>
     (\<forall>i<length (pages b). page_ok (free_page_index b) (erase_count b) i (pages b ! i))"

lemmas block_op_defs = allocate_page_def page_program_def block_read_def page_read_def
  block_invalidate_def page_invalidate_def block_erase_def page_erase_def

lemma new_block_inv [inv_intros]: "block_inv (new_block bid n mx)"
  by (auto simp: block_inv_def page_ok_def new_block_def new_page_def nth_upto)

text \<open>Under the invariant the page at the free index is free, so \<open>program\<close> never raises.\<close>

lemma allocate_page_cases:
  assumes "block_inv b"
  shows "allocate_page d l b =
    (if is_full b then Inr (None, b)
     else let p = (pages b ! free_page_index b)\<lparr>pstate := VALID,
                    data_block_id := (if d \<noteq> None then d else l),
                    program_count := Suc (program_count (pages b ! free_page_index b))\<rparr>
          in Inr (Some p, b\<lparr>pages := (pages b)[free_page_index b := p],
                           free_page_index := Suc (free_page_index b)\<rparr>))"
proof (cases "is_full b")
  case True
  then show ?thesis by (simp add: is_full_def allocate_page_def)
next
  case False
  then have "pstate (pages b ! free_page_index b) = FREE"
    using assms by (simp add: is_full_def block_inv_def page_ok_def)
  with False show ?thesis by (simp add: is_full_def allocate_page_def page_program_def Let_def)
qed

lemma page_ok_programmed:
  "page_ok fp ec fp p \<Longrightarrow> page_ok (Suc fp) ec fp
     (p\<lparr>pstate := VALID, data_block_id := d, program_count := Suc (program_count p)\<rparr>)"
  by (simp add: page_ok_def)

lemma page_ok_Suc: "page_ok fp ec i p \<Longrightarrow> fp \<noteq> i \<Longrightarrow> page_ok (Suc fp) ec i p"
  by (auto simp: page_ok_def not_less_eq_eq split: if_splits)

lemma page_ok_invalidate: "page_ok fp ec i p \<Longrightarrow> i < fp \<Longrightarrow> page_ok fp ec i (page_invalidate p)"
  by (simp add: page_ok_def page_invalidate_def)

lemma allocate_page_inv [inv_intros]:
  assumes "block_inv b" "allocate_page d l b = Inr (r, b')"
  shows "block_inv b'"
proof (cases "is_full b")
  case True
  with assms show ?thesis by (simp add: allocate_page_cases)
next
  case False
  with assms have b': "b' = b\<lparr>pages := (pages b)[free_page_index b :=
      (pages b ! free_page_index b)\<lparr>pstate := VALID, data_block_id := (if d \<noteq> None then d else l),
         program_count := Suc (program_count (pages b ! free_page_index b))\<rparr>],
      free_page_index := Suc (free_page_index b)\<rparr>"
    by (auto simp: allocate_page_cases Let_def)
  have "free_page_index b < length (pages b)" using False by (simp add: is_full_def)
  with assms(1) show ?thesis
    by (simp add: b' block_inv_def nth_list_update page_ok_programmed page_ok_Suc del: not_None_eq)
qed

lemma block_read_inv [inv_intros]:
  "block_inv b \<Longrightarrow> i < length (pages b) \<Longrightarrow> block_inv (block_read i t b)"
  by (auto simp: block_inv_def page_ok_def block_read_def page_read_def Let_def nth_list_update)

lemma block_invalidate_inv [inv_intros]:
  "block_inv b \<Longrightarrow> i < free_page_index b \<Longrightarrow> i < length (pages b) \<Longrightarrow>
   block_inv (block_invalidate i b)"
  by (simp add: block_inv_def block_invalidate_def nth_list_update page_ok_invalidate)

lemma block_erase_inv [inv_intros]: "block_inv b \<Longrightarrow> block_inv (block_erase b)"
  by (auto simp: block_inv_def page_ok_def block_erase_def page_erase_def split: if_splits)

lemma ordered_step_inv: "ordered_step b b' \<Longrightarrow> block_inv b \<Longrightarrow> block_inv b'"
  by (erule ordered_stepE) (auto intro: inv_intros)

lemma ordered_reachable_inv: "ordered_step\<^sup>*\<^sup>* (new_block bid n mx) b \<Longrightarrow> block_inv b"
  by (induction rule: rtranclp_induct) (auto intro: inv_intros ordered_step_inv)

lemma block_inv_free_count:
  assumes "block_inv b"
  shows "free_page_count b + free_page_index b = length (pages b)"
proof -
  let ?P = "\<lambda>p. pstate p = FREE" and ?n = "length (pages b)" and ?f = "free_page_index b"
  have "free_page_count b = card {i. i < ?n \<and> ?P (pages b ! i)}"
    by (simp add: free_page_count_def count_state_def length_filter_conv_card)
  also have "{i. i < ?n \<and> ?P (pages b ! i)} = {?f..<?n}"
    using assms by (auto simp: block_inv_def page_ok_def)
  finally show ?thesis using assms by (simp add: block_inv_def)
qed

lemma block_states_partition:
  "valid_page_count b + invalid_page_count b + free_page_count b = length (pages b)"
proof -
  have "length (filter (\<lambda>p. pstate p = VALID) ps) + length (filter (\<lambda>p. pstate p = INVALID) ps)
        + length (filter (\<lambda>p. pstate p = FREE) ps) = length ps" for ps :: "flash_page list"
  proof (induction ps)
    case (Cons p ps)
    then show ?case by (cases "pstate p") auto
  qed simp
  then show ?thesis
    by (simp add: valid_page_count_def invalid_page_count_def free_page_count_def count_state_def)
qed

text \<open>Whatever a client does, the pages stay where they are and the index within the block.\<close>

definition layout :: "int \<Rightarrow> flash_block \<Rightarrow> bool" where
  "layout n b \<longleftrightarrow> length (pages b) = nat n \<and> free_page_index b \<le> length (pages b) \<and>
     (\<forall>i<length (pages b). page_id (pages b ! i) = int i)"

lemma block_step_layout: "block_step b b' \<Longrightarrow> layout n b \<Longrightarrow> layout n b'"
  by (erule block_stepE)
    (auto simp: layout_def block_op_defs Let_def nth_list_update split: if_splits sum.splits)

lemma block_reachable_layout: "block_step\<^sup>*\<^sup>* (new_block bid n mx) b \<Longrightarrow> layout n b"
proof (induction rule: rtranclp_induct)
  case base
  then show ?case by (auto simp: layout_def new_block_def new_page_def nth_upto)
qed (rule block_step_layout)

lemma free_count_programmed:
  assumes "i < length (pages b)" "pstate (pages b ! i) = FREE" "pstate p = VALID"
  shows "Suc (free_page_count (b\<lparr>pages := (pages b)[i := p], free_page_index := f\<rparr>)) = free_page_count b"
proof -
  have "Suc (length (filter (\<lambda>p. pstate p = FREE) (xs[i := p]))) = length (filter (\<lambda>p. pstate p = FREE) xs)"
    if "i < length xs" "pstate (xs ! i) = FREE" for xs
    using that assms(3) by (induction xs arbitrary: i) (auto split: nat.split)
  with assms(1,2) show ?thesis by (simp add: free_page_count_def count_state_def)
qed

section \<open>Properties\<close>

text \<open>C9: The outcome of \<open>allocate_page\<close> on every block a client can reach by allocations and by
  reading, programming, invalidating or erasing its pages or the whole block. When all pages
  have been handed out it returns \<open>None\<close> and changes nothing. Otherwise it looks at the next page
  in order: a free page is programmed with the given identifier, every other page is left alone
  and one free page is consumed; a page that was invalidated or programmed behind the back of
  the block raises \<open>ValueError\<close>. After an erasure of the block the first page is handed out. A
  block whose pages are programmed by allocation, invalidated only once handed out, and erased
  together never raises, and returns \<open>None\<close> exactly when no page is free.\<close>

theorem block_allocation_sequential:
  assumes "block_step\<^sup>*\<^sup>* (new_block bid n mx) b"
  shows "(if is_full b then allocate_page d l b = Inr (None, b)
          else if pstate (pages b ! free_page_index b) \<noteq> FREE then allocate_page d l b = Inl ValueError
          else (\<exists>p b'. allocate_page d l b = Inr (Some p, b') \<and>
                page_id p = int (free_page_index b) \<and> pstate p = VALID \<and>
                data_block_id p = (if d \<noteq> None then d else l) \<and>
                pages b' = (pages b)[free_page_index b := p] \<and>
                free_page_index b' = Suc (free_page_index b) \<and>
                Suc (free_page_count b') = free_page_count b)) \<and>
    (0 < n \<longrightarrow> (\<exists>p b'. allocate_page d l (block_erase b) = Inr (Some p, b') \<and> page_id p = 0)) \<and>
    (ordered_step\<^sup>*\<^sup>* (new_block bid n mx) b \<longrightarrow>
       allocate_page d l b \<noteq> Inl ValueError \<and> (is_full b \<longleftrightarrow> free_page_count b = 0))"
proof (intro conjI impI)
  note lay = block_reachable_layout [OF assms]
  show "if is_full b then allocate_page d l b = Inr (None, b)
      else if pstate (pages b ! free_page_index b) \<noteq> FREE then allocate_page d l b = Inl ValueError
      else (\<exists>p b'. allocate_page d l b = Inr (Some p, b') \<and>
            page_id p = int (free_page_index b) \<and> pstate p = VALID \<and>
            data_block_id p = (if d \<noteq> None then d else l) \<and>
            pages b' = (pages b)[free_page_index b := p] \<and>
            free_page_index b' = Suc (free_page_index b) \<and>
            Suc (free_page_count b') = free_page_count b)"
    using lay by (auto simp: allocate_page_def page_program_def Let_def is_full_def layout_def free_count_programmed)
  show "\<exists>p b'. allocate_page d l (block_erase b) = Inr (Some p, b') \<and> page_id p = 0" if "0 < n"
    using lay that
    by (auto simp: allocate_page_def page_program_def Let_def block_erase_def page_erase_def layout_def nth_map)
  assume "ordered_step\<^sup>*\<^sup>* (new_block bid n mx) b"
  then have inv: "block_inv b" by (rule ordered_reachable_inv)
  show "allocate_page d l b \<noteq> Inl ValueError" by (simp add: allocate_page_cases [OF inv] Let_def)
  show "is_full b \<longleftrightarrow> free_page_count b = 0"
    using block_inv_free_count [OF inv] inv by (auto simp: is_full_def block_inv_def)
qed

lemma block_allocation_sequential_witness:
  "(\<exists>p b'. allocate_page None (Some 9) (new_block 0 2 3000) = Inr (Some p, b') \<and>
      page_id p = 0 \<and> data_block_id p = Some 9 \<and> pages b' = (pages (new_block 0 2 3000))[0 := p]) \<and>
   allocate_page (Some 99) None (block_invalidate 0 (new_block 0 2 3000)) = Inl ValueError"
proof -
  have "block_step (new_block 0 2 3000) (block_invalidate 0 (new_block 0 2 3000))"
    by (rule st_invalidate) (simp add: new_block_def)
  note bad = block_allocation_sequential [OF r_into_rtranclp, OF this, of "Some 99" None]
  have full: "\<not> is_full (new_block 0 2 3000)" "\<not> is_full (block_invalidate 0 (new_block 0 2 3000))"
    by (simp_all add: is_full_def new_block_def block_invalidate_def)
  have ix: "free_page_index (new_block 0 2 3000) = 0" "pstate (pages (new_block 0 2 3000) ! 0) = FREE"
    "pstate (pages (block_invalidate 0 (new_block 0 2 3000)) !
       free_page_index (block_invalidate 0 (new_block 0 2 3000))) = INVALID"
    by (simp_all add: new_block_def new_page_def block_invalidate_def page_invalidate_def)
  have "allocate_page (Some 99) None (block_invalidate 0 (new_block 0 2 3000)) = Inl ValueError"
    using bad full(2) ix(3) by simp
  moreover have "\<exists>p b'. allocate_page None (Some 9) (new_block 0 2 3000) = Inr (Some p, b') \<and>
      page_id p = 0 \<and> data_block_id p = Some 9 \<and> pages b' = (pages (new_block 0 2 3000))[0 := p]"
    using block_allocation_sequential [OF rtranclp.rtrancl_refl, of 0 2 3000 None "Some 9"] full(1) ix(1,2) by auto
  ultimately show ?thesis by blast
qed

text \<open>NAND discipline. In a block used in this order no page is programmed twice between two
  erasures (its program count is at most the erase count plus one), a page carries an
  identifier only while it is valid, and valid, invalid and free pages partition the block.\<close>

theorem block_wear_bound:
  assumes "ordered_step\<^sup>*\<^sup>* (new_block bid n mx) b" and "i < length (pages b)"
  shows "program_count (pages b ! i) \<le> Suc (erase_count b) \<and>
    (data_block_id (pages b ! i) \<noteq> None \<longrightarrow> pstate (pages b ! i) = VALID) \<and>
    valid_page_count b + invalid_page_count b + free_page_count b = length (pages b)"
  using ordered_reachable_inv [OF assms(1)] assms(2) block_states_partition [of b]
  by (auto simp: block_inv_def page_ok_def split: if_splits)

lemma block_wear_bound_witness:
  "program_count (pages (block_erase (new_block 0 1 3000)) ! 0) \<le> Suc 1"
  using block_wear_bound [OF r_into_rtranclp [of ordered_step, OF bs_erase [of "new_block 0 1 3000"]],
      of 0]
  by (simp add: block_erase_def new_block_def)

end
