(* ===== verification/Channel.thy ===== *)
theory Channel
  imports Nand
begin

text \<open>
  The channel bus of \<open>person2_ssd/channels/channel.py\<close>: requests queue up on a channel, dies
  sense pages in parallel, and the transfers of one channel share one bus.
\<close>

section \<open>Requests and channels\<close>

datatype op_type = READ | PROGRAM | ERASE | OtherOp string

datatype req_id = ReqStr string | ReqInt int

record chan_req =
  request_id :: req_id
  cr_die_id :: int
  cr_plane_id :: int
  cr_block_id :: int
  cr_page_id :: int
  op_type :: op_type
  arrival_time_us :: real
  transfer_time_us :: real
  start_time_us :: real
  completion_time_us :: real

record flash_channel =
  channel_id :: int
  dies :: "flash_die list"
  bus_busy_until_us :: real
  queue :: "chan_req list"
  completed_transfers :: "chan_req list"

definition new_channel :: "int \<Rightarrow> int \<Rightarrow> int \<Rightarrow> int \<Rightarrow> flash_channel" where
  "new_channel cid nd npl nblk = \<lparr>channel_id = cid,
     dies = map (\<lambda>d. new_die d npl nblk) [0..nd - 1],
     bus_busy_until_us = 0, queue = [], completed_transfers = []\<rparr>"

definition schedule_transfer :: "real \<Rightarrow> real \<Rightarrow> flash_channel \<Rightarrow> real \<times> flash_channel" where
  "schedule_transfer now tt c =
     (let fin = max now (bus_busy_until_us c) + tt in (fin, c\<lparr>bus_busy_until_us := fin\<rparr>))"

definition enqueue_request :: "chan_req \<Rightarrow> flash_channel \<Rightarrow> flash_channel" where
  "enqueue_request r c = c\<lparr>queue := queue c @ [r]\<rparr>"

text \<open>
  The die of a request, \<open>None\<close> when the id is out of range. The code then tests \<open>if die\<close>;
  \<open>FlashDie\<close> defines \<open>__len__\<close>, so a die without planes counts as false too.
\<close>

definition live_die :: "flash_channel \<Rightarrow> int \<Rightarrow> flash_die option" where
  "live_die c i = (if 0 \<le> i \<and> i < int (length (dies c))
     then (let d = dies c ! nat i in if planes d \<noteq> [] then Some d else None) else None)"

definition put_die :: "int \<Rightarrow> flash_die \<Rightarrow> flash_channel \<Rightarrow> flash_channel" where
  "put_die i d c = c\<lparr>dies := (dies c)[nat i := d]\<rparr>"

text \<open>One iteration of the loop of \<open>process_queue\<close>: bus start, bus finish and the channel.\<close>

definition bus_slot :: "real \<Rightarrow> chan_req \<Rightarrow> flash_channel \<Rightarrow> (real \<times> real) \<times> flash_channel" where
  "bus_slot base r c =
     (let t = arrival_time_us r + base; bus = bus_busy_until_us c; die = live_die c (cr_die_id r)
      in case op_type r of
           READ \<Rightarrow>
             (let (sf, c') = (case die of
                    Some d \<Rightarrow> (let (f, d') = schedule_read t d in (f, put_die (cr_die_id r) d' c))
                  | None \<Rightarrow> (t + T_R_US, c));
                  bs = max sf bus
              in ((bs, bs + transfer_time_us r), c'))
         | PROGRAM \<Rightarrow>
             (let bs = max t bus; bf = bs + transfer_time_us r;
                  c' = (case die of
                    Some d \<Rightarrow> put_die (cr_die_id r) (snd (schedule_program bf d)) c
                  | None \<Rightarrow> c)
              in ((bs, bf), c'))
         | ERASE \<Rightarrow>
             (let c' = (case die of
                    Some d \<Rightarrow> put_die (cr_die_id r) (snd (schedule_erase t d)) c
                  | None \<Rightarrow> c);
                  bs = max t bus
              in ((bs, bs), c'))
         | OtherOp _ \<Rightarrow>
             (let bs = max t bus in ((bs, bs + transfer_time_us r), c)))"

definition process_request :: "real \<Rightarrow> chan_req \<Rightarrow> flash_channel \<Rightarrow> flash_channel" where
  "process_request base r c =
     (let ((bs, bf), c') = bus_slot base r c
      in c'\<lparr>bus_busy_until_us := max (bus_busy_until_us c) bf,
             completed_transfers := completed_transfers c @
               [r\<lparr>start_time_us := bs, completion_time_us := bf\<rparr>]\<rparr>)"

definition process_queue :: "real \<Rightarrow> flash_channel \<Rightarrow> real \<times> flash_channel" where
  "process_queue base c =
     (let c' = fold (process_request base) (queue c) c
      in (bus_busy_until_us c', c'\<lparr>queue := []\<rparr>))"

definition channel_reset :: "flash_channel \<Rightarrow> flash_channel" where
  "channel_reset c = c\<lparr>bus_busy_until_us := 0, queue := [], completed_transfers := [],
     dies := map die_reset (dies c)\<rparr>"

section \<open>The bus is never shared\<close>

lemmas slot_defs = bus_slot_def Let_def put_die_def schedule_read_def schedule_program_def
  schedule_erase_def die_schedule_def

text \<open>A slot starts no earlier than the bus is free and no earlier than the request arrives.\<close>

lemma bus_slot_start:
  assumes "bus_slot base r c = ((bs, bf), c')"
  shows "bus_busy_until_us c \<le> bs" and "arrival_time_us r + base \<le> bs"
  using assms
  by (auto simp: slot_defs timing_defs split: op_type.splits option.splits)

lemma bus_slot_finish:
  assumes "bus_slot base r c = ((bs, bf), c')"
  shows "bf = bs + (if op_type r = ERASE then 0 else transfer_time_us r)"
  using assms by (auto simp: slot_defs split: op_type.splits option.splits)

lemma bus_slot_frame:
  assumes "bus_slot base r c = ((bs, bf), c')"
  shows "queue c' = queue c" and "completed_transfers c' = completed_transfers c"
    and "length (dies c') = length (dies c)" and "channel_id c' = channel_id c"
  using assms by (auto simp: slot_defs split: op_type.splits option.splits)

text \<open>Transfers of a list are in bus order: each one starts after all earlier ones ended.\<close>

definition bus_ordered :: "chan_req list \<Rightarrow> bool" where
  "bus_ordered rs \<longleftrightarrow> sorted_wrt (\<lambda>a b. completion_time_us a \<le> start_time_us b) rs"

definition channel_inv :: "flash_channel \<Rightarrow> bool" where
  "channel_inv c \<longleftrightarrow> bus_ordered (completed_transfers c) \<and>
     (\<forall>r\<in>set (completed_transfers c). start_time_us r \<le> completion_time_us r \<and>
        completion_time_us r \<le> bus_busy_until_us c)"

definition req_ok :: "chan_req \<Rightarrow> bool" where
  "req_ok r \<longleftrightarrow> 0 \<le> transfer_time_us r"

lemma process_request_inv:
  assumes "channel_inv c" "req_ok r"
  shows "channel_inv (process_request base r c)"
proof -
  obtain bs bf c' where s: "bus_slot base r c = ((bs, bf), c')" by (metis prod.collapse)
  note st = bus_slot_start(1) [OF s] and fi = bus_slot_finish [OF s]
  have le: "bs \<le> bf" using fi assms(2) by (simp add: req_ok_def)
  show ?thesis
    using assms(1) st le
    by (auto simp: channel_inv_def process_request_def s bus_ordered_def sorted_wrt_append
        intro: order_trans max.coboundedI1)
qed

lemma process_request_queue [simp]: "queue (process_request base r c) = queue c"
proof -
  obtain bs bf c' where s: "bus_slot base r c = ((bs, bf), c')" by (metis prod.collapse)
  then show ?thesis using bus_slot_frame [OF s] by (simp add: process_request_def)
qed

text \<open>What identifies a request, without the two times the channel fills in.\<close>

definition req_core :: "chan_req \<Rightarrow> chan_req" where
  "req_core r = r\<lparr>start_time_us := 0, completion_time_us := 0\<rparr>"

lemma process_request_completed:
  "map req_core (completed_transfers (process_request base r c)) =
   map req_core (completed_transfers c) @ [req_core r]"
  by (simp add: process_request_def req_core_def split: prod.split)

lemma fold_process_inv:
  "channel_inv c \<Longrightarrow> \<forall>r\<in>set rs. req_ok r \<Longrightarrow> channel_inv (fold (process_request base) rs c)"
  by (induction rs arbitrary: c) (simp_all add: process_request_inv)

lemma fold_process_completed:
  "map req_core (completed_transfers (fold (process_request base) rs c)) =
   map req_core (completed_transfers c) @ map req_core rs"
  by (induction rs arbitrary: c) (simp_all add: process_request_completed)

lemma process_request_bus_mono: "bus_busy_until_us c \<le> bus_busy_until_us (process_request base r c)"
  by (simp add: process_request_def split: prod.split)

lemma fold_process_bus_mono:
  "bus_busy_until_us c \<le> bus_busy_until_us (fold (process_request base) rs c)"
proof (induction rs arbitrary: c)
  case (Cons r rs)
  show ?case
    using order_trans [OF process_request_bus_mono Cons.IH [of "process_request base r c"]]
    by simp
qed simp

lemma schedule_transfer_inv [inv_intros]:
  "channel_inv c \<Longrightarrow> 0 \<le> tt \<Longrightarrow> channel_inv (snd (schedule_transfer now tt c))"
  by (auto simp: channel_inv_def schedule_transfer_def Let_def)

lemma new_channel_inv [inv_intros]: "channel_inv (new_channel cid nd npl nblk)"
  by (simp add: channel_inv_def new_channel_def bus_ordered_def)

lemma channel_reset_inv [inv_intros]: "channel_inv (channel_reset c)"
  by (simp add: channel_inv_def channel_reset_def bus_ordered_def)

lemma enqueue_request_inv [inv_intros]: "channel_inv c \<Longrightarrow> channel_inv (enqueue_request r c)"
  by (simp add: channel_inv_def enqueue_request_def)

section \<open>The channel as a state machine\<close>

inductive channel_step :: "flash_channel \<Rightarrow> flash_channel \<Rightarrow> bool" where
  cs_transfer: "0 \<le> tt \<Longrightarrow> channel_step c (snd (schedule_transfer now tt c))"
| cs_enqueue: "req_ok r \<Longrightarrow> channel_step c (enqueue_request r c)"
| cs_process: "channel_step c (snd (process_queue base c))"
| cs_reset: "channel_step c (channel_reset c)"

inductive_cases channel_stepE: "channel_step c c'"

definition queue_ok :: "flash_channel \<Rightarrow> bool" where
  "queue_ok c \<longleftrightarrow> (\<forall>r\<in>set (queue c). req_ok r)"

lemma process_queue_inv [inv_intros]:
  "channel_inv c \<Longrightarrow> queue_ok c \<Longrightarrow> channel_inv (snd (process_queue base c))"
  using fold_process_inv [of c "queue c" base]
  by (simp add: process_queue_def queue_ok_def Let_def channel_inv_def)

lemma channel_step_queue_ok: "channel_step c c' \<Longrightarrow> queue_ok c \<Longrightarrow> queue_ok c'"
  by (erule channel_stepE)
    (auto simp: queue_ok_def schedule_transfer_def enqueue_request_def
      process_queue_def channel_reset_def Let_def)

lemma channel_step_inv:
  "channel_step c c' \<Longrightarrow> channel_inv c \<and> queue_ok c \<Longrightarrow> channel_inv c' \<and> queue_ok c'"
  by (frule channel_step_queue_ok) (auto elim!: channel_stepE intro: inv_intros)

lemma new_channel_queue_ok: "queue_ok (new_channel cid nd npl nblk)"
  by (simp add: queue_ok_def new_channel_def)

lemma channel_reachable_inv:
  "channel_step\<^sup>*\<^sup>* (new_channel cid nd npl nblk) c \<Longrightarrow> channel_inv c \<and> queue_ok c"
  by (induction rule: rtranclp_induct)
    (blast intro: inv_intros new_channel_queue_ok dest: channel_step_inv)+

text \<open>Reads of idle dies: each one only waits for the bus.\<close>

definition idle_read :: "flash_channel \<Rightarrow> chan_req \<Rightarrow> bool" where
  "idle_read c r \<longleftrightarrow> op_type r = READ \<and> arrival_time_us r = 0 \<and>
     transfer_time_us r = BUS_TRANSFER_US_PER_PAGE \<and> 0 \<le> cr_die_id r \<and>
     (\<forall>d. live_die c (cr_die_id r) = Some d \<longrightarrow> busy_until_us d \<le> 0)"

lemma process_idle_read_bus:
  assumes "idle_read c r"
  shows "bus_busy_until_us (process_request 0 r c) =
    max T_R_US (bus_busy_until_us c) + BUS_TRANSFER_US_PER_PAGE"
  using assms
  by (cases "live_die c (cr_die_id r)")
    (auto simp: process_request_def idle_read_def slot_defs timing_defs max_def)

lemma live_die_put_other:
  "0 \<le> i \<Longrightarrow> 0 \<le> j \<Longrightarrow> i \<noteq> j \<Longrightarrow> live_die (put_die i d c) j = live_die c j"
  by (simp add: live_die_def put_die_def Let_def)

lemma live_die_update [simp]: "live_die (c\<lparr>bus_busy_until_us := b, completed_transfers := x\<rparr>) j = live_die c j"
  by (simp add: live_die_def)

lemma process_idle_read_keeps:
  assumes "idle_read c r" "idle_read c r'" "cr_die_id r \<noteq> cr_die_id r'"
  shows "idle_read (process_request 0 r c) r'"
proof -
  have "live_die (process_request 0 r c) (cr_die_id r') = live_die c (cr_die_id r')"
    using assms
    by (auto simp: process_request_def idle_read_def bus_slot_def Let_def live_die_put_other
        schedule_read_def die_schedule_def split: option.splits)
  with assms(2) show ?thesis by (simp add: idle_read_def)
qed

lemma fold_idle_reads:
  assumes "distinct (map cr_die_id rs)" "\<forall>r\<in>set rs. idle_read c r" "T_R_US \<le> bus_busy_until_us c"
  shows "bus_busy_until_us (fold (process_request 0) rs c) =
    bus_busy_until_us c + real (length rs) * BUS_TRANSFER_US_PER_PAGE"
  using assms
proof (induction rs arbitrary: c)
  case (Cons r rs)
  let ?c = "process_request 0 r c"
  have bus: "bus_busy_until_us ?c = bus_busy_until_us c + BUS_TRANSFER_US_PER_PAGE"
    using Cons.prems by (simp add: process_idle_read_bus max_def)
  have "\<forall>r'\<in>set rs. idle_read ?c r'"
    using Cons.prems by (auto intro!: process_idle_read_keeps)
  with Cons.IH [of ?c] Cons.prems bus show ?case
    by (simp add: timing_defs algebra_simps)
qed simp

lemma put_live_same: "live_die c i = Some d \<Longrightarrow> planes d' \<noteq> [] \<Longrightarrow> live_die (put_die i d' c) i = Some d'"
  by (auto simp: live_die_def put_die_def Let_def split: if_splits)

section \<open>Properties\<close>

text \<open>C10: Bus exclusion. In every reachable channel (transfers, enqueues, queue processing and
  resets in any order) no two recorded transfers overlap on the bus: a transfer completes
  before every later one starts, and the bus is marked busy until the last one ends.\<close>

theorem channel_transfers_never_overlap:
  assumes "channel_step\<^sup>*\<^sup>* (new_channel cid nd npl nblk) c"
    and "i < j" "j < length (completed_transfers c)"
  shows "completion_time_us (completed_transfers c ! i) \<le> start_time_us (completed_transfers c ! j) \<and>
    start_time_us (completed_transfers c ! j) \<le> completion_time_us (completed_transfers c ! j) \<and>
    completion_time_us (completed_transfers c ! j) \<le> bus_busy_until_us c"
  using channel_reachable_inv [OF assms(1)] assms(2,3)
  by (auto simp: channel_inv_def bus_ordered_def sorted_wrt_iff_nth_less)

text \<open>\<open>process_queue\<close> serves the whole queue once and in FIFO order: the requests of the
  queue, unchanged but for their two times, are appended to the completed transfers in the
  order they were enqueued, the queue is emptied, the bus time it returns never decreases.\<close>

theorem process_queue_fifo:
  "map req_core (completed_transfers (snd (process_queue base c))) =
     map req_core (completed_transfers c) @ map req_core (queue c) \<and>
   queue (snd (process_queue base c)) = [] \<and>
   fst (process_queue base c) = bus_busy_until_us (snd (process_queue base c)) \<and>
   bus_busy_until_us c \<le> fst (process_queue base c)"
  by (simp add: process_queue_def Let_def fold_process_completed fold_process_bus_mono)

text \<open>Dies sense in parallel and only the bus serialises: \<open>n > 0\<close> reads of distinct idle dies
  on an idle bus complete after one sensing time plus \<open>n\<close> bus transfers.\<close>

theorem parallel_sensing_serial_bus:
  assumes "queue c \<noteq> []" "distinct (map cr_die_id (queue c))" "\<forall>r\<in>set (queue c). idle_read c r"
    and "bus_busy_until_us c = 0"
  shows "fst (process_queue 0 c) =
    T_R_US + real (length (queue c)) * BUS_TRANSFER_US_PER_PAGE"
proof -
  obtain r rs where q: "queue c = r # rs" using assms(1) by (cases "queue c") auto
  let ?c = "process_request 0 r c"
  have bus: "bus_busy_until_us ?c = T_R_US + BUS_TRANSFER_US_PER_PAGE"
    using assms q by (simp add: process_idle_read_bus max_def timing_defs)
  have idle: "\<forall>r'\<in>set rs. idle_read ?c r'"
    using assms q by (auto intro!: process_idle_read_keeps)
  have "bus_busy_until_us (fold (process_request 0) rs ?c) =
      bus_busy_until_us ?c + real (length rs) * BUS_TRANSFER_US_PER_PAGE"
    using assms q idle bus by (intro fold_idle_reads) (auto simp: timing_defs)
  then show ?thesis using bus q by (simp add: process_queue_def Let_def algebra_simps)
qed

definition sample_read :: "int \<Rightarrow> chan_req" where
  "sample_read d = \<lparr>request_id = ReqStr ''r'', cr_die_id = d, cr_plane_id = 0, cr_block_id = 0,
     cr_page_id = 0, op_type = READ, arrival_time_us = 0, transfer_time_us = 5,
     start_time_us = 0, completion_time_us = 0\<rparr>"

definition sample_channel :: flash_channel where
  "sample_channel = enqueue_request (sample_read 1) (enqueue_request (sample_read 0) (new_channel 0 2 1 0))"

lemmas sample_channel_defs = sample_channel_def sample_read_def enqueue_request_def
  new_channel_def new_die_def new_plane_def

lemma sample_channel_queue: "queue sample_channel = [sample_read 0, sample_read 1]"
  by (simp add: sample_channel_defs)

lemma sample_channel_reach: "channel_step\<^sup>*\<^sup>* (new_channel 0 2 1 0) (snd (process_queue 0 sample_channel))"
proof -
  have ok: "req_ok (sample_read d)" for d by (simp add: req_ok_def sample_read_def)
  have "channel_step\<^sup>*\<^sup>* (new_channel 0 2 1 0) sample_channel"
    unfolding sample_channel_def
    by (rule rtranclp_trans [OF r_into_rtranclp r_into_rtranclp]) (rule cs_enqueue [OF ok])+
  then show ?thesis by (rule rtranclp.rtrancl_into_rtrancl) (rule cs_process)
qed

lemma sample_channel_completed:
  "length (completed_transfers (snd (process_queue 0 sample_channel))) = 2"
  using arg_cong [OF fold_process_completed [of 0 "queue sample_channel" sample_channel], of length]
  by (simp add: process_queue_def Let_def sample_channel_queue)
    (simp add: sample_channel_defs)

lemma channel_transfers_never_overlap_witness:
  "let ts = completed_transfers (snd (process_queue 0 sample_channel))
   in completion_time_us (ts ! 0) \<le> start_time_us (ts ! 1)"
  using channel_transfers_never_overlap [OF sample_channel_reach, of 0 1]
  by (simp add: sample_channel_completed Let_def)

lemma parallel_sensing_serial_bus_witness: "fst (process_queue 0 sample_channel) = 35"
  using parallel_sensing_serial_bus [of sample_channel]
  by (simp add: sample_channel_queue)
    (simp add: sample_channel_defs idle_read_def live_die_def timing_defs)

end
