(* ===== verification/Location.thy ===== *)
theory Location
  imports Prelude
begin

text \<open>
  The data the storage side exchanges: the \<open>KVBlock\<close> schema of \<open>common/schemas/kv_block.py\<close>,
  and the physical location strings \<open>ch<C>_die<D>_pl<P>_blk<B>_pg<G>\<close> that the FTLs print
  and that \<open>storage_model\<close> parses back with regular expressions
  (\<open>io_model.py\<close>, \<open>latency.py\<close>). Strings are lists of 8-bit characters.
\<close>

section \<open>Characters\<close>

definition char_code :: "char \<Rightarrow> nat" where "char_code c = of_char c"

definition is_digit :: "char \<Rightarrow> bool" where
  "is_digit c \<longleftrightarrow> 48 \<le> char_code c \<and> char_code c \<le> 57"

definition digit_val :: "char \<Rightarrow> int" where
  "digit_val c = int (char_code c) - 48"

definition digit_char :: "nat \<Rightarrow> char" where
  "digit_char n = char_of (48 + n)"

definition lower_char :: "char \<Rightarrow> char" where
  "lower_char c = (if 65 \<le> char_code c \<and> char_code c \<le> 90 then char_of (char_code c + 32) else c)"

definition upper_char :: "char \<Rightarrow> char" where
  "upper_char c = (if 97 \<le> char_code c \<and> char_code c \<le> 122 then char_of (char_code c - 32) else c)"

definition lower_str :: "string \<Rightarrow> string" where "lower_str = map lower_char"
definition upper_str :: "string \<Rightarrow> string" where "upper_str = map upper_char"

section \<open>Decimal numbers\<close>

text \<open>What an f-string prints for an integer, and what \<open>int\<close> reads from a run of digits.\<close>

fun show_nat :: "nat \<Rightarrow> string" where
  "show_nat n = (if n < 10 then [digit_char n] else show_nat (n div 10) @ [digit_char (n mod 10)])"

declare show_nat.simps [simp del]

definition show_int :: "int \<Rightarrow> string" where
  "show_int i = (if i < 0 then CHR ''-'' # show_nat (nat (- i)) else show_nat (nat i))"

definition read_digits :: "string \<Rightarrow> int" where
  "read_digits = foldl (\<lambda>n c. 10 * n + digit_val c) 0"

lemma digit_char_code: "n < 10 \<Longrightarrow> char_code (digit_char n) = 48 + n"
  by (simp add: char_code_def digit_char_def of_char_of)

lemma is_digit_digit_char: "n < 10 \<Longrightarrow> is_digit (digit_char n)"
  by (simp add: is_digit_def digit_char_code)

lemma show_nat_digits: "\<forall>c\<in>set (show_nat n). is_digit c"
proof (induction n rule: show_nat.induct)
  case (1 n)
  then show ?case
    by (subst show_nat.simps) (auto simp: is_digit_digit_char)
qed

lemma show_nat_nonempty: "show_nat n \<noteq> []"
  by (subst show_nat.simps) simp

lemma read_show_nat: "read_digits (show_nat n) = int n"
proof (induction n rule: show_nat.induct)
  case (1 n)
  show ?case
  proof (cases "n < 10")
    case True
    then show ?thesis
      by (subst show_nat.simps) (simp add: read_digits_def digit_val_def digit_char_code)
  next
    case False
    have "read_digits (show_nat n) = 10 * read_digits (show_nat (n div 10)) + digit_val (digit_char (n mod 10))"
      by (subst show_nat.simps) (simp add: read_digits_def False)
    also have "\<dots> = 10 * int (n div 10) + int (n mod 10)"
      using 1 False by (simp add: digit_val_def digit_char_code)
    also have "\<dots> = int n" by presburger
    finally show ?thesis .
  qed
qed

section \<open>Matching\<close>

text \<open>
  The two patterns are sequences of literals and runs of digits, matched without regard to
  case. A run of digits is greedy, and no backtracking can help: a literal that follows a run
  starts with an underscore.
\<close>

fun match_lit :: "string \<Rightarrow> string \<Rightarrow> string option" where
  "match_lit [] s = Some s"
| "match_lit (p # ps) [] = None"
| "match_lit (p # ps) (c # cs) = (if lower_char c = p then match_lit ps cs else None)"

definition match_num :: "string \<Rightarrow> (int \<times> string) option" where
  "match_num s = (let ds = takeWhile is_digit s
     in if ds = [] then None else Some (read_digits ds, dropWhile is_digit s))"

text \<open>A literal and then a number, e.g. \<open>_die(?P<die>\d+)\<close>.\<close>

definition match_field :: "string \<Rightarrow> string \<Rightarrow> (int \<times> string) option" where
  "match_field l s = Option.bind (match_lit l s) match_num"

definition match_plane :: "string \<Rightarrow> (int \<times> string) option" where
  "match_plane s = (case match_lit ''_plane'' s of
       Some r \<Rightarrow> match_num r
     | None \<Rightarrow> match_field ''_pl'' s)"

text \<open>\<open>re.search\<close>: the first position at which the pattern matches.\<close>

fun re_search :: "(string \<Rightarrow> 'a option) \<Rightarrow> string \<Rightarrow> 'a option" where
  "re_search m [] = m []"
| "re_search m (c # cs) = (case m (c # cs) of Some x \<Rightarrow> Some x | None \<Rightarrow> re_search m cs)"

type_synonym phys = "int \<times> int \<times> int \<times> int \<times> int"

definition match_location :: "string \<Rightarrow> phys option" where
  "match_location s =
     Option.bind (match_field ''ch'' s) (\<lambda>(ch, s).
     Option.bind (match_field ''_die'' s) (\<lambda>(die, s).
     Option.bind (match_plane s) (\<lambda>(pl, s).
     Option.bind (match_field ''_blk'' s) (\<lambda>(blk, s).
     Option.bind (match_field ''_pg'' s) (\<lambda>(pg, s). Some (ch, die, pl, blk, pg))))))"

definition parse_physical_location :: "string \<Rightarrow> phys option" where
  "parse_physical_location loc = (if loc = [] then None else re_search match_location loc)"

text \<open>\<open>(?:^|_)ch(\d+)\<close>: at the start of the string, or after an underscore anywhere.\<close>

definition extract_channel :: "string \<Rightarrow> int" where
  "extract_channel loc =
     (if loc = [] then 0
      else (case match_field ''ch'' loc of
              Some (c, _) \<Rightarrow> c
            | None \<Rightarrow> (case re_search (match_field ''_ch'') loc of
                        Some (c, _) \<Rightarrow> c
                      | None \<Rightarrow> 0)))"

text \<open>\<open>f"ch{ch}_die{die}_pl{pl}_blk{blk}_pg{pg}"\<close>.\<close>

definition location_str :: "phys \<Rightarrow> string" where
  "location_str p = (case p of (ch, die, pl, blk, pg) \<Rightarrow>
     ''ch'' @ show_int ch @ ''_die'' @ show_int die @ ''_pl'' @ show_int pl @
     ''_blk'' @ show_int blk @ ''_pg'' @ show_int pg)"

section \<open>Printing and parsing\<close>

lemma match_num_show:
  assumes "0 \<le> i" "rest = [] \<or> \<not> is_digit (hd rest)"
  shows "match_num (show_int i @ rest) = Some (i, rest)"
proof -
  have d: "\<forall>c\<in>set (show_int i). is_digit c" using assms(1) by (simp add: show_int_def show_nat_digits)
  have t: "takeWhile is_digit rest = []" "dropWhile is_digit rest = rest"
    using assms(2) by (cases rest; auto)+
  have "takeWhile is_digit (show_int i @ rest) = show_int i"
    "dropWhile is_digit (show_int i @ rest) = rest"
    using d t by (simp_all add: takeWhile_append2 dropWhile_append2)
  then show ?thesis
    using assms(1) by (simp add: match_num_def Let_def show_int_def show_nat_nonempty read_show_nat)
qed

lemma match_lit_app: "\<forall>c\<in>set l. lower_char c = c \<Longrightarrow> match_lit l (l @ s) = Some s"
  by (induction l) simp_all

lemma not_digit_simps: "\<not> is_digit CHR ''_''" "\<not> is_digit CHR ''a''"
  by (simp_all add: is_digit_def char_code_def)

lemma lower_lits: "lower_char c = c" if "c \<in> set ''chdieplbkg_ane''"
  using that by (auto simp: lower_char_def char_code_def)

lemma match_field_show:
  assumes "\<forall>c\<in>set l. lower_char c = c" "0 \<le> i" "rest = [] \<or> \<not> is_digit (hd rest)"
  shows "match_field l (l @ show_int i @ rest) = Some (i, rest)"
  using assms by (simp add: match_field_def match_lit_app match_num_show)

lemma match_lit_plane_num: "0 \<le> i \<Longrightarrow> match_lit ''_plane'' (''_pl'' @ show_int i @ rest) = None"
proof -
  assume "0 \<le> i"
  obtain c cs where s: "show_int i = c # cs" and "is_digit c"
    using \<open>0 \<le> i\<close> show_nat_digits [of "nat i"] show_nat_nonempty [of "nat i"]
    by (cases "show_nat (nat i)") (auto simp: show_int_def)
  then have "lower_char c \<noteq> CHR ''a''"
    by (auto simp: is_digit_def lower_char_def char_code_def)
  then show ?thesis by (simp add: s lower_lits)
qed

definition phys_ok :: "phys \<Rightarrow> bool" where
  "phys_ok p = (case p of (ch, die, pl, blk, pg) \<Rightarrow>
     0 \<le> ch \<and> 0 \<le> die \<and> 0 \<le> pl \<and> 0 \<le> blk \<and> 0 \<le> pg)"

lemma match_location_str: "phys_ok p \<Longrightarrow> match_location (location_str p) = Some p"
proof -
  assume ok: "phys_ok p"
  obtain ch die pl blk pg where p: "p = (ch, die, pl, blk, pg)" by (cases p) auto
  note ms = match_field_show [of _ _ "''_'' @ r" for r] match_field_show
  have f1: "match_field ''ch'' (''ch'' @ show_int ch @ CHR ''_'' # r) = Some (ch, CHR ''_'' # r)" for r
    by (rule match_field_show) (use ok p in \<open>auto simp: phys_ok_def lower_lits not_digit_simps\<close>)
  have f2: "match_field ''_die'' (''_die'' @ show_int die @ CHR ''_'' # r) = Some (die, CHR ''_'' # r)" for r
    by (rule match_field_show) (use ok p in \<open>auto simp: phys_ok_def lower_lits not_digit_simps\<close>)
  have f3: "match_plane (''_pl'' @ show_int pl @ CHR ''_'' # r) = Some (pl, CHR ''_'' # r)" for r
    unfolding match_plane_def using ok p
    by (simp only: match_lit_plane_num phys_ok_def prod.case option.case)
      (rule match_field_show, auto simp: lower_lits not_digit_simps)
  have f4: "match_field ''_blk'' (''_blk'' @ show_int blk @ CHR ''_'' # r) = Some (blk, CHR ''_'' # r)" for r
    by (rule match_field_show) (use ok p in \<open>auto simp: phys_ok_def lower_lits not_digit_simps\<close>)
  have f5: "match_field ''_pg'' (''_pg'' @ show_int pg @ []) = Some (pg, [])"
    by (rule match_field_show) (use ok p in \<open>auto simp: phys_ok_def lower_lits\<close>)
  show ?thesis
    using f1 f2 f3 f4 f5 by (simp add: match_location_def location_str_def p)
qed

lemma re_search_here: "m s = Some x \<Longrightarrow> re_search m s = Some x"
  by (cases s) simp_all

lemma location_str_nonempty: "location_str p \<noteq> []"
  by (cases p) (simp add: location_str_def)

lemma parse_location_str: "phys_ok p \<Longrightarrow> parse_physical_location (location_str p) = Some p"
  by (simp add: parse_physical_location_def location_str_nonempty re_search_here match_location_str)

lemma extract_channel_str: "phys_ok p \<Longrightarrow> extract_channel (location_str p) = fst p"
proof -
  assume "phys_ok p"
  obtain ch die pl blk pg where p: "p = (ch, die, pl, blk, pg)" by (cases p) auto
  have "match_field ''ch'' (location_str p) =
      Some (ch, ''_die'' @ show_int die @ ''_pl'' @ show_int pl @ ''_blk'' @ show_int blk @ ''_pg'' @ show_int pg)"
    using match_field_show [of "''ch''" ch "''_die'' @ show_int die @ ''_pl'' @ show_int pl @ ''_blk'' @ show_int blk @ ''_pg'' @ show_int pg"]
      \<open>phys_ok p\<close> by (simp add: location_str_def p phys_ok_def lower_lits not_digit_simps)
  then show ?thesis by (simp add: extract_channel_def location_str_nonempty p)
qed

lemma location_str_inj: "phys_ok p \<Longrightarrow> phys_ok q \<Longrightarrow> location_str p = location_str q \<longleftrightarrow> p = q"
  by (metis option.inject parse_location_str)

section \<open>KV blocks\<close>

definition KEY_PAGE_BYTES :: int where "KEY_PAGE_BYTES = 4096"
definition VALUE_PAGE_BYTES :: int where "VALUE_PAGE_BYTES = 4096"
definition LOGICAL_BLOCK_BYTES :: int where "LOGICAL_BLOCK_BYTES = 8192"

record kv_block =
  block_id :: int
  layer_id :: int
  token_start :: int
  token_count :: int
  kv_head_start :: int
  kv_head_count :: int
  head_dim :: int
  dtype :: string
  key_size_bytes :: int
  value_size_bytes :: int
  storage_tier :: string
  hotness :: real
  physical_location :: "string option"

definition total_size_bytes :: "kv_block \<Rightarrow> int" where
  "total_size_bytes b = key_size_bytes b + value_size_bytes b"

definition bytes_per_elem :: "string \<Rightarrow> int" where
  "bytes_per_elem dt = (if upper_str dt = ''FP32'' then 4 else if upper_str dt = ''FP16'' then 2 else 1)"

text \<open>The factory \<open>KVBlock.create_default\<close>.\<close>

definition create_default ::
    "int \<Rightarrow> int \<Rightarrow> int \<Rightarrow> int \<Rightarrow> int \<Rightarrow> int \<Rightarrow> int \<Rightarrow> string \<Rightarrow> string \<Rightarrow> real \<Rightarrow> kv_block" where
  "create_default bid lay ts tc hs hc hdim dt tier hot =
     (let calc = tc * hc * hdim * bytes_per_elem dt;
          page = (if tc = 0 then 0 else if 0 < calc then calc else KEY_PAGE_BYTES)
      in \<lparr>block_id = bid, layer_id = lay, token_start = ts, token_count = tc,
          kv_head_start = hs, kv_head_count = hc, head_dim = hdim, dtype = dt,
          key_size_bytes = page, value_size_bytes = page, storage_tier = tier,
          hotness = hot, physical_location = None\<rparr>)"

end
