(* ===== verification/Ftl.thy ===== *)
theory Ftl
  imports Location Nand
begin

text \<open>
  The flash translation layers of \<open>person2_ssd/ftl\<close>: the mapping table, the forward and
  reverse maps every FTL keeps (\<open>base.py\<close>), sequential placement (\<open>conventional.py\<close>) and
  striped placement (\<open>tensor_aware.py\<close>).
\<close>

section \<open>Mapping table and base class\<close>

type_synonym mapping_table = "(int, string) dict"

definition set_mapping :: "int \<Rightarrow> string \<Rightarrow> mapping_table \<Rightarrow> mapping_table" where
  "set_mapping bid loc m = dset bid loc m"

definition get_mapping :: "int \<Rightarrow> mapping_table \<Rightarrow> string option" where
  "get_mapping bid m = dget m bid"

definition remove_mapping :: "int \<Rightarrow> mapping_table \<Rightarrow> string option \<times> mapping_table" where
  "remove_mapping bid m = (dget m bid, dpop bid m)"

definition total_mapped :: "mapping_table \<Rightarrow> nat" where
  "total_mapped m = length m"

record geometry =
  channels :: int
  dies_per_channel :: int
  planes_per_die :: int
  blocks_per_plane :: int
  pages_per_block :: int

definition total_pages :: "geometry \<Rightarrow> int" where
  "total_pages g = channels g * dies_per_channel g * planes_per_die g * blocks_per_plane g *
     pages_per_block g"

definition geometry_ok :: "geometry \<Rightarrow> bool" where
  "geometry_ok g \<longleftrightarrow> 0 < channels g \<and> 0 < dies_per_channel g \<and> 0 < planes_per_die g \<and>
     0 < blocks_per_plane g \<and> 0 < pages_per_block g"

definition default_geometry :: "int \<Rightarrow> geometry" where
  "default_geometry c = \<lparr>channels = c, dies_per_channel = SSD_DIES_PER_CHANNEL,
     planes_per_die = SSD_PLANES_PER_DIE, blocks_per_plane = 64,
     pages_per_block = SSD_PAGES_PER_BLOCK\<rparr>"

lemmas geometry_const_defs = default_geometry_def SSD_DIES_PER_CHANNEL_def SSD_PLANES_PER_DIE_def
  SSD_PAGES_PER_BLOCK_def

record base_ftl =
  geom :: geometry
  mapping_table :: mapping_table
  reverse_map :: "(string, int) dict"

definition new_base_ftl :: "geometry \<Rightarrow> base_ftl" where
  "new_base_ftl g = \<lparr>geom = g, mapping_table = [], reverse_map = []\<rparr>"

definition record_mapping :: "int \<Rightarrow> string \<Rightarrow> 'a base_ftl_scheme \<Rightarrow> 'a base_ftl_scheme" where
  "record_mapping bid loc f =
     (let r = (case get_mapping bid (mapping_table f) of
                 Some old \<Rightarrow> dpop old (reverse_map f)
               | None \<Rightarrow> reverse_map f)
      in f\<lparr>mapping_table := set_mapping bid loc (mapping_table f), reverse_map := dset loc bid r\<rparr>)"

definition translate :: "int \<Rightarrow> 'a base_ftl_scheme \<Rightarrow> string option" where
  "translate bid f = get_mapping bid (mapping_table f)"

definition reverse_translate :: "string \<Rightarrow> 'a base_ftl_scheme \<Rightarrow> int option" where
  "reverse_translate loc f = dget (reverse_map f) loc"

definition base_reset :: "'a base_ftl_scheme \<Rightarrow> 'a base_ftl_scheme" where
  "base_reset f = f\<lparr>mapping_table := [], reverse_map := []\<rparr>"

text \<open>
  \<open>allocate_batch\<close> for an \<open>allocate\<close> of either class: an exception stops the loop and leaves
  the earlier allocations in place, so the state is returned beside the result.
\<close>

fun allocate_batch ::
    "(kv_block \<Rightarrow> 's \<Rightarrow> (string \<times> kv_block) res \<times> 's) \<Rightarrow> kv_block list \<Rightarrow> (int, string) dict \<Rightarrow> 's \<Rightarrow>
     (int, string) dict res \<times> 's" where
  "allocate_batch al [] acc f = (Inr acc, f)"
| "allocate_batch al (b # bs) acc f =
     (case al b f of
        (Inl e, f') \<Rightarrow> (Inl e, f')
      | (Inr (loc, _), f') \<Rightarrow> allocate_batch al bs (dset (block_id b) loc acc) f')"

section \<open>Conventional placement\<close>

record conventional_ftl = base_ftl +
  linear_counter :: int

definition new_conventional :: "geometry \<Rightarrow> conventional_ftl" where
  "new_conventional g = \<lparr>geom = g, mapping_table = [], reverse_map = [], linear_counter = 0\<rparr>"

text \<open>The mixed-radix digits of the counter: page, block, plane, die, channel.\<close>

definition conv_place :: "geometry \<Rightarrow> int \<Rightarrow> phys" where
  "conv_place g n =
     (let pg = n mod pages_per_block g; i1 = n div pages_per_block g;
          blk = i1 mod blocks_per_plane g; i2 = i1 div blocks_per_plane g;
          pl = i2 mod planes_per_die g; i3 = i2 div planes_per_die g;
          die = i3 mod dies_per_channel g; ch = i3 div dies_per_channel g
      in (ch, die, pl, blk, pg))"

definition conv_allocate ::
    "kv_block \<Rightarrow> conventional_ftl \<Rightarrow> (string \<times> kv_block) res \<times> conventional_ftl" where
  "conv_allocate b f =
     (if total_pages (geom f) \<le> linear_counter f then (Inl RuntimeError, f)
      else (let loc = location_str (conv_place (geom f) (linear_counter f));
                f' = record_mapping (block_id b) loc (f\<lparr>linear_counter := linear_counter f + 1\<rparr>)
            in (Inr (loc, b\<lparr>physical_location := Some loc\<rparr>), f')))"

definition conv_reset :: "conventional_ftl \<Rightarrow> conventional_ftl" where
  "conv_reset f = base_reset (f\<lparr>linear_counter := 0\<rparr>)"

section \<open>Tensor-aware placement\<close>

record tensor_ftl = base_ftl +
  channel_counters :: "int list"

definition new_tensor_ftl :: "geometry \<Rightarrow> tensor_ftl" where
  "new_tensor_ftl g = \<lparr>geom = g, mapping_table = [], reverse_map = [],
     channel_counters = replicate (nat (channels g)) 0\<rparr>"

text \<open>\<open>max(1, token_count or 16)\<close> and \<open>token_start // token_count\<close>.\<close>

definition block_tokens :: "kv_block \<Rightarrow> int" where
  "block_tokens b = max 1 (if token_count b = 0 then 16 else token_count b)"

definition token_block_idx :: "kv_block \<Rightarrow> int" where
  "token_block_idx b = token_start b div block_tokens b"

definition ta_channel :: "geometry \<Rightarrow> int \<Rightarrow> int \<Rightarrow> int" where
  "ta_channel g head tbi = (head + tbi + tbi div channels g) mod channels g"

definition ta_place :: "geometry \<Rightarrow> int list \<Rightarrow> kv_block \<Rightarrow> phys" where
  "ta_place g cnt b =
     (let tbi = token_block_idx b; head = kv_head_start b; layer = layer_id b;
          ch = ta_channel g head tbi;
          die = (layer + head div channels g + tbi div channels g) mod dies_per_channel g;
          pl = (tbi div (channels g * dies_per_channel g)) mod planes_per_die g;
          c = cnt ! nat ch;
          pg = c mod pages_per_block g;
          blk = (c div pages_per_block g) mod blocks_per_plane g
      in (ch, die, pl, blk, pg))"

text \<open>
  With a radix of zero Python raises \<open>ZeroDivisionError\<close> before any state changes; a negative
  number of channels is outside the model (\<open>[0] * channels\<close> is then empty).
\<close>

definition ta_allocate :: "kv_block \<Rightarrow> tensor_ftl \<Rightarrow> (string \<times> kv_block) res \<times> tensor_ftl" where
  "ta_allocate b f =
     (let g = geom f; ch = ta_channel g (kv_head_start b) (token_block_idx b)
      in if channels g = 0 \<or> dies_per_channel g = 0 \<or> planes_per_die g = 0 \<or>
            pages_per_block g = 0 \<or> blocks_per_plane g = 0 then (Inl ZeroDivisionError, f)
         else (let loc = location_str (ta_place g (channel_counters f) b);
                   f1 = f\<lparr>channel_counters := (channel_counters f)[nat ch := channel_counters f ! nat ch + 1]\<rparr>
               in (Inr (loc, b\<lparr>physical_location := Some loc\<rparr>), record_mapping (block_id b) loc f1)))"

definition ta_reset :: "tensor_ftl \<Rightarrow> tensor_ftl" where
  "ta_reset f = base_reset (f\<lparr>channel_counters := replicate (nat (channels (geom f))) 0\<rparr>)"

section \<open>The forward and reverse maps\<close>

definition maps_inverse :: "'a base_ftl_scheme \<Rightarrow> bool" where
  "maps_inverse f \<longleftrightarrow> (\<forall>i l. dget (mapping_table f) i = Some l \<longleftrightarrow> dget (reverse_map f) l = Some i)"

lemmas map_op_defs = translate_def reverse_translate_def get_mapping_def set_mapping_def
  record_mapping_def base_reset_def

lemma translate_record [dict_simps]:
  "translate i (record_mapping bid loc f) = (if i = bid then Some loc else translate i f)"
  by (simp add: map_op_defs Let_def dict_simps)

lemma reverse_keys_record:
  "set (dkeys (reverse_map (record_mapping bid loc f))) \<subseteq> insert loc (set (dkeys (reverse_map f)))"
proof -
  have "set (dkeys (dset loc bid (dpop old d))) \<subseteq> insert loc (set (dkeys d))"
    and "set (dkeys (dset loc bid d)) \<subseteq> insert loc (set (dkeys d))"
    for old and d :: "(string, int) dict"
    by (simp_all only: dkeys_dset) (auto simp only: set_dkeys_dpop set_append split: if_splits, auto)
  then show ?thesis by (simp add: record_mapping_def Let_def split: option.split)
qed

lemma inverse_update:
  assumes "\<forall>i l. M i = Some l \<longleftrightarrow> R l = Some i" "\<forall>j. R loc = Some j \<longrightarrow> j = bid"
  shows "(if i = bid then Some loc else M i) = Some l \<longleftrightarrow>
    (if l = loc then Some bid else if M bid = Some l then None else R l) = Some i"
  using assms by (metis option.inject option.distinct(1))

text \<open>Recording a location that no other block has keeps the two maps inverse to each other.\<close>

lemma maps_inverse_record:
  assumes "maps_inverse f" "\<And>j. dget (reverse_map f) loc = Some j \<Longrightarrow> j = bid"
  shows "maps_inverse (record_mapping bid loc f)"
proof -
  have m: "dget (mapping_table (record_mapping bid loc f)) i =
      (if i = bid then Some loc else dget (mapping_table f) i)" for i
    by (simp add: map_op_defs Let_def dict_simps)
  have r: "dget (reverse_map (record_mapping bid loc f)) l =
      (if l = loc then Some bid
       else if dget (mapping_table f) bid = Some l then None else dget (reverse_map f) l)" for l
    by (simp add: map_op_defs Let_def dict_simps split: option.split)
  show ?thesis unfolding maps_inverse_def m r
    using assms unfolding maps_inverse_def by (intro allI inverse_update) auto
qed

lemma maps_inverse_empty [simp]: "mapping_table f = [] \<Longrightarrow> reverse_map f = [] \<Longrightarrow> maps_inverse f"
  by (simp add: maps_inverse_def)

lemma record_mapping_fields [simp]:
  "geom (record_mapping bid loc f) = geom f"
  "linear_counter (record_mapping bid loc c) = linear_counter c"
  "channel_counters (record_mapping bid loc t) = channel_counters t"
  by (simp_all add: record_mapping_def Let_def)

lemma translate_counter [simp]:
  "translate i (c\<lparr>linear_counter := n\<rparr>) = translate i c"
  "translate i (t\<lparr>channel_counters := cs\<rparr>) = translate i t"
  by (simp_all add: translate_def)

section \<open>The FTL interface\<close>

text \<open>
  What the allocator and the simulator rely on: as long as there is room for one more
  allocation, \<open>allocate\<close> succeeds, \<open>translate\<close> returns what it handed out, no other block
  moves, and \<open>reverse_translate\<close> inverts \<open>translate\<close>.
\<close>

locale ftl_interface =
  fixes alloc :: "kv_block \<Rightarrow> 's \<Rightarrow> (string \<times> kv_block) res \<times> 's"
    and trans :: "int \<Rightarrow> 's \<Rightarrow> string option"
    and rtrans :: "string \<Rightarrow> 's \<Rightarrow> int option"
    and inv :: "'s \<Rightarrow> bool"
    and room :: "nat \<Rightarrow> 's \<Rightarrow> bool"
  assumes alloc_room: "inv f \<Longrightarrow> room (Suc n) f \<Longrightarrow>
      \<exists>loc f'. alloc b f = (Inr (loc, b\<lparr>physical_location := Some loc\<rparr>), f') \<and> inv f' \<and> room n f' \<and>
        (\<forall>i. trans i f' = (if i = block_id b then Some loc else trans i f))"
    and trans_rtrans: "inv f \<Longrightarrow> trans i f = Some l \<longleftrightarrow> rtrans l f = Some i"
begin

lemma trans_inj: "inv f \<Longrightarrow> trans i f = Some l \<Longrightarrow> trans j f = Some l \<Longrightarrow> i = j"
  by (simp add: trans_rtrans)

lemma batch_room:
  assumes "inv f" "room (length bs) f"
  shows "\<exists>acc' f'. allocate_batch alloc bs acc f = (Inr acc', f') \<and> inv f' \<and>
    (\<forall>i. i \<in> block_id ` set bs \<longrightarrow> (\<exists>l. dget acc' i = Some l \<and> trans i f' = Some l)) \<and>
    (\<forall>i. i \<notin> block_id ` set bs \<longrightarrow> dget acc' i = dget acc i \<and> trans i f' = trans i f)"
  using assms
proof (induction bs arbitrary: acc f)
  case Nil
  then show ?case by simp
next
  case (Cons b bs)
  from Cons.prems obtain loc f1 where a: "alloc b f = (Inr (loc, b\<lparr>physical_location := Some loc\<rparr>), f1)"
    and f1: "inv f1" "room (length bs) f1"
    and t1: "\<forall>i. trans i f1 = (if i = block_id b then Some loc else trans i f)"
    using alloc_room [of f "length bs" b] by auto
  from Cons.IH [OF f1, of "dset (block_id b) loc acc"] obtain acc' f' where
    "allocate_batch alloc bs (dset (block_id b) loc acc) f1 = (Inr acc', f')" "inv f'"
    "\<forall>i. i \<in> block_id ` set bs \<longrightarrow> (\<exists>l. dget acc' i = Some l \<and> trans i f' = Some l)"
    "\<forall>i. i \<notin> block_id ` set bs \<longrightarrow>
       dget acc' i = dget (dset (block_id b) loc acc) i \<and> trans i f' = trans i f1"
    by blast
  with a t1 show ?case
    by (cases "block_id b \<in> block_id ` set bs") (auto simp: dict_simps intro!: exI [of _ acc'])
qed

end

section \<open>Conventional placement is injective\<close>

definition coord_ok :: "geometry \<Rightarrow> phys \<Rightarrow> bool" where
  "coord_ok g p = (case p of (ch, die, pl, blk, pg) \<Rightarrow>
     0 \<le> ch \<and> ch < channels g \<and> 0 \<le> die \<and> die < dies_per_channel g \<and>
     0 \<le> pl \<and> pl < planes_per_die g \<and> 0 \<le> blk \<and> blk < blocks_per_plane g \<and>
     0 \<le> pg \<and> pg < pages_per_block g)"

lemma coord_ok_phys: "coord_ok g p \<Longrightarrow> phys_ok p"
  by (auto simp: coord_ok_def phys_ok_def split: prod.splits)

text \<open>The counter a coordinate stands for.\<close>

definition conv_index :: "geometry \<Rightarrow> phys \<Rightarrow> int" where
  "conv_index g p = (case p of (ch, die, pl, blk, pg) \<Rightarrow>
     (((ch * dies_per_channel g + die) * planes_per_die g + pl) * blocks_per_plane g + blk) *
       pages_per_block g + pg)"

lemma conv_index_place: "conv_index g (conv_place g n) = n"
  by (simp add: conv_index_def conv_place_def Let_def div_mult_mod_eq)

lemma conv_place_ok:
  assumes "geometry_ok g" "0 \<le> n" "n < total_pages g"
  shows "coord_ok g (conv_place g n)"
proof -
  let ?i1 = "n div pages_per_block g"
  let ?i2 = "?i1 div blocks_per_plane g"
  let ?i3 = "?i2 div planes_per_die g"
  have "n < channels g * dies_per_channel g * planes_per_die g * blocks_per_plane g * pages_per_block g"
    using assms(3) by (simp add: total_pages_def)
  then have "?i1 < channels g * dies_per_channel g * planes_per_die g * blocks_per_plane g"
    using assms(1) by (simp add: geometry_ok_def div_less_of_mult)
  then have "?i2 < channels g * dies_per_channel g * planes_per_die g"
    using assms(1) by (simp add: geometry_ok_def div_less_of_mult)
  then have "?i3 < channels g * dies_per_channel g"
    using assms(1) by (simp add: geometry_ok_def div_less_of_mult)
  then have "?i3 div dies_per_channel g < channels g"
    using assms(1) by (simp add: geometry_ok_def div_less_of_mult)
  then show ?thesis
    using assms(1,2) by (simp add: coord_ok_def conv_place_def Let_def geometry_ok_def pos_imp_zdiv_nonneg_iff)
qed

text \<open>Sequential placement never hands out a location twice: it is fresh for the reverse map.\<close>

definition conv_inv :: "conventional_ftl \<Rightarrow> bool" where
  "conv_inv f \<longleftrightarrow> geometry_ok (geom f) \<and> maps_inverse f \<and>
     0 \<le> linear_counter f \<and> linear_counter f \<le> total_pages (geom f) \<and>
     (\<forall>l\<in>set (dkeys (reverse_map f)).
        \<exists>n. 0 \<le> n \<and> n < linear_counter f \<and> l = location_str (conv_place (geom f) n))"

definition conv_room :: "nat \<Rightarrow> conventional_ftl \<Rightarrow> bool" where
  "conv_room n f \<longleftrightarrow> linear_counter f + int n \<le> total_pages (geom f)"

lemma new_conventional_inv [inv_intros]: "geometry_ok g \<Longrightarrow> conv_inv (new_conventional g)"
  by (auto simp: conv_inv_def new_conventional_def geometry_ok_def total_pages_def)

lemma conv_reset_inv [inv_intros]: "conv_inv f \<Longrightarrow> conv_inv (conv_reset f)"
  by (auto simp: conv_inv_def conv_reset_def base_reset_def)

lemma conv_location_inj:
  assumes "geometry_ok g" "0 \<le> n" "n < total_pages g" "0 \<le> m" "m < total_pages g"
    and "location_str (conv_place g n) = location_str (conv_place g m)"
  shows "n = m"
proof -
  have "conv_place g n = conv_place g m"
    using location_str_inj assms conv_place_ok [THEN coord_ok_phys] by metis
  then have "conv_index g (conv_place g n) = conv_index g (conv_place g m)" by simp
  then show ?thesis by (simp only: conv_index_place)
qed

lemma dget_in_keys: "dget d k = Some v \<Longrightarrow> k \<in> set (dkeys d)"
  by (force dest: map_of_SomeD)

lemma conv_allocate_ok:
  assumes inv: "conv_inv f" and room: "linear_counter f < total_pages (geom f)"
  shows "\<exists>f'. conv_allocate b f = (Inr (location_str (conv_place (geom f) (linear_counter f)),
            b\<lparr>physical_location := Some (location_str (conv_place (geom f) (linear_counter f)))\<rparr>), f') \<and>
       conv_inv f' \<and> geom f' = geom f \<and> linear_counter f' = linear_counter f + 1 \<and>
       (\<forall>i. translate i f' =
          (if i = block_id b then Some (location_str (conv_place (geom f) (linear_counter f)))
           else translate i f))"
proof -
  let ?loc = "location_str (conv_place (geom f) (linear_counter f))"
  let ?f1 = "f\<lparr>linear_counter := linear_counter f + 1\<rparr>"
  let ?f' = "record_mapping (block_id b) ?loc ?f1"
  have al: "conv_allocate b f = (Inr (?loc, b\<lparr>physical_location := Some ?loc\<rparr>), ?f')"
    using room by (simp add: conv_allocate_def Let_def)
  have fresh: "dget (reverse_map f) ?loc = None"
  proof (rule ccontr)
    assume "dget (reverse_map f) ?loc \<noteq> None"
    then have "?loc \<in> set (dkeys (reverse_map f))" by (auto dest: dget_in_keys)
    then obtain n where n: "0 \<le> n" "n < linear_counter f"
      "?loc = location_str (conv_place (geom f) n)" using inv unfolding conv_inv_def by blast
    then have "linear_counter f = n"
      using inv room by (intro conv_location_inj [of "geom f"]) (auto simp: conv_inv_def)
    with n(2) show False by simp
  qed
  have "maps_inverse ?f1" using inv by (simp add: conv_inv_def maps_inverse_def)
  then have mi: "maps_inverse ?f'" using fresh by (intro maps_inverse_record) auto
  have "\<exists>n. 0 \<le> n \<and> n < linear_counter f + 1 \<and> l = location_str (conv_place (geom f) n)"
    if "l \<in> set (dkeys (reverse_map ?f'))" for l
  proof -
    from that have "l = ?loc \<or> l \<in> set (dkeys (reverse_map f))"
      using reverse_keys_record [of "block_id b" ?loc ?f1] by auto
    then show ?thesis using inv unfolding conv_inv_def
      by (elim disjE) (rule exI [of _ "linear_counter f"], simp, force)
  qed
  then have "conv_inv ?f'" using inv room mi by (simp add: conv_inv_def)
  then show ?thesis using al by (auto simp: dict_simps)
qed

interpretation conv: ftl_interface conv_allocate translate reverse_translate conv_inv conv_room
proof (unfold_locales, goal_cases)
  case (1 f n b)
  then have "linear_counter f < total_pages (geom f)" by (simp add: conv_room_def)
  from conv_allocate_ok [OF 1(1) this, of b] 1(2) show ?case
    by (fastforce simp: conv_room_def)
next
  case (2 f i l)
  then show ?case by (simp add: conv_inv_def maps_inverse_def map_op_defs)
qed

section \<open>Striped placement\<close>

text \<open>
  A tensor-aware FTL counts allocations per channel; the counter gives page and block. Up to
  \<open>pages_per_block * blocks_per_plane\<close> allocations of a channel the pair is fresh, beyond
  that it wraps around.
\<close>

definition ta_capacity :: "geometry \<Rightarrow> int" where
  "ta_capacity g = pages_per_block g * blocks_per_plane g"

definition ta_used :: "tensor_ftl \<Rightarrow> phys \<Rightarrow> bool" where
  "ta_used f p \<longleftrightarrow> coord_ok (geom f) p \<and> (case p of (ch, die, pl, blk, pg) \<Rightarrow>
     blk * pages_per_block (geom f) + pg < channel_counters f ! nat ch)"

definition ta_inv :: "tensor_ftl \<Rightarrow> bool" where
  "ta_inv f \<longleftrightarrow> geometry_ok (geom f) \<and> maps_inverse f \<and>
     length (channel_counters f) = nat (channels (geom f)) \<and> (\<forall>c\<in>set (channel_counters f). 0 \<le> c) \<and>
     (\<forall>l\<in>set (dkeys (reverse_map f)). \<exists>p. ta_used f p \<and> l = location_str p)"

definition ta_room :: "nat \<Rightarrow> tensor_ftl \<Rightarrow> bool" where
  "ta_room n f \<longleftrightarrow> (\<forall>c\<in>set (channel_counters f). c + int n \<le> ta_capacity (geom f))"

lemma new_tensor_inv [inv_intros]: "geometry_ok g \<Longrightarrow> ta_inv (new_tensor_ftl g)"
  by (auto simp: ta_inv_def new_tensor_ftl_def)

lemma ta_reset_inv [inv_intros]: "ta_inv f \<Longrightarrow> ta_inv (ta_reset f)"
  by (auto simp: ta_inv_def ta_reset_def base_reset_def)

lemma ta_channel_range: "geometry_ok g \<Longrightarrow> 0 \<le> ta_channel g h t \<and> ta_channel g h t < channels g"
  by (simp add: ta_channel_def geometry_ok_def)

lemma ta_place_ok: "geometry_ok g \<Longrightarrow> coord_ok g (ta_place g cnt b)"
  using ta_channel_range [of g]
  by (simp add: coord_ok_def ta_place_def Let_def geometry_ok_def)

lemma block_page_split:
  assumes "0 \<le> c" "c < ta_capacity g" "geometry_ok g"
  shows "(c div pages_per_block g) mod blocks_per_plane g * pages_per_block g + c mod pages_per_block g = c"
proof -
  have "c div pages_per_block g < blocks_per_plane g"
    using assms by (intro div_less_of_mult) (auto simp: ta_capacity_def geometry_ok_def mult.commute)
  moreover have "0 \<le> c div pages_per_block g"
    using assms by (simp add: geometry_ok_def pos_imp_zdiv_nonneg_iff)
  ultimately show ?thesis by (simp add: div_mult_mod_eq)
qed

lemma ta_allocate_ok:
  assumes inv: "ta_inv f" and room: "ta_room (Suc n) f"
  shows "\<exists>f'. ta_allocate b f = (Inr (location_str (ta_place (geom f) (channel_counters f) b),
            b\<lparr>physical_location := Some (location_str (ta_place (geom f) (channel_counters f) b))\<rparr>), f') \<and>
       ta_inv f' \<and> ta_room n f' \<and> geom f' = geom f \<and>
       (\<forall>i. translate i f' =
          (if i = block_id b then Some (location_str (ta_place (geom f) (channel_counters f) b))
           else translate i f))"
proof -
  let ?g = "geom f" and ?cs = "channel_counters f"
  let ?p = "ta_place ?g ?cs b" and ?loc = "location_str (ta_place (geom f) (channel_counters f) b)"
  let ?ch = "ta_channel ?g (kv_head_start b) (token_block_idx b)"
  let ?cs' = "?cs[nat ?ch := ?cs ! nat ?ch + 1]"
  let ?f1 = "f\<lparr>channel_counters := ?cs'\<rparr>"
  let ?f' = "record_mapping (block_id b) ?loc ?f1"
  have g: "geometry_ok ?g" using inv by (simp add: ta_inv_def)
  have ch: "nat ?ch < length ?cs" "0 \<le> ?ch" using ta_channel_range [OF g] inv g
    by (auto simp: ta_inv_def geometry_ok_def)
  have c0: "0 \<le> ?cs ! nat ?ch" using inv ch by (auto simp: ta_inv_def)
  have c1: "?cs ! nat ?ch < ta_capacity ?g" using room nth_mem [OF ch(1)] by (fastforce simp: ta_room_def)
  have al: "ta_allocate b f = (Inr (?loc, b\<lparr>physical_location := Some ?loc\<rparr>), ?f')"
    using g by (simp add: ta_allocate_def geometry_ok_def Let_def)
  have pok: "coord_ok ?g ?p" by (rule ta_place_ok [OF g])
  have p: "\<exists>die pl blk pg. ?p = (?ch, die, pl, blk, pg) \<and>
      blk * pages_per_block ?g + pg = ?cs ! nat ?ch"
    using block_page_split [OF c0 c1 g] by (simp add: ta_place_def Let_def)
  have fresh: "dget (reverse_map f) ?loc = None"
  proof (rule ccontr)
    assume "dget (reverse_map f) ?loc \<noteq> None"
    then have "?loc \<in> set (dkeys (reverse_map f))" by (auto dest: dget_in_keys)
    then obtain q where q: "ta_used f q" "?loc = location_str q" using inv unfolding ta_inv_def by blast
    then have "q = ?p" using location_str_inj pok coord_ok_phys by (metis ta_used_def)
    with q(1) p show False by (auto simp: ta_used_def)
  qed
  have "maps_inverse ?f1" using inv by (simp add: ta_inv_def maps_inverse_def)
  then have mi: "maps_inverse ?f'" using fresh by (intro maps_inverse_record) auto
  have grow: "ta_used ?f' q" if "ta_used f q" for q
    using that ch by (cases "fst q = ?ch") (auto simp: ta_used_def nth_list_update split: prod.splits)
  have new: "ta_used ?f' ?p" using p pok ch by (auto simp: ta_used_def)
  have "\<exists>q. ta_used ?f' q \<and> l = location_str q" if "l \<in> set (dkeys (reverse_map ?f'))" for l
  proof -
    from that have "l = ?loc \<or> l \<in> set (dkeys (reverse_map f))"
      using reverse_keys_record [of "block_id b" ?loc ?f1] by auto
    then show ?thesis using inv new grow unfolding ta_inv_def by blast
  qed
  then have i': "ta_inv ?f'" using inv mi c0
    by (auto simp: ta_inv_def dest!: set_update_subset_insert [THEN subsetD])
  have r': "ta_room n ?f'" using room nth_mem [OF ch(1)]
    by (fastforce simp: ta_room_def dest!: set_update_subset_insert [THEN subsetD])
  show ?thesis using al i' r' by (auto simp: dict_simps)
qed

interpretation ta: ftl_interface ta_allocate translate reverse_translate ta_inv ta_room
proof (unfold_locales, goal_cases)
  case (1 f n b)
  from ta_allocate_ok [OF 1, of b] show ?case by blast
next
  case (2 f i l)
  then show ?case by (simp add: ta_inv_def maps_inverse_def map_op_defs)
qed

text \<open>One stripe: the \<open>C\<close> token blocks of one aligned group lie on \<open>C\<close> different channels.\<close>

lemma stripe_channel:
  assumes "geometry_ok g" "0 \<le> i" "i < channels g"
  shows "ta_channel g h (k * channels g + i) = (h + k * channels g + k + i) mod channels g"
  using assms by (simp add: ta_channel_def geometry_ok_def div_add1_eq add_ac div_pos_pos_trivial)

section \<open>Reachable FTL states\<close>

inductive conv_step :: "conventional_ftl \<Rightarrow> conventional_ftl \<Rightarrow> bool" where
  conv_step_alloc: "conv_step f (snd (conv_allocate b f))"
| conv_step_reset: "conv_step f (conv_reset f)"

inductive_cases conv_stepE: "conv_step f f'"

lemma conv_step_inv: "conv_step f f' \<Longrightarrow> conv_inv f \<Longrightarrow> conv_inv f' \<and> geom f' = geom f"
proof (erule conv_stepE)
  fix b assume f': "f' = snd (conv_allocate b f)" and inv: "conv_inv f"
  show "conv_inv f' \<and> geom f' = geom f"
  proof (cases "linear_counter f < total_pages (geom f)")
    case True
    from conv_allocate_ok [OF inv this, of b] f' show ?thesis by auto
  next
    case False
    with f' inv show ?thesis by (simp add: conv_allocate_def)
  qed
next
  assume "f' = conv_reset f" "conv_inv f"
  then show "conv_inv f' \<and> geom f' = geom f"
    using conv_reset_inv [of f] by (simp add: conv_reset_def base_reset_def)
qed

lemma conv_reachable_inv:
  "conv_step\<^sup>*\<^sup>* (new_conventional g) f \<Longrightarrow> geometry_ok g \<Longrightarrow> conv_inv f \<and> geom f = g"
proof (induction rule: rtranclp_induct)
  case base
  then show ?case using new_conventional_inv [of g] by (simp add: new_conventional_def)
qed (auto dest: conv_step_inv)

lemma conv_batch_full:
  assumes "conv_inv f" "total_pages (geom f) < linear_counter f + int (length bs)"
  shows "\<exists>f'. allocate_batch conv_allocate bs acc f = (Inl RuntimeError, f') \<and>
    linear_counter f' = total_pages (geom f)"
  using assms
proof (induction bs arbitrary: acc f)
  case Nil
  then show ?case by (simp add: conv_inv_def)
next
  case (Cons b bs)
  show ?case
  proof (cases "linear_counter f < total_pages (geom f)")
    case True
    from conv_allocate_ok [OF Cons.prems(1) this, of b] Cons.IH Cons.prems(2) show ?thesis by force
  next
    case False
    with Cons.prems(1) show ?thesis by (simp add: conv_allocate_def conv_inv_def)
  qed
qed

section \<open>Wrap-around\<close>

definition ta_block_channel :: "geometry \<Rightarrow> kv_block \<Rightarrow> nat" where
  "ta_block_channel g b = nat (ta_channel g (kv_head_start b) (token_block_idx b))"

text \<open>Two blocks with the coordinates placement looks at.\<close>

definition same_coord :: "kv_block \<Rightarrow> kv_block \<Rightarrow> bool" where
  "same_coord b c \<longleftrightarrow> layer_id b = layer_id c \<and> kv_head_start b = kv_head_start c \<and>
     token_block_idx b = token_block_idx c"

lemma same_coord_place: "same_coord b c \<Longrightarrow> ta_place g cnt c = ta_place g cnt b"
  "same_coord b c \<Longrightarrow> ta_block_channel g c = ta_block_channel g b"
  by (simp_all add: same_coord_def ta_place_def ta_block_channel_def)

lemma ta_place_wrap:
  "ta_place g (cnt[ta_block_channel g b := cnt ! ta_block_channel g b + ta_capacity g]) b = ta_place g cnt b"
proof -
  have "((c + pages_per_block g * blocks_per_plane g) div pages_per_block g) mod blocks_per_plane g
      = (c div pages_per_block g) mod blocks_per_plane g" for c
    by (cases "pages_per_block g = 0") simp_all
  then show ?thesis
    by (cases "ta_block_channel g b < length cnt")
      (simp_all add: ta_place_def Let_def ta_capacity_def ta_block_channel_def list_update_beyond)
qed

lemma ta_allocate_step:
  assumes "geometry_ok (geom f)"
  shows "\<exists>f'. ta_allocate b f = (Inr (location_str (ta_place (geom f) (channel_counters f) b),
        b\<lparr>physical_location := Some (location_str (ta_place (geom f) (channel_counters f) b))\<rparr>), f') \<and>
     geom f' = geom f \<and>
     channel_counters f' = (channel_counters f)[ta_block_channel (geom f) b :=
        channel_counters f ! ta_block_channel (geom f) b + 1] \<and>
     translate (block_id b) f' = Some (location_str (ta_place (geom f) (channel_counters f) b)) \<and>
     (\<forall>i. i \<noteq> block_id b \<longrightarrow> translate i f' = translate i f) \<and>
     reverse_translate (location_str (ta_place (geom f) (channel_counters f) b)) f' = Some (block_id b)"
  using assms
  by (simp add: ta_allocate_def Let_def geometry_ok_def ta_block_channel_def dict_simps)
    (simp add: map_op_defs Let_def dict_simps)

lemma allocate_batch_append:
  "allocate_batch al (xs @ ys) acc f =
    (case allocate_batch al xs acc f of
       (Inl e, f') \<Rightarrow> (Inl e, f')
     | (Inr acc', f') \<Rightarrow> allocate_batch al ys acc' f')"
  by (induction xs arbitrary: acc f) (auto split: prod.splits sum.splits)

lemma ta_batch_same:
  assumes "geometry_ok (geom f)" "\<forall>c\<in>set bs. same_coord b c" "i \<notin> block_id ` set bs"
  shows "\<exists>m f'. allocate_batch ta_allocate bs acc f = (Inr m, f') \<and> geom f' = geom f \<and>
    channel_counters f' = (channel_counters f)[ta_block_channel (geom f) b :=
      channel_counters f ! ta_block_channel (geom f) b + int (length bs)] \<and>
    translate i f' = translate i f"
  using assms
proof (induction bs arbitrary: acc f)
  case (Cons c bs)
  let ?ch = "ta_block_channel (geom f) b"
  obtain loc c' f1 where a: "ta_allocate c f = (Inr (loc, c'), f1)" and f1: "geom f1 = geom f"
    "channel_counters f1 = (channel_counters f)[?ch := channel_counters f ! ?ch + 1]"
    "translate i f1 = translate i f"
    using ta_allocate_step [OF Cons.prems(1), of c] Cons.prems by (auto simp: same_coord_place)
  obtain m f' where "allocate_batch ta_allocate bs (dset (block_id c) loc acc) f1 = (Inr m, f')"
    "geom f' = geom f" "translate i f' = translate i f"
    "channel_counters f' = (channel_counters f1)[?ch := channel_counters f1 ! ?ch + int (length bs)]"
    using Cons.IH [of f1 "dset (block_id c) loc acc"] Cons.prems f1 by auto
  with a f1(2) show ?case by (simp add: list_update_add_add)
qed (simp add: list_update_id)

section \<open>Properties\<close>

text \<open>C11: In every state of a conventional FTL that allocations and resets can reach, the reverse
  map inverts the forward map, so two blocks never share a page, and every location handed
  out parses back to coordinates inside the geometry.\<close>

theorem conventional_maps_consistent:
  assumes "conv_step\<^sup>*\<^sup>* (new_conventional g) f" "geometry_ok g" "translate i f = Some loc"
  shows "reverse_translate loc f = Some i \<and> (\<forall>j. translate j f = Some loc \<longrightarrow> j = i) \<and>
    (\<exists>p. parse_physical_location loc = Some p \<and> coord_ok g p)"
proof -
  from conv_reachable_inv [OF assms(1,2)] have inv: "conv_inv f" and g: "geom f = g" by auto
  then have r: "reverse_translate loc f = Some i" using assms(3) by (simp add: conv.trans_rtrans)
  then have "loc \<in> set (dkeys (reverse_map f))" by (auto simp: reverse_translate_def dest: dget_in_keys)
  then obtain n where n: "0 \<le> n" "n < linear_counter f" "loc = location_str (conv_place g n)"
    using inv g unfolding conv_inv_def by blast
  then have "coord_ok g (conv_place g n)"
    using inv g by (intro conv_place_ok) (auto simp: conv_inv_def)
  then have "parse_physical_location loc = Some (conv_place g n) \<and> coord_ok g (conv_place g n)"
    using n(3) coord_ok_phys parse_location_str by blast
  with r conv.trans_inj [OF inv assms(3)] show ?thesis by blast
qed

definition sample_block :: "int \<Rightarrow> int \<Rightarrow> kv_block" where
  "sample_block i t = create_default i 0 t 16 0 1 64 ''FP32'' ''SSD'' 1"

definition tiny_geometry :: geometry where
  "tiny_geometry = \<lparr>channels = 1, dies_per_channel = 1, planes_per_die = 1, blocks_per_plane = 1,
     pages_per_block = 1\<rparr>"

lemma tiny_geometry_ok: "geometry_ok tiny_geometry" "total_pages tiny_geometry = 1" "ta_capacity tiny_geometry = 1"
  by (simp_all add: geometry_ok_def tiny_geometry_def total_pages_def ta_capacity_def)

lemma sample_block_id [simp]: "block_id (sample_block i t) = i"
  by (simp add: sample_block_def create_default_def Let_def)

lemma conv_tiny_alloc:
  "translate 7 (snd (conv_allocate (sample_block 7 0) (new_conventional tiny_geometry))) =
   Some (location_str (conv_place tiny_geometry 0))"
  using tiny_geometry_ok
  by (simp add: conv_allocate_def new_conventional_def Let_def dict_simps)

lemma conventional_maps_consistent_witness:
  "reverse_translate (location_str (conv_place tiny_geometry 0))
     (snd (conv_allocate (sample_block 7 0) (new_conventional tiny_geometry))) = Some 7"
  using conventional_maps_consistent [OF r_into_rtranclp [of conv_step, OF conv_step_alloc]
      tiny_geometry_ok(1) conv_tiny_alloc]
  by simp

text \<open>C13: Capacity of the conventional FTL is exact: allocating a batch on a fresh FTL succeeds,
  with every block of the batch translated to the location returned for it, if and only if
  the batch has at most \<open>total_pages\<close> blocks; a longer one raises \<open>RuntimeError\<close>.\<close>

theorem conventional_capacity_exact:
  assumes "geometry_ok g"
  shows "if int (length bs) \<le> total_pages g
    then (\<exists>m f'. allocate_batch conv_allocate bs [] (new_conventional g) = (Inr m, f') \<and>
            (\<forall>b\<in>set bs. \<exists>l. dget m (block_id b) = Some l \<and> translate (block_id b) f' = Some l))
    else fst (allocate_batch conv_allocate bs [] (new_conventional g)) = Inl RuntimeError"
proof (cases "int (length bs) \<le> total_pages g")
  case True
  then have "conv_room (length bs) (new_conventional g)"
    by (simp add: conv_room_def new_conventional_def)
  from conv.batch_room [OF new_conventional_inv [OF assms] this, of "[]"] True
  show ?thesis by (auto simp: image_iff) blast
next
  case False
  with conv_batch_full [OF new_conventional_inv [OF assms], of bs "[]"]
  show ?thesis by (auto simp: new_conventional_def)
qed

lemma conventional_capacity_exact_witness:
  "fst (allocate_batch conv_allocate [sample_block 0 0, sample_block 1 16] []
     (new_conventional tiny_geometry)) = Inl RuntimeError"
  using conventional_capacity_exact [OF tiny_geometry_ok(1), of "[sample_block 0 0, sample_block 1 16]"]
  by (simp add: tiny_geometry_ok)

text \<open>C12: Up to \<open>pages_per_block * blocks_per_plane\<close> blocks, whatever their coordinates, a fresh
  tensor-aware FTL places a batch without aliasing: every block gets a location, two
  different block ids get different locations, and the reverse map names the block.\<close>

theorem tensor_aware_no_alias:
  assumes "geometry_ok g" "int (length bs) \<le> ta_capacity g"
  shows "\<exists>m f'. allocate_batch ta_allocate bs [] (new_tensor_ftl g) = (Inr m, f') \<and>
    (\<forall>b\<in>set bs. \<exists>l. dget m (block_id b) = Some l \<and> translate (block_id b) f' = Some l \<and>
       reverse_translate l f' = Some (block_id b)) \<and>
    (\<forall>i j l. translate i f' = Some l \<and> translate j f' = Some l \<longrightarrow> i = j)"
proof -
  have "ta_room (length bs) (new_tensor_ftl g)"
    using assms by (simp add: ta_room_def new_tensor_ftl_def)
  from ta.batch_room [OF new_tensor_inv [OF assms(1)] this, of "[]"] obtain m f' where
    b: "allocate_batch ta_allocate bs [] (new_tensor_ftl g) = (Inr m, f')" and inv: "ta_inv f'"
    and t: "\<forall>i. i \<in> block_id ` set bs \<longrightarrow> (\<exists>l. dget m i = Some l \<and> translate i f' = Some l)"
    by blast
  have "\<forall>b\<in>set bs. \<exists>l. dget m (block_id b) = Some l \<and> translate (block_id b) f' = Some l \<and>
       reverse_translate l f' = Some (block_id b)"
    using t ta.trans_rtrans [OF inv] by blast
  with b ta.trans_inj [OF inv] show ?thesis by blast
qed

lemma tensor_aware_no_alias_witness:
  "\<exists>m f'. allocate_batch ta_allocate [sample_block 3 0] [] (new_tensor_ftl tiny_geometry) = (Inr m, f') \<and>
     (\<exists>l. translate 3 f' = Some l \<and> reverse_translate l f' = Some 3)"
  using tensor_aware_no_alias [OF tiny_geometry_ok(1), of "[sample_block 3 0]"] tiny_geometry_ok
  by auto

text \<open>Beyond that bound the tensor-aware FTL wraps around without any error. After
  \<open>pages_per_block * blocks_per_plane\<close> blocks with the coordinates of block \<open>b\<close>, the next
  one, \<open>b'\<close>, is placed on the page of \<open>b\<close>: both ids translate to the same location, and the
  reverse map names only \<open>b'\<close>.\<close>

theorem tensor_aware_wraps_and_aliases:
  assumes "geometry_ok g" "int (length mid) + 1 = ta_capacity g"
    and "\<forall>c\<in>set mid. same_coord b c" "same_coord b b'"
    and "block_id b \<notin> block_id ` set mid" "block_id b \<noteq> block_id b'"
  shows "\<exists>m f' l. allocate_batch ta_allocate (b # mid @ [b']) [] (new_tensor_ftl g) = (Inr m, f') \<and>
    translate (block_id b) f' = Some l \<and> translate (block_id b') f' = Some l \<and>
    reverse_translate l f' = Some (block_id b')"
proof -
  let ?ch = "ta_block_channel g b" and ?cs = "replicate (nat (channels g)) (0::int)"
  let ?l = "location_str (ta_place g ?cs b)"
  obtain f1 where a1: "ta_allocate b (new_tensor_ftl g) = (Inr (?l, b\<lparr>physical_location := Some ?l\<rparr>), f1)"
    and f1: "geom f1 = g" "channel_counters f1 = ?cs[?ch := ?cs ! ?ch + 1]" "translate (block_id b) f1 = Some ?l"
    using ta_allocate_step [of "new_tensor_ftl g" b] assms(1) by (auto simp: new_tensor_ftl_def)
  obtain m2 f2 where a2: "allocate_batch ta_allocate mid (dset (block_id b) ?l []) f1 = (Inr m2, f2)"
    and f2: "geom f2 = g" "channel_counters f2 = (channel_counters f1)[?ch := channel_counters f1 ! ?ch + int (length mid)]"
      "translate (block_id b) f2 = Some ?l"
    using ta_batch_same [of f1 mid b "block_id b" "dset (block_id b) ?l []"] assms(1,3,5) f1(1,3)
    by (elim exE conjE meta_impE) simp_all
  have cs2: "channel_counters f2 = ?cs[?ch := ?cs ! ?ch + ta_capacity g]"
    unfolding f2(2) f1(2) assms(2) [symmetric] list_update_overwrite list_update_add_add
    by (simp only: add.commute)
  then have pl: "ta_place g (channel_counters f2) b' = ta_place g ?cs b"
    using ta_place_wrap [of g ?cs b] assms(4) by (simp add: same_coord_place)
  obtain f3 where a3: "ta_allocate b' f2 = (Inr (?l, b'\<lparr>physical_location := Some ?l\<rparr>), f3)"
    and f3: "translate (block_id b') f3 = Some ?l" "\<forall>i. i \<noteq> block_id b' \<longrightarrow> translate i f3 = translate i f2"
      "reverse_translate ?l f3 = Some (block_id b')"
    using ta_allocate_step [of f2 b'] assms(1) f2(1) pl by auto
  have "allocate_batch ta_allocate (b # mid @ [b']) [] (new_tensor_ftl g) = (Inr (dset (block_id b') ?l m2), f3)"
    using a1 a2 a3 by (simp add: allocate_batch_append)
  then show ?thesis using f2(3) f3 assms(6) by (intro exI conjI) auto
qed

lemma sample_same_coord: "same_coord (sample_block i t) (sample_block j t)"
  by (simp add: same_coord_def sample_block_def create_default_def Let_def token_block_idx_def block_tokens_def)

lemma tensor_aware_wraps_and_aliases_witness:
  "\<exists>m f' l. allocate_batch ta_allocate [sample_block 1 0, sample_block 2 0] [] (new_tensor_ftl tiny_geometry)
      = (Inr m, f') \<and> translate 1 f' = Some l \<and> translate 2 f' = Some l \<and> reverse_translate l f' = Some 2"
  using tensor_aware_wraps_and_aliases [OF tiny_geometry_ok(1), of "[]" "sample_block 1 0" "sample_block 2 0"]
  by (simp add: tiny_geometry_ok sample_same_coord del: allocate_batch.simps)

text \<open>Striping. The token blocks of one aligned group of \<open>channels\<close> consecutive blocks of a
  head go to pairwise different channels, while sequential placement puts the first
  \<open>dies * planes * blocks * pages\<close> allocations all on channel 0.\<close>

theorem stripe_hits_all_channels:
  assumes "geometry_ok g" "0 \<le> i" "i < channels g" "0 \<le> j" "j < channels g" "i \<noteq> j"
    and "0 \<le> n" "n < dies_per_channel g * planes_per_die g * blocks_per_plane g * pages_per_block g"
  shows "ta_channel g h (k * channels g + i) \<noteq> ta_channel g h (k * channels g + j) \<and>
    fst (conv_place g n) = 0"
proof -
  have "ta_channel g h (k * channels g + i) \<noteq> ta_channel g h (k * channels g + j)"
    using assms mod_shift_inj [of "h + k * channels g + k" i "channels g" j]
    by (auto simp: stripe_channel)
  moreover have "coord_ok (g\<lparr>channels := 1\<rparr>) (conv_place (g\<lparr>channels := 1\<rparr>) n)"
    using assms by (intro conv_place_ok) (auto simp: geometry_ok_def total_pages_def)
  then have "fst (conv_place g n) = 0"
    by (auto simp: coord_ok_def conv_place_def Let_def split: prod.splits)
  ultimately show ?thesis by simp
qed

lemma stripe_hits_all_channels_witness:
  "ta_channel (default_geometry 8) 1 (2 * 8 + 3) \<noteq> ta_channel (default_geometry 8) 1 (2 * 8 + 5) \<and>
   fst (conv_place (default_geometry 8) 65535) = 0"
  using stripe_hits_all_channels [of "default_geometry 8" 3 5 65535 1 2]
  by (simp add: geometry_ok_def geometry_const_defs)

end
