(* ===== verification/StorageSim.thy ===== *)
theory StorageSim
  imports Channel Ftl
begin

text \<open>
  The analytical latency model (\<open>storage_model/latency.py\<close>), the allocator that dispatches
  between the two FTLs (\<open>kv_allocator/allocator.py\<close>), and the end-to-end storage simulator
  (\<open>storage_model/io_model.py\<close>).
\<close>

section \<open>Latency model\<close>

record latency_model =
  t_r_us :: real
  t_prog_us :: real
  t_bers_us :: real
  bus_transfer_us :: real
  pcie_overhead_us :: real
  lm_channels :: int

definition default_latency_model :: "int \<Rightarrow> latency_model" where
  "default_latency_model c = \<lparr>t_r_us = T_R_US, t_prog_us = T_PROG_US, t_bers_us = T_BERS_US,
     bus_transfer_us = BUS_TRANSFER_US_PER_PAGE, pcie_overhead_us = PCIE_OVERHEAD_US, lm_channels = c\<rparr>"

definition get_channel_loads :: "string list \<Rightarrow> (int, int) dict" where
  "get_channel_loads locs = fold (\<lambda>loc d. dinc (extract_channel loc) 1 d) locs []"

text \<open>\<open>max(loads.values()) if loads else 0\<close>.\<close>

definition max_load :: "(int, int) dict \<Rightarrow> int" where
  "max_load d = (case dvalues d of [] \<Rightarrow> 0 | v # vs \<Rightarrow> fold max vs v)"

definition calculate_batch_read_latency :: "latency_model \<Rightarrow> string list \<Rightarrow> real" where
  "calculate_batch_read_latency m locs =
     (if locs = [] then 0
      else pcie_overhead_us m +
        of_int (max_load (get_channel_loads locs)) * (t_r_us m + bus_transfer_us m))"

definition calculate_batch_write_latency :: "latency_model \<Rightarrow> string list \<Rightarrow> real" where
  "calculate_batch_write_latency m locs =
     (if locs = [] then 0
      else pcie_overhead_us m +
        of_int (max_load (get_channel_loads locs)) * (bus_transfer_us m + t_prog_us m))"

definition calculate_batch_erase_latency :: "latency_model \<Rightarrow> string list \<Rightarrow> real" where
  "calculate_batch_erase_latency m locs =
     (if locs = [] then 0
      else pcie_overhead_us m + of_int (max_load (get_channel_loads locs)) * t_bers_us m)"

text \<open>\<open>max(loads, key=loads.get)\<close>: the first key, in insertion order, with the largest load.\<close>

definition bottleneck :: "(int, int) dict \<Rightarrow> int option" where
  "bottleneck d = map_option fst (List.find (\<lambda>kv. snd kv = max_load d) d)"

record latency_breakdown =
  total_requests :: int
  channel_loads :: "(int, int) dict"
  bottleneck_channel :: "int option"
  max_channel_load :: int
  lb_pcie_overhead_us :: real
  read_channel_time_us :: real
  total_read_latency_us :: real
  write_channel_time_us :: real
  total_write_latency_us :: real
  total_erase_latency_us :: real

definition get_latency_breakdown :: "latency_model \<Rightarrow> string list \<Rightarrow> latency_breakdown" where
  "get_latency_breakdown m locs =
     (let d = get_channel_loads locs; mx = max_load d
      in \<lparr>total_requests = int (length locs), channel_loads = d, bottleneck_channel = bottleneck d,
          max_channel_load = mx, lb_pcie_overhead_us = pcie_overhead_us m,
          read_channel_time_us = of_int mx * (t_r_us m + bus_transfer_us m),
          total_read_latency_us = calculate_batch_read_latency m locs,
          write_channel_time_us = of_int mx * (bus_transfer_us m + t_prog_us m),
          total_write_latency_us = calculate_batch_write_latency m locs,
          total_erase_latency_us = calculate_batch_erase_latency m locs\<rparr>)"

section \<open>Allocator\<close>

datatype ftl_any = Conv conventional_ftl | Tensor tensor_ftl

fun any_allocate :: "kv_block \<Rightarrow> ftl_any \<Rightarrow> (string \<times> kv_block) res \<times> ftl_any" where
  "any_allocate b (Conv f) = map_prod id Conv (conv_allocate b f)"
| "any_allocate b (Tensor f) = map_prod id Tensor (ta_allocate b f)"

fun any_translate :: "int \<Rightarrow> ftl_any \<Rightarrow> string option" where
  "any_translate i (Conv f) = translate i f"
| "any_translate i (Tensor f) = translate i f"

fun any_reverse :: "string \<Rightarrow> ftl_any \<Rightarrow> int option" where
  "any_reverse l (Conv f) = reverse_translate l f"
| "any_reverse l (Tensor f) = reverse_translate l f"

record kv_allocator =
  al_mode :: string
  ftl :: ftl_any
  stored_blocks :: "(int, kv_block) dict"

definition new_allocator :: "string \<Rightarrow> int \<Rightarrow> kv_allocator" where
  "new_allocator md c = \<lparr>al_mode = md,
     ftl = (if md = ''tensor_aware'' then Tensor (new_tensor_ftl (default_geometry c))
            else Conv (new_conventional (default_geometry c))),
     stored_blocks = []\<rparr>"

definition alloc_store_block :: "kv_block \<Rightarrow> kv_allocator \<Rightarrow> (string \<times> kv_block) res \<times> kv_allocator" where
  "alloc_store_block b a =
     (case any_allocate b (ftl a) of
        (Inl e, f) \<Rightarrow> (Inl e, a\<lparr>ftl := f\<rparr>)
      | (Inr (loc, b'), f) \<Rightarrow>
          (Inr (loc, b'), a\<lparr>ftl := f, stored_blocks := dset (block_id b') b' (stored_blocks a)\<rparr>))"

definition alloc_load_block :: "int \<Rightarrow> kv_allocator \<Rightarrow> kv_block option" where
  "alloc_load_block i a = dget (stored_blocks a) i"

definition alloc_get_location :: "int \<Rightarrow> kv_allocator \<Rightarrow> string option" where
  "alloc_get_location i a = any_translate i (ftl a)"

section \<open>Physical pages of the channels\<close>

text \<open>
  The nested range checks of \<open>store_block\<close> and \<open>estimate_read_latency\<close>: the page a parsed
  location addresses, \<open>None\<close> when any coordinate is out of range.
\<close>

definition in_range :: "int \<Rightarrow> 'a list \<Rightarrow> bool" where
  "in_range i xs \<longleftrightarrow> 0 \<le> i \<and> i < int (length xs)"

definition at_idx :: "'a list \<Rightarrow> int \<Rightarrow> 'a option" where
  "at_idx xs i = (if in_range i xs then Some (xs ! nat i) else None)"

definition get_block :: "flash_channel list \<Rightarrow> int \<Rightarrow> int \<Rightarrow> int \<Rightarrow> int \<Rightarrow> flash_block option" where
  "get_block chs ch die pl blk =
     Option.bind (at_idx chs ch) (\<lambda>c.
     Option.bind (at_idx (dies c) die) (\<lambda>d.
     Option.bind (at_idx (planes d) pl) (\<lambda>p. at_idx (blocks p) blk)))"

definition get_page :: "flash_channel list \<Rightarrow> phys \<Rightarrow> flash_page option" where
  "get_page chs p = (case p of (ch, die, pl, blk, pg) \<Rightarrow>
     Option.bind (get_block chs ch die pl blk) (\<lambda>b. at_idx (pages b) pg))"

definition map_block ::
    "(flash_block \<Rightarrow> flash_block) \<Rightarrow> int \<Rightarrow> int \<Rightarrow> int \<Rightarrow> int \<Rightarrow> flash_channel list \<Rightarrow> flash_channel list" where
  "map_block u ch die pl blk chs =
     (let c = chs ! nat ch; d = dies c ! nat die; p = planes d ! nat pl; b = blocks p ! nat blk;
          p' = p\<lparr>blocks := (blocks p)[nat blk := u b]\<rparr>;
          d' = d\<lparr>planes := (planes d)[nat pl := p']\<rparr>
      in chs[nat ch := c\<lparr>dies := (dies c)[nat die := d']\<rparr>])"

text \<open>A free page is programmed and the free index moves past it; any other page is left alone.\<close>

definition program_at :: "int \<Rightarrow> int \<Rightarrow> flash_block \<Rightarrow> flash_block" where
  "program_at bid pg b =
     (case page_program (Some bid) None (pages b ! nat pg) of
        Inr p \<Rightarrow> b\<lparr>pages := (pages b)[nat pg := p],
                   free_page_index := max (free_page_index b) (Suc (nat pg))\<rparr>
      | Inl _ \<Rightarrow> b)"

definition program_page :: "int \<Rightarrow> phys \<Rightarrow> flash_channel list \<Rightarrow> flash_channel list" where
  "program_page bid p chs = (case p of (ch, die, pl, blk, pg) \<Rightarrow>
     (case get_page chs p of
        Some q \<Rightarrow> if pstate q = FREE then map_block (program_at bid pg) ch die pl blk chs else chs
      | None \<Rightarrow> chs))"

definition read_page :: "phys \<Rightarrow> flash_channel list \<Rightarrow> flash_channel list" where
  "read_page p chs = (case p of (ch, die, pl, blk, pg) \<Rightarrow>
     (case get_page chs p of
        Some q \<Rightarrow> map_block (block_read (nat pg) 0) ch die pl blk chs
      | None \<Rightarrow> chs))"

section \<open>Storage simulator\<close>

record simulator =
  sim_mode :: string
  num_channels :: int
  sim_channels :: "flash_channel list"
  allocator :: kv_allocator
  latency :: latency_model

definition new_simulator :: "string \<Rightarrow> int \<Rightarrow> int \<Rightarrow> int \<Rightarrow> int \<Rightarrow> simulator" where
  "new_simulator md c nd npl nblk = \<lparr>sim_mode = md, num_channels = c,
     sim_channels = map (\<lambda>i. new_channel i nd npl nblk) [0..c - 1],
     allocator = new_allocator md c, latency = default_latency_model c\<rparr>"

text \<open>
  The bus and die activity of a write. The name \<open>die_obj\<close> is bound only when the die exists;
  otherwise the last statement raises \<open>UnboundLocalError\<close>, after the bus transfer.
\<close>

definition schedule_write :: "int \<Rightarrow> int \<Rightarrow> flash_channel list \<Rightarrow> unit res \<times> flash_channel list" where
  "schedule_write ch die chs =
     (let c = snd (schedule_transfer 0 BUS_TRANSFER_US_PER_PAGE (chs ! nat ch))
      in if in_range die (dies c)
         then (Inr (), chs[nat ch := put_die die (snd (schedule_program 0 (dies c ! nat die))) c])
         else (Inl UnboundLocalError, chs[nat ch := c]))"

definition sim_store_block :: "kv_block \<Rightarrow> simulator \<Rightarrow> (string \<times> kv_block) res \<times> simulator" where
  "sim_store_block b s =
     (let b1 = b\<lparr>storage_tier := ''SSD''\<rparr>
      in case alloc_store_block b1 (allocator s) of
           (Inl e, a) \<Rightarrow> (Inl e, s\<lparr>allocator := a\<rparr>)
         | (Inr (loc, b2), a) \<Rightarrow>
             (case parse_physical_location loc of
                None \<Rightarrow> (Inr (loc, b2), s\<lparr>allocator := a\<rparr>)
              | Some p \<Rightarrow>
                  (case p of (ch, die, pl, blk, pg) \<Rightarrow>
                     if in_range ch (sim_channels s)
                     then (let chs = program_page (block_id b) p (sim_channels s);
                               (r, chs') = schedule_write ch die chs;
                               s' = s\<lparr>allocator := a, sim_channels := chs'\<rparr>
                           in (case r of Inl e \<Rightarrow> (Inl e, s') | Inr _ \<Rightarrow> (Inr (loc, b2), s')))
                     else (Inr (loc, b2), s\<lparr>allocator := a\<rparr>))))"

definition sim_load_block :: "int \<Rightarrow> simulator \<Rightarrow> kv_block option" where
  "sim_load_block i s = alloc_load_block i (allocator s)"

definition sim_get_location :: "int \<Rightarrow> simulator \<Rightarrow> string option" where
  "sim_get_location i s = alloc_get_location i (allocator s)"

definition read_request :: "int \<Rightarrow> phys \<Rightarrow> chan_req" where
  "read_request bid p = (case p of (ch, die, pl, blk, pg) \<Rightarrow>
     \<lparr>request_id = ReqInt bid, cr_die_id = die, cr_plane_id = pl, cr_block_id = blk,
      cr_page_id = pg, op_type = READ, arrival_time_us = 0,
      transfer_time_us = BUS_TRANSFER_US_PER_PAGE, start_time_us = 0, completion_time_us = 0\<rparr>)"

text \<open>One block of a batch: its page is read and a request is queued on its channel.\<close>

definition sim_issue_read :: "int \<Rightarrow> simulator \<Rightarrow> string list \<times> simulator" where
  "sim_issue_read bid s =
     (case sim_get_location bid s of
        None \<Rightarrow> ([], s)
      | Some loc \<Rightarrow>
          if loc = [] then ([], s)
          else (case parse_physical_location loc of
                  None \<Rightarrow> ([loc], s)
                | Some p \<Rightarrow>
                    if in_range (fst p) (sim_channels s)
                    then (let chs = read_page p (sim_channels s); ch = nat (fst p)
                          in ([loc], s\<lparr>sim_channels :=
                                chs[ch := enqueue_request (read_request bid p) (chs ! ch)]\<rparr>))
                    else ([loc], s)))"

fun sim_issue_reads :: "int list \<Rightarrow> simulator \<Rightarrow> string list \<times> simulator" where
  "sim_issue_reads [] s = ([], s)"
| "sim_issue_reads (i # is) s =
     (let (l, s1) = sim_issue_read i s; (ls, s2) = sim_issue_reads is s1 in (l @ ls, s2))"

definition sim_estimate_read_latency :: "int list \<Rightarrow> simulator \<Rightarrow> real \<times> simulator" where
  "sim_estimate_read_latency ids s =
     (let (locs, s1) = sim_issue_reads ids s
      in (calculate_batch_read_latency (latency s) locs,
          s1\<lparr>sim_channels := map (\<lambda>c. snd (process_queue 0 c)) (sim_channels s1)\<rparr>))"

datatype block_ref = RefBlock kv_block | RefId int | RefOther

fun ref_ids :: "block_ref list \<Rightarrow> int list" where
  "ref_ids [] = []"
| "ref_ids (RefBlock b # rs) = block_id b # ref_ids rs"
| "ref_ids (RefId i # rs) = i # ref_ids rs"
| "ref_ids (RefOther # rs) = ref_ids rs"

definition sim_read_blocks :: "block_ref list \<Rightarrow> simulator \<Rightarrow> real \<times> simulator" where
  "sim_read_blocks bs s = sim_estimate_read_latency (ref_ids bs) s"

text \<open>Only the channels are reset; the allocator keeps its mappings.\<close>

definition sim_reset :: "simulator \<Rightarrow> simulator" where
  "sim_reset s = s\<lparr>sim_channels := map channel_reset (sim_channels s)\<rparr>"

section \<open>Loads and latencies\<close>

definition load_of :: "int \<Rightarrow> string list \<Rightarrow> nat" where
  "load_of c locs = length (filter (\<lambda>l. extract_channel l = c) locs)"

lemma load_of_simps [simp]:
  "load_of c [] = 0"
  "load_of c (l # locs) = (if extract_channel l = c then Suc (load_of c locs) else load_of c locs)"
  "load_of c (locs @ [l]) = (if extract_channel l = c then Suc (load_of c locs) else load_of c locs)"
  by (simp_all add: load_of_def)

lemma channel_loads_simps [simp]:
  "get_channel_loads [] = []"
  "get_channel_loads (locs @ [l]) = dinc (extract_channel l) 1 (get_channel_loads locs)"
  by (simp_all add: get_channel_loads_def)

lemma channel_loads_dget:
  "dget (get_channel_loads locs) c = (if load_of c locs = 0 then None else Some (int (load_of c locs)))"
  by (induction locs rule: rev_induct) (auto simp: dinc_dget)

lemma channel_loads_ok: "dict_ok (get_channel_loads locs)"
  by (induction locs rule: rev_induct) simp_all

lemma channel_loads_sum: "dsum (get_channel_loads locs) = int (length locs)"
  by (induction locs rule: rev_induct) (simp_all add: dict_simps, simp add: dsum_def)

lemma channel_loads_values:
  "v \<in> set (dvalues (get_channel_loads locs)) \<longleftrightarrow> (\<exists>c. load_of c locs \<noteq> 0 \<and> v = int (load_of c locs))"
proof -
  have "v \<in> set (dvalues (get_channel_loads locs)) \<longleftrightarrow> (\<exists>c. dget (get_channel_loads locs) c = Some v)"
    using channel_loads_ok [of locs] by (force simp: dict_ok_def)
  also have "\<dots> \<longleftrightarrow> (\<exists>c. load_of c locs \<noteq> 0 \<and> v = int (load_of c locs))"
    by (intro ex_cong1) (auto simp: channel_loads_dget)
  finally show ?thesis .
qed

lemma max_load_Max: "d \<noteq> [] \<Longrightarrow> max_load d = Max (set (dvalues d))"
  by (cases d) (simp_all add: max_load_def Max.set_eq_fold flip: list.set)

lemma load_of_pos: "load_of c locs = 0 \<longleftrightarrow> c \<notin> extract_channel ` set locs"
  by (induction locs) auto

lemma channel_loads_nonempty: "locs \<noteq> [] \<Longrightarrow> get_channel_loads locs \<noteq> []"
  using channel_loads_sum [of locs] by (auto simp: dsum_def)

text \<open>The maximal load is the load of some channel, and no channel has a larger one.\<close>

lemma max_load_channel:
  assumes "locs \<noteq> []"
  shows "\<exists>c. load_of c locs \<noteq> 0 \<and> max_load (get_channel_loads locs) = int (load_of c locs)"
    and "int (load_of c locs) \<le> max_load (get_channel_loads locs)"
proof -
  let ?V = "set (dvalues (get_channel_loads locs))"
  have m: "max_load (get_channel_loads locs) = Max ?V"
    using max_load_Max channel_loads_nonempty [OF assms] by blast
  have ne: "?V \<noteq> {}" using channel_loads_nonempty [OF assms] by simp
  show "\<exists>c. load_of c locs \<noteq> 0 \<and> max_load (get_channel_loads locs) = int (load_of c locs)"
    using Max_in [OF _ ne] unfolding m by (simp add: channel_loads_values del: set_map)
  show "int (load_of c locs) \<le> max_load (get_channel_loads locs)"
  proof (cases "load_of c locs = 0")
    case True
    have "0 \<le> Max ?V" using Max_in [OF _ ne] by (auto simp: channel_loads_values simp del: set_map)
    with True m show ?thesis by simp
  next
    case False
    then have "int (load_of c locs) \<in> ?V" by (auto simp: channel_loads_values simp del: set_map)
    then show ?thesis unfolding m by simp
  qed
qed

lemma load_of_le: "load_of c locs \<le> length locs"
  by (simp add: load_of_def)

lemma load_sum:
  "finite S \<Longrightarrow> extract_channel ` set locs \<subseteq> S \<Longrightarrow> (\<Sum>c\<in>S. load_of c locs) = length locs"
proof (induction locs)
  case (Cons l locs)
  have "(\<Sum>c\<in>S. load_of c (l # locs)) = (\<Sum>c\<in>S. load_of c locs + (if extract_channel l = c then 1 else 0))"
    by (rule sum.cong) simp_all
  with Cons show ?case by (simp add: sum.distrib)
qed simp

lemma max_load_bounds:
  assumes "locs \<noteq> []" "\<forall>l\<in>set locs. 0 \<le> extract_channel l \<and> extract_channel l < C"
  shows "ceil_div (int (length locs)) C \<le> max_load (get_channel_loads locs)"
    and "max_load (get_channel_loads locs) \<le> int (length locs)"
proof -
  let ?m = "max_load (get_channel_loads locs)"
  from assms have C: "0 < C" by (cases locs) auto
  have "int (length locs) = (\<Sum>c\<in>{0..<C}. int (load_of c locs))"
    unfolding of_nat_sum [symmetric] by (subst load_sum) (use assms(2) in auto)
  also have "\<dots> \<le> (\<Sum>c\<in>{0..<C}. ?m)" by (rule sum_mono) (rule max_load_channel(2) [OF assms(1)])
  also have "\<dots> = C * ?m" using C by simp
  finally have "\<not> ?m * C < int (length locs)" by (simp add: mult.commute)
  then have "\<not> ?m < ceil_div (int (length locs)) C" by (simp add: ceil_div_le_iff [OF C])
  then show "ceil_div (int (length locs)) C \<le> ?m" by simp
  show "?m \<le> int (length locs)" using max_load_channel(1) [OF assms(1)] load_of_le by fastforce
qed

lemma load_distinct: "distinct (map extract_channel locs) \<Longrightarrow> load_of c locs \<le> 1"
  by (induction locs) (auto simp: load_of_pos dest: load_of_pos [THEN iffD2])

lemma max_load_distinct:
  assumes "locs \<noteq> []" "distinct (map extract_channel locs)"
  shows "max_load (get_channel_loads locs) = 1"
proof -
  obtain c where "load_of c locs \<noteq> 0" "max_load (get_channel_loads locs) = int (load_of c locs)"
    using max_load_channel(1) [OF assms(1)] by blast
  with load_distinct [OF assms(2), of c] show ?thesis by simp
qed

lemma max_load_same:
  assumes "locs \<noteq> []" "\<forall>l\<in>set locs. extract_channel l = c"
  shows "max_load (get_channel_loads locs) = int (length locs)"
proof -
  have "load_of c locs = length locs" using assms(2) by (simp add: load_of_def)
  moreover obtain c' where "max_load (get_channel_loads locs) = int (load_of c' locs)"
    using max_load_channel(1) [OF assms(1)] by blast
  ultimately show ?thesis using max_load_channel(2) [OF assms(1), of c] load_of_le [of c' locs] by simp
qed

section \<open>Updates of one page\<close>

lemma at_update: "in_range i xs \<Longrightarrow> at_idx (xs[nat i := v]) j = (if j = i then Some v else at_idx xs j)"
  by (auto simp: at_idx_def in_range_def nth_list_update)

lemma at_SomeD: "at_idx xs i = Some x \<Longrightarrow> in_range i xs \<and> xs ! nat i = x"
  by (simp add: at_idx_def split: if_splits)

lemma at_map: "at_idx (map f xs) i = map_option f (at_idx xs i)"
  by (auto simp: at_idx_def in_range_def)

lemma get_block_map:
  assumes "get_block chs ch die pl blk = Some b"
  shows "get_block (map_block u ch die pl blk chs) ch' die' pl' blk' =
    (if (ch', die', pl', blk') = (ch, die, pl, blk) then Some (u b)
     else get_block chs ch' die' pl' blk')"
proof -
  from assms obtain c d p where
    c: "at_idx chs ch = Some c" and d: "at_idx (dies c) die = Some d"
    and p: "at_idx (planes d) pl = Some p" and b: "at_idx (blocks p) blk = Some b"
    by (auto simp: get_block_def bind_eq_Some_conv)
  note ds = c [THEN at_SomeD] d [THEN at_SomeD] p [THEN at_SomeD] b [THEN at_SomeD]
  show ?thesis using c d p b ds
    by (auto simp: get_block_def map_block_def Let_def at_update)
qed

lemma get_page_map:
  assumes "get_block chs ch die pl blk = Some b"
  shows "get_page (map_block u ch die pl blk chs) (ch', die', pl', blk', pg') =
    (if (ch', die', pl', blk') = (ch, die, pl, blk) then at_idx (pages (u b)) pg'
     else get_page chs (ch', die', pl', blk', pg'))"
  using get_block_map [OF assms] by (simp add: get_page_def)

lemma get_page_block:
  "get_page chs (ch, die, pl, blk, pg) = Some q \<Longrightarrow>
   \<exists>b. get_block chs ch die pl blk = Some b \<and> at_idx (pages b) pg = Some q"
  by (auto simp: get_page_def bind_eq_Some_conv)

lemma get_page_program:
  "get_page (program_page bid p chs) q =
    (case get_page chs p of
       Some x \<Rightarrow> if q = p \<and> pstate x = FREE
                 then Some (x\<lparr>pstate := VALID, data_block_id := Some bid, program_count := Suc (program_count x)\<rparr>)
                 else get_page chs q
     | None \<Rightarrow> get_page chs q)"
proof (cases "get_page chs p")
  case None
  then show ?thesis by (simp add: program_page_def split: prod.split)
next
  case (Some x)
  obtain ch die pl blk pg where p: "p = (ch, die, pl, blk, pg)" by (cases p) auto
  obtain ch' die' pl' blk' pg' where q: "q = (ch', die', pl', blk', pg')" by (cases q) auto
  obtain b where b: "get_block chs ch die pl blk = Some b" "at_idx (pages b) pg = Some x"
    using Some get_page_block unfolding p by blast
  note x = b(2) [THEN at_SomeD]
  show ?thesis
  proof (cases "pstate x = FREE")
    case True
    then have u: "at_idx (pages (program_at bid pg b)) pg' = (if pg' = pg
        then Some (x\<lparr>pstate := VALID, data_block_id := Some bid, program_count := Suc (program_count x)\<rparr>)
        else at_idx (pages b) pg')"
      using x by (simp add: program_at_def page_program_def at_update)
    have o: "get_page chs (ch, die, pl, blk, pg') = at_idx (pages b) pg'" for pg'
      using b(1) by (simp add: get_page_def)
    show ?thesis
      using Some True u o by (auto simp: program_page_def p q get_page_map [OF b(1)])
  qed (use Some in \<open>simp add: program_page_def p\<close>)
qed

text \<open>Reading a page changes only its read count and access time.\<close>

lemma get_page_read:
  "get_page (read_page p chs) q =
    (case get_page chs p of
       Some x \<Rightarrow> if q = p then Some (snd (page_read 0 x)) else get_page chs q
     | None \<Rightarrow> get_page chs q)"
proof (cases "get_page chs p")
  case None
  then show ?thesis by (simp add: read_page_def split: prod.split)
next
  case (Some x)
  obtain ch die pl blk pg where p: "p = (ch, die, pl, blk, pg)" by (cases p) auto
  obtain ch' die' pl' blk' pg' where q: "q = (ch', die', pl', blk', pg')" by (cases q) auto
  obtain b where b: "get_block chs ch die pl blk = Some b" "at_idx (pages b) pg = Some x"
    using Some get_page_block unfolding p by blast
  note x = b(2) [THEN at_SomeD]
  have u: "at_idx (pages (block_read (nat pg) 0 b)) pg' =
      (if pg' = pg then Some (snd (page_read 0 x)) else at_idx (pages b) pg')"
    using x by (simp add: block_read_def at_update)
  have o: "get_page chs (ch, die, pl, blk, pg') = at_idx (pages b) pg'" for pg'
    using b(1) by (simp add: get_page_def)
  show ?thesis using Some u o by (auto simp: read_page_def p q get_page_map [OF b(1)])
qed

text \<open>Bus and die activity leaves every page as it is.\<close>

definition same_pages :: "flash_channel list \<Rightarrow> flash_channel list \<Rightarrow> bool" where
  "same_pages chs chs' \<longleftrightarrow> map (map planes \<circ> dies) chs' = map (map planes \<circ> dies) chs"

lemma at_map_eq: "map f xs = map f ys \<Longrightarrow> map_option f (at_idx xs i) = map_option f (at_idx ys i)"
  by (metis at_map)

lemma same_pages_get: "same_pages chs chs' \<Longrightarrow> get_page chs' p = get_page chs p"
proof -
  assume s: "same_pages chs chs'"
  obtain ch die pl blk pg where p: "p = (ch, die, pl, blk, pg)" by (cases p) auto
  have g: "get_block cs ch die pl blk =
      Option.bind (Option.bind (map_option (map planes \<circ> dies) (at_idx cs ch)) (\<lambda>ds. at_idx ds die))
        (\<lambda>ps. Option.bind (at_idx ps pl) (\<lambda>p. at_idx (blocks p) blk))" for cs
    by (cases "at_idx cs ch") (simp_all add: get_block_def at_map bind_map_option comp_def)
  have "get_block chs' ch die pl blk = get_block chs ch die pl blk"
    using at_map_eq [OF s [unfolded same_pages_def], of ch] by (simp only: g)
  then show ?thesis by (simp add: get_page_def p)
qed

lemma put_die_planes:
  "0 \<le> i \<Longrightarrow> i < int (length (dies c)) \<Longrightarrow> planes d = planes (dies c ! nat i) \<Longrightarrow>
   map planes (dies (put_die i d c)) = map planes (dies c)"
  by (simp add: put_die_def map_update) (metis list_update_id nth_map nat_less_iff)

lemma live_die_D: "live_die c i = Some d \<Longrightarrow> 0 \<le> i \<and> i < int (length (dies c)) \<and> d = dies c ! nat i"
  by (auto simp: live_die_def Let_def split: if_splits)

lemma die_schedule_planes [simp]: "planes (snd (die_schedule dur t d)) = planes d"
  by (simp add: die_schedule_def Let_def)

lemma process_request_planes: "map planes (dies (process_request base r c)) = map planes (dies c)"
  by (auto simp: process_request_def bus_slot_def Let_def schedule_read_def schedule_program_def
      schedule_erase_def put_die_planes split: op_type.split option.split prod.split
      dest!: live_die_D dest: arg_cong [of _ _ "\<lambda>x. planes (snd x)"])

lemma fold_process_planes: "map planes (dies (fold (process_request base) rs c)) = map planes (dies c)"
  by (induction rs arbitrary: c) (simp_all add: process_request_planes)

lemma process_queue_planes: "map planes (dies (snd (process_queue base c))) = map planes (dies c)"
  by (simp add: process_queue_def Let_def fold_process_planes)

lemma same_pages_map:
  "(\<And>c. map planes (dies (h c)) = map planes (dies c)) \<Longrightarrow> same_pages chs (map h chs)"
  by (simp add: same_pages_def)

lemma same_pages_update:
  "in_range ch chs \<Longrightarrow> map planes (dies c) = map planes (dies (chs ! nat ch)) \<Longrightarrow> same_pages chs (chs[nat ch := c])"
  by (simp add: same_pages_def map_update comp_def in_range_def)
    (metis (no_types, lifting) list_update_id nth_map nat_less_iff)

lemma schedule_write_pages:
  assumes "schedule_write ch die chs = (r, chs')" "in_range ch chs"
  shows "same_pages chs chs'"
  using assms
  by (auto simp: schedule_write_def Let_def schedule_transfer_def schedule_program_def in_range_def
      split: if_splits intro!: same_pages_update put_die_planes [THEN trans])

section \<open>The conventional simulator\<close>

text \<open>
  The invariant that ties the mapping of the FTL to the physical pages: pages the counter has
  not reached are free, and the page of a mapped block is valid and holds its id.
\<close>

definition conv_sim_inv :: "simulator \<Rightarrow> bool" where
  "conv_sim_inv s \<longleftrightarrow> (\<exists>f. ftl (allocator s) = Conv f \<and> conv_inv f \<and>
     geom f = default_geometry (num_channels s) \<and>
     (\<forall>n. linear_counter f \<le> n \<and> n < total_pages (geom f) \<longrightarrow>
        (\<exists>x. get_page (sim_channels s) (conv_place (geom f) n) = Some x \<and> pstate x = FREE)) \<and>
     (\<forall>i loc. translate i f = Some loc \<longrightarrow>
        (\<exists>p x. parse_physical_location loc = Some p \<and> get_page (sim_channels s) p = Some x \<and>
           pstate x = VALID \<and> data_block_id x = Some i)) \<and>
     (\<forall>i. map_option (\<lambda>b. (block_id b, physical_location b)) (sim_load_block i s) =
        map_option (\<lambda>loc. (i, Some loc)) (translate i f)))"

lemma at_upto: "at_idx [0..n - 1] i = (if 0 \<le> i \<and> i < n then Some i else None)"
  by (auto simp: at_idx_def in_range_def nth_upto)

lemma get_page_new:
  "get_page (map (\<lambda>c. new_channel c nd npl nblk) [0..n - 1]) (ch, die, pl, blk, pg) =
    (if 0 \<le> ch \<and> ch < n \<and> 0 \<le> die \<and> die < nd \<and> 0 \<le> pl \<and> pl < npl \<and> 0 \<le> blk \<and> blk < nblk \<and>
        0 \<le> pg \<and> pg < SSD_PAGES_PER_BLOCK
     then Some (new_page pg SSD_PAGE_SIZE_BYTES) else None)"
  by (simp add: get_page_def get_block_def at_map at_upto new_channel_def new_die_def new_plane_def new_block_def)

text \<open>
  The allocator always works with the default geometry, whatever structures the simulator has.
  They hold its locations when they are at least as large.
\<close>

definition covers_default :: "int \<Rightarrow> int \<Rightarrow> int \<Rightarrow> bool" where
  "covers_default nd npl nblk \<longleftrightarrow> SSD_DIES_PER_CHANNEL \<le> nd \<and> SSD_PLANES_PER_DIE \<le> npl \<and> 64 \<le> nblk"

lemma covers_default_refl [simp]: "covers_default SSD_DIES_PER_CHANNEL SSD_PLANES_PER_DIE 64"
  by (simp add: covers_default_def)

lemma new_simulator_inv:
  assumes "0 < c" "md \<noteq> ''tensor_aware''" "covers_default nd npl nblk"
  shows "conv_sim_inv (new_simulator md c nd npl nblk)"
proof -
  let ?f = "new_conventional (default_geometry c)"
  have g: "geometry_ok (default_geometry c)" using assms by (simp add: geometry_ok_def geometry_const_defs)
  have "\<exists>x. get_page (map (\<lambda>i. new_channel i nd npl nblk) [0..c - 1])
        (conv_place (default_geometry c) n) = Some x \<and> pstate x = FREE"
    if "0 \<le> n" "n < total_pages (default_geometry c)" for n
    using conv_place_ok [OF g that] assms(3)
    by (cases "conv_place (default_geometry c) n")
      (simp add: get_page_new coord_ok_def geometry_const_defs new_page_def covers_default_def)
  then show ?thesis
    using assms new_conventional_inv [OF g]
    by (simp add: conv_sim_inv_def new_simulator_def new_allocator_def sim_load_block_def alloc_load_block_def
        translate_def get_mapping_def)
      (simp add: new_conventional_def)
qed

lemma get_page_ranges:
  "get_page chs (ch, die, pl, blk, pg) = Some x \<Longrightarrow> in_range ch chs \<and> in_range die (dies (chs ! nat ch))"
  by (auto simp: get_page_def get_block_def bind_eq_Some_conv dest!: at_SomeD)

lemma program_page_channels:
  "map (length \<circ> dies) (program_page bid p chs) = map (length \<circ> dies) chs"
  by (cases p) (auto simp: program_page_def map_block_def Let_def map_update comp_def split: option.split
    intro!: list_update_same_conv [THEN iffD2] dest!: get_page_ranges simp: in_range_def nat_less_iff)

lemma in_range_mono: "length xs = length ys \<Longrightarrow> in_range i xs = in_range i ys"
  by (simp add: in_range_def)

lemma program_page_ranges:
  assumes "get_page chs (ch, die, pl, blk, pg) = Some x"
  shows "in_range ch (program_page bid p chs)" and "in_range die (dies (program_page bid p chs ! nat ch))"
proof -
  note r = get_page_ranges [OF assms]
  have len: "length (program_page bid p chs) = length chs"
    using arg_cong [OF program_page_channels, of length] by simp
  with r show "in_range ch (program_page bid p chs)" by (simp add: in_range_def)
  have "nat ch < length chs" using r by (auto simp: in_range_def)
  then have "length (dies (program_page bid p chs ! nat ch)) = length (dies (chs ! nat ch))"
    using arg_cong [OF program_page_channels, of "\<lambda>xs. xs ! nat ch" bid p chs] len by simp
  with r show "in_range die (dies (program_page bid p chs ! nat ch))" by (simp add: in_range_def)
qed

lemma sim_store_conv:
  assumes inv: "conv_sim_inv s" and f: "ftl (allocator s) = Conv f"
    and room: "linear_counter f < total_pages (geom f)"
  defines "p \<equiv> conv_place (geom f) (linear_counter f)"
  shows "\<exists>b' s'. sim_store_block b s = (Inr (location_str p, b'), s') \<and> conv_sim_inv s' \<and>
     block_id b' = block_id b \<and> physical_location b' = Some (location_str p) \<and>
     sim_get_location (block_id b) s' = Some (location_str p) \<and> sim_load_block (block_id b) s' = Some b' \<and>
     (\<forall>i. i \<noteq> block_id b \<longrightarrow> sim_get_location i s' = sim_get_location i s \<and> sim_load_block i s' = sim_load_block i s)"
proof -
  let ?g = "geom f" and ?n = "linear_counter f" and ?loc = "location_str p"
  let ?b1 = "b\<lparr>storage_tier := ''SSD''\<rparr>"
  let ?b2 = "?b1\<lparr>physical_location := Some ?loc\<rparr>"
  from inv f have ci: "conv_inv f" and g: "?g = default_geometry (num_channels s)"
    and free: "\<And>n. ?n \<le> n \<Longrightarrow> n < total_pages ?g \<Longrightarrow>
        \<exists>x. get_page (sim_channels s) (conv_place ?g n) = Some x \<and> pstate x = FREE"
    and held: "\<And>i loc. translate i f = Some loc \<Longrightarrow> \<exists>p x. parse_physical_location loc = Some p \<and>
        get_page (sim_channels s) p = Some x \<and> pstate x = VALID \<and> data_block_id x = Some i"
    and stored: "\<And>i. map_option (\<lambda>b. (block_id b, physical_location b)) (sim_load_block i s) =
        map_option (\<lambda>loc. (i, Some loc)) (translate i f)"
    by (auto simp: conv_sim_inv_def)
  from conv_allocate_ok [OF ci room, of ?b1] obtain f' where
    al: "conv_allocate ?b1 f = (Inr (?loc, ?b2), f')" and ci': "conv_inv f'" and g': "geom f' = ?g"
    and n': "linear_counter f' = ?n + 1"
    and tr: "\<And>i. translate i f' = (if i = block_id b then Some ?loc else translate i f)"
    by (auto simp: p_def)
  have pok: "coord_ok ?g p" using ci room conv_place_ok by (simp add: p_def conv_inv_def)
  then have parse: "parse_physical_location ?loc = Some p" by (intro parse_location_str coord_ok_phys)
  obtain ch die pl blk pg where pc: "p = (ch, die, pl, blk, pg)" by (cases p) auto
  obtain x where x: "get_page (sim_channels s) p = Some x" "pstate x = FREE"
    using free [of ?n] room by (auto simp: p_def)
  let ?chs = "program_page (block_id b) p (sim_channels s)"
  have rng: "in_range ch (sim_channels s)" "in_range ch ?chs" "in_range die (dies (?chs ! nat ch))"
    using x(1) get_page_ranges [of "sim_channels s" ch die pl blk pg]
      program_page_ranges [of "sim_channels s" ch die pl blk pg] unfolding pc by simp_all
  obtain chs' where w: "schedule_write ch die ?chs = (Inr (), chs')"
    using rng(3) by (simp add: schedule_write_def schedule_transfer_def Let_def)
  have pages': "get_page chs' q = (if q = p then Some (x\<lparr>pstate := VALID, data_block_id := Some (block_id b),
      program_count := Suc (program_count x)\<rparr>) else get_page (sim_channels s) q)" for q
    using same_pages_get [OF schedule_write_pages [OF w rng(2)]] x by (simp add: get_page_program)
  let ?a = "(allocator s)\<lparr>ftl := Conv f', stored_blocks := dset (block_id b) ?b2 (stored_blocks (allocator s))\<rparr>"
  let ?s' = "s\<lparr>allocator := ?a, sim_channels := chs'\<rparr>"
  have st: "sim_store_block b s = (Inr (?loc, ?b2), ?s')"
    using al parse rng(1) w by (simp add: sim_store_block_def alloc_store_block_def f pc Let_def)
  have inj: "conv_place ?g n \<noteq> p" if "n \<noteq> ?n" for n
    using that conv_index_place [of ?g n] conv_index_place [of ?g ?n] by (auto simp: p_def)
  have "conv_sim_inv ?s'"
    unfolding conv_sim_inv_def
  proof (intro exI [of _ f'] conjI allI impI, goal_cases)
    case (4 n)
    with free [of n] inj [of n] n' g' pages' show ?case by (cases "n = ?n") auto
  next
    case (5 i loc)
    show ?case
    proof (cases "i = block_id b")
      case True
      then show ?thesis using 5 parse tr pages' by auto
    next
      case False
      with 5 tr have t: "translate i f = Some loc" by simp
      from held [OF this] obtain q y where y: "parse_physical_location loc = Some q"
        "get_page (sim_channels s) q = Some y" "pstate y = VALID" "data_block_id y = Some i" by blast
      then have "q \<noteq> p" using x by auto
      with y pages' show ?thesis by auto
    qed
  next
    case (6 i)
    show ?case using stored [of i] tr by (simp add: sim_load_block_def alloc_load_block_def dict_simps)
  qed (use ci' g g' in auto)
  then show ?thesis
    using st tr by (auto simp: sim_get_location_def alloc_get_location_def sim_load_block_def
        alloc_load_block_def dict_simps f)
qed

text \<open>Reads and resets change neither the mapping nor what the pages hold.\<close>

definition page_view :: "flash_channel list \<Rightarrow> phys \<Rightarrow> (page_state \<times> int option) option" where
  "page_view chs p = map_option (\<lambda>x. (pstate x, data_block_id x)) (get_page chs p)"

lemma conv_sim_inv_view:
  assumes "conv_sim_inv s" "allocator s' = allocator s" "num_channels s' = num_channels s"
    and "\<And>p. page_view (sim_channels s') p = page_view (sim_channels s) p"
  shows "conv_sim_inv s'"
proof -
  have v: "(\<exists>x. get_page (sim_channels s') p = Some x \<and> P (pstate x) (data_block_id x)) \<longleftrightarrow>
           (\<exists>x. get_page (sim_channels s) p = Some x \<and> P (pstate x) (data_block_id x))" for p P
    using assms(4) [of p] by (auto simp: page_view_def map_option_case split: option.splits)
  note v1 = v [of _ "\<lambda>a b. a = FREE"]
  have v2: "(\<exists>p x. parse_physical_location loc = Some p \<and> get_page (sim_channels s') p = Some x \<and>
       pstate x = VALID \<and> data_block_id x = Some i) \<longleftrightarrow>
     (\<exists>p x. parse_physical_location loc = Some p \<and> get_page (sim_channels s) p = Some x \<and>
       pstate x = VALID \<and> data_block_id x = Some i)" for loc i
    using v [of _ "\<lambda>a b. a = VALID \<and> b = Some i"] by blast
  show ?thesis using assms(1) unfolding conv_sim_inv_def sim_load_block_def assms(2,3) v1 v2 .
qed

lemma page_view_read: "page_view (read_page p chs) q = page_view chs q"
  by (simp add: page_view_def get_page_read page_read_def Let_def split: option.split)

lemma same_pages_view: "same_pages chs chs' \<Longrightarrow> page_view chs' p = page_view chs p"
  by (simp add: page_view_def same_pages_get)

lemma same_pages_enqueue: "same_pages chs (chs[i := enqueue_request r (chs ! i)])"
proof (cases "i < length chs")
  case True
  then have "in_range (int i) chs" by (simp add: in_range_def)
  from same_pages_update [OF this] show ?thesis by (simp add: enqueue_request_def)
qed (simp add: list_update_beyond same_pages_def)

lemma sim_issue_read_frame:
  "sim_issue_read i s = (ls, s') \<Longrightarrow> allocator s' = allocator s \<and> num_channels s' = num_channels s \<and>
   latency s' = latency s \<and> page_view (sim_channels s') p = page_view (sim_channels s) p"
  by (auto simp: sim_issue_read_def Let_def same_pages_view [OF same_pages_enqueue] page_view_read
      split: option.splits if_splits)

lemma sim_issue_reads_frame:
  "sim_issue_reads is s = (ls, s') \<Longrightarrow> allocator s' = allocator s \<and> num_channels s' = num_channels s \<and>
   latency s' = latency s \<and> page_view (sim_channels s') p = page_view (sim_channels s) p"
proof (induction "is" arbitrary: s ls)
  case (Cons i "is")
  obtain l s1 where a: "sim_issue_read i s = (l, s1)" by fastforce
  moreover obtain ls2 where b: "sim_issue_reads is s1 = (ls2, s')"
    using Cons.prems a by (auto split: prod.splits)
  ultimately show ?case using Cons.IH [OF b] sim_issue_read_frame [OF a] by simp
qed simp

lemma channel_reset_planes: "map planes (dies (channel_reset c)) = map planes (dies c)"
  by (simp add: channel_reset_def die_reset_def comp_def)

lemma sim_read_inv: "conv_sim_inv s \<Longrightarrow> conv_sim_inv (snd (sim_read_blocks bs s))"
proof -
  assume inv: "conv_sim_inv s"
  obtain ls s1 where r: "sim_issue_reads (ref_ids bs) s = (ls, s1)" by fastforce
  have "page_view (map (\<lambda>c. snd (process_queue 0 c)) (sim_channels s1)) p = page_view (sim_channels s1) p" for p
    by (intro same_pages_view same_pages_map process_queue_planes)
  with sim_issue_reads_frame [OF r] show ?thesis
    by (intro conv_sim_inv_view [OF inv])
      (simp_all add: sim_read_blocks_def sim_estimate_read_latency_def r)
qed

lemma sim_reset_inv: "conv_sim_inv s \<Longrightarrow> conv_sim_inv (sim_reset s)"
  by (erule conv_sim_inv_view)
    (simp_all add: sim_reset_def same_pages_view [OF same_pages_map] channel_reset_planes)

lemma sim_store_full:
  assumes "ftl (allocator s) = Conv f" "total_pages (geom f) \<le> linear_counter f"
  shows "sim_store_block b s = (Inl RuntimeError, s)"
  using assms by (simp add: sim_store_block_def alloc_store_block_def conv_allocate_def Let_def)

inductive sim_step :: "simulator \<Rightarrow> simulator \<Rightarrow> bool" where
  sim_step_store: "sim_step s (snd (sim_store_block b s))"
| sim_step_read: "sim_step s (snd (sim_read_blocks bs s))"
| sim_step_reset: "sim_step s (sim_reset s)"

inductive_cases sim_stepE: "sim_step s s'"

lemma sim_store_inv: "conv_sim_inv s \<Longrightarrow> conv_sim_inv (snd (sim_store_block b s))"
proof -
  assume inv: "conv_sim_inv s"
  then obtain f where f: "ftl (allocator s) = Conv f" by (auto simp: conv_sim_inv_def)
  show ?thesis
  proof (cases "linear_counter f < total_pages (geom f)")
    case True
    from sim_store_conv [OF inv f this, of b] show ?thesis by auto
  next
    case False
    with sim_store_full [OF f, of b] inv show ?thesis by simp
  qed
qed

lemma conv_sim_reachable:
  "sim_step\<^sup>*\<^sup>* (new_simulator md c nd npl nblk) s \<Longrightarrow> 0 < c \<Longrightarrow>
   md \<noteq> ''tensor_aware'' \<Longrightarrow> covers_default nd npl nblk \<Longrightarrow> conv_sim_inv s"
  by (induction rule: rtranclp_induct)
    (auto intro: new_simulator_inv sim_store_inv sim_read_inv sim_reset_inv elim!: sim_stepE)

section \<open>Properties\<close>

text \<open>C19: Mapping and flash agree. Take a conventional simulator with any number of channels whose
  structures cover the geometry of its allocator, which is always four dies per channel, two
  planes per die and 64 blocks per plane (the defaults of the simulator). In every state it can
  reach, through any stores, batch reads and resets, a block that has a location sits on the
  physical page of that location: the page exists, is valid and holds this block's id, and the
  block can be loaded with exactly that location recorded in it.\<close>

theorem simulator_pages_hold_mapped_blocks:
  assumes "sim_step\<^sup>*\<^sup>* (new_simulator md c nd npl nblk) s" "0 < c"
    and "SSD_DIES_PER_CHANNEL \<le> nd" "SSD_PLANES_PER_DIE \<le> npl" "64 \<le> nblk"
    and "md \<noteq> ''tensor_aware''" "sim_get_location i s = Some loc"
  shows "(\<exists>p x. parse_physical_location loc = Some p \<and> get_page (sim_channels s) p = Some x \<and>
       pstate x = VALID \<and> data_block_id x = Some i) \<and>
     (\<exists>b. sim_load_block i s = Some b \<and> block_id b = i \<and> physical_location b = Some loc)"
proof -
  have "covers_default nd npl nblk" using assms(3-5) by (simp add: covers_default_def)
  from conv_sim_reachable [OF assms(1,2,6) this] obtain f where f: "ftl (allocator s) = Conv f"
    and held: "\<And>i loc. translate i f = Some loc \<Longrightarrow> \<exists>p x. parse_physical_location loc = Some p \<and>
        get_page (sim_channels s) p = Some x \<and> pstate x = VALID \<and> data_block_id x = Some i"
    and stored: "\<And>i. map_option (\<lambda>b. (block_id b, physical_location b)) (sim_load_block i s) =
        map_option (\<lambda>loc. (i, Some loc)) (translate i f)"
    by (auto simp: conv_sim_inv_def)
  have t: "translate i f = Some loc" using assms(7) f by (simp add: sim_get_location_def alloc_get_location_def)
  show ?thesis using held [OF t] stored [of i] t by (cases "sim_load_block i s") auto
qed

text \<open>Storing on a conventional simulator with a free page succeeds; the block then has the
  next sequential location and is loaded back from it, and every other block keeps both its
  location and its metadata.\<close>

theorem simulator_store_load:
  assumes "sim_step\<^sup>*\<^sup>* (new_simulator md c nd npl nblk) s" "0 < c"
    and "md \<noteq> ''tensor_aware''" "covers_default nd npl nblk" "ftl (allocator s) = Conv f" "linear_counter f < total_pages (geom f)"
  shows "\<exists>b' s'. sim_store_block b s = (Inr (location_str (conv_place (geom f) (linear_counter f)), b'), s') \<and>
     physical_location b' = Some (location_str (conv_place (geom f) (linear_counter f))) \<and>
     sim_get_location (block_id b) s' = physical_location b' \<and> sim_load_block (block_id b) s' = Some b' \<and>
     (\<forall>i. i \<noteq> block_id b \<longrightarrow> sim_get_location i s' = sim_get_location i s \<and> sim_load_block i s' = sim_load_block i s)"
  using sim_store_conv [OF conv_sim_reachable [OF assms(1-4)] assms(5,6), of b] by auto

lemma conv_sim_start:
  "ftl (allocator (new_simulator ''conventional'' c SSD_DIES_PER_CHANNEL SSD_PLANES_PER_DIE 64)) =
   Conv (new_conventional (default_geometry c))"
  by (simp add: new_simulator_def new_allocator_def)

lemma simulator_store_load_witness:
  "\<exists>b' s'. sim_store_block (sample_block 5 0)
       (new_simulator ''conventional'' 2 SSD_DIES_PER_CHANNEL SSD_PLANES_PER_DIE 64)
     = (Inr (location_str (conv_place (default_geometry 2) 0), b'), s') \<and> sim_load_block 5 s' = Some b'"
  using simulator_store_load [OF rtranclp.rtrancl_refl _ _ covers_default_refl conv_sim_start, of 2 "sample_block 5 0"]
  by (auto simp: new_conventional_def total_pages_def geometry_const_defs)

lemma simulator_pages_hold_mapped_blocks_witness:
  "\<exists>s loc p x. sim_get_location 5 s = Some loc \<and> parse_physical_location loc = Some p \<and>
     get_page (sim_channels s) p = Some x \<and> data_block_id x = Some 5"
proof -
  let ?init = "new_simulator ''conventional'' 2 6 2 100"
  let ?s = "snd (sim_store_block (sample_block 5 0) ?init)"
  have big: "SSD_DIES_PER_CHANNEL \<le> 6" "SSD_PLANES_PER_DIE \<le> 2" "64 \<le> (100 :: int)"
    by (simp_all add: geometry_const_defs)
  have inv: "conv_sim_inv ?init" using big by (intro new_simulator_inv) (simp_all add: covers_default_def)
  have start: "ftl (allocator ?init) = Conv (new_conventional (default_geometry 2))"
    by (simp add: new_simulator_def new_allocator_def)
  have loc: "sim_get_location 5 ?s = Some (location_str (conv_place (default_geometry 2) 0))"
    using sim_store_conv [OF inv start, of "sample_block 5 0"]
    by (auto simp: new_conventional_def total_pages_def geometry_const_defs)
  from simulator_pages_hold_mapped_blocks [OF r_into_rtranclp [of sim_step, OF sim_step_store] _ big _ loc] loc
  show ?thesis by fastforce
qed

text \<open>Contention. For a non-empty batch whose locations lie on channels \<open>0 .. C-1\<close>, the read
  latency of the model is the PCIe overhead plus a number of serial page reads between
  \<open>ceil(n / C)\<close> (perfect striping) and \<open>n\<close> (one hot channel).\<close>

theorem batch_read_latency_bounds:
  assumes "locs \<noteq> []" "\<forall>l\<in>set locs. 0 \<le> extract_channel l \<and> extract_channel l < C"
    and "0 \<le> t_r_us m + bus_transfer_us m"
  shows "pcie_overhead_us m + of_int (ceil_div (int (length locs)) C) * (t_r_us m + bus_transfer_us m)
      \<le> calculate_batch_read_latency m locs \<and>
    calculate_batch_read_latency m locs
      \<le> pcie_overhead_us m + real (length locs) * (t_r_us m + bus_transfer_us m)"
proof -
  note b = max_load_bounds [OF assms(1,2)]
  have "of_int (ceil_div (int (length locs)) C) * (t_r_us m + bus_transfer_us m)
      \<le> of_int (max_load (get_channel_loads locs)) * (t_r_us m + bus_transfer_us m)"
    using b(1) assms(3) by (intro mult_right_mono) auto
  moreover have "of_int (max_load (get_channel_loads locs)) * (t_r_us m + bus_transfer_us m)
      \<le> real (length locs) * (t_r_us m + bus_transfer_us m)"
    using b(2) assms(3) by (intro mult_right_mono) linarith+
  ultimately show ?thesis using assms(1) by (simp add: calculate_batch_read_latency_def)
qed

lemma batch_read_latency_bounds_witness:
  "40 \<le> calculate_batch_read_latency (default_latency_model 8) [''ch3_die0'', ''ssd_ch1_die0'']"
  using batch_read_latency_bounds [of "[''ch3_die0'', ''ssd_ch1_die0'']" 8 "default_latency_model 8"]
  by (simp add: default_latency_model_def timing_defs extract_channel_def match_field_def
      match_num_def Let_def lower_char_def char_code_def is_digit_def read_digits_def digit_val_def ceil_div_def)

text \<open>The striping pay-off, end to end over placement, location strings and latency model:
  the \<open>C\<close> token blocks of one aligned stripe, placed tensor-aware, are read in one serial
  page read, while \<open>C\<close> blocks placed sequentially on channel 0 take \<open>C\<close> of them.\<close>

theorem striped_batch_reads_in_one_slot:
  assumes "geometry_ok g" "\<forall>i. 0 \<le> i \<and> i < channels g \<longrightarrow> kv_head_start (bs i) = h \<and> token_block_idx (bs i) = k * channels g + i"
    and "0 \<le> n" "n + channels g \<le> dies_per_channel g * planes_per_die g * blocks_per_plane g * pages_per_block g"
  shows "calculate_batch_read_latency m (map (\<lambda>i. location_str (ta_place g cnt (bs i))) [0..channels g - 1])
      = pcie_overhead_us m + (t_r_us m + bus_transfer_us m) \<and>
    calculate_batch_read_latency m (map (\<lambda>i. location_str (conv_place g (n + i))) [0..channels g - 1])
      = pcie_overhead_us m + of_int (channels g) * (t_r_us m + bus_transfer_us m)"
proof -
  let ?ta = "map (\<lambda>i. location_str (ta_place g cnt (bs i))) [0..channels g - 1]"
  let ?cv = "map (\<lambda>i. location_str (conv_place g (n + i))) [0..channels g - 1]"
  have C: "0 < channels g" using assms(1) by (simp add: geometry_ok_def)
  have ch: "extract_channel (location_str (ta_place g cnt (bs i))) = ta_channel g h (k * channels g + i)"
    if "0 \<le> i" "i < channels g" for i
  proof -
    have "fst (ta_place g cnt (bs i)) = ta_channel g h (k * channels g + i)"
      using that assms(2) by (simp add: ta_place_def Let_def)
    then show ?thesis by (simp add: extract_channel_str [OF coord_ok_phys [OF ta_place_ok [OF assms(1)]]])
  qed
  have "map extract_channel ?ta = map (\<lambda>i. ta_channel g h (k * channels g + i)) [0..channels g - 1]"
    using ch by simp
  moreover have "inj_on (\<lambda>i. ta_channel g h (k * channels g + i)) {0..channels g - 1}"
    by (rule inj_onI) (auto simp: stripe_channel [OF assms(1)] dest: mod_shift_inj)
  ultimately have "distinct (map extract_channel ?ta)"
    by (simp only: distinct_map distinct_upto set_upto simp_thms)
  then have l1: "max_load (get_channel_loads ?ta) = 1" using C by (intro max_load_distinct) auto
  have "extract_channel (location_str (conv_place g (n + i))) = 0" if "0 \<le> i" "i < channels g" for i
  proof -
    have "coord_ok (g\<lparr>channels := 1\<rparr>) (conv_place (g\<lparr>channels := 1\<rparr>) (n + i))"
      using assms that by (intro conv_place_ok) (auto simp: geometry_ok_def total_pages_def)
    then have "phys_ok (conv_place g (n + i))" "fst (conv_place g (n + i)) = 0"
      by (auto simp: coord_ok_def phys_ok_def conv_place_def Let_def split: prod.splits)
    then show ?thesis by (simp add: extract_channel_str)
  qed
  then have l2: "max_load (get_channel_loads ?cv) = int (length ?cv)"
    using C by (intro max_load_same [of _ 0]) auto
  show ?thesis using C l1 l2 by (simp add: calculate_batch_read_latency_def)
qed

lemma striped_batch_reads_in_one_slot_witness:
  "calculate_batch_read_latency (default_latency_model 8)
     (map (\<lambda>i. location_str (ta_place (default_geometry 8) (replicate 8 0) (sample_block i (16 * i)))) [0..7]) = 40"
  using striped_batch_reads_in_one_slot [of "default_geometry 8" "\<lambda>i. sample_block i (16 * i)" 0 0 0
      "default_latency_model 8" "replicate 8 0"]
  by (simp add: geometry_ok_def geometry_const_defs default_latency_model_def timing_defs
      sample_block_def create_default_def Let_def token_block_idx_def block_tokens_def)

text \<open>The allocator is always built with four dies per channel. On a tensor-aware simulator
  whose channels have fewer dies, a block whose die coordinate is missing raises
  \<open>UnboundLocalError\<close>, although its location has been recorded and the bus has been used.\<close>

theorem store_on_missing_die_raises:
  assumes "0 < c" "0 \<le> nd" "nd \<le> fst (snd (ta_place (default_geometry c) (replicate (nat c) 0) b))"
  shows "\<exists>s' loc. sim_store_block b (new_simulator ''tensor_aware'' c nd npl nblk) = (Inl UnboundLocalError, s') \<and>
    sim_get_location (block_id b) s' = Some loc"
proof -
  let ?g = "default_geometry c" and ?s = "new_simulator ''tensor_aware'' c nd npl nblk"
  let ?b1 = "b\<lparr>storage_tier := ''SSD''\<rparr>"
  have g: "geometry_ok ?g" using assms by (simp add: geometry_ok_def geometry_const_defs)
  let ?f = "new_tensor_ftl ?g"
  let ?p = "ta_place ?g (replicate (nat c) 0) b"
  have eq: "ta_place ?g (channel_counters ?f) ?b1 = ?p"
    by (simp add: ta_place_def Let_def token_block_idx_def block_tokens_def new_tensor_ftl_def)
      (simp add: default_geometry_def)
  obtain b2 f' where al: "ta_allocate ?b1 ?f = (Inr (location_str ?p, b2), f')" "block_id b2 = block_id b"
    and tr: "translate (block_id b) f' = Some (location_str ?p)"
    using ta_allocate_step [of ?f ?b1] g eq by (auto simp: new_tensor_ftl_def)
  have pok: "coord_ok ?g ?p" by (rule ta_place_ok [OF g])
  note parse = parse_location_str [OF coord_ok_phys [OF pok]]
  obtain ch die pl blk pg where pc: "?p = (ch, die, pl, blk, pg)" by (cases ?p) auto
  have ch: "0 \<le> ch" "ch < c" using pok pc by (auto simp: coord_ok_def default_geometry_def)
  have gp: "get_page (sim_channels ?s) ?p = None"
    using assms pc by (simp add: new_simulator_def get_page_new)
  have dlen: "length (dies (sim_channels ?s ! nat ch)) = nat nd"
    using ch by (simp add: new_simulator_def new_channel_def nth_upto)
  obtain chs' where w: "schedule_write ch die (sim_channels ?s) = (Inl UnboundLocalError, chs')"
    using assms pc dlen by (simp add: schedule_write_def Let_def schedule_transfer_def in_range_def)
  have r: "in_range ch (sim_channels ?s)" using ch by (simp add: in_range_def new_simulator_def)
  have "ftl (allocator ?s) = Tensor ?f" by (simp add: new_simulator_def new_allocator_def)
  then show ?thesis
    using al tr parse r w gp
    by (simp add: sim_store_block_def alloc_store_block_def pc program_page_def Let_def
        sim_get_location_def alloc_get_location_def)
qed

lemma store_on_missing_die_raises_witness:
  "fst (sim_store_block ((sample_block 5 0)\<lparr>layer_id := 2\<rparr>) (new_simulator ''tensor_aware'' 8 2 2 64)) =
     Inl UnboundLocalError"
  using store_on_missing_die_raises [of 8 2 "(sample_block 5 0)\<lparr>layer_id := 2\<rparr>" 2 64]
  by (auto simp: ta_place_def Let_def geometry_const_defs sample_block_def create_default_def
      token_block_idx_def block_tokens_def)

end
