(* ===== verification/TensorMapper.thy ===== *)
theory TensorMapper
  imports Location Nand
begin

text \<open>
  The deterministic tensor-to-storage mapping of \<open>person2_ssd/kv_allocator/tensor_mapping.py\<close>:
  tensor coordinates to logical block addresses and to physical NAND coordinates.
\<close>

section \<open>Coordinates and addresses\<close>

record tensor_coord =
  co_layer_id :: int
  co_head_id :: int
  token_idx :: int
  tokens_per_block :: int
  co_block_id :: "int option"
  co_blocks_per_head :: int

definition coord_block_idx :: "tensor_coord \<Rightarrow> int" where
  "coord_block_idx c =
     (if 0 < token_idx c then token_idx c div max 1 (tokens_per_block c)
      else (case co_block_id c of
              Some b \<Rightarrow> if 0 < co_blocks_per_head c then b mod co_blocks_per_head c
                        else token_idx c div max 1 (tokens_per_block c)
            | None \<Rightarrow> token_idx c div max 1 (tokens_per_block c)))"

record lba_address =
  lba :: int
  sector_size_bytes :: int
  lba_mode :: string

definition byte_offset :: "lba_address \<Rightarrow> int" where
  "byte_offset a = lba a * sector_size_bytes a"

record tensor_mapper =
  m_channels :: int
  m_dies :: int
  m_planes :: int
  m_blocks :: int
  m_pages :: int
  m_sector_size :: int
  max_tokens_per_head :: int
  num_layers :: int
  num_heads :: int
  blocks_per_head :: int
  total_device_blocks :: int

definition new_mapper ::
    "int \<Rightarrow> int \<Rightarrow> int \<Rightarrow> int \<Rightarrow> int \<Rightarrow> int \<Rightarrow> int \<Rightarrow> int \<Rightarrow> int \<Rightarrow> tensor_mapper" where
  "new_mapper c d p b pg sec maxtok nl nh = \<lparr>m_channels = c, m_dies = d, m_planes = p, m_blocks = b,
     m_pages = pg, m_sector_size = sec, max_tokens_per_head = maxtok, num_layers = nl, num_heads = nh,
     blocks_per_head = maxtok div 16, total_device_blocks = c * d * p * b * pg\<rparr>"

definition default_mapper :: tensor_mapper where
  "default_mapper = new_mapper SSD_CHANNELS SSD_DIES_PER_CHANNEL SSD_PLANES_PER_DIE 64
     SSD_PAGES_PER_BLOCK 4096 32768 24 2"

section \<open>Translations\<close>

text \<open>\<open>ch\<close> and \<open>die\<close> of the tensor-aware mode, the same in both translations.\<close>

definition target_channel :: "tensor_mapper \<Rightarrow> int \<Rightarrow> int \<Rightarrow> int \<Rightarrow> int" where
  "target_channel m layer head b = (layer + head + b + b div m_channels m) mod m_channels m"

definition target_die :: "tensor_mapper \<Rightarrow> int \<Rightarrow> int \<Rightarrow> int \<Rightarrow> int" where
  "target_die m layer head b = (layer + head div m_channels m + b div m_channels m) mod m_dies m"

definition linear_block :: "tensor_mapper \<Rightarrow> int \<Rightarrow> int \<Rightarrow> int \<Rightarrow> int" where
  "linear_block m layer head b = (layer * num_heads m + head) * blocks_per_head m + b"

definition stripe_unit :: "tensor_mapper \<Rightarrow> int" where
  "stripe_unit m = total_device_blocks m div (m_channels m * m_dies m)"

definition tensor_to_lba :: "tensor_mapper \<Rightarrow> tensor_coord \<Rightarrow> string \<Rightarrow> lba_address res" where
  "tensor_to_lba m c md =
     (let b = coord_block_idx c; layer = co_layer_id c; head = co_head_id c
      in if md = ''conventional'' then
           (if total_device_blocks m = 0 then Inl ZeroDivisionError
            else Inr \<lparr>lba = linear_block m layer head b mod total_device_blocks m,
                      sector_size_bytes = m_sector_size m, lba_mode = ''conventional''\<rparr>)
         else if md = ''tensor_aware'' then
           (if m_channels m = 0 \<or> m_dies m = 0 \<or> stripe_unit m = 0 then Inl ZeroDivisionError
            else Inr \<lparr>lba = (target_channel m layer head b * m_dies m + target_die m layer head b) * stripe_unit m
                        + linear_block m layer head b mod stripe_unit m,
                      sector_size_bytes = m_sector_size m, lba_mode = ''tensor_aware''\<rparr>)
         else Inl ValueError)"

text \<open>The optional dictionary of channel counters: \<open>0\<close> without one, \<open>get(ch, 0)\<close> otherwise.\<close>

definition counter_of :: "(int, int) dict option \<Rightarrow> int \<Rightarrow> int" where
  "counter_of cs ch = (case cs of None \<Rightarrow> 0 | Some d \<Rightarrow> (case dget d ch of None \<Rightarrow> 0 | Some n \<Rightarrow> n))"

definition tensor_to_nand_physical ::
    "tensor_mapper \<Rightarrow> tensor_coord \<Rightarrow> string \<Rightarrow> (int, int) dict option \<Rightarrow> phys res" where
  "tensor_to_nand_physical m c md cs =
     (let b = coord_block_idx c; layer = co_layer_id c; head = co_head_id c
      in if md = ''conventional'' then
           (if m_pages m = 0 \<or> m_blocks m = 0 then Inl ZeroDivisionError
            else (let n = counter_of cs 0
                  in Inr (0, 0, 0, (n div m_pages m) mod m_blocks m, n mod m_pages m)))
         else if md = ''tensor_aware'' then
           (if m_channels m = 0 \<or> m_dies m = 0 \<or> m_planes m = 0 \<or> m_pages m = 0 \<or> m_blocks m = 0
            then Inl ZeroDivisionError
            else (let ch = target_channel m layer head b; n = counter_of cs ch
                  in Inr (ch, target_die m layer head b,
                          (b div (m_channels m * m_dies m)) mod m_planes m,
                          (n div m_pages m) mod m_blocks m, n mod m_pages m)))
         else Inl ValueError)"

section \<open>Lemmas\<close>

definition mapper_ok :: "tensor_mapper \<Rightarrow> bool" where
  "mapper_ok m \<longleftrightarrow> 0 < m_channels m \<and> 0 < m_dies m \<and> 0 < m_planes m \<and> 0 < m_blocks m \<and> 0 < m_pages m \<and>
     total_device_blocks m = m_channels m * m_dies m * m_planes m * m_blocks m * m_pages m"

lemma stripe_unit_eq: "mapper_ok m \<Longrightarrow> stripe_unit m = m_planes m * m_blocks m * m_pages m"
  by (simp add: mapper_ok_def stripe_unit_def mult.assoc)

lemma stripe_unit_pos: "mapper_ok m \<Longrightarrow> 0 < stripe_unit m"
  by (simp add: stripe_unit_eq) (simp add: mapper_ok_def)

lemma target_ranges:
  "mapper_ok m \<Longrightarrow> 0 \<le> target_channel m l h b \<and> target_channel m l h b < m_channels m \<and>
   0 \<le> target_die m l h b \<and> target_die m l h b < m_dies m"
  by (simp add: mapper_ok_def target_channel_def target_die_def)

lemma new_mapper_ok:
  "0 < c \<Longrightarrow> 0 < d \<Longrightarrow> 0 < p \<Longrightarrow> 0 < b \<Longrightarrow> 0 < pg \<Longrightarrow> mapper_ok (new_mapper c d p b pg s t nl nh)"
  by (simp add: mapper_ok_def new_mapper_def)

text \<open>A coordinate inside the model: layer, head and block within the declared counts.\<close>

definition coord_in :: "tensor_mapper \<Rightarrow> tensor_coord \<Rightarrow> bool" where
  "coord_in m c \<longleftrightarrow> 0 \<le> co_layer_id c \<and> co_layer_id c < num_layers m \<and> 0 \<le> co_head_id c \<and>
     co_head_id c < num_heads m \<and> 0 \<le> coord_block_idx c \<and> coord_block_idx c < blocks_per_head m"

lemma linear_block_range:
  assumes "coord_in m c"
  shows "0 \<le> linear_block m (co_layer_id c) (co_head_id c) (coord_block_idx c) \<and>
    linear_block m (co_layer_id c) (co_head_id c) (coord_block_idx c)
      < num_layers m * num_heads m * blocks_per_head m"
proof -
  have "0 \<le> co_layer_id c * num_heads m + co_head_id c \<and>
      co_layer_id c * num_heads m + co_head_id c < num_layers m * num_heads m"
    using assms by (intro mixed_radix_bound) (auto simp: coord_in_def)
  then show ?thesis
    unfolding linear_block_def using assms by (intro mixed_radix_bound) (auto simp: coord_in_def)
qed

lemma linear_block_inj:
  assumes "coord_in m c" "coord_in m c'"
    and "linear_block m (co_layer_id c) (co_head_id c) (coord_block_idx c) =
         linear_block m (co_layer_id c') (co_head_id c') (coord_block_idx c')"
  shows "co_layer_id c = co_layer_id c' \<and> co_head_id c = co_head_id c' \<and> coord_block_idx c = coord_block_idx c'"
  using mixed_radix_inj [OF assms(3) [unfolded linear_block_def]] assms(1,2)
    mixed_radix_inj [of "co_layer_id c" "num_heads m" "co_head_id c" "co_layer_id c'" "co_head_id c'"]
  by (auto simp: coord_in_def)

section \<open>Properties\<close>

text \<open>When the device has room for the whole model, the conventional mapping is injective:
  coordinates with different layer, head or token block get different addresses, and every
  address is on the device.\<close>

theorem conventional_lba_injective:
  assumes "mapper_ok m" "num_layers m * num_heads m * blocks_per_head m \<le> total_device_blocks m"
    and "coord_in m c" "coord_in m c'"
  shows "\<exists>a a'. tensor_to_lba m c ''conventional'' = Inr a \<and> tensor_to_lba m c' ''conventional'' = Inr a' \<and>
    0 \<le> lba a \<and> lba a < total_device_blocks m \<and>
    (lba a = lba a' \<longrightarrow> co_layer_id c = co_layer_id c' \<and> co_head_id c = co_head_id c' \<and>
       coord_block_idx c = coord_block_idx c')"
proof -
  have t: "0 < total_device_blocks m" using assms(1) by (simp add: mapper_ok_def)
  have r: "0 \<le> linear_block m (co_layer_id x) (co_head_id x) (coord_block_idx x) \<and>
      linear_block m (co_layer_id x) (co_head_id x) (coord_block_idx x) < total_device_blocks m"
    if "coord_in m x" for x
    using linear_block_range [OF that] assms(2) by linarith
  show ?thesis
    using t r [OF assms(3)] r [OF assms(4)] linear_block_inj [OF assms(3,4)]
    by (simp add: tensor_to_lba_def Let_def)
qed

definition sample_coord :: "int \<Rightarrow> int \<Rightarrow> int \<Rightarrow> tensor_coord" where
  "sample_coord l h t = \<lparr>co_layer_id = l, co_head_id = h, token_idx = t, tokens_per_block = 16,
     co_block_id = None, co_blocks_per_head = 44\<rparr>"

lemma sample_coord_lh [simp]: "co_layer_id (sample_coord l h t) = l" "co_head_id (sample_coord l h t) = h"
  by (simp_all add: sample_coord_def)

lemmas default_mapper_defs = default_mapper_def new_mapper_def SSD_CHANNELS_def SSD_DIES_PER_CHANNEL_def
  SSD_PLANES_PER_DIE_def SSD_PAGES_PER_BLOCK_def

lemma conventional_lba_injective_witness:
  "\<exists>a a'. tensor_to_lba default_mapper (sample_coord 1 0 32) ''conventional'' = Inr a \<and>
     tensor_to_lba default_mapper (sample_coord 0 1 32) ''conventional'' = Inr a' \<and> lba a \<noteq> lba a'"
  using conventional_lba_injective [of default_mapper "sample_coord 1 0 32" "sample_coord 0 1 32"]
  by (auto simp: mapper_ok_def coord_in_def coord_block_idx_def sample_coord_def default_mapper_defs)

text \<open>The tensor-aware address is on the device, and the two translations agree: dividing the
  address by the stripe size gives back the channel and the die of the physical coordinate.\<close>

theorem tensor_lba_agrees_with_nand:
  assumes "mapper_ok m"
  shows "\<exists>a ch die pl blk pg. tensor_to_lba m c ''tensor_aware'' = Inr a \<and>
    tensor_to_nand_physical m c ''tensor_aware'' cs = Inr (ch, die, pl, blk, pg) \<and>
    0 \<le> lba a \<and> lba a < total_device_blocks m \<and>
    lba a div stripe_unit m = ch * m_dies m + die \<and>
    0 \<le> ch \<and> ch < m_channels m \<and> 0 \<le> die \<and> die < m_dies m \<and> 0 \<le> pl \<and> pl < m_planes m \<and>
    0 \<le> blk \<and> blk < m_blocks m \<and> 0 \<le> pg \<and> pg < m_pages m"
proof -
  let ?l = "co_layer_id c" and ?h = "co_head_id c" and ?b = "coord_block_idx c"
  let ?x = "target_channel m ?l ?h ?b * m_dies m + target_die m ?l ?h ?b"
  let ?o = "linear_block m ?l ?h ?b mod stripe_unit m"
  note r = target_ranges [OF assms, of ?l ?h ?b] and su = stripe_unit_pos [OF assms]
  have x: "0 \<le> ?x \<and> ?x < m_channels m * m_dies m" by (rule mixed_radix_bound) (use r in auto)
  have a: "0 \<le> ?x * stripe_unit m + ?o \<and> ?x * stripe_unit m + ?o < m_channels m * m_dies m * stripe_unit m"
    by (rule mixed_radix_bound) (use x su in auto)
  have tot: "m_channels m * m_dies m * stripe_unit m = total_device_blocks m"
    using assms by (simp add: stripe_unit_eq [OF assms]) (simp add: mapper_ok_def mult_ac)
  have d: "(?x * stripe_unit m + ?o) div stripe_unit m = ?x" using su by simp
  show ?thesis
    using assms su r a [unfolded tot] d
    by (simp add: tensor_to_lba_def tensor_to_nand_physical_def Let_def mapper_ok_def)
qed

lemma tensor_lba_agrees_with_nand_witness:
  "\<exists>a. tensor_to_lba default_mapper (sample_coord 5 1 4096) ''tensor_aware'' = Inr a \<and> lba a < 524288"
  using tensor_lba_agrees_with_nand [of default_mapper "sample_coord 5 1 4096"]
  by (auto simp: mapper_ok_def default_mapper_defs)

text \<open>The tensor-aware address mapping is not injective, even in the default configuration:
  layer \<open>l\<close> and layer \<open>l + 8\<close> share the address of every head and token block, because the
  offset inside a stripe is taken modulo the stripe unit.\<close>

theorem tensor_lba_aliases_layers:
  "tensor_to_lba default_mapper (sample_coord l h t) ''tensor_aware'' =
   tensor_to_lba default_mapper (sample_coord (l + 8) h t) ''tensor_aware''"
proof -
  let ?b = "coord_block_idx (sample_coord l h t)"
  have b: "coord_block_idx (sample_coord (l + 8) h t) = ?b"
    by (simp add: coord_block_idx_def sample_coord_def)
  have "linear_block default_mapper (l + 8) h ?b = linear_block default_mapper l h ?b + 2 * 16384"
    by (simp add: linear_block_def default_mapper_defs algebra_simps)
  then have o: "linear_block default_mapper (l + 8) h ?b mod 16384 = linear_block default_mapper l h ?b mod 16384"
    by (simp only: mod_mult_self1)
  have shift: "(x + 8) mod 8 = x mod 8" "(x + 8) mod 4 = x mod 4" for x :: int
    using mod_mult_self1 [of x 1 8] mod_mult_self1 [of x 2 4] by simp_all
  have sums: "l + 8 + h + ?b + ?b div 8 = (l + h + ?b + ?b div 8) + 8"
    "l + 8 + h div 8 + ?b div 8 = (l + h div 8 + ?b div 8) + 8" by linarith+
  have c: "target_channel default_mapper (l + 8) h ?b = target_channel default_mapper l h ?b"
    by (simp only: target_channel_def default_mapper_defs tensor_mapper.simps sums shift)
  have d: "target_die default_mapper (l + 8) h ?b = target_die default_mapper l h ?b"
    by (simp only: target_die_def default_mapper_defs tensor_mapper.simps sums shift)
  have s: "stripe_unit default_mapper = 16384" by (simp add: stripe_unit_def default_mapper_defs)
  show ?thesis
    by (simp add: tensor_to_lba_def Let_def b s c d o sample_coord_lh)
qed

end
