(* ===== verification/KvStore.thy ===== *)
theory KvStore
  imports Prelude "HOL-Library.Word"
begin

text \<open>
  What the storage backends share: tensors as numpy hands them to the code (shape, element
  type, bytes), positional file access, and the contract of a key-value store, stated as a
  locale and interpreted on each backend.
\<close>

section \<open>Tensors\<close>

type_synonym byte = "8 word"

datatype np_dtype = Float16 | Float32 | Float64 | Int8 | Int32 | Int64

fun itemsize :: "np_dtype \<Rightarrow> nat" where
  "itemsize Float16 = 2"
| "itemsize Float32 = 4"
| "itemsize Float64 = 8"
| "itemsize Int8 = 1"
| "itemsize Int32 = 4"
| "itemsize Int64 = 8"

record tensor =
  shape :: "nat list"
  elem_type :: np_dtype
  raw :: "byte list"

definition nbytes :: "tensor \<Rightarrow> nat" where
  "nbytes t = length (raw t)"

text \<open>What numpy guarantees of every array: as many bytes as shape and element type say.\<close>

definition tensor_ok :: "tensor \<Rightarrow> bool" where
  "tensor_ok t \<longleftrightarrow> length (raw t) = itemsize (elem_type t) * prod_list (shape t)"

definition zeros :: "nat list \<Rightarrow> np_dtype \<Rightarrow> tensor" where
  "zeros sh dt = \<lparr>shape = sh, elem_type = dt, raw = replicate (itemsize dt * prod_list sh) 0\<rparr>"

text \<open>
  \<open>np.frombuffer(raw, dtype).reshape(shape)\<close>: \<open>ValueError\<close> when the bytes are not exactly
  those of an array of that shape.
\<close>

definition from_buffer :: "np_dtype \<Rightarrow> nat list \<Rightarrow> byte list \<Rightarrow> tensor res" where
  "from_buffer dt sh bs =
     (let t = \<lparr>shape = sh, elem_type = dt, raw = bs\<rparr> in if tensor_ok t then Inr t else Inl ValueError)"

lemma zeros_ok [simp]: "tensor_ok (zeros sh dt)"
  by (simp add: tensor_ok_def zeros_def)

lemma nbytes_zeros [simp]: "nbytes (zeros sh dt) = itemsize dt * prod_list sh"
  by (simp add: nbytes_def zeros_def)

lemma from_buffer_raw [simp]: "tensor_ok t \<Longrightarrow> from_buffer (elem_type t) (shape t) (raw t) = Inr t"
  by (cases t) (simp add: from_buffer_def)

section \<open>Positional file access\<close>

definition pread :: "byte list \<Rightarrow> nat \<Rightarrow> nat \<Rightarrow> byte list" where
  "pread f n off = take n (drop off f)"

definition pwrite :: "byte list \<Rightarrow> byte list \<Rightarrow> nat \<Rightarrow> byte list" where
  "pwrite f bs off =
     take off (f @ replicate (off - length f) 0) @ bs @ drop (off + length bs) f"

lemma pwrite_end: "pwrite f bs (length f) = f @ bs"
  by (simp add: pwrite_def)

lemma pread_append: "off + n \<le> length f \<Longrightarrow> pread (f @ g) n off = pread f n off"
  by (simp add: pread_def)

lemma pread_here: "pread (f @ bs @ g) (length bs) (length f) = bs"
  by (simp add: pread_def)

lemma pread_split: "pread f (n + m) off = pread f n off @ pread f m (off + n)"
  by (simp add: pread_def take_add add.commute [of off])

lemma length_pread: "length (pread f n off) = min n (length f - off)"
  by (simp add: pread_def)

section \<open>The contract of a key-value store\<close>

text \<open>
  A backend keeps a finite map from keys to values behind its own representation. \<open>put\<close>, whose
  argument carries the value \<open>val a\<close> and placement hints, and \<open>del\<close> act as map update and map deletion, and \<open>touch\<close> (reads, statistics) leaves the map
  alone. Every sequence of calls then acts as the same sequence on an abstract map.
\<close>

datatype ('k, 'a, 'c) kv_op = Put 'k 'a | Del 'k | Touch 'c

fun map_op :: "('a \<Rightarrow> 'v) \<Rightarrow> ('k, 'a, 'c) kv_op \<Rightarrow> ('k \<Rightarrow> 'v option) \<Rightarrow> ('k \<Rightarrow> 'v option)" where
  "map_op val (Put k a) m = m(k \<mapsto> val a)"
| "map_op val (Del k) m = m(k := None)"
| "map_op val (Touch c) m = m"

fun kv_exec ::
    "('k \<Rightarrow> 'a \<Rightarrow> 's \<Rightarrow> 's) \<Rightarrow> ('k \<Rightarrow> 's \<Rightarrow> 's) \<Rightarrow> ('c \<Rightarrow> 's \<Rightarrow> 's) \<Rightarrow> ('k, 'a, 'c) kv_op \<Rightarrow> 's \<Rightarrow> 's" where
  "kv_exec put del touch (Put k v) s = put k v s"
| "kv_exec put del touch (Del k) s = del k s"
| "kv_exec put del touch (Touch c) s = touch c s"

fun kv_op_ok :: "('a \<Rightarrow> bool) \<Rightarrow> ('k, 'a, 'c) kv_op \<Rightarrow> bool" where
  "kv_op_ok ok (Put k v) = ok v"
| "kv_op_ok ok (Del k) = True"
| "kv_op_ok ok (Touch c) = True"

locale kv_store =
  fixes lookup :: "'s \<Rightarrow> 'k \<Rightarrow> 'v option"
    and val :: "'a \<Rightarrow> 'v"
    and put :: "'k \<Rightarrow> 'a \<Rightarrow> 's \<Rightarrow> 's"
    and del :: "'k \<Rightarrow> 's \<Rightarrow> 's"
    and touch :: "'c \<Rightarrow> 's \<Rightarrow> 's"
    and inv :: "'s \<Rightarrow> bool"
    and ok :: "'a \<Rightarrow> bool"
  assumes put_inv: "inv s \<Longrightarrow> ok v \<Longrightarrow> inv (put k v s)"
    and put_lookup: "inv s \<Longrightarrow> ok v \<Longrightarrow> lookup (put k v s) = (lookup s)(k \<mapsto> val v)"
    and del_inv: "inv s \<Longrightarrow> inv (del k s)"
    and del_lookup: "inv s \<Longrightarrow> lookup (del k s) = (lookup s)(k := None)"
    and touch_inv: "inv s \<Longrightarrow> inv (touch c s)"
    and touch_lookup: "inv s \<Longrightarrow> lookup (touch c s) = lookup s"
begin

lemma exec_refines:
  "inv s \<Longrightarrow> kv_op_ok ok a \<Longrightarrow>
   inv (kv_exec put del touch a s) \<and> lookup (kv_exec put del touch a s) = map_op val a (lookup s)"
  by (cases a) (simp_all add: put_inv put_lookup del_inv del_lookup touch_inv touch_lookup)

lemma run_refines:
  "inv s \<Longrightarrow> \<forall>a\<in>set as. kv_op_ok ok a \<Longrightarrow>
   inv (fold (kv_exec put del touch) as s) \<and>
   lookup (fold (kv_exec put del touch) as s) = fold (map_op val) as (lookup s)"
  by (induction as arbitrary: s) (simp_all add: exec_refines)

end

end
