(* ===== verification/InferenceBackend.thy ===== *)
theory InferenceBackend
  imports TensorMapper KvStore
begin

text \<open>
  The storage backend live inference writes to: \<open>person2_ssd/inference_backend.py\<close>, in its
  file mode. Payloads are appended to one backing file, a table keeps offset, size, shape and
  type of every block, and counters record the traffic per channel. An operation returns its
  result or the exception it raises, with the state it leaves behind.
\<close>

section \<open>State\<close>

record block_meta =
  k_offset :: nat
  k_size :: nat
  k_shape :: "nat list"
  k_dtype :: np_dtype
  v_offset :: nat
  v_size :: nat
  v_shape :: "nat list"
  v_dtype :: np_dtype
  bm_head_id :: int
  bm_token_start :: int
  bm_channel :: int
  bm_channels :: "int list"
  bm_lba :: int

datatype access =
    SingleAccess string int int int int int
  | BatchAccess string int int int int
  | TopkAccess int int int int

record backend =
  rb_channels :: int
  rb_tokens_per_block :: nat
  rb_num_heads :: nat
  rb_head_dim :: nat
  rb_mapping_mode :: string
  rb_enable_batching :: bool
  rb_t_r_us :: real
  rb_t_prog_us :: real
  rb_t_xfer_us :: real
  rb_mapper :: tensor_mapper
  rb_storage :: "(int \<times> int, block_meta) dict"
  rb_backing :: "byte list option"
  rb_file_offset :: nat
  rb_channel_counters :: "(int, int) dict"
  rb_reads :: "(int, int) dict"
  rb_writes :: "(int, int) dict"
  rb_read_bytes :: "(int, int) dict"
  rb_write_bytes :: "(int, int) dict"
  rb_bytes_read :: int
  rb_bytes_written :: int
  rb_blocks_read :: int
  rb_blocks_written :: int
  rb_requests :: int
  rb_key_reads :: int
  rb_value_reads :: int
  rb_combined_reads :: int
  rb_storage_batches :: int
  rb_batched_requests :: int
  rb_topk_calls :: int
  rb_internal_k_blocks :: int
  rb_internal_k_bytes :: int
  rb_access_log :: "access list"

text \<open>\<open>None\<close> in \<open>rb_backing\<close> is a closed descriptor; an open backing file starts empty.\<close>

definition new_backend ::
    "int \<Rightarrow> int \<Rightarrow> int \<Rightarrow> int \<Rightarrow> int \<Rightarrow> int \<Rightarrow> nat \<Rightarrow> nat \<Rightarrow> nat \<Rightarrow> string \<Rightarrow> bool \<Rightarrow> real \<Rightarrow> real \<Rightarrow> real \<Rightarrow> backend" where
  "new_backend c d p pg blk nl nh tpb hdim md batching tr tp tx = \<lparr>
     rb_channels = c, rb_tokens_per_block = tpb, rb_num_heads = nh, rb_head_dim = hdim,
     rb_mapping_mode = md, rb_enable_batching = batching,
     rb_t_r_us = tr, rb_t_prog_us = tp, rb_t_xfer_us = tx,
     rb_mapper = new_mapper c d p blk pg 4096 65536 nl (int nh),
     rb_storage = [], rb_backing = Some [], rb_file_offset = 0,
     rb_channel_counters = zero_counters c, rb_reads = zero_counters c, rb_writes = zero_counters c,
     rb_read_bytes = zero_counters c, rb_write_bytes = zero_counters c,
     rb_bytes_read = 0, rb_bytes_written = 0, rb_blocks_read = 0, rb_blocks_written = 0,
     rb_requests = 0, rb_key_reads = 0, rb_value_reads = 0, rb_combined_reads = 0,
     rb_storage_batches = 0, rb_batched_requests = 0,
     rb_topk_calls = 0, rb_internal_k_blocks = 0, rb_internal_k_bytes = 0, rb_access_log = []\<rparr>"

definition rb_close :: "backend \<Rightarrow> backend" where
  "rb_close b = b\<lparr>rb_backing := None\<rparr>"

text \<open>The log keeps its last 200 entries.\<close>

definition push_log :: "access \<Rightarrow> backend \<Rightarrow> backend" where
  "push_log a b = (let l = rb_access_log b @ [a] in b\<lparr>rb_access_log := drop (length l - 200) l\<rparr>)"

section \<open>Writes\<close>

text \<open>A payload is an array or a byte buffer; a buffer gets the backend's block shape and FP32.\<close>

datatype kv_data = Arr tensor | Buf "byte list"

definition block_shape :: "backend \<Rightarrow> nat list" where
  "block_shape b = [rb_tokens_per_block b, rb_num_heads b, rb_head_dim b]"

fun payload :: "backend \<Rightarrow> kv_data \<Rightarrow> tensor" where
  "payload b (Arr t) = t"
| "payload b (Buf bs) = \<lparr>shape = block_shape b, elem_type = Float32, raw = bs\<rparr>"

fun heads_in_block :: "kv_data \<Rightarrow> nat" where
  "heads_in_block (Arr t) = (if length (shape t) = 3 then shape t ! 1 else 1)"
| "heads_in_block (Buf bs) = 1"

definition block_coord :: "int \<Rightarrow> int \<Rightarrow> int \<Rightarrow> int \<Rightarrow> int \<Rightarrow> tensor_coord" where
  "block_coord tpb layer head tok bid = \<lparr>co_layer_id = layer, co_head_id = head, token_idx = tok,
     tokens_per_block = tpb, co_block_id = Some bid, co_blocks_per_head = 44\<rparr>"

text \<open>The three counters a written head moves, in the order of the code.\<close>

definition charge_write :: "int \<Rightarrow> int \<Rightarrow> backend \<Rightarrow> unit res \<times> backend" where
  "charge_write ch n b =
     (case dadd ch 1 (rb_channel_counters b) of Inl e \<Rightarrow> (Inl e, b) | Inr cc \<Rightarrow>
     (let b1 = b\<lparr>rb_channel_counters := cc\<rparr> in
      case dadd ch 1 (rb_writes b1) of Inl e \<Rightarrow> (Inl e, b1) | Inr w \<Rightarrow>
     (let b2 = b1\<lparr>rb_writes := w\<rparr> in
      case dadd ch n (rb_write_bytes b2) of Inl e \<Rightarrow> (Inl e, b2) | Inr wb \<Rightarrow>
        (Inr (), b2\<lparr>rb_write_bytes := wb\<rparr>))))"

fun assign_channels :: "int \<Rightarrow> int \<Rightarrow> int \<Rightarrow> int \<Rightarrow> int list \<Rightarrow> backend \<Rightarrow> int list res \<times> backend" where
  "assign_channels layer bid tok share [] b = (Inr [], b)"
| "assign_channels layer bid tok share (h # hs) b =
     (case tensor_to_nand_physical (rb_mapper b)
             (block_coord (int (rb_tokens_per_block b)) layer h tok bid) (rb_mapping_mode b)
             (Some (rb_channel_counters b)) of
        Inl e \<Rightarrow> (Inl e, b)
      | Inr p \<Rightarrow>
          (case charge_write (fst p) share b of
             (Inl e, b1) \<Rightarrow> (Inl e, b1)
           | (Inr _, b1) \<Rightarrow>
               (case assign_channels layer bid tok share hs b1 of
                  (Inl e, b2) \<Rightarrow> (Inl e, b2)
                | (Inr chs, b2) \<Rightarrow> (Inr (fst p # chs), b2))))"

definition append_block ::
    "int \<Rightarrow> int \<Rightarrow> tensor \<Rightarrow> tensor \<Rightarrow> int \<Rightarrow> int \<Rightarrow> int list \<Rightarrow> int \<Rightarrow> byte list \<Rightarrow> backend \<Rightarrow> backend" where
  "append_block layer bid k v head tok chs a f b =
     (let koff = rb_file_offset b; voff = koff + nbytes k; tot = nbytes k + nbytes v;
          m = \<lparr>k_offset = koff, k_size = nbytes k, k_shape = shape k, k_dtype = elem_type k,
               v_offset = voff, v_size = nbytes v, v_shape = shape v, v_dtype = elem_type v,
               bm_head_id = head, bm_token_start = tok,
               bm_channel = (case chs of [] \<Rightarrow> 0 | c # _ \<Rightarrow> c), bm_channels = chs, bm_lba = a\<rparr>
      in push_log (SingleAccess ''WRITE'' layer head bid (bm_channel m) (int tot))
           (b\<lparr>rb_backing := Some (pwrite (pwrite f (raw k) koff) (raw v) voff),
              rb_file_offset := koff + tot,
              rb_storage := dset (layer, bid) m (rb_storage b),
              rb_blocks_written := rb_blocks_written b + 1,
              rb_bytes_written := rb_bytes_written b + int tot,
              rb_requests := rb_requests b + 1\<rparr>))"

definition rb_write_block ::
    "int \<Rightarrow> int \<Rightarrow> kv_data \<Rightarrow> kv_data \<Rightarrow> int \<Rightarrow> int \<Rightarrow> backend \<Rightarrow> unit res \<times> backend" where
  "rb_write_block layer bid kd vd head tok b =
     (let k = payload b kd; v = payload b vd; n = heads_in_block kd;
          share = int (nbytes k + nbytes v) div int n
      in case assign_channels layer bid tok share (map (\<lambda>i. head + int i) [0..<n]) b of
           (Inl e, b1) \<Rightarrow> (Inl e, b1)
         | (Inr chs, b1) \<Rightarrow>
             (case tensor_to_lba (rb_mapper b1) (block_coord 16 layer head tok bid) (rb_mapping_mode b1) of
                Inl e \<Rightarrow> (Inl e, b1)
              | Inr a \<Rightarrow>
                  (case rb_backing b1 of
                     None \<Rightarrow> (Inl TypeError, b1)
                   | Some f \<Rightarrow> (Inr (), append_block layer bid k v head tok chs (lba a) f b1))))"

definition rb_store_kv ::
    "int \<Rightarrow> int \<Rightarrow> kv_data \<Rightarrow> kv_data \<Rightarrow> int \<Rightarrow> int \<Rightarrow> backend \<Rightarrow> bool res \<times> backend" where
  "rb_store_kv bid layer kd vd head tok b =
     (case rb_write_block layer bid kd vd head tok b of
        (Inl e, b') \<Rightarrow> (Inl e, b') | (Inr _, b') \<Rightarrow> (Inr True, b'))"

section \<open>Reads\<close>

text \<open>
  Key page, value page and whole block differ in what they fetch and which counters move. A
  block that was never written reads as zeros of the backend's shape.
\<close>

datatype page_kind = KeyPage | ValuePage | WholeBlock

fun missing_page :: "page_kind \<Rightarrow> backend \<Rightarrow> tensor list" where
  "missing_page WholeBlock b = [zeros (block_shape b) Float32, zeros (block_shape b) Float32]"
| "missing_page _ b = [zeros (block_shape b) Float32]"

fun page_bytes :: "page_kind \<Rightarrow> block_meta \<Rightarrow> nat" where
  "page_bytes KeyPage m = k_size m"
| "page_bytes ValuePage m = v_size m"
| "page_bytes WholeBlock m = k_size m + v_size m"

definition fetch_key :: "byte list \<Rightarrow> block_meta \<Rightarrow> tensor res" where
  "fetch_key f m = from_buffer (k_dtype m) (k_shape m) (pread f (k_size m) (k_offset m))"

definition fetch_value :: "byte list \<Rightarrow> block_meta \<Rightarrow> tensor res" where
  "fetch_value f m = from_buffer (v_dtype m) (v_shape m) (pread f (v_size m) (v_offset m))"

fun fetch_single :: "page_kind \<Rightarrow> byte list \<Rightarrow> block_meta \<Rightarrow> tensor list res" where
  "fetch_single KeyPage f m = rbind (fetch_key f m) (\<lambda>k. Inr [k])"
| "fetch_single ValuePage f m = rbind (fetch_value f m) (\<lambda>v. Inr [v])"
| "fetch_single WholeBlock f m = rbind (fetch_key f m) (\<lambda>k. rbind (fetch_value f m) (\<lambda>v. Inr [k, v]))"

text \<open>A batch reads key and value of a block in one access and splits the bytes.\<close>

fun fetch_batch :: "page_kind \<Rightarrow> byte list \<Rightarrow> block_meta \<Rightarrow> tensor list res" where
  "fetch_batch WholeBlock f m =
     (let bs = pread f (k_size m + v_size m) (k_offset m)
      in rbind (from_buffer (k_dtype m) (k_shape m) (take (k_size m) bs)) (\<lambda>k.
         rbind (from_buffer (v_dtype m) (v_shape m) (drop (k_size m) bs)) (\<lambda>v. Inr [k, v])))"
| "fetch_batch pk f m = fetch_single pk f m"

definition page_of ::
    "(page_kind \<Rightarrow> byte list \<Rightarrow> block_meta \<Rightarrow> tensor list res) \<Rightarrow> page_kind \<Rightarrow> int \<Rightarrow> int \<Rightarrow> backend \<Rightarrow>
     (tensor list \<times> nat) res" where
  "page_of fetch pk layer bid b =
     (case dget (rb_storage b) (layer, bid) of
        None \<Rightarrow> (let ts = missing_page pk b in Inr (ts, sum_list (map nbytes ts)))
      | Some m \<Rightarrow>
          (case rb_backing b of
             None \<Rightarrow> Inl TypeError
           | Some f \<Rightarrow> rbind (fetch pk f m) (\<lambda>ts. Inr (ts, page_bytes pk m))))"

definition charge_read :: "int \<Rightarrow> int \<Rightarrow> backend \<Rightarrow> unit res \<times> backend" where
  "charge_read ch n b =
     (case dadd ch 1 (rb_reads b) of Inl e \<Rightarrow> (Inl e, b) | Inr r \<Rightarrow>
     (let b1 = b\<lparr>rb_reads := r\<rparr> in
      case dadd ch n (rb_read_bytes b1) of Inl e \<Rightarrow> (Inl e, b1) | Inr rb \<Rightarrow>
        (Inr (), b1\<lparr>rb_read_bytes := rb\<rparr>)))"

text \<open>The cumulative counters of \<open>n\<close> page requests with \<open>k\<close> bytes in all.\<close>

definition count_reads :: "page_kind \<Rightarrow> int \<Rightarrow> int \<Rightarrow> backend \<Rightarrow> backend" where
  "count_reads pk n k b =
     b\<lparr>rb_requests := rb_requests b + n,
       rb_bytes_read := rb_bytes_read b + k,
       rb_blocks_read := rb_blocks_read b + (if pk = KeyPage then 0 else n),
       rb_key_reads := rb_key_reads b + (if pk = KeyPage then n else 0),
       rb_value_reads := rb_value_reads b + (if pk = ValuePage then n else 0),
       rb_combined_reads := rb_combined_reads b + (if pk = WholeBlock then n else 0)\<rparr>"

fun read_op :: "page_kind \<Rightarrow> string" where
  "read_op KeyPage = ''READ_KEY''"
| "read_op ValuePage = ''READ_VALUE''"
| "read_op WholeBlock = ''READ_BLOCK''"

definition read_single :: "page_kind \<Rightarrow> int \<Rightarrow> int \<Rightarrow> int \<Rightarrow> int \<Rightarrow> backend \<Rightarrow> tensor list res \<times> backend" where
  "read_single pk layer bid head tok b =
     (case tensor_to_nand_physical (rb_mapper b)
             (block_coord (int (rb_tokens_per_block b)) layer head tok bid) (rb_mapping_mode b) None of
        Inl e \<Rightarrow> (Inl e, b)
      | Inr p \<Rightarrow>
          (case page_of fetch_single pk layer bid b of
             Inl e \<Rightarrow> (Inl e, b)
           | Inr (ts, n) \<Rightarrow>
               (case charge_read (fst p) (int n) b of
                  (Inl e, b1) \<Rightarrow> (Inl e, b1)
                | (Inr _, b1) \<Rightarrow>
                    (Inr ts, push_log (SingleAccess (read_op pk) layer head bid (fst p) (int n))
                               (count_reads pk 1 (int n) b1)))))"

definition rb_read_key_page :: "int \<Rightarrow> int \<Rightarrow> int \<Rightarrow> int \<Rightarrow> backend \<Rightarrow> tensor res \<times> backend" where
  "rb_read_key_page layer bid head tok b =
     (case read_single KeyPage layer bid head tok b of (r, b') \<Rightarrow> (rbind r (\<lambda>ts. Inr (ts ! 0)), b'))"

definition rb_read_value_page :: "int \<Rightarrow> int \<Rightarrow> int \<Rightarrow> int \<Rightarrow> backend \<Rightarrow> tensor res \<times> backend" where
  "rb_read_value_page layer bid head tok b =
     (case read_single ValuePage layer bid head tok b of (r, b') \<Rightarrow> (rbind r (\<lambda>ts. Inr (ts ! 0)), b'))"

definition rb_read_block :: "int \<Rightarrow> int \<Rightarrow> int \<Rightarrow> int \<Rightarrow> backend \<Rightarrow> (tensor \<times> tensor) res \<times> backend" where
  "rb_read_block layer bid head tok b =
     (case read_single WholeBlock layer bid head tok b of (r, b') \<Rightarrow> (rbind r (\<lambda>ts. Inr (ts ! 0, ts ! 1)), b'))"

section \<open>Batched reads\<close>

fun batch_op :: "page_kind \<Rightarrow> string" where
  "batch_op KeyPage = ''BATCH_READ_KEY''"
| "batch_op ValuePage = ''BATCH_READ_VALUE''"
| "batch_op WholeBlock = ''BATCH_READ_BLOCK''"

definition batch_channel :: "int \<Rightarrow> int \<Rightarrow> backend \<Rightarrow> int" where
  "batch_channel layer bid b = (case dget (rb_storage b) (layer, bid) of None \<Rightarrow> 0 | Some m \<Rightarrow> bm_channel m)"

fun batch_loop ::
    "page_kind \<Rightarrow> int \<Rightarrow> int list \<Rightarrow> (int, tensor list) dict \<Rightarrow> int \<Rightarrow> backend \<Rightarrow>
     ((int, tensor list) dict \<times> int) res \<times> backend" where
  "batch_loop pk layer [] acc tot b = (Inr (acc, tot), b)"
| "batch_loop pk layer (i # is) acc tot b =
     (case page_of fetch_batch pk layer i b of
        Inl e \<Rightarrow> (Inl e, b)
      | Inr (ts, n) \<Rightarrow>
          (case charge_read (batch_channel layer i b) (int n) b of
             (Inl e, b1) \<Rightarrow> (Inl e, b1)
           | (Inr _, b1) \<Rightarrow> batch_loop pk layer is (dset i ts acc) (tot + int n) b1))"

text \<open>With batching disabled, a dictionary comprehension over single reads.\<close>

fun single_loop ::
    "page_kind \<Rightarrow> int \<Rightarrow> int \<Rightarrow> int \<Rightarrow> int list \<Rightarrow> (int, tensor list) dict \<Rightarrow> backend \<Rightarrow>
     (int, tensor list) dict res \<times> backend" where
  "single_loop pk layer head tok [] acc b = (Inr acc, b)"
| "single_loop pk layer head tok (i # is) acc b =
     (case read_single pk layer i head tok b of
        (Inl e, b1) \<Rightarrow> (Inl e, b1)
      | (Inr ts, b1) \<Rightarrow> single_loop pk layer head tok is (dset i ts acc) b1)"

definition read_batch ::
    "page_kind \<Rightarrow> int \<Rightarrow> int list \<Rightarrow> int \<Rightarrow> int \<Rightarrow> backend \<Rightarrow> (int, tensor list) dict res \<times> backend" where
  "read_batch pk layer ids head tok b =
     (if ids = [] then (Inr [], b)
      else if \<not> rb_enable_batching b then single_loop pk layer head tok ids [] b
      else (case batch_loop pk layer ids [] 0 b of
              (Inl e, b1) \<Rightarrow> (Inl e, b1)
            | (Inr (acc, tot), b1) \<Rightarrow>
                (let n = int (length ids);
                     b2 = count_reads pk n tot
                            (b1\<lparr>rb_storage_batches := rb_storage_batches b1 + 1,
                                rb_batched_requests := rb_batched_requests b1 + n\<rparr>)
                 in (Inr acc, push_log (BatchAccess (batch_op pk) layer head n tot) b2))))"

definition rb_read_key_page_batch ::
    "int \<Rightarrow> int list \<Rightarrow> int \<Rightarrow> int \<Rightarrow> backend \<Rightarrow> (int, tensor) dict res \<times> backend" where
  "rb_read_key_page_batch layer ids head tok b =
     (case read_batch KeyPage layer ids head tok b of
        (r, b') \<Rightarrow> (rbind r (\<lambda>d. Inr (map (\<lambda>(i, ts). (i, ts ! 0)) d)), b'))"

definition rb_read_value_page_batch ::
    "int \<Rightarrow> int list \<Rightarrow> int \<Rightarrow> int \<Rightarrow> backend \<Rightarrow> (int, tensor) dict res \<times> backend" where
  "rb_read_value_page_batch layer ids head tok b =
     (case read_batch ValuePage layer ids head tok b of
        (r, b') \<Rightarrow> (rbind r (\<lambda>d. Inr (map (\<lambda>(i, ts). (i, ts ! 0)) d)), b'))"

definition rb_read_block_batch ::
    "int \<Rightarrow> int list \<Rightarrow> int \<Rightarrow> int \<Rightarrow> backend \<Rightarrow> (int, tensor \<times> tensor) dict res \<times> backend" where
  "rb_read_block_batch layer ids head tok b =
     (case read_batch WholeBlock layer ids head tok b of
        (r, b') \<Rightarrow> (rbind r (\<lambda>d. Inr (map (\<lambda>(i, ts). (i, (ts ! 0, ts ! 1))) d)), b'))"

section \<open>Eviction and statistics\<close>

definition rb_evict_block :: "int \<Rightarrow> int \<Rightarrow> backend \<Rightarrow> bool \<times> backend" where
  "rb_evict_block layer bid b =
     (if dmem (layer, bid) (rb_storage b) then (True, b\<lparr>rb_storage := dpop (layer, bid) (rb_storage b)\<rparr>)
      else (False, b))"

definition rb_evict_kv :: "int \<Rightarrow> int \<Rightarrow> backend \<Rightarrow> bool \<times> backend" where
  "rb_evict_kv bid layer b = rb_evict_block layer bid b"

definition rb_contains_block :: "int \<Rightarrow> int \<Rightarrow> backend \<Rightarrow> bool" where
  "rb_contains_block layer bid b = dmem (layer, bid) (rb_storage b)"

definition rb_reset_stats :: "backend \<Rightarrow> backend" where
  "rb_reset_stats b = b\<lparr>
     rb_channel_counters := zero_counters (rb_channels b), rb_reads := zero_counters (rb_channels b),
     rb_writes := zero_counters (rb_channels b), rb_read_bytes := zero_counters (rb_channels b),
     rb_write_bytes := zero_counters (rb_channels b),
     rb_bytes_read := 0, rb_bytes_written := 0, rb_blocks_read := 0, rb_blocks_written := 0,
     rb_requests := 0, rb_key_reads := 0, rb_value_reads := 0, rb_combined_reads := 0,
     rb_storage_batches := 0, rb_batched_requests := 0,
     rb_topk_calls := 0, rb_internal_k_blocks := 0, rb_internal_k_bytes := 0, rb_access_log := []\<rparr>"

definition rb_get_trace_log :: "backend \<Rightarrow> access list" where
  "rb_get_trace_log b = rb_access_log b"

section \<open>Invariant\<close>

definition mode_ok :: "string \<Rightarrow> bool" where
  "mode_ok md \<longleftrightarrow> md = ''conventional'' \<or> md = ''tensor_aware''"

definition counters_ok :: "backend \<Rightarrow> bool" where
  "counters_ok b \<longleftrightarrow> (\<forall>d\<in>{rb_channel_counters b, rb_reads b, rb_writes b, rb_read_bytes b, rb_write_bytes b}.
     dkeys d = [0..rb_channels b - 1])"

definition config_ok :: "backend \<Rightarrow> bool" where
  "config_ok b \<longleftrightarrow> mapper_ok (rb_mapper b) \<and> m_channels (rb_mapper b) = rb_channels b \<and> mode_ok (rb_mapping_mode b)"

definition meta_ok :: "byte list \<Rightarrow> block_meta \<Rightarrow> bool" where
  "meta_ok f m \<longleftrightarrow> v_offset m = k_offset m + k_size m \<and> v_offset m + v_size m \<le> length f"

definition store_ok :: "backend \<Rightarrow> bool" where
  "store_ok b \<longleftrightarrow> (\<exists>f. rb_backing b = Some f \<and> length f = rb_file_offset b \<and>
     (\<forall>k m. dget (rb_storage b) k = Some m \<longrightarrow> meta_ok f m))"

definition rb_inv :: "backend \<Rightarrow> bool" where
  "rb_inv b \<longleftrightarrow> config_ok b \<and> counters_ok b \<and> store_ok b"

text \<open>The abstract view: a map from (layer, block) to the two tensors in the file.\<close>

definition stored_key :: "byte list \<Rightarrow> block_meta \<Rightarrow> tensor" where
  "stored_key f m = \<lparr>shape = k_shape m, elem_type = k_dtype m, raw = pread f (k_size m) (k_offset m)\<rparr>"

definition stored_value :: "byte list \<Rightarrow> block_meta \<Rightarrow> tensor" where
  "stored_value f m = \<lparr>shape = v_shape m, elem_type = v_dtype m, raw = pread f (v_size m) (v_offset m)\<rparr>"

definition rb_lookup :: "backend \<Rightarrow> int \<times> int \<Rightarrow> (tensor \<times> tensor) option" where
  "rb_lookup b k = map_option (\<lambda>m. (stored_key (case rb_backing b of None \<Rightarrow> [] | Some f \<Rightarrow> f) m,
       stored_value (case rb_backing b of None \<Rightarrow> [] | Some f \<Rightarrow> f) m)) (dget (rb_storage b) k)"

text \<open>What reads and statistics leave alone.\<close>

definition same_store :: "backend \<Rightarrow> backend \<Rightarrow> bool" where
  "same_store b b' \<longleftrightarrow> rb_storage b' = rb_storage b \<and> rb_backing b' = rb_backing b \<and>
     rb_file_offset b' = rb_file_offset b \<and> rb_mapper b' = rb_mapper b \<and> rb_channels b' = rb_channels b \<and>
     rb_mapping_mode b' = rb_mapping_mode b \<and> block_shape b' = block_shape b \<and>
     rb_tokens_per_block b' = rb_tokens_per_block b \<and> rb_enable_batching b' = rb_enable_batching b"

lemma same_store_refl [simp]: "same_store b b"
  by (simp add: same_store_def)

lemma same_store_trans [trans]: "same_store a b \<Longrightarrow> same_store b c \<Longrightarrow> same_store a c"
  by (simp add: same_store_def)

lemma same_store_lookup: "same_store b b' \<Longrightarrow> rb_lookup b' = rb_lookup b"
  by (simp add: same_store_def rb_lookup_def fun_eq_iff)

lemma same_store_ok: "same_store b b' \<Longrightarrow> store_ok b' = store_ok b \<and> config_ok b' = config_ok b"
  by (simp add: same_store_def store_ok_def config_ok_def)

lemma push_log_same [simp]: "same_store b (push_log a b)"
  by (simp add: same_store_def push_log_def Let_def block_shape_def)

lemma push_log_counters [simp]: "counters_ok (push_log a b) = counters_ok b"
  by (simp add: counters_ok_def push_log_def Let_def)

lemma count_reads_same [simp]: "same_store b (count_reads pk n k b)"
  by (simp add: same_store_def count_reads_def block_shape_def)

lemma count_reads_counters [simp]: "counters_ok (count_reads pk n k b) = counters_ok b"
  by (simp add: counters_ok_def count_reads_def)

text \<open>A channel the mapper returns is one of the backend's.\<close>

lemma mapper_channel:
  assumes "config_ok b"
  shows "\<exists>p. tensor_to_nand_physical (rb_mapper b) c (rb_mapping_mode b) cs = Inr p \<and>
    0 \<le> fst p \<and> fst p < rb_channels b"
  using assms target_ranges [of "rb_mapper b"]
  by (auto simp: config_ok_def mode_ok_def tensor_to_nand_physical_def Let_def mapper_ok_def)

lemma mapper_lba:
  "config_ok b \<Longrightarrow> \<exists>a. tensor_to_lba (rb_mapper b) c (rb_mapping_mode b) = Inr a"
  using stripe_unit_pos [of "rb_mapper b"]
  by (auto simp: config_ok_def mode_ok_def tensor_to_lba_def Let_def mapper_ok_def)

lemma dadd_ok:
  assumes "dkeys d = [0..C - 1]" "0 \<le> ch" "ch < C"
  shows "\<exists>d'. dadd ch n d = Inr d' \<and> dkeys d' = [0..C - 1] \<and> dsum d' = dsum d + n"
proof -
  obtain d' where "dadd ch n d = Inr d'" using dadd_total [of ch d n] assms by auto
  then show ?thesis using dadd_keys dsum_dadd assms(1) by metis
qed

lemma charge_read_ok:
  assumes "counters_ok b" "0 \<le> ch" "ch < rb_channels b"
  shows "\<exists>r rb. charge_read ch n b = (Inr (), b\<lparr>rb_reads := r, rb_read_bytes := rb\<rparr>) \<and>
    dkeys r = [0..rb_channels b - 1] \<and> dkeys rb = [0..rb_channels b - 1] \<and>
    dsum r = dsum (rb_reads b) + 1 \<and> dsum rb = dsum (rb_read_bytes b) + n"
proof -
  have k: "dkeys (rb_reads b) = [0..rb_channels b - 1]" "dkeys (rb_read_bytes b) = [0..rb_channels b - 1]"
    using assms(1) by (simp_all add: counters_ok_def)
  obtain r where r: "dadd ch 1 (rb_reads b) = Inr r" "dkeys r = [0..rb_channels b - 1]"
    "dsum r = dsum (rb_reads b) + 1" using dadd_ok [OF k(1) assms(2,3)] by blast
  obtain rb where rb: "dadd ch n (rb_read_bytes b) = Inr rb" "dkeys rb = [0..rb_channels b - 1]"
    "dsum rb = dsum (rb_read_bytes b) + n" using dadd_ok [OF k(2) assms(2,3)] by blast
  show ?thesis by (rule exI [of _ r], rule exI [of _ rb]) (use r rb in \<open>simp add: charge_read_def Let_def\<close>)
qed

lemma charge_write_ok:
  assumes "counters_ok b" "0 \<le> ch" "ch < rb_channels b"
  shows "\<exists>cc w wb. charge_write ch n b =
      (Inr (), b\<lparr>rb_channel_counters := cc, rb_writes := w, rb_write_bytes := wb\<rparr>) \<and>
    dkeys cc = [0..rb_channels b - 1] \<and> dkeys w = [0..rb_channels b - 1] \<and> dkeys wb = [0..rb_channels b - 1] \<and>
    dsum cc = dsum (rb_channel_counters b) + 1 \<and> dsum w = dsum (rb_writes b) + 1 \<and>
    dsum wb = dsum (rb_write_bytes b) + n"
proof -
  have k: "dkeys (rb_channel_counters b) = [0..rb_channels b - 1]" "dkeys (rb_writes b) = [0..rb_channels b - 1]"
    "dkeys (rb_write_bytes b) = [0..rb_channels b - 1]"
    using assms(1) by (simp_all add: counters_ok_def)
  obtain cc where cc: "dadd ch 1 (rb_channel_counters b) = Inr cc" "dkeys cc = [0..rb_channels b - 1]"
    "dsum cc = dsum (rb_channel_counters b) + 1" using dadd_ok [OF k(1) assms(2,3)] by blast
  obtain w where w: "dadd ch 1 (rb_writes b) = Inr w" "dkeys w = [0..rb_channels b - 1]"
    "dsum w = dsum (rb_writes b) + 1" using dadd_ok [OF k(2) assms(2,3)] by blast
  obtain wb where wb: "dadd ch n (rb_write_bytes b) = Inr wb" "dkeys wb = [0..rb_channels b - 1]"
    "dsum wb = dsum (rb_write_bytes b) + n" using dadd_ok [OF k(3) assms(2,3)] by blast
  show ?thesis by (rule exI [of _ cc], rule exI [of _ w], rule exI [of _ wb])
      (use cc w wb in \<open>simp add: charge_write_def Let_def\<close>)
qed

text \<open>
  The read counters agree. A page request is charged to one channel with its bytes; a filter in
  storage charges the pages of the stored candidates, and counts 4096 bytes for a candidate that
  is not stored without charging any channel.
\<close>

definition page_requests :: "backend \<Rightarrow> int" where
  "page_requests b = rb_key_reads b + rb_value_reads b + rb_combined_reads b"

definition traffic_ok :: "backend \<Rightarrow> bool" where
  "traffic_ok b \<longleftrightarrow> rb_requests b = page_requests b + rb_blocks_written b + rb_topk_calls b \<and>
     dsum (rb_reads b) \<le> page_requests b + rb_internal_k_blocks b \<and>
     rb_bytes_read b = dsum (rb_read_bytes b) + 4096 * (page_requests b + rb_internal_k_blocks b - dsum (rb_reads b)) \<and>
     rb_blocks_read b = rb_value_reads b + rb_combined_reads b"

lemmas traffic_defs = traffic_ok_def page_requests_def

lemma push_log_traffic [simp]: "traffic_ok (push_log a b) = traffic_ok b"
  by (simp add: traffic_defs push_log_def Let_def)

lemma charge_count_traffic:
  assumes "traffic_ok b" "dsum r = dsum (rb_reads b) + n" "dsum rb = dsum (rb_read_bytes b) + k"
  shows "traffic_ok (count_reads pk n k (b\<lparr>rb_reads := r, rb_read_bytes := rb\<rparr>))"
  using assms by (cases pk) (simp_all add: traffic_defs count_reads_def)

section \<open>Reads against the abstract map\<close>

text \<open>What a read of a page returns, in terms of the map.\<close>

fun page_spec :: "page_kind \<Rightarrow> backend \<Rightarrow> (tensor \<times> tensor) option \<Rightarrow> tensor list res" where
  "page_spec pk b None = Inr (missing_page pk b)"
| "page_spec KeyPage b (Some (k, v)) = (if tensor_ok k then Inr [k] else Inl ValueError)"
| "page_spec ValuePage b (Some (k, v)) = (if tensor_ok v then Inr [v] else Inl ValueError)"
| "page_spec WholeBlock b (Some (k, v)) = (if tensor_ok k \<and> tensor_ok v then Inr [k, v] else Inl ValueError)"

lemma fetch_stored:
  "fetch_key f m = (if tensor_ok (stored_key f m) then Inr (stored_key f m) else Inl ValueError)"
  "fetch_value f m = (if tensor_ok (stored_value f m) then Inr (stored_value f m) else Inl ValueError)"
  by (simp_all add: fetch_key_def fetch_value_def stored_key_def stored_value_def from_buffer_def Let_def)

text \<open>The combined access of a batch returns the same two pages, because the value page follows
  the key page.\<close>

lemma fetch_batch_eq: "meta_ok f m \<Longrightarrow> fetch_batch pk f m = fetch_single pk f m"
proof -
  assume ok: "meta_ok f m"
  then have "length (pread f (k_size m) (k_offset m)) = k_size m"
    by (auto simp: length_pread meta_ok_def)
  with ok show ?thesis
    by (cases pk) (simp_all add: Let_def fetch_key_def fetch_value_def pread_split meta_ok_def)
qed

lemma page_of_spec:
  assumes "rb_inv b" "fetch = fetch_single \<or> fetch = fetch_batch"
  shows "\<exists>n. page_of fetch pk layer bid b = rbind (page_spec pk b (rb_lookup b (layer, bid))) (\<lambda>ts. Inr (ts, n)) \<and>
    n = (case dget (rb_storage b) (layer, bid) of None \<Rightarrow> sum_list (map nbytes (missing_page pk b))
         | Some m \<Rightarrow> page_bytes pk m)"
proof (cases "dget (rb_storage b) (layer, bid)")
  case None
  then show ?thesis by (simp add: page_of_def rb_lookup_def Let_def)
next
  case (Some m)
  from assms(1) obtain f where f: "rb_backing b = Some f" "meta_ok f m"
    using Some by (auto simp: rb_inv_def store_ok_def)
  then have "fetch pk f m = fetch_single pk f m" using assms(2) fetch_batch_eq by auto
  then show ?thesis using Some f
    by (cases pk) (simp_all add: page_of_def rb_lookup_def fetch_stored)
qed

text \<open>A single read returns what the map holds and changes only counters and the log.\<close>

lemma read_single_spec:
  assumes "rb_inv b" "read_single pk layer bid head tok b = (r, b')"
  shows "r = page_spec pk b (rb_lookup b (layer, bid))" and "same_store b b'" and "rb_inv b'"
    and "traffic_ok b \<Longrightarrow> traffic_ok b'"
proof -
  from assms(1) have inv: "config_ok b" "counters_ok b" "store_ok b" by (simp_all add: rb_inv_def)
  obtain p where p: "tensor_to_nand_physical (rb_mapper b)
      (block_coord (int (rb_tokens_per_block b)) layer head tok bid) (rb_mapping_mode b) None = Inr p"
    "0 \<le> fst p" "fst p < rb_channels b" using mapper_channel [OF inv(1)] by blast
  obtain n where n: "page_of fetch_single pk layer bid b =
      rbind (page_spec pk b (rb_lookup b (layer, bid))) (\<lambda>ts. Inr (ts, n))"
    using page_of_spec [OF assms(1)] by blast
  have "r = page_spec pk b (rb_lookup b (layer, bid)) \<and> same_store b b' \<and> rb_inv b' \<and>
      (traffic_ok b \<longrightarrow> traffic_ok b')"
  proof (cases "page_spec pk b (rb_lookup b (layer, bid))")
    case (Inl e)
    with assms p n show ?thesis
      by (simp add: read_single_def)
  next
    case (Inr ts)
    obtain rr rb where c: "charge_read (fst p) (int n) b = (Inr (), b\<lparr>rb_reads := rr, rb_read_bytes := rb\<rparr>)"
      and k: "dkeys rr = [0..rb_channels b - 1]" "dkeys rb = [0..rb_channels b - 1]"
        "dsum rr = dsum (rb_reads b) + 1" "dsum rb = dsum (rb_read_bytes b) + int n"
      using charge_read_ok [OF inv(2) p(2,3), of "int n"] by blast
    let ?b1 = "count_reads pk 1 (int n) (b\<lparr>rb_reads := rr, rb_read_bytes := rb\<rparr>)"
    have b': "b' = push_log (SingleAccess (read_op pk) layer head bid (fst p) (int n)) ?b1" and r: "r = Inr ts"
      using assms(2) p(1) n Inr c by (simp_all add: read_single_def)
    have s1: "same_store b ?b1" by (simp add: same_store_def count_reads_def block_shape_def)
    then have s: "same_store b b'" unfolding b' by (rule same_store_trans) simp
    have co: "counters_ok b'" using inv(2) k by (simp add: b') (simp add: counters_ok_def)
    have "rb_inv b'" using same_store_ok [OF s] inv co by (simp add: rb_inv_def)
    moreover have "traffic_ok b \<longrightarrow> traffic_ok b'" using charge_count_traffic k(3,4) by (simp add: b')
    ultimately show ?thesis using r Inr s by simp
  qed
  then show "r = page_spec pk b (rb_lookup b (layer, bid))" and "same_store b b'" and "rb_inv b'"
    and "traffic_ok b \<Longrightarrow> traffic_ok b'" by simp_all
qed

lemma batch_channel_range:
  "0 < rb_channels b \<Longrightarrow> (\<And>k m. dget (rb_storage b) k = Some m \<Longrightarrow> 0 \<le> bm_channel m \<and> bm_channel m < rb_channels b) \<Longrightarrow>
   0 \<le> batch_channel layer i b \<and> batch_channel layer i b < rb_channels b"
  by (auto simp: batch_channel_def split: option.split)

text \<open>The channels recorded in the table are channels of the backend.\<close>

definition channels_ok :: "backend \<Rightarrow> bool" where
  "channels_ok b \<longleftrightarrow> (\<forall>k m. dget (rb_storage b) k = Some m \<longrightarrow> 0 \<le> bm_channel m \<and> bm_channel m < rb_channels b)"

lemma same_store_channels: "same_store b b' \<Longrightarrow> channels_ok b' = channels_ok b"
  by (simp add: same_store_def channels_ok_def)

definition rb_good :: "backend \<Rightarrow> bool" where
  "rb_good b \<longleftrightarrow> rb_inv b \<and> channels_ok b"

lemma same_store_good: "same_store b b' \<Longrightarrow> counters_ok b' \<Longrightarrow> rb_good b \<Longrightarrow> rb_good b'"
  using same_store_ok [of b b'] same_store_channels [of b b'] by (simp add: rb_good_def rb_inv_def)

lemma same_store_spec: "same_store b b' \<Longrightarrow> page_spec pk b' x = page_spec pk b x"
proof (induction pk b' x rule: page_spec.induct)
  case (1 pk b')
  then show ?case by (cases pk) (simp_all add: same_store_def)
qed simp_all

text \<open>Charging a read keeps everything but two counters.\<close>

lemma charge_read_good:
  assumes "rb_good b" "0 \<le> ch" "ch < rb_channels b"
  shows "\<exists>b1. charge_read ch n b = (Inr (), b1) \<and> same_store b b1 \<and> rb_good b1 \<and>
    dsum (rb_reads b1) = dsum (rb_reads b) + 1 \<and> dsum (rb_read_bytes b1) = dsum (rb_read_bytes b) + n \<and>
    b1 = b\<lparr>rb_reads := rb_reads b1, rb_read_bytes := rb_read_bytes b1\<rparr>"
proof -
  have co: "counters_ok b" using assms(1) by (simp add: rb_good_def rb_inv_def)
  obtain rr rb where c: "charge_read ch n b = (Inr (), b\<lparr>rb_reads := rr, rb_read_bytes := rb\<rparr>)"
    and k: "dkeys rr = [0..rb_channels b - 1]" "dkeys rb = [0..rb_channels b - 1]"
      "dsum rr = dsum (rb_reads b) + 1" "dsum rb = dsum (rb_read_bytes b) + n"
    using charge_read_ok [OF co assms(2,3), of n] by blast
  let ?b1 = "b\<lparr>rb_reads := rr, rb_read_bytes := rb\<rparr>"
  have s: "same_store b ?b1" by (simp add: same_store_def block_shape_def)
  have "counters_ok ?b1" using co k by (simp add: counters_ok_def)
  from same_store_good [OF s this assms(1)] s c k show ?thesis by (intro exI [of _ ?b1]) simp
qed

lemma batch_loop_spec:
  assumes "rb_good b" "batch_loop pk layer ids acc tot b = (r, b')"
  shows "same_store b b' \<and> rb_good b' \<and>
    b' = b\<lparr>rb_reads := rb_reads b', rb_read_bytes := rb_read_bytes b'\<rparr> \<and>
    (case r of
       Inl e \<Rightarrow> \<exists>i\<in>set ids. page_spec pk b (rb_lookup b (layer, i)) = Inl e
     | Inr (d, n) \<Rightarrow> dsum (rb_reads b') = dsum (rb_reads b) + int (length ids) \<and>
         dsum (rb_read_bytes b') + tot = dsum (rb_read_bytes b) + n \<and>
         (\<forall>i\<in>set ids. \<exists>ts. page_spec pk b (rb_lookup b (layer, i)) = Inr ts \<and> dget d i = Some ts) \<and>
         (\<forall>i. i \<notin> set ids \<longrightarrow> dget d i = dget acc i))"
  using assms
proof (induction ids arbitrary: acc tot b)
  case Nil
  then show ?case by auto
next
  case (Cons i ids)
  have inv: "rb_inv b" and C: "0 < rb_channels b"
    using Cons.prems(1) by (auto simp: rb_good_def rb_inv_def config_ok_def mapper_ok_def)
  obtain n where n: "page_of fetch_batch pk layer i b =
      rbind (page_spec pk b (rb_lookup b (layer, i))) (\<lambda>ts. Inr (ts, n))"
    using page_of_spec [OF inv] by blast
  show ?case
  proof (cases "page_spec pk b (rb_lookup b (layer, i))")
    case (Inl e)
    with Cons.prems n show ?thesis by auto
  next
    case (Inr ts)
    have ch: "0 \<le> batch_channel layer i b" "batch_channel layer i b < rb_channels b"
      using batch_channel_range [OF C] Cons.prems(1) by (auto simp: rb_good_def channels_ok_def)
    obtain b1 where c: "charge_read (batch_channel layer i b) (int n) b = (Inr (), b1)" and s: "same_store b b1"
      and g: "rb_good b1" and d: "dsum (rb_reads b1) = dsum (rb_reads b) + 1"
        "dsum (rb_read_bytes b1) = dsum (rb_read_bytes b) + int n"
        "b1 = b\<lparr>rb_reads := rb_reads b1, rb_read_bytes := rb_read_bytes b1\<rparr>"
      using charge_read_good [OF Cons.prems(1) ch, of "int n"] by blast
    have loop: "batch_loop pk layer ids (dset i ts acc) (tot + int n) b1 = (r, b')"
      using Cons.prems(2) n Inr c by simp
    have upd: "b' = b\<lparr>rb_reads := rb_reads b', rb_read_bytes := rb_read_bytes b'\<rparr>"
      if "b' = b1\<lparr>rb_reads := rb_reads b', rb_read_bytes := rb_read_bytes b'\<rparr>"
      using that by (subst (asm) d(3)) simp
    note IH = Cons.IH [OF g loop] and sp = same_store_spec [OF s] and lk = same_store_lookup [OF s]
    show ?thesis
    proof (cases r)
      case (Inl e)
      with IH show ?thesis using s upd by (auto simp: sp lk intro: same_store_trans)
    next
      case Inr': (Inr dn)
      obtain dd m where dn: "dn = (dd, m)" by (cases dn)
      have "same_store b b'" using IH s same_store_trans by blast
      moreover have "\<exists>ts. page_spec pk b (rb_lookup b (layer, j)) = Inr ts \<and> dget dd j = Some ts"
        if "j \<in> set (i # ids)" for j
        using that IH Inr by (cases "j \<in> set ids") (auto simp: Inr' dn sp lk dict_simps)
      ultimately show ?thesis using IH d(1,2) upd by (simp add: Inr' dn sp lk dict_simps)
    qed
  qed
qed

lemma single_loop_spec:
  assumes "rb_good b" "single_loop pk layer head tok ids acc b = (r, b')"
  shows "same_store b b' \<and> rb_good b' \<and> (traffic_ok b \<longrightarrow> traffic_ok b') \<and>
    (case r of
       Inl e \<Rightarrow> \<exists>i\<in>set ids. page_spec pk b (rb_lookup b (layer, i)) = Inl e
     | Inr d \<Rightarrow>
         (\<forall>i\<in>set ids. \<exists>ts. page_spec pk b (rb_lookup b (layer, i)) = Inr ts \<and> dget d i = Some ts) \<and>
         (\<forall>i. i \<notin> set ids \<longrightarrow> dget d i = dget acc i))"
  using assms
proof (induction ids arbitrary: acc b)
  case Nil
  then show ?case by auto
next
  case (Cons i ids)
  have inv: "rb_inv b" using Cons.prems(1) by (simp add: rb_good_def)
  obtain r1 b1 where r1: "read_single pk layer i head tok b = (r1, b1)" by fastforce
  note sp1 = read_single_spec [OF inv r1]
  have g: "rb_good b1"
    using sp1(2,3) Cons.prems(1) same_store_channels by (auto simp: rb_good_def)
  show ?case
  proof (cases r1)
    case (Inl e)
    then have eq: "r = Inl e" "b' = b1" and "page_spec pk b (rb_lookup b (layer, i)) = Inl e"
      using Cons.prems(2) r1 sp1(1) by simp_all
    then show ?thesis using sp1(2,4) g by simp
  next
    case (Inr ts)
    have loop: "single_loop pk layer head tok ids (dset i ts acc) b1 = (r, b')"
      using Cons.prems(2) r1 Inr by simp
    note IH = Cons.IH [OF g loop] and sp = same_store_spec [OF sp1(2)] and lk = same_store_lookup [OF sp1(2)]
    have s: "same_store b b'" using IH sp1(2) same_store_trans by blast
    show ?thesis
    proof (cases r)
      case (Inl e)
      with IH show ?thesis using s sp1(4) by (auto simp: sp lk)
    next
      case Inr': (Inr dd)
      have "\<exists>ts. page_spec pk b (rb_lookup b (layer, j)) = Inr ts \<and> dget dd j = Some ts"
        if "j \<in> set (i # ids)" for j
        using that IH Inr sp1(1) by (cases "j \<in> set ids") (auto simp: Inr' sp lk dict_simps)
      then show ?thesis using IH s sp1(4) by (simp add: Inr' sp lk dict_simps)
    qed
  qed
qed

lemma read_batch_spec:
  assumes "rb_good b" "read_batch pk layer ids head tok b = (r, b')"
  shows "same_store b b' \<and> rb_good b' \<and> (traffic_ok b \<longrightarrow> r \<in> range Inr \<longrightarrow> traffic_ok b') \<and>
    (case r of
       Inl e \<Rightarrow> \<exists>i\<in>set ids. page_spec pk b (rb_lookup b (layer, i)) = Inl e
     | Inr d \<Rightarrow>
         (\<forall>i\<in>set ids. \<exists>ts. page_spec pk b (rb_lookup b (layer, i)) = Inr ts \<and> dget d i = Some ts) \<and>
         (\<forall>i. i \<notin> set ids \<longrightarrow> dget d i = None))"
proof (cases "ids = [] \<or> \<not> rb_enable_batching b")
  case True
  then show ?thesis
  proof (cases "ids = []")
    case False
    with True assms(2) have "single_loop pk layer head tok ids [] b = (r, b')" by (simp add: read_batch_def)
    from single_loop_spec [OF assms(1) this] show ?thesis by (simp split: sum.splits)
  qed (use assms in \<open>auto simp: read_batch_def\<close>)
next
  case False
  obtain r1 b1 where l: "batch_loop pk layer ids [] 0 b = (r1, b1)" by fastforce
  note sp = batch_loop_spec [OF assms(1) l]
  show ?thesis
  proof (cases r1)
    case (Inl e)
    with False assms(2) l sp show ?thesis by (auto simp: read_batch_def)
  next
    case (Inr dn)
    obtain d n where dn: "dn = (d, n)" by (cases dn)
    let ?n = "int (length ids)"
    let ?b2 = "count_reads pk ?n n (b1\<lparr>rb_storage_batches := rb_storage_batches b1 + 1,
        rb_batched_requests := rb_batched_requests b1 + ?n\<rparr>)"
    have r: "r = Inr d" and b': "b' = push_log (BatchAccess (batch_op pk) layer head ?n n) ?b2"
      using assms(2) False l Inr dn by (simp_all add: read_batch_def Let_def)
    have s2: "same_store b1 ?b2" by (simp add: same_store_def count_reads_def block_shape_def)
    then have s: "same_store b b'" using sp unfolding b' by (blast intro: same_store_trans push_log_same)
    have "counters_ok b1" using sp by (simp add: rb_good_def rb_inv_def)
    then have "counters_ok b'" by (simp add: b') (simp add: counters_ok_def)
    then have g: "rb_good b'" using same_store_good [OF s] assms(1) by blast
    have "traffic_ok b'" if "traffic_ok b"
    proof -
      obtain r rb where eq: "b1 = b\<lparr>rb_reads := r, rb_read_bytes := rb\<rparr>" using sp by blast
      have "dsum (rb_reads b1) = dsum (rb_reads b) + ?n" "dsum (rb_read_bytes b1) = dsum (rb_read_bytes b) + n"
        using sp Inr dn by simp_all
      then show ?thesis using that unfolding b' push_log_traffic
        by (cases pk) (simp_all add: eq traffic_defs count_reads_def)
    qed
    then show ?thesis using s g sp by (simp add: r Inr dn)
  qed
qed

section \<open>Writes against the abstract map\<close>

text \<open>Assigning the channels of a block moves only the write counters.\<close>

lemma assign_channels_ok:
  assumes "config_ok b" "counters_ok b"
  shows "\<exists>chs b'. assign_channels layer bid tok share hs b = (Inr chs, b') \<and> same_store b b' \<and>
    counters_ok b' \<and> length chs = length hs \<and> (\<forall>c\<in>set chs. 0 \<le> c \<and> c < rb_channels b) \<and>
    dsum (rb_writes b') = dsum (rb_writes b) + int (length hs) \<and>
    dsum (rb_write_bytes b') = dsum (rb_write_bytes b) + share * int (length hs) \<and>
    b' = b\<lparr>rb_channel_counters := rb_channel_counters b', rb_writes := rb_writes b', rb_write_bytes := rb_write_bytes b'\<rparr>"
  using assms
proof (induction hs arbitrary: b)
  case Nil
  then show ?case by simp
next
  case (Cons h hs)
  obtain p where p: "tensor_to_nand_physical (rb_mapper b)
      (block_coord (int (rb_tokens_per_block b)) layer h tok bid) (rb_mapping_mode b)
      (Some (rb_channel_counters b)) = Inr p" "0 \<le> fst p" "fst p < rb_channels b"
    using mapper_channel [OF Cons.prems(1)] by blast
  obtain cc w wb where c: "charge_write (fst p) share b =
      (Inr (), b\<lparr>rb_channel_counters := cc, rb_writes := w, rb_write_bytes := wb\<rparr>)"
    and k: "dkeys cc = [0..rb_channels b - 1]" "dkeys w = [0..rb_channels b - 1]"
      "dkeys wb = [0..rb_channels b - 1]" "dsum w = dsum (rb_writes b) + 1"
      "dsum wb = dsum (rb_write_bytes b) + share"
    using charge_write_ok [OF Cons.prems(2) p(2,3), of share] by blast
  let ?b1 = "b\<lparr>rb_channel_counters := cc, rb_writes := w, rb_write_bytes := wb\<rparr>"
  have s: "same_store b ?b1" by (simp add: same_store_def block_shape_def)
  have "config_ok ?b1" "counters_ok ?b1"
    using Cons.prems k by (simp_all add: config_ok_def counters_ok_def)
  from Cons.IH [OF this] obtain chs b' where
    a: "assign_channels layer bid tok share hs ?b1 = (Inr chs, b')" and s': "same_store ?b1 b'"
    and r: "counters_ok b'" "length chs = length hs" "\<forall>c\<in>set chs. 0 \<le> c \<and> c < rb_channels b"
      "dsum (rb_writes b') = dsum w + int (length hs)"
      "dsum (rb_write_bytes b') = dsum wb + share * int (length hs)"
      "b' = ?b1\<lparr>rb_channel_counters := rb_channel_counters b', rb_writes := rb_writes b', rb_write_bytes := rb_write_bytes b'\<rparr>"
    by auto
  have "b' = b\<lparr>rb_channel_counters := rb_channel_counters b', rb_writes := rb_writes b', rb_write_bytes := rb_write_bytes b'\<rparr>"
    by (subst r(6)) simp
  then show ?case using p c a r k same_store_trans [OF s s']
    by (intro exI [of _ "fst p # chs"] exI [of _ b']) (simp add: algebra_simps)
qed

lemma meta_ok_append: "meta_ok f m \<Longrightarrow> meta_ok (f @ g) m \<and>
    stored_key (f @ g) m = stored_key f m \<and> stored_value (f @ g) m = stored_value f m"
  by (auto simp: meta_ok_def stored_key_def stored_value_def pread_append)

lemma append_block_spec:
  assumes "rb_good b" "rb_backing b = Some f" "\<forall>c\<in>set chs. 0 \<le> c \<and> c < rb_channels b"
    and b'_def: "b' = append_block layer bid k v head tok chs a f b"
  shows "rb_good b'" and "rb_lookup b' = (rb_lookup b)((layer, bid) \<mapsto> (k, v))"
proof -
  from assms(1,2) have inv: "config_ok b" "counters_ok b" and len: "length f = rb_file_offset b"
    and meta: "\<And>j m. dget (rb_storage b) j = Some m \<Longrightarrow> meta_ok f m"
    and chok: "\<And>j m. dget (rb_storage b) j = Some m \<Longrightarrow> 0 \<le> bm_channel m \<and> bm_channel m < rb_channels b"
    by (auto simp: rb_good_def rb_inv_def store_ok_def channels_ok_def)
  have C: "0 < rb_channels b" using inv(1) by (auto simp: config_ok_def mapper_ok_def)
  obtain m where m: "rb_storage b' = dset (layer, bid) m (rb_storage b)"
    and mf: "k_offset m = length f" "k_size m = nbytes k" "v_offset m = length f + nbytes k" "v_size m = nbytes v"
      "k_shape m = shape k" "k_dtype m = elem_type k" "v_shape m = shape v" "v_dtype m = elem_type v"
    and mc: "0 \<le> bm_channel m \<and> bm_channel m < rb_channels b"
    using assms(3) C by (cases chs) (auto simp: b'_def append_block_def push_log_def Let_def len)
  have f': "rb_backing b' = Some (f @ raw k @ raw v)"
  proof -
    have "pwrite (pwrite f (raw k) (length f)) (raw v) (length f + length (raw k)) = f @ raw k @ raw v"
      using pwrite_end [of "f @ raw k" "raw v"] by (simp add: pwrite_end)
    then show ?thesis by (simp add: b'_def append_block_def push_log_def Let_def len [symmetric] nbytes_def)
  qed
  have rest: "rb_file_offset b' = length (f @ raw k @ raw v)" "rb_channels b' = rb_channels b"
    "config_ok b' = config_ok b" "counters_ok b' = counters_ok b"
    by (simp_all add: b'_def append_block_def push_log_def Let_def len nbytes_def config_ok_def counters_ok_def)
  have mnew: "meta_ok (f @ raw k @ raw v) m" "stored_key (f @ raw k @ raw v) m = k"
    "stored_value (f @ raw k @ raw v) m = v"
    using mf pread_here [of f "raw k" "raw v"] pread_here [of "f @ raw k" "raw v" "[]"]
    by (simp_all add: meta_ok_def stored_key_def stored_value_def nbytes_def)
  show "rb_good b'"
    using inv rest f' m mc mnew(1) meta_ok_append [OF meta, of _ _ "raw k @ raw v"] chok
    by (auto simp: rb_good_def rb_inv_def store_ok_def channels_ok_def dict_simps split: if_splits)
  show "rb_lookup b' = (rb_lookup b)((layer, bid) \<mapsto> (k, v))"
  proof (rule ext)
    fix j
    show "rb_lookup b' j = ((rb_lookup b)((layer, bid) \<mapsto> (k, v))) j"
      using mnew(2,3) meta_ok_append [OF meta, of j _ "raw k @ raw v"]
      by (cases "dget (rb_storage b) j") (auto simp: rb_lookup_def m f' assms(2) dict_simps)
  qed
qed

lemma write_block_ok:
  assumes "rb_good b"
  shows "\<exists>b'. rb_write_block layer bid kd vd head tok b = (Inr (), b') \<and> rb_good b' \<and>
    rb_lookup b' = (rb_lookup b)((layer, bid) \<mapsto> (payload b kd, payload b vd)) \<and>
    (traffic_ok b \<longrightarrow> traffic_ok b') \<and>
    dsum (rb_writes b') = dsum (rb_writes b) + int (heads_in_block kd) \<and>
    rb_bytes_written b' = rb_bytes_written b + int (nbytes (payload b kd) + nbytes (payload b vd))"
proof -
  let ?k = "payload b kd" and ?v = "payload b vd" and ?n = "heads_in_block kd"
  let ?share = "int (nbytes ?k + nbytes ?v) div int ?n" and ?hs = "map (\<lambda>i. head + int i) [0..<?n]"
  have inv: "config_ok b" "counters_ok b" using assms by (simp_all add: rb_good_def rb_inv_def)
  obtain chs b1 where a: "assign_channels layer bid tok ?share ?hs b = (Inr chs, b1)" and s: "same_store b b1"
    and co: "counters_ok b1" and chs: "\<forall>c\<in>set chs. 0 \<le> c \<and> c < rb_channels b"
    and w: "dsum (rb_writes b1) = dsum (rb_writes b) + int ?n"
    and upd: "b1 = b\<lparr>rb_channel_counters := rb_channel_counters b1, rb_writes := rb_writes b1, rb_write_bytes := rb_write_bytes b1\<rparr>"
    using assign_channels_ok [OF inv, of layer bid tok ?share ?hs] by auto
  obtain cc ww wb where eq: "b1 = b\<lparr>rb_channel_counters := cc, rb_writes := ww, rb_write_bytes := wb\<rparr>"
    using upd by blast
  have g1: "rb_good b1" using same_store_good [OF s co assms] .
  obtain l where l: "tensor_to_lba (rb_mapper b1) (block_coord 16 layer head tok bid) (rb_mapping_mode b1) = Inr l"
    using mapper_lba g1 by (meson rb_good_def rb_inv_def)
  obtain f where f: "rb_backing b1 = Some f" using g1 by (auto simp: rb_good_def rb_inv_def store_ok_def)
  let ?b2 = "append_block layer bid ?k ?v head tok chs (lba l) f b1"
  have ch1: "\<forall>c\<in>set chs. 0 \<le> c \<and> c < rb_channels b1" using chs s by (simp add: same_store_def)
  note ap = append_block_spec [OF g1 f ch1 refl]
  have "traffic_ok ?b2" if "traffic_ok b"
    using that by (simp add: append_block_def push_log_def Let_def traffic_defs eq)
  moreover have "dsum (rb_writes ?b2) = dsum (rb_writes b) + int ?n"
    using w by (simp add: append_block_def push_log_def Let_def)
  moreover have "rb_bytes_written ?b2 = rb_bytes_written b + int (nbytes ?k + nbytes ?v)"
    by (simp add: append_block_def push_log_def Let_def eq)
  moreover have "rb_write_block layer bid kd vd head tok b = (Inr (), ?b2)"
    using a l f by (simp add: rb_write_block_def Let_def)
  ultimately show ?thesis using ap same_store_lookup [OF s] by simp
qed

lemma evict_block_ok:
  assumes "rb_good b"
  shows "rb_good (snd (rb_evict_block layer bid b)) \<and>
    rb_lookup (snd (rb_evict_block layer bid b)) = (rb_lookup b)((layer, bid) := None) \<and>
    (traffic_ok b \<longrightarrow> traffic_ok (snd (rb_evict_block layer bid b)))"
proof (cases "dmem (layer, bid) (rb_storage b)")
  case True
  then show ?thesis using assms
    by (auto simp: rb_evict_block_def rb_good_def rb_inv_def config_ok_def counters_ok_def store_ok_def
        channels_ok_def traffic_defs rb_lookup_def dict_simps fun_eq_iff)
next
  case False
  then show ?thesis using assms by (auto simp: rb_evict_block_def rb_lookup_def dmem_def fun_eq_iff)
qed

lemma reset_stats_ok:
  assumes "rb_good b"
  shows "rb_good (rb_reset_stats b) \<and> rb_lookup (rb_reset_stats b) = rb_lookup b \<and> traffic_ok (rb_reset_stats b)"
proof -
  have s: "same_store b (rb_reset_stats b)" by (simp add: same_store_def rb_reset_stats_def block_shape_def)
  have "counters_ok (rb_reset_stats b)" by (simp add: counters_ok_def rb_reset_stats_def)
  from same_store_good [OF s this assms] same_store_lookup [OF s] show ?thesis
    by (simp add: traffic_defs rb_reset_stats_def)
qed

section \<open>The backend is a key-value store\<close>

type_synonym placed_kv = "tensor \<times> tensor \<times> int \<times> int"

fun rb_put :: "int \<times> int \<Rightarrow> placed_kv \<Rightarrow> backend \<Rightarrow> backend" where
  "rb_put (layer, bid) (k, v, head, tok) b = snd (rb_write_block layer bid (Arr k) (Arr v) head tok b)"

fun rb_del :: "int \<times> int \<Rightarrow> backend \<Rightarrow> backend" where
  "rb_del (layer, bid) b = snd (rb_evict_block layer bid b)"

datatype rb_query =
    QSingle page_kind int int int int
  | QBatch page_kind int "int list" int int
  | QReset

fun rb_touch :: "rb_query \<Rightarrow> backend \<Rightarrow> backend" where
  "rb_touch (QSingle pk layer bid head tok) b = snd (read_single pk layer bid head tok b)"
| "rb_touch (QBatch pk layer ids head tok) b = snd (read_batch pk layer ids head tok b)"
| "rb_touch QReset b = rb_reset_stats b"

fun placed_val :: "placed_kv \<Rightarrow> tensor \<times> tensor" where
  "placed_val (k, v, head, tok) = (k, v)"

fun placed_ok :: "placed_kv \<Rightarrow> bool" where
  "placed_ok (k, v, head, tok) = (tensor_ok k \<and> tensor_ok v)"

definition rb_strong :: "backend \<Rightarrow> bool" where
  "rb_strong b \<longleftrightarrow> rb_good b \<and> traffic_ok b \<and>
     (\<forall>j k v. rb_lookup b j = Some (k, v) \<longrightarrow> tensor_ok k \<and> tensor_ok v)"

text \<open>What filtering in storage keeps as well, although its requests are not page reads.\<close>

definition rb_sound :: "backend \<Rightarrow> bool" where
  "rb_sound b \<longleftrightarrow> rb_good b \<and> (\<forall>j k v. rb_lookup b j = Some (k, v) \<longrightarrow> tensor_ok k \<and> tensor_ok v)"

lemma strong_sound: "rb_strong b \<Longrightarrow> rb_sound b"
  by (simp add: rb_strong_def rb_sound_def)

lemma page_spec_total:
  assumes "rb_sound b"
  shows "page_spec pk b (rb_lookup b j) \<noteq> Inl e"
proof (cases "rb_lookup b j")
  case (Some kv)
  obtain k v where kv: "kv = (k, v)" by (cases kv)
  then have "tensor_ok k \<and> tensor_ok v" using assms Some unfolding rb_sound_def by blast
  with Some kv show ?thesis by (cases pk) simp_all
qed simp

lemma new_backend_strong:
  assumes "0 < c" "0 < d" "0 < p" "0 < pg" "0 < blk" "mode_ok md"
  shows "rb_strong (new_backend c d p pg blk nl nh tpb hdim md batching tr tp tx)"
  using assms
  by (simp add: rb_strong_def rb_good_def rb_inv_def config_ok_def new_backend_def new_mapper_ok counters_ok_def
      store_ok_def channels_ok_def traffic_defs rb_lookup_def)
    (simp add: new_mapper_def)

interpretation rb: kv_store rb_lookup placed_val rb_put rb_del rb_touch rb_strong placed_ok
proof (unfold_locales, goal_cases)
  case (1 s a k)
  obtain layer bid where k: "k = (layer, bid)" by (cases k)
  obtain kt vt h t where a: "a = (kt, vt, h, t)" by (cases a) auto
  have "rb_good s" using 1 by (simp add: rb_strong_def)
  from write_block_ok [OF this, of layer bid "Arr kt" "Arr vt" h t] show ?case
    using 1 by (auto simp: k a rb_strong_def split: if_splits)
next
  case (2 s a k)
  obtain layer bid where k: "k = (layer, bid)" by (cases k)
  obtain kt vt h t where a: "a = (kt, vt, h, t)" by (cases a) auto
  have "rb_good s" using 2 by (simp add: rb_strong_def)
  from write_block_ok [OF this, of layer bid "Arr kt" "Arr vt" h t] show ?case by (auto simp: k a)
next
  case (3 s k)
  then show ?case using evict_block_ok [of s "fst k" "snd k"]
    by (cases k) (auto simp: rb_strong_def split: if_splits)
next
  case (4 s k)
  then show ?case using evict_block_ok [of s "fst k" "snd k"] by (cases k) (simp add: rb_strong_def)
next
  case (5 s c)
  then have g: "rb_good s" by (simp add: rb_strong_def)
  show ?case
  proof (cases c)
    case (QSingle pk layer bid head tok)
    obtain r s' where r: "read_single pk layer bid head tok s = (r, s')" by fastforce
    have "rb_inv s" using g by (simp add: rb_good_def)
    note sp = read_single_spec [OF this r]
    show ?thesis using sp same_store_lookup [OF sp(2)] same_store_channels [OF sp(2)] 5
      by (simp add: QSingle r rb_strong_def rb_good_def)
  next
    case (QBatch pk layer ids head tok)
    obtain r s' where r: "read_batch pk layer ids head tok s = (r, s')" by fastforce
    note sp = read_batch_spec [OF g r]
    have "r \<in> range Inr" using sp page_spec_total [OF strong_sound [OF 5]] by (cases r) auto
    then show ?thesis using sp same_store_lookup [of s s'] 5 by (simp add: QBatch r rb_strong_def)
  next
    case QReset
    then show ?thesis using reset_stats_ok [OF g] 5 by (simp add: rb_strong_def)
  qed
next
  case (6 s c)
  then have g: "rb_good s" by (simp add: rb_strong_def)
  show ?case
  proof (cases c)
    case (QSingle pk layer bid head tok)
    obtain r s' where r: "read_single pk layer bid head tok s = (r, s')" by fastforce
    have "rb_inv s" using g by (simp add: rb_good_def)
    from same_store_lookup [OF read_single_spec(2) [OF this r]] show ?thesis by (simp add: QSingle r)
  next
    case (QBatch pk layer ids head tok)
    obtain r s' where r: "read_batch pk layer ids head tok s = (r, s')" by fastforce
    from read_batch_spec [OF g r] same_store_lookup [of s s'] show ?thesis by (simp add: QBatch r)
  next
    case QReset
    then show ?thesis using reset_stats_ok [OF g] by simp
  qed
qed

lemma read_block_strong:
  assumes "rb_strong b"
  shows "fst (rb_read_block layer bid head tok b) =
    (case rb_lookup b (layer, bid) of
       None \<Rightarrow> Inr (zeros (block_shape b) Float32, zeros (block_shape b) Float32)
     | Some kv \<Rightarrow> Inr kv)"
proof -
  obtain r b' where r: "read_single WholeBlock layer bid head tok b = (r, b')" by fastforce
  have "rb_inv b" using assms by (simp add: rb_strong_def rb_good_def)
  from read_single_spec(1) [OF this r] show ?thesis
  proof (cases "rb_lookup b (layer, bid)")
    case (Some kv)
    obtain k v where kv: "kv = (k, v)" by (cases kv)
    then have "tensor_ok k \<and> tensor_ok v" using assms Some unfolding rb_strong_def by blast
    then show ?thesis using Some kv r \<open>r = _\<close> by (simp add: rb_read_block_def)
  qed (simp add: rb_read_block_def r)
qed

lemma same_store_shape: "same_store b b' \<Longrightarrow> block_shape b' = block_shape b"
  by (simp add: same_store_def)

lemma read_pages_strong:
  assumes "rb_strong b"
  shows "let z = zeros (block_shape b) Float32;
             kv = (case rb_lookup b (layer, bid) of None \<Rightarrow> (z, z) | Some kv \<Rightarrow> kv)
         in fst (rb_read_block layer bid head tok b) = Inr kv \<and>
            fst (rb_read_key_page layer bid head tok b) = Inr (fst kv) \<and>
            fst (rb_read_value_page layer bid head tok b) = Inr (snd kv)"
proof -
  have inv: "rb_inv b" using assms by (simp add: rb_strong_def rb_good_def)
  have sp: "fst (read_single pk layer bid head tok b) = page_spec pk b (rb_lookup b (layer, bid))" for pk
    using read_single_spec(1) [OF inv, of pk layer bid head tok] by (metis prod.collapse)
  show ?thesis
  proof (cases "rb_lookup b (layer, bid)")
    case (Some kv)
    obtain k v where kv: "kv = (k, v)" by (cases kv)
    then have "tensor_ok k \<and> tensor_ok v" using assms Some unfolding rb_strong_def by blast
    then show ?thesis using sp [of WholeBlock] sp [of KeyPage] sp [of ValuePage]
      by (simp add: Some kv Let_def rb_read_block_def rb_read_key_page_def rb_read_value_page_def split_beta)
  qed (use sp [of WholeBlock] sp [of KeyPage] sp [of ValuePage] in
      \<open>simp add: Let_def rb_read_block_def rb_read_key_page_def rb_read_value_page_def split_beta\<close>)
qed

lemma membership_lookup:
  "rb_contains_block layer bid b \<longleftrightarrow> rb_lookup b (layer, bid) \<noteq> None"
  "fst (rb_evict_block layer bid b) \<longleftrightarrow> rb_lookup b (layer, bid) \<noteq> None"
  by (auto simp: rb_contains_block_def rb_evict_block_def rb_lookup_def dmem_def)

text \<open>No call changes the configured shape.\<close>

lemma write_block_shape: "block_shape (snd (rb_write_block layer bid kd vd head tok b)) = block_shape b"
proof -
  have c: "charge_write x y a = (q, a') \<Longrightarrow> block_shape a' = block_shape a" for x y a q a'
    by (auto simp: charge_write_def Let_def block_shape_def split: sum.splits)
  have as: "assign_channels layer bid tok share hs a = (r, a') \<Longrightarrow> block_shape a' = block_shape a" for share hs r a a'
  proof (induction hs arbitrary: r a' a)
    case (Cons h hs)
    from Cons.prems show ?case by (auto split: sum.splits prod.splits dest!: c Cons.IH)
  qed simp
  have ap: "block_shape (append_block layer bid k v head tok chs x f a) = block_shape a" for k v chs x f a
    by (simp add: append_block_def push_log_def Let_def block_shape_def)
  show ?thesis by (auto simp: rb_write_block_def Let_def ap dest!: as split: sum.splits prod.splits option.splits)
qed

lemma exec_shape:
  assumes "rb_strong b"
  shows "block_shape (kv_exec rb_put rb_del rb_touch a b) = block_shape b"
proof (cases a)
  case (Put k x)
  then show ?thesis by (cases k; cases x) (simp add: write_block_shape)
next
  case (Del k)
  then show ?thesis by (cases k) (simp add: rb_evict_block_def block_shape_def)
next
  case (Touch q)
  have g: "rb_good b" "rb_inv b" using assms by (simp_all add: rb_strong_def rb_good_def)
  show ?thesis
  proof (cases q)
    case (QSingle pk layer bid head tok)
    obtain r b' where r: "read_single pk layer bid head tok b = (r, b')" by fastforce
    show ?thesis using same_store_shape [OF read_single_spec(2) [OF g(2) r]] by (simp add: Touch QSingle r)
  next
    case (QBatch pk layer ids head tok)
    obtain r b' where r: "read_batch pk layer ids head tok b = (r, b')" by fastforce
    show ?thesis using same_store_shape read_batch_spec [OF g(1) r] by (simp add: Touch QBatch r)
  qed (simp add: Touch rb_reset_stats_def block_shape_def)
qed

lemma run_shape:
  "rb_strong b \<Longrightarrow> \<forall>a\<in>set as. kv_op_ok placed_ok a \<Longrightarrow>
   block_shape (fold (kv_exec rb_put rb_del rb_touch) as b) = block_shape b"
  by (induction as arbitrary: b) (simp_all add: exec_shape rb.exec_refines)

section \<open>Properties\<close>

text \<open>C1: The backend refines a map. After any sequence of writes (of any shape, type, head and token
  placement), single reads, batched reads, evictions and statistics resets on a fresh backend with
  at least one channel, die, plane, page and block,
  every call answers as the same sequence on an abstract map tells: a block the map holds reads
  as exactly the two tensors last written under its layer and id, as a whole and page by page; a
  block that was never written, or was evicted since, reads as zeros of the configured shape;
  \<open>contains_block\<close> is membership, and \<open>evict_block\<close> returns it.\<close>

theorem backend_refines_map:
  assumes "0 < c" "0 < d" "0 < p" "0 < pg" "0 < blk" "mode_ok md"
    and "\<forall>a\<in>set ops. kv_op_ok placed_ok a"
  shows "let b = fold (kv_exec rb_put rb_del rb_touch) ops
               (new_backend c d p pg blk nl nh tpb hdim md batching tr tp tx);
             m = fold (map_op placed_val) ops (\<lambda>_. None);
             z = zeros [tpb, nh, hdim] Float32;
             kv = (case m (layer, bid) of None \<Rightarrow> (z, z) | Some kv \<Rightarrow> kv)
         in fst (rb_read_block layer bid head tok b) = Inr kv \<and>
            fst (rb_read_key_page layer bid head tok b) = Inr (fst kv) \<and>
            fst (rb_read_value_page layer bid head tok b) = Inr (snd kv) \<and>
            (rb_contains_block layer bid b \<longleftrightarrow> m (layer, bid) \<noteq> None) \<and>
            (fst (rb_evict_block layer bid b) \<longleftrightarrow> m (layer, bid) \<noteq> None)"
proof -
  let ?b = "new_backend c d p pg blk nl nh tpb hdim md batching tr tp tx"
  let ?s = "fold (kv_exec rb_put rb_del rb_touch) ops ?b"
  have st: "rb_strong ?b" by (rule new_backend_strong) (use assms in auto)
  have lk: "rb_lookup ?b = (\<lambda>_. None)" by (simp add: rb_lookup_def new_backend_def fun_eq_iff)
  note run = rb.run_refines [OF st assms(7)]
  have sh: "block_shape ?s = [tpb, nh, hdim]"
    using run_shape [OF st assms(7)] by (simp add: block_shape_def new_backend_def)
  show ?thesis using run read_pages_strong [of ?s layer bid head tok] membership_lookup [of layer bid ?s]
    by (simp add: Let_def lk sh)
qed

definition sample_tensor :: "byte \<Rightarrow> tensor" where
  "sample_tensor x = \<lparr>shape = [1, 2], elem_type = Float16, raw = [x, 2, 3, 4]\<rparr>"

lemma sample_tensor_ok: "tensor_ok (sample_tensor x)"
  by (simp add: sample_tensor_def tensor_ok_def)

lemma backend_refines_map_witness:
  "\<exists>b. b = fold (kv_exec rb_put rb_del rb_touch)
      [Put (0, 7) (sample_tensor 1, sample_tensor 9, 0, 0), Touch QReset, Put (0, 8) (sample_tensor 5, sample_tensor 5, 0, 0), Del (0, 8)]
      (new_backend 8 4 2 256 1024 24 2 16 64 ''tensor_aware'' True 35 350 25) \<and>
    fst (rb_read_block 0 7 1 0 b) = Inr (sample_tensor 1, sample_tensor 9) \<and>
    fst (rb_read_key_page 0 8 1 0 b) = Inr (zeros [16, 2, 64] Float32) \<and> \<not> rb_contains_block 0 8 b"
  using backend_refines_map [of 8 4 2 256 1024 "''tensor_aware''"
      "[Put (0, 7) (sample_tensor 1, sample_tensor 9, 0, 0), Touch QReset, Put (0, 8) (sample_tensor 5, sample_tensor 5, 0, 0), Del (0, 8)]"
      24 2 16 64 True 35 350 25 0 7 1 0]
    backend_refines_map [of 8 4 2 256 1024 "''tensor_aware''"
      "[Put (0, 7) (sample_tensor 1, sample_tensor 9, 0, 0), Touch QReset, Put (0, 8) (sample_tensor 5, sample_tensor 5, 0, 0), Del (0, 8)]"
      24 2 16 64 True 35 350 25 0 8 1 0]
  by (simp add: mode_ok_def sample_tensor_ok Let_def del: kv_exec.simps)

text \<open>C3: Batching changes no result. On a backend without malformed payloads a batched read of
  keys, values or blocks returns for every requested id what the single read of that id
  returns, contains no other id, and leaves the stored map alone.\<close>

theorem batch_equals_single_reads:
  assumes "rb_strong b" "i \<in> set ids"
  shows "\<exists>d ts. fst (read_batch pk layer ids head tok b) = Inr d \<and> dget d i = Some ts \<and>
    fst (read_single pk layer i head' tok' b) = Inr ts \<and> (\<forall>j. dget d j \<noteq> None \<longleftrightarrow> j \<in> set ids) \<and>
    rb_lookup (snd (read_batch pk layer ids head tok b)) = rb_lookup b"
proof -
  have g: "rb_good b" and inv: "rb_inv b" using assms(1) by (simp_all add: rb_strong_def rb_good_def)
  obtain r b' where r: "read_batch pk layer ids head tok b = (r, b')" by fastforce
  obtain r1 b1 where r1: "read_single pk layer i head' tok' b = (r1, b1)" by fastforce
  note sp = read_batch_spec [OF g r]
  obtain d where d: "r = Inr d" using sp page_spec_total [OF strong_sound [OF assms(1)]] by (cases r) auto
  have "\<forall>j\<in>set ids. \<exists>ts. page_spec pk b (rb_lookup b (layer, j)) = Inr ts \<and> dget d j = Some ts"
    and "\<forall>j. j \<notin> set ids \<longrightarrow> dget d j = None" using sp d by simp_all
  then show ?thesis
    using assms(2) read_single_spec(1) [OF inv r1] same_store_lookup [of b b'] sp
    by (simp add: r r1 d) (metis option.distinct(1))
qed

lemma sample_backend_strong: "rb_strong (new_backend 8 4 2 256 1024 24 2 16 64 ''tensor_aware'' True 35 350 25)"
  by (rule new_backend_strong) (simp_all add: mode_ok_def)

lemma batch_equals_single_reads_witness:
  "\<exists>d. fst (read_batch WholeBlock 0 [3, 5, 3] 0 0
      (new_backend 8 4 2 256 1024 24 2 16 64 ''tensor_aware'' True 35 350 25)) = Inr d \<and> dget d 4 = None"
proof -
  obtain d where "fst (read_batch WholeBlock 0 [3, 5, 3] 0 0
      (new_backend 8 4 2 256 1024 24 2 16 64 ''tensor_aware'' True 35 350 25)) = Inr d"
    and "\<forall>j. dget d j \<noteq> None \<longleftrightarrow> j \<in> set [3, 5, 3]"
    using batch_equals_single_reads [OF sample_backend_strong, of 5 "[3, 5, 3]" WholeBlock 0 0 0 0 0] by auto
  moreover from this(2) have "dget d 4 = None" by (metis (no_types) set_ConsD list.set_intros(1)
      empty_iff list.set(1) rel_simps num.distinct)
  ultimately show ?thesis by blast
qed

text \<open>Byte buffers are stored without a check and fail only when read: writing a key buffer that
  is not one block of the backend's shape succeeds, and reading its key page back raises
  \<open>ValueError\<close> and changes nothing.\<close>

theorem malformed_buffer_fails_on_read:
  assumes "rb_strong b" "length bs \<noteq> 4 * prod_list (block_shape b)"
    and "rb_write_block layer bid (Buf bs) vd head tok b = (r, b')"
  shows "r = Inr () \<and> rb_read_key_page layer bid head' tok' b' = (Inl ValueError, b')"
proof -
  have g: "rb_good b" using assms(1) by (simp add: rb_strong_def)
  from write_block_ok [OF g, of layer bid "Buf bs" vd head tok] assms(3)
  have r: "r = Inr ()" and g': "rb_good b'"
    and lk: "rb_lookup b' (layer, bid) = Some (payload b (Buf bs), payload b vd)" by auto
  have inv: "rb_inv b'" "config_ok b'" using g' by (simp_all add: rb_good_def rb_inv_def)
  have bad: "\<not> tensor_ok (payload b (Buf bs))" using assms(2) by (simp add: tensor_ok_def)
  obtain p where p: "tensor_to_nand_physical (rb_mapper b')
      (block_coord (int (rb_tokens_per_block b')) layer head' tok' bid) (rb_mapping_mode b') None = Inr p"
    using mapper_channel [OF inv(2)] by blast
  have "page_of fetch_single KeyPage layer bid b' = Inl ValueError"
    using page_of_spec [OF inv(1), of fetch_single KeyPage layer bid] lk bad by auto
  then have "read_single KeyPage layer bid head' tok' b' = (Inl ValueError, b')"
    using p by (simp add: read_single_def)
  then show ?thesis using r by (simp add: rb_read_key_page_def)
qed

lemma malformed_buffer_fails_on_read_witness:
  "fst (rb_read_key_page 0 1 0 0 (snd (rb_write_block 0 1 (Buf [1, 2, 3]) (Buf []) 0 0
      (new_backend 8 4 2 256 1024 24 2 16 64 ''tensor_aware'' True 35 350 25)))) = Inl ValueError"
  using malformed_buffer_fails_on_read [OF sample_backend_strong, of "[1, 2, 3]" 0 1 "Buf []" 0 0
      "fst (rb_write_block 0 1 (Buf [1, 2, 3]) (Buf []) 0 0
        (new_backend 8 4 2 256 1024 24 2 16 64 ''tensor_aware'' True 35 350 25))" _ 0 0]
  by (simp add: block_shape_def new_backend_def)

end
