(* ===== verification/TopkFilter.thy ===== *)
theory TopkFilter
  imports InferenceBackend "HOL-Library.Multiset"
begin

text \<open>
  In-storage top-k filtering and telemetry of the inference backend
  (\<open>compute_topk_filter\<close> and \<open>get_telemetry\<close> of \<open>person2_ssd/inference_backend.py\<close>). numpy's
  reading of bytes as floating-point numbers is a parameter, \<open>decode\<close>, and so is the native
  kernel, which the code uses instead of its own loop when it is available.
\<close>

section \<open>Candidates\<close>

type_synonym cand = "nat \<times> nat \<times> int \<times> int"

fun topk_candidates :: "int \<Rightarrow> (int \<times> int) list \<Rightarrow> backend \<Rightarrow> cand list res \<times> backend" where
  "topk_candidates layer [] b = (Inr [], b)"
| "topk_candidates layer ((bid, tok) # cs) b =
     (case dget (rb_storage b) (layer, bid) of
        Some m \<Rightarrow>
          (case charge_read (bm_channel m) (int (k_size m)) b of
             (Inl e, b1) \<Rightarrow> (Inl e, b1)
           | (Inr _, b1) \<Rightarrow>
               (case topk_candidates layer cs b1 of
                  (Inl e, b2) \<Rightarrow> (Inl e, b2)
                | (Inr is, b2) \<Rightarrow> (Inr ((k_offset m, k_size m, bid, tok) # is), b2)))
      | None \<Rightarrow>
          (case topk_candidates layer cs b of
             (Inl e, b2) \<Rightarrow> (Inl e, b2)
           | (Inr is, b2) \<Rightarrow> (Inr ((0, 4096, bid, tok) # is), b2)))"

text \<open>The key tensor of a candidate; one that is not stored gets bytes 0 to 4095 of the file.\<close>

definition cand_tensor :: "int \<Rightarrow> backend \<Rightarrow> cand \<Rightarrow> tensor res" where
  "cand_tensor layer b c = (case c of (off, len, bid, tok) \<Rightarrow>
     (case rb_backing b of
        None \<Rightarrow> Inl TypeError
      | Some f \<Rightarrow>
          (case dget (rb_storage b) (layer, bid) of
             Some m \<Rightarrow> from_buffer (k_dtype m) (k_shape m) (pread f len off)
           | None \<Rightarrow> from_buffer Float32 (block_shape b) (pread f len off))))"

section \<open>Scores\<close>

text \<open>A Python slice \<open>xs[:k]\<close>.\<close>

definition slice_to :: "int \<Rightarrow> 'a list \<Rightarrow> 'a list" where
  "slice_to k xs = (if 0 \<le> k then take (nat k) xs else take (length xs - nat (- k)) xs)"

definition gqa_ratio :: "int \<Rightarrow> int \<Rightarrow> int" where
  "gqa_ratio qh kh = (if 0 < kh then qh div kh else 1)"

text \<open>
  \<open>einsum("hd,thd->th", query, k[:, [h // r ...], :]) * scale\<close>: row \<open>t\<close> holds the scaled dot
  products of the query heads with token \<open>t\<close>. A query head selects the key head \<open>h // r\<close>.
\<close>

definition dot_rows ::
    "(np_dtype \<Rightarrow> byte list \<Rightarrow> real list) \<Rightarrow> real list list \<Rightarrow> real \<Rightarrow> nat \<Rightarrow> int \<Rightarrow> tensor \<Rightarrow> real list list res" where
  "dot_rows decode query scale qh r k =
     (case shape k of
        [T, H, D] \<Rightarrow>
          (if r = 0 \<and> 0 < qh then Inl ZeroDivisionError
           else if \<exists>h\<in>set [0..<qh]. \<not> (- int H \<le> int h div r \<and> int h div r < int H) then Inl IndexError
           else if length query \<noteq> qh \<or> (\<exists>row\<in>set query. length row \<noteq> D) then Inl ValueError
           else (let xs = decode (elem_type k) (raw k);
                     el = (\<lambda>t h d. xs ! ((t * H + h) * D + d))
                 in Inr (map (\<lambda>t. map (\<lambda>h. (\<Sum>d\<leftarrow>[0..<D]. query ! h ! d * el t (nat ((int h div r) mod int H)) d) * scale)
                           [0..<qh]) [0..<T])))
      | _ \<Rightarrow> (if length (shape k) < 3 then Inl IndexError else Inl ValueError))"

text \<open>\<open>float(np.max(dots[:act_tok]))\<close>; \<open>ValueError\<close> on an empty selection.\<close>

definition max_dot :: "real list list \<Rightarrow> int \<Rightarrow> real res" where
  "max_dot rows tok =
     (case concat (slice_to tok rows) of [] \<Rightarrow> Inl ValueError | x # xs \<Rightarrow> Inr (fold max xs x))"

type_synonym scored = "real \<times> int \<times> int"

definition score_block ::
    "(np_dtype \<Rightarrow> byte list \<Rightarrow> real list) \<Rightarrow> real list list \<Rightarrow> real \<Rightarrow> nat \<Rightarrow> int \<Rightarrow> tensor \<times> int \<times> int \<Rightarrow> scored res" where
  "score_block decode query scale qh r x =
     (case x of (k, bid, tok) \<Rightarrow>
        rbind (dot_rows decode query scale qh r k) (\<lambda>rows.
        rbind (max_dot rows tok) (\<lambda>s. Inr (s, bid, tok))))"

text \<open>\<open>scores.sort(key=..., reverse=True)\<close> is stable; then \<open>scores[:top_k]\<close>.\<close>

definition select_topk :: "int \<Rightarrow> scored list \<Rightarrow> scored list" where
  "select_topk k ss = slice_to k (sort_key (\<lambda>x. - fst x) ss)"

type_synonym kernel = "real list list \<Rightarrow> tensor list \<Rightarrow> int list \<Rightarrow> int \<Rightarrow> (nat \<times> real) list"

definition rb_compute_topk_filter ::
    "(np_dtype \<Rightarrow> byte list \<Rightarrow> real list) \<Rightarrow> kernel option \<Rightarrow> int \<Rightarrow> (int \<times> int) list \<Rightarrow> real list list \<Rightarrow> int \<Rightarrow>
     real \<Rightarrow> nat \<Rightarrow> int \<Rightarrow> backend \<Rightarrow> scored list res \<times> backend" where
  "rb_compute_topk_filter decode kern layer cands query top_k scale qh kvh b =
     (if cands = [] then (Inr [], b)
      else (case topk_candidates layer cands b of
              (Inl e, b1) \<Rightarrow> (Inl e, b1)
            | (Inr is, b1) \<Rightarrow>
                (let scored = rbind (map_res (cand_tensor layer b1) is) (\<lambda>ks.
                       (case kern of
                          Some kf \<Rightarrow> Inr (map (\<lambda>(idx, s). (s, cands ! idx)) (kf query ks (map snd cands) top_k))
                        | None \<Rightarrow> rbind (map_res (score_block decode query scale qh (gqa_ratio (int qh) kvh)) (zip ks cands))
                            (\<lambda>ss. Inr (select_topk top_k ss))));
                     bytes = int (sum_list (map (\<lambda>c. fst (snd c)) is))
                 in case scored of
                      Inl e \<Rightarrow> (Inl e, b1)
                    | Inr res \<Rightarrow>
                        (Inr res, b1\<lparr>rb_storage_batches := rb_storage_batches b1 + 1,
                           rb_requests := rb_requests b1 + 1, rb_topk_calls := rb_topk_calls b1 + 1,
                           rb_internal_k_blocks := rb_internal_k_blocks b1 + int (length cands),
                           rb_internal_k_bytes := rb_internal_k_bytes b1 + bytes,
                           rb_bytes_read := rb_bytes_read b1 + bytes,
                           rb_access_log := rb_access_log b1 @ [TopkAccess layer (int (length cands)) top_k bytes]\<rparr>))))"

section \<open>Telemetry\<close>

record telemetry =
  tm_total_requests :: int
  tm_reads :: int
  tm_writes :: int
  tm_avg_batch_size :: real
  tm_total_bytes :: int
  tm_channel_requests :: "(int, int) dict"
  tm_channel_bytes :: "(int, int) dict"
  tm_max_load :: int
  tm_min_load :: int
  tm_mean_load :: real
  tm_imbalance_pct :: real
  tm_contention_ratio :: real
  tm_service_time_ms :: real
  tm_stored_blocks :: nat

text \<open>\<open>round(x, 2)\<close>: two decimals, ties to even.\<close>

definition round2 :: "real \<Rightarrow> real" where
  "round2 x = (let y = 100 * x; f = \<lfloor>y\<rfloor>
     in of_int (if y - of_int f < 1 / 2 then f else if 1 / 2 < y - of_int f then f + 1
                else if even f then f else f + 1) / 100)"

definition counter :: "(int, int) dict \<Rightarrow> int \<Rightarrow> int" where
  "counter d c = (case dget d c of None \<Rightarrow> 0 | Some n \<Rightarrow> n)"

definition per_channel :: "int \<Rightarrow> (int, int) dict \<Rightarrow> (int, int) dict \<Rightarrow> (int, int) dict" where
  "per_channel C d e = map (\<lambda>c. (c, counter d c + counter e c)) [0..C - 1]"

definition channel_time :: "backend \<Rightarrow> int \<Rightarrow> real" where
  "channel_time b c = of_int (counter (rb_reads b) c) * (rb_t_r_us b + rb_t_xfer_us b) +
     of_int (counter (rb_writes b) c) * (rb_t_prog_us b + rb_t_xfer_us b)"

text \<open>The dictionary of \<open>get_telemetry\<close>, for a backend with at least one channel; the constants
  it repeats and the per-kind counters, copied unchanged, are left out.\<close>

definition rb_get_telemetry :: "backend \<Rightarrow> telemetry" where
  "rb_get_telemetry b =
     (let C = rb_channels b;
          reqs = per_channel C (rb_reads b) (rb_writes b);
          loads = dvalues reqs;
          mx = (case loads of [] \<Rightarrow> 0 | x # xs \<Rightarrow> fold max xs x);
          mn = (case loads of [] \<Rightarrow> 0 | x # xs \<Rightarrow> fold min xs x);
          mean = (if 0 < C then of_int (sum_list loads) / of_int C else 0)
      in \<lparr>tm_total_requests = rb_requests b,
          tm_reads = rb_blocks_read b + rb_key_reads b,
          tm_writes = rb_blocks_written b,
          tm_avg_batch_size = (if 0 < rb_storage_batches b
             then round2 (of_int (rb_batched_requests b) / of_int (max 1 (rb_storage_batches b))) else 1),
          tm_total_bytes = rb_bytes_read b + rb_bytes_written b,
          tm_channel_requests = reqs,
          tm_channel_bytes = per_channel C (rb_read_bytes b) (rb_write_bytes b),
          tm_max_load = mx, tm_min_load = mn, tm_mean_load = round2 mean,
          tm_imbalance_pct = round2 (if 0 < mean then (of_int mx - mean) / mean * 100 else 0),
          tm_contention_ratio = round2 (if 0 < rb_requests b
             then of_int mx / (of_int (rb_requests b) / of_int C) else 1),
          tm_service_time_ms = round2 (fold (\<lambda>c m. if m < channel_time b c then channel_time b c else m) [0..C - 1] 0 / 1000),
          tm_stored_blocks = length (rb_storage b)\<rparr>)"

section \<open>Selection\<close>

lemma slice_to_nonneg: "0 \<le> k \<Longrightarrow> slice_to k xs = take (nat k) xs"
  by (simp add: slice_to_def)

lemma sorted_take_le:
  assumes "sorted (map f xs)" "x \<in> set (drop n xs)" "y \<in> set (take n xs)"
  shows "f y \<le> f x"
proof -
  have "sorted (map f (take n xs) @ map f (drop n xs))"
    using assms(1) by (metis append_take_drop_id map_append)
  then show ?thesis using assms(2,3) by (auto simp: sorted_append)
qed

lemma select_topk_spec:
  assumes "0 \<le> k"
  shows "sorted (map (\<lambda>x. - fst x) (select_topk k ss))"
    and "length (select_topk k ss) = min (nat k) (length ss)"
    and "\<exists>rest. mset ss = mset (select_topk k ss) + mset rest \<and>
      (\<forall>x\<in>set rest. \<forall>y\<in>set (select_topk k ss). fst x \<le> fst y)"
proof -
  let ?s = "sort_key (\<lambda>x. - fst x) ss"
  have st: "sorted (map (\<lambda>x. - fst x) ?s)" by simp
  then show "sorted (map (\<lambda>x. - fst x) (select_topk k ss))"
    by (simp add: select_topk_def slice_to_nonneg assms take_map [symmetric] sorted_wrt_take)
  show "length (select_topk k ss) = min (nat k) (length ss)"
    by (simp add: select_topk_def slice_to_nonneg assms min.commute)
  have "mset ss = mset (take (nat k) ?s @ drop (nat k) ?s)" by simp
  then have "mset ss = mset (select_topk k ss) + mset (drop (nat k) ?s)"
    by (simp only: select_topk_def slice_to_nonneg [OF assms] mset_append)
  moreover have "\<forall>x\<in>set (drop (nat k) ?s). \<forall>y\<in>set (select_topk k ss). fst x \<le> fst y"
    using sorted_take_le [OF st] by (auto simp: select_topk_def slice_to_nonneg assms)
  ultimately show "\<exists>rest. mset ss = mset (select_topk k ss) + mset rest \<and>
      (\<forall>x\<in>set rest. \<forall>y\<in>set (select_topk k ss). fst x \<le> fst y)" by blast
qed

lemma topk_candidates_frame:
  "topk_candidates layer cs b = (r, b') \<Longrightarrow> same_store b b' \<and>
   (\<forall>is. r = Inr is \<longrightarrow> map (\<lambda>(_, _, bid, tok). (bid, tok)) is = cs)"
proof (induction cs arbitrary: b r b')
  case Nil
  then show ?case by auto
next
  case (Cons c cs)
  obtain bid tok where c: "c = (bid, tok)" by (cases c)
  have ch: "same_store b b1" if "charge_read x y b = (q, b1)" for x y q b1
    using that by (auto simp: charge_read_def Let_def same_store_def block_shape_def split: sum.splits)
  show ?case
  proof (cases "dget (rb_storage b) (layer, bid)")
    case None
    obtain r2 b2 where t: "topk_candidates layer cs b = (r2, b2)" by fastforce
    from Cons.IH [OF t] Cons.prems None t show ?thesis by (cases r2) (auto simp: c)
  next
    case (Some m)
    obtain q b1 where q: "charge_read (bm_channel m) (int (k_size m)) b = (q, b1)" by fastforce
    obtain r2 b2 where t: "topk_candidates layer cs b1 = (r2, b2)" by fastforce
    from Cons.IH [OF t] Cons.prems Some t q ch [OF q] show ?thesis
      by (cases q; cases r2) (auto simp: c intro: same_store_trans)
  qed
qed

section \<open>What a score is\<close>

text \<open>The key tensor the scores of a candidate are computed from.\<close>

definition filter_key :: "int \<Rightarrow> backend \<Rightarrow> int \<Rightarrow> tensor" where
  "filter_key layer b bid =
     (case rb_lookup b (layer, bid) of
        Some (k, v) \<Rightarrow> k
      | None \<Rightarrow> \<lparr>shape = block_shape b, elem_type = Float32,
                 raw = pread (case rb_backing b of None \<Rightarrow> [] | Some f \<Rightarrow> f) 4096 0\<rparr>)"

text \<open>The scaled dot product of query head \<open>h\<close> with token \<open>t\<close> of the key head it shares.\<close>

definition head_score ::
    "(np_dtype \<Rightarrow> byte list \<Rightarrow> real list) \<Rightarrow> real list list \<Rightarrow> real \<Rightarrow> int \<Rightarrow> tensor \<Rightarrow> nat \<Rightarrow> nat \<Rightarrow> real" where
  "head_score decode query scale r k t h =
     (let H = shape k ! 1; D = shape k ! 2; g = nat ((int h div r) mod int H)
      in (\<Sum>d\<leftarrow>[0..<D]. query ! h ! d * decode (elem_type k) (raw k) ! ((t * H + g) * D + d)) * scale)"

definition best_score ::
    "(np_dtype \<Rightarrow> byte list \<Rightarrow> real list) \<Rightarrow> real list list \<Rightarrow> real \<Rightarrow> nat \<Rightarrow> int \<Rightarrow> tensor \<Rightarrow> int \<Rightarrow> real" where
  "best_score decode query scale qh r k tok =
     Max {head_score decode query scale r k t h | t h. t \<in> set (slice_to tok [0..<shape k ! 0]) \<and> h < qh}"

lemma slice_to_map: "slice_to k (map f xs) = map f (slice_to k xs)"
  by (simp add: slice_to_def take_map)

lemma fold_max_Max: "fold max xs (x :: real) = Max (set (x # xs))"
  by (simp only: Max.set_eq_fold)

lemma dot_rows_scores:
  assumes "dot_rows decode query scale qh r k = Inr rows"
  shows "rows = map (\<lambda>t. map (head_score decode query scale r k t) [0..<qh]) [0..<shape k ! 0]"
proof -
  obtain T H D where "shape k = [T, H, D]"
    using assms by (auto simp: dot_rows_def split: list.splits if_splits)
  with assms show ?thesis by (auto simp: dot_rows_def head_score_def Let_def split: if_splits)
qed

lemma score_block_best:
  assumes "score_block decode query scale qh r (k, c) = Inr s"
  shows "snd s = c \<and> fst s = best_score decode query scale qh r k (snd c)"
proof -
  obtain bid tok where c: "c = (bid, tok)" by (cases c)
  obtain rows where rows: "dot_rows decode query scale qh r k = Inr rows" "max_dot rows tok = Inr (fst s)" "snd s = c"
    using assms by (auto simp: score_block_def rbind_Inr_iff c)
  let ?ts = "slice_to tok [0..<shape k ! 0]"
  obtain x xs where xs: "concat (slice_to tok rows) = x # xs" "fst s = fold max xs x"
    using rows(2) by (auto simp: max_dot_def split: list.splits)
  have "fst s = Max (set (concat (slice_to tok rows)))" using xs fold_max_Max by simp
  moreover have "set (concat (slice_to tok rows)) =
      {head_score decode query scale r k t h | t h. t \<in> set ?ts \<and> h < qh}"
    by (fastforce simp: dot_rows_scores [OF rows(1)] slice_to_map)
  ultimately show ?thesis using rows(3) c by (simp add: best_score_def)
qed

lemma topk_candidates_keys:
  assumes "topk_candidates layer cs b = (Inr ci, b')" "map_res (cand_tensor layer b0) ci = Inr ks"
    and "rb_storage b0 = rb_storage b" "rb_backing b0 = rb_backing b" "block_shape b0 = block_shape b"
  shows "list_all2 (\<lambda>c y. y = filter_key layer b (fst c)) cs ks"
  using assms
proof (induction cs arbitrary: b ci b' ks)
  case Nil
  then show ?case by simp
next
  case (Cons c cs)
  obtain bid tok where c: "c = (bid, tok)" by (cases c)
  have ch: "rb_storage b1 = rb_storage b \<and> rb_backing b1 = rb_backing b \<and> block_shape b1 = block_shape b"
    if "charge_read x y b = (q, b1)" for x y q b1
    using that by (auto simp: charge_read_def Let_def block_shape_def split: sum.splits)
  have key: "filter_key layer b1 = filter_key layer b" if "charge_read x y b = (q, b1)" for x y q b1
    using ch [OF that] by (auto simp: filter_key_def rb_lookup_def fun_eq_iff split: option.split)
  show ?case
  proof (cases "dget (rb_storage b) (layer, bid)")
    case None
    then obtain ci2 where t: "topk_candidates layer cs b = (Inr ci2, b')" "ci = (0, 4096, bid, tok) # ci2"
      using Cons.prems(1) by (auto simp: c split: sum.splits prod.splits)
    then obtain y ks2 where ks: "ks = y # ks2" "map_res (cand_tensor layer b0) ci2 = Inr ks2"
      "cand_tensor layer b0 (0, 4096, bid, tok) = Inr y" using Cons.prems(2) by (auto simp: rbind_Inr_iff)
    have "y = filter_key layer b bid" using ks(3) None Cons.prems(3-5)
      by (auto simp: cand_tensor_def filter_key_def rb_lookup_def from_buffer_def Let_def split: option.splits if_splits)
    then show ?thesis using Cons.IH [OF t(1) ks(2)] Cons.prems(3-5) by (simp add: ks(1) c)
  next
    case (Some m)
    then obtain b1 ci2 where q: "charge_read (bm_channel m) (int (k_size m)) b = (Inr (), b1)"
      and t: "topk_candidates layer cs b1 = (Inr ci2, b')" "ci = (k_offset m, k_size m, bid, tok) # ci2"
      using Cons.prems(1) by (auto simp: c split: sum.splits prod.splits)
    then obtain y ks2 where ks: "ks = y # ks2" "map_res (cand_tensor layer b0) ci2 = Inr ks2"
      "cand_tensor layer b0 (k_offset m, k_size m, bid, tok) = Inr y" using Cons.prems(2) by (auto simp: rbind_Inr_iff)
    have "y = filter_key layer b bid" using ks(3) Some Cons.prems(3-5)
      by (auto simp: cand_tensor_def filter_key_def rb_lookup_def stored_key_def from_buffer_def Let_def split: option.splits if_splits)
    then show ?thesis using Cons.IH [OF t(1) ks(2)] Cons.prems(3-5) ch [OF q] key [OF q] by (simp add: ks(1) c)
  qed
qed

section \<open>Traffic\<close>

text \<open>Calls of a client, in the order they are made; an exception ends the sequence.\<close>

datatype traffic_call =
    CWrite int int kv_data kv_data int int
  | CEvict int int
  | CRead page_kind int int int int
  | CBatch page_kind int "int list" int int
  | CFilter int "(int \<times> int) list" "real list list" int real nat int
  | CReset

fun do_call ::
    "(np_dtype \<Rightarrow> byte list \<Rightarrow> real list) \<Rightarrow> kernel option \<Rightarrow> traffic_call \<Rightarrow> backend \<Rightarrow> unit res \<times> backend" where
  "do_call decode kern (CWrite layer bid k v head tok) b = rb_write_block layer bid k v head tok b"
| "do_call decode kern (CEvict layer bid) b = (Inr (), snd (rb_evict_block layer bid b))"
| "do_call decode kern (CRead pk layer bid head tok) b =
     (case read_single pk layer bid head tok b of (r, b') \<Rightarrow> (rbind r (\<lambda>_. Inr ()), b'))"
| "do_call decode kern (CBatch pk layer ids head tok) b =
     (case read_batch pk layer ids head tok b of (r, b') \<Rightarrow> (rbind r (\<lambda>_. Inr ()), b'))"
| "do_call decode kern (CFilter layer cands query k scale qh kvh) b =
     (case rb_compute_topk_filter decode kern layer cands query k scale qh kvh b of (r, b') \<Rightarrow> (rbind r (\<lambda>_. Inr ()), b'))"
| "do_call decode kern CReset b = (Inr (), rb_reset_stats b)"

fun traffic_run ::
    "(np_dtype \<Rightarrow> byte list \<Rightarrow> real list) \<Rightarrow> kernel option \<Rightarrow> traffic_call list \<Rightarrow> backend \<Rightarrow> unit res \<times> backend" where
  "traffic_run decode kern [] b = (Inr (), b)"
| "traffic_run decode kern (a # as) b =
     (case do_call decode kern a b of
        (Inl e, b1) \<Rightarrow> (Inl e, b1)
      | (Inr _, b1) \<Rightarrow> traffic_run decode kern as b1)"

text \<open>A written block has at least one head, so that its bytes are charged to some channel.\<close>

fun call_ok :: "traffic_call \<Rightarrow> bool" where
  "call_ok (CWrite layer bid k v head tok) = (0 < heads_in_block k)"
| "call_ok a = True"

definition write_counters :: "backend \<Rightarrow> (int, int) dict \<times> (int, int) dict \<times> (int, int) dict \<times> int \<times> int" where
  "write_counters b = (rb_channel_counters b, rb_writes b, rb_write_bytes b, rb_blocks_written b, rb_bytes_written b)"

text \<open>The write counters agree up to the rounding of the share of a head.\<close>

definition writes_ok :: "backend \<Rightarrow> bool" where
  "writes_ok b \<longleftrightarrow> dsum (rb_channel_counters b) = dsum (rb_writes b) \<and>
     dsum (rb_write_bytes b) \<le> rb_bytes_written b \<and>
     rb_bytes_written b - dsum (rb_write_bytes b) \<le> dsum (rb_writes b) - rb_blocks_written b"

lemma writes_ok_cong: "write_counters b' = write_counters b \<Longrightarrow> writes_ok b' = writes_ok b"
  by (simp add: write_counters_def writes_ok_def)

lemma push_log_write_counters [simp]: "write_counters (push_log a b) = write_counters b"
  by (simp add: write_counters_def push_log_def Let_def)

lemma count_reads_write_counters [simp]: "write_counters (count_reads pk n k b) = write_counters b"
  by (simp add: write_counters_def count_reads_def)

lemma charge_read_write_counters: "charge_read ch n b = (r, b') \<Longrightarrow> write_counters b' = write_counters b"
  by (auto simp: charge_read_def Let_def write_counters_def split: sum.splits)

lemma read_single_write_counters: "read_single pk layer bid head tok b = (r, b') \<Longrightarrow> write_counters b' = write_counters b"
  by (auto simp: read_single_def split: sum.splits prod.splits dest: charge_read_write_counters)

lemma batch_loop_write_counters: "batch_loop pk layer ids acc tot b = (r, b') \<Longrightarrow> write_counters b' = write_counters b"
  by (induction pk layer ids acc tot b rule: batch_loop.induct)
    (auto split: sum.splits prod.splits dest: charge_read_write_counters)

lemma single_loop_write_counters: "single_loop pk layer head tok ids acc b = (r, b') \<Longrightarrow> write_counters b' = write_counters b"
  by (induction pk layer head tok ids acc b rule: single_loop.induct)
    (auto split: sum.splits prod.splits dest: read_single_write_counters)

lemma read_batch_write_counters:
  assumes "read_batch pk layer ids head tok b = (r, b')"
  shows "write_counters b' = write_counters b"
proof -
  have "write_counters (b1\<lparr>rb_storage_batches := x, rb_batched_requests := y\<rparr>) = write_counters b1" for b1 x y
    by (simp add: write_counters_def)
  then show ?thesis using assms
    by (auto simp: read_batch_def Let_def split: if_splits sum.splits prod.splits
        dest: batch_loop_write_counters single_loop_write_counters)
qed

lemma topk_candidates_write_counters: "topk_candidates layer cs b = (r, b') \<Longrightarrow> write_counters b' = write_counters b"
  by (induction layer cs b arbitrary: r b' rule: topk_candidates.induct)
    (auto split: option.splits sum.splits prod.splits dest: charge_read_write_counters)

lemma topk_filter_write_counters:
  assumes "rb_compute_topk_filter decode kern layer cands query k scale qh kvh b = (r, b')"
  shows "write_counters b' = write_counters b"
proof -
  obtain r0 b1 where t: "topk_candidates layer cands b = (r0, b1)" by fastforce
  then have w: "write_counters b1 = write_counters b" by (rule topk_candidates_write_counters)
  have "write_counters b' = write_counters b1 \<or> b' = b"
    using assms t by (auto simp: rb_compute_topk_filter_def Let_def write_counters_def split: if_splits sum.splits)
  with w show ?thesis by auto
qed

lemma charge_write_counters:
  assumes "charge_write ch n b = (Inr (), b')"
  shows "dsum (rb_channel_counters b') = dsum (rb_channel_counters b) + 1 \<and>
    dsum (rb_writes b') = dsum (rb_writes b) + 1 \<and> dsum (rb_write_bytes b') = dsum (rb_write_bytes b) + n \<and>
    rb_blocks_written b' = rb_blocks_written b \<and> rb_bytes_written b' = rb_bytes_written b"
  using assms by (auto simp: charge_write_def Let_def dest!: dsum_dadd split: sum.splits)

lemma assign_channels_counters:
  "assign_channels layer bid tok share hs b = (Inr chs, b') \<Longrightarrow>
   dsum (rb_channel_counters b') = dsum (rb_channel_counters b) + int (length hs) \<and>
   dsum (rb_writes b') = dsum (rb_writes b) + int (length hs) \<and>
   dsum (rb_write_bytes b') = dsum (rb_write_bytes b) + share * int (length hs) \<and>
   rb_blocks_written b' = rb_blocks_written b \<and> rb_bytes_written b' = rb_bytes_written b"
proof (induction hs arbitrary: b chs)
  case (Cons h hs)
  from Cons.prems obtain ch b1 chs' where c: "charge_write ch share b = (Inr (), b1)"
    and a: "assign_channels layer bid tok share hs b1 = (Inr chs', b')"
    by (auto split: sum.splits prod.splits)
  show ?case using charge_write_counters [OF c] Cons.IH [OF a] by (simp add: algebra_simps)
qed simp

lemma write_block_writes_ok:
  assumes "rb_write_block layer bid kd vd head tok b = (Inr (), b')" "0 < heads_in_block kd" "writes_ok b"
  shows "writes_ok b'"
proof -
  let ?N = "int (nbytes (payload b kd) + nbytes (payload b vd))" and ?n = "int (heads_in_block kd)"
  obtain chs b1 a f where as: "assign_channels layer bid tok (?N div ?n) (map (\<lambda>i. head + int i) [0..<heads_in_block kd]) b = (Inr chs, b1)"
    and b': "b' = append_block layer bid (payload b kd) (payload b vd) head tok chs a f b1"
    using assms(1) by (auto simp: rb_write_block_def Let_def split: sum.splits prod.splits option.splits)
  have ap: "rb_channel_counters b' = rb_channel_counters b1" "rb_writes b' = rb_writes b1" "rb_write_bytes b' = rb_write_bytes b1"
    "rb_blocks_written b' = rb_blocks_written b1 + 1" "rb_bytes_written b' = rb_bytes_written b1 + ?N"
    by (simp_all add: b' append_block_def push_log_def Let_def)
  obtain N n where N: "N = ?N" "n = ?n" by blast
  obtain p where p: "p = N div n * n" by blast
  have "p + N mod n = N" "0 \<le> N mod n" "N mod n \<le> n - 1"
    using assms(2) pos_mod_bound [of n N] by (simp_all add: N(2) p)
  then have "p \<le> N" "N - p \<le> n - 1" by linarith+
  moreover note assign_channels_counters [OF as, folded N, simplified length_map length_upt diff_zero, folded N(2), folded p] ap [folded N]
  ultimately show ?thesis using assms(3) unfolding writes_ok_def by simp
qed

text \<open>What the candidates charge: each stored one its page, the others nothing.\<close>

lemma topk_candidates_charges:
  assumes "rb_good b" "topk_candidates layer cs b = (r, b')"
  shows "rb_good b' \<and> b' = b\<lparr>rb_reads := rb_reads b', rb_read_bytes := rb_read_bytes b'\<rparr> \<and>
    (\<forall>ci. r = Inr ci \<longrightarrow> (\<exists>miss\<ge>0. dsum (rb_reads b') + miss = dsum (rb_reads b) + int (length cs) \<and>
       dsum (rb_read_bytes b') + 4096 * miss = dsum (rb_read_bytes b) + int (sum_list (map (\<lambda>c. fst (snd c)) ci))))"
  using assms
proof (induction cs arbitrary: b r b')
  case Nil
  then show ?case by auto
next
  case (Cons c cs)
  obtain bid tok where c: "c = (bid, tok)" by (cases c)
  show ?case
  proof (cases "dget (rb_storage b) (layer, bid)")
    case None
    obtain r2 b2 where t: "topk_candidates layer cs b = (r2, b2)" by fastforce
    note IH = Cons.IH [OF Cons.prems(1) t]
    have b': "b' = b2" using Cons.prems(2) None t by (cases r2) (auto simp: c)
    show ?thesis
    proof (cases r2)
      case (Inr ci)
      then obtain miss where "miss \<ge> 0" "dsum (rb_reads b2) + miss = dsum (rb_reads b) + int (length cs)"
        "dsum (rb_read_bytes b2) + 4096 * miss = dsum (rb_read_bytes b) + int (sum_list (map (\<lambda>c. fst (snd c)) ci))"
        using IH by blast
      then have "\<exists>miss\<ge>0. dsum (rb_reads b2) + miss = dsum (rb_reads b) + int (length (c # cs)) \<and>
          dsum (rb_read_bytes b2) + 4096 * miss = dsum (rb_read_bytes b) + int (sum_list (map (\<lambda>c. fst (snd c)) ((0, 4096, bid, tok) # ci)))"
        by (intro exI [of _ "miss + 1"]) simp
      then show ?thesis using IH Cons.prems(2) None t Inr b' by (auto simp: c)
    qed (use IH Cons.prems(2) None t b' in \<open>auto simp: c\<close>)
  next
    case (Some m)
    have ch: "0 \<le> bm_channel m" "bm_channel m < rb_channels b"
      using Cons.prems(1) Some by (auto simp: rb_good_def channels_ok_def)
    obtain b1 where q: "charge_read (bm_channel m) (int (k_size m)) b = (Inr (), b1)" and g: "rb_good b1"
      and d: "dsum (rb_reads b1) = dsum (rb_reads b) + 1" "dsum (rb_read_bytes b1) = dsum (rb_read_bytes b) + int (k_size m)"
      and u: "b1 = b\<lparr>rb_reads := rb_reads b1, rb_read_bytes := rb_read_bytes b1\<rparr>"
      using charge_read_good [OF Cons.prems(1) ch] by blast
    obtain r2 b2 where t: "topk_candidates layer cs b1 = (r2, b2)" by fastforce
    note IH = Cons.IH [OF g t]
    have b': "b' = b2" using Cons.prems(2) Some q t by (cases r2) (auto simp: c)
    have u': "b2 = b\<lparr>rb_reads := rb_reads b2, rb_read_bytes := rb_read_bytes b2\<rparr>"
      using IH by (subst (asm) u) simp
    show ?thesis
    proof (cases r2)
      case (Inr ci)
      then obtain miss where "miss \<ge> 0" "dsum (rb_reads b2) + miss = dsum (rb_reads b1) + int (length cs)"
        "dsum (rb_read_bytes b2) + 4096 * miss = dsum (rb_read_bytes b1) + int (sum_list (map (\<lambda>c. fst (snd c)) ci))"
        using IH by blast
      then have "\<exists>miss\<ge>0. dsum (rb_reads b2) + miss = dsum (rb_reads b) + int (length (c # cs)) \<and>
          dsum (rb_read_bytes b2) + 4096 * miss = dsum (rb_read_bytes b) + int (sum_list (map (\<lambda>c. fst (snd c)) ((k_offset m, k_size m, bid, tok) # ci)))"
        using d by (intro exI [of _ miss]) simp
      then show ?thesis using IH Cons.prems(2) Some q t Inr b' u' by (auto simp: c)
    qed (use IH Cons.prems(2) Some q t b' u' in \<open>auto simp: c\<close>)
  qed
qed

lemma topk_filter_traffic:
  assumes "rb_good b" "traffic_ok b" "rb_compute_topk_filter decode kern layer cands query k scale qh kvh b = (Inr res, b')"
  shows "rb_good b' \<and> traffic_ok b'"
proof (cases "cands = []")
  case False
  obtain r0 b1 where t: "topk_candidates layer cands b = (r0, b1)" by fastforce
  then obtain ci where r0: "r0 = Inr ci" using assms(3) False by (cases r0) (auto simp: rb_compute_topk_filter_def)
  let ?N = "int (sum_list (map (\<lambda>c. fst (snd c)) ci))"
  have ch: "rb_good b1" "b1 = b\<lparr>rb_reads := rb_reads b1, rb_read_bytes := rb_read_bytes b1\<rparr>"
    using topk_candidates_charges [OF assms(1) t] by blast+
  obtain miss where miss: "0 \<le> miss" "dsum (rb_reads b1) + miss = dsum (rb_reads b) + int (length cands)"
    "dsum (rb_read_bytes b1) + 4096 * miss = dsum (rb_read_bytes b) + ?N"
    using topk_candidates_charges [OF assms(1) t] r0 by blast
  obtain rr rb where eq: "b1 = b\<lparr>rb_reads := rr, rb_read_bytes := rb\<rparr>" using ch(2) by blast
  have b': "b' = b1\<lparr>rb_storage_batches := rb_storage_batches b1 + 1,
      rb_requests := rb_requests b1 + 1, rb_topk_calls := rb_topk_calls b1 + 1,
      rb_internal_k_blocks := rb_internal_k_blocks b1 + int (length cands),
      rb_internal_k_bytes := rb_internal_k_bytes b1 + ?N, rb_bytes_read := rb_bytes_read b1 + ?N,
      rb_access_log := rb_access_log b1 @ [TopkAccess layer (int (length cands)) k ?N]\<rparr>"
    using assms(3) False t r0 by (auto simp: rb_compute_topk_filter_def Let_def split: sum.splits)
  have s: "same_store b1 b'" by (simp add: b' same_store_def block_shape_def)
  have "counters_ok b'" using ch(1) by (simp add: b' rb_good_def rb_inv_def counters_ok_def)
  then have "rb_good b'" using same_store_good [OF s _ ch(1)] by blast
  moreover have "traffic_ok b'" using assms(2) miss by (simp add: b' eq traffic_defs)
  ultimately show ?thesis by blast
qed (use assms in \<open>simp add: rb_compute_topk_filter_def\<close>)

lemma do_call_traffic:
  assumes "rb_good b" "traffic_ok b" "writes_ok b" "call_ok a" "do_call decode kern a b = (Inr (), b')"
  shows "rb_good b' \<and> traffic_ok b' \<and> writes_ok b'"
proof (cases a)
  case (CWrite layer bid k v head tok)
  then have w: "rb_write_block layer bid k v head tok b = (Inr (), b')" using assms(5) by simp
  show ?thesis using write_block_ok [OF assms(1), of layer bid k v head tok] w
      write_block_writes_ok [OF w _ assms(3)] assms(2,4) CWrite by auto
next
  case (CEvict layer bid)
  have "writes_ok (snd (rb_evict_block layer bid b))"
    using assms(3) by (simp add: rb_evict_block_def writes_ok_def)
  then show ?thesis using evict_block_ok [OF assms(1), of layer bid] assms(2,5) CEvict by auto
next
  case (CRead pk layer bid head tok)
  obtain r where r: "read_single pk layer bid head tok b = (r, b')" using assms(5) CRead by (auto split: prod.splits)
  have "rb_inv b" using assms(1) by (simp add: rb_good_def)
  note sp = read_single_spec [OF this r]
  show ?thesis using sp same_store_channels [OF sp(2)] writes_ok_cong [OF read_single_write_counters [OF r]] assms(1-3)
    by (simp add: rb_good_def)
next
  case (CBatch pk layer ids head tok)
  obtain r where r: "read_batch pk layer ids head tok b = (r, b')" "r \<in> range Inr"
    using assms(5) CBatch by (auto simp: rbind_Inr_iff split: prod.splits)
  show ?thesis using read_batch_spec [OF assms(1) r(1)] writes_ok_cong [OF read_batch_write_counters [OF r(1)]] r(2) assms(2,3)
    by blast
next
  case (CFilter layer cands query k scale qh kvh)
  obtain res where r: "rb_compute_topk_filter decode kern layer cands query k scale qh kvh b = (Inr res, b')"
    using assms(5) CFilter by (auto simp: rbind_Inr_iff split: prod.splits)
  show ?thesis using topk_filter_traffic [OF assms(1,2) r] writes_ok_cong [OF topk_filter_write_counters [OF r]] assms(3)
    by blast
next
  case CReset
  then show ?thesis using reset_stats_ok [OF assms(1)] assms(5)
    by (auto simp: writes_ok_def rb_reset_stats_def)
qed

lemma traffic_run_ok:
  "rb_good b \<Longrightarrow> traffic_ok b \<Longrightarrow> writes_ok b \<Longrightarrow> \<forall>a\<in>set as. call_ok a \<Longrightarrow>
   traffic_run decode kern as b = (Inr (), b') \<Longrightarrow> traffic_ok b' \<and> writes_ok b'"
  by (induction as arbitrary: b) (auto split: sum.splits prod.splits dest: do_call_traffic)

section \<open>Properties\<close>

text \<open>C14: In-storage filtering returns the best candidates. Without the native kernel, for at least one
  candidate and a \<open>top_k\<close> that is not negative, a successful call returns the \<open>min top_k n\<close> best of the \<open>n\<close> candidates by descending score, no left-out candidate
  scoring above a returned one, and changes no stored block. The score of a candidate is the
  largest scaled dot product of a query head with the key of one of its leading tokens, in the
  key tensor last stored under its id; for an id that is not stored it is taken from bytes 0 to
  4095 of the backing file.\<close>

theorem topk_filter_selects_best:
  assumes "rb_compute_topk_filter decode None layer cands query k scale qh kvh b = (Inr res, b')"
    and "0 \<le> k" "cands \<noteq> []"
  shows "\<exists>ss rest. list_all2 (\<lambda>c s. snd s = c \<and>
      fst s = best_score decode query scale qh (gqa_ratio (int qh) kvh) (filter_key layer b (fst c)) (snd c)) cands ss \<and>
    mset ss = mset res + mset rest \<and>
    sorted (map (\<lambda>x. - fst x) res) \<and> length res = min (nat k) (length cands) \<and>
    (\<forall>x\<in>set rest. \<forall>y\<in>set res. fst x \<le> fst y) \<and> rb_lookup b' = rb_lookup b"
proof -
  obtain r0 b1 where t: "topk_candidates layer cands b = (r0, b1)" by fastforce
  then obtain cinfo where is': "r0 = Inr cinfo" using assms(1,3) by (cases r0) (auto simp: rb_compute_topk_filter_def)
  obtain ks ss where ks: "map_res (cand_tensor layer b1) cinfo = Inr ks"
    and ss: "map_res (score_block decode query scale qh (gqa_ratio (int qh) kvh)) (zip ks cands) = Inr ss"
    and res: "res = select_topk k ss"
    and b': "rb_lookup b' = rb_lookup b1"
    using assms(1,3) t is'
    by (auto simp: rb_compute_topk_filter_def Let_def rbind_Inr_iff rb_lookup_def fun_eq_iff split: sum.splits)
  note fr = topk_candidates_frame [OF t]
  have keys: "list_all2 (\<lambda>c y. y = filter_key layer b (fst c)) cands ks"
    using topk_candidates_keys [OF t [unfolded is'] ks] fr by (simp add: same_store_def)
  have sc: "list_all2 (\<lambda>c s. snd s = c \<and>
      fst s = best_score decode query scale qh (gqa_ratio (int qh) kvh) (filter_key layer b (fst c)) (snd c)) cands ss"
  proof (rule list_all2_all_nthI)
    have l: "length ks = length cands" "length ss = length (zip ks cands)"
      using keys list_all2_lengthD [OF ss [unfolded map_res_Inr]] by (simp_all add: list_all2_lengthD)
    then show "length cands = length ss" by simp
    fix i assume i: "i < length cands"
    then have "score_block decode query scale qh (gqa_ratio (int qh) kvh) (ks ! i, cands ! i) = Inr (ss ! i)"
      using ss l unfolding map_res_Inr list_all2_conv_all_nth by simp
    moreover have "ks ! i = filter_key layer b (fst (cands ! i))" using keys i by (simp add: list_all2_conv_all_nth)
    ultimately show "snd (ss ! i) = cands ! i \<and> fst (ss ! i) =
        best_score decode query scale qh (gqa_ratio (int qh) kvh) (filter_key layer b (fst (cands ! i))) (snd (cands ! i))"
      by (metis score_block_best)
  qed
  then have len: "length ss = length cands" by (simp add: list_all2_lengthD)
  have "rb_lookup b1 = rb_lookup b" using fr same_store_lookup by blast
  with b' sc len select_topk_spec [OF assms(2), of ss] show ?thesis unfolding res by auto
qed

definition sample_decode :: "np_dtype \<Rightarrow> byte list \<Rightarrow> real list" where
  "sample_decode dt bs = map (\<lambda>x. of_nat (unat x)) (take (length bs div itemsize dt) bs)"

definition sample_store :: backend where
  "sample_store = snd (rb_write_block 0 1 (Arr \<lparr>shape = [1, 1, 1], elem_type = Int8, raw = [7]\<rparr>)
     (Arr \<lparr>shape = [1, 1, 1], elem_type = Int8, raw = [0]\<rparr>) 0 0
     (new_backend 1 1 1 4 4 1 1 1 1 ''conventional'' True 35 350 25))"

lemma topk_filter_selects_best_witness:
  "\<exists>res b'. rb_compute_topk_filter sample_decode None 0 [(1, 1)] [[2]] 1 1 1 1 sample_store = (Inr res, b') \<and>
     length res = 1"
proof -
  have "\<not> isl (fst (rb_compute_topk_filter sample_decode None 0 [(1, 1)] [[2]] 1 1 1 1 sample_store))"
    by code_simp
  then obtain res b' where
    r: "rb_compute_topk_filter sample_decode None 0 [(1, 1)] [[2]] 1 1 1 1 sample_store = (Inr res, b')"
    by (metis prod.collapse sum.collapse(2))
  from topk_filter_selects_best [OF r] r show ?thesis by auto
qed

text \<open>C17: Traffic conservation. After any sequence of calls on a fresh backend of positive geometry that raises nothing
  (writes of blocks with at least one head, evictions, single and batched reads, in-storage
  filtering with the kernel or without, statistics resets), the cumulative counters agree with
  the per-channel ones. Every request is a page read, a written block or a filter call. The bytes
  read are the bytes charged to channels plus 4096 for each filter candidate that was not stored,
  which is charged to none. Every written head is charged to one channel, and the bytes written
  are the bytes charged, up to the rounding of the share of a head: at most one byte for each head
  after the first of a block, so none for blocks of one head.\<close>

theorem backend_traffic_conserved:
  assumes "0 < c" "0 < d" "0 < p" "0 < pg" "0 < blk" "mode_ok md"
    and "\<forall>a\<in>set calls. call_ok a"
    and "traffic_run decode kern calls (new_backend c d p pg blk nl nh tpb hdim md batching tr tp tx) = (Inr (), b)"
  shows "let reads = rb_key_reads b + rb_value_reads b + rb_combined_reads b;
             unstored = reads + rb_internal_k_blocks b - dsum (rb_reads b);
             rounding = rb_bytes_written b - dsum (rb_write_bytes b)
         in rb_requests b = reads + rb_blocks_written b + rb_topk_calls b \<and>
            0 \<le> unstored \<and> rb_bytes_read b = dsum (rb_read_bytes b) + 4096 * unstored \<and>
            dsum (rb_channel_counters b) = dsum (rb_writes b) \<and>
            0 \<le> rounding \<and> rounding \<le> dsum (rb_writes b) - rb_blocks_written b"
proof -
  let ?b = "new_backend c d p pg blk nl nh tpb hdim md batching tr tp tx"
  have st: "rb_strong ?b" by (rule new_backend_strong) (use assms in auto)
  have "writes_ok ?b" by (simp add: writes_ok_def new_backend_def)
  with st traffic_run_ok [of ?b calls decode kern b] assms(7,8) show ?thesis
    by (simp add: rb_strong_def traffic_defs writes_ok_def Let_def)
qed

lemma backend_traffic_conserved_witness:
  "\<exists>b. traffic_run sample_decode None
      [CWrite 0 1 (Arr \<lparr>shape = [1, 1, 1], elem_type = Int8, raw = [7]\<rparr>) (Arr \<lparr>shape = [1, 1, 1], elem_type = Int8, raw = [0]\<rparr>) 0 0,
       CFilter 0 [(1, 1)] [[2]] 1 1 1 1, CBatch KeyPage 0 [1, 2] 0 0]
      (new_backend 1 1 1 4 4 1 1 1 1 ''conventional'' True 35 350 25) = (Inr (), b) \<and>
    dsum (rb_channel_counters b) = dsum (rb_writes b)"
proof -
  let ?calls = "[CWrite 0 1 (Arr \<lparr>shape = [1, 1, 1], elem_type = Int8, raw = [7]\<rparr>) (Arr \<lparr>shape = [1, 1, 1], elem_type = Int8, raw = [0]\<rparr>) 0 0,
       CFilter 0 [(1, 1)] [[2]] 1 1 1 1, CBatch KeyPage 0 [1, 2] 0 0]"
    and ?b = "new_backend 1 1 1 4 4 1 1 1 1 ''conventional'' True 35 350 25"
  have "fst (traffic_run sample_decode None ?calls ?b) = Inr ()" by code_simp
  then obtain b where r: "traffic_run sample_decode None ?calls ?b = (Inr (), b)" by (metis prod.collapse)
  from backend_traffic_conserved [OF _ _ _ _ _ _ _ r] r show ?thesis
    by (simp add: mode_ok_def Let_def del: traffic_run.simps)
qed

text \<open>A candidate that was never stored is not skipped: it is scored on bytes 0 to 4095 of the
  backing file, that is, on the key page of whichever block was written first.\<close>

theorem missing_candidate_scores_first_block:
  assumes "rb_inv b" "rb_lookup b (layer, bid) = None" "4 * prod_list (block_shape b) = 4096"
    and "dget (rb_storage b) j = Some m" "k_offset m = 0" "k_size m = 4096"
  shows "topk_candidates layer [(bid, tok)] b = (Inr [(0, 4096, bid, tok)], b) \<and>
    (\<exists>t. cand_tensor layer b (0, 4096, bid, tok) = Inr t \<and>
       rb_lookup b j = Some (t\<lparr>shape := k_shape m, elem_type := k_dtype m\<rparr>, snd (the (rb_lookup b j))))"
proof -
  have none: "dget (rb_storage b) (layer, bid) = None" using assms(2) by (simp add: rb_lookup_def)
  obtain f where f: "rb_backing b = Some f" and all: "\<forall>k m. dget (rb_storage b) k = Some m \<longrightarrow> meta_ok f m"
    using assms(1) by (auto simp: rb_inv_def store_ok_def)
  have m: "meta_ok f m" using all assms(4) by blast
  have "length (pread f 4096 0) = 4096" using m assms(5,6) by (auto simp: length_pread meta_ok_def)
  then show ?thesis
    using none f assms(3-6)
    by (simp add: cand_tensor_def from_buffer_def tensor_ok_def Let_def rb_lookup_def stored_key_def)
qed

lemma write_block_meta:
  assumes "rb_good b" "rb_write_block layer bid kd vd head tok b = (r, b')"
  shows "\<exists>m. dget (rb_storage b') (layer, bid) = Some m \<and> k_offset m = rb_file_offset b \<and>
    k_size m = nbytes (payload b kd)"
proof -
  have inv: "config_ok b" "counters_ok b" using assms by (simp_all add: rb_good_def rb_inv_def)
  let ?share = "int (nbytes (payload b kd) + nbytes (payload b vd)) div int (heads_in_block kd)"
  let ?hs = "map (\<lambda>i. head + int i) [0..<heads_in_block kd]"
  obtain chs b1 where a: "assign_channels layer bid tok ?share ?hs b = (Inr chs, b1)"
    and s: "same_store b b1" and co: "counters_ok b1"
    using assign_channels_ok [OF inv, of layer bid tok ?share ?hs] by blast
  have g1: "rb_good b1" using same_store_good [OF s co assms(1)] .
  obtain l where l: "tensor_to_lba (rb_mapper b1) (block_coord 16 layer head tok bid) (rb_mapping_mode b1) = Inr l"
    using mapper_lba g1 by (meson rb_good_def rb_inv_def)
  obtain f where f: "rb_backing b1 = Some f" using g1 by (auto simp: rb_good_def rb_inv_def store_ok_def)
  have "b' = append_block layer bid (payload b kd) (payload b vd) head tok chs (lba l) f b1"
    using assms(2) a l f by (simp add: rb_write_block_def Let_def)
  then show ?thesis using s
    by (simp add: append_block_def push_log_def Let_def dict_simps same_store_def)
qed

lemma missing_candidate_scores_first_block_witness:
  "\<exists>b t. rb_lookup b (0, 9) = None \<and> cand_tensor 0 b (0, 4096, 9, 16) = Inr t \<and>
     (\<exists>v. rb_lookup b (0, 1) = Some (t, v))"
proof -
  let ?init = "new_backend 8 4 2 256 1024 24 1 16 64 ''tensor_aware'' True 35 350 25"
  let ?t = "zeros [16, 1, 64] Float32"
  have g: "rb_good ?init" using new_backend_strong [of 8 4 2 256 1024 "''tensor_aware''"]
    by (simp add: rb_strong_def mode_ok_def)
  obtain b where w: "rb_write_block 0 1 (Arr ?t) (Arr ?t) 0 0 ?init = (Inr (), b)" and gb: "rb_good b"
    and lk: "rb_lookup b = (rb_lookup ?init)((0, 1) \<mapsto> (?t, ?t))"
    using write_block_ok [OF g, of 0 1 "Arr ?t" "Arr ?t" 0 0] by auto
  have none: "rb_lookup b (0, 9) = None" unfolding lk by (simp add: rb_lookup_def new_backend_def)
  obtain m where m: "dget (rb_storage b) (0, 1) = Some m" "k_offset m = 0" "k_size m = 4096"
    using write_block_meta [OF g w] by (auto simp: new_backend_def)
  have "block_shape b = [16, 1, 64]" using w write_block_shape [of 0 1 "Arr ?t" "Arr ?t" 0 0 ?init]
    by (simp add: block_shape_def new_backend_def)
  then have sh: "4 * prod_list (block_shape b) = 4096" by simp
  have "rb_inv b" using gb by (simp add: rb_good_def)
  from missing_candidate_scores_first_block [OF this none sh m, of 16] obtain t where
    t: "cand_tensor 0 b (0, 4096, 9, 16) = Inr t" by blast
  moreover have "t = ?t"
  proof -
    obtain f where f: "rb_backing b = Some f" using gb by (auto simp: rb_good_def rb_inv_def store_ok_def)
    have d: "dget (rb_storage b) (0, 9) = None" using none by (simp add: rb_lookup_def)
    have k: "stored_key f m = ?t" using lk m(1) f by (simp add: rb_lookup_def fun_eq_iff split: if_splits)
    have "t = \<lparr>shape = [16, 1, 64], elem_type = Float32, raw = pread f 4096 0\<rparr>"
      using t f d \<open>block_shape b = [16, 1, 64]\<close>
      by (simp add: cand_tensor_def from_buffer_def Let_def split: if_splits)
    then show ?thesis using k m by (simp add: stored_key_def zeros_def)
  qed
  ultimately show ?thesis using none lk by (intro exI [of _ b]) auto
qed

end
