(* ===== verification/FlashController.thy ===== *)
theory FlashController
  imports KvStore
begin

text \<open>
  The simulated computational SSD of the first subsystem:
  \<open>person1_kv_engine/storage_backend/flash_model.py\<close> (timing and energy) and
  \<open>mock_ssd.py\<close> (\<open>MockSSDController\<close>: flash store, controller DRAM cache, traffic counters,
  in-storage top-k attention). Bytes, page counts and operation counts are integers, times and
  energies reals. What the code asks of numpy (reading bytes as floats, type promotion,
  \<open>argpartition\<close>, \<open>argsort\<close>) and the native kernel are parameters. Access listeners and wall-clock
  time stamps are left out.
\<close>

section \<open>Timing and energy of flash and bus\<close>

record flash_timing =
  ft_read_us :: real
  ft_prog_us :: real
  ft_erase_us :: real
  ft_dram_ns :: real
  ft_pcie_gbps :: real
  ft_channels :: int
  ft_dies :: int
  ft_page_size :: int
  ft_pages_per_block :: int

definition default_flash_timing :: flash_timing where
  "default_flash_timing = \<lparr>ft_read_us = 35, ft_prog_us = 650, ft_erase_us = 3500, ft_dram_ns = 50,
     ft_pcie_gbps = 15.75, ft_channels = 8, ft_dies = 4, ft_page_size = 16384, ft_pages_per_block = 128\<rparr>"

record energy_config =
  ec_host_dram :: real
  ec_pcie :: real
  ec_ctrl_dram :: real
  ec_nand_read :: real
  ec_nand_write :: real
  ec_mac :: real

definition default_energy :: energy_config where
  "default_energy = \<lparr>ec_host_dram = 4.5, ec_pcie = 12, ec_ctrl_dram = 3.5, ec_nand_read = 3.2,
     ec_nand_write = 14.5, ec_mac = 0.5\<rparr>"

definition calculate_pcie_transfer_time_us :: "flash_timing \<Rightarrow> int \<Rightarrow> real res" where
  "calculate_pcie_transfer_time_us t n =
     (if n \<le> 0 then Inr 0
      else (let bytes_per_us = ft_pcie_gbps t * 1000
            in if bytes_per_us = 0 then Inl ZeroDivisionError else Inr (1.2 + of_int n / bytes_per_us)))"

text \<open>\<open>max(1, ceil(n / page))\<close> pages in \<open>ceil(pages / min(pages, channels))\<close> rounds.\<close>

definition flash_rounds :: "flash_timing \<Rightarrow> int \<Rightarrow> int res" where
  "flash_rounds t n =
     (if ft_page_size t = 0 then Inl ZeroDivisionError
      else (let pages = max 1 (ceiling (of_int n / of_int (ft_page_size t) :: real));
                eff = min pages (ft_channels t)
            in if eff = 0 then Inl ZeroDivisionError else Inr (ceiling (of_int pages / of_int eff :: real))))"

definition calculate_flash_read_time_us :: "flash_timing \<Rightarrow> int \<Rightarrow> real res" where
  "calculate_flash_read_time_us t n =
     (if n \<le> 0 then Inr 0
      else rbind (flash_rounds t n) (\<lambda>rounds.
             Inr (of_int rounds * (ft_read_us t + of_int (ft_page_size t) / (1.2 * 1000)))))"

definition calculate_flash_write_time_us :: "flash_timing \<Rightarrow> int \<Rightarrow> real res" where
  "calculate_flash_write_time_us t n =
     (if n \<le> 0 then Inr 0 else rbind (flash_rounds t n) (\<lambda>rounds. Inr (of_int rounds * ft_prog_us t)))"

record energy_report =
  er_total :: real
  er_host_dram :: real
  er_pcie :: real
  er_ctrl_dram :: real
  er_flash_read :: real
  er_flash_write :: real
  er_compute :: real

definition calculate_energy_joules ::
    "energy_config \<Rightarrow> int \<Rightarrow> int \<Rightarrow> int \<Rightarrow> int \<Rightarrow> int \<Rightarrow> int \<Rightarrow> energy_report" where
  "calculate_energy_joules e host pcie ctrl rd wr macs =
     (let pj = 1 / 10 ^ 12; nj = 1 / 10 ^ 9;
          h = of_int (host * 8) * (ec_host_dram e * pj);
          p = of_int (pcie * 8) * (ec_pcie e * pj);
          c = of_int (ctrl * 8) * (ec_ctrl_dram e * pj);
          r = of_int (rd * 8) * (ec_nand_read e * nj);
          w = of_int (wr * 8) * (ec_nand_write e * nj);
          m = of_int macs * (ec_mac e * pj)
      in \<lparr>er_total = h + p + c + r + w + m, er_host_dram = h, er_pcie = p, er_ctrl_dram = c,
          er_flash_read = r, er_flash_write = w, er_compute = m\<rparr>)"

section \<open>Controller state\<close>

record kv_meta =
  km_block :: int
  km_layer :: int
  km_token_start :: int
  km_token_count :: nat
  km_heads :: nat
  km_head_dim :: nat
  km_dtype :: np_dtype
  km_access_count :: int

definition km_total_elements :: "kv_meta \<Rightarrow> nat" where
  "km_total_elements m = km_token_count m * km_heads m * km_head_dim m"

definition km_payload_single :: "kv_meta \<Rightarrow> nat" where
  "km_payload_single m = km_total_elements m * itemsize (km_dtype m)"

definition km_payload_total :: "kv_meta \<Rightarrow> nat" where
  "km_payload_total m = 2 * km_payload_single m"

record flash_entry =
  fe_k :: tensor
  fe_v :: tensor
  fe_meta :: kv_meta

datatype fc_event =
    FcStore int int int real
  | FcLoad int int int real
  | FcTopk int int int int real

record controller =
  fc_capacity :: int
  fc_timing :: flash_timing
  fc_energy :: energy_config
  fc_store :: "(int \<times> int, flash_entry) dict"
  fc_cache :: "(int \<times> int) set"
  fc_used :: int
  fc_h2d :: int
  fc_d2h :: int
  fc_flash_rd :: int
  fc_flash_wr :: int
  fc_dram_rd :: int
  fc_dram_wr :: int
  fc_macs :: int
  fc_rd_ops :: int
  fc_wr_ops :: int
  fc_time :: real
  fc_log :: "fc_event list"

definition new_controller :: "int \<Rightarrow> flash_timing \<Rightarrow> energy_config \<Rightarrow> controller" where
  "new_controller mb t e = \<lparr>fc_capacity = mb * 1024 * 1024, fc_timing = t, fc_energy = e, fc_store = [], fc_cache = {},
     fc_used = 0, fc_h2d = 0, fc_d2h = 0, fc_flash_rd = 0, fc_flash_wr = 0, fc_dram_rd = 0, fc_dram_wr = 0,
     fc_macs = 0, fc_rd_ops = 0, fc_wr_ops = 0, fc_time = 0, fc_log = []\<rparr>"

section \<open>Store, load, evict, prefetch\<close>

definition fc_charge_pcie :: "int \<Rightarrow> (controller, unit) meth" where
  "fc_charge_pcie n = sbind (sread fc_timing) (\<lambda>t. sbind (slift (calculate_pcie_transfer_time_us t n)) (\<lambda>u.
     supd (\<lambda>c. c\<lparr>fc_time := fc_time c + u\<rparr>)))"

definition fc_charge_read :: "int \<Rightarrow> (controller, unit) meth" where
  "fc_charge_read n = sbind (sread fc_timing) (\<lambda>t. sbind (slift (calculate_flash_read_time_us t n)) (\<lambda>u.
     supd (\<lambda>c. c\<lparr>fc_time := fc_time c + u\<rparr>)))"

definition dim_of :: "nat \<Rightarrow> tensor \<Rightarrow> nat res" where
  "dim_of i t = (if i < length (shape t) then Inr (shape t ! i) else Inl IndexError)"

definition default_meta :: "int \<Rightarrow> int \<Rightarrow> tensor \<Rightarrow> kv_meta res" where
  "default_meta bid layer k =
     rbind (dim_of 0 k) (\<lambda>a. rbind (dim_of 1 k) (\<lambda>b. rbind (dim_of 2 k) (\<lambda>d.
       Inr \<lparr>km_block = bid, km_layer = layer, km_token_start = 0, km_token_count = a, km_heads = b, km_head_dim = d,
            km_dtype = elem_type k, km_access_count = 0\<rparr>)))"

definition fc_store_kv :: "int \<Rightarrow> int \<Rightarrow> tensor \<Rightarrow> tensor \<Rightarrow> kv_meta option \<Rightarrow> (controller, bool) meth" where
  "fc_store_kv bid layer k v md =
     (let n = int (nbytes k) + int (nbytes v)
      in sthen (supd (\<lambda>c. c\<lparr>fc_h2d := fc_h2d c + n\<rparr>))
         (sbind (sread fc_timing) (\<lambda>t.
          sbind (slift (calculate_pcie_transfer_time_us t n)) (\<lambda>pu.
          sthen (supd (\<lambda>c. c\<lparr>fc_flash_wr := fc_flash_wr c + n, fc_wr_ops := fc_wr_ops c + 1\<rparr>))
         (sbind (slift (calculate_flash_write_time_us t n)) (\<lambda>wu.
          sthen (supd (\<lambda>c. c\<lparr>fc_time := fc_time c + (pu + wu)\<rparr>))
         (sbind (slift (case md of Some m \<Rightarrow> Inr m | None \<Rightarrow> default_meta bid layer k)) (\<lambda>m.
          sthen (supd (\<lambda>c. c\<lparr>fc_store := dset (layer, bid) \<lparr>fe_k = k, fe_v = v, fe_meta = m\<rparr> (fc_store c)\<rparr>))
         (sthen (supd (\<lambda>c. c\<lparr>fc_log := fc_log c @ [FcStore layer bid n (fc_time c)]\<rparr>))
          (sret True))))))))))"

definition fc_sense :: "int \<times> int \<Rightarrow> int \<Rightarrow> (controller, unit) meth" where
  "fc_sense j n = sbind (sread (\<lambda>c. j \<in> fc_cache c)) (\<lambda>hit.
     if \<not> hit
     then sthen (supd (\<lambda>c. c\<lparr>fc_flash_rd := fc_flash_rd c + n, fc_rd_ops := fc_rd_ops c + 1\<rparr>))
         (sthen (fc_charge_read n) (supd (\<lambda>c. c\<lparr>fc_dram_wr := fc_dram_wr c + n\<rparr>)))
     else supd (\<lambda>c. c\<lparr>fc_dram_rd := fc_dram_rd c + n\<rparr>))"

definition fc_load_kv :: "int \<Rightarrow> int \<Rightarrow> (controller, tensor \<times> tensor) meth" where
  "fc_load_kv bid layer =
     sbind (sread (\<lambda>c. dget (fc_store c) (layer, bid))) (\<lambda>e. case e of
       None \<Rightarrow> sraise KeyError
     | Some e \<Rightarrow>
         (let n = int (nbytes (fe_k e)) + int (nbytes (fe_v e))
          in sthen (fc_sense (layer, bid) n)
             (sthen (supd (\<lambda>c. c\<lparr>fc_d2h := fc_d2h c + n\<rparr>))
             (sthen (fc_charge_pcie n)
             (sthen (supd (\<lambda>c. c\<lparr>fc_store := dset (layer, bid)
                  (e\<lparr>fe_meta := (fe_meta e)\<lparr>km_access_count := km_access_count (fe_meta e) + 1\<rparr>\<rparr>) (fc_store c)\<rparr>))
             (sthen (supd (\<lambda>c. c\<lparr>fc_log := fc_log c @ [FcLoad layer bid n (fc_time c)]\<rparr>))
              (sret (fe_k e, fe_v e))))))))"

definition fc_evict_kv :: "int \<Rightarrow> int \<Rightarrow> (controller, bool) meth" where
  "fc_evict_kv bid layer =
     sbind (sread (\<lambda>c. dmem (layer, bid) (fc_store c))) (\<lambda>present.
       if present
       then sthen (supd (\<lambda>c. c\<lparr>fc_store := dpop (layer, bid) (fc_store c), fc_cache := fc_cache c - {(layer, bid)}\<rparr>))
              (sret True)
       else sret False)"

definition fc_stage :: "int \<Rightarrow> int \<Rightarrow> nat \<Rightarrow> (controller, nat) meth" where
  "fc_stage layer bid staged =
     sbind (sread (\<lambda>c. (dget (fc_store c) (layer, bid), (layer, bid) \<in> fc_cache c))) (\<lambda>p. case p of
       (Some e, False) \<Rightarrow>
         (let n = int (nbytes (fe_k e)) + int (nbytes (fe_v e))
          in sbind (sread (\<lambda>c. fc_used c + n \<le> fc_capacity c)) (\<lambda>fits.
               if fits
               then sthen (supd (\<lambda>c. c\<lparr>fc_cache := insert (layer, bid) (fc_cache c), fc_used := fc_used c + n,
                        fc_flash_rd := fc_flash_rd c + n, fc_rd_ops := fc_rd_ops c + 1\<rparr>))
                   (sthen (fc_charge_read n) (sret (staged + 1)))
               else sret staged))
     | _ \<Rightarrow> sret staged)"

definition fc_prefetch_kv :: "int list \<Rightarrow> int \<Rightarrow> (controller, nat) meth" where
  "fc_prefetch_kv ids layer = sfor (fc_stage layer) ids 0"

section \<open>In-storage top-k attention\<close>

text \<open>
  numpy as the code uses it. \<open>np_decode\<close> reads the bytes of an array as numbers, \<open>np_promote\<close>
  gives the common type of two, \<open>np_astype\<close> converts, \<open>np_argpartition\<close> may raise for an index
  out of range.
\<close>

record numpy =
  np_decode :: "np_dtype \<Rightarrow> byte list \<Rightarrow> real list"
  np_promote :: "np_dtype \<Rightarrow> np_dtype \<Rightarrow> np_dtype"
  np_astype :: "np_dtype \<Rightarrow> tensor \<Rightarrow> tensor"
  np_argpartition :: "real list \<Rightarrow> int \<Rightarrow> nat list res"
  np_argsort :: "real list \<Rightarrow> nat list"

text \<open>A label of \<open>einsum\<close> that two operands share: equal extents, or one of them 1.\<close>

definition bdim :: "nat \<Rightarrow> nat \<Rightarrow> nat option" where
  "bdim a b = (if a = b then Some a else if a = 1 then Some b else if b = 1 then Some a else None)"

definition bidx :: "nat \<Rightarrow> nat \<Rightarrow> nat" where
  "bidx n i = (if n = 1 then 0 else i)"

text \<open>Extents \<open>(T, H)\<close> of the dot products of a query \<open>[H, D]\<close> with keys \<open>[T, H, D]\<close>.\<close>

definition dots_shape :: "tensor \<Rightarrow> tensor \<Rightarrow> (nat \<times> nat) res" where
  "dots_shape q k = (case (shape q, shape k) of
       ([qh, qd], [T, kh, kd]) \<Rightarrow>
         (case (bdim qh kh, bdim qd kd) of (Some H, Some D) \<Rightarrow> Inr (T, H) | _ \<Rightarrow> Inl ValueError)
     | _ \<Rightarrow> Inl ValueError)"

text \<open>The scaled dot product of head \<open>h\<close> with token \<open>t\<close>.\<close>

definition dot_at :: "numpy \<Rightarrow> real \<Rightarrow> tensor \<Rightarrow> tensor \<Rightarrow> nat \<Rightarrow> nat \<Rightarrow> real" where
  "dot_at np scale q k t h =
     (let qh = shape q ! 0; qd = shape q ! 1; kh = shape k ! 1; kd = shape k ! 2;
          qx = np_decode np (elem_type q) (raw q); kx = np_decode np (elem_type k) (raw k)
      in (\<Sum>d\<leftarrow>[0..<max qd kd]. qx ! (bidx qh h * qd + bidx qd d) * kx ! ((t * kh + bidx kh h) * kd + bidx kd d)) * scale)"

definition block_score :: "numpy \<Rightarrow> real \<Rightarrow> tensor \<Rightarrow> tensor \<Rightarrow> real res" where
  "block_score np scale q k = rbind (dots_shape q k) (\<lambda>(T, H).
     (case concat (map (\<lambda>t. map (dot_at np scale q k t) [0..<H]) [0..<T]) of
        [] \<Rightarrow> Inl ValueError | x # xs \<Rightarrow> Inr (fold max xs x)))"

text \<open>\<open>[H, T]\<close>, for the logits.\<close>

definition head_logits :: "numpy \<Rightarrow> real \<Rightarrow> tensor \<Rightarrow> tensor \<Rightarrow> real list list res" where
  "head_logits np scale q k = rbind (dots_shape q k) (\<lambda>(T, H).
     Inr (map (\<lambda>h. map (\<lambda>t. dot_at np scale q k t h) [0..<T]) [0..<H]))"

text \<open>\<open>np.concatenate(..., axis=-1)\<close> of matrices and \<open>np.stack(..., axis=0)\<close>.\<close>

fun hcat :: "real list list list \<Rightarrow> real list list res" where
  "hcat [] = Inl ValueError"
| "hcat [a] = Inr a"
| "hcat (a # b # xs) = (if length a \<noteq> length b then Inl ValueError else hcat (map2 (@) a b # xs))"

definition np_stack :: "numpy \<Rightarrow> tensor list \<Rightarrow> tensor res" where
  "np_stack np ts = (case ts of
       [] \<Rightarrow> Inl ValueError
     | t # us \<Rightarrow>
         if \<exists>u\<in>set us. shape u \<noteq> shape t then Inl ValueError
         else (let dt = fold (np_promote np) (map elem_type us) (elem_type t);
                   cast = (\<lambda>u. if elem_type u = dt then u else np_astype np dt u)
               in Inr \<lparr>shape = length ts # shape t, elem_type = dt, raw = concat (map (raw \<circ> cast) ts)\<rparr>))"

fun seq_res :: "'a res list \<Rightarrow> 'a list res" where
  "seq_res [] = Inr []"
| "seq_res (r # rs) = rbind r (\<lambda>x. rbind (seq_res rs) (\<lambda>xs. Inr (x # xs)))"

text \<open>A Python slice \<open>xs[i:]\<close>; \<open>xs[-0:]\<close> is all of \<open>xs\<close>.\<close>

definition slice_from :: "int \<Rightarrow> 'a list \<Rightarrow> 'a list" where
  "slice_from i xs = (if 0 \<le> i then drop (nat i) xs else drop (length xs - nat (- i)) xs)"

definition top_indices :: "numpy \<Rightarrow> int \<Rightarrow> real list \<Rightarrow> nat list res" where
  "top_indices np eff scores =
     (if eff < int (length scores)
      then rbind (np_argpartition np scores (- eff)) (\<lambda>p.
             (let t = slice_from (- eff) p
              in Inr (map (\<lambda>j. t ! j) (np_argsort np (map (\<lambda>i. - (scores ! i)) t)))))
      else Inr (np_argsort np (map uminus scores)))"

type_synonym layer_entry = "int \<times> flash_entry"

definition fc_layer_blocks :: "int \<Rightarrow> controller \<Rightarrow> layer_entry list" where
  "fc_layer_blocks layer c =
     sort_key fst (map (\<lambda>(j, e). (snd j, e)) (filter (\<lambda>(j, e). fst j = layer) (fc_store c)))"

type_synonym selection = "int list \<times> tensor \<times> real list"
type_synonym c_kernel = "tensor \<Rightarrow> layer_entry list \<Rightarrow> int \<Rightarrow> selection"

text \<open>The numpy path of the selection.\<close>

definition select_blocks :: "numpy \<Rightarrow> real \<Rightarrow> tensor \<Rightarrow> layer_entry list \<Rightarrow> int \<Rightarrow> selection res" where
  "select_blocks np scale q bs eff =
     rbind (seq_res (map (\<lambda>(bid, e). block_score np scale q (fe_k e)) bs)) (\<lambda>scores.
     rbind (top_indices np eff scores) (\<lambda>is.
     rbind (np_stack np (map (\<lambda>i. fe_v (snd (bs ! i))) is)) (\<lambda>vals.
       Inr (map (\<lambda>i. fst (bs ! i)) is, vals, map (\<lambda>i. scores ! i) is))))"

text \<open>One pass over blocks that charges flash or controller DRAM and sums the flash bytes.\<close>

definition fc_charge_block :: "int \<Rightarrow> int \<times> int \<Rightarrow> int \<Rightarrow> (controller, int) meth" where
  "fc_charge_block layer x acc = (case x of (bid, n) \<Rightarrow>
     sbind (sread (\<lambda>c. (layer, bid) \<in> fc_cache c)) (\<lambda>hit.
       if \<not> hit
       then sthen (supd (\<lambda>c. c\<lparr>fc_flash_rd := fc_flash_rd c + n, fc_rd_ops := fc_rd_ops c + 1\<rparr>)) (sret (acc + n))
       else sthen (supd (\<lambda>c. c\<lparr>fc_dram_rd := fc_dram_rd c + n\<rparr>)) (sret acc)))"

text \<open>The same for the values of the selected ids, looked up in the store.\<close>

definition fc_charge_value :: "int \<Rightarrow> int \<Rightarrow> int \<Rightarrow> (controller, int) meth" where
  "fc_charge_value layer bid acc =
     sbind (sread (\<lambda>c. dget (fc_store c) (layer, bid))) (\<lambda>e. case e of
       None \<Rightarrow> sraise KeyError
     | Some e \<Rightarrow> fc_charge_block layer (bid, int (nbytes (fe_v e))) acc)"

definition fc_logits :: "numpy \<Rightarrow> real \<Rightarrow> tensor \<Rightarrow> int \<Rightarrow> int list \<Rightarrow> nat \<Rightarrow> controller \<Rightarrow> real list list res" where
  "fc_logits np scale q layer ids heads c =
     (if ids = [] then Inr (replicate heads [])
      else rbind (seq_res (map (\<lambda>bid. case dget (fc_store c) (layer, bid) of
               None \<Rightarrow> Inl KeyError | Some e \<Rightarrow> head_logits np scale q (fe_k e)) ids)) hcat)"

text \<open>The bytes of one logit: numpy's type for query, keys and a \<open>float32\<close> scale.\<close>

definition logit_size :: "numpy \<Rightarrow> tensor \<Rightarrow> int \<Rightarrow> int list \<Rightarrow> controller \<Rightarrow> nat" where
  "logit_size np q layer ids c =
     (let dts = map (\<lambda>bid. case dget (fc_store c) (layer, bid) of
                  None \<Rightarrow> Float32 | Some e \<Rightarrow> np_promote np (np_promote np (elem_type q) (elem_type (fe_k e))) Float32) ids
      in itemsize (case dts of [] \<Rightarrow> Float32 | d # ds \<Rightarrow> fold (np_promote np) ds d))"

datatype topk_answer =
    TopkEmpty
  | TopkHits (hit_ids: "int list") (hit_values: tensor) (hit_logits: "real list list") (hit_scores: "real list")

text \<open>
  \<open>in_storage_topk_attention\<close>; \<open>kern\<close> is the native kernel when one is set. An empty layer
  answers with three empty arrays (\<open>TopkEmpty\<close>), any other with four.
\<close>

definition fc_topk ::
    "numpy \<Rightarrow> c_kernel option \<Rightarrow> tensor \<Rightarrow> int \<Rightarrow> int \<Rightarrow> (controller, topk_answer) meth" where
  "fc_topk np kern q layer top_k =
     sbind (sread (fc_layer_blocks layer)) (\<lambda>bs.
     if bs = [] then sret TopkEmpty
     else (let n = int (length bs); eff = min top_k n
           in sthen (supd (\<lambda>c. c\<lparr>fc_h2d := fc_h2d c + int (nbytes q)\<rparr>))
             (sthen (fc_charge_pcie (int (nbytes q)))
             (sbind (sfor (fc_charge_block layer) (map (\<lambda>(bid, e). (bid, int (nbytes (fe_k e)))) bs) 0) (\<lambda>kb.
              sthen (if 0 < kb then fc_charge_read kb else sret ())
             (sbind (slift (dim_of 0 (fe_k (snd (hd bs))))) (\<lambda>tpb.
              sbind (slift (dim_of 0 q)) (\<lambda>heads.
              sbind (slift (dim_of 1 q)) (\<lambda>hdim.
             (let macs = n * int tpb * int heads * int hdim; scale = 1 / sqrt (real hdim)
              in sthen (supd (\<lambda>c. c\<lparr>fc_macs := fc_macs c + macs\<rparr>))
                (sthen (supd (\<lambda>c. c\<lparr>fc_time := fc_time c + of_int macs / (19.2 * 1000)\<rparr>))
                (sbind (slift (case kern of Some kf \<Rightarrow> Inr (kf q bs eff) | None \<Rightarrow> select_blocks np scale q bs eff))
                   (\<lambda>(ids, vals, scores).
                 sbind (sfor (fc_charge_value layer) ids 0) (\<lambda>vb.
                 sthen (if 0 < vb then fc_charge_read vb else sret ())
                (sbind (sread (fc_logits np scale q layer ids heads)) (\<lambda>lr.
                 sbind (slift lr) (\<lambda>logits.
                 sbind (sread (logit_size np q layer ids)) (\<lambda>ls.
                (let out = int (nbytes vals) + int (ls * sum_list (map length logits)) + 4 * int (length scores) +
                           4 * int (length ids)
                 in sthen (supd (\<lambda>c. c\<lparr>fc_d2h := fc_d2h c + out\<rparr>))
                   (sthen (fc_charge_pcie out)
                   (sthen (supd (\<lambda>c. c\<lparr>fc_log := fc_log c @ [FcTopk layer n eff out (fc_time c)]\<rparr>))
                    (sret (TopkHits ids vals logits scores)))))))))))))))))))))))"

section \<open>Telemetry\<close>

record fc_telemetry =
  ct_h2d :: int
  ct_d2h :: int
  ct_pcie :: int
  ct_flash_rd :: int
  ct_flash_wr :: int
  ct_dram_rd :: int
  ct_dram_wr :: int
  ct_macs :: int
  ct_rd_ops :: int
  ct_wr_ops :: int
  ct_time :: real
  ct_stored :: nat
  ct_energy :: energy_report

definition fc_get_telemetry :: "controller \<Rightarrow> fc_telemetry" where
  "fc_get_telemetry c = \<lparr>ct_h2d = fc_h2d c, ct_d2h = fc_d2h c, ct_pcie = fc_h2d c + fc_d2h c,
     ct_flash_rd = fc_flash_rd c, ct_flash_wr = fc_flash_wr c, ct_dram_rd = fc_dram_rd c, ct_dram_wr = fc_dram_wr c,
     ct_macs = fc_macs c, ct_rd_ops = fc_rd_ops c, ct_wr_ops = fc_wr_ops c, ct_time = fc_time c,
     ct_stored = length (fc_store c),
     ct_energy = calculate_energy_joules (fc_energy c) (fc_d2h c) (fc_h2d c + fc_d2h c) (fc_dram_rd c + fc_dram_wr c)
        (fc_flash_rd c) (fc_flash_wr c) (fc_macs c)\<rparr>"

definition fc_reset_telemetry :: "controller \<Rightarrow> controller" where
  "fc_reset_telemetry c = c\<lparr>fc_h2d := 0, fc_d2h := 0, fc_flash_rd := 0, fc_flash_wr := 0, fc_dram_rd := 0,
     fc_dram_wr := 0, fc_macs := 0, fc_rd_ops := 0, fc_wr_ops := 0, fc_time := 0, fc_log := []\<rparr>"

section \<open>What the controller keeps\<close>

definition fc_lookup :: "controller \<Rightarrow> int \<times> int \<Rightarrow> (tensor \<times> tensor) option" where
  "fc_lookup c = (\<lambda>j. map_option (\<lambda>e. (fe_k e, fe_v e)) (dget (fc_store c) j))"

definition flash_timing_ok :: "flash_timing \<Rightarrow> bool" where
  "flash_timing_ok t \<longleftrightarrow> 0 < ft_page_size t \<and> 0 < ft_channels t \<and> 0 < ft_pcie_gbps t"

text \<open>Cached blocks are stored ones, and the cache does not outgrow the controller's memory.\<close>

definition fc_inv :: "controller \<Rightarrow> bool" where
  "fc_inv c \<longleftrightarrow> flash_timing_ok (fc_timing c) \<and> fc_cache c \<subseteq> dom (fc_lookup c) \<and> fc_used c \<le> fc_capacity c"

definition fc_same :: "(int \<times> int \<Rightarrow> (tensor \<times> tensor) option) \<Rightarrow> controller \<Rightarrow> bool" where
  "fc_same L c \<longleftrightarrow> fc_lookup c = L \<and> flash_timing_ok (fc_timing c) \<and> fc_cache c \<subseteq> dom L \<and>
     fc_used c \<le> fc_capacity c"

lemmas fc_keep_defs = fc_same_def fc_lookup_def

lemma fc_same_inv: "fc_same L c \<longleftrightarrow> fc_inv c \<and> fc_lookup c = L"
  by (auto simp: fc_same_def fc_inv_def)

lemma flash_rounds_total: "flash_timing_ok t \<Longrightarrow> \<exists>r. flash_rounds t n = Inr r"
  by (auto simp: flash_rounds_def flash_timing_ok_def Let_def min_def)

lemma pcie_time_total: "flash_timing_ok t \<Longrightarrow> \<exists>u. calculate_pcie_transfer_time_us t n = Inr u"
  by (simp add: calculate_pcie_transfer_time_us_def flash_timing_ok_def Let_def)

lemma read_time_total: "flash_timing_ok t \<Longrightarrow> \<exists>u. calculate_flash_read_time_us t n = Inr u"
  using flash_rounds_total [of t n] by (auto simp: calculate_flash_read_time_us_def)

lemma write_time_total: "flash_timing_ok t \<Longrightarrow> \<exists>u. calculate_flash_write_time_us t n = Inr u"
  using flash_rounds_total [of t n] by (auto simp: calculate_flash_write_time_us_def)

lemma charge_pcie_keeps [inv_intros]: "keeps (fc_same L) (fc_charge_pcie n)"
  unfolding fc_charge_pcie_def by (intro inv_intros) (simp add: fc_keep_defs)

lemma charge_flash_keeps [inv_intros]: "keeps (fc_same L) (fc_charge_read n)"
  unfolding fc_charge_read_def by (intro inv_intros) (simp add: fc_keep_defs)

lemma charge_pcie_run: "flash_timing_ok (fc_timing c) \<Longrightarrow> \<exists>u. fc_charge_pcie n c = (Inr (), c\<lparr>fc_time := u\<rparr>)"
  using pcie_time_total [of "fc_timing c" n] by (auto simp: fc_charge_pcie_def)

lemma charge_read_run: "flash_timing_ok (fc_timing c) \<Longrightarrow> \<exists>u. fc_charge_read n c = (Inr (), c\<lparr>fc_time := u\<rparr>)"
  using read_time_total [of "fc_timing c" n] by (auto simp: fc_charge_read_def)

lemma charge_block_keeps [inv_intros]: "keeps (fc_same L) (fc_charge_block layer x acc)"
  unfolding fc_charge_block_def by (cases x) (auto intro!: inv_intros simp: fc_keep_defs)

lemma charge_value_keeps [inv_intros]: "keeps (fc_same L) (fc_charge_value layer bid acc)"
  unfolding fc_charge_value_def by (auto intro!: inv_intros split: option.split)

lemma fc_topk_keeps: "keeps (fc_same L) (fc_topk np kern q layer k)"
  unfolding fc_topk_def Let_def
  by (intro inv_intros allI; (auto intro!: inv_intros simp: fc_keep_defs split: prod.split option.split)?)

lemma fc_stage_keeps [inv_intros]: "keeps (fc_same L) (fc_stage layer bid n)"
proof -
  have "fc_same L (snd (fc_stage layer bid n c))" if same: "fc_same L c" for c
  proof (cases "\<exists>e. dget (fc_store c) (layer, bid) = Some e \<and> (layer, bid) \<notin> fc_cache c \<and>
      fc_used c + (int (nbytes (fe_k e)) + int (nbytes (fe_v e))) \<le> fc_capacity c")
    case True
    then obtain e where e: "dget (fc_store c) (layer, bid) = Some e" "(layer, bid) \<notin> fc_cache c"
      "fc_used c + (int (nbytes (fe_k e)) + int (nbytes (fe_v e))) \<le> fc_capacity c" by blast
    let ?n = "int (nbytes (fe_k e)) + int (nbytes (fe_v e))"
    let ?c1 = "c\<lparr>fc_cache := insert (layer, bid) (fc_cache c), fc_used := fc_used c + ?n,
        fc_flash_rd := fc_flash_rd c + ?n, fc_rd_ops := fc_rd_ops c + 1\<rparr>"
    have "fc_same L ?c1" using same e by (auto simp: fc_keep_defs)
    moreover obtain u where u: "fc_charge_read ?n ?c1 = (Inr (), ?c1\<lparr>fc_time := u\<rparr>)"
      using charge_read_run [of ?c1 ?n] same by (auto simp: fc_keep_defs)
    ultimately show ?thesis using e by (simp add: fc_stage_def Let_def meth_run u) (auto simp: fc_keep_defs)
  next
    case False
    then show ?thesis using same
      by (cases "dget (fc_store c) (layer, bid)"; cases "(layer, bid) \<in> fc_cache c") (auto simp: fc_stage_def Let_def)
  qed
  then show ?thesis by (simp add: keeps_def)
qed

lemma fc_prefetch_keeps: "keeps (fc_same L) (fc_prefetch_kv ids layer)"
  unfolding fc_prefetch_kv_def by (intro inv_intros)

lemma fc_sense_run:
  assumes "flash_timing_ok (fc_timing c)"
  obtains c' where "fc_sense j n c = (Inr (), c')" "fc_store c' = fc_store c" "fc_cache c' = fc_cache c"
    "fc_used c' = fc_used c" "fc_capacity c' = fc_capacity c" "fc_timing c' = fc_timing c"
proof (cases "j \<in> fc_cache c")
  case False
  let ?c1 = "c\<lparr>fc_flash_rd := fc_flash_rd c + n, fc_rd_ops := fc_rd_ops c + 1\<rparr>"
  obtain u where u: "fc_charge_read n ?c1 = (Inr (), ?c1\<lparr>fc_time := u\<rparr>)"
    using charge_read_run [of ?c1 n] assms by auto
  show ?thesis using False
    by (intro that [of "?c1\<lparr>fc_time := u, fc_dram_wr := fc_dram_wr c + n\<rparr>"]) (simp_all add: fc_sense_def meth_run u)
next
  case True
  then show ?thesis by (intro that [of "c\<lparr>fc_dram_rd := fc_dram_rd c + n\<rparr>"]) (simp_all add: fc_sense_def)
qed

lemma fc_load_ok:
  assumes "fc_inv c"
  shows "case fc_lookup c (layer, bid) of
      None \<Rightarrow> fc_load_kv bid layer c = (Inl KeyError, c)
    | Some kv \<Rightarrow> \<exists>c'. fc_load_kv bid layer c = (Inr kv, c') \<and> fc_same (fc_lookup c) c'"
proof (cases "dget (fc_store c) (layer, bid)")
  case None
  then show ?thesis by (simp add: fc_lookup_def fc_load_kv_def)
next
  case (Some e)
  let ?n = "int (nbytes (fe_k e)) + int (nbytes (fe_v e))"
  have t: "flash_timing_ok (fc_timing c)" using assms by (simp add: fc_inv_def)
  obtain c1 where c1: "fc_sense (layer, bid) ?n c = (Inr (), c1)" "fc_store c1 = fc_store c"
    "fc_cache c1 = fc_cache c" "fc_used c1 = fc_used c" "fc_capacity c1 = fc_capacity c" "fc_timing c1 = fc_timing c"
    using fc_sense_run [OF t] .
  let ?c2 = "c1\<lparr>fc_d2h := fc_d2h c1 + ?n\<rparr>"
  obtain u where u: "fc_charge_pcie ?n ?c2 = (Inr (), ?c2\<lparr>fc_time := u\<rparr>)"
    using charge_pcie_run [of ?c2 ?n] c1(6) t by auto
  let ?e = "e\<lparr>fe_meta := (fe_meta e)\<lparr>km_access_count := km_access_count (fe_meta e) + 1\<rparr>\<rparr>"
  let ?c' = "?c2\<lparr>fc_time := u, fc_store := dset (layer, bid) ?e (fc_store c1), fc_log := fc_log c1 @ [FcLoad layer bid ?n u]\<rparr>"
  have run: "fc_load_kv bid layer c = (Inr (fe_k e, fe_v e), ?c')"
    using Some by (simp add: fc_load_kv_def Let_def meth_run c1(1) u)
  have "fc_lookup ?c' = fc_lookup c"
    using Some c1(2) by (auto simp: fc_lookup_def fun_eq_iff dict_simps)
  moreover have "fc_lookup c (layer, bid) = Some (fe_k e, fe_v e)" using Some by (simp add: fc_lookup_def)
  ultimately show ?thesis using run assms c1 by (simp add: fc_same_inv fc_inv_def)
qed

lemma fc_store_ok:
  assumes "fc_inv c" "md \<noteq> None \<or> 3 \<le> length (shape k)"
  shows "\<exists>c'. fc_store_kv bid layer k v md c = (Inr True, c') \<and> fc_inv c' \<and>
    fc_lookup c' = (fc_lookup c)((layer, bid) \<mapsto> (k, v))"
proof -
  let ?n = "int (nbytes k) + int (nbytes v)"
  have t: "flash_timing_ok (fc_timing c)" using assms by (simp add: fc_inv_def)
  obtain pu wu where u: "calculate_pcie_transfer_time_us (fc_timing c) ?n = Inr pu"
    "calculate_flash_write_time_us (fc_timing c) ?n = Inr wu"
    using pcie_time_total [OF t] write_time_total [OF t] by blast
  have "3 \<le> length (shape k) \<Longrightarrow> 0 < length (shape k) \<and> 1 < length (shape k) \<and> 2 < length (shape k)" by linarith
  then obtain m where m: "(case md of Some m \<Rightarrow> Inr m | None \<Rightarrow> default_meta bid layer k) = Inr m"
    using assms(2) by (cases md) (auto simp: default_meta_def dim_of_def simp del: length_greater_0_conv)
  let ?c' = "c\<lparr>fc_h2d := fc_h2d c + ?n, fc_flash_wr := fc_flash_wr c + ?n, fc_wr_ops := fc_wr_ops c + 1,
      fc_time := fc_time c + (pu + wu), fc_store := dset (layer, bid) \<lparr>fe_k = k, fe_v = v, fe_meta = m\<rparr> (fc_store c),
      fc_log := fc_log c @ [FcStore layer bid ?n (fc_time c + (pu + wu))]\<rparr>"
  have run: "fc_store_kv bid layer k v md c = (Inr True, ?c')"
    using u m by (simp add: fc_store_kv_def Let_def)
  have "fc_lookup ?c' = (fc_lookup c)((layer, bid) \<mapsto> (k, v))"
    by (auto simp: fc_lookup_def fun_eq_iff dict_simps)
  with run assms show ?thesis by (auto simp: fc_inv_def)
qed

lemma fc_evict_ok:
  assumes "fc_inv c"
  shows "fc_evict_kv bid layer c = (Inr (dmem (layer, bid) (fc_store c)), snd (fc_evict_kv bid layer c)) \<and>
    fc_inv (snd (fc_evict_kv bid layer c)) \<and>
    fc_lookup (snd (fc_evict_kv bid layer c)) = (fc_lookup c)((layer, bid) := None)"
proof -
  have "fc_lookup (c\<lparr>fc_store := dpop (layer, bid) (fc_store c), fc_cache := fc_cache c - {(layer, bid)}\<rparr>) =
      (fc_lookup c)((layer, bid) := None)"
    by (auto simp: fc_lookup_def fun_eq_iff dict_simps)
  moreover have "\<not> dmem (layer, bid) (fc_store c) \<Longrightarrow> fc_lookup c (layer, bid) = None"
    by (simp add: dmem_def fc_lookup_def)
  ultimately show ?thesis using assms by (auto simp: fc_evict_kv_def fc_inv_def)
qed

section \<open>The controller is a key-value store\<close>

datatype fc_query =
    FLoad int int
  | FPrefetch "int list" int
  | FTopk numpy "c_kernel option" tensor int int
  | FReset

fun fc_touch :: "fc_query \<Rightarrow> controller \<Rightarrow> controller" where
  "fc_touch (FLoad bid layer) c = snd (fc_load_kv bid layer c)"
| "fc_touch (FPrefetch ids layer) c = snd (fc_prefetch_kv ids layer c)"
| "fc_touch (FTopk np kern q layer k) c = snd (fc_topk np kern q layer k c)"
| "fc_touch FReset c = fc_reset_telemetry c"

fun fc_put :: "int \<times> int \<Rightarrow> tensor \<times> tensor \<Rightarrow> controller \<Rightarrow> controller" where
  "fc_put (layer, bid) (k, v) c = snd (fc_store_kv bid layer k v None c)"

fun fc_del :: "int \<times> int \<Rightarrow> controller \<Rightarrow> controller" where
  "fc_del (layer, bid) c = snd (fc_evict_kv bid layer c)"

definition fc_put_ok :: "tensor \<times> tensor \<Rightarrow> bool" where
  "fc_put_ok kv \<longleftrightarrow> 3 \<le> length (shape (fst kv))"

lemma fc_touch_same:
  assumes "fc_inv c"
  shows "fc_same (fc_lookup c) (fc_touch a c)"
proof -
  have c: "fc_same (fc_lookup c) c" using assms by (simp add: fc_same_inv)
  show ?thesis
  proof (cases a)
    case (FLoad bid layer)
    from fc_load_ok [OF assms, where layer = layer and bid = bid] c show ?thesis by (auto simp: FLoad split: option.splits)
  next
    case (FPrefetch ids layer)
    with fc_prefetch_keeps c show ?thesis by (simp add: keeps_def)
  next
    case (FTopk np kern q layer k)
    with fc_topk_keeps c show ?thesis by (simp add: keeps_def)
  next
    case FReset
    with c show ?thesis by (simp add: fc_reset_telemetry_def fc_keep_defs)
  qed
qed

interpretation fc: kv_store fc_lookup id fc_put fc_del fc_touch fc_inv fc_put_ok
proof (unfold_locales, goal_cases)
  case (1 s v k)
  with fc_store_ok [of s None "fst v" "snd k" "fst k" "snd v"] show ?case
    by (cases k, cases v) (auto simp: fc_put_ok_def)
next
  case (2 s v k)
  with fc_store_ok [of s None "fst v" "snd k" "fst k" "snd v"] show ?case
    by (cases k, cases v) (auto simp: fc_put_ok_def)
next
  case (3 s k)
  then show ?case using fc_evict_ok [of s "snd k" "fst k"] by (cases k) simp
next
  case (4 s k)
  then show ?case using fc_evict_ok [of s "snd k" "fst k"] by (cases k) simp
next
  case (5 s c)
  then show ?case using fc_touch_same by (simp add: fc_same_inv)
next
  case (6 s c)
  then show ?case using fc_touch_same by (simp add: fc_same_inv)
qed

section \<open>Properties\<close>

lemma new_controller_inv: "flash_timing_ok t \<Longrightarrow> 0 \<le> mb \<Longrightarrow> fc_inv (new_controller mb t e)"
  by (simp add: fc_inv_def new_controller_def)

text \<open>C22: The controller is a key-value store: after any sequence of stores of arrays with three axes,
  loads, prefetches, top-k queries (with any native kernel), telemetry resets and evictions
  on a fresh controller, \<open>load_kv\<close> returns exactly the last tensors stored under layer and id,
  and raises \<open>KeyError\<close> when there are none.\<close>

theorem controller_refines_map:
  assumes "flash_timing_ok t" "0 \<le> mb" "\<forall>a\<in>set ops. kv_op_ok fc_put_ok a"
  shows "fst (fc_load_kv bid layer (fold (kv_exec fc_put fc_del fc_touch) ops (new_controller mb t e))) =
    (case fold (map_op id) ops (\<lambda>_. None) (layer, bid) of None \<Rightarrow> Inl KeyError | Some kv \<Rightarrow> Inr kv)"
proof -
  have "fc_lookup (new_controller mb t e) = (\<lambda>_. None)" by (simp add: fc_lookup_def new_controller_def)
  with fc.run_refines [OF new_controller_inv [OF assms(1,2)] assms(3), of e]
    fc_load_ok [where layer = layer and bid = bid]
  show ?thesis by (force split: option.splits)
qed

definition cube :: "byte \<Rightarrow> tensor" where
  "cube x = \<lparr>shape = [1, 1, 2], elem_type = Int8, raw = [x, 7]\<rparr>"

lemma default_flash_timing_ok: "flash_timing_ok default_flash_timing"
  by (simp add: flash_timing_ok_def default_flash_timing_def)

lemma controller_refines_map_witness:
  "fst (fc_load_kv 5 0 (fold (kv_exec fc_put fc_del fc_touch)
     [Put (0, 5) (cube 1, cube 2), Touch (FPrefetch [5] 0), Put (0, 6) (cube 3, cube 3), Del (0, 6)]
     (new_controller 1024 default_flash_timing default_energy))) = Inr (cube 1, cube 2)"
  by (subst controller_refines_map [OF default_flash_timing_ok]) (simp_all add: fc_put_ok_def cube_def)

text \<open>C23: The controller DRAM is never overcommitted: after any such sequence the accounted bytes do
  not exceed the capacity, and every block marked as cached is stored.\<close>

theorem controller_dram_bounded:
  assumes "flash_timing_ok t" "0 \<le> mb" "\<forall>a\<in>set ops. kv_op_ok fc_put_ok a"
    and "c = fold (kv_exec fc_put fc_del fc_touch) ops (new_controller mb t e)"
  shows "fc_used c \<le> fc_capacity c \<and> (\<forall>j\<in>fc_cache c. fc_lookup c j \<noteq> None)"
  using fc.run_refines [OF new_controller_inv [OF assms(1,2)] assms(3), of e]
  by (auto simp: fc_inv_def assms(4))

lemma controller_dram_bounded_witness:
  "fc_used (fold (kv_exec fc_put fc_del fc_touch) [Put (0, 5) (cube 1, cube 2), Touch (FPrefetch [5] 0)]
     (new_controller 1024 default_flash_timing default_energy)) \<le>
   fc_capacity (fold (kv_exec fc_put fc_del fc_touch) [Put (0, 5) (cube 1, cube 2), Touch (FPrefetch [5] 0)]
     (new_controller 1024 default_flash_timing default_energy))"
  using controller_dram_bounded [OF default_flash_timing_ok, of 1024
      "[Put (0, 5) (cube 1, cube 2), Touch (FPrefetch [5] 0)]", OF _ _ refl]
  by (simp add: fc_put_ok_def cube_def)

text \<open>Evicting a prefetched block does not give its controller DRAM back: the accounted bytes stay,
  and a block that needs them is refused although the cache is empty.\<close>

theorem evicted_block_keeps_dram:
  assumes "fc_inv c" "(layer, bid) \<in> fc_cache c" "fc_cache c = {(layer, bid)}"
    and "fc_lookup c (layer, bid') = Some (k, v)" "bid' \<noteq> bid"
    and "fc_capacity c < fc_used c + (int (nbytes k) + int (nbytes v))"
    and "fc_evict_kv bid layer c = (r, c')"
  shows "r = Inr True \<and> fc_cache c' = {} \<and> fc_used c' = fc_used c \<and>
    fst (fc_prefetch_kv [bid'] layer c') = Inr 0"
proof -
  have m: "dmem (layer, bid) (fc_store c)" using assms(1,2) by (auto simp: fc_inv_def fc_lookup_def dmem_def)
  obtain e where e: "dget (fc_store c) (layer, bid') = Some e" "fe_k e = k" "fe_v e = v"
    using assms(4) by (auto simp: fc_lookup_def)
  have c': "r = Inr True"
    "c' = c\<lparr>fc_store := dpop (layer, bid) (fc_store c), fc_cache := fc_cache c - {(layer, bid)}\<rparr>"
    using assms(7) m by (simp_all add: fc_evict_kv_def)
  have "fst (fc_prefetch_kv [bid'] layer c') = Inr 0"
    using e assms(3,5,6) by (simp add: fc_prefetch_kv_def fc_stage_def c' Let_def meth_run dict_simps)
  with c' assms(3) show ?thesis by simp
qed

definition full_controller :: controller where
  "full_controller = (new_controller 0 default_flash_timing default_energy)\<lparr>fc_capacity := 4, fc_used := 4, fc_cache := {(0, 1)},
     fc_store := [((0, 1), \<lparr>fe_k = cube 1, fe_v = cube 1, fe_meta = \<lparr>km_block = 1, km_layer = 0, km_token_start = 0,
        km_token_count = 1, km_heads = 1, km_head_dim = 2, km_dtype = Int8, km_access_count = 0\<rparr>\<rparr>),
       ((0, 2), \<lparr>fe_k = cube 2, fe_v = cube 2, fe_meta = \<lparr>km_block = 2, km_layer = 0, km_token_start = 0,
        km_token_count = 1, km_heads = 1, km_head_dim = 2, km_dtype = Int8, km_access_count = 0\<rparr>\<rparr>)]\<rparr>"

lemma evicted_block_keeps_dram_witness:
  "fc_used (snd (fc_evict_kv 1 0 full_controller)) = 4 \<and>
   fst (fc_prefetch_kv [2] 0 (snd (fc_evict_kv 1 0 full_controller))) = Inr 0"
  using evicted_block_keeps_dram [of full_controller 0 1 2 "cube 2" "cube 2" "fst (fc_evict_kv 1 0 full_controller)"
      "snd (fc_evict_kv 1 0 full_controller)"] default_flash_timing_ok
  by (simp add: full_controller_def fc_inv_def fc_lookup_def new_controller_def cube_def nbytes_def dom_def)

end
