(* ===== verification/Tiering.thy ===== *)
theory Tiering
  imports InferenceBackend FlashController
begin

text \<open>
  Hot/cold tiering of paged KV blocks between host memory and storage:
  \<open>person1_kv_engine/tiering\<close> (\<open>kv_block.py\<close>, \<open>hot_cold_classifier.py\<close>,
  \<open>tiered_kv_manager.py\<close>). The pool keeps block objects by id; the per-layer lists of the
  code hold references to the same objects, here ids. The storage is any object with
  \<open>store_kv\<close> and \<open>load_kv\<close>, stated as a locale and interpreted on the simulated controller of
  the first subsystem and on the inference backend.
\<close>

section \<open>Rows of tensors\<close>

definition row_bytes :: "tensor \<Rightarrow> nat" where
  "row_bytes t = itemsize (elem_type t) * prod_list (tl (shape t))"

definition row_count :: "tensor \<Rightarrow> nat" where
  "row_count t = hd (shape t)"

text \<open>\<open>t[a:b]\<close>, \<open>t[np.newaxis, ...]\<close> and \<open>np.concatenate([t, u], axis=0)\<close> for arrays of the same
  row shape and type.\<close>

definition slice_rows :: "nat \<Rightarrow> nat \<Rightarrow> tensor \<Rightarrow> tensor" where
  "slice_rows a b t = t\<lparr>shape := (min b (row_count t) - a) # tl (shape t),
     raw := take ((b - a) * row_bytes t) (drop (a * row_bytes t) (raw t))\<rparr>"

definition new_axis :: "tensor \<Rightarrow> tensor" where
  "new_axis t = t\<lparr>shape := 1 # shape t\<rparr>"

definition append_rows :: "tensor \<Rightarrow> tensor \<Rightarrow> tensor" where
  "append_rows t u = t\<lparr>shape := (row_count t + row_count u) # tl (shape t), raw := raw t @ raw u\<rparr>"

text \<open>Otherwise \<open>np.concatenate\<close> raises \<open>ValueError\<close> (for different shapes) or converts (for
  different types; not modelled).\<close>

definition same_rows :: "tensor \<Rightarrow> tensor \<Rightarrow> bool" where
  "same_rows t u \<longleftrightarrow> shape t \<noteq> [] \<and> length (shape t) = length (shape u) \<and> tl (shape t) = tl (shape u)"

section \<open>Blocks, pool and policy\<close>

record tier_block =
  tb_id :: int
  tb_layer :: int
  tb_start :: nat
  tb_count :: nat
  tb_pinned :: bool
  tb_in_ram :: bool
  tb_tier :: string
  tb_k :: "tensor option"
  tb_v :: "tensor option"

definition tb_total_size_bytes :: "tier_block \<Rightarrow> nat" where
  "tb_total_size_bytes b = (case (tb_k b, tb_v b) of
      (Some k, Some v) \<Rightarrow> nbytes k + nbytes v
    | _ \<Rightarrow> tb_count b * 4 * 32 * 4 * 2)"

record block_pool =
  bp_next_id :: int
  bp_blocks :: "(int, tier_block) dict"
  bp_layers :: "(int, int list) dict"

definition new_pool :: block_pool where
  "new_pool = \<lparr>bp_next_id = 0, bp_blocks = [], bp_layers = []\<rparr>"

definition layer_ids :: "int \<Rightarrow> block_pool \<Rightarrow> int list" where
  "layer_ids layer p = (case dget (bp_layers p) layer of None \<Rightarrow> [] | Some is \<Rightarrow> is)"

definition pool_allocate ::
    "int \<Rightarrow> nat \<Rightarrow> nat \<Rightarrow> tensor option \<Rightarrow> tensor option \<Rightarrow> bool \<Rightarrow> block_pool \<Rightarrow> int \<times> block_pool" where
  "pool_allocate layer st cnt k v pinned p =
     (let i = bp_next_id p;
          b = \<lparr>tb_id = i, tb_layer = layer, tb_start = st, tb_count = cnt, tb_pinned = pinned,
               tb_in_ram = True, tb_tier = ''HOT_RAM'', tb_k = k, tb_v = v\<rparr>
      in (i, p\<lparr>bp_next_id := i + 1, bp_blocks := dset i b (bp_blocks p),
               bp_layers := dset layer (layer_ids layer p @ [i]) (bp_layers p)\<rparr>))"

definition pool_get_block :: "int \<Rightarrow> block_pool \<Rightarrow> tier_block option" where
  "pool_get_block i p = dget (bp_blocks p) i"

definition pool_all_blocks :: "block_pool \<Rightarrow> tier_block list" where
  "pool_all_blocks p = dvalues (bp_blocks p)"

text \<open>The blocks a layer's list refers to.\<close>

definition pool_layer_blocks :: "int \<Rightarrow> block_pool \<Rightarrow> tier_block list" where
  "pool_layer_blocks layer p = map (\<lambda>i. the (dget (bp_blocks p) i)) (layer_ids layer p)"

record tier_policy =
  sink_tokens :: int
  sliding_window_tokens :: int
  tp_tokens_per_block :: nat

definition is_hot :: "tier_policy \<Rightarrow> tier_block \<Rightarrow> int \<Rightarrow> bool" where
  "is_hot pol b tot \<longleftrightarrow>
     (if int (tb_start b) < sink_tokens pol then True
      else (let window_start = max 0 (tot - sliding_window_tokens pol);
                token_end = int (tb_start b) + int (tb_count b)
            in window_start < token_end))"

section \<open>The manager\<close>

record 's tier_mgr =
  tm_policy :: tier_policy
  tm_heads :: nat
  tm_dim :: nat
  tm_dtype :: np_dtype
  tm_pool :: block_pool
  tm_store :: 's

definition new_manager :: "tier_policy \<Rightarrow> nat \<Rightarrow> nat \<Rightarrow> np_dtype \<Rightarrow> 's \<Rightarrow> 's tier_mgr" where
  "new_manager pol h d dt s = \<lparr>tm_policy = pol, tm_heads = h, tm_dim = d, tm_dtype = dt,
     tm_pool = new_pool, tm_store = s\<rparr>"

type_synonym 's store_fn = "int \<Rightarrow> int \<Rightarrow> tensor \<Rightarrow> tensor \<Rightarrow> 's \<Rightarrow> unit res \<times> 's"
type_synonym 's load_fn = "int \<Rightarrow> int \<Rightarrow> 's \<Rightarrow> (tensor \<times> tensor) res \<times> 's"

definition put_block :: "tier_block \<Rightarrow> 's tier_mgr \<Rightarrow> 's tier_mgr" where
  "put_block b m = m\<lparr>tm_pool := (tm_pool m)\<lparr>bp_blocks := dset (tb_id b) b (bp_blocks (tm_pool m))\<rparr>\<rparr>"

text \<open>Offloading one block: its tensors go to the storage and are dropped from memory.\<close>

definition offload_block :: "'s store_fn \<Rightarrow> int \<Rightarrow> tier_block \<Rightarrow> 's tier_mgr \<Rightarrow> unit res \<times> 's tier_mgr" where
  "offload_block store layer b m =
     (case (tb_k b, tb_v b) of
        (Some k, Some v) \<Rightarrow>
          (case store (tb_id b) layer k v (tm_store m) of
             (Inl e, s) \<Rightarrow> (Inl e, m\<lparr>tm_store := s\<rparr>)
           | (Inr _, s) \<Rightarrow>
               (Inr (), put_block (b\<lparr>tb_in_ram := False, tb_tier := ''COLD_SSD'', tb_k := None, tb_v := None\<rparr>)
                          (m\<lparr>tm_store := s\<rparr>)))
      | _ \<Rightarrow> (Inl TypeError, m))"

text \<open>
  The eviction loop over the blocks of a layer, with the condition of the caller. Every id in a
  layer's list has its object in the pool; the \<open>None\<close> branch is never taken.
\<close>

fun offload_loop ::
    "'s store_fn \<Rightarrow> (tier_block \<Rightarrow> bool) \<Rightarrow> int \<Rightarrow> int list \<Rightarrow> 's tier_mgr \<Rightarrow> unit res \<times> 's tier_mgr" where
  "offload_loop store cold layer [] m = (Inr (), m)"
| "offload_loop store cold layer (i # is) m =
     (case pool_get_block i (tm_pool m) of
        None \<Rightarrow> offload_loop store cold layer is m
      | Some b \<Rightarrow>
          if cold b
          then (case offload_block store layer b m of
                  (Inl e, m1) \<Rightarrow> (Inl e, m1)
                | (Inr _, m1) \<Rightarrow> offload_loop store cold layer is m1)
          else offload_loop store cold layer is m)"

text \<open>\<open>prefill_sequence\<close>: slice into blocks, then offload the cold ones.\<close>

fun prefill_blocks :: "int \<Rightarrow> tensor \<Rightarrow> tensor \<Rightarrow> nat list \<Rightarrow> 's tier_mgr \<Rightarrow> int list \<times> 's tier_mgr" where
  "prefill_blocks layer k v [] m = ([], m)"
| "prefill_blocks layer k v (j # js) m =
     (let tpb = tp_tokens_per_block (tm_policy m); t0 = j * tpb; t1 = min (t0 + tpb) (row_count k);
          (i, p) = pool_allocate layer t0 (t1 - t0) (Some (slice_rows t0 t1 k)) (Some (slice_rows t0 t1 v))
                     (int t0 < sink_tokens (tm_policy m)) (tm_pool m);
          (is, m') = prefill_blocks layer k v js (m\<lparr>tm_pool := p\<rparr>)
      in (i # is, m'))"

definition prefill_sequence :: "'s store_fn \<Rightarrow> int \<Rightarrow> tensor \<Rightarrow> tensor \<Rightarrow> 's tier_mgr \<Rightarrow> unit res \<times> 's tier_mgr" where
  "prefill_sequence store layer k v m =
     (let tpb = tp_tokens_per_block (tm_policy m); n = row_count k
      in if shape k = [] then (Inl IndexError, m)
         else if tpb = 0 then (Inl ZeroDivisionError, m)
         else if shape v = [] \<and> 0 < n then (Inl IndexError, m)
         else (let (is, m1) = prefill_blocks layer k v [0..<(n + tpb - 1) div tpb] m
               in offload_loop store (\<lambda>b. \<not> is_hot (tm_policy m) b (int n)) layer is m1))"

definition total_tokens :: "int \<Rightarrow> block_pool \<Rightarrow> nat" where
  "total_tokens layer p = sum_list (map tb_count (pool_layer_blocks layer p))"

text \<open>
  The first half of \<open>append_token\<close>: extend the last block or open a new one. Keys and values are
  concatenated one after the other, so an error in the second leaves the block with one key
  more than values.
\<close>

definition append_to_pool :: "int \<Rightarrow> tensor \<Rightarrow> tensor \<Rightarrow> 's tier_mgr \<Rightarrow> unit res \<times> 's tier_mgr" where
  "append_to_pool layer kt vt m =
     (let p = tm_pool m; bs = pool_layer_blocks layer p; k = new_axis kt; v = new_axis vt
      in if bs \<noteq> [] \<and> tb_count (last bs) < tp_tokens_per_block (tm_policy m)
         then (let b = last bs
               in case (tb_k b, tb_v b) of
                    (Some bk, Some bv) \<Rightarrow>
                      if \<not> same_rows bk k then (Inl ValueError, m)
                      else if \<not> same_rows bv v then (Inl ValueError, put_block (b\<lparr>tb_k := Some (append_rows bk k)\<rparr>) m)
                      else (Inr (), put_block (b\<lparr>tb_k := Some (append_rows bk k), tb_v := Some (append_rows bv v),
                                                tb_count := tb_count b + 1\<rparr>) m)
                  | _ \<Rightarrow> (Inr (), put_block (b\<lparr>tb_k := Some k, tb_v := Some v, tb_count := tb_count b + 1\<rparr>) m))
         else (Inr (), m\<lparr>tm_pool := snd (pool_allocate layer (total_tokens layer p) 1 (Some k) (Some v) False p)\<rparr>))"

definition append_token :: "'s store_fn \<Rightarrow> int \<Rightarrow> tensor \<Rightarrow> tensor \<Rightarrow> 's tier_mgr \<Rightarrow> unit res \<times> 's tier_mgr" where
  "append_token store layer kt vt m =
     (case append_to_pool layer kt vt m of
        (Inl e, m1) \<Rightarrow> (Inl e, m1)
      | (Inr _, m1) \<Rightarrow>
          (let tot = int (total_tokens layer (tm_pool m1))
           in offload_loop store (\<lambda>b. tb_in_ram b \<and> \<not> tb_pinned b \<and> \<not> is_hot (tm_policy m) b tot) layer
                (layer_ids layer (tm_pool m1)) m1))"

definition fetch_cold_block :: "'s load_fn \<Rightarrow> int \<Rightarrow> int \<Rightarrow> 's tier_mgr \<Rightarrow> tier_block res \<times> 's tier_mgr" where
  "fetch_cold_block load bid layer m =
     (case pool_get_block bid (tm_pool m) of
        None \<Rightarrow> (Inl ValueError, m)
      | Some b \<Rightarrow>
          if tb_in_ram b then (Inr b, m)
          else (case load bid layer (tm_store m) of
                  (Inl e, s) \<Rightarrow> (Inl e, m\<lparr>tm_store := s\<rparr>)
                | (Inr (k, v), s) \<Rightarrow>
                    (let b' = b\<lparr>tb_k := Some k, tb_v := Some v, tb_in_ram := True, tb_tier := ''HOT_RAM''\<rparr>
                     in (Inr b', put_block b' (m\<lparr>tm_store := s\<rparr>)))))"

definition resident :: "tier_block \<Rightarrow> bool" where
  "resident b \<longleftrightarrow> tb_in_ram b \<and> tb_k b \<noteq> None \<and> tb_v b \<noteq> None"

definition concat_rows :: "tensor list \<Rightarrow> tensor res" where
  "concat_rows ts = (if ts = [] \<or> (\<exists>t\<in>set ts. \<not> same_rows t (hd ts)) then Inl ValueError
     else Inr (foldl append_rows (hd ts) (tl ts)))"

definition get_hot_kv :: "int \<Rightarrow> 's tier_mgr \<Rightarrow> (tensor \<times> tensor \<times> nat list) res" where
  "get_hot_kv layer m =
     (let bs = filter resident (pool_layer_blocks layer (tm_pool m));
          empty = zeros [0, tm_heads m, tm_dim m] (tm_dtype m)
      in if bs = [] then Inr (empty, empty, [])
         else rbind (concat_rows (map (\<lambda>b. the (tb_k b)) bs)) (\<lambda>k.
              rbind (concat_rows (map (\<lambda>b. the (tb_v b)) bs)) (\<lambda>v.
                Inr (k, v, concat (map (\<lambda>b. [tb_start b..<tb_start b + tb_count b]) bs)))))"

definition get_cold_blocks :: "int \<Rightarrow> 's tier_mgr \<Rightarrow> tier_block list" where
  "get_cold_blocks layer m = filter (\<lambda>b. \<not> tb_in_ram b) (pool_layer_blocks layer (tm_pool m))"

definition host_ram_bytes :: "'s tier_mgr \<Rightarrow> nat" where
  "host_ram_bytes m = sum_list (map (\<lambda>b. nbytes (the (tb_k b)) + nbytes (the (tb_v b)))
     (filter resident (pool_all_blocks (tm_pool m))))"

definition offloaded_bytes :: "'s tier_mgr \<Rightarrow> nat" where
  "offloaded_bytes m = sum_list (map (\<lambda>b. 2 * tb_count b * tm_heads m * tm_dim m * itemsize (tm_dtype m))
     (filter (\<lambda>b. \<not> tb_in_ram b) (pool_all_blocks (tm_pool m))))"

section \<open>Invariant\<close>

definition row_ok :: "nat list \<Rightarrow> np_dtype \<Rightarrow> nat \<Rightarrow> tensor \<Rightarrow> bool" where
  "row_ok rs dt n t \<longleftrightarrow> shape t = n # rs \<and> elem_type t = dt \<and> length (raw t) = n * (itemsize dt * prod_list rs)"

lemma row_ok_tensor: "row_ok rs dt n t \<Longrightarrow> tensor_ok t"
  by (simp add: row_ok_def tensor_ok_def)

lemma row_ok_append: "row_ok rs dt n t \<Longrightarrow> row_ok rs dt m u \<Longrightarrow> row_ok rs dt (n + m) (append_rows t u)"
  by (simp add: row_ok_def append_rows_def row_count_def distrib_right)

lemma row_ok_new_axis: "shape t = rs \<Longrightarrow> elem_type t = dt \<Longrightarrow> tensor_ok t \<Longrightarrow> row_ok rs dt 1 (new_axis t)"
  by (simp add: row_ok_def new_axis_def tensor_ok_def)

lemma row_ok_slice:
  assumes "row_ok rs dt n t" "a \<le> b" "b \<le> n"
  shows "row_ok rs dt (b - a) (slice_rows a b t)"
proof -
  let ?r = "itemsize dt * prod_list rs"
  have "b * ?r - a * ?r \<le> n * ?r - a * ?r" using assms(3) by (intro diff_le_mono mult_le_mono1)
  then have "(b - a) * ?r \<le> n * ?r - a * ?r" by (simp only: diff_mult_distrib)
  then show ?thesis using assms
    by (simp add: row_ok_def slice_rows_def row_count_def row_bytes_def min_def)
qed

text \<open>The two tensors of a block, wherever they are; \<open>L\<close> is what the storage holds.\<close>

type_synonym kv_map = "int \<times> int \<Rightarrow> (tensor \<times> tensor) option"

definition block_kv :: "kv_map \<Rightarrow> tier_block \<Rightarrow> tensor \<times> tensor" where
  "block_kv L b = (if tb_in_ram b then (the (tb_k b), the (tb_v b)) else the (L (tb_layer b, tb_id b)))"

definition block_ok :: "kv_map \<Rightarrow> nat list \<Rightarrow> np_dtype \<Rightarrow> tier_block \<Rightarrow> bool" where
  "block_ok L rs dt b \<longleftrightarrow>
     (if tb_in_ram b then tb_k b \<noteq> None \<and> tb_v b \<noteq> None else L (tb_layer b, tb_id b) \<noteq> None) \<and>
     row_ok rs dt (tb_count b) (fst (block_kv L b)) \<and> row_ok rs dt (tb_count b) (snd (block_kv L b))"

fun contiguous :: "nat \<Rightarrow> tier_block list \<Rightarrow> bool" where
  "contiguous t [] = True"
| "contiguous t (b # bs) = (tb_start b = t \<and> contiguous (t + tb_count b) bs)"

definition layer_ok :: "kv_map \<Rightarrow> nat list \<Rightarrow> np_dtype \<Rightarrow> nat \<Rightarrow> int \<Rightarrow> block_pool \<Rightarrow> bool" where
  "layer_ok L rs dt tpb layer p \<longleftrightarrow>
     distinct (layer_ids layer p) \<and>
     (\<forall>i\<in>set (layer_ids layer p). i < bp_next_id p \<and>
        (\<exists>b. dget (bp_blocks p) i = Some b \<and> tb_id b = i \<and> tb_layer b = layer \<and> block_ok L rs dt b)) \<and>
     contiguous 0 (pool_layer_blocks layer p) \<and>
     (pool_layer_blocks layer p \<noteq> [] \<longrightarrow> tb_count (last (pool_layer_blocks layer p)) < tpb \<longrightarrow>
        tb_in_ram (last (pool_layer_blocks layer p)))"

definition layer_keys :: "kv_map \<Rightarrow> int \<Rightarrow> block_pool \<Rightarrow> byte list" where
  "layer_keys L layer p = concat (map (\<lambda>b. raw (fst (block_kv L b))) (pool_layer_blocks layer p))"

definition layer_values :: "kv_map \<Rightarrow> int \<Rightarrow> block_pool \<Rightarrow> byte list" where
  "layer_values L layer p = concat (map (\<lambda>b. raw (snd (block_kv L b))) (pool_layer_blocks layer p))"

lemma contiguous_append:
  "contiguous t (bs @ cs) \<longleftrightarrow> contiguous t bs \<and> contiguous (t + sum_list (map tb_count bs)) cs"
  by (induction bs arbitrary: t) (simp_all add: add.assoc)

lemma contiguous_last:
  "contiguous t bs \<Longrightarrow> bs \<noteq> [] \<Longrightarrow> tb_start (last bs) + tb_count (last bs) = t + sum_list (map tb_count bs)"
  by (induction bs arbitrary: t) auto

lemma contiguous_map:
  "(\<And>b. b \<in> set bs \<Longrightarrow> tb_start (f b) = tb_start b \<and> tb_count (f b) = tb_count b) \<Longrightarrow>
   contiguous t (map f bs) = contiguous t bs"
  by (induction bs arbitrary: t) auto

section \<open>Replacing one block\<close>

definition set_block :: "tier_block \<Rightarrow> block_pool \<Rightarrow> block_pool" where
  "set_block b p = p\<lparr>bp_blocks := dset (tb_id b) b (bp_blocks p)\<rparr>"

lemma put_block_pool: "put_block b m = m\<lparr>tm_pool := set_block b (tm_pool m)\<rparr>"
  by (simp add: put_block_def set_block_def)

lemma set_block_simps [simp]:
  "layer_ids layer (set_block b p) = layer_ids layer p"
  "bp_next_id (set_block b p) = bp_next_id p"
  "dget (bp_blocks (set_block b p)) i = (if i = tb_id b then Some b else dget (bp_blocks p) i)"
  by (simp_all add: set_block_def layer_ids_def dict_simps)

lemma set_block_layer:
  assumes "\<forall>i\<in>set (layer_ids layer p). \<exists>c. dget (bp_blocks p) i = Some c \<and> tb_id c = i"
  shows "pool_layer_blocks layer (set_block b p) =
    map (\<lambda>c. if tb_id c = tb_id b then b else c) (pool_layer_blocks layer p)"
  using assms by (auto simp: pool_layer_blocks_def)

text \<open>A block that changes place, not content, keeps its layer in order and its bytes.\<close>

lemma set_block_moved:
  assumes all: "\<And>l. layer_ok L rs dt tpb l p" and b: "dget (bp_blocks p) i = Some b" "i \<in> set (layer_ids layer p)"
    and b': "tb_id b' = i" "tb_layer b' = layer" "tb_start b' = tb_start b" "tb_count b' = tb_count b"
      "block_ok L' rs dt b'" "block_kv L' b' = block_kv L b"
    and ram: "tb_in_ram b' \<or> int (tb_start b) + int (tb_count b) < int (total_tokens layer p)"
    and L': "\<And>j. j \<noteq> (layer, i) \<Longrightarrow> L' j = L j"
  shows "layer_ok L' rs dt tpb l (set_block b' p) \<and> layer_keys L' l (set_block b' p) = layer_keys L l p \<and>
    layer_values L' l (set_block b' p) = layer_values L l p \<and>
    total_tokens l (set_block b' p) = total_tokens l p"
proof -
  have ids: "\<forall>j\<in>set (layer_ids l p). j < bp_next_id p \<and>
      (\<exists>c. dget (bp_blocks p) j = Some c \<and> tb_id c = j \<and> tb_layer c = l \<and> block_ok L rs dt c)"
    and dist: "distinct (layer_ids l p)" and cont: "contiguous 0 (pool_layer_blocks l p)"
    and lastc: "pool_layer_blocks l p \<noteq> [] \<longrightarrow> tb_count (last (pool_layer_blocks l p)) < tpb \<longrightarrow>
        tb_in_ram (last (pool_layer_blocks l p))" for l
    using all [of l] by (auto simp: layer_ok_def)
  obtain c where c: "dget (bp_blocks p) i = Some c" "tb_id c = i" "tb_layer c = layer"
    using ids [of layer] b(2) by blast
  with b have b_id: "tb_id b = i" "tb_layer b = layer" by auto
  let ?f = "\<lambda>c. if tb_id c = tb_id b' then b' else c"
  have map: "pool_layer_blocks l (set_block b' p) = map ?f (pool_layer_blocks l p)"
    by (rule set_block_layer) (use ids in blast)
  have mem: "c \<in> set (pool_layer_blocks l p) \<Longrightarrow> tb_id c = i \<Longrightarrow> c = b" for c
    using ids [of l] b(1) by (force simp: pool_layer_blocks_def)
  have mem2: "c \<in> set (pool_layer_blocks l p) \<Longrightarrow> tb_layer c = l \<and> tb_id c \<in> set (layer_ids l p)" for c
    using ids [of l] by (force simp: pool_layer_blocks_def)
  have same: "block_kv L' (?f c) = block_kv L c" "tb_start (?f c) = tb_start c" "tb_count (?f c) = tb_count c"
    if "c \<in> set (pool_layer_blocks l p)" for c
    using mem [OF that] mem2 [OF that] b' L' [of "(l, tb_id c)"] b_id
    by (auto simp: block_kv_def)
  have keys: "layer_keys L' l (set_block b' p) = layer_keys L l p"
    "layer_values L' l (set_block b' p) = layer_values L l p"
    unfolding layer_keys_def layer_values_def map
    using same by (auto simp: comp_def intro!: arg_cong [of _ _ concat])
  have tot: "total_tokens l (set_block b' p) = total_tokens l p"
    unfolding total_tokens_def map using same(3) by (auto simp: comp_def intro!: arg_cong [of _ _ sum_list])
  have "contiguous 0 (pool_layer_blocks l (set_block b' p))"
    unfolding map using cont same by (subst contiguous_map) auto
  moreover have "\<forall>j\<in>set (layer_ids l p). j < bp_next_id p \<and>
      (\<exists>c. dget (bp_blocks (set_block b' p)) j = Some c \<and> tb_id c = j \<and> tb_layer c = l \<and> block_ok L' rs dt c)"
  proof
    fix j assume j: "j \<in> set (layer_ids l p)"
    with ids obtain c where c: "j < bp_next_id p" "dget (bp_blocks p) j = Some c" "tb_id c = j" "tb_layer c = l"
      "block_ok L rs dt c" by blast
    show "j < bp_next_id p \<and>
      (\<exists>c. dget (bp_blocks (set_block b' p)) j = Some c \<and> tb_id c = j \<and> tb_layer c = l \<and> block_ok L' rs dt c)"
    proof (cases "j = i")
      case True
      with c b b' b_id show ?thesis by auto
    next
      case False
      with c L' [of "(l, j)"] b'(1) show ?thesis by (auto simp: block_ok_def block_kv_def)
    qed
  qed
  moreover have "tb_in_ram (last (pool_layer_blocks l (set_block b' p)))"
    if ne: "pool_layer_blocks l (set_block b' p) \<noteq> []" and part: "tb_count (last (pool_layer_blocks l (set_block b' p))) < tpb"
  proof -
    have ne': "pool_layer_blocks l p \<noteq> []" using ne map by simp
    let ?c = "last (pool_layer_blocks l p)"
    have cl: "?c \<in> set (pool_layer_blocks l p)" using ne' by simp
    have lm: "last (pool_layer_blocks l (set_block b' p)) = ?f ?c" unfolding map using ne' by (simp add: last_map)
    show ?thesis
    proof (cases "tb_id ?c = i")
      case False
      then show ?thesis using lastc ne' part lm b'(1) by simp
    next
      case True
      with mem cl have "?c = b" by blast
      moreover have "l = layer" using mem2 [OF cl] True b_id \<open>?c = b\<close> by simp
      moreover have "tb_start ?c + tb_count ?c = total_tokens l p"
        using contiguous_last [OF cont ne'] by (simp add: total_tokens_def)
      ultimately show ?thesis using ram lm b'(1) True by auto
    qed
  qed
  ultimately show ?thesis using keys tot dist by (simp add: layer_ok_def)
qed

section \<open>The storage interface\<close>

text \<open>
  What tiering relies on: a stored block, of arrays with at least three axes, is found again under its layer and id, with exactly
  the tensors stored, until it is stored anew; storing and loading touch no other block.
\<close>

locale tier_store =
  fixes store :: "'s store_fn" and load :: "'s load_fn"
    and lookup :: "'s \<Rightarrow> int \<times> int \<Rightarrow> (tensor \<times> tensor) option" and sinv :: "'s \<Rightarrow> bool"
  assumes store_law: "sinv s \<Longrightarrow> tensor_ok k \<Longrightarrow> tensor_ok v \<Longrightarrow> 3 \<le> length (shape k) \<Longrightarrow>
      \<exists>s'. store i layer k v s = (Inr (), s') \<and> sinv s' \<and> lookup s' = (lookup s)((layer, i) \<mapsto> (k, v))"
    and load_law: "sinv s \<Longrightarrow> lookup s (layer, i) = Some (k, v) \<Longrightarrow>
      \<exists>s'. load i layer s = (Inr (k, v), s') \<and> sinv s' \<and> lookup s' = lookup s"

text \<open>A manager in order: every layer is, against what its storage holds.\<close>

definition mgr_ok ::
    "('s \<Rightarrow> kv_map) \<Rightarrow> ('s \<Rightarrow> bool) \<Rightarrow> nat list \<Rightarrow> np_dtype \<Rightarrow> 's tier_mgr \<Rightarrow> bool" where
  "mgr_ok lookup sinv rs dt m \<longleftrightarrow> sinv (tm_store m) \<and> 2 \<le> length rs \<and>
     (\<forall>l. layer_ok (lookup (tm_store m)) rs dt (tp_tokens_per_block (tm_policy m)) l (tm_pool m))"

definition mgr_keys :: "('s \<Rightarrow> kv_map) \<Rightarrow> int \<Rightarrow> 's tier_mgr \<Rightarrow> byte list" where
  "mgr_keys lookup l m = layer_keys (lookup (tm_store m)) l (tm_pool m)"

definition mgr_values :: "('s \<Rightarrow> kv_map) \<Rightarrow> int \<Rightarrow> 's tier_mgr \<Rightarrow> byte list" where
  "mgr_values lookup l m = layer_values (lookup (tm_store m)) l (tm_pool m)"

text \<open>Same contents, same bookkeeping, possibly elsewhere.\<close>

definition mgr_same :: "('s \<Rightarrow> kv_map) \<Rightarrow> 's tier_mgr \<Rightarrow> 's tier_mgr \<Rightarrow> bool" where
  "mgr_same lookup m m' \<longleftrightarrow> tm_policy m' = tm_policy m \<and>
     (\<forall>l. mgr_keys lookup l m' = mgr_keys lookup l m \<and> mgr_values lookup l m' = mgr_values lookup l m \<and>
        total_tokens l (tm_pool m') = total_tokens l (tm_pool m) \<and>
        layer_ids l (tm_pool m') = layer_ids l (tm_pool m))"

lemma mgr_same_refl [simp]: "mgr_same lookup m m"
  by (simp add: mgr_same_def)

lemma mgr_same_trans: "mgr_same lookup a b \<Longrightarrow> mgr_same lookup b c \<Longrightarrow> mgr_same lookup a c"
  by (simp add: mgr_same_def)

lemma put_block_same:
  assumes "2 \<le> length rs" "\<And>l. layer_ok (lookup s') rs dt tpb l (set_block b' p) \<and>
      layer_keys (lookup s') l (set_block b' p) = layer_keys (lookup s) l p \<and>
      layer_values (lookup s') l (set_block b' p) = layer_values (lookup s) l p \<and>
      total_tokens l (set_block b' p) = total_tokens l p"
    and "sinv s'" "tm_pool m = p" "tm_store m = s" "tpb = tp_tokens_per_block (tm_policy m)"
  shows "mgr_ok lookup sinv rs dt (put_block b' (m\<lparr>tm_store := s'\<rparr>)) \<and>
    mgr_same lookup m (put_block b' (m\<lparr>tm_store := s'\<rparr>))"
  using assms by (simp add: mgr_ok_def mgr_same_def put_block_pool mgr_keys_def mgr_values_def)

context tier_store
begin

lemma offload_block_ok:
  assumes ok: "mgr_ok lookup sinv rs dt m" and b: "dget (bp_blocks (tm_pool m)) i = Some b"
    "i \<in> set (layer_ids layer (tm_pool m))" "tb_in_ram b"
    "int (tb_start b) + int (tb_count b) < int (total_tokens layer (tm_pool m))"
  shows "\<exists>m'. offload_block store layer b m = (Inr (), m') \<and> mgr_ok lookup sinv rs dt m' \<and>
    mgr_same lookup m m' \<and> (\<forall>j. j \<noteq> i \<longrightarrow> dget (bp_blocks (tm_pool m')) j = dget (bp_blocks (tm_pool m)) j)"
proof -
  let ?p = "tm_pool m" and ?L = "lookup (tm_store m)" and ?tpb = "tp_tokens_per_block (tm_policy m)"
  have lay: "\<And>l. layer_ok ?L rs dt ?tpb l ?p" and si: "sinv (tm_store m)" and rs: "2 \<le> length rs"
    using ok by (auto simp: mgr_ok_def)
  from lay [of layer] b(2) obtain c where c: "dget (bp_blocks ?p) i = Some c" "tb_id c = i" "tb_layer c = layer"
    "block_ok ?L rs dt c" by (auto simp: layer_ok_def)
  with b(1) have bb: "tb_id b = i" "tb_layer b = layer" "block_ok ?L rs dt b" by auto
  then obtain k v where kv: "tb_k b = Some k" "tb_v b = Some v"
    and rows: "row_ok rs dt (tb_count b) k" "row_ok rs dt (tb_count b) v"
    using b(3) by (auto simp: block_ok_def block_kv_def)
  obtain s' where s': "store i layer k v (tm_store m) = (Inr (), s')" "sinv s'"
    "lookup s' = ?L((layer, i) \<mapsto> (k, v))"
    using store_law [OF si row_ok_tensor [OF rows(1)] row_ok_tensor [OF rows(2)], of i layer] rows(1) rs
    by (auto simp: row_ok_def)
  let ?b' = "b\<lparr>tb_in_ram := False, tb_tier := ''COLD_SSD'', tb_k := None, tb_v := None\<rparr>"
  have kvb: "block_kv (lookup s') ?b' = block_kv ?L b"
    using kv bb b(3) s'(3) by (simp add: block_kv_def)
  have okb: "block_ok (lookup s') rs dt ?b'" using kvb bb s'(3) kv rows b(3) by (simp add: block_ok_def block_kv_def)
  have moved: "layer_ok (lookup s') rs dt ?tpb l (set_block ?b' ?p) \<and>
      layer_keys (lookup s') l (set_block ?b' ?p) = layer_keys ?L l ?p \<and>
      layer_values (lookup s') l (set_block ?b' ?p) = layer_values ?L l ?p \<and>
      total_tokens l (set_block ?b' ?p) = total_tokens l ?p" for l
    by (rule set_block_moved [OF lay b(1,2)]) (use bb okb kvb b(4) s'(3) in auto)
  have off: "offload_block store layer b m = (Inr (), put_block ?b' (m\<lparr>tm_store := s'\<rparr>))"
    using kv s'(1) bb(1) by (simp add: offload_block_def)
  have "mgr_ok lookup sinv rs dt (put_block ?b' (m\<lparr>tm_store := s'\<rparr>)) \<and>
      mgr_same lookup m (put_block ?b' (m\<lparr>tm_store := s'\<rparr>))"
    using moved s'(2) rs by (intro put_block_same [where p = ?p and s = "tm_store m" and tpb = ?tpb]) simp_all
  with off bb(1) show ?thesis by (intro exI [of _ "put_block ?b' (m\<lparr>tm_store := s'\<rparr>)"]) (simp add: put_block_pool)
qed

lemma offload_loop_ok:
  assumes "mgr_ok lookup sinv rs dt m" "distinct is" "set is \<subseteq> set (layer_ids layer (tm_pool m))"
    and "\<forall>i\<in>set is. \<forall>b. dget (bp_blocks (tm_pool m)) i = Some b \<longrightarrow> cold b \<longrightarrow>
      tb_in_ram b \<and> int (tb_start b) + int (tb_count b) < int (total_tokens layer (tm_pool m))"
  shows "\<exists>m'. offload_loop store cold layer is m = (Inr (), m') \<and> mgr_ok lookup sinv rs dt m' \<and> mgr_same lookup m m'"
  using assms
proof (induction "is" arbitrary: m)
  case Nil
  then show ?case by simp
next
  case (Cons i "is")
  have "i \<in> set (layer_ids layer (tm_pool m))" using Cons.prems(3) by simp
  then obtain b where b: "dget (bp_blocks (tm_pool m)) i = Some b"
    using Cons.prems(1) by (auto simp: mgr_ok_def layer_ok_def)
  show ?case
  proof (cases "cold b")
    case False
    have "\<exists>m'. offload_loop store cold layer is m = (Inr (), m') \<and> mgr_ok lookup sinv rs dt m' \<and> mgr_same lookup m m'"
      by (rule Cons.IH [OF Cons.prems(1)]) (use Cons.prems in auto)
    with False b show ?thesis by (simp add: pool_get_block_def)
  next
    case True
    then have "tb_in_ram b" "int (tb_start b) + int (tb_count b) < int (total_tokens layer (tm_pool m))"
      using Cons.prems(4) b by auto
    from offload_block_ok [OF Cons.prems(1) b _ this] Cons.prems(3) obtain m1 where
      o: "offload_block store layer b m = (Inr (), m1)" "mgr_ok lookup sinv rs dt m1" "mgr_same lookup m m1"
      and frame: "\<forall>j. j \<noteq> i \<longrightarrow> dget (bp_blocks (tm_pool m1)) j = dget (bp_blocks (tm_pool m)) j" by auto
    have same: "layer_ids layer (tm_pool m1) = layer_ids layer (tm_pool m)"
      "total_tokens layer (tm_pool m1) = total_tokens layer (tm_pool m)" using o(3) by (auto simp: mgr_same_def)
    have "\<exists>m'. offload_loop store cold layer is m1 = (Inr (), m') \<and> mgr_ok lookup sinv rs dt m' \<and> mgr_same lookup m1 m'"
    proof (rule Cons.IH [OF o(2)])
      show "\<forall>j\<in>set is. \<forall>b. dget (bp_blocks (tm_pool m1)) j = Some b \<longrightarrow> cold b \<longrightarrow>
          tb_in_ram b \<and> int (tb_start b) + int (tb_count b) < int (total_tokens layer (tm_pool m1))"
        using Cons.prems(2,4) frame same(2) by auto
    qed (use Cons.prems same in auto)
    with True b o mgr_same_trans show ?thesis by (auto simp: pool_get_block_def)
  qed
qed

lemma fetch_cold_ok:
  assumes ok: "mgr_ok lookup sinv rs dt m" and i: "i \<in> set (layer_ids layer (tm_pool m))"
  shows "\<exists>b m'. fetch_cold_block load i layer m = (Inr b, m') \<and> mgr_ok lookup sinv rs dt m' \<and> mgr_same lookup m m' \<and>
    tb_in_ram b \<and> tb_id b = i"
proof -
  let ?p = "tm_pool m" and ?L = "lookup (tm_store m)" and ?tpb = "tp_tokens_per_block (tm_policy m)"
  have lay: "\<And>l. layer_ok ?L rs dt ?tpb l ?p" and si: "sinv (tm_store m)" and rs: "2 \<le> length rs"
    using ok by (auto simp: mgr_ok_def)
  from lay [of layer] i obtain b where b: "dget (bp_blocks ?p) i = Some b" "tb_id b = i" "tb_layer b = layer"
    "block_ok ?L rs dt b" by (auto simp: layer_ok_def)
  show ?thesis
  proof (cases "tb_in_ram b")
    case True
    with b ok show ?thesis by (simp add: fetch_cold_block_def pool_get_block_def)
  next
    case False
    then obtain k v where kv: "?L (layer, i) = Some (k, v)" using b by (auto simp: block_ok_def)
    obtain s' where s': "load i layer (tm_store m) = (Inr (k, v), s')" "sinv s'" "lookup s' = ?L"
      using load_law [OF si kv] by blast
    let ?b' = "b\<lparr>tb_k := Some k, tb_v := Some v, tb_in_ram := True, tb_tier := ''HOT_RAM''\<rparr>"
    have kvb: "block_kv (lookup s') ?b' = block_kv ?L b" using kv b False by (simp add: block_kv_def)
    have okb: "block_ok (lookup s') rs dt ?b'" using kvb b(4) by (simp add: block_ok_def)
    have moved: "layer_ok (lookup s') rs dt ?tpb l (set_block ?b' ?p) \<and>
        layer_keys (lookup s') l (set_block ?b' ?p) = layer_keys ?L l ?p \<and>
        layer_values (lookup s') l (set_block ?b' ?p) = layer_values ?L l ?p \<and>
        total_tokens l (set_block ?b' ?p) = total_tokens l ?p" for l
      by (rule set_block_moved [OF lay b(1) i]) (use b okb kvb s'(3) in auto)
    have "mgr_ok lookup sinv rs dt (put_block ?b' (m\<lparr>tm_store := s'\<rparr>)) \<and>
        mgr_same lookup m (put_block ?b' (m\<lparr>tm_store := s'\<rparr>))"
      using moved s'(2) rs by (intro put_block_same [where p = ?p and s = "tm_store m" and tpb = ?tpb]) simp_all
    then show ?thesis using False b s'(1) by (simp add: fetch_cold_block_def pool_get_block_def Let_def)
  qed
qed

end

section \<open>Adding rows\<close>

definition fresh_block :: "int \<Rightarrow> nat \<Rightarrow> nat \<Rightarrow> tensor \<Rightarrow> tensor \<Rightarrow> bool \<Rightarrow> block_pool \<Rightarrow> tier_block" where
  "fresh_block layer st cnt k v pin p = \<lparr>tb_id = bp_next_id p, tb_layer = layer, tb_start = st, tb_count = cnt,
     tb_pinned = pin, tb_in_ram = True, tb_tier = ''HOT_RAM'', tb_k = Some k, tb_v = Some v\<rparr>"

lemma pool_allocate_simps:
  "fst (pool_allocate layer st cnt (Some k) (Some v) pin p) = bp_next_id p"
  "layer_ids l (snd (pool_allocate layer st cnt (Some k) (Some v) pin p)) =
     (if l = layer then layer_ids layer p @ [bp_next_id p] else layer_ids l p)"
  "bp_next_id (snd (pool_allocate layer st cnt (Some k) (Some v) pin p)) = bp_next_id p + 1"
  "dget (bp_blocks (snd (pool_allocate layer st cnt (Some k) (Some v) pin p))) i =
     (if i = bp_next_id p then Some (fresh_block layer st cnt k v pin p) else dget (bp_blocks p) i)"
  by (simp_all add: pool_allocate_def Let_def layer_ids_def dict_simps fresh_block_def)

lemma pool_allocate_ok:
  assumes lay: "\<And>l. layer_ok L rs dt tpb l p" and rows: "row_ok rs dt cnt k" "row_ok rs dt cnt v"
    and st: "st = total_tokens layer p" and q: "q = snd (pool_allocate layer st cnt (Some k) (Some v) pin p)"
  shows "layer_ok L rs dt tpb l q" and "pool_layer_blocks l q =
      (if l = layer then pool_layer_blocks layer p @ [fresh_block layer st cnt k v pin p] else pool_layer_blocks l p)"
    and "layer_keys L l q = (if l = layer then layer_keys L layer p @ raw k else layer_keys L l p)"
    and "layer_values L l q = (if l = layer then layer_values L layer p @ raw v else layer_values L l p)"
    and "total_tokens l q = (if l = layer then total_tokens layer p + cnt else total_tokens l p)"
proof -
  let ?b = "fresh_block layer st cnt k v pin p"
  have ids: "\<forall>i\<in>set (layer_ids l p). i < bp_next_id p \<and>
      (\<exists>c. dget (bp_blocks p) i = Some c \<and> tb_id c = i \<and> tb_layer c = l \<and> block_ok L rs dt c)"
    and dist: "distinct (layer_ids l p)" and cont: "contiguous 0 (pool_layer_blocks l p)" for l
    using lay [of l] by (auto simp: layer_ok_def)
  have pl: "pool_layer_blocks l q = (if l = layer then pool_layer_blocks layer p @ [?b] else pool_layer_blocks l p)" for l
    using ids by (auto simp: pool_layer_blocks_def q pool_allocate_simps)
  then show "pool_layer_blocks l q = (if l = layer then pool_layer_blocks layer p @ [?b] else pool_layer_blocks l p)" .
  have kv: "block_kv L ?b = (k, v)" by (simp add: block_kv_def fresh_block_def)
  have bok: "block_ok L rs dt ?b" using rows kv by (simp add: block_ok_def) (simp add: fresh_block_def)
  show "layer_keys L l q = (if l = layer then layer_keys L layer p @ raw k else layer_keys L l p)"
    "layer_values L l q = (if l = layer then layer_values L layer p @ raw v else layer_values L l p)"
    by (simp_all add: layer_keys_def layer_values_def pl kv)
  show "total_tokens l q = (if l = layer then total_tokens layer p + cnt else total_tokens l p)"
    by (simp add: total_tokens_def pl) (simp add: fresh_block_def)
  have "contiguous 0 (pool_layer_blocks l q)"
    using cont st by (simp add: pl contiguous_append total_tokens_def) (simp add: fresh_block_def)
  moreover have "\<forall>i\<in>set (layer_ids l q). i < bp_next_id q \<and>
      (\<exists>c. dget (bp_blocks q) i = Some c \<and> tb_id c = i \<and> tb_layer c = l \<and> block_ok L rs dt c)"
    using ids [of l] bok by (auto simp: q pool_allocate_simps) (auto simp: fresh_block_def)
  moreover have "distinct (layer_ids l q)" using dist ids by (auto simp: q pool_allocate_simps)
  moreover have "pool_layer_blocks l q \<noteq> [] \<longrightarrow> tb_count (last (pool_layer_blocks l q)) < tpb \<longrightarrow>
      tb_in_ram (last (pool_layer_blocks l q))"
    using lay [of l] by (simp add: pl layer_ok_def) (simp add: fresh_block_def)
  ultimately show "layer_ok L rs dt tpb l q" by (simp add: layer_ok_def)
qed

text \<open>Extending the last block of a layer by one row.\<close>

lemma extend_last_ok:
  assumes lay: "\<And>l. layer_ok L rs dt tpb l p" and ne: "pool_layer_blocks layer p \<noteq> []"
    and b: "b = last (pool_layer_blocks layer p)" "tb_in_ram b" "tb_k b = Some bk" "tb_v b = Some bv"
    and rows: "row_ok rs dt 1 k" "row_ok rs dt 1 v"
    and b': "b' = b\<lparr>tb_k := Some (append_rows bk k), tb_v := Some (append_rows bv v), tb_count := tb_count b + 1\<rparr>"
  shows "layer_ok L rs dt tpb l (set_block b' p)"
    and "layer_keys L l (set_block b' p) = (if l = layer then layer_keys L layer p @ raw k else layer_keys L l p)"
    and "layer_values L l (set_block b' p) = (if l = layer then layer_values L layer p @ raw v else layer_values L l p)"
    and "total_tokens l (set_block b' p) = (if l = layer then total_tokens layer p + 1 else total_tokens l p)"
proof -
  have ids: "\<forall>i\<in>set (layer_ids l p). i < bp_next_id p \<and>
      (\<exists>c. dget (bp_blocks p) i = Some c \<and> tb_id c = i \<and> tb_layer c = l \<and> block_ok L rs dt c)"
    and dist: "distinct (layer_ids l p)" and cont: "contiguous 0 (pool_layer_blocks l p)" for l
    using lay [of l] by (auto simp: layer_ok_def)
  obtain js i where js: "layer_ids layer p = js @ [i]"
    using ne by (cases "layer_ids layer p" rule: rev_cases) (auto simp: pool_layer_blocks_def)
  let ?bs = "map (\<lambda>j. the (dget (bp_blocks p) j)) js"
  have pl: "pool_layer_blocks layer p = ?bs @ [b]" using b(1) js by (simp add: pool_layer_blocks_def)
  have bi: "dget (bp_blocks p) i = Some b" "tb_id b = i" "tb_layer b = layer" "block_ok L rs dt b"
    using ids [of layer] js pl by (auto simp: pool_layer_blocks_def)
  have nin: "i \<notin> set js" using dist [of layer] js by auto
  have other: "i \<notin> set (layer_ids l p)" if "l \<noteq> layer" for l
    using that ids [of l] bi by auto
  have pl': "pool_layer_blocks l (set_block b' p) = (if l = layer then ?bs @ [b'] else pool_layer_blocks l p)" for l
    using js nin other [of l] bi(2) b' by (auto simp: pool_layer_blocks_def)
  have r: "row_ok rs dt (tb_count b) bk" "row_ok rs dt (tb_count b) bv"
    using bi(4) b(2-4) by (auto simp: block_ok_def block_kv_def)
  have kv: "block_kv L b' = (append_rows bk k, append_rows bv v)" "block_kv L b = (bk, bv)"
    using b(2-4) b' by (simp_all add: block_kv_def)
  have bok: "block_ok L rs dt b'"
    using kv(1) row_ok_append [OF r(1) rows(1)] row_ok_append [OF r(2) rows(2)] b b' by (simp add: block_ok_def)
  show "layer_keys L l (set_block b' p) = (if l = layer then layer_keys L layer p @ raw k else layer_keys L l p)"
    "layer_values L l (set_block b' p) = (if l = layer then layer_values L layer p @ raw v else layer_values L l p)"
    by (simp_all add: layer_keys_def layer_values_def pl pl' kv append_rows_def)
  show "total_tokens l (set_block b' p) = (if l = layer then total_tokens layer p + 1 else total_tokens l p)"
    by (simp add: total_tokens_def pl pl') (simp add: b')
  have "contiguous 0 (pool_layer_blocks l (set_block b' p))"
    using cont [of l] pl by (cases "l = layer") (simp_all add: pl' contiguous_append, simp add: b')
  moreover have "\<exists>c. dget (bp_blocks (set_block b' p)) j = Some c \<and> tb_id c = j \<and> tb_layer c = l \<and> block_ok L rs dt c"
    if "j \<in> set (layer_ids l p)" for j
    using that ids [of l] bi bok b' by (cases "j = i") auto
  moreover have "pool_layer_blocks l (set_block b' p) \<noteq> [] \<longrightarrow>
      tb_count (last (pool_layer_blocks l (set_block b' p))) < tpb \<longrightarrow>
      tb_in_ram (last (pool_layer_blocks l (set_block b' p)))"
    using lay [of l] b(2) by (cases "l = layer") (simp_all add: pl' layer_ok_def, simp add: b')
  ultimately show "layer_ok L rs dt tpb l (set_block b' p)"
    using ids [of l] dist [of l] unfolding layer_ok_def by simp
qed

lemma append_to_pool_ok:
  assumes ok: "mgr_ok lookup sinv rs dt m" and kt: "shape kt = rs" "elem_type kt = dt" "tensor_ok kt"
    and vt: "shape vt = rs" "elem_type vt = dt" "tensor_ok vt"
  shows "\<exists>m1. append_to_pool layer kt vt m = (Inr (), m1) \<and> mgr_ok lookup sinv rs dt m1 \<and> tm_policy m1 = tm_policy m \<and> tm_store m1 = tm_store m \<and>
    (\<forall>l. mgr_keys lookup l m1 = (if l = layer then mgr_keys lookup layer m @ raw kt else mgr_keys lookup l m) \<and>
    mgr_values lookup l m1 = (if l = layer then mgr_values lookup layer m @ raw vt else mgr_values lookup l m) \<and>
    total_tokens l (tm_pool m1) =
      (if l = layer then total_tokens layer (tm_pool m) + 1 else total_tokens l (tm_pool m)))"
proof -
  let ?p = "tm_pool m" and ?L = "lookup (tm_store m)" and ?tpb = "tp_tokens_per_block (tm_policy m)"
  let ?bs = "pool_layer_blocks layer ?p"
  have lay: "\<And>l. layer_ok ?L rs dt ?tpb l ?p" and si: "sinv (tm_store m)" and rs: "2 \<le> length rs"
    using ok by (auto simp: mgr_ok_def)
  note rk = row_ok_new_axis [OF kt] and rv = row_ok_new_axis [OF vt]
  have raws: "raw (new_axis kt) = raw kt" "raw (new_axis vt) = raw vt" by (simp_all add: new_axis_def)
  show ?thesis
  proof (cases "?bs \<noteq> [] \<and> tb_count (last ?bs) < ?tpb")
    case True
    then have ne: "?bs \<noteq> []" and ram: "tb_in_ram (last ?bs)" using lay [of layer] by (auto simp: layer_ok_def)
    have "last ?bs \<in> set ?bs" using ne by simp
    then have "block_ok ?L rs dt (last ?bs)" using lay [of layer] by (auto simp: layer_ok_def pool_layer_blocks_def)
    then obtain bk bv where kv: "tb_k (last ?bs) = Some bk" "tb_v (last ?bs) = Some bv"
      using ram by (auto simp: block_ok_def)
    let ?b' = "(last ?bs)\<lparr>tb_k := Some (append_rows bk (new_axis kt)), tb_v := Some (append_rows bv (new_axis vt)),
        tb_count := tb_count (last ?bs) + 1\<rparr>"
    have "row_ok rs dt (tb_count (last ?bs)) bk \<and> row_ok rs dt (tb_count (last ?bs)) bv"
      using \<open>block_ok ?L rs dt (last ?bs)\<close> ram kv by (simp add: block_ok_def block_kv_def)
    then have "same_rows bk (new_axis kt)" "same_rows bv (new_axis vt)"
      using kt(1) vt(1) by (simp_all add: same_rows_def row_ok_def new_axis_def)
    then have m1: "append_to_pool layer kt vt m = (Inr (), m\<lparr>tm_pool := set_block ?b' ?p\<rparr>)"
      using True kv by (simp add: append_to_pool_def Let_def put_block_pool)
    note ex = extend_last_ok [OF lay ne refl ram kv rk rv refl]
    show ?thesis using ex si rs
      by (intro exI [of _ "m\<lparr>tm_pool := set_block ?b' ?p\<rparr>"]) (simp add: m1 mgr_ok_def mgr_keys_def mgr_values_def raws)
  next
    case False
    let ?q = "snd (pool_allocate layer (total_tokens layer ?p) 1 (Some (new_axis kt)) (Some (new_axis vt)) False ?p)"
    have m1: "append_to_pool layer kt vt m = (Inr (), m\<lparr>tm_pool := ?q\<rparr>)"
      using False by (auto simp: append_to_pool_def Let_def)
    note al = pool_allocate_ok [OF lay rk rv refl refl]
    show ?thesis using al si rs
      by (intro exI [of _ "m\<lparr>tm_pool := ?q\<rparr>"]) (simp add: m1 mgr_ok_def mgr_keys_def mgr_values_def raws)
  qed
qed

text \<open>One pass of the slicing loop leaves the rows below \<open>min (j * tpb) n\<close> in the layer.\<close>

lemma slice_rows_raw:
  "row_ok rs dt n t \<Longrightarrow> raw (slice_rows a b t) =
     take ((b - a) * (itemsize dt * prod_list rs)) (drop (a * (itemsize dt * prod_list rs)) (raw t))"
  by (simp add: slice_rows_def row_ok_def row_bytes_def)

lemma take_drop_split:
  assumes "(a::nat) \<le> b"
  shows "take ((b - a) * r) (drop (a * r) xs) @ drop (b * r) xs = drop (a * r) xs"
proof -
  have "drop (b * r) xs = drop ((b - a) * r) (drop (a * r) xs)"
    using assms by (simp flip: add_mult_distrib)
  then show ?thesis by (simp only: append_take_drop_id)
qed

lemma ceil_index:
  assumes "j < (n + t - 1) div t" "0 < t"
  shows "j * t < (n::nat)"
proof -
  have "Suc j * t \<le> (n + t - 1) div t * t" using assms(1) by (intro mult_le_mono1) simp
  also have "\<dots> \<le> n + t - 1" by simp
  finally show ?thesis using assms(2) by simp
qed

definition full_rows :: "tier_policy \<Rightarrow> nat \<Rightarrow> nat \<Rightarrow> nat" where
  "full_rows pol n j = min (j * tp_tokens_per_block pol) n"

lemma prefill_blocks_ok:
  assumes "mgr_ok lookup sinv rs dt m" "row_ok rs dt n k" "row_ok rs dt n v" "tp_tokens_per_block (tm_policy m) = tpb"
    and "total_tokens layer (tm_pool m) = full_rows (tm_policy m) n j"
    and "j \<le> hi" "hi \<le> (n + tpb - 1) div tpb" "0 < tpb" "prefill_blocks layer k v [j..<hi] m = (is, m')"
  shows "mgr_ok lookup sinv rs dt m' \<and> tm_policy m' = tm_policy m \<and>
    total_tokens layer (tm_pool m') = full_rows (tm_policy m) n hi \<and>
    mgr_keys lookup layer m' @ drop (full_rows (tm_policy m) n hi * (itemsize dt * prod_list rs)) (raw k) =
      mgr_keys lookup layer m @ drop (full_rows (tm_policy m) n j * (itemsize dt * prod_list rs)) (raw k) \<and>
    mgr_values lookup layer m' @ drop (full_rows (tm_policy m) n hi * (itemsize dt * prod_list rs)) (raw v) =
      mgr_values lookup layer m @ drop (full_rows (tm_policy m) n j * (itemsize dt * prod_list rs)) (raw v) \<and>
    (\<forall>l. l \<noteq> layer \<longrightarrow> mgr_keys lookup l m' = mgr_keys lookup l m \<and> mgr_values lookup l m' = mgr_values lookup l m) \<and>
    layer_ids layer (tm_pool m') = layer_ids layer (tm_pool m) @ is \<and>
    (\<forall>i\<in>set is. \<exists>b. dget (bp_blocks (tm_pool m')) i = Some b \<and> tb_in_ram b) \<and>
    (\<forall>i. i < bp_next_id (tm_pool m) \<longrightarrow> dget (bp_blocks (tm_pool m')) i = dget (bp_blocks (tm_pool m)) i) \<and>
    bp_next_id (tm_pool m) \<le> bp_next_id (tm_pool m')"
  using assms
proof (induction "hi - j" arbitrary: j m "is" m')
  case 0
  then show ?case by simp
next
  case (Suc d)
  let ?r = "itemsize dt * prod_list rs" and ?pol = "tm_policy m" and ?p = "tm_pool m" and ?L = "lookup (tm_store m)"
  define a where "a = full_rows ?pol n j"
  define b where "b = full_rows ?pol n (Suc j)"
  have jh: "j < hi" using Suc.hyps(2) by simp
  have jn: "j * tpb < n"
    using jh Suc.prems(7,8) by (intro ceil_index) auto
  have ab: "a = j * tpb" "b = min (j * tpb + tpb) n" "a \<le> b" "b \<le> n"
    using jn Suc.prems(4) by (auto simp: a_def b_def full_rows_def)
  have len: "b * ?r \<le> length (raw k)" "b * ?r \<le> length (raw v)"
    using ab(4) Suc.prems(2,3) by (auto simp: row_ok_def intro: mult_le_mono1)
  have lay: "\<And>l. layer_ok ?L rs dt tpb l ?p" and si: "sinv (tm_store m)"
    and rs: "2 \<le> length rs" using Suc.prems(1,4) by (auto simp: mgr_ok_def)
  note rows = row_ok_slice [OF Suc.prems(2) ab(3,4)] row_ok_slice [OF Suc.prems(3) ab(3,4)]
  define q where "q = snd (pool_allocate layer a (b - a) (Some (slice_rows a b k)) (Some (slice_rows a b v))
      (int a < sink_tokens ?pol) ?p)"
  let ?m1 = "m\<lparr>tm_pool := q\<rparr>"
  have tot: "a = total_tokens layer ?p" using Suc.prems(5) by (simp add: a_def)
  note al = pool_allocate_ok [OF lay rows tot q_def] and ps = pool_allocate_simps [where p = ?p]
  obtain js m2 where rest: "prefill_blocks layer k v [Suc j..<hi] ?m1 = (js, m2)" by fastforce
  have rc: "row_count k = n" using Suc.prems(2) by (simp add: row_ok_def row_count_def)
  have alloc: "pool_allocate layer a (b - a) (Some (slice_rows a b k)) (Some (slice_rows a b v))
      (int a < sink_tokens ?pol) ?p = (bp_next_id ?p, q)"
    using ps(1) by (simp add: q_def prod_eq_iff)
  have ab2: "min (a + tpb) n = b" using ab(1,2) by simp
  have step: "is = bp_next_id ?p # js" "m' = m2"
    using Suc.prems(9) rest alloc jh
    by (auto simp: upt_conv_Cons Let_def Suc.prems(4) rc ab(1) [symmetric] ab2 simp del: of_nat_mult of_nat_add)
  have m1: "mgr_ok lookup sinv rs dt ?m1" using al(1) si rs Suc.prems(4) by (simp add: mgr_ok_def)
  have full: "total_tokens layer (tm_pool ?m1) = full_rows (tm_policy ?m1) n (Suc j)"
    using al(5) [of layer] tot ab(3) by (simp add: b_def)
  have ih: "d = hi - Suc j" "tp_tokens_per_block (tm_policy ?m1) = tpb" "Suc j \<le> hi"
    using Suc.hyps(2) Suc.prems(4) jh by auto
  note IH = Suc.hyps(1) [OF ih(1) m1 Suc.prems(2,3) ih(2) full ih(3) Suc.prems(7,8) rest]
  have kraw: "raw (slice_rows a b k) @ drop (b * ?r) (raw k) = drop (a * ?r) (raw k)"
    "raw (slice_rows a b v) @ drop (b * ?r) (raw v) = drop (a * ?r) (raw v)"
    by (simp_all only: slice_rows_raw [OF Suc.prems(2)] slice_rows_raw [OF Suc.prems(3)] take_drop_split [OF ab(3)])
  have q: "layer_ids layer q = layer_ids layer ?p @ [bp_next_id ?p]" "bp_next_id q = bp_next_id ?p + 1"
    "\<And>i. dget (bp_blocks q) i = (if i = bp_next_id ?p then
        Some (fresh_block layer a (b - a) (slice_rows a b k) (slice_rows a b v) (int a < sink_tokens ?pol) ?p)
      else dget (bp_blocks ?p) i)"
    by (simp_all add: q_def ps)
  have keys1: "mgr_keys lookup l ?m1 = (if l = layer then mgr_keys lookup layer m @ raw (slice_rows a b k) else mgr_keys lookup l m)"
    "mgr_values lookup l ?m1 = (if l = layer then mgr_values lookup layer m @ raw (slice_rows a b v) else mgr_values lookup l m)"
    for l using al(3,4) [of l] by (simp_all add: mgr_keys_def mgr_values_def)
  note IHs = IH [simplified keys1]
  have old: "dget (bp_blocks (tm_pool m')) i = dget (bp_blocks ?p) i" if "i < bp_next_id ?p" for i
    using IHs that by (simp add: step q)
  have new: "\<exists>b. dget (bp_blocks (tm_pool m')) (bp_next_id ?p) = Some b \<and> tb_in_ram b"
    using IHs by (simp add: step q) (simp add: fresh_block_def)
  show ?case
    using IHs old new kraw unfolding a_def [symmetric] b_def [symmetric] step by (simp add: q keys1 flip: b_def)
qed

section \<open>Prefill, append, fetch\<close>

lemma cold_ends_early:
  "\<not> is_hot pol b (int n) \<Longrightarrow> 0 < sliding_window_tokens pol \<Longrightarrow> 0 < n \<Longrightarrow> int (tb_start b) + int (tb_count b) < int n"
  by (auto simp: is_hot_def Let_def split: if_splits)

definition tok_ok :: "nat list \<Rightarrow> np_dtype \<Rightarrow> tensor \<times> tensor \<Rightarrow> bool" where
  "tok_ok rs dt x \<longleftrightarrow> shape (fst x) = rs \<and> elem_type (fst x) = dt \<and> tensor_ok (fst x) \<and>
     shape (snd x) = rs \<and> elem_type (snd x) = dt \<and> tensor_ok (snd x)"

text \<open>The calls of a client: decode steps, and fetching a list of blocks.\<close>

fun append_tokens :: "'s store_fn \<Rightarrow> int \<Rightarrow> (tensor \<times> tensor) list \<Rightarrow> 's tier_mgr \<Rightarrow> unit res \<times> 's tier_mgr" where
  "append_tokens store layer [] m = (Inr (), m)"
| "append_tokens store layer (x # xs) m =
     (case append_token store layer (fst x) (snd x) m of
        (Inl e, m1) \<Rightarrow> (Inl e, m1) | (Inr _, m1) \<Rightarrow> append_tokens store layer xs m1)"

fun fetch_blocks :: "'s load_fn \<Rightarrow> int \<Rightarrow> int list \<Rightarrow> 's tier_mgr \<Rightarrow> unit res \<times> 's tier_mgr" where
  "fetch_blocks load layer [] m = (Inr (), m)"
| "fetch_blocks load layer (i # is) m =
     (case fetch_cold_block load i layer m of
        (Inl e, m1) \<Rightarrow> (Inl e, m1) | (Inr _, m1) \<Rightarrow> fetch_blocks load layer is m1)"

text \<open>With every block in memory the tensors handed to attention are the whole layer in order.\<close>

lemma append_rows_shape: "shape t \<noteq> [] \<Longrightarrow> shape (append_rows t u) \<noteq> [] \<and> tl (shape (append_rows t u)) = tl (shape t)"
  by (simp add: append_rows_def)

lemma foldl_rows_raw: "raw (foldl append_rows t ts) = raw t @ concat (map raw ts)"
  by (induction ts arbitrary: t) (simp_all add: append_rows_def)

lemma concat_rows_ok:
  assumes "bs \<noteq> []" "\<forall>b\<in>set bs. \<exists>n. row_ok rs dt n (f b)"
  shows "\<exists>t. concat_rows (map f bs) = Inr t \<and> raw t = concat (map (\<lambda>b. raw (f b)) bs)"
proof -
  have "\<forall>t\<in>set (map f bs). same_rows t (hd (map f bs))"
    using assms by (cases bs) (auto simp: same_rows_def row_ok_def)
  then show ?thesis using assms(1)
    by (cases bs) (auto simp: concat_rows_def foldl_rows_raw comp_def)
qed

lemma contiguous_positions:
  "contiguous t bs \<Longrightarrow> concat (map (\<lambda>b. [tb_start b..<tb_start b + tb_count b]) bs) = [t..<t + sum_list (map tb_count bs)]"
proof (induction bs arbitrary: t)
  case (Cons b bs)
  then show ?case using upt_add_eq_append [of t "t + tb_count b" "sum_list (map tb_count bs)"] by (simp add: add.assoc) (simp flip: add.assoc)
qed simp

lemma get_hot_all:
  assumes lay: "layer_ok L rs dt tpb layer (tm_pool m)" and ne: "layer_ids layer (tm_pool m) \<noteq> []"
    and ram: "\<forall>i\<in>set (layer_ids layer (tm_pool m)). \<exists>b. dget (bp_blocks (tm_pool m)) i = Some b \<and> tb_in_ram b"
  shows "\<exists>K V. get_hot_kv layer m = Inr (K, V, [0..<total_tokens layer (tm_pool m)]) \<and>
    raw K = layer_keys L layer (tm_pool m) \<and> raw V = layer_values L layer (tm_pool m)"
proof -
  let ?bs = "pool_layer_blocks layer (tm_pool m)"
  have bs: "tb_in_ram b \<and> block_ok L rs dt b" if "b \<in> set ?bs" for b
    using that ram lay by (force simp: pool_layer_blocks_def layer_ok_def)
  have all: "filter resident ?bs = ?bs"
    using bs by (intro filter_True) (auto simp: resident_def block_ok_def)
  have ne': "?bs \<noteq> []" using ne by (simp add: pool_layer_blocks_def)
  have "row_ok rs dt (tb_count b) (the (tb_k b)) \<and> row_ok rs dt (tb_count b) (the (tb_v b))" if "b \<in> set ?bs" for b
    using bs [OF that] by (cases "tb_in_ram b") (simp_all add: block_ok_def block_kv_def)
  then have rows: "\<forall>b\<in>set ?bs. \<exists>n. row_ok rs dt n (the (tb_k b))" "\<forall>b\<in>set ?bs. \<exists>n. row_ok rs dt n (the (tb_v b))"
    by blast+
  obtain K V where kv: "concat_rows (map (\<lambda>b. the (tb_k b)) ?bs) = Inr K"
    "concat_rows (map (\<lambda>b. the (tb_v b)) ?bs) = Inr V"
    "raw K = concat (map (\<lambda>b. raw (the (tb_k b))) ?bs)" "raw V = concat (map (\<lambda>b. raw (the (tb_v b))) ?bs)"
    using concat_rows_ok [OF ne' rows(1)] concat_rows_ok [OF ne' rows(2)] by blast
  have "raw K = layer_keys L layer (tm_pool m)" "raw V = layer_values L layer (tm_pool m)"
    unfolding kv(3,4) layer_keys_def layer_values_def using bs
    by (auto simp: block_kv_def intro!: arg_cong [of _ _ concat])
  moreover have "concat (map (\<lambda>b. [tb_start b..<tb_start b + tb_count b]) ?bs) = [0..<total_tokens layer (tm_pool m)]"
    using lay contiguous_positions [of 0 ?bs] by (simp add: layer_ok_def total_tokens_def)
  ultimately show ?thesis using kv(1,2) ne' by (simp add: get_hot_kv_def all Let_def)
qed

definition in_ram_ids :: "'s tier_mgr \<Rightarrow> int set" where
  "in_ram_ids m = {i. \<exists>b. dget (bp_blocks (tm_pool m)) i = Some b \<and> tb_in_ram b}"

lemma fetch_keeps_ram:
  assumes "fetch_cold_block load i layer m = (Inr b, m')"
    and "\<And>c. dget (bp_blocks (tm_pool m)) i = Some c \<Longrightarrow> tb_id c = i"
  shows "insert i (in_ram_ids m) \<subseteq> in_ram_ids m'"
  using assms
  by (auto simp: fetch_cold_block_def pool_get_block_def in_ram_ids_def Let_def put_block_def dict_simps
      split: option.splits if_splits sum.splits prod.splits)

lemma mgr_block:
  assumes "mgr_ok lookup sinv rs dt m" "i \<in> set (layer_ids layer (tm_pool m))"
  shows "\<exists>b. dget (bp_blocks (tm_pool m)) i = Some b \<and> tb_id b = i"
proof -
  have "layer_ok (lookup (tm_store m)) rs dt (tp_tokens_per_block (tm_policy m)) layer (tm_pool m)"
    using assms(1) by (simp add: mgr_ok_def)
  then show ?thesis using assms(2) by (auto simp: layer_ok_def)
qed

context tier_store
begin

lemma append_token_ok:
  assumes ok: "mgr_ok lookup sinv rs dt m" and x: "tok_ok rs dt x" and w: "0 < sliding_window_tokens (tm_policy m)"
  shows "\<exists>m'. append_token store layer (fst x) (snd x) m = (Inr (), m') \<and> mgr_ok lookup sinv rs dt m' \<and>
    tm_policy m' = tm_policy m \<and> total_tokens layer (tm_pool m') = total_tokens layer (tm_pool m) + 1 \<and>
    mgr_keys lookup layer m' = mgr_keys lookup layer m @ raw (fst x) \<and>
    mgr_values lookup layer m' = mgr_values lookup layer m @ raw (snd x)"
proof -
  obtain m1 where m1: "append_to_pool layer (fst x) (snd x) m = (Inr (), m1)" "mgr_ok lookup sinv rs dt m1"
    "tm_policy m1 = tm_policy m" "mgr_keys lookup layer m1 = mgr_keys lookup layer m @ raw (fst x)"
    "mgr_values lookup layer m1 = mgr_values lookup layer m @ raw (snd x)"
    "total_tokens layer (tm_pool m1) = total_tokens layer (tm_pool m) + 1"
    using append_to_pool_ok [OF ok, of "fst x" "snd x" layer] x by (auto simp: tok_ok_def)
  let ?t = "total_tokens layer (tm_pool m1)"
  let ?cold = "\<lambda>b. tb_in_ram b \<and> \<not> tb_pinned b \<and> \<not> is_hot (tm_policy m) b (int ?t)"
  have "distinct (layer_ids layer (tm_pool m1))" using m1(2) by (simp add: mgr_ok_def layer_ok_def)
  then obtain m2 where m2: "offload_loop store ?cold layer (layer_ids layer (tm_pool m1)) m1 = (Inr (), m2)"
    "mgr_ok lookup sinv rs dt m2" "mgr_same lookup m1 m2"
    using offload_loop_ok [OF m1(2), of _ layer ?cold] cold_ends_early [OF _ w, of _ ?t] m1(6) by auto
  then show ?thesis using m1 by (simp add: append_token_def Let_def mgr_same_def)
qed

lemma append_tokens_ok:
  assumes "mgr_ok lookup sinv rs dt m" "\<forall>x\<in>set xs. tok_ok rs dt x" "0 < sliding_window_tokens (tm_policy m)"
  shows "\<exists>m'. append_tokens store layer xs m = (Inr (), m') \<and> mgr_ok lookup sinv rs dt m' \<and>
    total_tokens layer (tm_pool m') = total_tokens layer (tm_pool m) + length xs \<and>
    mgr_keys lookup layer m' = mgr_keys lookup layer m @ concat (map (raw \<circ> fst) xs) \<and>
    mgr_values lookup layer m' = mgr_values lookup layer m @ concat (map (raw \<circ> snd) xs)"
  using assms
proof (induction xs arbitrary: m)
  case Nil
  then show ?case by simp
next
  case (Cons x xs)
  obtain m1 where m1: "append_token store layer (fst x) (snd x) m = (Inr (), m1)" "mgr_ok lookup sinv rs dt m1"
    "tm_policy m1 = tm_policy m" "total_tokens layer (tm_pool m1) = total_tokens layer (tm_pool m) + 1"
    "mgr_keys lookup layer m1 = mgr_keys lookup layer m @ raw (fst x)"
    "mgr_values lookup layer m1 = mgr_values lookup layer m @ raw (snd x)"
    using append_token_ok [OF Cons.prems(1) _ Cons.prems(3), of x layer] Cons.prems(2) by auto
  from Cons.IH [OF m1(2)] Cons.prems m1 show ?case by (auto simp: m1(1))
qed

lemma prefill_sequence_ok:
  assumes ok: "mgr_ok lookup sinv rs dt m" and rows: "row_ok rs dt n k" "row_ok rs dt n v"
    and w: "0 < sliding_window_tokens (tm_policy m)" and tpb: "0 < tp_tokens_per_block (tm_policy m)"
    and empty: "layer_ids layer (tm_pool m) = []"
  shows "\<exists>m'. prefill_sequence store layer k v m = (Inr (), m') \<and> mgr_ok lookup sinv rs dt m' \<and>
    tm_policy m' = tm_policy m \<and> total_tokens layer (tm_pool m') = n \<and>
    mgr_keys lookup layer m' = raw k \<and> mgr_values lookup layer m' = raw v"
proof -
  let ?tpb = "tp_tokens_per_block (tm_policy m)"
  define hi where "hi = (n + ?tpb - 1) div ?tpb"
  have nil: "pool_layer_blocks layer (tm_pool m) = []" using empty by (simp add: pool_layer_blocks_def)
  then have e: "total_tokens layer (tm_pool m) = full_rows (tm_policy m) n 0" "full_rows (tm_policy m) n 0 = 0" "mgr_keys lookup layer m = []"
    "mgr_values lookup layer m = []"
    by (simp_all add: total_tokens_def full_rows_def mgr_keys_def mgr_values_def layer_keys_def layer_values_def)
  obtain js m1 where p: "prefill_blocks layer k v [0..<hi] m = (js, m1)" by fastforce
  note bl = prefill_blocks_ok [OF ok rows refl e(1) _ _ tpb p, folded hi_def, simplified]
  have "n \<le> hi * ?tpb"
    using dividend_less_div_times [OF tpb, of "n + ?tpb - 1"] tpb by (simp add: hi_def add.commute)
  then have full: "full_rows (tm_policy m) n hi = n" by (simp add: full_rows_def)
  have drops: "drop (n * (itemsize dt * prod_list rs)) (raw k) = []" "drop (n * (itemsize dt * prod_list rs)) (raw v) = []"
    using rows by (simp_all add: row_ok_def)
  have m1: "mgr_ok lookup sinv rs dt m1" "tm_policy m1 = tm_policy m" "total_tokens layer (tm_pool m1) = n"
    "mgr_keys lookup layer m1 = raw k" "mgr_values lookup layer m1 = raw v" "layer_ids layer (tm_pool m1) = js"
    "\<forall>i\<in>set js. \<exists>b. dget (bp_blocks (tm_pool m1)) i = Some b \<and> tb_in_ram b"
    using bl by (simp_all add: full drops e(2-) empty)
  let ?cold = "\<lambda>b. \<not> is_hot (tm_policy m) b (int n)"
  have "distinct js" using m1(1,6) by (auto simp: mgr_ok_def layer_ok_def)
  moreover have "0 < n" if "js \<noteq> []"
    using that p tpb by (cases n) (auto simp: hi_def)
  ultimately obtain m2 where m2: "offload_loop store ?cold layer js m1 = (Inr (), m2)"
    "mgr_ok lookup sinv rs dt m2" "mgr_same lookup m1 m2"
    using offload_loop_ok [OF m1(1), of js layer ?cold] cold_ends_early [OF _ w, of _ n] m1(3,6,7) by fastforce
  have "row_count k = n" "shape k \<noteq> []" "shape v \<noteq> []" using rows by (auto simp: row_ok_def row_count_def)
  then show ?thesis using m1 m2 p tpb by (simp add: prefill_sequence_def Let_def mgr_same_def hi_def)
qed

lemma fetch_blocks_ok:
  assumes "mgr_ok lookup sinv rs dt m" "set is \<subseteq> set (layer_ids layer (tm_pool m))"
  shows "\<exists>m'. fetch_blocks load layer is m = (Inr (), m') \<and> mgr_ok lookup sinv rs dt m' \<and> mgr_same lookup m m' \<and>
    (\<forall>i\<in>set is \<union> in_ram_ids m. i \<in> in_ram_ids m')"
  using assms
proof (induction "is" arbitrary: m)
  case Nil
  then show ?case by simp
next
  case (Cons i "is")
  have i: "i \<in> set (layer_ids layer (tm_pool m))" using Cons.prems(2) by simp
  obtain b m1 where m1: "fetch_cold_block load i layer m = (Inr b, m1)" "mgr_ok lookup sinv rs dt m1" "mgr_same lookup m m1"
    using fetch_cold_ok [OF Cons.prems(1) i] by blast
  have "tb_id c = i" if "dget (bp_blocks (tm_pool m)) i = Some c" for c
    using mgr_block [OF Cons.prems(1) i] that by auto
  then have ram: "insert i (in_ram_ids m) \<subseteq> in_ram_ids m1" by (rule fetch_keeps_ram [OF m1(1)])
  obtain m2 where "fetch_blocks load layer is m1 = (Inr (), m2)" "mgr_ok lookup sinv rs dt m2" "mgr_same lookup m1 m2"
    "\<forall>i\<in>set is \<union> in_ram_ids m1. i \<in> in_ram_ids m2"
    using Cons.IH [OF m1(2)] Cons.prems(2) m1(3) by (auto simp: mgr_same_def)
  with m1 ram show ?case by (auto intro: mgr_same_trans)
qed

text \<open>The whole life of a layer: nothing of prefill and decode is lost, whatever was offloaded.\<close>

lemma no_token_lost:
  assumes ok: "mgr_ok lookup sinv rs dt m" and rows: "row_ok rs dt n k" "row_ok rs dt n v"
    and w: "0 < sliding_window_tokens (tm_policy m)" and tpb: "0 < tp_tokens_per_block (tm_policy m)"
    and empty: "layer_ids layer (tm_pool m) = []" and xs: "\<forall>x\<in>set xs. tok_ok rs dt x" and ne: "0 < n + length xs"
  shows "\<exists>m1 m2 m3 K V. prefill_sequence store layer k v m = (Inr (), m1) \<and>
    append_tokens store layer xs m1 = (Inr (), m2) \<and>
    fetch_blocks load layer (layer_ids layer (tm_pool m2)) m2 = (Inr (), m3) \<and>
    get_hot_kv layer m3 = Inr (K, V, [0..<n + length xs]) \<and>
    raw K = raw k @ concat (map (raw \<circ> fst) xs) \<and> raw V = raw v @ concat (map (raw \<circ> snd) xs)"
proof -
  obtain m1 where m1: "prefill_sequence store layer k v m = (Inr (), m1)" "mgr_ok lookup sinv rs dt m1"
    "tm_policy m1 = tm_policy m" "total_tokens layer (tm_pool m1) = n" "mgr_keys lookup layer m1 = raw k"
    "mgr_values lookup layer m1 = raw v"
    using prefill_sequence_ok [OF ok rows w tpb empty] by blast
  obtain m2 where m2: "append_tokens store layer xs m1 = (Inr (), m2)" "mgr_ok lookup sinv rs dt m2"
    "total_tokens layer (tm_pool m2) = n + length xs" "mgr_keys lookup layer m2 = raw k @ concat (map (raw \<circ> fst) xs)"
    "mgr_values lookup layer m2 = raw v @ concat (map (raw \<circ> snd) xs)"
    using append_tokens_ok [OF m1(2) xs, of layer] w m1 by auto
  obtain m3 where m3: "fetch_blocks load layer (layer_ids layer (tm_pool m2)) m2 = (Inr (), m3)"
    "mgr_ok lookup sinv rs dt m3" "mgr_same lookup m2 m3"
    "\<forall>i\<in>set (layer_ids layer (tm_pool m2)). i \<in> in_ram_ids m3"
    using fetch_blocks_ok [OF m2(2) order_refl] by blast
  have ids: "layer_ids layer (tm_pool m3) = layer_ids layer (tm_pool m2)"
    and tot: "total_tokens layer (tm_pool m3) = n + length xs" using m3(3) m2(3) by (simp_all add: mgr_same_def)
  have "layer_ids layer (tm_pool m3) \<noteq> []" using tot ne by (auto simp: total_tokens_def pool_layer_blocks_def)
  moreover have "\<forall>i\<in>set (layer_ids layer (tm_pool m3)). \<exists>b. dget (bp_blocks (tm_pool m3)) i = Some b \<and> tb_in_ram b"
    using m3(4) by (simp add: ids in_ram_ids_def)
  moreover have "layer_ok (lookup (tm_store m3)) rs dt (tp_tokens_per_block (tm_policy m3)) layer (tm_pool m3)"
    using m3(2) by (simp add: mgr_ok_def)
  ultimately obtain K V where "get_hot_kv layer m3 = Inr (K, V, [0..<n + length xs])"
    "raw K = mgr_keys lookup layer m3" "raw V = mgr_values lookup layer m3"
    using get_hot_all tot by (metis mgr_keys_def mgr_values_def)
  then show ?thesis using m1 m2 m3 by (auto simp: mgr_same_def)
qed

text \<open>With a window of zero the last block is offloaded while it still grows.\<close>

lemma zero_window_loses:
  assumes si: "sinv s" and rows: "row_ok rs dt 1 k" "row_ok rs dt 1 v" and rs: "2 \<le> length rs"
    and pol: "sink_tokens pol = 0" "sliding_window_tokens pol = 0" "2 \<le> tp_tokens_per_block pol"
    and m: "m = new_manager pol h d dt' s"
  shows "\<exists>m1 m2 m3. prefill_sequence store layer k v m = (Inr (), m1) \<and>
    append_token store layer kt vt m1 = (Inr (), m2) \<and>
    fetch_blocks load layer (layer_ids layer (tm_pool m2)) m2 = (Inr (), m3) \<and>
    get_hot_kv layer m3 = Inr (k, v, [0, 1])"
proof -
  let ?tpb = "tp_tokens_per_block pol"
  have sh: "shape k = 1 # rs" "shape v = 1 # rs" "length (raw k) = itemsize dt * prod_list rs"
    "length (raw v) = itemsize dt * prod_list rs" "elem_type k = dt" "elem_type v = dt"
    using rows by (simp_all add: row_ok_def)
  have one: "(1 + ?tpb - 1) div ?tpb = 1" "min ?tpb (Suc 0) = 1" using pol(3) by auto
  have sl: "slice_rows 0 (Suc 0) k = k" "slice_rows 0 (Suc 0) v = v"
    using sh by (simp_all add: slice_rows_def row_count_def row_bytes_def)
  obtain s1 where s1: "store 0 layer k v s = (Inr (), s1)" "sinv s1" "lookup s1 = (lookup s)((layer, 0) \<mapsto> (k, v))"
    using store_law [OF si row_ok_tensor [OF rows(1)] row_ok_tensor [OF rows(2)], of 0 layer] sh rs by auto
  obtain s2 where s2: "load 0 layer s1 = (Inr (k, v), s2)" using load_law [OF s1(2), of layer 0 k v] s1(3) by auto
  let ?b = "\<lparr>tb_id = 0, tb_layer = layer, tb_start = 0, tb_count = 1, tb_pinned = False, tb_in_ram = False,
      tb_tier = ''COLD_SSD'', tb_k = None, tb_v = None\<rparr>"
  let ?p = "\<lambda>b. \<lparr>bp_next_id = 1, bp_blocks = [(0, b)], bp_layers = [(layer, [0])]\<rparr>"
  let ?m1 = "m\<lparr>tm_pool := ?p ?b, tm_store := s1\<rparr>"
  have p1: "prefill_sequence store layer k v m = (Inr (), ?m1)"
    using sh s1(1) pol one
    by (simp add: prefill_sequence_def m new_manager_def row_count_def Let_def sl pool_allocate_def new_pool_def layer_ids_def
        pool_get_block_def is_hot_def offload_block_def put_block_def)
  let ?b2 = "?b\<lparr>tb_k := Some (new_axis kt), tb_v := Some (new_axis vt), tb_count := 2\<rparr>"
  let ?m2 = "m\<lparr>tm_pool := ?p ?b2, tm_store := s1\<rparr>"
  have p2: "append_token store layer kt vt ?m1 = (Inr (), ?m2)"
    using pol by (simp add: append_token_def append_to_pool_def m new_manager_def Let_def pool_layer_blocks_def layer_ids_def
        put_block_def pool_get_block_def)
  let ?b3 = "?b2\<lparr>tb_k := Some k, tb_v := Some v, tb_in_ram := True, tb_tier := ''HOT_RAM''\<rparr>"
  let ?m3 = "m\<lparr>tm_pool := ?p ?b3, tm_store := s2\<rparr>"
  have p3: "fetch_blocks load layer (layer_ids layer (tm_pool ?m2)) ?m2 = (Inr (), ?m3)"
    using s2 by (simp add: layer_ids_def fetch_cold_block_def pool_get_block_def Let_def put_block_def)
  have "get_hot_kv layer ?m3 = Inr (k, v, [0, 1])"
    using sh by (simp add: get_hot_kv_def pool_layer_blocks_def layer_ids_def resident_def concat_rows_def same_rows_def
        Let_def upt_rec)
  with p1 p2 p3 show ?thesis by blast
qed

end

section \<open>Storage for tiering\<close>

text \<open>Both storage classes honour the contract: the simulated controller and the inference backend.\<close>

definition fc_tier_store :: "controller store_fn" where
  "fc_tier_store bid layer k v c = (case fc_store_kv bid layer k v None c of (r, c') \<Rightarrow> (map_sum id (\<lambda>_. ()) r, c'))"

definition rb_tier_store :: "backend store_fn" where
  "rb_tier_store bid layer k v b =
     (case rb_store_kv bid layer (Arr k) (Arr v) 0 0 b of (r, b') \<Rightarrow> (map_sum id (\<lambda>_. ()) r, b'))"

definition rb_tier_load :: "backend load_fn" where
  "rb_tier_load bid layer b = rb_read_block layer bid 0 0 b"

interpretation fct: tier_store fc_tier_store fc_load_kv fc_lookup fc_inv
proof (unfold_locales, goal_cases)
  case (1 s k v i layer)
  then show ?case using fc_store_ok [of s None k, where bid = i and layer = layer and v = v] by (auto simp: fc_tier_store_def)
next
  case (2 s layer i k v)
  then show ?case using fc_load_ok [OF 2(1), where layer = layer and bid = i] by (auto simp: fc_same_inv)
qed

interpretation rbt: tier_store rb_tier_store rb_tier_load rb_lookup rb_strong
proof (unfold_locales, goal_cases)
  case (1 s k v i layer)
  then have g: "rb_good s" by (simp add: rb_strong_def)
  obtain b' where b': "rb_write_block layer i (Arr k) (Arr v) 0 0 s = (Inr (), b')"
    using write_block_ok [OF g] by blast
  then have put: "b' = rb_put (layer, i) (k, v, 0, 0) s" by simp
  have "rb_strong b' \<and> rb_lookup b' = (rb_lookup s)((layer, i) \<mapsto> (k, v))"
    using 1 rb.put_inv [of s "(k, v, 0, 0)" "(layer, i)"] rb.put_lookup [of s "(k, v, 0, 0)" "(layer, i)"]
    by (simp add: put)
  then show ?case using b'
    by (simp add: rb_tier_store_def rb_store_kv_def)
next
  case (2 s layer i k v)
  obtain r s' where r: "rb_read_block layer i 0 0 s = (r, s')" by fastforce
  then have s': "rb_touch (QSingle WholeBlock layer i 0 0) s = s'"
    by (auto simp: rb_read_block_def split: prod.splits)
  have "r = Inr (k, v)" using read_block_strong [OF 2(1), of layer i 0 0] 2(2) r by simp
  moreover have "rb_strong s'" "rb_lookup s' = rb_lookup s"
    using rb.touch_inv [OF 2(1)] rb.touch_lookup [OF 2(1)] s' by metis+
  ultimately show ?case using r by (simp add: rb_tier_load_def)
qed

section \<open>Properties\<close>

lemma fresh_manager_ok:
  assumes "sinv c" "2 \<le> length rs"
  shows "mgr_ok lookup sinv rs dt (new_manager pol h d dt' c)"
  using assms by (simp add: mgr_ok_def new_manager_def new_pool_def layer_ok_def layer_ids_def pool_layer_blocks_def)

text \<open>C20: Tiering loses nothing. On a fresh manager over the simulated SSD, with a sliding window of at
  least one token, a prefill of any length followed by any decode tokens succeeds, and once
  the offloaded blocks are fetched the tensors handed to attention are, byte for byte, the
  prefilled rows followed by the decoded ones, at positions \<open>0, 1, 2, ...\<close>.\<close>

theorem tiering_loses_no_token:
  assumes "flash_timing_ok t" "0 \<le> mb" "row_ok [h, d] dt n k" "row_ok [h, d] dt n v"
    and "\<forall>x\<in>set xs. tok_ok [h, d] dt x" "0 < n + length xs"
    and "0 < sliding_window_tokens pol" "0 < tp_tokens_per_block pol"
  shows "\<exists>m1 m2 m3 K V.
    prefill_sequence fc_tier_store layer k v (new_manager pol h d dt (new_controller mb t e)) = (Inr (), m1) \<and>
    append_tokens fc_tier_store layer xs m1 = (Inr (), m2) \<and>
    fetch_blocks fc_load_kv layer (layer_ids layer (tm_pool m2)) m2 = (Inr (), m3) \<and>
    get_hot_kv layer m3 = Inr (K, V, [0..<n + length xs]) \<and>
    raw K = raw k @ concat (map (raw \<circ> fst) xs) \<and> raw V = raw v @ concat (map (raw \<circ> snd) xs)"
  by (rule fct.no_token_lost [OF fresh_manager_ok [where sinv = fc_inv, OF new_controller_inv [OF assms(1,2)]]])
    (use assms in \<open>simp_all add: new_manager_def new_pool_def layer_ids_def\<close>)

definition rows3 :: tensor where
  "rows3 = \<lparr>shape = [3, 1, 1], elem_type = Int8, raw = [1, 2, 3]\<rparr>"

definition tok1 :: "byte \<Rightarrow> tensor" where
  "tok1 x = \<lparr>shape = [1, 1], elem_type = Int8, raw = [x]\<rparr>"

definition small_policy :: tier_policy where
  "small_policy = \<lparr>sink_tokens = 0, sliding_window_tokens = 1, tp_tokens_per_block = 2\<rparr>"

lemma tiering_loses_no_token_witness:
  "\<exists>m1 m2 m3 K V.
    prefill_sequence fc_tier_store 0 rows3 rows3 (new_manager small_policy 1 1 Int8
       (new_controller 1 default_flash_timing default_energy)) = (Inr (), m1) \<and>
    append_tokens fc_tier_store 0 [(tok1 4, tok1 4), (tok1 5, tok1 5)] m1 = (Inr (), m2) \<and>
    fetch_blocks fc_load_kv 0 (layer_ids 0 (tm_pool m2)) m2 = (Inr (), m3) \<and>
    get_hot_kv 0 m3 = Inr (K, V, [0..<5]) \<and> raw K = [1, 2, 3, 4, 5]"
  using tiering_loses_no_token [OF default_flash_timing_ok, of 1 1 1 Int8 3 rows3 rows3
      "[(tok1 4, tok1 4), (tok1 5, tok1 5)]" small_policy 0 default_energy]
  by (simp add: row_ok_def rows3_def tok_ok_def tok1_def tensor_ok_def small_policy_def) blast

text \<open>What one pass of the eviction loop does to the pool, whatever the storage does with the data.\<close>

definition offloaded :: "tier_block \<Rightarrow> tier_block" where
  "offloaded b = b\<lparr>tb_in_ram := False, tb_tier := ''COLD_SSD'', tb_k := None, tb_v := None\<rparr>"

lemma offload_loop_pool:
  assumes "offload_loop store cold layer is m = (Inr (), m')" "distinct is"
    and "\<forall>i b. dget (bp_blocks (tm_pool m)) i = Some b \<longrightarrow> tb_id b = i"
  shows "dget (bp_blocks (tm_pool m')) j = map_option (\<lambda>b. if j \<in> set is \<and> cold b then offloaded b else b)
    (dget (bp_blocks (tm_pool m)) j)"
  using assms
proof (induction "is" arbitrary: m)
  case Nil
  then show ?case by (simp add: option.map_ident)
next
  case (Cons i "is")
  show ?case
  proof (cases "dget (bp_blocks (tm_pool m)) i")
    case None
    with Cons show ?thesis by (cases "j = i") (simp_all add: pool_get_block_def)
  next
    case (Some b)
    then have id: "tb_id b = i" using Cons.prems(3) by blast
    show ?thesis
    proof (cases "cold b")
      case False
      with Some Cons.prems have "offload_loop store cold layer is m = (Inr (), m')" by (simp add: pool_get_block_def)
      from Cons.IH [OF this] Cons.prems(2,3) Some False show ?thesis by (cases "j = i") auto
    next
      case True
      obtain r m1 where o: "offload_block store layer b m = (r, m1)" by fastforce
      then have loop: "r = Inr ()" "offload_loop store cold layer is m1 = (Inr (), m')"
        using Cons.prems(1) Some True by (cases r; simp add: pool_get_block_def)+
      have m1: "bp_blocks (tm_pool m1) = dset i (offloaded b) (bp_blocks (tm_pool m))"
        using o loop(1) id
        by (auto simp: offload_block_def put_block_def offloaded_def split: option.splits prod.splits sum.splits)
      have "\<forall>k c. dget (bp_blocks (tm_pool m1)) k = Some c \<longrightarrow> tb_id c = k"
        using Cons.prems(3) id by (auto simp: m1 dict_simps offloaded_def)
      from Cons.IH [OF loop(2) _ this] Cons.prems(2) Some True
      show ?thesis by (cases "j = i") (auto simp: m1 dict_simps)
    qed
  qed
qed

definition pool_ids_ok :: "int \<Rightarrow> block_pool \<Rightarrow> bool" where
  "pool_ids_ok layer p \<longleftrightarrow> distinct (layer_ids layer p) \<and> (\<forall>i b. dget (bp_blocks p) i = Some b \<longrightarrow> tb_id b = i)"

text \<open>C21: Eviction is exact. With any storage, after a successful \<open>append_token\<close> every block of the layer
  is what adding the token made it, except that a block in memory that is neither pinned nor
  hot (not in the sink, ending at or before the window start) has been moved to storage.\<close>

theorem append_evicts_exactly_cold:
  assumes "append_to_pool layer kt vt m = (Inr (), m1)" "append_token store layer kt vt m = (Inr (), m2)"
    and "pool_ids_ok layer (tm_pool m1)" "i \<in> set (layer_ids layer (tm_pool m1))"
    and "dget (bp_blocks (tm_pool m1)) i = Some b"
  shows "dget (bp_blocks (tm_pool m2)) i = Some
    (if tb_in_ram b \<and> \<not> tb_pinned b \<and> sink_tokens (tm_policy m) \<le> int (tb_start b) \<and>
        int (tb_start b) + int (tb_count b) \<le>
          max 0 (int (total_tokens layer (tm_pool m1)) - sliding_window_tokens (tm_policy m))
     then offloaded b else b)"
proof -
  let ?cold = "\<lambda>b. tb_in_ram b \<and> \<not> tb_pinned b \<and> \<not> is_hot (tm_policy m) b (int (total_tokens layer (tm_pool m1)))"
  have "offload_loop store ?cold layer (layer_ids layer (tm_pool m1)) m1 = (Inr (), m2)"
    using assms(1,2) by (simp add: append_token_def Let_def)
  moreover have "distinct (layer_ids layer (tm_pool m1))"
    "\<forall>i b. dget (bp_blocks (tm_pool m1)) i = Some b \<longrightarrow> tb_id b = i"
    using assms(3) by (simp_all add: pool_ids_ok_def)
  ultimately have "dget (bp_blocks (tm_pool m2)) i = Some (if ?cold b then offloaded b else b)"
    using offload_loop_pool [of store ?cold layer "layer_ids layer (tm_pool m1)" m1 m2 i] assms(4,5) by simp
  moreover have "\<not> is_hot (tm_policy m) b (int (total_tokens layer (tm_pool m1))) \<longleftrightarrow>
      sink_tokens (tm_policy m) \<le> int (tb_start b) \<and> int (tb_start b) + int (tb_count b) \<le>
        max 0 (int (total_tokens layer (tm_pool m1)) - sliding_window_tokens (tm_policy m))"
    by (simp add: is_hot_def Let_def not_less not_le le_max_iff_disj)
  ultimately show ?thesis by (simp only:)
qed

definition null_store :: "unit store_fn" where
  "null_store bid layer k v s = (Inr (), s)"

definition thin :: "nat list \<Rightarrow> tensor" where
  "thin sh = \<lparr>shape = sh, elem_type = Int8, raw = []\<rparr>"

definition two_blocks :: "unit tier_mgr" where
  "two_blocks = snd (prefill_sequence null_store 0 (thin [3, 0]) (thin [3, 0]) (new_manager small_policy 1 1 Int8 ()))"

lemma two_blocks_eval:
  "two_blocks = \<lparr>tm_policy = small_policy, tm_heads = 1, tm_dim = 1, tm_dtype = Int8,
     tm_pool = \<lparr>bp_next_id = 2, bp_blocks =
       [(0, \<lparr>tb_id = 0, tb_layer = 0, tb_start = 0, tb_count = 2, tb_pinned = False, tb_in_ram = False,
             tb_tier = ''COLD_SSD'', tb_k = None, tb_v = None\<rparr>),
        (1, \<lparr>tb_id = 1, tb_layer = 0, tb_start = 2, tb_count = 1, tb_pinned = False, tb_in_ram = True,
             tb_tier = ''HOT_RAM'', tb_k = Some (thin [1, 0]), tb_v = Some (thin [1, 0])\<rparr>)],
       bp_layers = [(0, [0, 1])]\<rparr>, tm_store = ()\<rparr>"
  by (simp add: two_blocks_def prefill_sequence_def new_manager_def small_policy_def thin_def row_count_def Let_def
      upt_rec slice_rows_def row_bytes_def pool_allocate_def new_pool_def layer_ids_def pool_get_block_def is_hot_def
      offload_block_def null_store_def put_block_def)

lemma append_evicts_exactly_cold_witness:
  "\<exists>b. dget (bp_blocks (tm_pool (snd (append_token null_store 0 (thin [0]) (thin [0]) two_blocks)))) 1 = Some b \<and>
     tb_in_ram b \<and> tb_count b = 2"
proof -
  let ?b = "\<lparr>tb_id = 1, tb_layer = 0, tb_start = 2, tb_count = 2, tb_pinned = False, tb_in_ram = True,
       tb_tier = ''HOT_RAM'', tb_k = Some (thin [2, 0]), tb_v = Some (thin [2, 0])\<rparr>"
  let ?m1 = "put_block ?b two_blocks"
  have a: "append_to_pool 0 (thin [0]) (thin [0]) two_blocks = (Inr (), ?m1)"
    by (simp add: two_blocks_eval append_to_pool_def Let_def pool_layer_blocks_def layer_ids_def small_policy_def
        new_axis_def same_rows_def append_rows_def row_count_def thin_def put_block_def)
  have b: "append_token null_store 0 (thin [0]) (thin [0]) two_blocks = (Inr (), ?m1)"
    by (simp add: append_token_def a) (simp add: two_blocks_eval Let_def pool_layer_blocks_def layer_ids_def
        total_tokens_def put_block_def pool_get_block_def is_hot_def small_policy_def)
  have "pool_ids_ok 0 (tm_pool ?m1)"
    by (auto simp: two_blocks_eval put_block_def pool_ids_ok_def layer_ids_def split: if_splits)
  moreover have "1 \<in> set (layer_ids 0 (tm_pool ?m1))" "dget (bp_blocks (tm_pool ?m1)) 1 = Some ?b"
    by (simp_all add: two_blocks_eval put_block_def layer_ids_def)
  ultimately have "dget (bp_blocks (tm_pool ?m1)) 1 = Some ?b"
    using append_evicts_exactly_cold [OF a b, of 1 ?b]
    by (simp add: two_blocks_eval small_policy_def total_tokens_def pool_layer_blocks_def layer_ids_def put_block_def)
  then show ?thesis by (simp add: b)
qed

text \<open>A window of zero tokens loses data: the last, still growing block is offloaded after the
  prefill; the next token is put into the dropped block, fetching it overwrites that token with
  the stored row, and attention is handed one row for two positions.\<close>

theorem zero_window_loses_token:
  assumes "flash_timing_ok t" "0 \<le> mb" "row_ok [h, d] dt 1 k" "row_ok [h, d] dt 1 v"
    and "sink_tokens pol = 0" "sliding_window_tokens pol = 0" "2 \<le> tp_tokens_per_block pol"
  shows "\<exists>m1 m2 m3.
    prefill_sequence fc_tier_store layer k v (new_manager pol h d dt (new_controller mb t e)) = (Inr (), m1) \<and>
    append_token fc_tier_store layer kt vt m1 = (Inr (), m2) \<and>
    fetch_blocks fc_load_kv layer (layer_ids layer (tm_pool m2)) m2 = (Inr (), m3) \<and>
    get_hot_kv layer m3 = Inr (k, v, [0, 1])"
  by (rule fct.zero_window_loses [OF new_controller_inv [OF assms(1,2)] assms(3,4) _ assms(5-7) refl]) simp

lemma zero_window_loses_token_witness:
  "\<exists>m1 m2 m3.
    prefill_sequence fc_tier_store 0 (new_axis (tok1 1)) (new_axis (tok1 2))
      (new_manager \<lparr>sink_tokens = 0, sliding_window_tokens = 0, tp_tokens_per_block = 16\<rparr> 1 1 Int8
         (new_controller 1 default_flash_timing default_energy)) = (Inr (), m1) \<and>
    append_token fc_tier_store 0 (tok1 7) (tok1 7) m1 = (Inr (), m2) \<and>
    fetch_blocks fc_load_kv 0 (layer_ids 0 (tm_pool m2)) m2 = (Inr (), m3) \<and>
    get_hot_kv 0 m3 = Inr (new_axis (tok1 1), new_axis (tok1 2), [0, 1])"
  by (rule zero_window_loses_token [OF default_flash_timing_ok])
    (simp_all add: row_ok_def new_axis_def tok1_def)

end
