(* ===== verification/Attention.thy ===== *)
theory Attention
  imports Tiering
begin

text \<open>
  Attention over the tiers: \<open>person1_kv_engine/computational_storage/streaming_softmax.py\<close>
  (the running softmax and the merge of two results) and \<open>instorage_pruner.py\<close> (decode attention
  from the blocks in memory and the top-k blocks of the controller). Arrays of floats are lists of
  reals; the casts to the configured float type are not modelled, and an axis of extent one is not
  broadcast.
\<close>

section \<open>The running softmax\<close>

record softmax_acc =
  sm_heads :: nat
  sm_dim :: nat
  sm_m :: "real list"
  sm_l :: "real list"
  sm_acc :: "real list list"

definition new_softmax :: "nat \<Rightarrow> nat \<Rightarrow> softmax_acc" where
  "new_softmax H D = \<lparr>sm_heads = H, sm_dim = D, sm_m = replicate H (- (10 ^ 30)), sm_l = replicate H 0,
     sm_acc = replicate H (replicate D 0)\<rparr>"

text \<open>
  One head: \<open>xs\<close> are its logits, \<open>vs\<close> the value rows of the tokens. The previous sums are
  rescaled to the new maximum.
\<close>

definition head_max :: "real \<Rightarrow> real list \<Rightarrow> real" where
  "head_max m xs = fold max xs m"

definition head_update :: "real list \<Rightarrow> real list list \<Rightarrow> real \<times> real \<times> real list \<Rightarrow> real \<times> real \<times> real list" where
  "head_update xs vs s = (case s of (m, l, acc) \<Rightarrow>
     (let m' = head_max m xs; alpha = exp (m - m')
      in (m', l * alpha + (\<Sum>x\<leftarrow>xs. exp (x - m')),
          map (\<lambda>d. acc ! d * alpha + (\<Sum>t\<leftarrow>zip xs vs. exp (fst t - m') * snd t ! d)) [0..<length acc])))"

text \<open>\<open>logits\<close> is \<open>[H, T]\<close>, \<open>values\<close> is \<open>[T, H, D]\<close>.\<close>

definition partition_ok :: "nat \<Rightarrow> nat \<Rightarrow> real list list \<Rightarrow> real list list list \<Rightarrow> bool" where
  "partition_ok H D lg vals \<longleftrightarrow> length lg = H \<and> (\<forall>r\<in>set lg. length r = length vals) \<and>
     (\<forall>v\<in>set vals. length v = H \<and> (\<forall>r\<in>set v. length r = D))"

definition num_tokens :: "real list list \<Rightarrow> nat" where
  "num_tokens lg = (case lg of [] \<Rightarrow> 0 | r # _ \<Rightarrow> length r)"

definition update_with_partition ::
    "real list list \<Rightarrow> real list list list \<Rightarrow> softmax_acc \<Rightarrow> unit res \<times> softmax_acc" where
  "update_with_partition lg vals s =
     (if num_tokens lg = 0 then (Inr (), s)
      else if \<not> partition_ok (sm_heads s) (sm_dim s) lg vals then (Inl ValueError, s)
      else (let new = map (\<lambda>h. head_update (lg ! h) (map (\<lambda>v. v ! h) vals) (sm_m s ! h, sm_l s ! h, sm_acc s ! h))
                        [0..<sm_heads s]
            in (Inr (), s\<lparr>sm_m := map fst new, sm_l := map (fst \<circ> snd) new, sm_acc := map (snd \<circ> snd) new\<rparr>)))"

definition safe_div :: "real list \<Rightarrow> real \<Rightarrow> real list" where
  "safe_div a l = map (\<lambda>x. x / (if 0 < l then l else 1)) a"

definition finalize :: "softmax_acc \<Rightarrow> real list list" where
  "finalize s = map2 safe_div (sm_acc s) (sm_l s)"

text \<open>Merging two normalised results of one head, and of all heads.\<close>

type_synonym head_result = "real \<times> real \<times> real list"

definition merge_head :: "head_result \<Rightarrow> head_result \<Rightarrow> head_result" where
  "merge_head a b = (case (a, b) of ((ma, la, oa), (mb, lb, ob)) \<Rightarrow>
     (let m = max ma mb; da = exp (ma - m); db = exp (mb - m); l = da * la + db * lb
      in (m, l, safe_div (map2 (\<lambda>x y. da * la * x + db * lb * y) oa ob) l)))"

definition merge_online_attention :: "head_result list \<Rightarrow> head_result list \<Rightarrow> head_result list" where
  "merge_online_attention as bs = map2 merge_head as bs"

section \<open>What the sums mean\<close>

text \<open>A token of one head is its logit and its value row.\<close>

definition weights :: "real \<Rightarrow> (real \<times> real list) list \<Rightarrow> real" where
  "weights m ts = (\<Sum>t\<leftarrow>ts. exp (fst t - m))"

definition weighted :: "real \<Rightarrow> nat \<Rightarrow> (real \<times> real list) list \<Rightarrow> real" where
  "weighted m d ts = (\<Sum>t\<leftarrow>ts. exp (fst t - m) * snd t ! d)"

text \<open>Softmax attention, as one learns it.\<close>

definition attention :: "nat \<Rightarrow> (real \<times> real list) list \<Rightarrow> real list" where
  "attention D ts = map (\<lambda>d. weighted 0 d ts / weights 0 ts) [0..<D]"

lemma shift_sums:
  "weights m ts * exp (m - m') = weights m' ts"
  "weighted m d ts * exp (m - m') = weighted m' d ts"
proof -
  have e: "exp (x - m) * exp (m - m') = exp (x - m')" for x :: real by (simp flip: exp_add)
  have e2: "exp (x - m) * y * exp (m - m') = exp (x - m') * y" for x y :: real
    using e [of x] by (metis mult.assoc mult.commute)
  show "weights m ts * exp (m - m') = weights m' ts"
    by (simp add: weights_def sum_list_mult_const [symmetric] e)
  show "weighted m d ts * exp (m - m') = weighted m' d ts"
    by (simp add: weighted_def sum_list_mult_const [symmetric] e2)
qed

lemma weights_pos: "ts \<noteq> [] \<Longrightarrow> 0 < weights m ts"
proof (induction ts)
  case (Cons t ts)
  then show ?case by (cases "ts = []") (auto simp: weights_def add_pos_pos)
qed simp

lemma weights_append:
  "weights m (ts @ us) = weights m ts + weights m us" "weighted m d (ts @ us) = weighted m d ts + weighted m d us"
  by (simp_all add: weights_def weighted_def)

lemma attention_shift: "attention D ts = map (\<lambda>d. weighted m d ts / weights m ts) [0..<D]"
proof -
  have "exp (0 - m) \<noteq> (0::real)" by simp
  then show ?thesis
    by (simp add: attention_def shift_sums(1) [of 0 ts m, symmetric] shift_sums(2) [of 0 _ ts m, symmetric])
qed

text \<open>What a head's state represents.\<close>

definition head_rep :: "nat \<Rightarrow> (real \<times> real list) list \<Rightarrow> real \<times> real \<times> real list \<Rightarrow> bool" where
  "head_rep D ts s \<longleftrightarrow> (case s of (m, l, acc) \<Rightarrow>
     l = weights m ts \<and> acc = map (\<lambda>d. weighted m d ts) [0..<D])"

lemma head_update_rep:
  assumes "head_rep D ts s" "length xs = length vs"
  shows "head_rep D (ts @ zip xs vs) (head_update xs vs s)"
proof -
  obtain m l acc where s: "s = (m, l, acc)" by (cases s)
  let ?m = "head_max m xs"
  have "map fst (zip xs vs) = xs" using assms(2) by simp
  then have w: "weights ?m (zip xs vs) = (\<Sum>x\<leftarrow>xs. exp (x - ?m))"
    unfolding weights_def by (metis (no_types, lifting) list.map_comp comp_def map_cong)
  then show ?thesis using assms(1)
    by (simp add: s head_rep_def head_update_def Let_def weights_append shift_sums) (simp add: weighted_def)
qed

text \<open>The tokens of head \<open>h\<close> in a partition, and what a whole accumulator represents.\<close>

type_synonym part = "real list list \<times> real list list list"

definition head_tokens :: "nat \<Rightarrow> part \<Rightarrow> (real \<times> real list) list" where
  "head_tokens h p = zip (fst p ! h) (map (\<lambda>v. v ! h) (snd p))"

definition acc_rep :: "nat \<Rightarrow> nat \<Rightarrow> (nat \<Rightarrow> (real \<times> real list) list) \<Rightarrow> softmax_acc \<Rightarrow> bool" where
  "acc_rep H D tss s \<longleftrightarrow> sm_heads s = H \<and> sm_dim s = D \<and> length (sm_l s) = H \<and> length (sm_acc s) = H \<and>
     (\<forall>h<H. head_rep D (tss h) (sm_m s ! h, sm_l s ! h, sm_acc s ! h))"

lemma new_softmax_rep: "acc_rep H D (\<lambda>_. []) (new_softmax H D)"
  by (simp add: acc_rep_def new_softmax_def head_rep_def weights_def weighted_def map_replicate_const)

lemma update_rep:
  assumes "acc_rep H D tss s" "partition_ok H D lg vals"
  shows "\<exists>s'. update_with_partition lg vals s = (Inr (), s') \<and> acc_rep H D (\<lambda>h. tss h @ head_tokens h (lg, vals)) s'"
proof (cases "num_tokens lg = 0")
  case True
  have "head_tokens h (lg, vals) = []" if "h < H" for h
  proof -
    have "lg \<noteq> []" using that assms(2) by (auto simp: partition_ok_def)
    then obtain r rs where "lg = r # rs" by (cases lg) auto
    with True assms(2) have "length vals = 0" by (auto simp: num_tokens_def partition_ok_def)
    then show ?thesis by (simp add: head_tokens_def)
  qed
  with True assms(1) show ?thesis by (simp add: update_with_partition_def acc_rep_def)
next
  case False
  let ?new = "\<lambda>h. head_update (lg ! h) (map (\<lambda>v. v ! h) vals) (sm_m s ! h, sm_l s ! h, sm_acc s ! h)"
  have "head_rep D (tss h @ head_tokens h (lg, vals)) (?new h)" if "h < H" for h
  proof -
    have "length (lg ! h) = length (map (\<lambda>v. v ! h) vals)" using that assms(2) by (auto simp: partition_ok_def)
    then show ?thesis using head_update_rep [of D "tss h"] that assms(1) by (simp add: head_tokens_def acc_rep_def)
  qed
  then show ?thesis using False assms by (simp add: update_with_partition_def acc_rep_def)
qed

fun update_all :: "part list \<Rightarrow> softmax_acc \<Rightarrow> unit res \<times> softmax_acc" where
  "update_all [] s = (Inr (), s)"
| "update_all (p # ps) s = (case update_with_partition (fst p) (snd p) s of
     (Inl e, s1) \<Rightarrow> (Inl e, s1) | (Inr _, s1) \<Rightarrow> update_all ps s1)"

lemma update_all_rep:
  "acc_rep H D tss s \<Longrightarrow> \<forall>p\<in>set ps. partition_ok H D (fst p) (snd p) \<Longrightarrow>
   \<exists>s'. update_all ps s = (Inr (), s') \<and> acc_rep H D (\<lambda>h. tss h @ concat (map (head_tokens h) ps)) s'"
proof (induction ps arbitrary: tss s)
  case (Cons p ps)
  obtain s1 where s1: "update_with_partition (fst p) (snd p) s = (Inr (), s1)"
    "acc_rep H D (\<lambda>h. tss h @ head_tokens h p) s1"
    using update_rep [OF Cons.prems(1), of "fst p" "snd p"] Cons.prems(2) by auto
  from Cons.IH [OF s1(2)] Cons.prems(2) s1(1) show ?case by simp
qed simp

lemma finalize_rep:
  assumes "acc_rep H D tss s" "h < H"
  shows "finalize s ! h = (if tss h = [] then replicate D 0 else attention D (tss h))"
proof -
  have "head_rep D (tss h) (sm_m s ! h, sm_l s ! h, sm_acc s ! h)" and len: "length (sm_l s) = H" "length (sm_acc s) = H"
    using assms by (simp_all add: acc_rep_def)
  then have eq: "sm_l s ! h = weights (sm_m s ! h) (tss h)"
    "sm_acc s ! h = map (\<lambda>d. weighted (sm_m s ! h) d (tss h)) [0..<D]" by (simp_all add: head_rep_def)
  show ?thesis
  proof (cases "tss h = []")
    case True
    then show ?thesis using eq len assms(2)
      by (simp add: finalize_def safe_div_def comp_def weights_def weighted_def map_replicate_const)
  next
    case False
    then show ?thesis using eq len assms(2) weights_pos [OF False, of "sm_m s ! h"]
      by (simp add: finalize_def safe_div_def comp_def attention_shift [of D "tss h" "sm_m s ! h"])
  qed
qed

section \<open>Decode attention over both tiers\<close>

text \<open>An array with three axes as nested lists.\<close>

definition rows_of :: "numpy \<Rightarrow> nat \<Rightarrow> nat \<Rightarrow> nat \<Rightarrow> tensor \<Rightarrow> real list list list" where
  "rows_of np T H D t = (let xs = np_decode np (elem_type t) (raw t)
     in map (\<lambda>i. map (\<lambda>h. map (\<lambda>d. xs ! ((i * H + h) * D + d)) [0..<D]) [0..<H]) [0..<T])"

definition tensor_rows :: "numpy \<Rightarrow> tensor \<Rightarrow> real list list list res" where
  "tensor_rows np t = (case shape t of [T, H, D] \<Rightarrow> Inr (rows_of np T H D t) | _ \<Rightarrow> Inl ValueError)"

text \<open>\<open>topk_vals.reshape(k * tokens, heads, dim)\<close>; other than four axes do not unpack.\<close>

definition flat_rows :: "numpy \<Rightarrow> tensor \<Rightarrow> (nat \<times> real list list list) res" where
  "flat_rows np t = (case shape t of [k, T, H, D] \<Rightarrow> Inr (k * T, rows_of np (k * T) H D t) | _ \<Rightarrow> Inl ValueError)"

text \<open>\<open>matmul\<close> of the query \<open>[H, 1, D]\<close> with the keys transposed to \<open>[H, D, T]\<close>.\<close>

definition hot_logits :: "numpy \<Rightarrow> real \<Rightarrow> tensor \<Rightarrow> tensor \<Rightarrow> real list list res" where
  "hot_logits np scale q k = (case (shape q, shape k) of
     ([H, D], [T, H', D']) \<Rightarrow> (if H = H' \<and> D = D' then head_logits np scale q k else Inl ValueError)
   | _ \<Rightarrow> Inl ValueError)"

record decode_stats =
  ds_layer :: int
  ds_hot_tokens :: nat
  ds_cold_tokens :: nat
  ds_cold_blocks :: nat
  ds_cold_retrieved :: int
  ds_retrieved_tokens :: nat
  ds_effective_tokens :: nat
  ds_pruning_ratio :: real

definition decode_scale :: "'s tier_mgr \<Rightarrow> real" where
  "decode_scale m = 1 / sqrt (real (tm_dim m))"

text \<open>The first half: hot tokens. A partition of no tokens is skipped.\<close>

definition attend_hot :: "numpy \<Rightarrow> tensor \<Rightarrow> int \<Rightarrow> 's tier_mgr \<Rightarrow> (nat \<times> softmax_acc) res" where
  "attend_hot np q layer m =
     rbind (get_hot_kv layer m) (\<lambda>(K, V, idx).
       (let s = new_softmax (tm_heads m) (tm_dim m)
        in if 0 < length idx
           then rbind (hot_logits np (decode_scale m) q K) (\<lambda>lg.
                rbind (tensor_rows np V) (\<lambda>vs.
                  (case update_with_partition lg vs s of (r, s') \<Rightarrow> rbind r (\<lambda>_. Inr (length idx, s')))))
           else Inr (0, s)))"

definition attend_cold :: "numpy \<Rightarrow> topk_answer \<Rightarrow> softmax_acc \<Rightarrow> (nat \<times> softmax_acc) res" where
  "attend_cold np ans s = (case ans of
       TopkEmpty \<Rightarrow> Inl ValueError
     | TopkHits ids vals logits scores \<Rightarrow>
         if ids = [] then Inr (0, s)
         else rbind (flat_rows np vals) (\<lambda>(n, vs).
              (case update_with_partition logits vs s of (r, s') \<Rightarrow> rbind r (\<lambda>_. Inr (n, s')))))"

definition decode_answer :: "int \<Rightarrow> int \<Rightarrow> nat \<Rightarrow> tier_block list \<Rightarrow> nat \<Rightarrow> softmax_acc \<Rightarrow> real list list \<times> decode_stats" where
  "decode_answer layer k nhot cold nret s =
     (let ntok = sum_list (map tb_count cold); nb = length cold
      in (finalize s, \<lparr>ds_layer = layer, ds_hot_tokens = nhot, ds_cold_tokens = ntok, ds_cold_blocks = nb,
            ds_cold_retrieved = min k (int nb), ds_retrieved_tokens = nret, ds_effective_tokens = nhot + nret,
            ds_pruning_ratio = (if 0 < ntok then 1 - real nret / real (max 1 ntok) else 0)\<rparr>))"

definition compute_decode_attention ::
    "numpy \<Rightarrow> c_kernel option \<Rightarrow> int \<Rightarrow> tensor \<Rightarrow> int \<Rightarrow> int option \<Rightarrow> controller tier_mgr \<Rightarrow>
     (real list list \<times> decode_stats) res \<times> controller tier_mgr" where
  "compute_decode_attention np kern default_k q layer top_k m =
     (let k = (case top_k of Some k \<Rightarrow> k | None \<Rightarrow> default_k)
      in case attend_hot np q layer m of
           Inl e \<Rightarrow> (Inl e, m)
         | Inr (nhot, s) \<Rightarrow>
             (let cold = get_cold_blocks layer m
              in if cold = [] then (Inr (decode_answer layer k nhot cold 0 s), m)
                 else (case fc_topk np kern q layer k (tm_store m) of
                         (Inl e, c) \<Rightarrow> (Inl e, m\<lparr>tm_store := c\<rparr>)
                       | (Inr ans, c) \<Rightarrow>
                           (rbind (attend_cold np ans s) (\<lambda>(n, s'). Inr (decode_answer layer k nhot cold n s')),
                            m\<lparr>tm_store := c\<rparr>))))"

section \<open>Properties\<close>

text \<open>C25: The streaming softmax is exact: however the tokens are split into partitions, and whatever the
  sizes of the logits, the finalised context of every head is softmax attention over all its
  tokens (zero when there are none). In particular it does not depend on the split.\<close>

theorem streaming_softmax_exact:
  assumes "\<forall>p\<in>set ps. partition_ok H D (fst p) (snd p)" "h < H"
  shows "\<exists>s. update_all ps (new_softmax H D) = (Inr (), s) \<and>
    finalize s ! h = (if concat (map (head_tokens h) ps) = [] then replicate D 0
                      else attention D (concat (map (head_tokens h) ps)))"
proof -
  obtain s where "update_all ps (new_softmax H D) = (Inr (), s)"
    "acc_rep H D (\<lambda>h. [] @ concat (map (head_tokens h) ps)) s"
    using update_all_rep [OF new_softmax_rep assms(1)] by blast
  with finalize_rep [OF _ assms(2)] show ?thesis by fastforce
qed

lemma streaming_softmax_exact_witness:
  "\<exists>s. update_all [([[0, 1]], [[[5]], [[6]]]), ([[2]], [[[7]]])] (new_softmax 1 1) = (Inr (), s) \<and>
     finalize s ! 0 = attention 1 [(0, [5]), (1, [6]), (2, [7])]"
  using streaming_softmax_exact [of "[([[0, 1]], [[[5]], [[6]]]), ([[2]], [[[7]]])]" 1 1 0]
  by (simp add: partition_ok_def head_tokens_def)

text \<open>Merging is exact: the merge of two normalised results, each over at least one token and each
  with its own maximum, is the normalised result over all tokens.\<close>

theorem merge_online_exact:
  assumes "ta \<noteq> []" "tb \<noteq> []"
  shows "merge_head (ma, weights ma ta, attention D ta) (mb, weights mb tb, attention D tb) =
    (max ma mb, weights (max ma mb) (ta @ tb), attention D (ta @ tb))"
proof -
  let ?m = "max ma mb"
  have w: "exp (ma - ?m) * weights ma ta = weights ?m ta" "exp (mb - ?m) * weights mb tb = weights ?m tb"
    by (simp_all add: shift_sums mult.commute)
  have pos: "weights ?m ta \<noteq> 0" "weights ?m tb \<noteq> 0" "0 < weights ?m (ta @ tb)"
    using weights_pos [OF assms(1), of ?m] weights_pos [OF assms(2), of ?m] by (simp_all add: weights_append)
  have out: "map2 (\<lambda>x y. weights ?m ta * x + weights ?m tb * y) (attention D ta) (attention D tb) =
      map (\<lambda>d. weighted ?m d (ta @ tb)) [0..<D]"
    using pos(1,2) by (simp add: attention_shift [of _ _ ?m] map2_map_map weights_append)
  have "merge_head (ma, weights ma ta, attention D ta) (mb, weights mb tb, attention D tb) =
      (?m, weights ?m (ta @ tb), safe_div (map (\<lambda>d. weighted ?m d (ta @ tb)) [0..<D]) (weights ?m (ta @ tb)))"
    by (simp only: merge_head_def prod.case Let_def w out weights_append)
  moreover have "safe_div (map (\<lambda>d. weighted ?m d (ta @ tb)) [0..<D]) (weights ?m (ta @ tb)) = attention D (ta @ tb)"
    using pos by (simp add: safe_div_def attention_shift [of _ _ ?m] weights_append)
  ultimately show ?thesis by simp
qed

lemma merge_online_exact_witness:
  "merge_head (3, weights 3 [(1, [2])], attention 1 [(1, [2])]) (0, weights 0 [(4, [5])], attention 1 [(4, [5])]) =
   (3, weights 3 [(1, [2]), (4, [5])], attention 1 [(1, [2]), (4, [5])])"
  using merge_online_exact [of "[(1, [2])]" "[(4, [5])]" 3 1 0] by simp

text \<open>A block fetched back into memory is attended twice: it is among the resident blocks that
  supply the hot tokens, and the controller, which keeps its copy, still offers it as a
  candidate of the in-storage top-k.\<close>

theorem fetched_block_attended_twice:
  assumes "mgr_ok fc_lookup fc_inv rs dt m" "i \<in> set (layer_ids layer (tm_pool m))"
    and "dget (bp_blocks (tm_pool m)) i = Some b" "\<not> tb_in_ram b"
    and "fetch_cold_block fc_load_kv i layer m = (r, m')"
  shows "\<exists>b'. r = Inr b' \<and> b' \<in> set (filter resident (pool_layer_blocks layer (tm_pool m'))) \<and> tb_id b' = i \<and>
    i \<in> set (map fst (fc_layer_blocks layer (tm_store m')))"
proof -
  have lay: "layer_ok (fc_lookup (tm_store m)) rs dt (tp_tokens_per_block (tm_policy m)) layer (tm_pool m)"
    and si: "fc_inv (tm_store m)" using assms(1) by (auto simp: mgr_ok_def)
  have b: "tb_id b = i" "tb_layer b = layer" "fc_lookup (tm_store m) (layer, i) \<noteq> None"
    using lay assms(2-4) by (auto simp: layer_ok_def block_ok_def)
  then obtain k v c where kv: "fc_lookup (tm_store m) (layer, i) = Some (k, v)"
    and c: "fc_load_kv i layer (tm_store m) = (Inr (k, v), c)" "fc_same (fc_lookup (tm_store m)) c"
    using fc_load_ok [OF si, where layer = layer and bid = i] by auto
  let ?b = "b\<lparr>tb_k := Some k, tb_v := Some v, tb_in_ram := True, tb_tier := ''HOT_RAM''\<rparr>"
  have r: "r = Inr ?b" "m' = put_block ?b (m\<lparr>tm_store := c\<rparr>)"
    using assms(3-5) c(1) by (simp_all add: fetch_cold_block_def pool_get_block_def Let_def)
  have "?b \<in> set (pool_layer_blocks layer (tm_pool m'))"
    using assms(2) b(1) by (force simp: r(2) put_block_pool pool_layer_blocks_def)
  moreover have "fc_lookup c (layer, i) = Some (k, v)" using c(2) kv by (simp add: fc_same_def)
  then have "i \<in> set (map fst (fc_layer_blocks layer c))"
    by (force simp: fc_layer_blocks_def fc_lookup_def dest: map_of_SomeD)
  ultimately show ?thesis using r b(1) by (simp add: put_block_pool resident_def)
qed

definition cold_start :: "controller tier_mgr" where
  "cold_start = snd (prefill_sequence fc_tier_store 0 (thin [3, 1, 0]) (thin [3, 1, 0])
     (new_manager small_policy 1 0 Int8 (new_controller 1 default_flash_timing default_energy)))"

lemma fetched_block_attended_twice_witness:
  "\<exists>b'. fst (fetch_cold_block fc_load_kv 0 0 cold_start) = Inr b' \<and> tb_id b' = 0 \<and>
     b' \<in> set (filter resident (pool_layer_blocks 0 (tm_pool (snd (fetch_cold_block fc_load_kv 0 0 cold_start))))) \<and>
     0 \<in> set (map fst (fc_layer_blocks 0 (tm_store (snd (fetch_cold_block fc_load_kv 0 0 cold_start)))))"
proof -
  let ?c = "new_controller 1 default_flash_timing default_energy"
  let ?m = "new_manager small_policy 1 0 Int8 ?c"
  have ci: "fc_inv ?c" by (rule new_controller_inv [OF default_flash_timing_ok]) simp
  have rows: "row_ok [1, 0] Int8 3 (thin [3, 1, 0])" by (simp add: row_ok_def thin_def)
  obtain m' where m': "prefill_sequence fc_tier_store 0 (thin [3, 1, 0]) (thin [3, 1, 0]) ?m = (Inr (), m')"
    "mgr_ok fc_lookup fc_inv [1, 0] Int8 m'"
    using fct.prefill_sequence_ok [OF fresh_manager_ok [where sinv = fc_inv and lookup = fc_lookup, OF ci] rows rows, of small_policy 1 0 Int8 0]
    by (auto simp: new_manager_def small_policy_def new_pool_def layer_ids_def)
  obtain c1 where c1: "fc_tier_store 0 0 (thin [2, 1, 0]) (thin [2, 1, 0]) ?c = (Inr (), c1)"
    using fct.store_law [OF ci, of "thin [2, 1, 0]" "thin [2, 1, 0]" 0 0] by (auto simp: thin_def tensor_ok_def)
  have "layer_ids 0 (tm_pool m') = [0, 1] \<and>
      (\<exists>b. dget (bp_blocks (tm_pool m')) 0 = Some b \<and> \<not> tb_in_ram b)"
    using m'(1) c1
    by (auto simp: prefill_sequence_def new_manager_def small_policy_def thin_def row_count_def Let_def upt_rec
        slice_rows_def row_bytes_def pool_allocate_def new_pool_def layer_ids_def pool_get_block_def is_hot_def
        offload_block_def put_block_def)
  moreover have "m' = cold_start" using m'(1) by (simp add: cold_start_def)
  ultimately show ?thesis
    using fetched_block_attended_twice [of "[1, 0]" Int8 cold_start 0 0] m'(2)
    by (metis list.set_intros(1) prod.collapse)
qed

end
