(* ===== verification/Predictor.thy ===== *)
theory Predictor
  imports Prelude
begin

text \<open>
  Next-layer prediction and its access history:
  \<open>person3_system/prefetch/predictor.py\<close> and \<open>history.py\<close>. A record is a layer and the ids seen
  there; the history keeps the newest \<open>capacity\<close> records.
\<close>

record access_history =
  ah_capacity :: int
  ah_records :: "(int \<times> int list) list"

definition new_history :: "int \<Rightarrow> access_history" where
  "new_history c = \<lparr>ah_capacity = c, ah_records = []\<rparr>"

text \<open>\<open>append\<close>, then \<open>pop(0)\<close> when the list has outgrown the capacity.\<close>

definition record_access :: "int \<Rightarrow> int list \<Rightarrow> access_history \<Rightarrow> access_history" where
  "record_access layer ids h =
     (let rs = ah_records h @ [(layer, ids)]
      in h\<lparr>ah_records := (if ah_capacity h < int (length rs) then tl rs else rs)\<rparr>)"

text \<open>\<open>history[-n:]\<close>.\<close>

definition get_recent :: "int \<Rightarrow> access_history \<Rightarrow> (int \<times> int list) list" where
  "get_recent n h = (let rs = ah_records h
     in if n \<le> 0 then drop (nat (- n)) rs else drop (length rs - nat n) rs)"

record layer_predictor =
  lp_total_layers :: int
  lp_history :: access_history

definition new_predictor :: "int \<Rightarrow> layer_predictor" where
  "new_predictor n = \<lparr>lp_total_layers = n, lp_history = new_history 1000\<rparr>"

fun shifted_targets :: "int \<Rightarrow> int list \<Rightarrow> int list \<Rightarrow> int list" where
  "shifted_targets stride [] acc = acc"
| "shifted_targets stride (b # bs) acc =
     shifted_targets stride bs (if b + stride \<in> set acc then acc else acc @ [b + stride])"

definition predict_next_layer_blocks :: "int \<Rightarrow> int list \<Rightarrow> int \<Rightarrow> (layer_predictor, int \<times> int list) meth" where
  "predict_next_layer_blocks layer ids stride p =
     (if lp_total_layers p = 0 then (Inl ZeroDivisionError, p)
      else (Inr ((layer + 1) mod lp_total_layers p, shifted_targets stride ids []),
            p\<lparr>lp_history := record_access layer ids (lp_history p)\<rparr>))"

definition predict_with_confidence :: "int \<Rightarrow> int list \<Rightarrow> (layer_predictor, (int \<times> real) list) meth" where
  "predict_with_confidence layer ids =
     sbind (predict_next_layer_blocks layer ids 0) (\<lambda>(l, bs). sret (map (\<lambda>b. (b, 0.9)) bs))"

lemma shifted_targets_set: "set (shifted_targets s bs acc) = set acc \<union> (\<lambda>b. b + s) ` set bs"
  by (induction bs arbitrary: acc) auto

lemma shifted_targets_distinct: "distinct acc \<Longrightarrow> distinct (shifted_targets s bs acc)"
  by (induction bs arbitrary: acc) auto

lemma record_access_bound:
  "0 \<le> ah_capacity h \<Longrightarrow> int (length (ah_records h)) \<le> ah_capacity h \<Longrightarrow>
   int (length (ah_records (record_access l ids h))) \<le> ah_capacity (record_access l ids h)"
  by (simp add: record_access_def Let_def)

end
