(* ===== verification/PrefetchAdapter.thy ===== *)
theory PrefetchAdapter
  imports Predictor FlashController InferenceBackend
begin

text \<open>
  The prefetch layer of live inference, \<open>RealInferencePrefetchAdapter\<close> in
  \<open>person3_system/prefetch/inference_adapter.py\<close>: a staging buffer in host memory, kept in least
  recently used order, in front of a block store. The store is any object with the page interface
  of the inference backend, a record of its methods (\<open>page_ops\<close>); the branches of the code for
  stores without that interface are not modelled. An asynchronous prefetch submits a job to a
  thread pool; here a job runs at any later step (\<open>ad_complete\<close>) or, at the latest, when an entry
  that waits for it is read. Elapsed times are left out.
\<close>

section \<open>Stores with pages\<close>

record 's page_ops =
  po_write :: "int \<Rightarrow> int \<Rightarrow> tensor \<Rightarrow> tensor \<Rightarrow> int \<Rightarrow> int \<Rightarrow> ('s, unit) meth"
  po_read :: "page_kind \<Rightarrow> int \<Rightarrow> int \<Rightarrow> int \<Rightarrow> int \<Rightarrow> ('s, tensor list) meth"
  po_batch :: "page_kind \<Rightarrow> int \<Rightarrow> int list \<Rightarrow> int \<Rightarrow> int \<Rightarrow> ('s, (int, tensor list) dict) meth"
  po_evict :: "int \<Rightarrow> int \<Rightarrow> ('s, bool) meth"
  po_contains :: "int \<Rightarrow> int \<Rightarrow> 's \<Rightarrow> bool"
  po_reset :: "'s \<Rightarrow> 's"

section \<open>State\<close>

record staged =
  se_size :: int
  se_head :: int
  se_k :: "tensor option"
  se_v :: "tensor option"
  se_job :: "nat option"
  se_useful :: bool

record geom_meta =
  gm_k_shape :: "nat list"
  gm_v_shape :: "nat list"
  gm_dtype :: np_dtype
  gm_head :: int
  gm_token_start :: int

datatype job =
    JPending int "int list" int int
  | JDone int "(int, tensor list) dict res"

record 's adapter =
  ad_store :: 's
  ad_capacity :: int
  ad_block_bytes :: int
  ad_tokens :: nat
  ad_heads :: nat
  ad_dim :: nat
  ad_dtype :: np_dtype
  ad_async :: bool
  ad_staging :: "(int \<times> int, staged) dict"
  ad_meta :: "(int \<times> int, geom_meta) dict"
  ad_predictor :: layer_predictor
  ad_jobs :: "job list"
  ad_reads :: int
  ad_hits :: int
  ad_demand_misses :: int
  ad_requests :: int
  ad_useful :: int
  ad_late :: int
  ad_useless :: int
  ad_prefetched_bytes :: int
  ad_useful_bytes :: int
  ad_wasted_bytes :: int
  ad_demand_bytes :: int
  ad_peak :: int
  ad_batches :: int
  ad_batched :: int
  ad_zero_wait :: int
  ad_partial_wait :: int
  ad_misses :: int
  ad_blocks_written :: int
  ad_bytes_written :: int

text \<open>\<open>str(dtype).lower()\<close> and the element type it selects.\<close>

definition adapter_dtype :: "string \<Rightarrow> np_dtype" where
  "adapter_dtype s = (let t = lower_str s
     in if t \<in> {''fp32'', ''float32''} then Float32
        else if t \<in> {''fp16'', ''float16'', ''bf16''} then Float16 else Int8)"

definition new_adapter :: "'s \<Rightarrow> int \<Rightarrow> int \<Rightarrow> nat \<Rightarrow> nat \<Rightarrow> nat \<Rightarrow> string \<Rightarrow> int \<Rightarrow> bool \<Rightarrow> 's adapter" where
  "new_adapter s cap bytes tok heads dm dt layers async = \<lparr>ad_store = s, ad_capacity = cap, ad_block_bytes = bytes,
     ad_tokens = tok, ad_heads = heads, ad_dim = dm, ad_dtype = adapter_dtype dt, ad_async = async, ad_staging = [],
     ad_meta = [], ad_predictor = new_predictor layers, ad_jobs = [], ad_reads = 0, ad_hits = 0,
     ad_demand_misses = 0, ad_requests = 0, ad_useful = 0, ad_late = 0, ad_useless = 0, ad_prefetched_bytes = 0,
     ad_useful_bytes = 0, ad_wasted_bytes = 0, ad_demand_bytes = 0, ad_peak = 0, ad_batches = 0, ad_batched = 0,
     ad_zero_wait = 0, ad_partial_wait = 0, ad_misses = 0, ad_blocks_written = 0, ad_bytes_written = 0\<rparr>"

definition ad_memory_bytes :: "'s adapter \<Rightarrow> int" where
  "ad_memory_bytes a = int (length (ad_staging a)) * ad_block_bytes a"

definition on_store :: "('s, 'r) meth \<Rightarrow> ('s adapter, 'r) meth" where
  "on_store m a = (case m (ad_store a) of (r, s) \<Rightarrow> (r, a\<lparr>ad_store := s\<rparr>))"

section \<open>The staging buffer\<close>

text \<open>
  \<open>while len(buffer) >= capacity: popitem(last=False)\<close>. With a capacity of zero or less the
  buffer is emptied and the next \<open>popitem\<close> raises \<open>KeyError\<close>.
\<close>

fun evict_loop :: "int \<Rightarrow> (int \<times> int, staged) dict \<Rightarrow> int \<Rightarrow> int \<Rightarrow>
    unit res \<times> (int \<times> int, staged) dict \<times> int \<times> int" where
  "evict_loop cap [] u w = ((if cap \<le> 0 then Inl KeyError else Inr ()), [], u, w)"
| "evict_loop cap ((k, e) # d) u w =
     (if cap \<le> int (length ((k, e) # d))
      then (if se_useful e then evict_loop cap d u w else evict_loop cap d (u + 1) (w + se_size e))
      else (Inr (), (k, e) # d, u, w))"

definition ensure_buffer_capacity :: "('s adapter, unit) meth" where
  "ensure_buffer_capacity a =
     (case evict_loop (ad_capacity a) (ad_staging a) (ad_useless a) (ad_wasted_bytes a) of (r, d, u, w) \<Rightarrow>
        (r, a\<lparr>ad_staging := d, ad_useless := u, ad_wasted_bytes := w\<rparr>))"

definition set_staged :: "int \<times> int \<Rightarrow> staged \<Rightarrow> 's adapter \<Rightarrow> 's adapter" where
  "set_staged key e a = a\<lparr>ad_staging := dset key e (ad_staging a)\<rparr>"

text \<open>The blocks of a finished job, put into the entries that are still staged.\<close>

fun populate :: "int \<Rightarrow> (int, tensor list) dict \<Rightarrow> (int \<times> int, staged) dict \<Rightarrow> (int \<times> int, staged) dict" where
  "populate layer [] d = d"
| "populate layer ((b, ts) # rs) d =
     populate layer rs
       (case dget d (layer, b) of
          None \<Rightarrow> d
        | Some e \<Rightarrow> dset (layer, b) (e\<lparr>se_k := Some (ts ! 0), se_v := Some (ts ! 1), se_job := None\<rparr>) d)"

text \<open>A worker runs job \<open>j\<close>.\<close>

definition ad_complete :: "'s page_ops \<Rightarrow> nat \<Rightarrow> 's adapter \<Rightarrow> 's adapter" where
  "ad_complete ops j a =
     (if j < length (ad_jobs a)
      then (case ad_jobs a ! j of
              JPending layer ids head tok \<Rightarrow>
                (case po_batch ops WholeBlock layer ids head tok (ad_store a) of
                   (r, s) \<Rightarrow> a\<lparr>ad_store := s, ad_jobs := (ad_jobs a)[j := JDone layer r]\<rparr>)
            | JDone _ _ \<Rightarrow> a)
      else a)"

definition job_done :: "nat \<Rightarrow> 's adapter \<Rightarrow> bool" where
  "job_done j a = (case ad_jobs a ! j of JPending _ _ _ _ \<Rightarrow> False | JDone _ _ \<Rightarrow> True)"

definition job_result :: "nat \<Rightarrow> 's adapter \<Rightarrow> (int, tensor list) dict res" where
  "job_result j a = (case ad_jobs a ! j of JPending _ _ _ _ \<Rightarrow> Inr [] | JDone _ r \<Rightarrow> r)"

definition resolve_entry :: "'s page_ops \<Rightarrow> int \<times> int \<Rightarrow> ('s adapter, unit) meth" where
  "resolve_entry ops key a =
     (case dget (ad_staging a) key of
        None \<Rightarrow> (Inr (), a)
      | Some e \<Rightarrow>
          (case se_job e of
             None \<Rightarrow> (Inr (), a)
           | Some j \<Rightarrow>
               (let a1 = ad_complete ops j a
                in case job_result j a1 of
                     Inl err \<Rightarrow> (Inl err, a1)
                   | Inr d \<Rightarrow>
                       (let a2 = (if job_done j a then a1\<lparr>ad_zero_wait := ad_zero_wait a1 + 1\<rparr>
                                  else a1\<lparr>ad_partial_wait := ad_partial_wait a1 + 1\<rparr>)
                        in (Inr (), a2\<lparr>ad_staging := populate (fst key) d (ad_staging a2)\<rparr>)))))"

section \<open>Writing\<close>

definition ad_cast :: "numpy \<Rightarrow> np_dtype \<Rightarrow> kv_data \<Rightarrow> tensor res" where
  "ad_cast np dt x = (case x of
       Arr t \<Rightarrow> Inr (if elem_type t = dt then t else np_astype np dt t)
     | Buf bs \<Rightarrow> (if length bs mod itemsize dt = 0
                  then Inr \<lparr>shape = [length bs div itemsize dt], elem_type = dt, raw = bs\<rparr> else Inl ValueError))"

definition ad_write_block ::
    "numpy \<Rightarrow> 's page_ops \<Rightarrow> int \<Rightarrow> int \<Rightarrow> kv_data \<Rightarrow> kv_data \<Rightarrow> int \<Rightarrow> int \<Rightarrow> ('s adapter, unit) meth" where
  "ad_write_block np ops layer bid kd vd head tok =
     sbind (sread ad_dtype) (\<lambda>dt.
     sbind (slift (ad_cast np dt kd)) (\<lambda>k.
     sbind (slift (ad_cast np dt vd)) (\<lambda>v.
     sthen (supd (\<lambda>a. a\<lparr>ad_meta := dset (layer, bid) \<lparr>gm_k_shape = shape k, gm_v_shape = shape v, gm_dtype = elem_type k,
              gm_head = head, gm_token_start = tok\<rparr> (ad_meta a)\<rparr>))
    (sthen (on_store (po_write ops layer bid k v head tok))
    (supd (\<lambda>a. a\<lparr>ad_blocks_written := ad_blocks_written a + 1,
              ad_bytes_written := ad_bytes_written a + int (nbytes k + nbytes v)\<rparr>))))))"

definition ad_store_kv ::
    "numpy \<Rightarrow> 's page_ops \<Rightarrow> int \<Rightarrow> int \<Rightarrow> kv_data \<Rightarrow> kv_data \<Rightarrow> int \<Rightarrow> int \<Rightarrow> ('s adapter, unit) meth" where
  "ad_store_kv np ops bid layer kd vd head tok = ad_write_block np ops layer bid kd vd head tok"

section \<open>Prefetching\<close>

definition fresh_entry :: "int \<Rightarrow> 's adapter \<Rightarrow> staged" where
  "fresh_entry head a =
     \<lparr>se_size = ad_block_bytes a, se_head = head, se_k = None, se_v = None, se_job = None, se_useful = False\<rparr>"

definition count_dispatch :: "'s adapter \<Rightarrow> 's adapter" where
  "count_dispatch a = a\<lparr>ad_requests := ad_requests a + 1, ad_prefetched_bytes := ad_prefetched_bytes a + ad_block_bytes a\<rparr>"

definition stage_pending :: "int \<Rightarrow> int \<Rightarrow> nat \<Rightarrow> int \<Rightarrow> int list \<Rightarrow> ('s adapter, int list) meth" where
  "stage_pending layer head j bid dispatched =
     sthen (supd (\<lambda>a. count_dispatch (set_staged (layer, bid) ((fresh_entry head a)\<lparr>se_job := Some j\<rparr>) a)))
       (sret (dispatched @ [bid]))"

definition stage_fetched ::
    "'s page_ops \<Rightarrow> int \<Rightarrow> int \<Rightarrow> int \<Rightarrow> (int, tensor list) dict \<Rightarrow> int \<Rightarrow> int list \<Rightarrow> ('s adapter, int list) meth" where
  "stage_fetched ops layer head tok fetched bid dispatched =
     sbind (case dget fetched bid of Some ts \<Rightarrow> sret ts | None \<Rightarrow> on_store (po_read ops WholeBlock layer bid head tok)) (\<lambda>ts.
     sthen (supd (\<lambda>a. count_dispatch (set_staged (layer, bid)
              ((fresh_entry head a)\<lparr>se_k := Some (ts ! 0), se_v := Some (ts ! 1)\<rparr>) a)))
       (sret (dispatched @ [bid])))"

definition update_peak :: "'s adapter \<Rightarrow> 's adapter" where
  "update_peak a = a\<lparr>ad_peak := max (ad_peak a) (ad_memory_bytes a)\<rparr>"

definition ad_prefetch ::
    "'s page_ops \<Rightarrow> int list \<Rightarrow> int \<Rightarrow> int \<Rightarrow> int \<Rightarrow> bool option \<Rightarrow> ('s adapter, int list) meth" where
  "ad_prefetch ops ids layer head tok mode =
     sbind (sread (\<lambda>a. filter (\<lambda>b. \<not> dmem (layer, b) (ad_staging a)) ids)) (\<lambda>miss.
     if miss = [] then sret []
     else sthen (sfor (\<lambda>_ _. ensure_buffer_capacity) miss ())
      (sbind (sread (\<lambda>a. case mode of Some m \<Rightarrow> m | None \<Rightarrow> ad_async a)) (\<lambda>async.
       if async
       then sbind (sread (\<lambda>a. length (ad_jobs a))) (\<lambda>j.
            sthen (supd (\<lambda>a. a\<lparr>ad_jobs := ad_jobs a @ [JPending layer miss head tok]\<rparr>))
           (sbind (sfor (stage_pending layer head j) miss []) (\<lambda>dispatched.
            sthen (supd update_peak) (sret dispatched))))
       else sbind (on_store (po_batch ops WholeBlock layer miss head tok)) (\<lambda>fetched.
            sbind (sfor (stage_fetched ops layer head tok fetched) miss []) (\<lambda>dispatched.
            sthen (supd update_peak) (sret dispatched))))))"

definition ad_predict_and_prefetch ::
    "'s page_ops \<Rightarrow> int \<Rightarrow> int list \<Rightarrow> int \<Rightarrow> bool option \<Rightarrow> ('s adapter, int \<times> int list) meth" where
  "ad_predict_and_prefetch ops layer ids stride mode a =
     (case predict_next_layer_blocks layer ids stride (ad_predictor a) of
        (Inl e, p) \<Rightarrow> (Inl e, a\<lparr>ad_predictor := p\<rparr>)
      | (Inr (next_layer, predicted), p) \<Rightarrow>
          sbind (ad_prefetch ops predicted next_layer 0 0 (Some (case mode of Some m \<Rightarrow> m | None \<Rightarrow> ad_async a)))
            (\<lambda>dispatched. sret (next_layer, dispatched)) (a\<lparr>ad_predictor := p\<rparr>))"

text \<open>\<open>register_block\<close>: a dictionary of arrays, bytes padded to a block and split, or nothing.\<close>

datatype reg_payload = RegArrays kv_data kv_data | RegBytes "byte list" | RegNone

definition reg_halves :: "int \<Rightarrow> reg_payload \<Rightarrow> kv_data \<times> kv_data" where
  "reg_halves n p = (case p of
       RegArrays k v \<Rightarrow> (k, v)
     | RegBytes bs \<Rightarrow> (let r = bs @ replicate (nat n - length bs) 0; half = length r div 2
                      in (Buf (take half r), Buf (drop half r)))
     | RegNone \<Rightarrow> (Buf (replicate (nat (n div 2)) 0), Buf (replicate (nat (n div 2)) 0)))"

definition ad_register_block ::
    "numpy \<Rightarrow> 's page_ops \<Rightarrow> int \<Rightarrow> int \<Rightarrow> int \<Rightarrow> reg_payload \<Rightarrow> int \<Rightarrow> bool \<Rightarrow> ('s adapter, int \<times> int) meth" where
  "ad_register_block np ops bid layer head p tok stage =
     sbind (sread ad_block_bytes) (\<lambda>n.
     sthen (ad_write_block np ops layer bid (fst (reg_halves n p)) (snd (reg_halves n p)) head tok)
    (sthen (if stage then sbind (ad_prefetch ops [bid] layer head tok None) (\<lambda>_. sret ()) else sret ())
    (sret (bid, n))))"

text \<open>A descriptor and its payload: id, layer, first head, first token, tier, keys, values.\<close>

type_synonym layer_block = "int \<times> int \<times> int \<times> int \<times> string \<times> kv_data \<times> kv_data"

definition register_one :: "numpy \<Rightarrow> 's page_ops \<Rightarrow> bool \<Rightarrow> layer_block \<Rightarrow> int \<Rightarrow> ('s adapter, int) meth" where
  "register_one np ops stage x count = (case x of (bid, layer, head, tok, tier, k, v) \<Rightarrow>
     sthen (ad_write_block np ops layer bid k v head tok)
    (sthen (if stage \<and> tier = ''DRAM'' then sbind (ad_prefetch ops [bid] layer 0 0 None) (\<lambda>_. sret ()) else sret ())
    (sret (count + 1))))"

definition ad_register_from_adapter :: "numpy \<Rightarrow> 's page_ops \<Rightarrow> layer_block list \<Rightarrow> bool \<Rightarrow> ('s adapter, int) meth" where
  "ad_register_from_adapter np ops bs stage = sfor (register_one np ops stage) bs 0"

section \<open>Reading\<close>

definition ad_record_hit :: "int \<Rightarrow> 's adapter \<Rightarrow> 's adapter" where
  "ad_record_hit n a = a\<lparr>ad_reads := ad_reads a + 1, ad_hits := ad_hits a + 1, ad_demand_bytes := ad_demand_bytes a + n\<rparr>"

definition ad_record_miss :: "int \<Rightarrow> 's adapter \<Rightarrow> 's adapter" where
  "ad_record_miss n a =
     a\<lparr>ad_reads := ad_reads a + 1, ad_demand_misses := ad_demand_misses a + 1, ad_demand_bytes := ad_demand_bytes a + n\<rparr>"

fun ad_page_size :: "page_kind \<Rightarrow> 's adapter \<Rightarrow> int" where
  "ad_page_size KeyPage a = KEY_PAGE_BYTES"
| "ad_page_size ValuePage a = VALUE_PAGE_BYTES"
| "ad_page_size WholeBlock a = ad_block_bytes a"

definition mark_useful :: "int \<times> int \<Rightarrow> int \<Rightarrow> 's adapter \<Rightarrow> 's adapter" where
  "mark_useful key n a = (case dget (ad_staging a) key of
       None \<Rightarrow> a
     | Some e \<Rightarrow> if se_useful e then a
                else (set_staged key (e\<lparr>se_useful := True\<rparr>) a)
                       \<lparr>ad_useful := ad_useful a + 1, ad_useful_bytes := ad_useful_bytes a + n\<rparr>)"

text \<open>The default shape: \<open>_block_meta\<close> never holds the key \<open>"shape"\<close> the code asks it for.\<close>

definition ad_default_shape :: "'s adapter \<Rightarrow> nat list" where
  "ad_default_shape a = [ad_tokens a, ad_heads a, ad_dim a]"

definition reshape :: "nat list \<Rightarrow> tensor \<Rightarrow> tensor res" where
  "reshape sh t = (if shape t = sh then Inr t
     else if prod_list sh = prod_list (shape t) then Inr (t\<lparr>shape := sh\<rparr>) else Inl ValueError)"

text \<open>Zeros in place of data, for an entry without: the key bytes, or the value bytes.\<close>

definition zero_page :: "np_dtype \<Rightarrow> nat \<Rightarrow> tensor res" where
  "zero_page dt n = (if n mod itemsize dt = 0 then Inr (zeros [n div itemsize dt] dt) else Inl ValueError)"

definition key_zeros :: "'s adapter \<Rightarrow> tensor res" where
  "key_zeros a = zero_page (ad_dtype a) (min 4096 (nat (ad_block_bytes a)))"

definition value_zeros :: "'s adapter \<Rightarrow> tensor res" where
  "value_zeros a = zero_page (ad_dtype a) (min 4096 (nat (ad_block_bytes a) - 4096))"

definition hit_key :: "bool \<Rightarrow> staged \<Rightarrow> 's adapter \<Rightarrow> tensor res" where
  "hit_key shaped e a = (case se_k e of
       Some k \<Rightarrow> (if shaped then reshape (ad_default_shape a) k else Inr k)
     | None \<Rightarrow> (if shaped then rbind (key_zeros a) (reshape (ad_default_shape a)) else key_zeros a))"

definition hit_value :: "bool \<Rightarrow> staged \<Rightarrow> 's adapter \<Rightarrow> tensor res" where
  "hit_value shaped e a = (case se_v e of
       Some v \<Rightarrow> (if shaped then reshape (ad_default_shape a) v else Inr v)
     | None \<Rightarrow> (if shaped then rbind (value_zeros a) (reshape (ad_default_shape a)) else value_zeros a))"

definition hit_block :: "staged \<Rightarrow> 's adapter \<Rightarrow> tensor list res" where
  "hit_block e a = (case (se_k e, se_v e) of
       (Some k, Some v) \<Rightarrow> rbind (reshape (ad_default_shape a) k) (\<lambda>k'.
          rbind (reshape (ad_default_shape a) v) (\<lambda>v'. Inr [k', v']))
     | _ \<Rightarrow> rbind (rbind (key_zeros a) (reshape (ad_default_shape a))) (\<lambda>k'.
          rbind (rbind (value_zeros a) (reshape (ad_default_shape a))) (\<lambda>v'. Inr [k', v'])))"

text \<open>A single key or value page keeps the staged shape; blocks and batches reshape.\<close>

fun hit_pages :: "bool \<Rightarrow> page_kind \<Rightarrow> staged \<Rightarrow> 's adapter \<Rightarrow> tensor list res" where
  "hit_pages shaped KeyPage e a = rbind (hit_key shaped e a) (\<lambda>k. Inr [k])"
| "hit_pages shaped ValuePage e a = rbind (hit_value shaped e a) (\<lambda>v. Inr [v])"
| "hit_pages shaped WholeBlock e a = hit_block e a"

definition ad_hit :: "'s page_ops \<Rightarrow> bool \<Rightarrow> page_kind \<Rightarrow> int \<times> int \<Rightarrow> ('s adapter, tensor list) meth" where
  "ad_hit ops shaped pk key =
     sthen (resolve_entry ops key)
    (sthen (supd (\<lambda>a. a\<lparr>ad_staging := move_to_end key (ad_staging a)\<rparr>))
    (sthen (supd (\<lambda>a. mark_useful key (ad_page_size pk a) a))
    (sthen (supd (\<lambda>a. ad_record_hit (ad_page_size pk a) a))
    (sbind (sread (\<lambda>a. hit_pages shaped pk (the (dget (ad_staging a) key)) a)) slift))))"

text \<open>\<open>read_key_page\<close>, \<open>read_value_page\<close> and \<open>read_block\<close>.\<close>

definition ad_read :: "'s page_ops \<Rightarrow> page_kind \<Rightarrow> int \<Rightarrow> int \<Rightarrow> int \<Rightarrow> int \<Rightarrow> ('s adapter, tensor list) meth" where
  "ad_read ops pk layer bid head tok =
     sbind (sread (\<lambda>a. dmem (layer, bid) (ad_staging a))) (\<lambda>hit.
       if hit then ad_hit ops False pk (layer, bid)
       else sthen (supd (\<lambda>a. a\<lparr>ad_misses := ad_misses a + 1\<rparr>))
           (sbind (on_store (po_read ops pk layer bid head tok)) (\<lambda>ts.
            sthen (supd (\<lambda>a. ad_record_miss (ad_page_size pk a) a)) (sret ts))))"

text \<open>The three batched reads: hits one by one, then one request for the misses.\<close>

definition batch_hit ::
    "'s page_ops \<Rightarrow> page_kind \<Rightarrow> int \<Rightarrow> int \<Rightarrow> (int, tensor list) dict \<times> int list \<Rightarrow>
     ('s adapter, (int, tensor list) dict \<times> int list) meth" where
  "batch_hit ops pk layer bid acc = (case acc of (results, misses) \<Rightarrow>
     sbind (sread (\<lambda>a. dmem (layer, bid) (ad_staging a))) (\<lambda>hit.
       if hit then sbind (ad_hit ops True pk (layer, bid)) (\<lambda>ts. sret (dset bid ts results, misses))
       else sthen (supd (\<lambda>a. a\<lparr>ad_misses := ad_misses a + 1\<rparr>)) (sret (results, misses @ [bid]))))"

definition dict_update :: "('k, 'v) dict \<Rightarrow> ('k, 'v) dict \<Rightarrow> ('k, 'v) dict" where
  "dict_update d e = fold (\<lambda>(k, v). dset k v) e d"

definition ad_read_batch ::
    "'s page_ops \<Rightarrow> page_kind \<Rightarrow> int \<Rightarrow> int list \<Rightarrow> int \<Rightarrow> int \<Rightarrow> ('s adapter, (int, tensor list) dict) meth" where
  "ad_read_batch ops pk layer ids head tok =
     (if ids = [] then sret []
      else sbind (sfor (batch_hit ops pk layer) ids ([], [])) (\<lambda>(results, misses).
           sbind (if misses = [] then sret results
                  else sbind (on_store (po_batch ops pk layer misses head tok)) (\<lambda>fetched.
                       sthen (supd (\<lambda>a. fold (\<lambda>_ a. ad_record_miss (ad_page_size pk a) a) misses a))
                         (sret (dict_update results fetched)))) (\<lambda>out.
           sthen (supd (\<lambda>a. a\<lparr>ad_batches := ad_batches a + 1, ad_batched := ad_batched a + int (length ids)\<rparr>))
             (sret out))))"

text \<open>\<open>read\<close>: the pages by name; \<open>bytes_of\<close> is \<open>tobytes\<close>.\<close>

definition ad_read_named ::
    "'s page_ops \<Rightarrow> int \<Rightarrow> int \<Rightarrow> string \<Rightarrow> int \<Rightarrow> int \<Rightarrow> ('s adapter, tensor list) meth" where
  "ad_read_named ops layer bid sub head tok =
     (let u = upper_str sub
      in if u = ''KEY'' then ad_read ops KeyPage layer bid head tok
         else if u = ''VALUE'' then ad_read ops ValuePage layer bid head tok
         else if u = ''BOTH'' then ad_read ops WholeBlock layer bid head tok
         else sraise ValueError)"

definition bytes_of :: "tensor list \<Rightarrow> byte list" where
  "bytes_of ts = concat (map raw ts)"

definition ad_get_blocks ::
    "'s page_ops \<Rightarrow> int list \<Rightarrow> int \<Rightarrow> int \<Rightarrow> string \<Rightarrow> ('s adapter, (int, tensor list) dict) meth" where
  "ad_get_blocks ops ids layer head sub =
     sfor (\<lambda>bid acc. sbind (ad_read_named ops layer bid sub head 0) (\<lambda>ts. sret (dset bid ts acc))) ids []"

definition ad_contains_block :: "'s page_ops \<Rightarrow> int \<Rightarrow> int \<Rightarrow> 's adapter \<Rightarrow> bool" where
  "ad_contains_block ops layer bid a = (dmem (layer, bid) (ad_staging a) \<or> po_contains ops layer bid (ad_store a))"

definition ad_evict_block :: "'s page_ops \<Rightarrow> int \<Rightarrow> int \<Rightarrow> ('s adapter, bool) meth" where
  "ad_evict_block ops layer bid =
     sthen (supd (\<lambda>a. a\<lparr>ad_staging := dpop (layer, bid) (ad_staging a)\<rparr>)) (on_store (po_evict ops layer bid))"

definition ad_reset_stats :: "'s page_ops \<Rightarrow> 's adapter \<Rightarrow> 's adapter" where
  "ad_reset_stats ops a = a\<lparr>ad_store := po_reset ops (ad_store a), ad_staging := [], ad_reads := 0, ad_hits := 0,
     ad_demand_misses := 0, ad_requests := 0, ad_useful := 0, ad_late := 0, ad_useless := 0, ad_prefetched_bytes := 0,
     ad_useful_bytes := 0, ad_wasted_bytes := 0, ad_demand_bytes := 0, ad_peak := 0, ad_batches := 0, ad_batched := 0,
     ad_zero_wait := 0, ad_partial_wait := 0, ad_misses := 0, ad_blocks_written := 0, ad_bytes_written := 0\<rparr>"

definition ad_clear :: "'s page_ops \<Rightarrow> 's adapter \<Rightarrow> 's adapter" where
  "ad_clear ops a = (ad_reset_stats ops a)\<lparr>ad_meta := []\<rparr>"

section \<open>Telemetry\<close>

definition per_cent :: "real \<Rightarrow> real" where
  "per_cent x = round_to 2 (x * 100)"

definition in_mb :: "int \<Rightarrow> real" where
  "in_mb n = round_to 4 (of_int n / (1024 * 1024))"

record adapter_telemetry =
  at_demand :: int
  at_hits :: int
  at_misses :: int
  at_requests :: int
  at_useful :: int
  at_late :: int
  at_useless :: int
  at_hit_rate :: real
  at_hit_rate_pct :: real
  at_accuracy :: real
  at_accuracy_pct :: real
  at_demand_bytes :: int
  at_prefetched_bytes :: int
  at_useful_bytes :: int
  at_wasted_bytes :: int
  at_total_bytes :: int
  at_batches :: int
  at_batched :: int
  at_avg_batch :: real
  at_staging_bytes :: int
  at_staging_mb :: real
  at_peak_bytes :: int
  at_peak_mb :: real
  at_capacity :: int
  at_staged :: int
  at_async :: bool
  at_zero_wait :: int
  at_partial_wait :: int
  at_all_misses :: int

definition ad_get_telemetry :: "'s adapter \<Rightarrow> adapter_telemetry" where
  "ad_get_telemetry a =
     (let unread = int (length (filter (\<lambda>e. \<not> se_useful e) (dvalues (ad_staging a))));
          wasted = ad_wasted_bytes a + unread * ad_block_bytes a;
          hit_rate = ratio (ad_hits a) (ad_reads a);
          accuracy = ratio (ad_useful a) (ad_requests a)
      in \<lparr>at_demand = ad_reads a, at_hits = ad_hits a, at_misses = ad_demand_misses a, at_requests = ad_requests a,
          at_useful = ad_useful a, at_late = ad_late a, at_useless = ad_useless a + unread,
          at_hit_rate = round_to 4 hit_rate, at_hit_rate_pct = per_cent hit_rate,
          at_accuracy = round_to 4 accuracy, at_accuracy_pct = per_cent accuracy,
          at_demand_bytes = ad_demand_bytes a, at_prefetched_bytes = ad_prefetched_bytes a,
          at_useful_bytes = ad_useful_bytes a, at_wasted_bytes = wasted, at_total_bytes = ad_demand_bytes a + wasted,
          at_batches = ad_batches a, at_batched = ad_batched a,
          at_avg_batch = (if 0 < ad_batches a then round_to 2 (of_int (ad_batched a) / of_int (max 1 (ad_batches a))) else 1),
          at_staging_bytes = ad_memory_bytes a, at_staging_mb = in_mb (ad_memory_bytes a),
          at_peak_bytes = ad_peak a, at_peak_mb = in_mb (ad_peak a),
          at_capacity = ad_capacity a, at_staged = int (length (ad_staging a)), at_async = ad_async a,
          at_zero_wait = ad_zero_wait a, at_partial_wait = ad_partial_wait a, at_all_misses = ad_misses a\<rparr>)"

text \<open>The readers the callers see, and the same operations in other argument orders.\<close>

definition ad_read_key_page :: "'s page_ops \<Rightarrow> int \<Rightarrow> int \<Rightarrow> int \<Rightarrow> int \<Rightarrow> ('s adapter, tensor) meth" where
  "ad_read_key_page ops layer bid head tok = sbind (ad_read ops KeyPage layer bid head tok) (\<lambda>ts. sret (ts ! 0))"

definition ad_read_value_page :: "'s page_ops \<Rightarrow> int \<Rightarrow> int \<Rightarrow> int \<Rightarrow> int \<Rightarrow> ('s adapter, tensor) meth" where
  "ad_read_value_page ops layer bid head tok = sbind (ad_read ops ValuePage layer bid head tok) (\<lambda>ts. sret (ts ! 0))"

definition ad_read_block :: "'s page_ops \<Rightarrow> int \<Rightarrow> int \<Rightarrow> int \<Rightarrow> int \<Rightarrow> ('s adapter, tensor \<times> tensor) meth" where
  "ad_read_block ops layer bid head tok = sbind (ad_read ops WholeBlock layer bid head tok) (\<lambda>ts. sret (ts ! 0, ts ! 1))"

definition ad_read_key_page_batch ::
    "'s page_ops \<Rightarrow> int \<Rightarrow> int list \<Rightarrow> int \<Rightarrow> int \<Rightarrow> ('s adapter, (int, tensor) dict) meth" where
  "ad_read_key_page_batch ops layer ids head tok =
     sbind (ad_read_batch ops KeyPage layer ids head tok) (\<lambda>d. sret (map (\<lambda>(i, ts). (i, ts ! 0)) d))"

definition ad_read_value_page_batch ::
    "'s page_ops \<Rightarrow> int \<Rightarrow> int list \<Rightarrow> int \<Rightarrow> int \<Rightarrow> ('s adapter, (int, tensor) dict) meth" where
  "ad_read_value_page_batch ops layer ids head tok =
     sbind (ad_read_batch ops ValuePage layer ids head tok) (\<lambda>d. sret (map (\<lambda>(i, ts). (i, ts ! 0)) d))"

definition ad_read_block_batch ::
    "'s page_ops \<Rightarrow> int \<Rightarrow> int list \<Rightarrow> int \<Rightarrow> int \<Rightarrow> ('s adapter, (int, tensor \<times> tensor) dict) meth" where
  "ad_read_block_batch ops layer ids head tok =
     sbind (ad_read_batch ops WholeBlock layer ids head tok) (\<lambda>d. sret (map (\<lambda>(i, ts). (i, (ts ! 0, ts ! 1))) d))"

definition ad_load_key_page :: "'s page_ops \<Rightarrow> int \<Rightarrow> int \<Rightarrow> int \<Rightarrow> int \<Rightarrow> ('s adapter, tensor) meth" where
  "ad_load_key_page ops bid layer head tok = ad_read_key_page ops layer bid head tok"

definition ad_load_value_page :: "'s page_ops \<Rightarrow> int \<Rightarrow> int \<Rightarrow> int \<Rightarrow> int \<Rightarrow> ('s adapter, tensor) meth" where
  "ad_load_value_page ops bid layer head tok = ad_read_value_page ops layer bid head tok"

definition ad_load_kv :: "'s page_ops \<Rightarrow> int \<Rightarrow> int \<Rightarrow> int \<Rightarrow> int \<Rightarrow> ('s adapter, tensor \<times> tensor) meth" where
  "ad_load_kv ops bid layer head tok = ad_read_block ops layer bid head tok"

definition ad_evict_kv :: "'s page_ops \<Rightarrow> int \<Rightarrow> int \<Rightarrow> ('s adapter, bool) meth" where
  "ad_evict_kv ops bid layer = ad_evict_block ops layer bid"

text \<open>Filtering in storage is passed on to the store.\<close>

definition ad_compute_topk_filter :: "(int \<Rightarrow> 'q \<Rightarrow> ('s, 'r) meth) \<Rightarrow> int \<Rightarrow> 'q \<Rightarrow> ('s adapter, 'r) meth" where
  "ad_compute_topk_filter op layer q = on_store (op layer q)"

section \<open>Calls\<close>

datatype ad_call =
    AdWrite int int kv_data kv_data int int
  | AdRead page_kind int int int int
  | AdBatch page_kind int "int list" int int
  | AdPrefetch "int list" int int int "bool option"
  | AdPredict int "int list" int "bool option"
  | AdComplete nat
  | AdEvict int int
  | AdReset
  | AdClear

fun ad_do :: "numpy \<Rightarrow> 's page_ops \<Rightarrow> ad_call \<Rightarrow> 's adapter \<Rightarrow> 's adapter" where
  "ad_do np ops (AdWrite layer bid k v head tok) a = snd (ad_write_block np ops layer bid k v head tok a)"
| "ad_do np ops (AdRead pk layer bid head tok) a = snd (ad_read ops pk layer bid head tok a)"
| "ad_do np ops (AdBatch pk layer ids head tok) a = snd (ad_read_batch ops pk layer ids head tok a)"
| "ad_do np ops (AdPrefetch ids layer head tok mode) a = snd (ad_prefetch ops ids layer head tok mode a)"
| "ad_do np ops (AdPredict layer ids stride mode) a = snd (ad_predict_and_prefetch ops layer ids stride mode a)"
| "ad_do np ops (AdComplete j) a = ad_complete ops j a"
| "ad_do np ops (AdEvict layer bid) a = snd (ad_evict_block ops layer bid a)"
| "ad_do np ops AdReset a = ad_reset_stats ops a"
| "ad_do np ops AdClear a = ad_clear ops a"

text \<open>
  No staged copy of the block, and no finished job that still has one to deliver: a write or an
  eviction then leaves no old data behind. Jobs that have not run yet do no harm, they will read
  the new data.
\<close>

definition entry_quiet :: "int \<Rightarrow> int \<Rightarrow> job list \<Rightarrow> int \<times> int \<Rightarrow> staged \<Rightarrow> bool" where
  "entry_quiet layer bid jobs key e = (case se_job e of
     None \<Rightarrow> key \<noteq> (layer, bid)
   | Some j \<Rightarrow> (case jobs ! j of
       JPending _ _ _ _ \<Rightarrow> True
     | JDone l r \<Rightarrow> l = layer \<longrightarrow> (case r of Inl _ \<Rightarrow> True | Inr d \<Rightarrow> \<not> dmem bid d)))"

definition quiet :: "int \<Rightarrow> int \<Rightarrow> 's adapter \<Rightarrow> bool" where
  "quiet layer bid a \<longleftrightarrow> (\<forall>(key, e)\<in>set (ad_staging a). entry_quiet layer bid (ad_jobs a) key e)"

fun call_safe :: "numpy \<Rightarrow> ad_call \<Rightarrow> 's adapter \<Rightarrow> bool" where
  "call_safe np (AdWrite layer bid kd vd head tok) a \<longleftrightarrow> quiet layer bid a \<and>
     (case (ad_cast np (ad_dtype a) kd, ad_cast np (ad_dtype a) vd) of
        (Inr k, Inr v) \<Rightarrow> tensor_ok k \<and> tensor_ok v
      | _ \<Rightarrow> True)"
| "call_safe np (AdEvict layer bid) a \<longleftrightarrow> quiet layer bid (a\<lparr>ad_staging := dpop (layer, bid) (ad_staging a)\<rparr>)"
| "call_safe np _ a \<longleftrightarrow> True"

text \<open>The adapters reached from \<open>a0\<close> by such calls, with jobs running at any moment between them.\<close>

inductive ad_reach :: "numpy \<Rightarrow> 's page_ops \<Rightarrow> 's adapter \<Rightarrow> 's adapter \<Rightarrow> bool" for np ops a0 where
  reach_start: "ad_reach np ops a0 a0"
| reach_call: "ad_reach np ops a0 a \<Longrightarrow> call_safe np c a \<Longrightarrow> ad_reach np ops a0 (ad_do np ops c a)"

end
