(* ===== verification/PrefetchCoherence.thy ===== *)
theory PrefetchCoherence
  imports PrefetchAdapter
begin

text \<open>
  What the prefetch adapter promises: the contract it asks of a page store, the proof that what
  is staged is what is stored along every safe sequence of calls, the inference backend as an
  instance of the contract, and the limits of the adapter (stale copies, shapes, capacity).
\<close>

section \<open>The contract of a page store\<close>

fun pages_of :: "page_kind \<Rightarrow> tensor \<times> tensor \<Rightarrow> tensor list" where
  "pages_of KeyPage kv = [fst kv]"
| "pages_of ValuePage kv = [snd kv]"
| "pages_of WholeBlock kv = [fst kv, snd kv]"

text \<open>
  Every block has a content, \<open>page\<close>. Reads and batches return contents and change none; a store that is
  also written to sets the content of the block, and evicting changes no other block.
\<close>

locale page_reader =
  fixes ops :: "'s page_ops" and page :: "'s \<Rightarrow> int \<times> int \<Rightarrow> tensor \<times> tensor" and sinv :: "'s \<Rightarrow> bool"
  assumes read_law: "sinv s \<Longrightarrow>
      \<exists>s'. po_read ops pk layer bid head tok s = (Inr (pages_of pk (page s (layer, bid))), s') \<and> sinv s' \<and> page s' = page s"
    and batch_law: "sinv s \<Longrightarrow>
      \<exists>d s'. po_batch ops pk layer ids head tok s = (Inr d, s') \<and> sinv s' \<and> page s' = page s \<and> dict_ok d \<and>
        (\<forall>i. dget d i = (if i \<in> set ids then Some (pages_of pk (page s (layer, i))) else None))"

locale page_backend = page_reader ops page sinv
  for ops :: "'s page_ops" and page :: "'s \<Rightarrow> int \<times> int \<Rightarrow> tensor \<times> tensor" and sinv :: "'s \<Rightarrow> bool" +
  assumes write_law: "sinv s \<Longrightarrow> tensor_ok k \<Longrightarrow> tensor_ok v \<Longrightarrow>
      \<exists>s'. po_write ops layer bid k v head tok s = (Inr (), s') \<and> sinv s' \<and> page s' = (page s)((layer, bid) := (k, v))"
    and evict_law: "sinv s \<Longrightarrow>
      \<exists>r s'. po_evict ops layer bid s = (Inr r, s') \<and> sinv s' \<and> (\<forall>j. j \<noteq> (layer, bid) \<longrightarrow> page s' j = page s j)"
    and reset_law: "sinv s \<Longrightarrow> sinv (po_reset ops s) \<and> page (po_reset ops s) = page s"

section \<open>What is staged is what is stored\<close>

definition rows_fresh :: "(int \<times> int \<Rightarrow> tensor \<times> tensor) \<Rightarrow> int \<Rightarrow> (int, tensor list) dict \<Rightarrow> bool" where
  "rows_fresh P layer d \<longleftrightarrow> dict_ok d \<and> (\<forall>(b, ts)\<in>set d. ts = pages_of WholeBlock (P (layer, b)))"

fun job_fresh :: "(int \<times> int \<Rightarrow> tensor \<times> tensor) \<Rightarrow> int \<Rightarrow> int \<Rightarrow> job \<Rightarrow> bool" where
  "job_fresh P layer bid (JPending l ids h t) \<longleftrightarrow> l = layer \<and> bid \<in> set ids"
| "job_fresh P layer bid (JDone l r) \<longleftrightarrow> l = layer \<and> (case r of
     Inl e \<Rightarrow> False
   | Inr d \<Rightarrow> rows_fresh P layer d \<and> dget d bid \<noteq> None)"

definition staged_fresh :: "(int \<times> int \<Rightarrow> tensor \<times> tensor) \<Rightarrow> job list \<Rightarrow> int \<times> int \<Rightarrow> staged \<Rightarrow> bool" where
  "staged_fresh P jobs key e = (case se_job e of
     None \<Rightarrow> se_k e = Some (fst (P key)) \<and> se_v e = Some (snd (P key))
   | Some j \<Rightarrow> j < length jobs \<and> job_fresh P (fst key) (snd key) (jobs ! j))"

definition staging_fresh :: "(int \<times> int \<Rightarrow> tensor \<times> tensor) \<Rightarrow> job list \<Rightarrow> (int \<times> int, staged) dict \<Rightarrow> bool" where
  "staging_fresh P jobs d \<longleftrightarrow> dict_ok d \<and> (\<forall>key e. dget d key = Some e \<longrightarrow> staged_fresh P jobs key e)"

definition ad_fresh :: "('s \<Rightarrow> int \<times> int \<Rightarrow> tensor \<times> tensor) \<Rightarrow> ('s \<Rightarrow> bool) \<Rightarrow>
    (int \<times> int \<Rightarrow> tensor \<times> tensor) \<Rightarrow> 's adapter \<Rightarrow> bool" where
  "ad_fresh page sinv P a \<longleftrightarrow> sinv (ad_store a) \<and> page (ad_store a) = P \<and> staging_fresh P (ad_jobs a) (ad_staging a)"

lemma rows_freshD: "rows_fresh P layer d \<Longrightarrow> dget d b = Some ts \<Longrightarrow> ts = pages_of WholeBlock (P (layer, b))"
  by (drule map_of_SomeD) (auto simp: rows_fresh_def)

lemma rows_freshI:
  assumes "dict_ok d" "\<And>b ts. dget d b = Some ts \<Longrightarrow> ts = pages_of WholeBlock (P (layer, b))"
  shows "rows_fresh P layer d"
  using assms by (auto simp: rows_fresh_def dict_ok_def intro: map_of_is_SomeI)

lemma staging_fresh_dset:
  "staging_fresh P jobs d \<Longrightarrow> staged_fresh P jobs key e \<Longrightarrow> staging_fresh P jobs (dset key e d)"
  by (auto simp: staging_fresh_def dict_simps split: if_splits)

lemma staging_fresh_dpop: "staging_fresh P jobs d \<Longrightarrow> staging_fresh P jobs (dpop key d)"
  by (auto simp: staging_fresh_def dict_simps split: if_splits)

lemma staging_fresh_move: "staging_fresh P jobs d \<Longrightarrow> staging_fresh P jobs (move_to_end key d)"
  by (simp add: staging_fresh_def)

lemma staging_fresh_suffix:
  assumes "staging_fresh P jobs (xs @ d)"
  shows "staging_fresh P jobs d"
proof -
  have dis: "dict_ok (xs @ d)" using assms by (simp add: staging_fresh_def)
  have "dget (xs @ d) k = Some e" if "dget d k = Some e" for k e
  proof -
    have "k \<in> fst ` set d" using that by (force dest: map_of_SomeD)
    then have "k \<notin> fst ` set xs" using dis by (auto simp: dict_ok_def)
    then have "dget xs k = None" by (simp add: map_of_eq_None_iff)
    then show ?thesis using that by (simp add: map_add_def)
  qed
  with assms dis show ?thesis by (auto simp: staging_fresh_def dict_ok_def)
qed

lemma evict_loop_suffix: "evict_loop cap d u w = (r, d', u', w') \<Longrightarrow> \<exists>xs. d = xs @ d'"
  by (induction cap d u w arbitrary: r d' u' w' rule: evict_loop.induct) (fastforce split: if_splits)+

lemma populate_dget:
  "dict_ok rs \<Longrightarrow> dget (populate layer rs d) key = (case dget d key of
     None \<Rightarrow> None
   | Some e \<Rightarrow> (if fst key = layer then (case dget rs (snd key) of
                  None \<Rightarrow> Some e
                | Some ts \<Rightarrow> Some (e\<lparr>se_k := Some (ts ! 0), se_v := Some (ts ! 1), se_job := None\<rparr>)) else Some e))"
proof (induction layer rs d rule: populate.induct)
  case (1 layer d)
  then show ?case by (simp split: option.split)
next
  case (2 layer b ts rs d)
  have "dict_ok rs" and nb: "dget rs b = None"
    using 2(2) by (auto simp: dict_ok_def map_of_eq_None_iff)
  note IH = 2(1) [OF this(1)]
  show ?case
  proof (cases "key = (layer, b)")
    case True
    then show ?thesis using IH nb by (auto simp: dict_simps split: option.splits)
  next
    case False
    then show ?thesis using IH by (cases key) (auto simp: dict_simps split: option.splits if_splits)
  qed
qed

lemma dict_ok_populate: "dict_ok d \<Longrightarrow> dict_ok (populate layer rs d)"
  by (induction layer rs d rule: populate.induct) (auto split: option.splits)

lemma populate_fresh:
  assumes "staging_fresh P jobs d" "rows_fresh P layer rs"
  shows "staging_fresh P jobs (populate layer rs d)"
proof -
  have rs: "dict_ok rs" using assms(2) by (simp add: rows_fresh_def)
  have "staged_fresh P jobs key e" if got: "dget (populate layer rs d) key = Some e" for key e
  proof -
    obtain e0 where e0: "dget d key = Some e0"
      using got populate_dget [OF rs, of layer d key] by (cases "dget d key") simp_all
    then have f: "staged_fresh P jobs key e0" using assms(1) by (cases key) (simp add: staging_fresh_def)
    show ?thesis
    proof (cases "fst key = layer \<and> dget rs (snd key) \<noteq> None")
      case True
      then obtain ts where ts: "dget rs (snd key) = Some ts" by auto
      then have ts2: "ts = pages_of WholeBlock (P key)" using rows_freshD [OF assms(2)] True by (cases key) auto
      have "e = e0\<lparr>se_k := Some (ts ! 0), se_v := Some (ts ! 1), se_job := None\<rparr>"
        using got e0 True ts by (simp add: populate_dget [OF rs])
      then show ?thesis using ts2 by (simp add: staged_fresh_def)
    next
      case False
      then have "e = e0" using got e0 by (auto simp: populate_dget [OF rs] split: if_splits option.splits)
      with f show ?thesis by simp
    qed
  qed
  then show ?thesis using assms(1) dict_ok_populate by (auto simp: staging_fresh_def)
qed

lemma fresh_entryD: "ad_fresh page sinv P a \<Longrightarrow> dget (ad_staging a) key = Some e \<Longrightarrow> staged_fresh P (ad_jobs a) key e"
  by (cases key) (simp add: ad_fresh_def staging_fresh_def)

text \<open>Jobs are only added, or turned from pending to done.\<close>

lemma jobs_grow:
  assumes "staging_fresh P jobs d" "length jobs \<le> length jobs'"
    and "\<And>j l b. j < length jobs \<Longrightarrow> job_fresh P l b (jobs ! j) \<Longrightarrow> job_fresh P l b (jobs' ! j)"
  shows "staging_fresh P jobs' d"
proof -
  have "staged_fresh P jobs' key e" if "dget d key = Some e" for key e
  proof -
    have "staged_fresh P jobs key e" using assms(1) that by (cases key) (simp add: staging_fresh_def)
    then show ?thesis using assms(2,3) by (cases "se_job e") (simp_all add: staged_fresh_def)
  qed
  then show ?thesis using assms(1) by (simp add: staging_fresh_def)
qed

lemma dget_dict_update: "dict_ok e \<Longrightarrow> dget (dict_update d e) i = (case dget e i of None \<Rightarrow> dget d i | Some v \<Rightarrow> Some v)"
proof (induction e arbitrary: d)
  case (Cons x e)
  obtain k v where x: "x = (k, v)" by (cases x)
  have "dict_ok e" "dget e k = None" using Cons.prems by (auto simp: x dict_ok_def map_of_eq_None_iff)
  with Cons.IH [of "dset k v d"] show ?case by (auto simp: dict_update_def x dict_simps split: option.split)
qed (simp add: dict_update_def)

lemma fold_misses:
  "ad_store (fold (\<lambda>_ a. ad_record_miss (ad_page_size pk a) a) xs a) = ad_store a \<and>
   ad_jobs (fold (\<lambda>_ a. ad_record_miss (ad_page_size pk a) a) xs a) = ad_jobs a \<and>
   ad_staging (fold (\<lambda>_ a. ad_record_miss (ad_page_size pk a) a) xs a) = ad_staging a \<and>
   ad_default_shape (fold (\<lambda>_ a. ad_record_miss (ad_page_size pk a) a) xs a) = ad_default_shape a"
  by (induction xs arbitrary: a) (simp_all add: ad_record_miss_def ad_default_shape_def)

text \<open>A staged page is the stored page; a block or a batch is reshaped to the default shape.\<close>

definition page_shaped :: "(int \<times> int \<Rightarrow> tensor \<times> tensor) \<Rightarrow> nat list \<Rightarrow> bool \<Rightarrow> page_kind \<Rightarrow> int \<times> int \<Rightarrow> bool" where
  "page_shaped P sh shaped pk key \<longleftrightarrow>
     (if shaped \<or> pk = WholeBlock then shape (fst (P key)) = sh \<and> shape (snd (P key)) = sh else True)"

definition hits_ok :: "(int \<times> int \<Rightarrow> tensor \<times> tensor) \<Rightarrow> page_kind \<Rightarrow> int \<Rightarrow> (int, tensor list) dict \<Rightarrow> bool" where
  "hits_ok P pk layer rs \<longleftrightarrow> (\<forall>i ts. dget rs i = Some ts \<longrightarrow> ts = pages_of pk (P (layer, i)))"

lemma mark_useful_staged:
  assumes "dget (ad_staging a) key = Some e"
  shows "\<exists>u. dget (ad_staging (mark_useful key n a)) key = Some (e\<lparr>se_useful := u\<rparr>)"
proof (cases "se_useful e")
  case True
  then have "mark_useful key n a = a" using assms by (simp add: mark_useful_def)
  moreover have "e\<lparr>se_useful := se_useful e\<rparr> = e" by simp
  ultimately show ?thesis using assms by metis
qed (use assms in \<open>auto simp: mark_useful_def set_staged_def dict_simps\<close>)

text \<open>A hit on an entry that is not waiting for a job.\<close>

lemma staged_hit:
  fixes a :: "'s adapter"
  assumes "dget (ad_staging a) key = Some e" "se_job e = None"
  shows "\<exists>(a' :: 's adapter) u. fst (ad_hit ops shaped pk key a) = hit_pages shaped pk (e\<lparr>se_useful := u\<rparr>) a' \<and>
    ad_default_shape a' = ad_default_shape a"
proof -
  let ?a2 = "a\<lparr>ad_staging := move_to_end key (ad_staging a)\<rparr>" and ?n = "ad_page_size pk"
  let ?a3 = "mark_useful key (?n ?a2) ?a2"
  let ?a4 = "ad_record_hit (?n ?a3) ?a3"
  have "dget (ad_staging ?a2) key = Some e" using assms(1) by simp
  from mark_useful_staged [OF this] obtain u where "dget (ad_staging ?a3) key = Some (e\<lparr>se_useful := u\<rparr>)" by blast
  then have "dget (ad_staging ?a4) key = Some (e\<lparr>se_useful := u\<rparr>)" by (simp add: ad_record_hit_def)
  moreover have "ad_default_shape ?a4 = ad_default_shape a"
    by (simp add: ad_record_hit_def ad_default_shape_def mark_useful_def set_staged_def split: option.split)
  ultimately show ?thesis using assms
    by (intro exI [of _ ?a4] exI [of _ u]) (simp add: ad_hit_def meth_run resolve_entry_def)
qed

context page_reader
begin

abbreviation fresh :: "(int \<times> int \<Rightarrow> tensor \<times> tensor) \<Rightarrow> 's adapter \<Rightarrow> bool" where
  "fresh \<equiv> ad_fresh page sinv"

lemma on_store_read:
  assumes "fresh P a"
  shows "\<exists>s'. on_store (po_read ops pk layer bid head tok) a = (Inr (pages_of pk (P (layer, bid))), a\<lparr>ad_store := s'\<rparr>) \<and>
    fresh P (a\<lparr>ad_store := s'\<rparr>)"
  using read_law [of "ad_store a" pk layer bid head tok] assms by (auto simp: on_store_def ad_fresh_def)

lemma on_store_batch:
  assumes "fresh P a"
  shows "\<exists>d s'. on_store (po_batch ops pk layer ids head tok) a = (Inr d, a\<lparr>ad_store := s'\<rparr>) \<and>
    fresh P (a\<lparr>ad_store := s'\<rparr>) \<and> dict_ok d \<and>
    (\<forall>i. dget d i = (if i \<in> set ids then Some (pages_of pk (P (layer, i))) else None))"
  using batch_law [of "ad_store a" pk layer ids head tok] assms by (auto simp: on_store_def ad_fresh_def)

lemma complete_fresh:
  assumes "fresh P a"
  shows "fresh P (ad_complete ops j a) \<and> ad_staging (ad_complete ops j a) = ad_staging a \<and>
    length (ad_jobs (ad_complete ops j a)) = length (ad_jobs a)"
proof (cases "j < length (ad_jobs a) \<and> (\<exists>l ids h t. ad_jobs a ! j = JPending l ids h t)")
  case True
  then obtain l ids h t where j: "j < length (ad_jobs a)" "ad_jobs a ! j = JPending l ids h t" by blast
  obtain d s' where b: "po_batch ops WholeBlock l ids h t (ad_store a) = (Inr d, s')" "sinv s'" "page s' = P" "dict_ok d"
    "\<forall>i. dget d i = (if i \<in> set ids then Some (pages_of WholeBlock (P (l, i))) else None)"
    using batch_law [of "ad_store a" WholeBlock l ids h t] assms by (auto simp: ad_fresh_def)
  have rows: "rows_fresh P l d" by (rule rows_freshI [OF b(4)]) (use b(5) in \<open>auto split: if_splits\<close>)
  have d: "dget d i \<noteq> None" if "i \<in> set ids" for i using b(5) that by simp
  have grow: "job_fresh P l' b' ((ad_jobs a)[j := JDone l (Inr d)] ! i)"
    if "i < length (ad_jobs a)" "job_fresh P l' b' (ad_jobs a ! i)" for i l' b'
    using that j d rows by (cases "i = j") simp_all
  have "staging_fresh P (ad_jobs a) (ad_staging a)" using assms by (simp add: ad_fresh_def)
  then have "staging_fresh P ((ad_jobs a)[j := JDone l (Inr d)]) (ad_staging a)"
    by (rule jobs_grow) (simp_all add: grow)
  then show ?thesis using j b by (simp add: ad_complete_def ad_fresh_def)
next
  case False
  then have "ad_complete ops j a = a" by (auto simp: ad_complete_def split: job.split)
  with assms show ?thesis by simp
qed

lemma complete_done:
  assumes "fresh P a" "j < length (ad_jobs a)" "job_fresh P layer bid (ad_jobs a ! j)"
  shows "\<exists>d. job_result j (ad_complete ops j a) = Inr d \<and> dget d bid \<noteq> None \<and> rows_fresh P layer d"
proof (cases "ad_jobs a ! j")
  case (JPending l ids h t)
  obtain d s' where b: "po_batch ops WholeBlock l ids h t (ad_store a) = (Inr d, s')" "dict_ok d"
    "\<forall>i. dget d i = (if i \<in> set ids then Some (pages_of WholeBlock (P (l, i))) else None)"
    using batch_law [of "ad_store a" WholeBlock l ids h t] assms(1) by (auto simp: ad_fresh_def)
  have "rows_fresh P l d" by (rule rows_freshI [OF b(2)]) (use b(3) in \<open>auto split: if_splits\<close>)
  then show ?thesis using assms(2,3) JPending b by (auto simp: ad_complete_def job_result_def)
next
  case (JDone l r)
  then show ?thesis using assms(2,3) by (auto simp: ad_complete_def job_result_def split: sum.splits)
qed

lemma resolve_ok:
  assumes "fresh P a"
  shows "\<exists>a'. resolve_entry ops key a = (Inr (), a') \<and> fresh P a' \<and>
    (\<forall>k. (dget (ad_staging a') k = None) = (dget (ad_staging a) k = None)) \<and>
    (\<forall>e. dget (ad_staging a') key = Some e \<longrightarrow> se_job e = None)"
proof (cases "dget (ad_staging a) key")
  case None
  with assms show ?thesis by (simp add: resolve_entry_def)
next
  case (Some e)
  show ?thesis
  proof (cases "se_job e")
    case None
    with Some assms show ?thesis by (simp add: resolve_entry_def)
  next
    case j: (Some j)
    have f: "j < length (ad_jobs a)" "job_fresh P (fst key) (snd key) (ad_jobs a ! j)"
      using fresh_entryD [OF assms Some] j by (simp_all add: staged_fresh_def)
    let ?a1 = "ad_complete ops j a"
    obtain d where d: "job_result j ?a1 = Inr d" "dget d (snd key) \<noteq> None" "rows_fresh P (fst key) d"
      using complete_done [OF assms f] by blast
    have ok: "dict_ok d" using d(3) by (simp add: rows_fresh_def)
    have a1: "fresh P ?a1" "ad_staging ?a1 = ad_staging a" using complete_fresh [OF assms] by simp_all
    let ?d' = "populate (fst key) d (ad_staging a)"
    have pop: "staging_fresh P (ad_jobs ?a1) ?d'"
      using populate_fresh [OF _ d(3)] a1 by (simp add: ad_fresh_def)
    have "fresh P (?a1\<lparr>ad_zero_wait := z, ad_staging := ?d'\<rparr>)" "fresh P (?a1\<lparr>ad_partial_wait := z, ad_staging := ?d'\<rparr>)" for z
      using a1(1) pop by (simp_all add: ad_fresh_def)
    moreover have "(dget ?d' k = None) = (dget (ad_staging a) k = None)" for k
      by (simp add: populate_dget [OF ok] split: option.split)
    moreover have "se_job e' = None" if "dget ?d' key = Some e'" for e'
      using that d(2) Some by (auto simp: populate_dget [OF ok])
    ultimately show ?thesis using Some j d(1) a1(2) by (simp add: resolve_entry_def Let_def)
  qed
qed

lemma keeps_resolve: "keeps (fresh P) (resolve_entry ops key)"
  using resolve_ok [of P _ key] by (force simp: keeps_def)

lemma keeps_on_read: "keeps (fresh P) (on_store (po_read ops pk layer bid head tok))"
  using on_store_read [of P _ pk layer bid head tok] by (force simp: keeps_def)

lemma keeps_on_batch: "keeps (fresh P) (on_store (po_batch ops pk layer ids head tok))"
  using on_store_batch [of P _ pk layer ids head tok] by (force simp: keeps_def)

lemma keeps_capacity: "keeps (fresh P) ensure_buffer_capacity"
proof -
  have "fresh P (snd (ensure_buffer_capacity a))" if f: "fresh P a" for a
  proof -
    obtain r d u w where e: "evict_loop (ad_capacity a) (ad_staging a) (ad_useless a) (ad_wasted_bytes a) = (r, d, u, w)"
      by (cases "evict_loop (ad_capacity a) (ad_staging a) (ad_useless a) (ad_wasted_bytes a)") auto
    obtain xs where xs: "ad_staging a = xs @ d" using evict_loop_suffix [OF e] by blast
    have "staging_fresh P (ad_jobs a) (xs @ d)" using f by (simp add: ad_fresh_def xs [symmetric])
    from staging_fresh_suffix [OF this] show ?thesis using f e
      by (simp add: ensure_buffer_capacity_def ad_fresh_def)
  qed
  then show ?thesis by (simp add: keeps_def)
qed

lemma fresh_frame:
  "ad_store a' = ad_store a \<Longrightarrow> ad_jobs a' = ad_jobs a \<Longrightarrow> ad_staging a' = ad_staging a \<Longrightarrow> fresh P a' = fresh P a"
  by (simp add: ad_fresh_def)

lemma set_staged_fresh: "fresh P a \<Longrightarrow> staged_fresh P (ad_jobs a) key e \<Longrightarrow> fresh P (set_staged key e a)"
  by (simp add: ad_fresh_def set_staged_def staging_fresh_dset)

lemma keeps_stage_fetched:
  assumes "\<And>ts. dget fetched bid = Some ts \<Longrightarrow> ts = pages_of WholeBlock (P (layer, bid))"
  shows "keeps (fresh P) (stage_fetched ops layer head tok fetched bid acc)"
  unfolding stage_fetched_def
proof (rule keeps_sbind_post [where Q = "\<lambda>ts. ts = pages_of WholeBlock (P (layer, bid))"])
  fix a r a'
  assume "fresh P a" and m: "(case dget fetched bid of Some ts \<Rightarrow> sret ts
    | None \<Rightarrow> on_store (po_read ops WholeBlock layer bid head tok)) a = (r, a')"
  then show "fresh P a' \<and> (\<forall>x. r = Inr x \<longrightarrow> x = pages_of WholeBlock (P (layer, bid)))"
    using on_store_read [of P a WholeBlock layer bid head tok] assms by (cases "dget fetched bid") auto
next
  fix ts
  assume ts: "ts = pages_of WholeBlock (P (layer, bid))"
  have "fresh P (count_dispatch (set_staged (layer, bid)
      ((fresh_entry head a)\<lparr>se_k := Some (ts ! 0), se_v := Some (ts ! 1)\<rparr>) a))" if "fresh P a" for a
    by (subst fresh_frame [of _ "set_staged (layer, bid) ((fresh_entry head a)\<lparr>se_k := Some (ts ! 0), se_v := Some (ts ! 1)\<rparr>) a"])
      (simp_all add: count_dispatch_def set_staged_fresh [OF that] staged_fresh_def fresh_entry_def ts)
  then show "keeps (fresh P) (sthen (supd (\<lambda>a. count_dispatch (set_staged (layer, bid)
      ((fresh_entry head a)\<lparr>se_k := Some (ts ! 0), se_v := Some (ts ! 1)\<rparr>) a))) (sret (acc @ [bid])))"
    by (intro inv_intros)
qed

lemma keeps_update_peak: "keeps (fresh P) (supd update_peak)"
  by (rule keeps_supd) (simp add: update_peak_def ad_fresh_def)

lemma keeps_stage_pending:
  assumes "bid \<in> set ids"
  shows "keeps (\<lambda>a. fresh P a \<and> j < length (ad_jobs a) \<and> ad_jobs a ! j = JPending layer ids h t)
    (stage_pending layer head j bid acc)"
  unfolding stage_pending_def
proof (intro inv_intros conjI; elim conjE)
  fix a
  assume "fresh P a" "j < length (ad_jobs a)" "ad_jobs a ! j = JPending layer ids h t"
  then have "fresh P (set_staged (layer, bid) ((fresh_entry head a)\<lparr>se_job := Some j\<rparr>) a)"
    using assms by (intro set_staged_fresh) (simp_all add: staged_fresh_def)
  then show "fresh P (count_dispatch (set_staged (layer, bid) ((fresh_entry head a)\<lparr>se_job := Some j\<rparr>) a))"
    by (simp add: count_dispatch_def ad_fresh_def)
qed (simp_all add: count_dispatch_def set_staged_def)

lemma keeps_async:
  assumes "\<And>x. keeps (fresh P) (k x)"
  shows "keeps (fresh P) (sbind (sread (\<lambda>a. length (ad_jobs a))) (\<lambda>j.
     sthen (supd (\<lambda>a. a\<lparr>ad_jobs := ad_jobs a @ [JPending layer ids h t]\<rparr>))
       (sbind (sfor (stage_pending layer h j) ids []) k)))"
proof -
  have "fresh P (snd (sbind (sfor (stage_pending layer h (length (ad_jobs a))) ids []) k
      (a\<lparr>ad_jobs := ad_jobs a @ [JPending layer ids h t]\<rparr>)))" if f: "fresh P a" for a
  proof -
    let ?a = "a\<lparr>ad_jobs := ad_jobs a @ [JPending layer ids h t]\<rparr>" and ?j = "length (ad_jobs a)"
    have "staging_fresh P (ad_jobs a) (ad_staging a)" using f by (simp add: ad_fresh_def)
    then have "staging_fresh P (ad_jobs ?a) (ad_staging a)" by (rule jobs_grow) (simp_all add: nth_append)
    then have "fresh P ?a" using f by (simp add: ad_fresh_def)
    moreover have "keeps (\<lambda>a. fresh P a \<and> ?j < length (ad_jobs a) \<and> ad_jobs a ! ?j = JPending layer ids h t)
        (sfor (stage_pending layer h ?j) ids [])" by (intro keeps_sfor_mem keeps_stage_pending)
    ultimately show ?thesis using assms by (elim keeps_weaken_bind) simp_all
  qed
  then show ?thesis by (simp add: keeps_def)
qed

lemma keeps_sync:
  assumes "\<And>x. keeps (fresh P) (k x)"
  shows "keeps (fresh P) (sbind (on_store (po_batch ops WholeBlock layer ids head tok)) (\<lambda>fetched.
     sbind (sfor (stage_fetched ops layer head tok fetched) ids []) k))"
proof (rule keeps_sbind_post [where Q = "\<lambda>d. \<forall>i ts. dget d i = Some ts \<longrightarrow> ts = pages_of WholeBlock (P (layer, i))"])
  fix a r a'
  assume "fresh P a" "on_store (po_batch ops WholeBlock layer ids head tok) a = (r, a')"
  then obtain d where d: "r = Inr d" "fresh P a'"
      "\<forall>i. dget d i = (if i \<in> set ids then Some (pages_of WholeBlock (P (layer, i))) else None)"
    using on_store_batch [of P a WholeBlock layer ids head tok] by auto
  have "ts = pages_of WholeBlock (P (layer, i))" if "dget d i = Some ts" for i ts
    using d(3) that by (cases "i \<in> set ids") simp_all
  then show "fresh P a' \<and> (\<forall>d. r = Inr d \<longrightarrow> (\<forall>i ts. dget d i = Some ts \<longrightarrow> ts = pages_of WholeBlock (P (layer, i))))"
    using d(1,2) by blast
next
  fix d
  assume "\<forall>i ts. dget d i = Some ts \<longrightarrow> ts = pages_of WholeBlock (P (layer, i))"
  then show "keeps (fresh P) (sbind (sfor (stage_fetched ops layer head tok d) ids []) k)"
    by (intro keeps_sbind assms keeps_sfor keeps_stage_fetched) simp
qed

lemma keeps_prefetch: "keeps (fresh P) (ad_prefetch ops ids layer head tok mode)"
  unfolding ad_prefetch_def
  by (intro inv_intros keeps_async keeps_sync keeps_capacity keeps_update_peak)

lemma keeps_predict: "keeps (fresh P) (ad_predict_and_prefetch ops layer ids stride mode)"
proof -
  have "fresh P (snd (ad_predict_and_prefetch ops layer ids stride mode a))" if f: "fresh P a" for a
  proof -
    obtain r p where u: "predict_next_layer_blocks layer ids stride (ad_predictor a) = (r, p)" by fastforce
    have g: "fresh P (a\<lparr>ad_predictor := p\<rparr>)" using f by (simp add: ad_fresh_def)
    have "keeps (fresh P) (sbind (ad_prefetch ops x l 0 0 m) (\<lambda>d. sret (l, d)))" for x l m
      by (intro inv_intros keeps_prefetch)
    with g u show ?thesis
      by (cases r) (auto simp: ad_predict_and_prefetch_def keeps_def split: prod.split)
  qed
  then show ?thesis by (simp add: keeps_def)
qed

lemma resolve_shape: "ad_default_shape (snd (resolve_entry ops key a)) = ad_default_shape a"
  by (simp add: resolve_entry_def ad_complete_def ad_default_shape_def Let_def split: option.split sum.split job.split prod.split)

lemma mark_useful_fresh: "fresh P a \<Longrightarrow> fresh P (mark_useful key n a)"
proof (cases "dget (ad_staging a) key")
  case (Some e)
  assume f: "fresh P a"
  have "staged_fresh P (ad_jobs a) key (e\<lparr>se_useful := True\<rparr>)"
    using fresh_entryD [OF f Some] by (cases "se_job e") (simp_all add: staged_fresh_def)
  from set_staged_fresh [OF f this] f Some show ?thesis by (simp add: mark_useful_def ad_fresh_def)
qed (simp add: mark_useful_def)

lemma hit_ok:
  assumes f: "fresh P a" and st: "dmem key (ad_staging a)"
    and sh: "page_shaped P (ad_default_shape a) shaped pk key"
  shows "\<exists>a'. ad_hit ops shaped pk key a = (Inr (pages_of pk (P key)), a') \<and> fresh P a' \<and>
    ad_default_shape a' = ad_default_shape a"
proof -
  obtain a1 where a1: "resolve_entry ops key a = (Inr (), a1)" "fresh P a1"
    "\<forall>k. (dget (ad_staging a1) k = None) = (dget (ad_staging a) k = None)"
    "\<forall>e. dget (ad_staging a1) key = Some e \<longrightarrow> se_job e = None" using resolve_ok [OF f] by blast
  have sh1: "ad_default_shape a1 = ad_default_shape a" using resolve_shape [of key a] a1(1) by simp
  obtain e where e: "dget (ad_staging a1) key = Some e" using spec [OF a1(3), of key] st
    by (cases "dget (ad_staging a1) key") (simp_all add: dmem_def)
  let ?a2 = "a1\<lparr>ad_staging := move_to_end key (ad_staging a1)\<rparr>" and ?n = "ad_page_size pk"
  let ?a3 = "mark_useful key (?n ?a2) ?a2"
  let ?a4 = "ad_record_hit (?n ?a3) ?a3"
  have "fresh P ?a2" using a1(2) by (simp add: ad_fresh_def staging_fresh_move)
  then have "fresh P ?a3" by (rule mark_useful_fresh)
  then have f4: "fresh P ?a4" by (simp add: ad_record_hit_def ad_fresh_def)
  have "dget (ad_staging ?a2) key = Some e" using e by simp
  from mark_useful_staged [OF this] obtain u where e3: "dget (ad_staging ?a3) key = Some (e\<lparr>se_useful := u\<rparr>)" by blast
  then have e4: "dget (ad_staging ?a4) key = Some (e\<lparr>se_useful := u\<rparr>)" by (simp add: ad_record_hit_def)
  have d4: "ad_default_shape ?a4 = ad_default_shape a"
    using sh1 by (simp add: ad_record_hit_def ad_default_shape_def mark_useful_def set_staged_def split: option.split)
  have "se_k e = Some (fst (P key))" "se_v e = Some (snd (P key))"
    using fresh_entryD [OF a1(2) e] a1(4) e by (simp_all add: staged_fresh_def)
  then have "hit_pages shaped pk (e\<lparr>se_useful := u\<rparr>) ?a4 = Inr (pages_of pk (P key))"
    using sh d4 by (cases pk) (auto simp: hit_key_def hit_value_def hit_block_def reshape_def page_shaped_def)
  then show ?thesis using a1(1) e4 f4 d4 by (simp add: ad_hit_def meth_run)
qed

lemma read_ok:
  assumes f: "fresh P a" and sh: "page_shaped P (ad_default_shape a) False pk (layer, bid)"
  shows "\<exists>a'. ad_read ops pk layer bid head tok a = (Inr (pages_of pk (P (layer, bid))), a') \<and> fresh P a' \<and>
    ad_default_shape a' = ad_default_shape a"
proof (cases "dmem (layer, bid) (ad_staging a)")
  case True
  with hit_ok [OF f True sh] show ?thesis by (simp add: ad_read_def)
next
  case False
  let ?a = "a\<lparr>ad_misses := ad_misses a + 1\<rparr>"
  have "fresh P ?a" using f by (simp add: ad_fresh_def)
  from on_store_read [OF this, of pk layer bid head tok] obtain s' where
    s: "on_store (po_read ops pk layer bid head tok) ?a = (Inr (pages_of pk (P (layer, bid))), ?a\<lparr>ad_store := s'\<rparr>)"
    "fresh P (?a\<lparr>ad_store := s'\<rparr>)" by blast
  then show ?thesis using False
    by (simp add: ad_read_def meth_run ad_record_miss_def ad_fresh_def ad_default_shape_def)
qed

lemma batch_hit_ok:
  assumes f: "fresh P a" and sh: "page_shaped P (ad_default_shape a) True pk (layer, bid)" and rs: "hits_ok P pk layer rs"
  shows "\<exists>rs' ms' a'. batch_hit ops pk layer bid (rs, ms) a = (Inr (rs', ms'), a') \<and> fresh P a' \<and>
    ad_default_shape a' = ad_default_shape a \<and> hits_ok P pk layer rs' \<and>
    (\<forall>i. (dget rs' i \<noteq> None \<or> i \<in> set ms') = (i = bid \<or> dget rs i \<noteq> None \<or> i \<in> set ms))"
proof (cases "dmem (layer, bid) (ad_staging a)")
  case True
  have "hits_ok P pk layer (dset bid (pages_of pk (P (layer, bid))) rs)"
    using rs by (auto simp: hits_ok_def dict_simps)
  with hit_ok [OF f True sh] True show ?thesis by (auto simp: batch_hit_def meth_run dict_simps)
qed (use assms in \<open>auto simp: batch_hit_def ad_fresh_def ad_default_shape_def\<close>)

lemma batch_hits_ok:
  assumes "fresh P a" "\<forall>i\<in>set ids. page_shaped P (ad_default_shape a) True pk (layer, i)" "hits_ok P pk layer rs"
  shows "\<exists>rs' ms' a'. sfor (batch_hit ops pk layer) ids (rs, ms) a = (Inr (rs', ms'), a') \<and> fresh P a' \<and>
    ad_default_shape a' = ad_default_shape a \<and> hits_ok P pk layer rs' \<and>
    (\<forall>i. (dget rs' i \<noteq> None \<or> i \<in> set ms') = (i \<in> set ids \<or> dget rs i \<noteq> None \<or> i \<in> set ms))"
  using assms
proof (induction ids arbitrary: rs ms a)
  case (Cons b ids)
  obtain rs1 ms1 a1 where b: "batch_hit ops pk layer b (rs, ms) a = (Inr (rs1, ms1), a1)" "fresh P a1"
    "ad_default_shape a1 = ad_default_shape a" "hits_ok P pk layer rs1"
    "\<forall>i. (dget rs1 i \<noteq> None \<or> i \<in> set ms1) = (i = b \<or> dget rs i \<noteq> None \<or> i \<in> set ms)"
    using batch_hit_ok [OF Cons.prems(1) _ Cons.prems(3), of b ms] Cons.prems(2) by auto
  from Cons.IH [OF b(2) _ b(4), of ms1] Cons.prems(2) b(1,3,5) show ?case by (simp add: meth_run disj_ac)
qed simp

lemma read_batch_ok:
  assumes f: "fresh P a" and sh: "\<forall>i\<in>set ids. page_shaped P (ad_default_shape a) True pk (layer, i)"
  shows "\<exists>d a'. ad_read_batch ops pk layer ids head tok a = (Inr d, a') \<and> fresh P a' \<and>
    ad_default_shape a' = ad_default_shape a \<and>
    (\<forall>i. dget d i = (if i \<in> set ids then Some (pages_of pk (P (layer, i))) else None))"
proof (cases "ids = []")
  case False
  have "hits_ok P pk layer []" by (simp add: hits_ok_def)
  from batch_hits_ok [OF f sh this, of "[]"] obtain rs ms a1 where
    l: "sfor (batch_hit ops pk layer) ids ([], []) a = (Inr (rs, ms), a1)" "fresh P a1"
      "ad_default_shape a1 = ad_default_shape a" "hits_ok P pk layer rs"
      "\<forall>i. (dget rs i \<noteq> None \<or> i \<in> set ms) = (i \<in> set ids)" by auto
  let ?up = "\<lambda>a. a\<lparr>ad_batches := ad_batches a + 1, ad_batched := ad_batched a + int (length ids)\<rparr>"
  have fin: "fresh P (?up a') = fresh P a'" "ad_default_shape (?up a') = ad_default_shape a'" for a' :: "'s adapter"
    by (simp_all add: ad_fresh_def ad_default_shape_def)
  have key: "dget rs i = Some (pages_of pk (P (layer, i)))" if "i \<in> set ids" "i \<notin> set ms" for i
    using l(4) spec [OF l(5), of i] that by (auto simp: hits_ok_def)
  have out: "dget rs i = None" "i \<notin> set ms" if "i \<notin> set ids" for i using spec [OF l(5), of i] that by auto
  show ?thesis
  proof (cases "ms = []")
    case True
    have "dget rs i = (if i \<in> set ids then Some (pages_of pk (P (layer, i))) else None)" for i
      using key out True by simp
    then show ?thesis using False True l fin by (simp add: ad_read_batch_def meth_run)
  next
    case ms: False
    obtain d s' where s: "on_store (po_batch ops pk layer ms head tok) a1 = (Inr d, a1\<lparr>ad_store := s'\<rparr>)"
      "fresh P (a1\<lparr>ad_store := s'\<rparr>)" "dict_ok d"
      "\<forall>i. dget d i = (if i \<in> set ms then Some (pages_of pk (P (layer, i))) else None)"
      using on_store_batch [OF l(2), of pk layer ms head tok] by blast
    let ?a2 = "fold (\<lambda>_ a. ad_record_miss (ad_page_size pk a) a) ms (a1\<lparr>ad_store := s'\<rparr>)"
    have "fresh P ?a2" using s(2) by (subst fresh_frame [of _ "a1\<lparr>ad_store := s'\<rparr>"]) (simp_all add: fold_misses)
    moreover have "ad_default_shape ?a2 = ad_default_shape a"
      using l(3) by (simp add: fold_misses) (simp add: ad_default_shape_def)
    moreover have "dget (dict_update rs d) i = (if i \<in> set ids then Some (pages_of pk (P (layer, i))) else None)" for i
      using key [of i] out [of i] s(4) by (simp add: dget_dict_update [OF s(3)])
    ultimately show ?thesis using False ms l(1) s(1) fin by (simp add: ad_read_batch_def meth_run)
  qed
qed (use f in \<open>simp add: ad_read_batch_def\<close>)

lemma keeps_hit: "keeps (fresh P) (ad_hit ops shaped pk key)"
  unfolding ad_hit_def
  by (intro inv_intros keeps_resolve mark_useful_fresh)
    (simp_all add: ad_fresh_def staging_fresh_move ad_record_hit_def)

lemma keeps_read: "keeps (fresh P) (ad_read ops pk layer bid head tok)"
  unfolding ad_read_def
  by (intro inv_intros keeps_hit keeps_on_read) (simp_all add: ad_fresh_def ad_record_miss_def)

lemma keeps_batch_hit: "keeps (fresh P) (batch_hit ops pk layer bid acc)"
  unfolding batch_hit_def
  by (cases acc) (simp, intro inv_intros keeps_hit, simp add: ad_fresh_def)

lemma keeps_read_batch: "keeps (fresh P) (ad_read_batch ops pk layer ids head tok)"
  unfolding ad_read_batch_def case_prod_beta
  by (intro inv_intros keeps_batch_hit keeps_on_batch) (simp_all add: ad_fresh_def fold_misses)

text \<open>A write to a quiet block.\<close>

lemma quiet_fresh:
  assumes f: "fresh P a" and q: "quiet layer bid a"
    and s: "sinv s'" "\<And>j. j \<noteq> (layer, bid) \<Longrightarrow> page s' j = P j"
  shows "fresh (page s') (a\<lparr>ad_store := s'\<rparr>)"
proof -
  have "staged_fresh (page s') (ad_jobs a) key e" if e: "dget (ad_staging a) key = Some e" for key e
  proof -
    have old: "staged_fresh P (ad_jobs a) key e" using fresh_entryD [OF f e] .
    have qe: "entry_quiet layer bid (ad_jobs a) key e" using q map_of_SomeD [OF e] by (auto simp: quiet_def)
    show ?thesis
    proof (cases "se_job e")
      case None
      with old qe s(2) [of key] show ?thesis by (simp add: staged_fresh_def entry_quiet_def)
    next
      case (Some j)
      show ?thesis
      proof (cases "ad_jobs a ! j")
        case (JDone l r)
        obtain d where d: "r = Inr d" "l = fst key" "rows_fresh P l d" "dget d (snd key) \<noteq> None" "j < length (ad_jobs a)"
          using old Some JDone by (auto simp: staged_fresh_def split: sum.splits)
        have "rows_fresh (page s') l d"
        proof (rule rows_freshI)
          show "dict_ok d" using d(3) by (simp add: rows_fresh_def)
        next
          fix b ts
          assume b: "dget d b = Some ts"
          then have "(l, b) \<noteq> (layer, bid)" using qe Some JDone d(1) by (auto simp: entry_quiet_def dmem_def)
          with s(2) rows_freshD [OF d(3) b] show "ts = pages_of WholeBlock (page s' (l, b))" by simp
        qed
        with d Some JDone show ?thesis by (simp add: staged_fresh_def)
      qed (use old Some in \<open>simp add: staged_fresh_def\<close>)
    qed
  qed
  then show ?thesis using f s(1) by (simp add: ad_fresh_def staging_fresh_def)
qed

end

context page_backend
begin

lemma write_fresh:
  assumes f: "fresh P a" and c: "call_safe np (AdWrite layer bid kd vd head tok) a"
  shows "\<exists>Q. fresh Q (snd (ad_write_block np ops layer bid kd vd head tok a))"
proof (cases "ad_cast np (ad_dtype a) kd")
  case (Inr k)
  show ?thesis
  proof (cases "ad_cast np (ad_dtype a) vd")
    case v: (Inr v)
    obtain s' where w: "po_write ops layer bid k v head tok (ad_store a) = (Inr (), s')" "sinv s'"
      "page s' = (page (ad_store a))((layer, bid) := (k, v))"
      using write_law [of "ad_store a" k v layer bid head tok] f c Inr v by (auto simp: ad_fresh_def)
    have "fresh (page s') (a\<lparr>ad_store := s'\<rparr>)"
      using f c w by (intro quiet_fresh [of P a layer bid]) (auto simp: ad_fresh_def)
    then show ?thesis using Inr v w(1)
      by (intro exI [of _ "page s'"]) (simp add: ad_write_block_def meth_run on_store_def ad_fresh_def)
  qed (use f Inr in \<open>auto simp: ad_write_block_def\<close>)
qed (use f in \<open>auto simp: ad_write_block_def\<close>)

lemma evict_fresh:
  assumes f: "fresh P a" and c: "call_safe np (AdEvict layer bid) a"
  shows "\<exists>Q. fresh Q (snd (ad_evict_block ops layer bid a))"
proof -
  let ?a = "a\<lparr>ad_staging := dpop (layer, bid) (ad_staging a)\<rparr>"
  have f': "fresh P ?a" using f by (simp add: ad_fresh_def staging_fresh_dpop)
  obtain r s' where e: "po_evict ops layer bid (ad_store a) = (Inr r, s')" "sinv s'"
    "\<forall>j. j \<noteq> (layer, bid) \<longrightarrow> page s' j = page (ad_store a) j"
    using evict_law [of "ad_store a" layer bid] f by (auto simp: ad_fresh_def)
  have "fresh (page s') (?a\<lparr>ad_store := s'\<rparr>)"
    using f f' c e by (intro quiet_fresh [of P ?a layer bid]) (auto simp: ad_fresh_def)
  then show ?thesis using e(1) by (auto simp: ad_evict_block_def on_store_def)
qed

lemma do_fresh:
  assumes f: "fresh P a" and c: "call_safe np c a"
  shows "\<exists>Q. fresh Q (ad_do np ops c a)"
proof (cases c)
  case (AdWrite layer bid kd vd head tok)
  with write_fresh [OF f] c show ?thesis by simp
next
  case (AdEvict layer bid)
  with evict_fresh [OF f] c show ?thesis by simp
next
  case AdReset
  then show ?thesis using f reset_law [of "ad_store a"]
    by (auto simp: ad_reset_stats_def ad_fresh_def staging_fresh_def dict_ok_def)
next
  case AdClear
  then show ?thesis using f reset_law [of "ad_store a"]
    by (auto simp: ad_clear_def ad_reset_stats_def ad_fresh_def staging_fresh_def dict_ok_def)
next
  case (AdComplete j)
  with complete_fresh [OF f] show ?thesis by auto
next
  case (AdRead pk layer bid head tok)
  then show ?thesis using keeps_read [of P pk layer bid head tok] f by (auto simp: keeps_def)
next
  case (AdBatch pk layer ids head tok)
  then show ?thesis using keeps_read_batch [of P pk layer ids head tok] f by (auto simp: keeps_def)
next
  case (AdPrefetch ids layer head tok mode)
  then show ?thesis using keeps_prefetch [of P ids layer head tok mode] f by (auto simp: keeps_def)
next
  case (AdPredict layer ids stride mode)
  then show ?thesis using keeps_predict [of P layer ids stride mode] f by (auto simp: keeps_def)
qed

lemma reach_fresh:
  assumes "ad_reach np ops a0 a" "fresh P a0"
  shows "fresh (page (ad_store a)) a"
proof -
  have "\<exists>Q. fresh Q a" using assms by (induction rule: ad_reach.induct) (blast dest: do_fresh)+
  then show ?thesis by (auto simp: ad_fresh_def)
qed

lemma new_fresh: "sinv s \<Longrightarrow> fresh (page s) (new_adapter s cap bytes tok heads dm dt layers async)"
  by (simp add: new_adapter_def ad_fresh_def staging_fresh_def dict_ok_def)

end

section \<open>The inference backend under the adapter\<close>

definition rb_ops :: "backend page_ops" where
  "rb_ops = \<lparr>po_write = (\<lambda>layer bid k v. rb_write_block layer bid (Arr k) (Arr v)), po_read = read_single,
     po_batch = read_batch, po_evict = (\<lambda>layer bid b. case rb_evict_block layer bid b of (r, b') \<Rightarrow> (Inr r, b')),
     po_contains = rb_contains_block, po_reset = rb_reset_stats\<rparr>"

definition rb_page :: "backend \<Rightarrow> int \<times> int \<Rightarrow> tensor \<times> tensor" where
  "rb_page b j = (case rb_lookup b j of
     Some kv \<Rightarrow> kv | None \<Rightarrow> (zeros (block_shape b) Float32, zeros (block_shape b) Float32))"

lemma page_spec_page:
  assumes "rb_sound b"
  shows "page_spec pk b (rb_lookup b j) = Inr (pages_of pk (rb_page b j))"
proof (cases "rb_lookup b j")
  case None
  then show ?thesis by (cases pk) (simp_all add: rb_page_def)
next
  case (Some kv)
  obtain k v where kv: "kv = (k, v)" by (cases kv)
  then have "tensor_ok k \<and> tensor_ok v" using assms Some unfolding rb_sound_def by blast
  with Some kv show ?thesis by (cases pk) (simp_all add: rb_page_def)
qed

lemma same_store_page: "same_store b b' \<Longrightarrow> rb_page b' = rb_page b"
  using same_store_lookup [of b b'] same_store_shape [of b b'] by (simp add: rb_page_def fun_eq_iff split: option.split)

lemma batch_loop_dict: "batch_loop pk layer ids acc tot b = (Inr (d, n), b') \<Longrightarrow> dict_ok acc \<Longrightarrow> dict_ok d"
  by (induction pk layer ids acc tot b rule: batch_loop.induct) (auto split: sum.splits prod.splits)

lemma single_loop_dict: "single_loop pk layer head tok ids acc b = (Inr d, b') \<Longrightarrow> dict_ok acc \<Longrightarrow> dict_ok d"
  by (induction pk layer head tok ids acc b rule: single_loop.induct) (auto split: sum.splits prod.splits)

lemma read_batch_dict: "read_batch pk layer ids head tok b = (Inr d, b') \<Longrightarrow> dict_ok d"
  by (auto simp: read_batch_def Let_def dict_ok_def [of "[]"] split: if_splits sum.splits prod.splits
      dest: batch_loop_dict single_loop_dict)

lemma write_block_keeps_shape:
  assumes "rb_good b" "rb_write_block layer bid kd vd head tok b = (Inr (), b')"
  shows "block_shape b' = block_shape b"
proof -
  have inv: "config_ok b" "counters_ok b" using assms(1) by (simp_all add: rb_good_def rb_inv_def)
  let ?n = "heads_in_block kd" and ?k = "payload b kd" and ?v = "payload b vd"
  obtain chs b1 where a: "assign_channels layer bid tok (int (nbytes ?k + nbytes ?v) div int ?n)
      (map (\<lambda>i. head + int i) [0..<?n]) b = (Inr chs, b1)" "same_store b b1"
    using assign_channels_ok [OF inv] by blast
  have "block_shape b1 = block_shape b" using same_store_shape [OF a(2)] .
  then show ?thesis using assms(2) a(1)
    by (auto simp: rb_write_block_def Let_def append_block_def push_log_def block_shape_def
        split: sum.splits option.splits)
qed

text \<open>Reads leave the stored blocks alone, whatever is known of them.\<close>

lemma rb_read_law:
  assumes "rb_sound s"
  shows "\<exists>s'. po_read rb_ops pk layer bid head tok s = (Inr (pages_of pk (rb_page s (layer, bid))), s') \<and> rb_sound s' \<and>
    rb_page s' = rb_page s \<and> rb_lookup s' = rb_lookup s"
proof -
  obtain r s' where r: "read_single pk layer bid head tok s = (r, s')" by fastforce
  have "rb_inv s" using assms by (simp add: rb_sound_def rb_good_def)
  note sp = read_single_spec [OF this r]
  have "rb_sound s'" using sp(3,4) same_store_lookup [OF sp(2)] same_store_channels [OF sp(2)] assms
    by (simp add: rb_sound_def rb_good_def)
  then show ?thesis using r sp(1) page_spec_page [OF assms] same_store_page [OF sp(2)] same_store_lookup [OF sp(2)]
    by (simp add: rb_ops_def)
qed

lemma rb_batch_law:
  assumes "rb_sound s"
  shows "\<exists>d s'. po_batch rb_ops pk layer ids head tok s = (Inr d, s') \<and> rb_sound s' \<and> rb_page s' = rb_page s \<and>
    rb_lookup s' = rb_lookup s \<and> dict_ok d \<and>
    (\<forall>i. dget d i = (if i \<in> set ids then Some (pages_of pk (rb_page s (layer, i))) else None))"
proof -
  have g: "rb_good s" using assms by (simp add: rb_sound_def)
  obtain r s' where r: "read_batch pk layer ids head tok s = (r, s')" by fastforce
  note sp = read_batch_spec [OF g r]
  obtain d where d: "r = Inr d" using sp page_spec_total [OF assms] by (cases r) auto
  have lk: "rb_lookup s' = rb_lookup s" using sp same_store_lookup [of s s'] by blast
  have "rb_sound s'" using sp d lk assms by (auto simp: rb_sound_def)
  moreover have "dget d i = (if i \<in> set ids then Some (pages_of pk (rb_page s (layer, i))) else None)" for i
    using sp by (auto simp: d page_spec_page [OF assms])
  ultimately show ?thesis using r d lk read_batch_dict [of pk layer ids head tok s d s'] sp same_store_page [of s s']
    by (simp add: rb_ops_def)
qed

interpretation rbp: page_backend rb_ops rb_page rb_sound
proof (unfold_locales, goal_cases)
  case (1 s pk layer bid head tok)
  then show ?case using rb_read_law [OF 1] by blast
next
  case (2 s pk layer ids head tok)
  then show ?case using rb_batch_law [OF 2] by blast
next
  case (3 s k v layer bid head tok)
  then have g: "rb_good s" by (simp add: rb_sound_def)
  obtain b' where w: "rb_write_block layer bid (Arr k) (Arr v) head tok s = (Inr (), b')" "rb_good b'"
    "rb_lookup b' = (rb_lookup s)((layer, bid) \<mapsto> (k, v))" "traffic_ok s \<longrightarrow> traffic_ok b'"
    using write_block_ok [OF g, of layer bid "Arr k" "Arr v" head tok] by auto
  have "rb_sound b'" using 3 w unfolding rb_sound_def by (auto split: if_splits)
  moreover have "rb_page b' = (rb_page s)((layer, bid) := (k, v))"
    using w(3) write_block_keeps_shape [OF g w(1)] by (simp add: rb_page_def fun_eq_iff split: option.split)
  ultimately show ?case using w(1) by (simp add: rb_ops_def)
next
  case (4 s layer bid)
  then have g: "rb_good s" by (simp add: rb_sound_def)
  let ?s = "snd (rb_evict_block layer bid s)"
  have "block_shape ?s = block_shape s" by (simp add: rb_evict_block_def block_shape_def)
  then have "rb_page ?s j = rb_page s j" if "j \<noteq> (layer, bid)" for j
    using evict_block_ok [OF g, of layer bid] that by (simp add: rb_page_def split: option.split)
  moreover have "rb_sound ?s" using evict_block_ok [OF g, of layer bid] 4 unfolding rb_sound_def
    by (auto split: if_splits)
  ultimately show ?case by (cases "rb_evict_block layer bid s") (auto simp: rb_ops_def)
next
  case (5 s)
  then have g: "rb_good s" by (simp add: rb_sound_def)
  have "block_shape (rb_reset_stats s) = block_shape s" by (simp add: rb_reset_stats_def block_shape_def)
  then show ?case using reset_stats_ok [OF g] 5 by (simp add: rb_ops_def rb_sound_def rb_page_def fun_eq_iff split: option.split)
qed

section \<open>Properties\<close>

text \<open>C26: The prefetch layer is transparent. Whatever writes, single and batched reads, synchronous and
  asynchronous prefetches, predictions, evictions and resets were made, and whenever the
  asynchronous jobs ran, a page or block read through the adapter is the one the backend itself
  returns, and a batched read returns the backend's pages, as long as blocks are written and
  evicted when no copy of them is staged and their shape is the adapter's.\<close>

theorem adapter_transparent:
  assumes "rb_sound b" "ad_reach np rb_ops (new_adapter b cap bytes tok heads dm dt layers async) a"
    and "page_shaped (rb_page (ad_store a)) (ad_default_shape a) False pk (layer, bid)"
    and "\<forall>i\<in>set ids. page_shaped (rb_page (ad_store a)) (ad_default_shape a) True pk (layer, i)"
  shows "fst (ad_read rb_ops pk layer bid head t a) = fst (read_single pk layer bid head t (ad_store a)) \<and>
    (\<exists>d e. fst (ad_read_batch rb_ops pk layer ids head t a) = Inr d \<and>
           fst (read_batch pk layer ids head t (ad_store a)) = Inr e \<and> dget d = dget e)"
proof -
  note f = rbp.reach_fresh [OF assms(2) rbp.new_fresh [OF assms(1)]]
  then have strong: "rb_sound (ad_store a)" by (simp add: ad_fresh_def)
  let ?p = "\<lambda>i. pages_of pk (rb_page (ad_store a) (layer, i))"
  have r: "fst (ad_read rb_ops pk layer bid head t a) = Inr (?p bid)"
    using rbp.read_ok [OF f assms(3), of head t] by auto
  have r': "fst (read_single pk layer bid head t (ad_store a)) = Inr (?p bid)"
    using rbp.read_law [OF strong, of pk layer bid head t] by (auto simp: rb_ops_def)
  obtain d where d: "fst (ad_read_batch rb_ops pk layer ids head t a) = Inr d"
    "\<forall>i. dget d i = (if i \<in> set ids then Some (?p i) else None)"
    using rbp.read_batch_ok [OF f assms(4), of head t] by auto
  obtain e where e: "fst (read_batch pk layer ids head t (ad_store a)) = Inr e"
    "\<forall>i. dget e i = (if i \<in> set ids then Some (?p i) else None)"
    using rbp.batch_law [OF strong, of pk layer ids head t] by (auto simp: rb_ops_def)
  have "dget d = dget e" using d(2) e(2) by (intro ext) simp
  with r r' d(1) e(1) show ?thesis by simp
qed

definition sample_np :: numpy where
  "sample_np = \<lparr>np_decode = (\<lambda>_ _. []), np_promote = (\<lambda>a _. a), np_astype = (\<lambda>_ t. t),
     np_argpartition = (\<lambda>_ _. Inr []), np_argsort = (\<lambda>_. [])\<rparr>"

definition sample_adapter :: "bool \<Rightarrow> backend adapter" where
  "sample_adapter async = new_adapter (new_backend 8 4 2 256 1024 24 2 1 1 ''tensor_aware'' True 35 350 25)
     2 4096 1 2 1 ''FP16'' 24 async"

definition block_tensor :: "byte \<Rightarrow> tensor" where
  "block_tensor x = \<lparr>shape = [1, 2, 1], elem_type = Float16, raw = [x, 2, 3, 4]\<rparr>"

text \<open>Block 7 is written, then staged by a job that runs before the read.\<close>

definition sample_calls :: "backend adapter" where
  "sample_calls = ad_do sample_np rb_ops (AdComplete 0)
     (ad_do sample_np rb_ops (AdPrefetch [7, 9] 0 0 0 None)
     (ad_do sample_np rb_ops (AdWrite 0 7 (Arr (block_tensor 1)) (Arr (block_tensor 9)) 0 0) (sample_adapter True)))"

lemma sample_small_strong: "rb_sound (new_backend 8 4 2 256 1024 24 2 1 1 ''tensor_aware'' True 35 350 25)"
  by (rule strong_sound, rule new_backend_strong) (simp_all add: mode_ok_def)

lemma sample_calls_reach: "ad_reach sample_np rb_ops (sample_adapter True) sample_calls"
  unfolding sample_calls_def
proof (intro reach_call)
  show "call_safe sample_np (AdWrite 0 7 (Arr (block_tensor 1)) (Arr (block_tensor 9)) 0 0) (sample_adapter True)"
    by code_simp
qed (simp_all add: reach_start)

lemma sample_calls_shaped: "page_shaped (rb_page (ad_store sample_calls)) (ad_default_shape sample_calls) True WholeBlock (0, 7)"
  by code_simp

lemma adapter_transparent_witness:
  "fst (ad_read rb_ops WholeBlock 0 7 0 0 sample_calls) = fst (read_single WholeBlock 0 7 0 0 (ad_store sample_calls)) \<and>
   (\<exists>d. fst (ad_read_batch rb_ops WholeBlock 0 [7] 0 0 sample_calls) = Inr d)"
proof -
  have "page_shaped (rb_page (ad_store sample_calls)) (ad_default_shape sample_calls) False WholeBlock (0, 7)"
    using sample_calls_shaped by (simp add: page_shaped_def)
  from adapter_transparent [OF sample_small_strong sample_calls_reach [unfolded sample_adapter_def] this,
      of "[7]" 0 0] sample_calls_shaped show ?thesis by auto
qed

text \<open>A write does not reach a staged copy. When a block is staged with its data, writing the block
  through the adapter and reading its key page back returns the old keys.\<close>

theorem write_leaves_stale_copy:
  assumes "dget (ad_staging a) (layer, bid) = Some e" "se_job e = None" "se_k e = Some old"
    and "ad_write_block np ops layer bid kd vd head tok a = (Inr (), a')"
  shows "fst (ad_read ops KeyPage layer bid head' tok' a') = Inr [old]"
proof -
  have st: "ad_staging a' = ad_staging a" using assms(4)
    by (auto simp: ad_write_block_def meth_run on_store_def split: sum.splits prod.splits)
  then have "dget (ad_staging a') (layer, bid) = Some e" using assms(1) by simp
  from staged_hit [OF this assms(2), of ops False KeyPage] assms(1,3) st show ?thesis
    by (auto simp: ad_read_def dmem_def hit_key_def)
qed

definition sample_staged :: "backend adapter" where
  "sample_staged = snd (ad_prefetch rb_ops [7] 0 0 0 (Some False)
     (ad_do sample_np rb_ops (AdWrite 0 7 (Arr (block_tensor 1)) (Arr (block_tensor 9)) 0 0) (sample_adapter False)))"

lemma sample_staged_entry:
  "dget (ad_staging sample_staged) (0, 7) = Some \<lparr>se_size = 4096, se_head = 0, se_k = Some (block_tensor 1),
     se_v = Some (block_tensor 9), se_job = None, se_useful = False\<rparr>"
  by code_simp

lemma write_leaves_stale_copy_witness:
  "fst (ad_read rb_ops KeyPage 0 7 0 0 (snd (ad_write_block sample_np rb_ops 0 7 (Arr (block_tensor 5))
     (Arr (block_tensor 6)) 0 0 sample_staged))) = Inr [block_tensor 1]"
proof (rule write_leaves_stale_copy [OF sample_staged_entry])
  have "fst (ad_write_block sample_np rb_ops 0 7 (Arr (block_tensor 5)) (Arr (block_tensor 6)) 0 0 sample_staged) = Inr ()"
    by code_simp
  then show "ad_write_block sample_np rb_ops 0 7 (Arr (block_tensor 5)) (Arr (block_tensor 6)) 0 0 sample_staged =
      (Inr (), snd (ad_write_block sample_np rb_ops 0 7 (Arr (block_tensor 5)) (Arr (block_tensor 6)) 0 0 sample_staged))"
    by (metis prod.collapse)
qed simp_all

text \<open>A staged block is only readable as a block in the adapter's default shape. Staging never records
  a shape, so when the staged keys have another number of elements, reading the block raises
  \<open>ValueError\<close>, while reading its key page returns the keys.\<close>

theorem staged_block_needs_default_shape:
  assumes "dget (ad_staging a) (layer, bid) = Some e" "se_job e = None" "se_k e = Some k" "se_v e = Some v"
    and "prod_list (shape k) \<noteq> prod_list (ad_default_shape a)"
  shows "fst (ad_read ops WholeBlock layer bid head tok a) = Inl ValueError \<and>
    fst (ad_read ops KeyPage layer bid head tok a) = Inr [k]"
proof -
  note hit = staged_hit [OF assms(1,2), of ops False]
  have ne: "shape k \<noteq> ad_default_shape a" using assms(5) by auto
  have "fst (ad_read ops WholeBlock layer bid head tok a) = Inl ValueError"
    using hit [of WholeBlock] assms ne by (auto simp: ad_read_def dmem_def hit_block_def reshape_def)
  moreover have "fst (ad_read ops KeyPage layer bid head tok a) = Inr [k]"
    using hit [of KeyPage] assms(1,3) by (auto simp: ad_read_def dmem_def hit_key_def)
  ultimately show ?thesis by simp
qed

lemma staged_block_needs_default_shape_witness:
  "fst (ad_read rb_ops WholeBlock 0 7 0 0 (sample_staged\<lparr>ad_tokens := 3\<rparr>)) = Inl ValueError"
proof -
  let ?a = "sample_staged\<lparr>ad_tokens := 3\<rparr>"
  have "dget (ad_staging ?a) (0, 7) = Some \<lparr>se_size = 4096, se_head = 0, se_k = Some (block_tensor 1),
      se_v = Some (block_tensor 9), se_job = None, se_useful = False\<rparr>" using sample_staged_entry by simp
  moreover have "prod_list (ad_default_shape ?a) = 6" by code_simp
  ultimately show ?thesis
    using staged_block_needs_default_shape [of ?a 0 7 _ "block_tensor 1" "block_tensor 9" rb_ops 0 0]
    by (simp add: block_tensor_def)
qed

text \<open>How full the staging buffer gets: room is made once per block, but before any block is added.\<close>

lemma evict_loop_pos:
  "0 < cap \<Longrightarrow> \<exists>u' w'. evict_loop cap d u w = (Inr (), drop (length d + 1 - nat cap) d, u', w')"
proof (induction cap d u w rule: evict_loop.induct)
  case (2 cap k e d u w)
  have "length ((k, e) # d) + 1 - nat cap = Suc (length d + 1 - nat cap)" if "cap \<le> int (length ((k, e) # d))"
    using that 2(3) by simp
  with 2 show ?case by auto
qed simp

lemma ensure_pos:
  assumes "0 < ad_capacity a"
  shows "\<exists>a'. ensure_buffer_capacity a = (Inr (), a') \<and> ad_capacity a' = ad_capacity a \<and>
    ad_staging a' = drop (length (ad_staging a) + 1 - nat (ad_capacity a)) (ad_staging a)"
  using evict_loop_pos [OF assms, of "ad_staging a" "ad_useless a" "ad_wasted_bytes a"]
  by (auto simp: ensure_buffer_capacity_def)

lemma ensure_loop:
  assumes "0 < ad_capacity a"
  shows "\<exists>a'. sfor (\<lambda>_ _. ensure_buffer_capacity) xs () a = (Inr (), a') \<and> ad_capacity a' = ad_capacity a \<and>
    ad_staging a' = (if xs = [] then ad_staging a
                     else drop (length (ad_staging a) + 1 - nat (ad_capacity a)) (ad_staging a))"
  using assms
proof (induction xs arbitrary: a)
  case (Cons x xs)
  obtain a1 where a1: "ensure_buffer_capacity a = (Inr (), a1)" "ad_capacity a1 = ad_capacity a"
    "ad_staging a1 = drop (length (ad_staging a) + 1 - nat (ad_capacity a)) (ad_staging a)"
    using ensure_pos [OF Cons.prems] by blast
  have "length (ad_staging a1) + 1 - nat (ad_capacity a1) = 0" using a1(2,3) Cons.prems by simp
  with Cons.IH [of a1] Cons.prems a1 show ?case by (auto simp: meth_run)
qed simp

lemma stage_pending_length:
  "\<exists>a'. sfor (stage_pending layer head j) xs acc a = (Inr (acc @ xs), a') \<and>
    dkeys (ad_staging a') = fold (\<lambda>k ks. if k \<in> set ks then ks else ks @ [k]) (map (Pair layer) xs) (dkeys (ad_staging a))"
proof (induction xs arbitrary: acc a)
  case (Cons x xs)
  let ?a = "count_dispatch (set_staged (layer, x) ((fresh_entry head a)\<lparr>se_job := Some j\<rparr>) a)"
  have "dkeys (ad_staging ?a) = (if (layer, x) \<in> set (dkeys (ad_staging a)) then dkeys (ad_staging a)
      else dkeys (ad_staging a) @ [(layer, x)])"
    by (simp add: count_dispatch_def set_staged_def dkeys_dset)
  with Cons.IH [of "acc @ [x]" ?a] show ?case by (simp add: stage_pending_def meth_run)
qed simp

lemma fold_add_keys:
  "distinct ks \<Longrightarrow> distinct (fold (\<lambda>k ks. if k \<in> set ks then ks else ks @ [k]) ys ks) \<and>
   set (fold (\<lambda>k ks. if k \<in> set ks then ks else ks @ [k]) ys ks) = set ks \<union> set ys"
  by (induction ys arbitrary: ks) auto

lemma evict_loop_zero: "cap \<le> 0 \<Longrightarrow> fst (evict_loop cap d u w) = Inl KeyError"
  by (induction cap d u w rule: evict_loop.induct) simp_all

text \<open>C28: The staging buffer outgrows its capacity. An asynchronous prefetch that stages anything first
  makes room for one block and then adds all of them, so that a buffer of capacity \<open>c\<close> that held
  \<open>n\<close> blocks holds \<open>min n (c - 1)\<close> plus the number of new ones; with a capacity of zero or less
  the call raises \<open>KeyError\<close>.\<close>

theorem prefetch_overfills_buffer:
  assumes "dict_ok (ad_staging a)" "i \<in> set ids" "\<not> dmem (layer, i) (ad_staging a)"
    and "ad_prefetch ops ids layer head tok (Some True) a = (r, a')"
  shows "if ad_capacity a \<le> 0 then r = Inl KeyError
         else r \<in> range Inr \<and> int (length (ad_staging a')) =
           min (int (length (ad_staging a))) (ad_capacity a - 1) +
           int (card {b \<in> set ids. \<not> dmem (layer, b) (ad_staging a)})"
proof -
  let ?d = "ad_staging a" and ?miss = "filter (\<lambda>b. \<not> dmem (layer, b) (ad_staging a)) ids"
  have ne: "?miss \<noteq> []" using assms(2,3) by (auto simp: filter_empty_conv)
  show ?thesis
  proof (cases "ad_capacity a \<le> 0")
    case True
    obtain x xs where x: "?miss = x # xs" using ne by (cases ?miss) auto
    have "fst (ensure_buffer_capacity a) = Inl KeyError"
      using evict_loop_zero [OF True, of ?d "ad_useless a" "ad_wasted_bytes a"]
      by (simp add: ensure_buffer_capacity_def case_prod_beta)
    then obtain a1 where "ensure_buffer_capacity a = (Inl KeyError, a1)" by (metis prod.collapse)
    with x show ?thesis using True assms(4) by (simp add: ad_prefetch_def meth_run)
  next
    case False
    then have pos: "0 < ad_capacity a" by simp
    let ?d1 = "drop (length ?d + 1 - nat (ad_capacity a)) ?d"
    obtain a1 where a1: "sfor (\<lambda>_ _. ensure_buffer_capacity) ?miss () a = (Inr (), a1)" "ad_staging a1 = ?d1"
      using ensure_loop [OF pos, of ?miss] ne by auto
    let ?a2 = "a1\<lparr>ad_jobs := ad_jobs a1 @ [JPending layer ?miss head tok]\<rparr>"
    let ?add = "\<lambda>k ks. if k \<in> set ks then ks else ks @ [k]"
    obtain a3 where a3: "sfor (stage_pending layer head (length (ad_jobs a1))) ?miss [] ?a2 = (Inr ?miss, a3)"
      "dkeys (ad_staging a3) = fold ?add (map (Pair layer) ?miss) (dkeys ?d1)"
      using stage_pending_length [of layer head "length (ad_jobs a1)" ?miss "[]" ?a2] a1(2) by auto
    have a': "r = Inr ?miss" "ad_staging a' = ad_staging a3"
      using assms(4) ne a1 a3(1) by (auto simp: ad_prefetch_def meth_run update_peak_def)
    have dis: "distinct (dkeys ?d1)" using assms(1) by (simp add: dict_ok_def drop_map [symmetric])
    have sub: "set (dkeys ?d1) \<subseteq> set (dkeys ?d)" by (auto dest: in_set_dropD)
    let ?new = "Pair layer ` set ?miss"
    have disj: "set (dkeys ?d1) \<inter> ?new = {}" using sub by (force simp: dmem_keys)
    have "length (ad_staging a') = length (dkeys (ad_staging a3))" by (simp add: a'(2))
    also have "\<dots> = card (set (dkeys ?d1) \<union> ?new)"
      using fold_add_keys [OF dis, of "map (Pair layer) ?miss"] a3(2) distinct_card by (metis list.set_map)
    also have "\<dots> = card (set (dkeys ?d1)) + card ?new" using disj by (intro card_Un_disjoint) auto
    also have "card (set (dkeys ?d1)) = length ?d1" using distinct_card [OF dis] by simp
    also have "card ?new = card {b \<in> set ids. \<not> dmem (layer, b) ?d}"
      by (subst card_image) (auto simp: inj_on_def intro: arg_cong [of _ _ card])
    finally show ?thesis using a'(1) pos by auto
  qed
qed

lemma prefetch_overfills_buffer_witness:
  "int (length (ad_staging (snd (ad_prefetch rb_ops [1, 2, 3] 0 0 0 (Some True) (sample_adapter True))))) = 3"
proof -
  have "{b \<in> set [1, 2, 3 :: int]. \<not> dmem (0, b) (ad_staging (sample_adapter True))} = {1, 2, 3}"
    by (auto simp: sample_adapter_def new_adapter_def dmem_def)
  then have c: "card {b \<in> set [1, 2, 3 :: int]. \<not> dmem (0, b) (ad_staging (sample_adapter True))} = 3" by simp
  from prefetch_overfills_buffer [of "sample_adapter True" 1 "[1, 2, 3]" 0 rb_ops 0 0,
      OF _ _ _ prod.collapse [symmetric]]
  show ?thesis using c by (simp add: sample_adapter_def new_adapter_def dict_ok_def dmem_def split: if_splits)
qed

section \<open>Dispatched blocks are served\<close>

lemma resolve_counts:
  "resolve_entry ops key a = (r, a') \<Longrightarrow> ad_hits a' = ad_hits a \<and> ad_misses a' = ad_misses a"
  by (auto simp: resolve_entry_def ad_complete_def Let_def split: option.splits sum.splits job.splits prod.splits if_splits)

lemma hit_counts:
  assumes "ad_hit ops shaped pk key a = (r, a')" "r \<in> range Inr"
  shows "ad_hits a' = ad_hits a + 1 \<and> ad_misses a' = ad_misses a"
proof -
  obtain r1 a1 where r1: "resolve_entry ops key a = (r1, a1)" by fastforce
  have m: "ad_hits (mark_useful key n x) = ad_hits x \<and> ad_misses (mark_useful key n x) = ad_misses x"
    for n and x :: "'a adapter"
    by (simp add: mark_useful_def set_staged_def split: option.split)
  show ?thesis using assms r1 resolve_counts [OF r1] m
    by (cases r1) (auto simp: ad_hit_def meth_run ad_record_hit_def)
qed

lemma async_dispatch_staged:
  assumes "ad_prefetch ops ids layer head tok (Some True) a = (Inr ds, a')" "bid \<in> set ds"
  shows "dmem (layer, bid) (ad_staging a')"
proof -
  let ?miss = "filter (\<lambda>b. \<not> dmem (layer, b) (ad_staging a)) ids"
  have ne: "?miss \<noteq> []" using assms by (auto simp: ad_prefetch_def)
  obtain r1 a1 where a1: "sfor (\<lambda>_ _. ensure_buffer_capacity) ?miss () a = (r1, a1)" by fastforce
  then obtain u where r1: "r1 = Inr u" using assms(1) ne by (cases r1) (auto simp: ad_prefetch_def meth_run)
  let ?a2 = "a1\<lparr>ad_jobs := ad_jobs a1 @ [JPending layer ?miss head tok]\<rparr>"
  let ?add = "\<lambda>k ks. if k \<in> set ks then ks else ks @ [k]"
  obtain a3 where a3: "sfor (stage_pending layer head (length (ad_jobs a1))) ?miss [] ?a2 = (Inr ?miss, a3)"
    "dkeys (ad_staging a3) = fold ?add (map (Pair layer) ?miss) (dkeys (ad_staging a1))"
    using stage_pending_length [of layer head "length (ad_jobs a1)" ?miss "[]" ?a2] by auto
  have a': "ds = ?miss" "ad_staging a' = ad_staging a3"
    using assms(1) ne a1 r1 a3(1) by (auto simp: ad_prefetch_def meth_run update_peak_def)
  have "k \<in> set (fold ?add ys ks)" if "k \<in> set ys \<or> k \<in> set ks" for k :: "int \<times> int" and ys ks
    using that by (induction ys arbitrary: ks) auto
  note mem = this [of "(layer, bid)" "map (Pair layer) ?miss" "dkeys (ad_staging a1)"]
  have "(layer, bid) \<in> set (map (Pair layer) ?miss)" using assms(2) by (auto simp: a'(1))
  then have "(layer, bid) \<in> set (dkeys (ad_staging a'))" unfolding a'(2) a3(2) by (intro mem disjI1)
  then show ?thesis by (simp only: dmem_keys)
qed

context page_backend
begin

lemma completions_fresh:
  "fresh P a \<Longrightarrow> fresh P (fold (ad_complete ops) js a) \<and> ad_staging (fold (ad_complete ops) js a) = ad_staging a"
  by (induction js arbitrary: a) (simp_all add: complete_fresh)

lemma dispatched_served:
  assumes f: "fresh P a" and d: "ad_prefetch ops ids layer head tok (Some True) a = (Inr ds, a1)" "bid \<in> set ds"
    and a2: "a2 = fold (ad_complete ops) js a1" and pk: "pk \<noteq> WholeBlock"
  shows "\<exists>a3. ad_read ops pk layer bid head' tok' a2 = (Inr (pages_of pk (P (layer, bid))), a3) \<and> fresh P a2 \<and>
    ad_hits a3 = ad_hits a2 + 1 \<and> ad_misses a3 = ad_misses a2"
proof -
  have f1: "fresh P a1" using keeps_prefetch [of P ids layer head tok "Some True"] f d(1) by (auto simp: keeps_def)
  have f2: "fresh P a2" and st: "dmem (layer, bid) (ad_staging a2)"
    using completions_fresh [OF f1, of js] async_dispatch_staged [OF d] by (simp_all add: a2)
  have "page_shaped P (ad_default_shape a2) False pk (layer, bid)" using pk by (simp add: page_shaped_def)
  from hit_ok [OF f2 st this] obtain a3 where a3: "ad_hit ops False pk (layer, bid) a2 = (Inr (pages_of pk (P (layer, bid))), a3)"
    by blast
  with hit_counts [OF a3] st f2 show ?thesis by (simp add: ad_read_def)
qed

end

text \<open>C27: A dispatched block is served. Once an asynchronous prefetch has returned the ids it dispatched, a
  read of a key or value page of any of them succeeds with the page of the store, as a hit and not as a
  miss, whichever of the jobs (none, some or all) have run by then: a read that comes first runs the
  job it waits for.\<close>

theorem dispatched_block_served:
  assumes "rb_sound b" "ad_reach np rb_ops (new_adapter b cap bytes tok heads dm dt layers async) a"
    and "ad_prefetch rb_ops ids layer head t (Some True) a = (Inr ds, a1)" "bid \<in> set ds" "pk \<noteq> WholeBlock"
  shows "let a2 = fold (ad_complete rb_ops) js a1; (r, a3) = ad_read rb_ops pk layer bid head' t' a2
         in r \<in> range Inr \<and> r = fst (read_single pk layer bid head' t' (ad_store a2)) \<and>
            ad_hits a3 = ad_hits a2 + 1 \<and> ad_misses a3 = ad_misses a2"
proof -
  note f = rbp.reach_fresh [OF assms(2) rbp.new_fresh [OF assms(1)]]
  let ?a2 = "fold (ad_complete rb_ops) js a1"
  obtain a3 where a3: "ad_read rb_ops pk layer bid head' t' ?a2 = (Inr (pages_of pk (rb_page (ad_store a) (layer, bid))), a3)"
    "rbp.fresh (rb_page (ad_store a)) ?a2" "ad_hits a3 = ad_hits ?a2 + 1" "ad_misses a3 = ad_misses ?a2"
    using rbp.dispatched_served [OF f assms(3,4) refl assms(5), where js = js and head' = head' and tok' = t'] by blast
  then have "fst (read_single pk layer bid head' t' (ad_store ?a2)) = Inr (pages_of pk (rb_page (ad_store a) (layer, bid)))"
    using rbp.read_law [of "ad_store ?a2" pk layer bid head' t'] by (auto simp: rb_ops_def ad_fresh_def)
  then show ?thesis using a3 by simp
qed

lemma written_adapter_reach:
  "ad_reach sample_np rb_ops (sample_adapter True)
     (ad_do sample_np rb_ops (AdWrite 0 7 (Arr (block_tensor 1)) (Arr (block_tensor 9)) 0 0) (sample_adapter True))"
  by (intro reach_call reach_start) code_simp

definition sample_dispatched :: "backend adapter" where
  "sample_dispatched = snd (ad_prefetch rb_ops [7, 9] 0 0 0 (Some True)
     (ad_do sample_np rb_ops (AdWrite 0 7 (Arr (block_tensor 1)) (Arr (block_tensor 9)) 0 0) (sample_adapter True)))"

lemma dispatched_block_served_witness:
  "fst (ad_read rb_ops KeyPage 0 7 0 0 sample_dispatched) = fst (read_single KeyPage 0 7 0 0 (ad_store sample_dispatched)) \<and>
   ad_hits (snd (ad_read rb_ops KeyPage 0 7 0 0 sample_dispatched)) = ad_hits sample_dispatched + 1"
proof -
  let ?p = "ad_prefetch rb_ops [7, 9] 0 0 0 (Some True)
    (ad_do sample_np rb_ops (AdWrite 0 7 (Arr (block_tensor 1)) (Arr (block_tensor 9)) 0 0) (sample_adapter True))"
  have "fst ?p = Inr [7, 9]" by code_simp
  then have p: "?p = (Inr [7, 9], sample_dispatched)" unfolding sample_dispatched_def by (metis prod.collapse)
  from dispatched_block_served [OF sample_small_strong written_adapter_reach [unfolded sample_adapter_def]
      p [unfolded sample_adapter_def], of 7 KeyPage "[]" 0 0]
  show ?thesis by (simp add: Let_def case_prod_beta)
qed

end
