(* ===== verification/NvmeDaemon.thy ===== *)
theory NvmeDaemon
  imports KvStore
begin

text \<open>
  The guest side of the NVMe path, \<open>scripts/nvme_guest_daemon.c\<close>, and the wire format it shares
  with \<open>person2_ssd/nvme_client.py\<close>: packed little-endian headers of 20 bytes, followed by the
  payload of the command. The daemon serves one connection at a time; here it is a function from the
  bytes it has received and not yet consumed, and the device, to the bytes it sends. Float
  arithmetic (the AVX2 kernels and the comparison of scores) is a parameter; a float is its 32 bits.
\<close>

section \<open>Packed integers\<close>

fun le_bytes :: "nat \<Rightarrow> nat \<Rightarrow> byte list" where
  "le_bytes 0 n = []"
| "le_bytes (Suc k) n = word_of_nat n # le_bytes k (n div 256)"

fun le_nat :: "byte list \<Rightarrow> nat" where
  "le_nat [] = 0"
| "le_nat (b # bs) = unat b + 256 * le_nat bs"

lemma length_le_bytes [simp]: "length (le_bytes k n) = k"
  by (induction k arbitrary: n) simp_all

lemma le_nat_bytes [simp]: "n < 256 ^ k \<Longrightarrow> le_nat (le_bytes k n) = n"
proof (induction k arbitrary: n)
  case (Suc k)
  have "n div 256 < 256 ^ k" using Suc.prems by (simp add: less_mult_imp_div_less mult.commute)
  moreover have "unat (word_of_nat n :: byte) = n mod 256" by (simp add: unat_of_nat)
  ultimately show ?case using Suc.IH by simp
qed simp

lemma le_nat_less: "le_nat bs < 256 ^ length bs"
proof (induction bs)
  case (Cons b bs)
  have "unat b < 256" using unsigned_less [of b] by simp
  moreover have "256 * le_nat bs + 256 \<le> 256 * 256 ^ length bs" using Cons.IH by simp
  ultimately show ?case by simp
qed simp

text \<open>\<open>struct.pack\<close> of one unsigned field: out of range is \<open>struct.error\<close>.\<close>

definition pack_field :: "nat \<Rightarrow> int \<Rightarrow> byte list res" where
  "pack_field k x = (if 0 \<le> x \<and> x < 256 ^ k then Inr (le_bytes k (nat x)) else Inl StructError)"

definition field_at :: "byte list \<Rightarrow> nat \<Rightarrow> nat \<Rightarrow> nat" where
  "field_at bs off k = le_nat (take k (drop off bs))"

section \<open>Headers\<close>

definition MAGIC :: nat where "MAGIC = 0x4E564D45"
definition OP_WRITE :: nat where "OP_WRITE = 1"
definition OP_READ :: nat where "OP_READ = 2"
definition OP_PING :: nat where "OP_PING = 3"
definition OP_FLUSH :: nat where "OP_FLUSH = 4"
definition OP_SHUTDOWN :: nat where "OP_SHUTDOWN = 5"
definition OP_BATCH_READ :: nat where "OP_BATCH_READ = 6"
definition OP_COMPUTE_TOPK :: nat where "OP_COMPUTE_TOPK = 7"
definition HEADER_SIZE :: nat where "HEADER_SIZE = 20"
definition BUFFER_SIZE :: nat where "BUFFER_SIZE = 1024 * 1024"

lemmas op_codes = OP_WRITE_def OP_READ_def OP_PING_def OP_FLUSH_def OP_SHUTDOWN_def OP_BATCH_READ_def
  OP_COMPUTE_TOPK_def

text \<open>
  \<open>"<IBBHQI"\<close>, \<open>struct req_header\<close> and \<open>struct resp_header\<close>: magic, two bytes (operation and flags of
  a request, status and operation of a response), a reserved half word, offset and length.
\<close>

record header =
  hd_magic :: nat
  hd_first :: nat
  hd_second :: nat
  hd_reserved :: nat
  hd_offset :: nat
  hd_length :: nat

definition header_bytes :: "nat \<Rightarrow> nat \<Rightarrow> nat \<Rightarrow> nat \<Rightarrow> byte list" where
  "header_bytes a b off len =
     le_bytes 4 MAGIC @ le_bytes 1 a @ le_bytes 1 b @ le_bytes 2 0 @ le_bytes 8 off @ le_bytes 4 len"

definition parse_header :: "byte list \<Rightarrow> header" where
  "parse_header bs = \<lparr>hd_magic = field_at bs 0 4, hd_first = field_at bs 4 1, hd_second = field_at bs 5 1,
     hd_reserved = field_at bs 6 2, hd_offset = field_at bs 8 8, hd_length = field_at bs 16 4\<rparr>"

lemma length_header_bytes [simp]: "length (header_bytes a b off len) = HEADER_SIZE"
  by (simp add: header_bytes_def HEADER_SIZE_def)

lemma parse_header_bytes:
  assumes "a < 256" "b < 256" "off < 2 ^ 64" "len < 2 ^ 32"
  shows "parse_header (header_bytes a b off len @ rest) =
    \<lparr>hd_magic = MAGIC, hd_first = a, hd_second = b, hd_reserved = 0, hd_offset = off, hd_length = len\<rparr>"
proof -
  have "MAGIC < 256 ^ 4" "off < 256 ^ 8" "len < 256 ^ 4" using assms by (simp_all add: MAGIC_def)
  then show ?thesis using assms(1,2)
    by (simp add: parse_header_def header_bytes_def field_at_def numeral_eq_Suc [symmetric] del: le_bytes.simps)
qed

section \<open>The block device\<close>

text \<open>
  \<open>pread\<close> and \<open>pwrite\<close> on a device of fixed size: short at its end, an error for an offset that
  is negative as \<open>off_t\<close> and for a write that starts at or after the end.
\<close>

definition dev_pread :: "byte list \<Rightarrow> nat \<Rightarrow> nat \<Rightarrow> byte list option" where
  "dev_pread dev n off = (if 2 ^ 63 \<le> off then None else Some (pread dev n off))"

definition dev_pwrite :: "byte list \<Rightarrow> byte list \<Rightarrow> nat \<Rightarrow> nat option \<times> byte list" where
  "dev_pwrite dev bs off =
     (if bs = [] \<and> off < 2 ^ 63 then (Some 0, dev)
      else if length dev \<le> off \<or> 2 ^ 63 \<le> off then (None, dev)
      else (let b = take (length dev - off) bs in (Some (length b), pwrite dev b off)))"

section \<open>The daemon\<close>

record daemon =
  dm_dev :: "byte list"
  dm_in :: "byte list"
  dm_open :: bool
  dm_running :: bool
  dm_overflow :: bool

text \<open>
  Scores as 32 bits: \<open>fo_gt\<close> is \<open>>\<close> on floats, \<open>fo_score\<close> is \<open>compute_block_score_gqa\<close> (half
  precision keys when the flag is set) of query, key bytes, tokens, heads, dimension and scale.
\<close>

record float_ops =
  fo_gt :: "32 word \<Rightarrow> 32 word \<Rightarrow> bool"
  fo_score :: "bool \<Rightarrow> byte list \<Rightarrow> byte list \<Rightarrow> nat \<Rightarrow> nat \<Rightarrow> nat \<Rightarrow> nat \<Rightarrow> 32 word \<Rightarrow> 32 word"

definition write_cmd :: "header \<Rightarrow> byte list \<Rightarrow> daemon \<Rightarrow> (byte list \<times> daemon) option" where
  "write_cmd h rest d =
     (let len = hd_length h; off = hd_offset h; answer = (\<lambda>st n. header_bytes st OP_WRITE off n)
      in if BUFFER_SIZE < len then Some (answer 1 0, d\<lparr>dm_in := rest\<rparr>)
         else if length rest < len then None
         else (case dev_pwrite (dm_dev d) (take len rest) off of
                 (r, dev) \<Rightarrow>
                   (let n = (case r of None \<Rightarrow> 0 | Some m \<Rightarrow> m)
                    in Some (answer (if r = Some len then 0 else 1) n, d\<lparr>dm_dev := dev, dm_in := drop len rest\<rparr>))))"

definition read_cmd :: "header \<Rightarrow> byte list \<Rightarrow> daemon \<Rightarrow> (byte list \<times> daemon) option" where
  "read_cmd h rest d =
     (let off = hd_offset h; answer = (\<lambda>st n. header_bytes st OP_READ off n); d' = d\<lparr>dm_in := rest\<rparr>
      in if BUFFER_SIZE < hd_length h then Some (answer 1 0, d')
         else (case dev_pread (dm_dev d) (hd_length h) off of
                 None \<Rightarrow> Some (answer 1 0, d')
               | Some bs \<Rightarrow> Some (answer 0 (length bs) @ bs, d')))"

text \<open>
  A batch item is offset, length and block id. Its length is not checked against the buffer:
  reading more than a megabyte overflows it, which ends the run of the model.
\<close>

fun batch_items :: "nat \<Rightarrow> byte list \<Rightarrow> (nat \<times> nat \<times> nat) list" where
  "batch_items 0 bs = []"
| "batch_items (Suc n) bs = (field_at bs 0 8, field_at bs 8 4, field_at bs 12 4) # batch_items n (drop 16 bs)"

definition item_answer :: "byte list \<Rightarrow> nat \<times> nat \<times> nat \<Rightarrow> byte list" where
  "item_answer dev it = (case it of (off, len, bid) \<Rightarrow>
     (case dev_pread dev len off of
        Some bs \<Rightarrow> (if length bs = len then le_bytes 1 0 @ le_bytes 4 bid @ le_bytes 4 len @ bs
                    else le_bytes 1 1 @ le_bytes 4 bid @ le_bytes 4 len)
      | None \<Rightarrow> le_bytes 1 1 @ le_bytes 4 bid @ le_bytes 4 len))"

definition item_overflows :: "byte list \<Rightarrow> nat \<times> nat \<times> nat \<Rightarrow> bool" where
  "item_overflows dev it = (case it of (off, len, bid) \<Rightarrow>
     (case dev_pread dev len off of Some bs \<Rightarrow> BUFFER_SIZE < length bs | None \<Rightarrow> False))"

definition batch_cmd :: "header \<Rightarrow> byte list \<Rightarrow> daemon \<Rightarrow> (byte list \<times> daemon) option" where
  "batch_cmd h rest d =
     (let n = hd_length h; its = batch_items n rest; d' = d\<lparr>dm_in := drop (16 * n) rest\<rparr>
      in if length rest < 16 * n then None
         else if \<exists>it\<in>set its. item_overflows (dm_dev d) it
              then Some (header_bytes 0 OP_BATCH_READ (hd_offset h) n @
                         concat (map (item_answer (dm_dev d)) (takeWhile (\<lambda>it. \<not> item_overflows (dm_dev d) it) its)),
                     d'\<lparr>dm_open := False, dm_running := False, dm_overflow := True\<rparr>)
         else Some (header_bytes 0 OP_BATCH_READ (hd_offset h) n @ concat (map (item_answer (dm_dev d)) its), d'))"

text \<open>The best candidates so far, in descending order: score, block, tokens.\<close>

type_synonym top_item = "32 word \<times> nat \<times> nat"

fun insert_pos :: "float_ops \<Rightarrow> 32 word \<Rightarrow> top_item list \<Rightarrow> nat \<Rightarrow> nat" where
  "insert_pos fo sc best 0 = 0"
| "insert_pos fo sc best (Suc p) = (if fo_gt fo sc (fst (best ! p)) then insert_pos fo sc best p else Suc p)"

definition topk_insert :: "float_ops \<Rightarrow> top_item \<Rightarrow> top_item list \<Rightarrow> top_item list" where
  "topk_insert fo x best =
     (if best \<noteq> [] \<and> fo_gt fo (fst x) (fst (last best))
      then (let p = insert_pos fo (fst x) best (length best - 1) in butlast (take p best @ x # drop p best))
      else best)"

fun cand_items :: "nat \<Rightarrow> byte list \<Rightarrow> (nat \<times> nat \<times> nat \<times> nat) list" where
  "cand_items 0 bs = []"
| "cand_items (Suc n) bs =
     (field_at bs 0 8, field_at bs 8 4, field_at bs 12 4, field_at bs 16 4) # cand_items n (drop 20 bs)"

definition LOWEST_SCORE :: "32 word" where "LOWEST_SCORE = 0xF149F2CA"

definition rank_cand ::
    "float_ops \<Rightarrow> byte list \<Rightarrow> bool \<Rightarrow> byte list \<Rightarrow> nat \<Rightarrow> nat \<Rightarrow> nat \<Rightarrow> 32 word \<Rightarrow>
     nat \<times> nat \<times> nat \<times> nat \<Rightarrow> top_item list \<Rightarrow> top_item list" where
  "rank_cand fo dev fp16 query qh kvh hdim scale c best = (case c of (off, len, bid, tok) \<Rightarrow>
     (let n = min len BUFFER_SIZE
      in case dev_pread dev n off of
           None \<Rightarrow> best
         | Some bs \<Rightarrow> (if length bs \<noteq> n then best
                      else topk_insert fo (fo_score fo fp16 query bs tok qh kvh hdim scale, bid, tok) best)))"

definition topk_cmd :: "float_ops \<Rightarrow> header \<Rightarrow> byte list \<Rightarrow> daemon \<Rightarrow> (byte list \<times> daemon) option" where
  "topk_cmd fo h rest d =
     (let num = field_at rest 0 4; qh = field_at rest 8 4; kvh = field_at rest 12 4; hdim = field_at rest 16 4;
          scale = word_of_nat (field_at rest 20 4); qn = 4 * ((qh * hdim) mod 2 ^ 32);
          query = take qn (drop 24 rest); cands = cand_items num (drop (24 + qn) rest); used = 24 + qn + 20 * num;
          k = min (field_at rest 4 4) num;
          fp16 = (hd_second h = 1 \<or> (case cands of [] \<Rightarrow> False | (_, len, _) # _ \<Rightarrow> len = (16 * kvh * hdim * 2) mod 2 ^ 32));
          best = fold (rank_cand fo (dm_dev d) fp16 query qh kvh hdim scale) cands (replicate k (LOWEST_SCORE, 0, 0))
      in if length rest < 24 \<or> length rest < used then None
         else Some (header_bytes 0 OP_COMPUTE_TOPK (hd_offset h) k @
                    concat (map (\<lambda>(sc, bid, tok). le_bytes 4 bid @ le_bytes 4 (unat sc) @ le_bytes 4 tok) best),
                d\<lparr>dm_in := drop used rest\<rparr>))"

text \<open>One command, or nothing while the bytes of one have not all arrived.\<close>

definition daemon_step :: "float_ops \<Rightarrow> daemon \<Rightarrow> (byte list \<times> daemon) option" where
  "daemon_step fo d =
     (let h = parse_header (dm_in d); rest = drop HEADER_SIZE (dm_in d);
          answer = header_bytes 0 (hd_first h) (hd_offset h) 0
      in if \<not> dm_open d \<or> length (dm_in d) < HEADER_SIZE then None
         else if hd_magic h \<noteq> MAGIC then Some ([], d\<lparr>dm_in := [], dm_open := False\<rparr>)
         else if hd_first h = OP_PING then Some (answer, d\<lparr>dm_in := rest\<rparr>)
         else if hd_first h = OP_WRITE then write_cmd h rest d
         else if hd_first h = OP_READ then read_cmd h rest d
         else if hd_first h = OP_BATCH_READ then batch_cmd h rest d
         else if hd_first h = OP_COMPUTE_TOPK then topk_cmd fo h rest d
         else if hd_first h = OP_FLUSH then Some (answer, d\<lparr>dm_in := rest\<rparr>)
         else if hd_first h = OP_SHUTDOWN
              then Some (answer, d\<lparr>dm_in := rest, dm_running := False, dm_open := False\<rparr>)
         else Some ([], d\<lparr>dm_in := rest\<rparr>))"

lemma daemon_step_consumes:
  assumes "daemon_step fo d = Some (out, d')"
  shows "length (dm_in d') < length (dm_in d)"
  using assms
  by (auto simp: daemon_step_def write_cmd_def read_cmd_def batch_cmd_def topk_cmd_def Let_def HEADER_SIZE_def
      split: if_splits option.splits prod.splits)

text \<open>The request loop: it stops when a command is incomplete or the connection is closed.\<close>

function daemon_run :: "float_ops \<Rightarrow> daemon \<Rightarrow> byte list \<times> daemon" where
  "daemon_run fo d = (case daemon_step fo d of
     None \<Rightarrow> ([], d)
   | Some (out, d') \<Rightarrow> (case daemon_run fo d' of (out', d'') \<Rightarrow> (out @ out', d'')))"
  by pat_completeness auto

termination
  by (relation "measure (\<lambda>(fo, d). length (dm_in d))") (auto dest: daemon_step_consumes)

declare daemon_run.simps [simp del]

end
