(* ===== verification/NvmeClient.thy ===== *)
theory NvmeClient
  imports NvmeDaemon
begin

text \<open>
  The host side of the NVMe path, \<open>QemuNvmeClient\<close> in \<open>person2_ssd/nvme_client.py\<close>, joined to the
  daemon by a stream socket: \<open>net\<close>, a parameter, cuts the bytes the daemon sends into the segments
  that \<open>recv\<close> hands out. Starting and waiting for the guest process is not modelled, nor elapsed
  times; a \<open>recv\<close> that would wait on an open connection ends in the socket's timeout.
\<close>

section \<open>State\<close>

record nvme =
  nv_sock :: bool
  nv_rx :: "byte list list"
  nv_dm :: daemon
  nv_read_bytes :: int
  nv_write_bytes :: int
  nv_read_ops :: int
  nv_write_ops :: int
  nv_batch_count :: int
  nv_batch_sizes :: "int list"
  nv_topk_ops :: int
  nv_topk_scanned :: int
  nv_topk_query :: int
  nv_topk_meta :: int

definition new_client :: "daemon \<Rightarrow> nvme" where
  "new_client d = \<lparr>nv_sock = False, nv_rx = [], nv_dm = d, nv_read_bytes = 0, nv_write_bytes = 0, nv_read_ops = 0,
     nv_write_ops = 0, nv_batch_count = 0, nv_batch_sizes = [], nv_topk_ops = 0, nv_topk_scanned = 0,
     nv_topk_query = 0, nv_topk_meta = 0\<rparr>"

section \<open>The socket\<close>

record network =
  ne_cut :: "byte list \<Rightarrow> byte list list"
  ne_fo :: float_ops

definition nv_connect :: "(nvme, unit) meth" where
  "nv_connect s =
     (if dm_running (nv_dm s)
      then (Inr (), s\<lparr>nv_sock := True, nv_rx := [], nv_dm := (nv_dm s)\<lparr>dm_in := [], dm_open := True\<rparr>\<rparr>)
      else (Inl OSError, s))"

definition ensure_connected :: "(nvme, unit) meth" where
  "ensure_connected s = (if nv_sock s then (Inr (), s) else nv_connect s)"

text \<open>\<open>sendall\<close>: the daemon takes the bytes in and answers as far as it can.\<close>

definition sendall :: "network \<Rightarrow> byte list \<Rightarrow> nvme \<Rightarrow> nvme" where
  "sendall net bs s =
     (if dm_open (nv_dm s)
      then (case daemon_run (ne_fo net) ((nv_dm s)\<lparr>dm_in := dm_in (nv_dm s) @ bs\<rparr>) of
              (out, d) \<Rightarrow> s\<lparr>nv_dm := d, nv_rx := nv_rx s @ ne_cut net out\<rparr>)
      else s)"

definition sock_recv :: "nat \<Rightarrow> (nvme, byte list) meth" where
  "sock_recv n s = (case nv_rx s of
     [] \<Rightarrow> (if dm_open (nv_dm s) then (Inl TimeoutError, s) else (Inr [], s))
   | seg # rest \<Rightarrow> (Inr (take n seg), s\<lparr>nv_rx := (if length seg \<le> n then rest else drop n seg # rest)\<rparr>))"

function recv_exact :: "nat \<Rightarrow> byte list \<Rightarrow> (nvme, byte list) meth" where
  "recv_exact n data s =
     (if n \<le> length data then (Inr data, s)
      else (case sock_recv (n - length data) s of
              (Inl e, s') \<Rightarrow> (Inl e, s')
            | (Inr chunk, s') \<Rightarrow>
                (if chunk = [] then (Inl ConnectionResetError, s') else recv_exact n (data @ chunk) s')))"
  by pat_completeness auto

termination
  by (relation "measure (\<lambda>(n, data, s). n - length data)") (auto simp: neq_Nil_conv)

declare recv_exact.simps [simp del]

section \<open>Commands\<close>

definition pack_header :: "nat \<Rightarrow> nat \<Rightarrow> int \<Rightarrow> int \<Rightarrow> byte list res" where
  "pack_header op flags off len =
     rbind (pack_field 8 off) (\<lambda>ob. rbind (pack_field 4 len) (\<lambda>l.
       Inr (le_bytes 4 MAGIC @ le_bytes 1 op @ le_bytes 1 flags @ le_bytes 2 0 @ ob @ l)))"

text \<open>The response header; anything but a successful one is \<open>IOError\<close>.\<close>

definition recv_header :: "(nvme, header) meth" where
  "recv_header = sbind (recv_exact HEADER_SIZE []) (\<lambda>bs. sret (parse_header bs))"

definition check_header :: "header \<Rightarrow> (nvme, unit) meth" where
  "check_header h = (if hd_magic h \<noteq> MAGIC \<or> hd_first h \<noteq> 0 then sraise OSError else sret ())"

definition os_error :: "exn \<Rightarrow> bool" where
  "os_error e \<longleftrightarrow> e \<in> {OSError, ConnectionResetError, TimeoutError}"

definition nv_ping :: "network \<Rightarrow> (nvme, bool) meth" where
  "nv_ping net =
     sbind (slift (pack_header OP_PING 0 0 0)) (\<lambda>req.
     sthen (supd (sendall net req))
    (sbind recv_header (\<lambda>h. sret (hd_magic h = MAGIC \<and> hd_first h = 0))))"

definition nv_is_alive :: "network \<Rightarrow> (nvme, bool) meth" where
  "nv_is_alive net s =
     (case ensure_connected s of
        (Inl e, s1) \<Rightarrow> (if os_error e then (Inr False, s1) else (Inl e, s1))
      | (Inr _, s1) \<Rightarrow>
          (case nv_ping net s1 of
             (Inl e, s2) \<Rightarrow> (if os_error e then (Inr False, s2) else (Inl e, s2))
           | (Inr b, s2) \<Rightarrow> (Inr b, s2)))"

definition nv_write :: "network \<Rightarrow> int \<Rightarrow> byte list \<Rightarrow> (nvme, int) meth" where
  "nv_write net off data =
     sthen ensure_connected
    (sbind (slift (pack_header OP_WRITE 0 off (int (length data)))) (\<lambda>req.
     sthen (supd (sendall net (req @ data)))
    (sbind recv_header (\<lambda>h.
     sthen (check_header h)
    (sthen (supd (\<lambda>s. s\<lparr>nv_write_ops := nv_write_ops s + 1, nv_write_bytes := nv_write_bytes s + int (hd_length h)\<rparr>))
    (sret (int (hd_length h))))))))"

definition nv_read :: "network \<Rightarrow> int \<Rightarrow> int \<Rightarrow> (nvme, byte list) meth" where
  "nv_read net off len =
     sthen ensure_connected
    (sbind (slift (pack_header OP_READ 0 off len)) (\<lambda>req.
     sthen (supd (sendall net req))
    (sbind recv_header (\<lambda>h.
     sthen (check_header h)
    (sbind (recv_exact (hd_length h) []) (\<lambda>data.
     sthen (supd (\<lambda>s. s\<lparr>nv_read_ops := nv_read_ops s + 1, nv_read_bytes := nv_read_bytes s + int (hd_length h)\<rparr>))
    (sret data)))))))"

fun pack_items :: "(int \<times> int \<times> int) list \<Rightarrow> byte list res" where
  "pack_items [] = Inr []"
| "pack_items ((off, len, bid) # rs) =
     rbind (pack_field 8 off) (\<lambda>ob. rbind (pack_field 4 len) (\<lambda>l. rbind (pack_field 4 bid) (\<lambda>b.
       rbind (pack_items rs) (\<lambda>bs. Inr (ob @ l @ b @ bs)))))"

definition recv_item :: "nat \<Rightarrow> (int, byte list) dict \<Rightarrow> (nvme, (int, byte list) dict) meth" where
  "recv_item i acc =
     sbind (recv_exact 9 []) (\<lambda>hdr.
     if field_at hdr 0 1 \<noteq> 0 then sraise OSError
     else sbind (recv_exact (field_at hdr 5 4) []) (\<lambda>data. sret (dset (int (field_at hdr 1 4)) data acc)))"

definition nv_read_batch :: "network \<Rightarrow> (int \<times> int \<times> int) list \<Rightarrow> (nvme, (int, byte list) dict) meth" where
  "nv_read_batch net reqs =
     (if reqs = [] then sret []
      else sthen ensure_connected
          (sbind (slift (pack_header OP_BATCH_READ 0 0 (int (length reqs)))) (\<lambda>req.
           sbind (slift (pack_items reqs)) (\<lambda>items.
           sthen (supd (sendall net (req @ items)))
          (sbind recv_header (\<lambda>h.
           sthen (check_header h)
          (sbind (sfor recv_item [0..<hd_length h] []) (\<lambda>results.
           sthen (supd (\<lambda>s. s\<lparr>nv_read_ops := nv_read_ops s + int (length reqs),
                    nv_read_bytes := nv_read_bytes s + sum_list (map (\<lambda>(off, len, bid). len) reqs),
                    nv_batch_count := nv_batch_count s + 1,
                    nv_batch_sizes := nv_batch_sizes s @ [int (length reqs)]\<rparr>))
          (sret results)))))))))"

text \<open>The in-storage filter. Scale and scores travel as 32-bit floats, given here as their bits.\<close>

fun pack_cands :: "(int \<times> int \<times> int \<times> int) list \<Rightarrow> byte list res" where
  "pack_cands [] = Inr []"
| "pack_cands ((off, len, bid, tok) # cs) =
     rbind (pack_field 8 off) (\<lambda>ob. rbind (pack_field 4 len) (\<lambda>l. rbind (pack_field 4 bid) (\<lambda>b. rbind (pack_field 4 tok) (\<lambda>t.
       rbind (pack_cands cs) (\<lambda>bs. Inr (ob @ l @ b @ t @ bs))))))"

definition pack_topk :: "int \<Rightarrow> int \<Rightarrow> int \<Rightarrow> int \<Rightarrow> int \<Rightarrow> 32 word \<Rightarrow> byte list res" where
  "pack_topk num k qh kvh hdim scale =
     rbind (pack_field 4 num) (\<lambda>a. rbind (pack_field 4 k) (\<lambda>b. rbind (pack_field 4 qh) (\<lambda>c.
       rbind (pack_field 4 kvh) (\<lambda>d. rbind (pack_field 4 hdim) (\<lambda>e. Inr (a @ b @ c @ d @ e @ le_bytes 4 (unat scale)))))))"

definition topk_rows :: "nat \<Rightarrow> byte list \<Rightarrow> (32 word \<times> int \<times> int) list" where
  "topk_rows n bs = map (\<lambda>i. (word_of_nat (field_at bs (12 * i + 4) 4), int (field_at bs (12 * i) 4),
     int (field_at bs (12 * i + 8) 4))) [0..<n]"

definition nv_compute_topk ::
    "network \<Rightarrow> byte list \<Rightarrow> (int \<times> int \<times> int \<times> int) list \<Rightarrow> int \<Rightarrow> 32 word \<Rightarrow> int \<Rightarrow> int \<Rightarrow> int \<Rightarrow> bool \<Rightarrow>
     (nvme, (32 word \<times> int \<times> int) list) meth" where
  "nv_compute_topk net query cands k scale qh kvh hdim fp16 =
     (if cands = [] then sret []
      else sthen ensure_connected
          (sbind (slift (pack_header OP_COMPUTE_TOPK (if fp16 then 1 else 0) 0 (int (length cands)))) (\<lambda>req.
           sbind (slift (pack_topk (int (length cands)) k qh kvh hdim scale)) (\<lambda>params.
           sbind (slift (pack_cands cands)) (\<lambda>items.
           sthen (supd (sendall net (req @ params @ query @ items)))
          (sbind recv_header (\<lambda>h.
           sthen (check_header h)
          (sbind (if 0 < hd_length h then recv_exact (hd_length h * 12) [] else sret []) (\<lambda>rows.
           sthen (supd (\<lambda>s. let scanned = sum_list (map (\<lambda>(off, len, bid, tok). len) cands)
                           in s\<lparr>nv_read_ops := nv_read_ops s + int (length cands),
                                nv_read_bytes := nv_read_bytes s + scanned,
                                nv_batch_count := nv_batch_count s + 1,
                                nv_batch_sizes := nv_batch_sizes s @ [int (length cands)],
                                nv_topk_ops := nv_topk_ops s + 1,
                                nv_topk_scanned := nv_topk_scanned s + scanned,
                                nv_topk_query := nv_topk_query s + int (length query + length items),
                                nv_topk_meta := nv_topk_meta s + int (hd_length h * 12)\<rparr>))
          (sret (topk_rows (hd_length h) rows)))))))))))"

text \<open>\<open>flush\<close> does not look at the status; \<open>stop_qemu\<close> does not wait for one.\<close>

definition nv_flush :: "network \<Rightarrow> (nvme, unit) meth" where
  "nv_flush net =
     sbind (sread nv_sock) (\<lambda>up.
     if \<not> up then sret ()
     else sbind (slift (pack_header OP_FLUSH 0 0 0)) (\<lambda>req.
          sthen (supd (sendall net req)) (sbind (recv_exact HEADER_SIZE []) (\<lambda>_. sret ()))))"

definition nv_stop :: "network \<Rightarrow> (nvme, unit) meth" where
  "nv_stop net =
     sbind (sread nv_sock) (\<lambda>up.
     if \<not> up then sret ()
     else sbind (slift (pack_header OP_SHUTDOWN 0 0 0)) (\<lambda>req.
          sthen (supd (sendall net req)) (supd (\<lambda>s. s\<lparr>nv_sock := False, nv_rx := []\<rparr>))))"

definition nv_reset_stats :: "nvme \<Rightarrow> nvme" where
  "nv_reset_stats s = s\<lparr>nv_read_bytes := 0, nv_write_bytes := 0, nv_read_ops := 0, nv_write_ops := 0,
     nv_batch_count := 0, nv_batch_sizes := [], nv_topk_ops := 0, nv_topk_scanned := 0, nv_topk_query := 0,
     nv_topk_meta := 0\<rparr>"

text \<open>The telemetry, without what is derived from elapsed times.\<close>

record nvme_telemetry =
  nt_read_ops :: int
  nt_write_ops :: int
  nt_read_bytes :: int
  nt_write_bytes :: int
  nt_total_bytes :: int
  nt_batch_count :: int
  nt_min_batch :: int
  nt_max_batch :: int
  nt_avg_batch :: real
  nt_topk_ops :: int
  nt_topk_scanned :: int
  nt_topk_query :: int
  nt_topk_meta :: int

definition nv_get_telemetry :: "nvme \<Rightarrow> nvme_telemetry" where
  "nv_get_telemetry s =
     (let bs = nv_batch_sizes s
      in \<lparr>nt_read_ops = nv_read_ops s, nt_write_ops = nv_write_ops s, nt_read_bytes = nv_read_bytes s,
          nt_write_bytes = nv_write_bytes s, nt_total_bytes = nv_read_bytes s + nv_write_bytes s,
          nt_batch_count = nv_batch_count s, nt_min_batch = (if bs = [] then 0 else Min (set bs)),
          nt_max_batch = (if bs = [] then 0 else Max (set bs)),
          nt_avg_batch = (if bs = [] then 0 else round_to 2 (of_int (sum_list bs) / of_int (int (length bs)))),
          nt_topk_ops = nv_topk_ops s, nt_topk_scanned = nv_topk_scanned s, nt_topk_query = nv_topk_query s,
          nt_topk_meta = nv_topk_meta s\<rparr>)"

end
