(* ===== verification/NvmeDevice.thy ===== *)
theory NvmeDevice
  imports NvmeClient
begin

text \<open>
  What the NVMe path promises: receiving does not depend on how the stream is cut, and client and
  daemon together are a byte-addressed device. The interface is a locale of its own, which the
  client and daemon provide. Then the ways the protocol loses its place in the stream.
\<close>

section \<open>The contract of a device\<close>

locale raw_device =
  fixes dv_write :: "int \<Rightarrow> byte list \<Rightarrow> ('s, int) meth"
    and dv_read :: "int \<Rightarrow> int \<Rightarrow> ('s, byte list) meth"
    and content :: "'s \<Rightarrow> byte list"
    and inv :: "'s \<Rightarrow> bool"
    and limit :: nat
  assumes write_law: "inv s \<Longrightarrow> 0 \<le> off \<Longrightarrow> length bs \<le> limit \<Longrightarrow> nat off + length bs \<le> length (content s) \<Longrightarrow>
      \<exists>s'. dv_write off bs s = (Inr (int (length bs)), s') \<and> inv s' \<and> content s' = pwrite (content s) bs (nat off)"
    and read_law: "inv s \<Longrightarrow> 0 \<le> off \<Longrightarrow> 0 \<le> n \<Longrightarrow> nat n \<le> limit \<Longrightarrow> nat off + nat n \<le> length (content s) \<Longrightarrow>
      \<exists>s'. dv_read off n s = (Inr (pread (content s) (nat n) (nat off)), s') \<and> inv s' \<and> content s' = content s"

locale batch_device = raw_device +
  fixes dv_batch :: "(int \<times> int \<times> int) list \<Rightarrow> ('a, (int, byte list) dict) meth"
  assumes batch_law: "inv s \<Longrightarrow> length reqs < 2 ^ 32 \<Longrightarrow>
      \<forall>(off, n, bid)\<in>set reqs. 0 \<le> off \<and> 0 \<le> n \<and> nat n \<le> limit \<and> nat off + nat n \<le> length (content s) \<and>
        0 \<le> bid \<and> bid < 2 ^ 32 \<Longrightarrow>
      \<exists>d s'. dv_batch reqs s = (Inr d, s') \<and> inv s' \<and> content s' = content s \<and>
        (\<forall>b. dget d b = map_of (rev (map (\<lambda>(off, n, bid). (bid, pread (content s) (nat n) (nat off))) reqs)) b)"

text \<open>A program over a device, and what it does to an array of bytes.\<close>

datatype dev_call = DWrite int "byte list" | DRead int int | DBatch "(int \<times> int \<times> int) list"

datatype dev_answer = AWritten int | ABytes "byte list" | ABlocks "int \<Rightarrow> byte list option" | AError exn

fun dev_spec :: "dev_call \<Rightarrow> byte list \<Rightarrow> dev_answer \<times> byte list" where
  "dev_spec (DWrite off bs) c = (AWritten (int (length bs)), pwrite c bs (nat off))"
| "dev_spec (DRead off n) c = (ABytes (pread c (nat n) (nat off)), c)"
| "dev_spec (DBatch reqs) c =
     (ABlocks (map_of (rev (map (\<lambda>(off, n, bid). (bid, pread c (nat n) (nat off))) reqs))), c)"

fun dev_call_ok :: "nat \<Rightarrow> nat \<Rightarrow> dev_call \<Rightarrow> bool" where
  "dev_call_ok limit room (DWrite off bs) \<longleftrightarrow> 0 \<le> off \<and> length bs \<le> limit \<and> nat off + length bs \<le> room"
| "dev_call_ok limit room (DRead off n) \<longleftrightarrow> 0 \<le> off \<and> 0 \<le> n \<and> nat n \<le> limit \<and> nat off + nat n \<le> room"
| "dev_call_ok limit room (DBatch reqs) \<longleftrightarrow> length reqs < 2 ^ 32 \<and>
     (\<forall>(off, n, bid)\<in>set reqs. 0 \<le> off \<and> 0 \<le> n \<and> nat n \<le> limit \<and> nat off + nat n \<le> room \<and> 0 \<le> bid \<and> bid < 2 ^ 32)"

fun dev_run :: "('c \<Rightarrow> 's \<Rightarrow> 'r \<times> 's) \<Rightarrow> 'c list \<Rightarrow> 's \<Rightarrow> 'r list \<times> 's" where
  "dev_run f [] s = ([], s)"
| "dev_run f (c # cs) s = (case f c s of (r, s') \<Rightarrow> (case dev_run f cs s' of (rs, s'') \<Rightarrow> (r # rs, s'')))"

lemma length_pwrite: "off + length bs \<le> length c \<Longrightarrow> length (pwrite c bs off) = length c"
  by (simp add: pwrite_def)

lemma pread_pwrite: "off + length bs \<le> length c \<Longrightarrow> pread (pwrite c bs off) (length bs) off = bs"
  by (simp add: pwrite_def pread_def)

lemma pread_pwrite_other:
  assumes "off + length bs \<le> length c" "o' + n \<le> off \<or> off + length bs \<le> o'"
  shows "pread (pwrite c bs off) n o' = pread c n o'"
  using assms by (auto simp: pwrite_def pread_def drop_take min_def intro!: nth_equalityI)

fun dev_do ::
    "(int \<Rightarrow> byte list \<Rightarrow> ('s, int) meth) \<Rightarrow> (int \<Rightarrow> int \<Rightarrow> ('s, byte list) meth) \<Rightarrow>
     ((int \<times> int \<times> int) list \<Rightarrow> ('s, (int, byte list) dict) meth) \<Rightarrow> dev_call \<Rightarrow> 's \<Rightarrow> dev_answer \<times> 's" where
  "dev_do w r b (DWrite off bs) s = (case w off bs s of (Inr n, s') \<Rightarrow> (AWritten n, s') | (Inl e, s') \<Rightarrow> (AError e, s'))"
| "dev_do w r b (DRead off n) s = (case r off n s of (Inr x, s') \<Rightarrow> (ABytes x, s') | (Inl e, s') \<Rightarrow> (AError e, s'))"
| "dev_do w r b (DBatch reqs) s = (case b reqs s of (Inr d, s') \<Rightarrow> (ABlocks (map_of d), s') | (Inl e, s') \<Rightarrow> (AError e, s'))"

context batch_device
begin

lemma do_spec:
  assumes "inv s" "dev_call_ok limit (length (content s)) c"
  shows "\<exists>s'. dev_do dv_write dv_read dv_batch c s = (fst (dev_spec c (content s)), s') \<and> inv s' \<and>
    content s' = snd (dev_spec c (content s)) \<and> length (content s') = length (content s)"
proof (cases c)
  case (DWrite off bs)
  with assms write_law [of s off bs] length_pwrite show ?thesis by fastforce
next
  case (DRead off n)
  with assms read_law [of s off n] show ?thesis by fastforce
next
  case (DBatch reqs)
  with assms batch_law [of s reqs] obtain d s' where d: "dv_batch reqs s = (Inr d, s')" "inv s'" "content s' = content s"
    "\<forall>b. dget d b = map_of (rev (map (\<lambda>(off, n, bid). (bid, pread (content s) (nat n) (nat off))) reqs)) b"
    by auto
  then have "map_of d = map_of (rev (map (\<lambda>(off, n, bid). (bid, pread (content s) (nat n) (nat off))) reqs))" by blast
  with d DBatch show ?thesis by simp
qed

lemma run_spec:
  "inv s \<Longrightarrow> \<forall>c\<in>set cs. dev_call_ok limit (length (content s)) c \<Longrightarrow>
   \<exists>s'. dev_run (dev_do dv_write dv_read dv_batch) cs s = (fst (dev_run dev_spec cs (content s)), s') \<and> inv s' \<and>
     content s' = snd (dev_run dev_spec cs (content s))"
proof (induction cs arbitrary: s)
  case (Cons c cs)
  obtain s1 where s1: "dev_do dv_write dv_read dv_batch c s = (fst (dev_spec c (content s)), s1)" "inv s1"
    "content s1 = snd (dev_spec c (content s))" "length (content s1) = length (content s)"
    using do_spec [OF Cons.prems(1), of c] Cons.prems(2) by auto
  obtain s2 where s2: "dev_run (dev_do dv_write dv_read dv_batch) cs s1 = (fst (dev_run dev_spec cs (content s1)), s2)"
    "inv s2" "content s2 = snd (dev_run dev_spec cs (content s1))"
    using Cons.IH [OF s1(2)] Cons.prems(2) s1(4) by auto
  then show ?case using s1 by (simp add: case_prod_beta)
qed simp

end

section \<open>Receiving\<close>

lemma recv_exact_stream:
  assumes "[] \<notin> set (nv_rx s)" "n - length data \<le> length (concat (nv_rx s))"
  shows "\<exists>segs. recv_exact n data s = (Inr (data @ take (n - length data) (concat (nv_rx s))), s\<lparr>nv_rx := segs\<rparr>) \<and>
    concat segs = drop (n - length data) (concat (nv_rx s)) \<and> [] \<notin> set segs"
  using assms
proof (induction n data s rule: recv_exact.induct)
  case (1 n data s)
  show ?case
  proof (cases "n \<le> length data")
    case True
    then show ?thesis using 1(2) by (intro exI [of _ "nv_rx s"]) (simp add: recv_exact.simps)
  next
    case False
    let ?k = "n - length data"
    obtain seg rest where rx: "nv_rx s = seg # rest" "seg \<noteq> []"
      using 1(2,3) False by (cases "nv_rx s") auto
    let ?s = "s\<lparr>nv_rx := (if length seg \<le> ?k then rest else drop ?k seg # rest)\<rparr>"
    have recv: "sock_recv ?k s = (Inr (take ?k seg), ?s)" using rx by (simp add: sock_recv_def)
    have ne: "take ?k seg \<noteq> []" using False rx(2) by simp
    have mem: "[] \<notin> set (nv_rx ?s)" using 1(2) rx(1) by auto
    have stream: "concat (nv_rx ?s) = drop (length (take ?k seg)) (concat (nv_rx s))" using rx(1) by simp
    have left: "n - length (data @ take ?k seg) = ?k - length (take ?k seg)" by simp
    have len: "n - length (data @ take ?k seg) \<le> length (concat (nv_rx ?s))"
      using 1(3) unfolding stream left length_drop by linarith
    obtain segs where segs: "recv_exact n (data @ take ?k seg) ?s =
        (Inr ((data @ take ?k seg) @ take (?k - length (take ?k seg)) (concat (nv_rx ?s))), ?s\<lparr>nv_rx := segs\<rparr>)"
      "concat segs = drop (?k - length (take ?k seg)) (concat (nv_rx ?s))" "[] \<notin> set segs"
      using 1(1) [OF False recv [symmetric] refl ne mem len] unfolding left by blast
    have "recv_exact n data s = recv_exact n (data @ take ?k seg) ?s"
      using False recv ne by (simp add: recv_exact.simps [of n data s])
    moreover have "take ?k (concat (nv_rx s)) = take ?k seg @ take (?k - length seg) (concat rest)"
      using rx(1) by simp
    ultimately show ?thesis using segs rx(1) by (intro exI [of _ segs]) (auto simp: min_def)
  qed
qed

lemma recv_all:
  assumes "[] \<notin> set (nv_rx s)" "concat (nv_rx s) = a @ b"
  shows "\<exists>segs. recv_exact (length a) [] s = (Inr a, s\<lparr>nv_rx := segs\<rparr>) \<and> concat segs = b \<and> [] \<notin> set segs"
  using recv_exact_stream [OF assms(1), of "length a" "[]"] assms(2) by auto

lemma no_segments: "concat segs = [] \<Longrightarrow> [] \<notin> set segs \<Longrightarrow> segs = []"
  by (cases segs) auto

lemma recv_header_ok:
  assumes "[] \<notin> set (nv_rx s)" "concat (nv_rx s) = header_bytes a b off len @ rest"
    and "a < 256" "b < 256" "off < 2 ^ 64" "len < 2 ^ 32"
  shows "\<exists>segs. recv_header s = (Inr \<lparr>hd_magic = MAGIC, hd_first = a, hd_second = b, hd_reserved = 0,
      hd_offset = off, hd_length = len\<rparr>, s\<lparr>nv_rx := segs\<rparr>) \<and> concat segs = rest \<and> [] \<notin> set segs"
proof -
  obtain segs where "recv_exact HEADER_SIZE [] s = (Inr (header_bytes a b off len), s\<lparr>nv_rx := segs\<rparr>)"
    "concat segs = rest" "[] \<notin> set segs" using recv_all [OF assms(1,2)] by auto
  moreover have "parse_header (header_bytes a b off len) = \<lparr>hd_magic = MAGIC, hd_first = a, hd_second = b,
      hd_reserved = 0, hd_offset = off, hd_length = len\<rparr>"
    using parse_header_bytes [OF assms(3-6), of "[]"] by simp
  ultimately show ?thesis by (intro exI [of _ segs]) (simp add: recv_header_def meth_run)
qed

section \<open>Client and daemon in step\<close>

definition net_ok :: "network \<Rightarrow> bool" where
  "net_ok net \<longleftrightarrow> (\<forall>bs. concat (ne_cut net bs) = bs \<and> [] \<notin> set (ne_cut net bs))"

definition in_sync :: "nvme \<Rightarrow> bool" where
  "in_sync s \<longleftrightarrow> nv_sock s \<and> nv_rx s = [] \<and> dm_open (nv_dm s) \<and> dm_running (nv_dm s) \<and> dm_in (nv_dm s) = [] \<and>
     length (dm_dev (nv_dm s)) < 2 ^ 63"

lemma pack_header_ok:
  "0 \<le> off \<Longrightarrow> off < 2 ^ 64 \<Longrightarrow> 0 \<le> len \<Longrightarrow> len < 2 ^ 32 \<Longrightarrow>
   pack_header op fl off len = Inr (header_bytes op fl (nat off) (nat len))"
  by (simp add: pack_header_def pack_field_def header_bytes_def)

lemma daemon_idle: "dm_in d = [] \<Longrightarrow> daemon_run fo d = ([], d)"
  by (simp add: daemon_run.simps daemon_step_def HEADER_SIZE_def Let_def)

lemma sendall_step:
  assumes "in_sync s" "daemon_step (ne_fo net) ((nv_dm s)\<lparr>dm_in := bs\<rparr>) = Some (out, d)" "dm_in d = []"
  shows "sendall net bs s = s\<lparr>nv_dm := d, nv_rx := ne_cut net out\<rparr>"
proof -
  have "daemon_run (ne_fo net) ((nv_dm s)\<lparr>dm_in := bs\<rparr>) = (out, d)"
    using assms(2) daemon_idle [OF assms(3)] by (simp add: daemon_run.simps)
  then show ?thesis using assms(1) by (simp add: sendall_def in_sync_def)
qed

lemma daemon_dispatch:
  assumes "dm_open d" "op < 256" "fl < 256" "off < 2 ^ 64" "len < 2 ^ 32"
  shows "daemon_step fo (d\<lparr>dm_in := header_bytes op fl off len @ rest\<rparr>) =
    (let h = \<lparr>hd_magic = MAGIC, hd_first = op, hd_second = fl, hd_reserved = 0, hd_offset = off, hd_length = len\<rparr>;
         answer = header_bytes 0 op off 0; d' = d\<lparr>dm_in := header_bytes op fl off len @ rest\<rparr>
     in if op = OP_PING then Some (answer, d\<lparr>dm_in := rest\<rparr>)
        else if op = OP_WRITE then write_cmd h rest d'
        else if op = OP_READ then read_cmd h rest d'
        else if op = OP_BATCH_READ then batch_cmd h rest d'
        else if op = OP_COMPUTE_TOPK then topk_cmd fo h rest d'
        else if op = OP_FLUSH then Some (answer, d\<lparr>dm_in := rest\<rparr>)
        else if op = OP_SHUTDOWN then Some (answer, d\<lparr>dm_in := rest, dm_running := False, dm_open := False\<rparr>)
        else Some ([], d\<lparr>dm_in := rest\<rparr>))"
  using assms(1) parse_header_bytes [OF assms(2-5), of rest]
  by (simp add: daemon_step_def Let_def)

lemma nv_write_ok:
  assumes net: "net_ok net" and s: "in_sync s" and r: "0 \<le> off" "length bs \<le> BUFFER_SIZE"
    and fits: "nat off + length bs \<le> length (dm_dev (nv_dm s))"
  shows "\<exists>s'. nv_write net off bs s = (Inr (int (length bs)), s') \<and> in_sync s' \<and>
    dm_dev (nv_dm s') = pwrite (dm_dev (nv_dm s)) bs (nat off)"
proof -
  let ?d = "nv_dm s" and ?n = "length bs"
  have b: "?n < 2 ^ 32" using r(2) by (simp add: BUFFER_SIZE_def)
  have o: "nat off < 2 ^ 63" using s fits by (simp add: in_sync_def)
  let ?hdr = "header_bytes OP_WRITE 0 (nat off) ?n"
  have p: "pack_header OP_WRITE 0 off (int ?n) = Inr ?hdr" using o b r(1) by (subst pack_header_ok) auto
  let ?dev = "pwrite (dm_dev ?d) bs (nat off)"
  have dw: "dev_pwrite (dm_dev ?d) bs (nat off) = (Some ?n, ?dev)"
  proof (cases "bs = []")
    case True
    then show ?thesis using o fits by (simp add: dev_pwrite_def pwrite_def)
  next
    case False
    then have "0 < ?n" by simp
    then have "nat off < length (dm_dev ?d)" "?n \<le> length (dm_dev ?d) - nat off" using fits by linarith+
    then show ?thesis using False o by (simp add: dev_pwrite_def)
  qed
  let ?out = "header_bytes 0 OP_WRITE (nat off) ?n" and ?d' = "?d\<lparr>dm_in := [], dm_dev := ?dev\<rparr>"
  have "daemon_step (ne_fo net) (?d\<lparr>dm_in := ?hdr @ bs\<rparr>) = Some (?out, ?d')"
    using s o b r(2) dw by (subst daemon_dispatch) (simp_all add: in_sync_def op_codes write_cmd_def Let_def)
  then have send: "sendall net (?hdr @ bs) s = s\<lparr>nv_dm := ?d', nv_rx := ne_cut net ?out\<rparr>"
    using sendall_step [OF s] by simp
  let ?s1 = "s\<lparr>nv_dm := ?d', nv_rx := ne_cut net ?out\<rparr>"
  have "[] \<notin> set (nv_rx ?s1)" "concat (nv_rx ?s1) = ?out @ []" using net by (simp_all add: net_ok_def)
  from recv_header_ok [OF this] o b obtain segs where h: "recv_header ?s1 = (Inr \<lparr>hd_magic = MAGIC, hd_first = 0,
      hd_second = OP_WRITE, hd_reserved = 0, hd_offset = nat off, hd_length = ?n\<rparr>, ?s1\<lparr>nv_rx := segs\<rparr>)"
    "concat segs = []" "[] \<notin> set segs" by (auto simp: OP_WRITE_def)
  have "segs = []" using no_segments [OF h(2,3)] .
  moreover have "length ?dev = length (dm_dev ?d)" using length_pwrite fits by simp
  ultimately show ?thesis using s p send h(1)
    by (simp add: nv_write_def meth_run ensure_connected_def in_sync_def check_header_def)
qed

lemma nv_read_ok:
  assumes net: "net_ok net" and s: "in_sync s" and r: "0 \<le> off" "0 \<le> n" "nat n \<le> BUFFER_SIZE"
    and fits: "nat off + nat n \<le> length (dm_dev (nv_dm s))"
  shows "\<exists>s'. nv_read net off n s = (Inr (pread (dm_dev (nv_dm s)) (nat n) (nat off)), s') \<and> in_sync s' \<and>
    dm_dev (nv_dm s') = dm_dev (nv_dm s)"
proof -
  let ?d = "nv_dm s" and ?hdr = "header_bytes OP_READ 0 (nat off) (nat n)"
  let ?bs = "pread (dm_dev ?d) (nat n) (nat off)" and ?d' = "(nv_dm s)\<lparr>dm_in := []\<rparr>"
  have b: "nat n < 2 ^ 32" using r(3) by (simp add: BUFFER_SIZE_def)
  have o: "nat off < 2 ^ 63" using s fits by (simp add: in_sync_def)
  have len: "length ?bs = nat n" using fits by (simp add: length_pread)
  have p: "pack_header OP_READ 0 off n = Inr ?hdr" using o b r by (subst pack_header_ok) auto
  let ?out = "header_bytes 0 OP_READ (nat off) (nat n) @ ?bs"
  have "daemon_step (ne_fo net) (?d\<lparr>dm_in := ?hdr\<rparr>) = Some (?out, ?d')"
    using s o b r len
    by (subst daemon_dispatch [where rest = "[]", unfolded append_Nil2])
      (simp_all add: in_sync_def op_codes read_cmd_def Let_def dev_pread_def)
  then have send: "sendall net ?hdr s = s\<lparr>nv_dm := ?d', nv_rx := ne_cut net ?out\<rparr>"
    using sendall_step [OF s] by simp
  let ?s1 = "s\<lparr>nv_dm := ?d', nv_rx := ne_cut net ?out\<rparr>"
  have "[] \<notin> set (nv_rx ?s1)" "concat (nv_rx ?s1) = ?out" using net by (simp_all add: net_ok_def)
  from recv_header_ok [OF this] o b obtain segs where h: "recv_header ?s1 = (Inr \<lparr>hd_magic = MAGIC, hd_first = 0,
      hd_second = OP_READ, hd_reserved = 0, hd_offset = nat off, hd_length = nat n\<rparr>, ?s1\<lparr>nv_rx := segs\<rparr>)"
    "concat segs = ?bs" "[] \<notin> set segs" by (auto simp: OP_READ_def)
  obtain segs' where g: "recv_exact (nat n) [] (?s1\<lparr>nv_rx := segs\<rparr>) = (Inr ?bs, ?s1\<lparr>nv_rx := segs'\<rparr>)"
    "concat segs' = []" "[] \<notin> set segs'"
    using recv_all [of "?s1\<lparr>nv_rx := segs\<rparr>" ?bs "[]"] h(2,3) len by auto
  have "segs' = []" using no_segments [OF g(2,3)] .
  then show ?thesis using s p send h(1) g(1)
    by (simp add: nv_read_def meth_run ensure_connected_def in_sync_def check_header_def)
qed

section \<open>Batches\<close>

lemma field_at_app:
  "length a = off \<Longrightarrow> k \<le> length b \<Longrightarrow> field_at (a @ b) off k = le_nat (take k b)"
  by (simp add: field_at_def)

definition item_in_range :: "int \<times> int \<times> int \<Rightarrow> bool" where
  "item_in_range it = (case it of (off, n, bid) \<Rightarrow>
     0 \<le> off \<and> off < 2 ^ 64 \<and> 0 \<le> n \<and> n < 2 ^ 32 \<and> 0 \<le> bid \<and> bid < 2 ^ 32)"

definition nat_item :: "int \<times> int \<times> int \<Rightarrow> nat \<times> nat \<times> nat" where
  "nat_item it = (case it of (off, n, bid) \<Rightarrow> (nat off, nat n, nat bid))"

definition item_bytes :: "int \<times> int \<times> int \<Rightarrow> byte list" where
  "item_bytes it = (case it of (off, n, bid) \<Rightarrow> le_bytes 8 (nat off) @ le_bytes 4 (nat n) @ le_bytes 4 (nat bid))"

lemma length_item_bytes [simp]: "length (item_bytes it) = 16"
  by (simp add: item_bytes_def split: prod.split)

text \<open>What the client packs is what the daemon unpacks.\<close>

lemma pack_items_ok:
  "\<forall>it\<in>set reqs. item_in_range it \<Longrightarrow> pack_items reqs = Inr (concat (map item_bytes reqs))"
  by (induction reqs rule: pack_items.induct) (auto simp: item_in_range_def item_bytes_def pack_field_def)

lemma batch_items_bytes:
  "\<forall>it\<in>set reqs. item_in_range it \<Longrightarrow> batch_items (length reqs) (concat (map item_bytes reqs) @ rest) = map nat_item reqs"
proof (induction reqs)
  case (Cons it reqs)
  obtain off n bid where it: "it = (off, n, bid)" by (cases it) auto
  then have "nat off < 256 ^ 8" "nat n < 256 ^ 4" "nat bid < 256 ^ 4" using Cons.prems by (simp_all add: item_in_range_def nat_less_iff)
  then show ?case using Cons by (simp add: it item_bytes_def nat_item_def field_at_def del: le_bytes.simps)
qed simp

lemma length_items [simp]: "length (concat (map item_bytes reqs)) = 16 * length reqs"
  by (induction reqs) simp_all

definition answer_bytes :: "nat \<Rightarrow> byte list \<Rightarrow> int \<times> int \<times> int \<Rightarrow> byte list" where
  "answer_bytes st data it = (case it of (off, n, bid) \<Rightarrow> le_bytes 1 st @ le_bytes 4 (nat bid) @ le_bytes 4 (nat n) @ data)"

lemma item_answer_ok:
  assumes "item_in_range it" "it = (off, n, bid)" "nat off < 2 ^ 63" "nat off + nat n \<le> length dev"
  shows "item_answer dev (nat_item it) = answer_bytes 0 (pread dev (nat n) (nat off)) it"
  using assms by (simp add: item_answer_def nat_item_def answer_bytes_def dev_pread_def length_pread)

text \<open>The nine bytes in front of an item.\<close>

lemma item_header:
  assumes "[] \<notin> set (nv_rx s)" "concat (nv_rx s) = answer_bytes st data (off, n, bid) @ rest" "st < 256"
    and "item_in_range (off, n, bid)"
  shows "\<exists>hdr segs. recv_exact 9 [] s = (Inr hdr, s\<lparr>nv_rx := segs\<rparr>) \<and> concat segs = data @ rest \<and> [] \<notin> set segs \<and>
    field_at hdr 0 1 = st \<and> field_at hdr 1 4 = nat bid \<and> field_at hdr 5 4 = nat n"
proof -
  let ?h = "le_bytes 1 st @ le_bytes 4 (nat bid) @ le_bytes 4 (nat n)"
  have "concat (nv_rx s) = ?h @ (data @ rest)" using assms(2) by (simp add: answer_bytes_def del: le_bytes.simps)
  from recv_all [OF assms(1) this] obtain segs where "recv_exact 9 [] s = (Inr ?h, s\<lparr>nv_rx := segs\<rparr>)"
    "concat segs = data @ rest" "[] \<notin> set segs" by auto
  moreover have "st < 256 ^ 1" "nat bid < 256 ^ 4" "nat n < 256 ^ 4"
    using assms(3,4) by (simp_all add: item_in_range_def nat_less_iff)
  then have "field_at ?h 0 1 = st \<and> field_at ?h 1 4 = nat bid \<and> field_at ?h 5 4 = nat n"
    by (simp add: field_at_def del: le_bytes.simps)
  ultimately show ?thesis by blast
qed

lemma recv_item_ok:
  assumes "[] \<notin> set (nv_rx s)" "concat (nv_rx s) = answer_bytes 0 data (off, n, bid) @ rest"
    and "item_in_range (off, n, bid)" "length data = nat n"
  shows "\<exists>segs. recv_item i acc s = (Inr (dset bid data acc), s\<lparr>nv_rx := segs\<rparr>) \<and> concat segs = rest \<and> [] \<notin> set segs"
proof -
  obtain hdr segs where h: "recv_exact 9 [] s = (Inr hdr, s\<lparr>nv_rx := segs\<rparr>)" "concat segs = data @ rest"
    "[] \<notin> set segs" "field_at hdr 0 1 = 0" "field_at hdr 1 4 = nat bid" "field_at hdr 5 4 = nat n"
    using item_header [OF assms(1,2) _ assms(3)] by auto
  obtain segs' where g: "recv_exact (nat n) [] (s\<lparr>nv_rx := segs\<rparr>) = (Inr data, s\<lparr>nv_rx := segs'\<rparr>)"
    "concat segs' = rest" "[] \<notin> set segs'"
    using recv_all [of "s\<lparr>nv_rx := segs\<rparr>" data rest] h(2,3) assms(4) by auto
  have "0 \<le> bid" using assms(3) by (simp add: item_in_range_def)
  then show ?thesis using h g by (intro exI [of _ segs']) (simp add: recv_item_def meth_run)
qed

lemma recv_items_ok:
  assumes "[] \<notin> set (nv_rx s)"
    and "concat (nv_rx s) = concat (map (\<lambda>(off, n, bid). answer_bytes 0 (f off n) (off, n, bid)) reqs) @ rest"
    and "\<forall>(off, n, bid)\<in>set reqs. item_in_range (off, n, bid) \<and> length (f off n) = nat n" "length is = length reqs"
  shows "\<exists>segs. sfor recv_item is acc s =
      (Inr (fold (\<lambda>(off, n, bid). dset bid (f off n)) reqs acc), s\<lparr>nv_rx := segs\<rparr>) \<and> concat segs = rest \<and> [] \<notin> set segs"
  using assms
proof (induction reqs arbitrary: "is" acc s)
  case Nil
  then show ?case by (intro exI [of _ "nv_rx s"]) simp
next
  case (Cons it reqs)
  obtain off n bid where it: "it = (off, n, bid)" by (cases it) auto
  obtain i "is'" where is_eq: "is = i # is'" using Cons.prems(4) by (cases "is") auto
  let ?tail = "concat (map (\<lambda>(off, n, bid). answer_bytes 0 (f off n) (off, n, bid)) reqs) @ rest"
  have c: "concat (nv_rx s) = answer_bytes 0 (f off n) (off, n, bid) @ ?tail" using Cons.prems(2) it by simp
  have "item_in_range (off, n, bid)" "length (f off n) = nat n" using Cons.prems(3) it by auto
  from recv_item_ok [OF Cons.prems(1) c this] obtain segs where
    "recv_item i acc s = (Inr (dset bid (f off n) acc), s\<lparr>nv_rx := segs\<rparr>)" "concat segs = ?tail" "[] \<notin> set segs" by blast
  moreover from Cons.IH [of "s\<lparr>nv_rx := segs\<rparr>" "is'" "dset bid (f off n) acc"] this(2,3) Cons.prems(3,4)
  obtain segs' where "sfor recv_item is' (dset bid (f off n) acc) (s\<lparr>nv_rx := segs\<rparr>) =
      (Inr (fold (\<lambda>(off, n, bid). dset bid (f off n)) reqs (dset bid (f off n) acc)), s\<lparr>nv_rx := segs'\<rparr>)"
    "concat segs' = rest" "[] \<notin> set segs'" by (auto simp: is_eq)
  ultimately show ?case by (intro exI [of _ segs']) (simp add: is_eq it meth_run)
qed

lemma dget_fold_items:
  "dget (fold (\<lambda>(off, n, bid). dset bid (f off n)) reqs acc) b =
   (map_of acc ++ map_of (rev (map (\<lambda>(off, n, bid). (bid, f off n)) reqs))) b"
proof (induction reqs arbitrary: acc)
  case (Cons it reqs)
  obtain off n bid where it: "it = (off, n, bid)" by (cases it) auto
  show ?case unfolding it by (simp add: Cons.IH dict_simps map_add_def split: option.split)
qed simp

lemma nv_batch_ok:
  assumes net: "net_ok net" and s: "in_sync s" and n: "length reqs < 2 ^ 32"
    and fits: "\<forall>(off, n, bid)\<in>set reqs. 0 \<le> off \<and> 0 \<le> n \<and> nat n \<le> BUFFER_SIZE \<and>
      nat off + nat n \<le> length (dm_dev (nv_dm s)) \<and> 0 \<le> bid \<and> bid < 2 ^ 32"
  shows "\<exists>d s'. nv_read_batch net reqs s = (Inr d, s') \<and> in_sync s' \<and> dm_dev (nv_dm s') = dm_dev (nv_dm s) \<and>
    (\<forall>b. dget d b = map_of (rev (map (\<lambda>(off, n, bid). (bid, pread (dm_dev (nv_dm s)) (nat n) (nat off))) reqs)) b)"
proof (cases "reqs = []")
  case False
  let ?d = "nv_dm s" and ?N = "length reqs" and ?dev = "dm_dev (nv_dm s)"
  let ?f = "\<lambda>off n. pread ?dev (nat n) (nat off)"
  have rng: "item_in_range (off, n, bid)" "nat off < 2 ^ 63" "nat off + nat n \<le> length ?dev" "nat n \<le> BUFFER_SIZE"
    if "(off, n, bid) \<in> set reqs" for off n bid
    using that fits s by (auto simp: item_in_range_def BUFFER_SIZE_def in_sync_def)
  then have all: "\<forall>it\<in>set reqs. item_in_range it" by auto
  have "length (?f off n) = nat n" if "(off, n, bid) \<in> set reqs" for off n bid
    using rng(3) [OF that] by (simp add: length_pread)
  with rng(1) have len: "\<forall>(off, n, bid)\<in>set reqs. item_in_range (off, n, bid) \<and> length (?f off n) = nat n" by blast
  let ?hdr = "header_bytes OP_BATCH_READ 0 0 ?N" and ?items = "concat (map item_bytes reqs)"
  have p: "pack_header OP_BATCH_READ 0 0 (int ?N) = Inr ?hdr" using n by (subst pack_header_ok) auto
  have its: "batch_items ?N ?items = map nat_item reqs" using batch_items_bytes [OF all, of "[]"] by simp
  have ov: "\<not> item_overflows ?dev (nat_item it)" if "it \<in> set reqs" for it
  proof -
    obtain off n bid where it: "it = (off, n, bid)" by (metis prod_cases3)
    with that rng [of off n bid] show ?thesis
      by (simp add: item_overflows_def nat_item_def dev_pread_def length_pread)
  qed
  have ans: "concat (map (item_answer ?dev) (map nat_item reqs)) =
      concat (map (\<lambda>(off, n, bid). answer_bytes 0 (?f off n) (off, n, bid)) reqs)"
    using rng by (auto intro!: arg_cong [of _ _ concat] item_answer_ok)
  let ?body = "concat (map (\<lambda>(off, n, bid). answer_bytes 0 (?f off n) (off, n, bid)) reqs)"
  let ?out = "header_bytes 0 OP_BATCH_READ 0 ?N @ ?body" and ?d' = "?d\<lparr>dm_in := []\<rparr>"
  have "daemon_step (ne_fo net) (?d\<lparr>dm_in := ?hdr @ ?items\<rparr>) = Some (?out, ?d')"
    using s n ov its ans by (subst daemon_dispatch) (auto simp: in_sync_def op_codes batch_cmd_def Let_def)
  then have send: "sendall net (?hdr @ ?items) s = s\<lparr>nv_dm := ?d', nv_rx := ne_cut net ?out\<rparr>"
    using sendall_step [OF s] by simp
  let ?s1 = "s\<lparr>nv_dm := ?d', nv_rx := ne_cut net ?out\<rparr>"
  have "[] \<notin> set (nv_rx ?s1)" "concat (nv_rx ?s1) = ?out" using net by (simp_all add: net_ok_def)
  from recv_header_ok [OF this] n obtain segs where h: "recv_header ?s1 = (Inr \<lparr>hd_magic = MAGIC, hd_first = 0,
      hd_second = OP_BATCH_READ, hd_reserved = 0, hd_offset = 0, hd_length = ?N\<rparr>, ?s1\<lparr>nv_rx := segs\<rparr>)"
    "concat segs = ?body" "[] \<notin> set segs" by (auto simp: OP_BATCH_READ_def)
  obtain segs' where g: "sfor recv_item [0..<?N] [] (?s1\<lparr>nv_rx := segs\<rparr>) =
      (Inr (fold (\<lambda>(off, n, bid). dset bid (?f off n)) reqs []), ?s1\<lparr>nv_rx := segs'\<rparr>)" "concat segs' = []" "[] \<notin> set segs'"
    using recv_items_ok [of "?s1\<lparr>nv_rx := segs\<rparr>" ?f reqs "[]" "[0..<?N]" "[]"] h(2,3) len by auto
  have "segs' = []" using no_segments [OF g(2,3)] .
  then show ?thesis using s p send h(1) g(1) False dget_fold_items [of ?f reqs "[]"] pack_items_ok [OF all]
    by (simp add: nv_read_batch_def meth_run ensure_connected_def in_sync_def check_header_def)
qed (use s in \<open>simp add: nv_read_batch_def\<close>)

interpretation nvd: batch_device "nv_write net" "nv_read net" "\<lambda>s. dm_dev (nv_dm s)" "\<lambda>s. net_ok net \<and> in_sync s"
    BUFFER_SIZE "nv_read_batch net" for net
proof (unfold_locales, goal_cases)
  case (1 s off bs)
  then show ?case using nv_write_ok [of net s off bs] by blast
next
  case (2 s off n)
  then show ?case using nv_read_ok [of net s off n] by blast
next
  case (3 s reqs)
  then show ?case using nv_batch_ok [of net s reqs] by blast
qed

section \<open>Properties\<close>

text \<open>C4: Receiving terminates and does not depend on how the stream is cut. However the network splits the
  bytes into segments, \<open>_recv_exact(n)\<close> returns the first \<open>n\<close> bytes of the stream and leaves the
  rest, and when fewer are there it takes them all and raises: \<open>ConnectionResetError\<close> on a closed
  connection, the socket's timeout on an open one.\<close>

theorem recv_exact_any_segmentation:
  assumes "[] \<notin> set (nv_rx s)"
  shows "case recv_exact n [] s of (r, s') \<Rightarrow>
    (if n \<le> length (concat (nv_rx s)) then r = Inr (take n (concat (nv_rx s))) \<and> concat (nv_rx s') = drop n (concat (nv_rx s))
     else r = Inl (if dm_open (nv_dm s) then TimeoutError else ConnectionResetError) \<and> nv_rx s' = []) \<and>
    nv_dm s' = nv_dm s"
proof -
  have short: "\<exists>segs. recv_exact n data s = (Inl (if dm_open (nv_dm s) then TimeoutError else ConnectionResetError), s\<lparr>nv_rx := []\<rparr>)"
    if "[] \<notin> set (nv_rx s)" "length (concat (nv_rx s)) < n - length data" for n data s
    using that
  proof (induction n data s rule: recv_exact.induct)
    case (1 n data s)
    have more: "\<not> n \<le> length data" using 1(3) by auto
    show ?case
    proof (cases "nv_rx s")
      case Nil
      then have "s\<lparr>nv_rx := []\<rparr> = s" by simp
      with Nil more show ?thesis by (simp add: recv_exact.simps [of n data s] sock_recv_def)
    next
      case (Cons seg rest)
      let ?k = "n - length data"
      have seg: "seg \<noteq> []" "length seg < ?k" using 1(2,3) Cons by auto
      then have recv: "sock_recv ?k s = (Inr seg, s\<lparr>nv_rx := rest\<rparr>)" using Cons by (simp add: sock_recv_def)
      from 1(1) [OF more recv [symmetric] refl seg(1)] 1(2,3) Cons
      have "recv_exact n (data @ seg) (s\<lparr>nv_rx := rest\<rparr>) =
          (Inl (if dm_open (nv_dm s) then TimeoutError else ConnectionResetError), s\<lparr>nv_rx := []\<rparr>)" by auto
      then show ?thesis using more recv seg(1) by (simp add: recv_exact.simps [of n data s])
    qed
  qed
  show ?thesis
  proof (cases "n \<le> length (concat (nv_rx s))")
    case True
    then show ?thesis using recv_exact_stream [OF assms, of n "[]"] by auto
  next
    case False
    then show ?thesis using short [OF assms, of n "[]"] by auto
  qed
qed

definition sample_daemon :: daemon where
  "sample_daemon = \<lparr>dm_dev = replicate 64 0, dm_in = [], dm_open = True, dm_running = True, dm_overflow = False\<rparr>"

definition sample_client :: nvme where
  "sample_client = (new_client sample_daemon)\<lparr>nv_sock := True\<rparr>"

definition sample_net :: network where
  "sample_net = \<lparr>ne_cut = map (\<lambda>b. [b]), ne_fo = \<lparr>fo_gt = (\<lambda>a b. b < a), fo_score = (\<lambda>_ _ _ _ _ _ _ _. 0)\<rparr>\<rparr>"

lemma sample_net_ok: "net_ok sample_net"
proof -
  have "concat (map (\<lambda>b. [b]) bs) = (bs :: byte list)" for bs by (induction bs) simp_all
  then show ?thesis by (auto simp: net_ok_def sample_net_def)
qed

lemma sample_client_sync: "in_sync sample_client"
  by (simp add: in_sync_def sample_client_def new_client_def sample_daemon_def)

lemma recv_exact_any_segmentation_witness:
  "fst (recv_exact 3 [] (sample_client\<lparr>nv_rx := [[1], [2, 3, 4]]\<rparr>)) = Inr [1, 2, 3]"
  using recv_exact_any_segmentation [of "sample_client\<lparr>nv_rx := [[1], [2, 3, 4]]\<rparr>" 3]
  by (auto simp: numeral_eq_Suc)

text \<open>C2: Client and daemon are a byte device. Along any sequence of reads, writes and batched reads inside
  the device, none longer than the daemon's buffer, every call returns what the same sequence on an
  array of bytes returns and the device holds that array at the end, however the network cuts the
  answers.\<close>

theorem nvme_refines_device:
  assumes "net_ok net" "in_sync s" "\<forall>c\<in>set cs. dev_call_ok BUFFER_SIZE (length (dm_dev (nv_dm s))) c"
  shows "case dev_run (dev_do (nv_write net) (nv_read net) (nv_read_batch net)) cs s of (answers, s') \<Rightarrow>
    (answers, dm_dev (nv_dm s')) = dev_run dev_spec cs (dm_dev (nv_dm s)) \<and> in_sync s'"
  using nvd.run_spec [of net s cs] assms by auto

lemma nvme_refines_device_witness:
  "fst (dev_run (dev_do (nv_write sample_net) (nv_read sample_net) (nv_read_batch sample_net))
     [DWrite 8 [5, 6], DRead 9 1] sample_client) = [AWritten 2, ABytes [6]]"
proof -
  have "\<forall>c\<in>set [DWrite 8 [5, 6], DRead 9 1]. dev_call_ok BUFFER_SIZE (length (dm_dev (nv_dm sample_client))) c"
    by (simp add: BUFFER_SIZE_def sample_client_def new_client_def sample_daemon_def)
  moreover have "fst (dev_run dev_spec [DWrite 8 [5, 6], DRead 9 1] (dm_dev (nv_dm sample_client))) = [AWritten 2, ABytes [6]]"
    by (simp add: sample_client_def new_client_def sample_daemon_def pread_def pwrite_def)
  ultimately show ?thesis using nvme_refines_device [OF sample_net_ok sample_client_sync, of "[DWrite 8 [5, 6], DRead 9 1]"]
    by (auto split: prod.splits)
qed

text \<open>C18: An oversized write runs its payload. The daemon refuses a write of more than its megabyte buffer
  without reading the data that follows, and takes that data for the next commands: when it begins
  like a write command, that write is carried out, although the client reports the call as failed.\<close>

theorem oversized_write_runs_payload:
  assumes "net_ok net" "in_sync s" "0 \<le> off" "off < 2 ^ 64"
    and "data = header_bytes OP_WRITE 0 pos (length bs) @ bs @ tail"
    and "BUFFER_SIZE < length data" "length data < 2 ^ 32" "length bs \<le> BUFFER_SIZE"
    and "pos + length bs \<le> length (dm_dev (nv_dm s))"
    and "HEADER_SIZE \<le> length tail" "hd_magic (parse_header tail) \<noteq> MAGIC"
  shows "fst (nv_write net off data s) = Inl OSError \<and>
    dm_dev (nv_dm (snd (nv_write net off data s))) = pwrite (dm_dev (nv_dm s)) bs pos"
proof -
  let ?d = "nv_dm s" and ?n = "length data" and ?fo = "ne_fo net" and ?hdr = "header_bytes OP_WRITE 0 (nat off) (length data)"
  have up: "dm_open ?d" and dev: "length (dm_dev ?d) < 2 ^ 63" using assms(2) by (simp_all add: in_sync_def)
  have o: "nat off < 2 ^ 64" using assms(3,4) by (simp add: nat_less_iff)
  have p: "pack_header OP_WRITE 0 off (int ?n) = Inr ?hdr" using assms(3,4,7) by (subst pack_header_ok) auto
  have s1: "daemon_step ?fo (?d\<lparr>dm_in := ?hdr @ data\<rparr>) =
      Some (header_bytes 1 OP_WRITE (nat off) 0, ?d\<lparr>dm_in := data\<rparr>)"
    using up o assms(6,7) by (subst daemon_dispatch) (simp_all add: op_codes write_cmd_def Let_def)
  have dw: "dev_pwrite (dm_dev ?d) bs pos = (Some (length bs), pwrite (dm_dev ?d) bs pos)"
  proof (cases "bs = []")
    case True
    then show ?thesis using dev assms(9) by (simp add: dev_pwrite_def pwrite_def)
  next
    case False
    then have "0 < length bs" by simp
    then have "pos < length (dm_dev ?d)" "length bs \<le> length (dm_dev ?d) - pos" using assms(9) by linarith+
    then show ?thesis using False dev by (simp add: dev_pwrite_def)
  qed
  let ?d2 = "?d\<lparr>dm_in := tail, dm_dev := pwrite (dm_dev ?d) bs pos\<rparr>"
  have "pos < 2 ^ 64" "length bs < 2 ^ 32" using assms(8,9) dev by (simp_all add: BUFFER_SIZE_def)
  then have s2: "daemon_step ?fo (?d\<lparr>dm_in := data\<rparr>) = Some (header_bytes 0 OP_WRITE pos (length bs), ?d2)"
    unfolding assms(5) using up assms(8) dw
    by (subst daemon_dispatch) (simp_all add: op_codes write_cmd_def Let_def)
  have s3: "daemon_step ?fo ?d2 = Some ([], ?d2\<lparr>dm_in := [], dm_open := False\<rparr>)"
    using up assms(10,11) by (simp add: daemon_step_def Let_def)
  let ?out = "header_bytes 1 OP_WRITE (nat off) 0 @ header_bytes 0 OP_WRITE pos (length bs)"
  have "daemon_run ?fo (?d\<lparr>dm_in := ?hdr @ data\<rparr>) = (?out, ?d2\<lparr>dm_in := [], dm_open := False\<rparr>)"
    by (simp add: daemon_run.simps [of ?fo "?d\<lparr>dm_in := ?hdr @ data\<rparr>"] s1 daemon_run.simps [of ?fo "?d\<lparr>dm_in := data\<rparr>"] s2
        daemon_run.simps [of ?fo ?d2] s3 daemon_idle)
  then have send: "sendall net (?hdr @ data) s = s\<lparr>nv_dm := ?d2\<lparr>dm_in := [], dm_open := False\<rparr>, nv_rx := ne_cut net ?out\<rparr>"
    using assms(2) by (simp add: sendall_def in_sync_def)
  let ?s1 = "s\<lparr>nv_dm := ?d2\<lparr>dm_in := [], dm_open := False\<rparr>, nv_rx := ne_cut net ?out\<rparr>"
  have "[] \<notin> set (nv_rx ?s1)" "concat (nv_rx ?s1) = ?out" using assms(1) by (simp_all add: net_ok_def)
  from recv_header_ok [OF this] o obtain segs where "recv_header ?s1 = (Inr \<lparr>hd_magic = MAGIC, hd_first = 1,
      hd_second = OP_WRITE, hd_reserved = 0, hd_offset = nat off, hd_length = 0\<rparr>, ?s1\<lparr>nv_rx := segs\<rparr>)"
    by (auto simp: OP_WRITE_def)
  with send p assms(2) show ?thesis
    by (simp add: nv_write_def meth_run ensure_connected_def in_sync_def check_header_def)
qed

lemma le_nat_zeros: "le_nat (replicate n 0) = 0"
  by (induction n) simp_all

lemma oversized_write_runs_payload_witness:
  "dm_dev (nv_dm (snd (nv_write sample_net 0
     (header_bytes OP_WRITE 0 8 (length [7, 7 :: byte]) @ [7, 7] @ replicate 1048576 0) sample_client))) =
   pwrite (replicate 64 0) [7, 7] 8"
proof -
  have "hd_magic (parse_header (replicate 1048576 0)) \<noteq> MAGIC"
    by (simp add: parse_header_def field_at_def MAGIC_def le_nat_zeros)
  moreover have "dm_dev (nv_dm sample_client) = replicate 64 0"
    by (simp add: sample_client_def new_client_def sample_daemon_def)
  ultimately show ?thesis
    using oversized_write_runs_payload [OF sample_net_ok sample_client_sync, of 0 _ 8 "[7, 7]" "replicate 1048576 0"]
    by (simp add: BUFFER_SIZE_def HEADER_SIZE_def)
qed

lemma magic_of_Cons: "hd_magic (parse_header (b # bs)) = unat b + 256 * le_nat (take 3 bs)"
proof -
  have "take 4 (b # bs) = b # take 3 bs" by (simp add: take_Cons')
  then show ?thesis by (simp add: parse_header_def field_at_def)
qed

text \<open>A failed batch item costs the connection its place. When the first of two items cannot be read,
  the client raises at once and leaves the second answer in the stream; the next ping reads it
  instead of its own answer and reports a healthy daemon as dead.\<close>

theorem failed_batch_loses_sync:
  assumes "net_ok net" "in_sync s"
    and "item_in_range (off1, n1, bid1)" "0 < n1" "nat n1 \<le> BUFFER_SIZE" "length (dm_dev (nv_dm s)) < nat off1 + nat n1"
    and "item_in_range (off2, n2, bid2)" "11 \<le> n2" "nat n2 \<le> BUFFER_SIZE" "nat off2 + nat n2 \<le> length (dm_dev (nv_dm s))"
    and "nv_read_batch net [(off1, n1, bid1), (off2, n2, bid2)] s = (r, s')"
  shows "r = Inl OSError \<and> dm_open (nv_dm s') \<and> fst (nv_is_alive net s') = Inr False"
proof -
  let ?d = "nv_dm s" and ?dev = "dm_dev (nv_dm s)" and ?reqs = "[(off1, n1, bid1), (off2, n2, bid2)]"
  have up: "dm_open ?d" "dm_in ?d = []" "nv_sock s" "length ?dev < 2 ^ 63" using assms(2) by (simp_all add: in_sync_def)
  have all: "\<forall>it\<in>set ?reqs. item_in_range it" using assms(3,7) by simp
  let ?hdr = "header_bytes OP_BATCH_READ 0 0 2" and ?items = "concat (map item_bytes ?reqs)"
  have p: "pack_header OP_BATCH_READ 0 0 (int (length ?reqs)) = Inr ?hdr" by (subst pack_header_ok) auto
  have its: "batch_items 2 ?items = map nat_item ?reqs"
    using batch_items_bytes [OF all, of "[]"] by (simp add: numeral_2_eq_2)
  have short: "length (pread ?dev (nat n1) (nat off1)) < nat n1"
    using assms(4,6) by (simp add: length_pread)
  have long: "length (pread ?dev (nat n2) (nat off2)) = nat n2" using assms(10) by (simp add: length_pread)
  let ?a1 = "answer_bytes 1 [] (off1, n1, bid1)"
  let ?a2 = "answer_bytes 0 (pread ?dev (nat n2) (nat off2)) (off2, n2, bid2)"
  have a1: "item_answer ?dev (nat_item (off1, n1, bid1)) = ?a1"
    using short by (simp add: item_answer_def nat_item_def answer_bytes_def dev_pread_def)
  have a2: "item_answer ?dev (nat_item (off2, n2, bid2)) = ?a2"
    using assms(7,10) up(4) by (intro item_answer_ok) auto
  have ov: "\<not> item_overflows ?dev (nat_item (off1, n1, bid1))" "\<not> item_overflows ?dev (nat_item (off2, n2, bid2))"
    using short long assms(5,9) by (auto simp: item_overflows_def nat_item_def dev_pread_def)
  let ?out = "header_bytes 0 OP_BATCH_READ 0 2 @ ?a1 @ ?a2" and ?d' = "?d\<lparr>dm_in := []\<rparr>"
  have "daemon_step (ne_fo net) (?d\<lparr>dm_in := ?hdr @ ?items\<rparr>) = Some (?out, ?d')"
    using up its a1 a2 ov by (subst daemon_dispatch) (simp_all add: op_codes batch_cmd_def Let_def)
  then have send: "sendall net (?hdr @ ?items) s = s\<lparr>nv_dm := ?d', nv_rx := ne_cut net ?out\<rparr>"
    using sendall_step [OF assms(2)] by simp
  let ?s1 = "s\<lparr>nv_dm := ?d', nv_rx := ne_cut net ?out\<rparr>"
  have "[] \<notin> set (nv_rx ?s1)" "concat (nv_rx ?s1) = ?out" using assms(1) by (simp_all add: net_ok_def)
  from recv_header_ok [OF this] obtain segs where h: "recv_header ?s1 = (Inr \<lparr>hd_magic = MAGIC, hd_first = 0,
      hd_second = OP_BATCH_READ, hd_reserved = 0, hd_offset = 0, hd_length = 2\<rparr>, ?s1\<lparr>nv_rx := segs\<rparr>)"
    "concat segs = ?a1 @ ?a2" "[] \<notin> set segs" by (auto simp: OP_BATCH_READ_def)
  obtain hdr segs' where g: "recv_exact 9 [] (?s1\<lparr>nv_rx := segs\<rparr>) = (Inr hdr, ?s1\<lparr>nv_rx := segs'\<rparr>)"
    "concat segs' = ?a2" "[] \<notin> set segs'" "field_at hdr 0 1 = 1"
    using item_header [of "?s1\<lparr>nv_rx := segs\<rparr>" 1 "[]" off1 n1 bid1 ?a2] h(2,3) assms(3) by auto
  let ?s2 = "?s1\<lparr>nv_rx := segs'\<rparr>"
  have "[0..<2] = [0, 1 :: nat]" by (simp add: upt_rec)
  then have res: "r = Inl OSError" "s' = ?s2"
    using assms(11) up(3) p pack_items_ok [OF all] send h(1) g(1,4)
    by (simp_all add: nv_read_batch_def meth_run ensure_connected_def check_header_def recv_item_def)
  let ?ping = "header_bytes OP_PING 0 0 0" and ?pong = "header_bytes 0 OP_PING 0 0"
  have pp: "pack_header OP_PING 0 0 0 = Inr ?ping" by (subst pack_header_ok) auto
  have "daemon_step (ne_fo net) (?d'\<lparr>dm_in := ?ping\<rparr>) = Some (?pong, ?d')"
    using up(1) by (subst daemon_dispatch [where rest = "[]", unfolded append_Nil2]) (simp_all add: op_codes)
  then have ping: "sendall net ?ping ?s2 = ?s2\<lparr>nv_rx := segs' @ ne_cut net ?pong\<rparr>"
    using up(1) by (simp add: sendall_def daemon_run.simps [of _ "?d\<lparr>dm_in := ?ping\<rparr>"] daemon_idle)
  let ?s3 = "?s2\<lparr>nv_rx := segs' @ ne_cut net ?pong\<rparr>"
  have len: "20 \<le> length ?a2" using long assms(8) by (simp add: answer_bytes_def)
  have "[] \<notin> set (nv_rx ?s3)" "concat (nv_rx ?s3) = take 20 ?a2 @ (drop 20 ?a2 @ ?pong)"
    using assms(1) g(2,3) by (auto simp: net_ok_def)
  from recv_all [OF this] len obtain s4 where "recv_exact HEADER_SIZE [] ?s3 = (Inr (take 20 ?a2), s4)"
    by (auto simp: HEADER_SIZE_def)
  moreover have "hd_magic (parse_header (take 20 ?a2)) = 256 * le_nat (take 3 (le_bytes 4 (nat bid2) @ drop 5 ?a2))"
    using magic_of_Cons [of 0] by (simp add: answer_bytes_def)
  moreover have "256 * k \<noteq> MAGIC" for k
  proof
    assume "256 * k = MAGIC"
    then have "MAGIC mod 256 = 0" by (metis mod_mult_self1_is_0)
    then show False by (simp add: MAGIC_def)
  qed
  ultimately have "fst (nv_is_alive net ?s2) = Inr False"
    using up(3) pp ping by (simp add: nv_is_alive_def nv_ping_def ensure_connected_def meth_run recv_header_def)
  with res up(1) show ?thesis by simp
qed

lemma failed_batch_loses_sync_witness:
  "fst (nv_read_batch sample_net [(100, 4, 1), (0, 16, 2)] sample_client) = Inl OSError"
proof (rule failed_batch_loses_sync [OF sample_net_ok sample_client_sync, THEN conjunct1])
  show "nv_read_batch sample_net [(100, 4, 1), (0, 16, 2)] sample_client =
      (fst (nv_read_batch sample_net [(100, 4, 1), (0, 16, 2)] sample_client),
       snd (nv_read_batch sample_net [(100, 4, 1), (0, 16, 2)] sample_client))"
    by (rule prod.collapse [symmetric])
qed (simp_all add: item_in_range_def BUFFER_SIZE_def sample_client_def new_client_def sample_daemon_def)

end
