(* ===== verification/ByteStorage.thy ===== *)
theory ByteStorage
  imports KvStore TensorMapper
begin

text \<open>
  The storage backends of the third subsystem, \<open>person3_system/storage\<close>: the request and result
  descriptors and the batch loop of the abstract class (\<open>backend.py\<close>), the in-memory mock
  (\<open>mock_backend.py\<close>), the file backend (\<open>file_backend.py\<close>) and the analytical FTL backend over the
  tensor mapper (\<open>analytical_backend.py\<close>). A subclass is an extension of the base record. The thread
  pool and error texts are left out; an elapsed time is an argument.
\<close>

section \<open>Requests, results and the base class\<close>

text \<open>The keys of \<open>metadata\<close> and \<open>kwargs\<close> that a backend looks at.\<close>

record req_meta =
  rm_token_start :: "int option"
  rm_byte_size :: "int option"
  rm_byte_length :: "int option"
  rm_operation :: "string option"
  rm_sub_page :: "string option"

definition no_meta :: req_meta where
  "no_meta = \<lparr>rm_token_start = None, rm_byte_size = None, rm_byte_length = None, rm_operation = None, rm_sub_page = None\<rparr>"

record storage_request =
  sr_block :: int
  sr_offset :: int
  sr_length :: int
  sr_write :: bool
  sr_payload :: "byte list option"
  sr_layer :: int
  sr_head :: int
  sr_meta :: req_meta

record storage_result =
  sx_block :: int
  sx_length :: int
  sx_latency :: real
  sx_success :: bool
  sx_data :: "byte list option"
  sx_write :: bool
  sx_place :: "phys option"

record storage =
  bk_reads :: int
  bk_writes :: int
  bk_bytes_read :: int
  bk_bytes_written :: int
  bk_latency :: real

definition dflt :: "'a \<Rightarrow> 'a option \<Rightarrow> 'a" where
  "dflt x m = (case m of None \<Rightarrow> x | Some y \<Rightarrow> y)"

text \<open>What a subclass supplies: block, offset, length or data, layer, head, the rest.\<close>

record 's byte_ops =
  bo_read :: "int \<Rightarrow> int \<Rightarrow> int \<Rightarrow> int \<Rightarrow> int \<Rightarrow> req_meta \<Rightarrow> ('s, storage_result) meth"
  bo_write :: "int \<Rightarrow> int \<Rightarrow> byte list \<Rightarrow> int \<Rightarrow> int \<Rightarrow> req_meta \<Rightarrow> ('s, storage_result) meth"

definition submit_one :: "'s byte_ops \<Rightarrow> storage_request \<Rightarrow> ('s, storage_result) meth" where
  "submit_one ops r =
     (if sr_write r then bo_write ops (sr_block r) (sr_offset r) (dflt [] (sr_payload r)) (sr_layer r) (sr_head r) (sr_meta r)
      else bo_read ops (sr_block r) (sr_offset r) (sr_length r) (sr_layer r) (sr_head r) (sr_meta r))"

definition submit_batch :: "'s byte_ops \<Rightarrow> storage_request list \<Rightarrow> ('s, storage_result list) meth" where
  "submit_batch ops reqs = sfor (\<lambda>r acc. sbind (submit_one ops r) (\<lambda>x. sret (acc @ [x]))) reqs []"

definition submit :: "'s byte_ops \<Rightarrow> storage_request \<Rightarrow> ('s, storage_result) meth" where
  "submit ops r =
     sbind (submit_batch ops [r]) (\<lambda>rs. case rs of [] \<Rightarrow> sraise IndexError | x # _ \<Rightarrow> sret x)"

record storage_telemetry =
  tl_reads :: int
  tl_writes :: int
  tl_bytes_read :: int
  tl_bytes_written :: int
  tl_latency :: real
  tl_avg_latency :: real

definition bk_get_telemetry :: "'a storage_scheme \<Rightarrow> storage_telemetry" where
  "bk_get_telemetry s =
     (let n = bk_reads s + bk_writes s
      in \<lparr>tl_reads = bk_reads s, tl_writes = bk_writes s, tl_bytes_read = bk_bytes_read s,
          tl_bytes_written = bk_bytes_written s, tl_latency = bk_latency s,
          tl_avg_latency = (if 0 < n then bk_latency s / of_int n else 0)\<rparr>)"

definition bk_get_stats :: "'a storage_scheme \<Rightarrow> storage_telemetry \<times> int \<times> int" where
  "bk_get_stats s = (let t = bk_get_telemetry s
     in (t, tl_reads t + tl_writes t, tl_bytes_read t + tl_bytes_written t))"

definition bk_reset_stats :: "'a storage_scheme \<Rightarrow> 'a storage_scheme" where
  "bk_reset_stats s = s\<lparr>bk_reads := 0, bk_writes := 0, bk_bytes_read := 0, bk_bytes_written := 0, bk_latency := 0\<rparr>"

definition count_read :: "int \<Rightarrow> real \<Rightarrow> 'a storage_scheme \<Rightarrow> 'a storage_scheme" where
  "count_read n lat s = s\<lparr>bk_reads := bk_reads s + 1, bk_bytes_read := bk_bytes_read s + n, bk_latency := bk_latency s + lat\<rparr>"

definition count_write :: "int \<Rightarrow> real \<Rightarrow> 'a storage_scheme \<Rightarrow> 'a storage_scheme" where
  "count_write n lat s =
     s\<lparr>bk_writes := bk_writes s + 1, bk_bytes_written := bk_bytes_written s + n, bk_latency := bk_latency s + lat\<rparr>"

section \<open>The mock backend\<close>

record mock = storage +
  mb_read_latency :: real
  mb_write_latency :: real
  mb_fail :: "int option"
  mb_store :: "(int, byte list) dict"

definition new_mock :: "real \<Rightarrow> real \<Rightarrow> int option \<Rightarrow> mock" where
  "new_mock rl wl f = \<lparr>bk_reads = 0, bk_writes = 0, bk_bytes_read = 0, bk_bytes_written = 0, bk_latency = 0,
     mb_read_latency = rl, mb_write_latency = wl, mb_fail = f, mb_store = []\<rparr>"

text \<open>Python slices: a negative bound counts from the end, and bounds are clipped.\<close>

definition slice_bound :: "nat \<Rightarrow> int \<Rightarrow> nat" where
  "slice_bound n i = (if i < 0 then nat (max 0 (int n + i)) else min n (nat i))"

definition py_slice :: "int \<Rightarrow> int \<Rightarrow> 'a list \<Rightarrow> 'a list" where
  "py_slice a b xs = (let i = slice_bound (length xs) a; j = slice_bound (length xs) b in take (j - i) (drop i xs))"

definition slice_assign :: "int \<Rightarrow> int \<Rightarrow> 'a list \<Rightarrow> 'a list \<Rightarrow> 'a list" where
  "slice_assign a b ys xs =
     (let i = slice_bound (length xs) a; j = max i (slice_bound (length xs) b) in take i xs @ ys @ drop j xs)"

definition mock_result :: "int \<Rightarrow> int \<Rightarrow> real \<Rightarrow> bool \<Rightarrow> byte list option \<Rightarrow> bool \<Rightarrow> storage_result" where
  "mock_result bid n lat ok d w = \<lparr>sx_block = bid, sx_length = n, sx_latency = lat, sx_success = ok, sx_data = d,
     sx_write = w, sx_place = None\<rparr>"

definition mock_read :: "int \<Rightarrow> int \<Rightarrow> int \<Rightarrow> int \<Rightarrow> int \<Rightarrow> req_meta \<Rightarrow> (mock, storage_result) meth" where
  "mock_read bid off len layer head m s =
     (if mb_fail s = Some bid then (Inr (mock_result bid 0 (mb_read_latency s) False None False), s)
      else (let s1 = count_read len (mb_read_latency s) s
            in case dget (mb_store s) bid of
                 Some buf \<Rightarrow> (Inr (mock_result bid len (mb_read_latency s) True (Some (py_slice off (off + len) buf)) False), s1)
               | None \<Rightarrow> (if len < 0 then (Inl ValueError, s1)
                         else (Inr (mock_result bid len (mb_read_latency s) True (Some (replicate (nat len) 0)) False), s1))))"

definition mock_write :: "int \<Rightarrow> int \<Rightarrow> byte list \<Rightarrow> int \<Rightarrow> int \<Rightarrow> req_meta \<Rightarrow> (mock, storage_result) meth" where
  "mock_write bid off d layer head m s =
     (if mb_fail s = Some bid then (Inr (mock_result bid 0 (mb_write_latency s) False None True), s)
      else (let n = int (length d);
                s1 = count_write n (mb_write_latency s) s;
                buf = (case dget (mb_store s) bid of Some b \<Rightarrow> b | None \<Rightarrow> replicate (nat (max 4096 (off + n))) 0);
                target = buf @ replicate (nat (off + n) - length buf) 0
            in (Inr (mock_result bid n (mb_write_latency s) True None True),
                s1\<lparr>mb_store := dset bid (slice_assign off (off + n) d target) (mb_store s)\<rparr>)))"

definition mock_ops :: "mock byte_ops" where
  "mock_ops = \<lparr>bo_read = mock_read, bo_write = mock_write\<rparr>"

section \<open>The file backend\<close>

record file_store = storage +
  fl_open :: bool
  fl_block_size :: int
  fl_file :: "byte list"

definition new_file_store :: "int \<Rightarrow> byte list \<Rightarrow> file_store" where
  "new_file_store bs f = \<lparr>bk_reads = 0, bk_writes = 0, bk_bytes_read = 0, bk_bytes_written = 0, bk_latency = 0,
     fl_open = True, fl_block_size = bs, fl_file = f\<rparr>"

definition block_pos :: "file_store \<Rightarrow> int \<Rightarrow> int \<Rightarrow> int" where
  "block_pos s bid off = bid * fl_block_size s + off"

text \<open>\<open>os.pread\<close> and \<open>os.pwrite\<close> raise for a closed file and for negative arguments; the methods
  catch that and report failure.\<close>

definition file_read :: "real \<Rightarrow> int \<Rightarrow> int \<Rightarrow> int \<Rightarrow> int \<Rightarrow> int \<Rightarrow> req_meta \<Rightarrow> (file_store, storage_result) meth" where
  "file_read dt bid off len layer head m s =
     (if \<not> fl_open s \<or> len < 0 \<or> block_pos s bid off < 0 then (Inr (mock_result bid 0 dt False None False), s)
      else (let d = pread (fl_file s) (nat len) (nat (block_pos s bid off)); n = int (length d)
            in (Inr (mock_result bid n dt True (Some d) False), count_read n dt s)))"

definition file_write :: "real \<Rightarrow> int \<Rightarrow> int \<Rightarrow> byte list \<Rightarrow> int \<Rightarrow> int \<Rightarrow> req_meta \<Rightarrow> (file_store, storage_result) meth" where
  "file_write dt bid off d layer head m s =
     (if \<not> fl_open s \<or> block_pos s bid off < 0 then (Inr (mock_result bid 0 dt False None True), s)
      else (let n = int (length d); f = (if d = [] then fl_file s else pwrite (fl_file s) d (nat (block_pos s bid off)))
            in (Inr (mock_result bid n dt True None True), (count_write n dt s)\<lparr>fl_file := f\<rparr>)))"

definition file_close :: "file_store \<Rightarrow> file_store" where
  "file_close s = s\<lparr>fl_open := False\<rparr>"

definition file_ops :: "real \<Rightarrow> file_store byte_ops" where
  "file_ops dt = \<lparr>bo_read = file_read dt, bo_write = file_write dt\<rparr>"
section \<open>The analytical FTL backend\<close>

record analytical = storage +
  an_mode :: string
  an_channels :: int
  an_mapper :: tensor_mapper
  an_access :: "(int, int) dict"
  an_channel_bytes :: "(int, int) dict"
  an_ops :: "(string, int) dict"
  an_k_bytes :: int
  an_v_bytes :: int
  an_combined :: int

definition new_analytical :: "string \<Rightarrow> int \<Rightarrow> int \<Rightarrow> int \<Rightarrow> int \<Rightarrow> analytical" where
  "new_analytical mode c d p b = \<lparr>bk_reads = 0, bk_writes = 0, bk_bytes_read = 0, bk_bytes_written = 0, bk_latency = 0,
     an_mode = mode, an_channels = c, an_mapper = new_mapper c d p b SSD_PAGES_PER_BLOCK 4096 32768 24 2,
     an_access = [], an_channel_bytes = [], an_ops = [], an_k_bytes = 0, an_v_bytes = 0, an_combined = 0\<rparr>"

definition resolve_physical_coord :: "int \<Rightarrow> int \<Rightarrow> int \<Rightarrow> int \<Rightarrow> analytical \<Rightarrow> phys res" where
  "resolve_physical_coord bid layer head tok s =
     tensor_to_nand_physical (an_mapper s) \<lparr>co_layer_id = layer, co_head_id = head, token_idx = tok,
       tokens_per_block = 16, co_block_id = Some bid, co_blocks_per_head = 44\<rparr> (an_mode s) None"

definition account_subpage_bytes :: "int \<Rightarrow> string \<Rightarrow> analytical \<Rightarrow> analytical" where
  "account_subpage_bytes len sub s =
     (if sub = ''KEY'' then s\<lparr>an_k_bytes := an_k_bytes s + len\<rparr>
      else if sub = ''VALUE'' then s\<lparr>an_v_bytes := an_v_bytes s + len\<rparr>
      else if sub = ''BOTH'' \<or> len = LOGICAL_BLOCK_BYTES
           then s\<lparr>an_combined := an_combined s + len, an_k_bytes := an_k_bytes s + len div 2,
                  an_v_bytes := an_v_bytes s + len div 2\<rparr>
      else s\<lparr>an_k_bytes := an_k_bytes s + len\<rparr>)"

text \<open>The counters of one access: \<open>Counter\<close> starts a missing key at zero.\<close>

definition track_access :: "int \<Rightarrow> int \<Rightarrow> string \<Rightarrow> string \<Rightarrow> analytical \<Rightarrow> analytical" where
  "track_access ch len op sub s =
     account_subpage_bytes len sub
       (s\<lparr>an_access := dinc ch 1 (an_access s), an_channel_bytes := dinc ch len (an_channel_bytes s),
          an_ops := dinc op 1 (an_ops s)\<rparr>)"

definition default_sub :: "int \<Rightarrow> req_meta \<Rightarrow> string" where
  "default_sub len m = dflt (if len = LOGICAL_BLOCK_BYTES then ''BOTH'' else ''KEY'') (rm_sub_page m)"

definition an_result :: "int \<Rightarrow> int \<Rightarrow> real \<Rightarrow> bool \<Rightarrow> phys \<Rightarrow> storage_result" where
  "an_result bid n lat w p = \<lparr>sx_block = bid, sx_length = n, sx_latency = lat, sx_success = True, sx_data = None,
     sx_write = w, sx_place = Some p\<rparr>"

definition an_read :: "int \<Rightarrow> int \<Rightarrow> int \<Rightarrow> int \<Rightarrow> int \<Rightarrow> req_meta \<Rightarrow> (analytical, storage_result) meth" where
  "an_read bid off len layer head m s =
     (let n = (if 0 < len then len else dflt (dflt KEY_PAGE_BYTES (rm_byte_length m)) (rm_byte_size m))
      in case resolve_physical_coord bid layer head (dflt 0 (rm_token_start m)) s of
           Inl e \<Rightarrow> (Inl e, s)
         | Inr p \<Rightarrow>
             (let lat = 25 + of_int (max 1 (n div 4096)) * 3.4
              in (Inr (an_result bid n lat False p),
                  track_access (fst p) n (dflt ''DECODE_READ'' (rm_operation m)) (default_sub n m) (count_read n lat s))))"

definition an_write :: "int \<Rightarrow> int \<Rightarrow> byte list \<Rightarrow> int \<Rightarrow> int \<Rightarrow> int \<Rightarrow> req_meta \<Rightarrow> (analytical, storage_result) meth" where
  "an_write bid off d layer head len m s =
     (let n = (if d \<noteq> [] then int (length d) else if 0 < len then len
               else dflt (dflt LOGICAL_BLOCK_BYTES (rm_byte_length m)) (rm_byte_size m))
      in case resolve_physical_coord bid layer head (dflt 0 (rm_token_start m)) s of
           Inl e \<Rightarrow> (Inl e, s)
         | Inr p \<Rightarrow>
             (let lat = 200 + of_int (n div 4096) * 3.4
              in (Inr (an_result bid n lat True p),
                  track_access (fst p) n (dflt ''PREFILL_WRITE'' (rm_operation m)) (default_sub n m) (count_write n lat s))))"

text \<open>The busy times of the channels are added up per batch and then dropped.\<close>

definition an_submit_one ::
    "storage_request \<Rightarrow> (int, real) dict \<times> storage_result list \<Rightarrow> (analytical, (int, real) dict \<times> storage_result list) meth" where
  "an_submit_one r acc = (case acc of (busy, out) \<Rightarrow>
     sbind (\<lambda>s. (resolve_physical_coord (sr_block r) (sr_layer r) (sr_head r) (dflt 0 (rm_token_start (sr_meta r))) s, s)) (\<lambda>p.
     let n = (if 0 < sr_length r then sr_length r else dflt 4096 (rm_byte_size (sr_meta r)));
         w = (sr_write r \<or> rm_operation (sr_meta r) = Some ''PREFILL_WRITE'')
     in sbind (if w then an_write (sr_block r) (sr_offset r) (dflt [] (sr_payload r)) (sr_layer r) (sr_head r) n (sr_meta r)
               else an_read (sr_block r) (sr_offset r) n (sr_layer r) (sr_head r) (sr_meta r)) (\<lambda>x.
        case dget busy (fst p) of
          None \<Rightarrow> sraise KeyError
        | Some t \<Rightarrow> sret (dset (fst p) (t + sx_latency x) busy, out @ [x]))))"

definition an_submit_batch :: "storage_request list \<Rightarrow> (analytical, storage_result list) meth" where
  "an_submit_batch reqs =
     sbind (sread (\<lambda>s. map (\<lambda>c. (c, 0)) [0..an_channels s - 1])) (\<lambda>busy.
     sbind (sfor an_submit_one reqs (busy, [])) (\<lambda>acc. sret (snd acc)))"

definition an_reset_stats :: "analytical \<Rightarrow> analytical" where
  "an_reset_stats s = (bk_reset_stats s)\<lparr>an_access := [], an_channel_bytes := [], an_ops := [], an_k_bytes := 0,
     an_v_bytes := 0, an_combined := 0\<rparr>"

end
