(* ===== verification/Prefetchers.thy ===== *)
theory Prefetchers
  imports ByteStorage Predictor
begin

text \<open>
  The two simulated prefetchers: \<open>V2Prefetcher\<close> (\<open>person3_system/prefetch/v2_prefetcher.py\<close>), which
  issues every prefetch as a request to a storage backend, and \<open>SpeculativePrefetcher\<close>
  (\<open>prefetcher.py\<close>), a staging buffer without one. Both keep their buffer in least recently used
  order, an association list whose head is the oldest entry.
\<close>

section \<open>V2Prefetcher\<close>

record staged_block =
  sb_size :: int
  sb_staged_at :: real
  sb_ready_at :: real
  sb_useful :: bool
  sb_accessed_at :: "real option"

record 's v2 =
  v2_backend :: 's
  v2_capacity :: int
  v2_block_bytes :: int
  v2_compute :: real
  v2_buffer :: "(int \<times> int, staged_block) dict"
  v2_requests :: int
  v2_useful :: int
  v2_useless :: int
  v2_late :: int
  v2_hits :: int
  v2_misses :: int
  v2_extra_bytes :: int
  v2_stalls :: int
  v2_stall_time :: real
  v2_peak :: int

definition new_v2 :: "'s \<Rightarrow> int \<Rightarrow> int \<Rightarrow> real \<Rightarrow> 's v2" where
  "new_v2 s cap bytes cpt = \<lparr>v2_backend = s, v2_capacity = cap, v2_block_bytes = bytes, v2_compute = cpt,
     v2_buffer = [], v2_requests = 0, v2_useful = 0, v2_useless = 0, v2_late = 0, v2_hits = 0, v2_misses = 0,
     v2_extra_bytes = 0, v2_stalls = 0, v2_stall_time = 0, v2_peak = 0\<rparr>"

definition v2_memory :: "'s v2 \<Rightarrow> int" where
  "v2_memory p = int (length (v2_buffer p)) * v2_block_bytes p"

definition v2_read_request :: "int \<Rightarrow> int \<Rightarrow> int \<Rightarrow> storage_request" where
  "v2_read_request layer bytes bid = \<lparr>sr_block = bid, sr_offset = 0, sr_length = bytes, sr_write = False, sr_payload = None,
     sr_layer = layer, sr_head = 0, sr_meta = no_meta\<rparr>"

definition on_backend :: "('s, 'r) meth \<Rightarrow> ('s v2, 'r) meth" where
  "on_backend m p = (case m (v2_backend p) of (r, s) \<Rightarrow> (r, p\<lparr>v2_backend := s\<rparr>))"

text \<open>\<open>popitem(last=False)\<close> on a full buffer; on an empty one it raises \<open>KeyError\<close>.\<close>

definition v2_make_room :: "('s v2, unit) meth" where
  "v2_make_room p =
     (if v2_capacity p \<le> int (length (v2_buffer p))
      then (case v2_buffer p of
              [] \<Rightarrow> (Inl KeyError, p)
            | (k, e) # d \<Rightarrow>
                (Inr (), if sb_useful e then p\<lparr>v2_buffer := d\<rparr>
                         else p\<lparr>v2_buffer := d, v2_useless := v2_useless p + 1,
                                v2_extra_bytes := v2_extra_bytes p + sb_size e\<rparr>))
      else (Inr (), p))"

definition v2_select :: "int \<Rightarrow> int \<Rightarrow> int list \<Rightarrow> ('s v2, int list) meth" where
  "v2_select layer bid acc =
     sbind (sread (\<lambda>p. dmem (layer, bid) (v2_buffer p))) (\<lambda>staged.
     if staged then sret acc else sthen v2_make_room (sret (acc @ [bid])))"

definition v2_stage :: "int \<Rightarrow> real \<Rightarrow> storage_result \<Rightarrow> 's v2 \<Rightarrow> 's v2" where
  "v2_stage layer now x p = p\<lparr>v2_requests := v2_requests p + 1,
     v2_buffer := dset (layer, sx_block x) \<lparr>sb_size = sx_length x, sb_staged_at = now, sb_ready_at = now + sx_latency x,
       sb_useful = False, sb_accessed_at = None\<rparr> (v2_buffer p)\<rparr>"

definition v2_prefetch_blocks ::
    "(storage_request list \<Rightarrow> ('s, storage_result list) meth) \<Rightarrow> int list \<Rightarrow> int \<Rightarrow> real \<Rightarrow> ('s v2, int list) meth" where
  "v2_prefetch_blocks sub ids layer now =
     sbind (sfor (v2_select layer) ids []) (\<lambda>sel.
     if sel = [] then sret []
     else sbind (sread v2_block_bytes) (\<lambda>bytes.
          sbind (on_backend (sub (map (v2_read_request layer bytes) sel))) (\<lambda>results.
          sthen (supd (\<lambda>p. fold (v2_stage layer now) results p))
         (sthen (supd (\<lambda>p. p\<lparr>v2_peak := max (v2_peak p) (v2_memory p)\<rparr>))
         (sret sel)))))"

text \<open>One demanded block: hits, misses and the longest wait for a late prefetch so far.\<close>

definition v2_access_one ::
    "int \<Rightarrow> real \<Rightarrow> int \<Rightarrow> int list \<times> int list \<times> real \<Rightarrow> ('s v2, int list \<times> int list \<times> real) meth" where
  "v2_access_one layer now bid acc p = (case acc of (hits, misses, stall) \<Rightarrow>
     (case dget (v2_buffer p) (layer, bid) of
        None \<Rightarrow> (Inr (hits, misses @ [bid], stall), p\<lparr>v2_misses := v2_misses p + 1\<rparr>)
      | Some e \<Rightarrow>
          (let late = (now < sb_ready_at e)
           in (Inr (hits @ [bid], misses, if late then max stall (sb_ready_at e - now) else stall),
               p\<lparr>v2_buffer := move_to_end (layer, bid)
                   (dset (layer, bid) (e\<lparr>sb_useful := True, sb_accessed_at := Some now\<rparr>) (v2_buffer p)),
                 v2_useful := v2_useful p + (if sb_useful e then 0 else 1),
                 v2_hits := v2_hits p + 1,
                 v2_late := v2_late p + (if late then 1 else 0)\<rparr>))))"

definition v2_access_blocks ::
    "(storage_request list \<Rightarrow> ('s, storage_result list) meth) \<Rightarrow> int list \<Rightarrow> int \<Rightarrow> real \<Rightarrow>
     ('s v2, int list \<times> int list \<times> real) meth" where
  "v2_access_blocks sub ids layer now =
     sbind (sfor (v2_access_one layer now) ids ([], [], 0)) (\<lambda>(hits, misses, stall).
     sbind (sread v2_block_bytes) (\<lambda>bytes.
     sbind (if misses = [] then sret 0
            else sbind (on_backend (sub (map (v2_read_request layer bytes) misses))) (\<lambda>results.
                 sret (sum_list (map sx_latency results)))) (\<lambda>miss_time.
     sbind (sread (\<lambda>p. max 0 (stall + miss_time - v2_compute p))) (\<lambda>net.
     sthen (supd (\<lambda>p. if 0 < net then p\<lparr>v2_stalls := v2_stalls p + 1, v2_stall_time := v2_stall_time p + net\<rparr> else p))
     (sret (hits, misses, net))))))"

record v2_telemetry =
  vt_requests :: int
  vt_useful :: int
  vt_useless :: int
  vt_late :: int
  vt_hits :: int
  vt_misses :: int
  vt_hit_rate :: real
  vt_accuracy :: real
  vt_extra_bytes :: int
  vt_stalls :: int
  vt_stall_time :: real
  vt_peak :: int

definition v2_unread :: "'s v2 \<Rightarrow> int" where
  "v2_unread p = int (length (filter (\<lambda>e. \<not> sb_useful e) (dvalues (v2_buffer p))))"

definition v2_get_telemetry :: "'s v2 \<Rightarrow> v2_telemetry" where
  "v2_get_telemetry p =
     \<lparr>vt_requests = v2_requests p, vt_useful = v2_useful p, vt_useless = v2_useless p + v2_unread p, vt_late = v2_late p,
      vt_hits = v2_hits p, vt_misses = v2_misses p,
      vt_hit_rate = round_to 4 (ratio (v2_hits p) (v2_hits p + v2_misses p)),
      vt_accuracy = round_to 4 (ratio (v2_useful p) (v2_requests p)),
      vt_extra_bytes = v2_extra_bytes p + v2_unread p * v2_block_bytes p,
      vt_stalls = v2_stalls p, vt_stall_time = round_to 2 (v2_stall_time p), vt_peak = v2_peak p\<rparr>"

definition v2_clear :: "'s v2 \<Rightarrow> 's v2" where
  "v2_clear p = p\<lparr>v2_buffer := [], v2_requests := 0, v2_useful := 0, v2_useless := 0, v2_late := 0, v2_hits := 0,
     v2_misses := 0, v2_extra_bytes := 0, v2_stalls := 0, v2_stall_time := 0, v2_peak := 0\<rparr>"

section \<open>SpeculativePrefetcher\<close>

record spec_prefetcher =
  sp_capacity :: int
  sp_block_bytes :: int
  sp_compute :: real
  sp_buffer :: "(int \<times> int, bool) dict"
  sp_legacy :: "int list"
  sp_predictor :: layer_predictor
  sp_hits :: int
  sp_misses :: int
  sp_blocks_hit :: int
  sp_blocks_requested :: int
  sp_stalls :: int
  sp_stall_time :: real
  sp_prefetched_bytes :: int

definition new_spec :: "int \<Rightarrow> int \<Rightarrow> real \<Rightarrow> spec_prefetcher" where
  "new_spec cap bytes cpt = \<lparr>sp_capacity = cap, sp_block_bytes = bytes, sp_compute = cpt, sp_buffer = [], sp_legacy = [],
     sp_predictor = new_predictor 32, sp_hits = 0, sp_misses = 0, sp_blocks_hit = 0, sp_blocks_requested = 0, sp_stalls = 0,
     sp_stall_time = 0, sp_prefetched_bytes = 0\<rparr>"

definition sp_used_blocks :: "spec_prefetcher \<Rightarrow> int" where
  "sp_used_blocks p = int (if sp_buffer p = [] then length (sp_legacy p) else length (sp_buffer p))"

definition sp_used_bytes :: "spec_prefetcher \<Rightarrow> int" where
  "sp_used_bytes p = sp_used_blocks p * sp_block_bytes p"

text \<open>The set without layers (kept here as a duplicate-free list) is only ever added to.\<close>

definition sp_stage_one :: "int \<Rightarrow> int \<Rightarrow> unit \<Rightarrow> (spec_prefetcher, unit) meth" where
  "sp_stage_one layer bid u p =
     (let key = (layer, bid); d = sp_buffer p; full = (sp_capacity p \<le> int (length d));
          legacy = (if int (length (sp_legacy p)) < sp_capacity p \<and> bid \<notin> set (sp_legacy p) then sp_legacy p @ [bid]
                    else sp_legacy p);
          fin = (\<lambda>d'. (Inr (), p\<lparr>sp_buffer := d', sp_legacy := legacy,
                                  sp_prefetched_bytes := sp_prefetched_bytes p + sp_block_bytes p\<rparr>))
      in if dmem key d then fin (move_to_end key d)
         else if full then (case d of [] \<Rightarrow> (Inl KeyError, p) | _ # d' \<Rightarrow> fin (dset key True d'))
         else fin (dset key True d))"

definition sp_stage_blocks :: "int list \<Rightarrow> int \<Rightarrow> (spec_prefetcher, unit) meth" where
  "sp_stage_blocks ids layer = sfor (sp_stage_one layer) ids ()"

text \<open>The storage's own \<open>prefetch_kv\<close>, when there is one, is called last and its exceptions are dropped.\<close>

definition sp_prefetch_next_layer ::
    "(int list \<Rightarrow> int \<Rightarrow> 's \<Rightarrow> 's) option \<Rightarrow> int \<Rightarrow> int list \<Rightarrow> (spec_prefetcher \<times> 's, int list) meth" where
  "sp_prefetch_next_layer pf layer ids = (\<lambda>(p, s).
     (case predict_next_layer_blocks layer ids 0 (sp_predictor p) of
        (Inl e, q) \<Rightarrow> (Inl e, (p\<lparr>sp_predictor := q\<rparr>, s))
      | (Inr (next_layer, bids), q) \<Rightarrow>
          (case sp_stage_blocks bids next_layer (p\<lparr>sp_predictor := q\<rparr>) of
             (Inl e, p') \<Rightarrow> (Inl e, (p', s))
           | (Inr _, p') \<Rightarrow> (Inr bids, (p', case pf of None \<Rightarrow> s | Some f \<Rightarrow> f bids next_layer s)))))"

definition sp_is_in :: "int option \<Rightarrow> int \<Rightarrow> spec_prefetcher \<Rightarrow> bool" where
  "sp_is_in layer bid p = (case layer of
     Some l \<Rightarrow> dmem (l, bid) (sp_buffer p)
   | None \<Rightarrow> bid \<in> set (sp_legacy p) \<or> bid \<in> set (map snd (dkeys (sp_buffer p))))"

definition sp_check_staging :: "int list \<Rightarrow> int option \<Rightarrow> spec_prefetcher \<Rightarrow> int list \<times> int list" where
  "sp_check_staging ids layer p = (filter (\<lambda>b. sp_is_in layer b p) ids, filter (\<lambda>b. \<not> sp_is_in layer b p) ids)"

definition sp_is_staged :: "int list \<Rightarrow> int option \<Rightarrow> real \<Rightarrow> (spec_prefetcher, bool) meth" where
  "sp_is_staged ids layer flash p =
     (if ids = [] then (Inr True, p)
      else (let n = length ids; hits = length (fst (sp_check_staging ids layer p));
                missing = length (snd (sp_check_staging ids layer p));
                p1 = p\<lparr>sp_blocks_hit := sp_blocks_hit p + int hits, sp_blocks_requested := sp_blocks_requested p + int n\<rparr>
            in if 8 / 10 \<le> real hits / real n
               then (Inr True, if 0 < missing
                               then p1\<lparr>sp_hits := sp_hits p1 + 1, sp_stall_time := sp_stall_time p1 +
                                        max 0 (real missing * (flash / real n) - sp_compute p1)\<rparr>
                               else p1\<lparr>sp_hits := sp_hits p1 + 1\<rparr>)
               else (Inr False, p1\<lparr>sp_misses := sp_misses p1 + 1, sp_stalls := sp_stalls p1 + 1,
                                   sp_stall_time := sp_stall_time p1 + max 0 (flash - sp_compute p1)\<rparr>)))"

definition sp_request_hit_rate :: "spec_prefetcher \<Rightarrow> real" where
  "sp_request_hit_rate p = ratio (sp_hits p) (sp_hits p + sp_misses p)"

definition sp_hit_rate :: "spec_prefetcher \<Rightarrow> real" where
  "sp_hit_rate p = (if 0 < sp_blocks_requested p then of_int (sp_blocks_hit p) / of_int (sp_blocks_requested p)
                    else sp_request_hit_rate p)"

record spec_telemetry =
  st_hits :: int
  st_misses :: int
  st_blocks_hit :: int
  st_blocks_requested :: int
  st_hit_rate :: real
  st_hit_percent :: real
  st_request_hit_rate :: real
  st_stalls :: int
  st_stall_time :: real
  st_capacity :: int
  st_used_blocks :: int
  st_used_bytes :: int

definition sp_get_telemetry :: "spec_prefetcher \<Rightarrow> spec_telemetry" where
  "sp_get_telemetry p = \<lparr>st_hits = sp_hits p, st_misses = sp_misses p, st_blocks_hit = sp_blocks_hit p,
     st_blocks_requested = sp_blocks_requested p, st_hit_rate = sp_hit_rate p, st_hit_percent = round_to 1 (sp_hit_rate p * 100),
     st_request_hit_rate = sp_request_hit_rate p, st_stalls = sp_stalls p, st_stall_time = sp_stall_time p,
     st_capacity = sp_capacity p, st_used_blocks = sp_used_blocks p, st_used_bytes = sp_used_bytes p\<rparr>"

definition sp_clear :: "spec_prefetcher \<Rightarrow> spec_prefetcher" where
  "sp_clear p = p\<lparr>sp_buffer := [], sp_legacy := [], sp_hits := 0, sp_misses := 0, sp_blocks_hit := 0,
     sp_blocks_requested := 0, sp_stalls := 0, sp_stall_time := 0, sp_prefetched_bytes := 0\<rparr>"

end
