(* ===== verification/PrefetchAccounting.thy ===== *)
theory PrefetchAccounting
  imports Prefetchers
begin

text \<open>
  The books of the storage backends and of the prefetchers balance. A prefetcher asks one thing of
  its storage, that a batch is answered request by request (the locale \<open>batch_storage\<close>); the mock,
  file and analytical backends provide it.
\<close>

section \<open>Batches are answered in order\<close>

locale batch_storage =
  fixes sub :: "storage_request list \<Rightarrow> ('s, storage_result list) meth"
  assumes in_order: "sub reqs s = (Inr rs, s') \<Longrightarrow> map sx_block rs = map sr_block reqs"

definition answers_block :: "'s byte_ops \<Rightarrow> bool" where
  "answers_block ops \<longleftrightarrow> (\<forall>r s x s'. submit_one ops r s = (Inr x, s') \<longrightarrow> sx_block x = sr_block r)"

lemma sbind_Inr: "sbind m f s = (Inr y, s'') \<longleftrightarrow> (\<exists>x s'. m s = (Inr x, s') \<and> f x s' = (Inr y, s''))"
  by (auto simp: sbind_def split: prod.splits sum.splits)

lemma submit_batch_order:
  assumes "answers_block ops" "submit_batch ops reqs s = (Inr rs, s')"
  shows "map sx_block rs = map sr_block reqs"
proof -
  have "map sx_block rs = map sx_block acc @ map sr_block reqs"
    if "sfor (\<lambda>r acc. sbind (submit_one ops r) (\<lambda>x. sret (acc @ [x]))) reqs acc s = (Inr rs, s')" for acc s
    using that
  proof (induction reqs arbitrary: acc s)
    case (Cons r reqs)
    from Cons.prems obtain x s1 where x: "submit_one ops r s = (Inr x, s1)"
      and rest: "sfor (\<lambda>r acc. sbind (submit_one ops r) (\<lambda>x. sret (acc @ [x]))) reqs (acc @ [x]) s1 = (Inr rs, s')"
      unfolding sfor.simps sbind_Inr sret_def by blast
    have "sx_block x = sr_block r" using assms(1) x unfolding answers_block_def by blast
    with Cons.IH [OF rest] show ?case by simp
  qed simp
  from this [of "[]" s] assms(2) show ?thesis by (simp add: submit_batch_def)
qed

lemma mock_answers: "answers_block mock_ops"
  by (auto simp: answers_block_def submit_one_def mock_ops_def mock_read_def mock_write_def mock_result_def Let_def
      split: if_splits option.splits)

lemma file_answers: "answers_block (file_ops dt)"
  by (auto simp: answers_block_def submit_one_def file_ops_def file_read_def file_write_def mock_result_def Let_def
      split: if_splits)

lemma an_access_block:
  "an_read bid off len layer head m s = (Inr x, s') \<Longrightarrow> sx_block x = bid"
  "an_write bid off d layer head len m s = (Inr x, s') \<Longrightarrow> sx_block x = bid"
  by (auto simp: an_read_def an_write_def an_result_def Let_def split: sum.splits)

lemma an_submit_one_block:
  "an_submit_one r (busy, out) s = (Inr acc, s') \<Longrightarrow> \<exists>busy' x. sx_block x = sr_block r \<and> acc = (busy', out @ [x])"
  by (auto simp: sbind_Inr an_submit_one_def Let_def dest!: an_access_block split: if_splits option.splits)

lemma an_submit_order:
  assumes "an_submit_batch reqs s = (Inr rs, s')"
  shows "map sx_block rs = map sr_block reqs"
proof -
  have "map sx_block (snd res) = map sx_block out @ map sr_block reqs"
    if "sfor an_submit_one reqs (busy, out) s = (Inr res, s')" for busy out s s' res
    using that
  proof (induction reqs arbitrary: busy out s)
    case (Cons r reqs)
    from Cons.prems obtain busy1 x s1 where "sx_block x = sr_block r"
      and "sfor an_submit_one reqs (busy1, out @ [x]) s1 = (Inr res, s')"
      using an_submit_one_block unfolding sfor.simps sbind_Inr by metis
    with Cons.IH [of busy1 "out @ [x]" s1] show ?case by simp
  qed auto
  then show ?thesis using assms by (auto simp: an_submit_batch_def sbind_Inr)
qed

interpretation mock_batch: batch_storage "submit_batch mock_ops"
  by unfold_locales (rule submit_batch_order [OF mock_answers])

interpretation file_batch: batch_storage "submit_batch (file_ops dt)" for dt
  by unfold_locales (rule submit_batch_order [OF file_answers])

interpretation an_batch: batch_storage an_submit_batch
  by unfold_locales (rule an_submit_order)

section \<open>Every prefetch is useful, useless or still unread\<close>

definition unread :: "('k, staged_block) dict \<Rightarrow> int" where
  "unread d = int (length (filter (\<lambda>e. \<not> sb_useful e) (dvalues d)))"

abbreviation cost :: "staged_block \<Rightarrow> int" where
  "cost e \<equiv> (if sb_useful e then 0 else 1)"

lemma unread_simps [simp]: "unread [] = 0" "unread ((k, e) # d) = cost e + unread d"
  "unread (d @ d') = unread d + unread d'"
  by (simp_all add: unread_def)

lemma unread_dset: "unread (dset k e d) = unread d + cost e - (case dget d k of None \<Rightarrow> 0 | Some e' \<Rightarrow> cost e')"
  by (induction d) (auto split: option.split)

lemma unread_dpop:
  "dict_ok d \<Longrightarrow> unread (dpop k d) = unread d - (case dget d k of None \<Rightarrow> 0 | Some e \<Rightarrow> cost e)"
proof (induction d)
  case (Cons x d)
  obtain j e where x: "x = (j, e)" by (cases x)
  have "dict_ok d" "dget d j = None" using Cons.prems by (auto simp: x dict_ok_def map_of_eq_None_iff)
  with Cons.IH show ?case by (cases "j = k") (auto simp: x split: option.splits)
qed simp

definition v2_inv :: "'s v2 \<Rightarrow> bool" where
  "v2_inv p \<longleftrightarrow> dict_ok (v2_buffer p) \<and> v2_requests p = v2_useful p + v2_useless p + unread (v2_buffer p) \<and>
     v2_late p \<le> v2_hits p"

lemma unread_move_to_end [simp]: "dict_ok d \<Longrightarrow> unread (move_to_end k d) = unread d"
  by (auto simp: move_to_end_def unread_dpop split: option.split)

lemma make_room_keeps:
  assumes "v2_make_room p = (r, p')" "v2_inv p"
  shows "v2_inv p' \<and> set (dkeys (v2_buffer p')) \<subseteq> set (dkeys (v2_buffer p)) \<and>
    v2_hits p' = v2_hits p \<and> v2_misses p' = v2_misses p"
proof (cases "v2_buffer p")
  case (Cons x d)
  obtain k e where x: "x = (k, e)" by (cases x)
  have "dict_ok d" using assms(2) Cons by (auto simp: v2_inv_def dict_ok_def)
  then show ?thesis using assms Cons x
    by (auto simp: v2_make_room_def v2_inv_def split: if_splits)
qed (use assms in \<open>auto simp: v2_make_room_def split: if_splits\<close>)

lemma select_skip:
  assumes "dmem (layer, b) (v2_buffer p)"
  shows "sfor (v2_select layer) (b # ids) acc p = sfor (v2_select layer) ids acc p"
  using assms by (simp add: v2_select_def [of layer b acc] meth_run)

lemma select_add:
  assumes "\<not> dmem (layer, b) (v2_buffer p)" "v2_make_room p = (m, q)"
  shows "sfor (v2_select layer) (b # ids) acc p =
    (case m of Inl e \<Rightarrow> (Inl e, q) | Inr _ \<Rightarrow> sfor (v2_select layer) ids (acc @ [b]) q)"
  using assms by (simp add: v2_select_def [of layer b acc] meth_run split: sum.split)

text \<open>The blocks selected are distinct and none of them is staged any more.\<close>

lemma select_keeps:
  assumes "sfor (v2_select layer) ids acc p = (r, p')" "v2_inv p"
  shows "v2_inv p' \<and> set (dkeys (v2_buffer p')) \<subseteq> set (dkeys (v2_buffer p)) \<and>
    v2_hits p' = v2_hits p \<and> v2_misses p' = v2_misses p \<and>
    (\<forall>sel. r = Inr sel \<longrightarrow> distinct (acc @ ids) \<longrightarrow> (\<forall>b\<in>set acc. \<not> dmem (layer, b) (v2_buffer p)) \<longrightarrow>
       distinct sel \<and> (\<forall>b\<in>set sel. \<not> dmem (layer, b) (v2_buffer p')))"
  using assms
proof (induction ids arbitrary: acc p)
  case (Cons b ids)
  show ?case
  proof (cases "dmem (layer, b) (v2_buffer p)")
    case True
    then have "sfor (v2_select layer) ids acc p = (r, p')" using Cons.prems(1) select_skip by metis
    from Cons.IH [OF this Cons.prems(2)] show ?thesis by auto
  next
    case False
    obtain r1 p1 where m: "v2_make_room p = (r1, p1)" by fastforce
    note k = make_room_keeps [OF m Cons.prems(2)]
    show ?thesis
    proof (cases r1)
      case (Inl e)
      then show ?thesis using Cons.prems(1) k by (auto simp: select_add [OF False m] simp del: sfor.simps)
    next
      case (Inr u)
      then have "sfor (v2_select layer) ids (acc @ [b]) p1 = (r, p')"
        using Cons.prems(1) by (simp add: select_add [OF False m] del: sfor.simps)
      note IH = Cons.IH [OF this]
      have "\<not> dmem (layer, j) (v2_buffer p1)" if "\<not> dmem (layer, j) (v2_buffer p)" for j
        using that k by (auto simp: dmem_keys)
      moreover have "set (dkeys (v2_buffer p')) \<subseteq> set (dkeys (v2_buffer p))" using IH k by blast
      ultimately show ?thesis using IH k False by (auto simp del: set_map)
    qed
  qed
qed (auto simp: sret_def)

lemma stage_keeps:
  assumes "v2_inv p" "distinct (map sx_block xs)" "\<forall>b\<in>set (map sx_block xs). \<not> dmem (layer, b) (v2_buffer p)"
  shows "v2_inv (fold (v2_stage layer now) xs p) \<and>
    v2_hits (fold (v2_stage layer now) xs p) = v2_hits p \<and> v2_misses (fold (v2_stage layer now) xs p) = v2_misses p"
  using assms
proof (induction xs arbitrary: p)
  case (Cons x xs)
  let ?p = "v2_stage layer now x p"
  have n: "dget (v2_buffer p) (layer, sx_block x) = None" using Cons.prems(3) by (simp add: dmem_def)
  have "v2_inv ?p" using Cons.prems(1) n by (simp add: v2_inv_def v2_stage_def unread_dset)
  moreover have "\<forall>b\<in>set (map sx_block xs). \<not> dmem (layer, b) (v2_buffer ?p)"
    using Cons.prems(2,3) by (auto simp: v2_stage_def dmem_def dict_simps dest: image_eqI [OF sym, of sx_block])
  ultimately show ?case using Cons.IH [of ?p] Cons.prems(2) by (simp add: v2_stage_def)
qed simp

lemma access_one_keeps:
  assumes "v2_access_one layer now bid acc p = (r, p')" "v2_inv p"
  shows "v2_inv p' \<and> v2_hits p' + v2_misses p' = v2_hits p + v2_misses p + 1 \<and> r \<in> range Inr"
proof (cases "dget (v2_buffer p) (layer, bid)")
  case None
  then show ?thesis using assms by (cases acc) (auto simp: v2_access_one_def v2_inv_def)
next
  case (Some e)
  let ?d = "dset (layer, bid) (e\<lparr>sb_useful := True, sb_accessed_at := Some now\<rparr>) (v2_buffer p)"
  have "dict_ok ?d" using assms(2) by (simp add: v2_inv_def)
  moreover have "unread ?d = unread (v2_buffer p) - cost e" using Some by (simp add: unread_dset)
  ultimately show ?thesis using assms Some
    by (cases acc) (auto simp: v2_access_one_def v2_inv_def Let_def)
qed

lemma access_loop_keeps:
  assumes "sfor (v2_access_one layer now) ids acc p = (r, p')" "v2_inv p"
  shows "v2_inv p' \<and> v2_hits p' + v2_misses p' = v2_hits p + v2_misses p + int (length ids) \<and> r \<in> range Inr"
  using assms
proof (induction ids arbitrary: acc p)
  case (Cons b ids)
  obtain r1 p1 where o: "v2_access_one layer now b acc p = (r1, p1)" by fastforce
  note k = access_one_keeps [OF o Cons.prems(2)]
  then obtain acc1 where "r1 = Inr acc1" by blast
  with Cons.prems(1) o have "sfor (v2_access_one layer now) ids acc1 p1 = (r, p')" by (simp add: meth_run)
  from Cons.IH [OF this] k show ?case by simp
qed (auto simp: sret_def)

datatype v2_call = V2Prefetch "int list" int real | V2Access "int list" int real

fun v2_do :: "(storage_request list \<Rightarrow> ('s, storage_result list) meth) \<Rightarrow> v2_call \<Rightarrow> 's v2 \<Rightarrow> 's v2" where
  "v2_do sub (V2Prefetch ids layer now) p = snd (v2_prefetch_blocks sub ids layer now p)"
| "v2_do sub (V2Access ids layer now) p = snd (v2_access_blocks sub ids layer now p)"

fun v2_call_ok :: "v2_call \<Rightarrow> bool" where
  "v2_call_ok (V2Prefetch ids layer now) = distinct ids"
| "v2_call_ok (V2Access ids layer now) = True"

fun v2_demand :: "v2_call \<Rightarrow> int" where
  "v2_demand (V2Prefetch ids layer now) = 0"
| "v2_demand (V2Access ids layer now) = int (length ids)"

lemma new_v2_inv: "v2_inv (new_v2 s cap bytes cpt)"
  by (simp add: v2_inv_def new_v2_def dict_ok_def)

context batch_storage
begin

lemma prefetch_keeps:
  assumes "v2_inv p" "distinct ids" "v2_prefetch_blocks sub ids layer now p = (r, p')"
  shows "v2_inv p' \<and> v2_hits p' = v2_hits p \<and> v2_misses p' = v2_misses p"
proof -
  obtain r1 p1 where l: "sfor (v2_select layer) ids [] p = (r1, p1)" by fastforce
  note k = select_keeps [OF l assms(1)]
  show ?thesis
  proof (cases r1)
    case (Inl e)
    then show ?thesis using assms(3) l k by (auto simp: v2_prefetch_blocks_def meth_run)
  next
    case (Inr sel)
    then have sel: "distinct sel" "\<forall>b\<in>set sel. \<not> dmem (layer, b) (v2_buffer p1)" using k assms(2) by auto
    let ?m = "sub (map (v2_read_request layer (v2_block_bytes p1)) sel)"
    obtain r2 s2 where b: "?m (v2_backend p1) = (r2, s2)" by fastforce
    let ?p2 = "p1\<lparr>v2_backend := s2\<rparr>"
    have p2: "v2_inv ?p2" using k by (simp add: v2_inv_def)
    show ?thesis
    proof (cases r2)
      case (Inl e)
      then show ?thesis using assms(3) l Inr b k p2
        by (auto simp: v2_prefetch_blocks_def meth_run on_backend_def split: if_splits)
    next
      case res: (Inr rs)
      have "map sx_block rs = sel" using in_order [of _ "v2_backend p1" rs s2] b res by (simp add: v2_read_request_def comp_def)
      with sel have "v2_inv (fold (v2_stage layer now) rs ?p2) \<and> v2_hits (fold (v2_stage layer now) rs ?p2) = v2_hits p1 \<and>
          v2_misses (fold (v2_stage layer now) rs ?p2) = v2_misses p1"
        using stage_keeps [OF p2, of rs layer now] by simp
      then show ?thesis using assms(3) l Inr b res k
        by (auto simp: v2_prefetch_blocks_def meth_run on_backend_def v2_inv_def split: if_splits)
    qed
  qed
qed

lemma access_keeps:
  assumes "v2_inv p" "v2_access_blocks sub ids layer now p = (r, p')"
  shows "v2_inv p' \<and> v2_hits p' + v2_misses p' = v2_hits p + v2_misses p + int (length ids)"
proof -
  obtain r1 p1 where l: "sfor (v2_access_one layer now) ids ([], [], 0) p = (r1, p1)" by fastforce
  note k = access_loop_keeps [OF l assms(1)]
  then obtain hits misses stall where r1: "r1 = Inr (hits, misses, stall)" by auto
  let ?m = "sub (map (v2_read_request layer (v2_block_bytes p1)) misses)"
  obtain r2 s2 where b: "?m (v2_backend p1) = (r2, s2)" by fastforce
  then show ?thesis using assms(2) l r1 k
    by (cases "misses = []"; cases r2)
      (auto simp: v2_access_blocks_def meth_run on_backend_def v2_inv_def split: if_splits)
qed

lemma run_keeps:
  "v2_inv p \<Longrightarrow> \<forall>c\<in>set cs. v2_call_ok c \<Longrightarrow>
   v2_inv (fold (v2_do sub) cs p) \<and>
   v2_hits (fold (v2_do sub) cs p) + v2_misses (fold (v2_do sub) cs p) =
     v2_hits p + v2_misses p + sum_list (map v2_demand cs)"
proof (induction cs arbitrary: p)
  case (Cons c cs)
  have "v2_inv (v2_do sub c p) \<and> v2_hits (v2_do sub c p) + v2_misses (v2_do sub c p) = v2_hits p + v2_misses p + v2_demand c"
  proof (cases c)
    case (V2Prefetch ids layer now)
    with Cons.prems prefetch_keeps [OF _ _ prod.collapse [symmetric]] show ?thesis by fastforce
  next
    case (V2Access ids layer now)
    with Cons.prems access_keeps [OF _ prod.collapse [symmetric]] show ?thesis by fastforce
  qed
  with Cons.IH [of "v2_do sub c p"] Cons.prems show ?case by simp
qed simp

end

lemma telemetry_balance:
  assumes "v2_inv p"
  shows "vt_requests (v2_get_telemetry p) = vt_useful (v2_get_telemetry p) + vt_useless (v2_get_telemetry p)"
    and "vt_late (v2_get_telemetry p) \<le> vt_hits (v2_get_telemetry p)"
  using assms by (simp_all add: v2_inv_def v2_get_telemetry_def v2_unread_def unread_def)

definition v2_books :: "v2_call list \<Rightarrow> v2_telemetry \<Rightarrow> bool" where
  "v2_books cs t \<longleftrightarrow> vt_requests t = vt_useful t + vt_useless t \<and>
     vt_hits t + vt_misses t = sum_list (map v2_demand cs) \<and> vt_late t \<le> vt_hits t"

context batch_storage
begin

lemma books:
  "\<forall>c\<in>set cs. v2_call_ok c \<Longrightarrow> v2_books cs (v2_get_telemetry (fold (v2_do sub) cs (new_v2 s cap bytes cpt)))"
proof -
  let ?p = "fold (v2_do sub) cs (new_v2 s cap bytes cpt)"
  assume "\<forall>c\<in>set cs. v2_call_ok c"
  note k = run_keeps [OF new_v2_inv this]
  have "v2_hits ?p + v2_misses ?p = sum_list (map v2_demand cs)" using k by (simp add: new_v2_def)
  then show ?thesis using telemetry_balance [of ?p] k by (simp add: v2_books_def v2_get_telemetry_def)
qed

end

text \<open>C24: The reported books of the V2 prefetcher balance. After any sequence of prefetches (without
  repeated ids) and accesses, over the mock, the file or the analytical backend, failing requests
  included: every issued prefetch is counted once as useful or useless, every demanded block once as a
  hit or a miss, and there are no more late prefetches than hits.\<close>

theorem v2_prefetch_accounting:
  assumes "\<forall>c\<in>set cs. v2_call_ok c"
  shows "v2_books cs (v2_get_telemetry (fold (v2_do (submit_batch mock_ops)) cs (new_v2 m cap bytes cpt))) \<and>
    v2_books cs (v2_get_telemetry (fold (v2_do (submit_batch (file_ops dt))) cs (new_v2 f cap bytes cpt))) \<and>
    v2_books cs (v2_get_telemetry (fold (v2_do an_submit_batch) cs (new_v2 a cap bytes cpt)))"
  using assms by (simp_all add: mock_batch.books file_batch.books an_batch.books)

theorem v2_prefetch_accounting_witness:
  "v2_books [V2Prefetch [1, 2, 3] 0 0, V2Access [1, 9] 0 5, V2Prefetch [4] 0 6]
     (v2_get_telemetry (fold (v2_do (submit_batch mock_ops))
       [V2Prefetch [1, 2, 3] 0 0, V2Access [1, 9] 0 5, V2Prefetch [4] 0 6] (new_v2 (new_mock 3 4 None) 3 16 1)))"
  by (rule conjunct1 [OF v2_prefetch_accounting]) simp

section \<open>The counters of the analytical backend\<close>

definition an_inv :: "analytical \<Rightarrow> bool" where
  "an_inv s \<longleftrightarrow> dsum (an_access s) = bk_reads s + bk_writes s \<and> dsum (an_ops s) = bk_reads s + bk_writes s \<and>
     dsum (an_channel_bytes s) = bk_bytes_read s + bk_bytes_written s \<and>
     an_k_bytes s + an_v_bytes s \<le> bk_bytes_read s + bk_bytes_written s \<and>
     bk_bytes_read s + bk_bytes_written s \<le> an_k_bytes s + an_v_bytes s + bk_reads s + bk_writes s"

lemma track_access_keeps:
  assumes "an_inv s"
  shows "an_inv (track_access ch n op sub (count_read n lat s))" and "an_inv (track_access ch n op sub (count_write n lat s))"
proof -
  have "2 * (n div 2) \<le> n" "n \<le> 2 * (n div 2) + 1" by linarith+
  then show "an_inv (track_access ch n op sub (count_read n lat s))" and "an_inv (track_access ch n op sub (count_write n lat s))"
    using assms by (simp_all add: an_inv_def track_access_def account_subpage_bytes_def count_read_def count_write_def dsum_dinc)
qed

lemma an_access_keeps [inv_intros]:
  "keeps an_inv (an_read bid off len layer head m)" "keeps an_inv (an_write bid off d layer head len m)"
  by (auto simp: keeps_def an_read_def an_write_def Let_def track_access_keeps split: sum.splits)

lemma an_submit_one_keeps: "keeps an_inv (an_submit_one r acc)"
proof -
  have "keeps an_inv (\<lambda>s. (resolve_physical_coord b l h t s, s))" for b l h t by (simp add: keeps_def)
  then show ?thesis
    by (cases acc) (auto simp: an_submit_one_def Let_def split: option.split intro!: inv_intros)
qed

lemma an_submit_batch_keeps [inv_intros]: "keeps an_inv (an_submit_batch reqs)"
  unfolding an_submit_batch_def by (intro inv_intros an_submit_one_keeps)

datatype an_call =
    AnRead int int int int int req_meta
  | AnWrite int int "byte list" int int int req_meta
  | AnBatch "storage_request list"
  | AnReset

fun an_do :: "an_call \<Rightarrow> analytical \<Rightarrow> analytical" where
  "an_do (AnRead bid off len layer head m) s = snd (an_read bid off len layer head m s)"
| "an_do (AnWrite bid off d layer head len m) s = snd (an_write bid off d layer head len m s)"
| "an_do (AnBatch reqs) s = snd (an_submit_batch reqs s)"
| "an_do AnReset s = an_reset_stats s"

lemma an_run_one:
  assumes "an_inv s"
  shows "an_inv (snd (an_read bid off len layer head m s))" and "an_inv (snd (an_write bid off d layer head len m s))"
    and "an_inv (snd (an_submit_batch reqs s))"
  using assms an_access_keeps an_submit_batch_keeps by (metis keepsD prod.collapse)+

lemma an_do_keeps: "an_inv s \<Longrightarrow> an_inv (an_do c s)"
proof (cases c)
  case AnReset
  then show ?thesis by (simp add: an_inv_def an_reset_stats_def bk_reset_stats_def dsum_def)
qed (simp_all add: an_run_one)

lemma an_run_keeps: "an_inv s \<Longrightarrow> an_inv (fold an_do cs s)"
  by (induction cs arbitrary: s) (simp_all add: an_do_keeps)

text \<open>After any sequence of reads, writes, batches (failing ones included) and resets, the analytical
  backend's per-channel access counters and its operation counters both add up to the number of
  operations, its per-channel byte counters to the bytes moved, and the bytes attributed to keys and
  values to the same up to one byte per operation (halves of odd lengths are rounded down).\<close>

theorem analytical_accounting:
  "let s = fold an_do cs (new_analytical mode c d p b); n = bk_reads s + bk_writes s; bytes = bk_bytes_read s + bk_bytes_written s
   in dsum (an_access s) = n \<and> dsum (an_ops s) = n \<and> dsum (an_channel_bytes s) = bytes \<and>
      an_k_bytes s + an_v_bytes s \<in> {bytes - n..bytes}"
proof -
  have "an_inv (new_analytical mode c d p b)" by (simp add: an_inv_def new_analytical_def dsum_def)
  from an_run_keeps [OF this, of cs] show ?thesis by (simp add: an_inv_def Let_def algebra_simps)
qed

end
