(* ===== verification/PhysicalAdapter.thy ===== *)
theory PhysicalAdapter
  imports StorageSim FlashController Tiering
begin

text \<open>
  The adapter that puts the physical flash simulator behind the storage interface of the first
  subsystem: \<open>person3_system/adapters/physical_adapter.py\<close>. Payloads live in the adapter,
  placement and read latency come from the storage simulator of \<open>StorageSim\<close>, transfer and
  programming times from the flash model of \<open>FlashController\<close>. Access listeners are called by
  whoever composes the system; the adapter's part, the recorded events, is modelled. numpy and
  the native kernel are parameters as in \<open>FlashController\<close>.
\<close>

section \<open>State\<close>

text \<open>\<open>(layer_id << 16) | (block_id & 0xFFFF)\<close> on Python's unbounded integers.\<close>

definition encode_global_block_id :: "int \<Rightarrow> int \<Rightarrow> int" where
  "encode_global_block_id layer bid = or (push_bit 16 layer) (and bid 65535)"

record phys_entry = flash_entry +
  pe_gid :: int

datatype pa_event = PaEvent (pe_op: string) (pe_layer: int) (pe_blocks: "int list") (pe_bytes: int) (pe_time: real)

record phys_adapter =
  pa_mode :: string
  pa_channels :: int
  pa_capacity :: int
  pa_timing :: flash_timing
  pa_energy :: energy_config
  pa_sim :: simulator
  pa_store :: "(int \<times> int, phys_entry) dict"
  pa_cache :: "(int \<times> int) set"
  pa_used :: int
  pa_gids :: "(int \<times> int, int) dict"
  pa_h2d :: int
  pa_d2h :: int
  pa_flash_rd :: int
  pa_flash_wr :: int
  pa_dram_rd :: int
  pa_dram_wr :: int
  pa_macs :: int
  pa_rd_ops :: int
  pa_wr_ops :: int
  pa_time :: real
  pa_log :: "pa_event list"

text \<open>A flash model that is not given is built from the default timing with three fields set.\<close>

definition pa_default_timing :: "int \<Rightarrow> flash_timing" where
  "pa_default_timing c = default_flash_timing\<lparr>ft_read_us := T_R_US, ft_prog_us := 200, ft_channels := c\<rparr>"

definition new_phys_adapter ::
    "string \<Rightarrow> int \<Rightarrow> int \<Rightarrow> int \<Rightarrow> int \<Rightarrow> int \<Rightarrow> (flash_timing \<times> energy_config) option \<Rightarrow> phys_adapter" where
  "new_phys_adapter md c nd npl nblk mb fm =
     (let (t, e) = (case fm of Some x \<Rightarrow> x | None \<Rightarrow> (pa_default_timing c, default_energy))
      in \<lparr>pa_mode = md, pa_channels = c, pa_capacity = mb * 1024 * 1024, pa_timing = t, pa_energy = e,
          pa_sim = new_simulator md c nd npl nblk, pa_store = [], pa_cache = {}, pa_used = 0, pa_gids = [],
          pa_h2d = 0, pa_d2h = 0, pa_flash_rd = 0, pa_flash_wr = 0, pa_dram_rd = 0, pa_dram_wr = 0,
          pa_macs = 0, pa_rd_ops = 0, pa_wr_ops = 0, pa_time = 0, pa_log = []\<rparr>)"

section \<open>Calls of the simulator and the flash model\<close>

definition pa_sim_store :: "kv_block \<Rightarrow> (phys_adapter, unit) meth" where
  "pa_sim_store b a =
     (case sim_store_block b (pa_sim a) of (r, s) \<Rightarrow> (map_sum id (\<lambda>_. ()) r, a\<lparr>pa_sim := s\<rparr>))"

definition pa_read_latency :: "int list \<Rightarrow> (phys_adapter, real) meth" where
  "pa_read_latency gids a =
     (case sim_estimate_read_latency gids (pa_sim a) of (u, s) \<Rightarrow> (Inr u, a\<lparr>pa_sim := s\<rparr>))"

text \<open>The latency of a batch is added to the clock, when there is a batch.\<close>

definition pa_charge_batch :: "int list \<Rightarrow> (phys_adapter, unit) meth" where
  "pa_charge_batch gids =
     (if gids = [] then sret ()
      else sbind (pa_read_latency gids) (\<lambda>u. supd (\<lambda>a. a\<lparr>pa_time := pa_time a + u\<rparr>)))"

definition pa_charge_pcie :: "int \<Rightarrow> (phys_adapter, unit) meth" where
  "pa_charge_pcie n = sbind (sread pa_timing) (\<lambda>t. sbind (slift (calculate_pcie_transfer_time_us t n)) (\<lambda>u.
     supd (\<lambda>a. a\<lparr>pa_time := pa_time a + u\<rparr>)))"

definition pa_record_event :: "string \<Rightarrow> int \<Rightarrow> int list \<Rightarrow> int \<Rightarrow> (phys_adapter, unit) meth" where
  "pa_record_event op layer ids n =
     supd (\<lambda>a. a\<lparr>pa_log := pa_log a @ [PaEvent op layer ids n (pa_time a)]\<rparr>)"

text \<open>The block the simulator is told about.\<close>

definition p2_block :: "int \<Rightarrow> int \<Rightarrow> kv_meta \<Rightarrow> nat \<Rightarrow> tensor \<Rightarrow> tensor \<Rightarrow> kv_block" where
  "p2_block gid layer m isz k v =
     \<lparr>block_id = gid, layer_id = layer, token_start = km_token_start m, token_count = int (km_token_count m),
      kv_head_start = 0, kv_head_count = int (km_heads m), head_dim = int (km_head_dim m),
      dtype = (if isz = 2 then ''FP16'' else ''FP32''), key_size_bytes = int (nbytes k),
      value_size_bytes = int (nbytes v), storage_tier = ''SSD'', hotness = 1, physical_location = None\<rparr>"

section \<open>Operations\<close>

text \<open>
  \<open>set_mode\<close> builds a simulator with the default numbers of dies, planes and blocks, then
  registers every stored block under the id kept for it.
\<close>

definition pa_register :: "(int \<times> int) \<times> phys_entry \<Rightarrow> unit \<Rightarrow> (phys_adapter, unit) meth" where
  "pa_register x _ = (case x of (j, e) \<Rightarrow>
     sbind (sread (\<lambda>a. dget (pa_gids a) j)) (\<lambda>g. case g of
       None \<Rightarrow> sraise KeyError
     | Some gid \<Rightarrow> pa_sim_store (p2_block gid (fst j) (fe_meta e) (itemsize (km_dtype (fe_meta e))) (fe_k e) (fe_v e))))"

definition pa_set_mode :: "string \<Rightarrow> (phys_adapter, unit) meth" where
  "pa_set_mode md =
     sthen (supd (\<lambda>a. a\<lparr>pa_mode := md,
              pa_sim := new_simulator md (pa_channels a) SSD_DIES_PER_CHANNEL SSD_PLANES_PER_DIE 64\<rparr>))
       (sbind (sread pa_store) (\<lambda>es. sfor pa_register es ()))"

text \<open>Token count, heads and head dimension: of the shape, or fixed values below three axes.\<close>

definition pa_meta :: "int \<Rightarrow> int \<Rightarrow> tensor \<Rightarrow> kv_meta" where
  "pa_meta bid layer k =
     (let (t, h, d) = (if 3 \<le> length (shape k) then (shape k ! 0, shape k ! 1, shape k ! 2) else (16, 1, 128))
      in \<lparr>km_block = bid, km_layer = layer, km_token_start = bid * int t, km_token_count = t, km_heads = h,
          km_head_dim = d, km_dtype = elem_type k, km_access_count = 0\<rparr>)"

definition pa_store_kv :: "int \<Rightarrow> int \<Rightarrow> tensor \<Rightarrow> tensor \<Rightarrow> kv_meta option \<Rightarrow> (phys_adapter, bool) meth" where
  "pa_store_kv bid layer k v md =
     (let n = int (nbytes k) + int (nbytes v); gid = encode_global_block_id layer bid;
          dm = pa_meta bid layer k;
          start = (case md of Some m \<Rightarrow> km_token_start m | None \<Rightarrow> km_token_start dm)
      in sthen (supd (\<lambda>a. a\<lparr>pa_h2d := pa_h2d a + n\<rparr>))
         (sbind (sread pa_timing) (\<lambda>t.
          sbind (slift (calculate_pcie_transfer_time_us t n)) (\<lambda>pu.
          sthen (supd (\<lambda>a. a\<lparr>pa_gids := dset (layer, bid) gid (pa_gids a)\<rparr>))
         (sthen (pa_sim_store (p2_block gid layer (dm\<lparr>km_token_start := start\<rparr>) (itemsize (elem_type k)) k v))
         (sthen (supd (\<lambda>a. a\<lparr>pa_flash_wr := pa_flash_wr a + n, pa_wr_ops := pa_wr_ops a + 1\<rparr>))
         (sbind (slift (calculate_flash_write_time_us t n)) (\<lambda>wu.
          sthen (supd (\<lambda>a. a\<lparr>pa_time := pa_time a + (pu + wu)\<rparr>))
         (sthen (supd (\<lambda>a. a\<lparr>pa_store := dset (layer, bid)
              \<lparr>fe_k = k, fe_v = v, fe_meta = (case md of Some m \<Rightarrow> m | None \<Rightarrow> dm), pe_gid = gid\<rparr> (pa_store a)\<rparr>))
          (sret True))))))))))"

definition pa_load_kv :: "int \<Rightarrow> int \<Rightarrow> (phys_adapter, tensor \<times> tensor) meth" where
  "pa_load_kv bid layer =
     sbind (sread (\<lambda>a. dget (pa_store a) (layer, bid))) (\<lambda>e. case e of
       None \<Rightarrow> sraise KeyError
     | Some e \<Rightarrow>
         (let n = int (nbytes (fe_k e)) + int (nbytes (fe_v e))
          in sbind (sread (\<lambda>a. (layer, bid) \<in> pa_cache a)) (\<lambda>hit.
             sthen (if \<not> hit
                    then sbind (pa_read_latency [pe_gid e]) (\<lambda>u.
                           supd (\<lambda>a. a\<lparr>pa_flash_rd := pa_flash_rd a + n, pa_rd_ops := pa_rd_ops a + 1,
                                       pa_time := pa_time a + u\<rparr>))
                    else supd (\<lambda>a. a\<lparr>pa_dram_rd := pa_dram_rd a + n, pa_time := pa_time a + 1\<rparr>))
            (sthen (supd (\<lambda>a. a\<lparr>pa_d2h := pa_d2h a + n\<rparr>))
            (sthen (pa_charge_pcie n)
            (sthen (pa_record_event ''LOAD_KV'' layer [bid] n)
             (sret (fe_k e, fe_v e))))))))"

definition pa_evict_kv :: "int \<Rightarrow> int \<Rightarrow> (phys_adapter, bool) meth" where
  "pa_evict_kv bid layer =
     sbind (sread (\<lambda>a. dmem (layer, bid) (pa_store a))) (\<lambda>present.
       if present
       then sthen (supd (\<lambda>a. a\<lparr>pa_store := dpop (layer, bid) (pa_store a), pa_cache := pa_cache a - {(layer, bid)},
                               pa_gids := dpop (layer, bid) (pa_gids a)\<rparr>))
              (sret True)
       else sret False)"

text \<open>One id of a prefetch; the accumulator holds the ids to read and the number of staged blocks.\<close>

definition pa_stage :: "int \<Rightarrow> int \<Rightarrow> int list \<times> nat \<Rightarrow> (phys_adapter, int list \<times> nat) meth" where
  "pa_stage layer bid acc =
     sbind (sread (\<lambda>a. (dget (pa_store a) (layer, bid), (layer, bid) \<in> pa_cache a))) (\<lambda>p. case p of
       (Some e, False) \<Rightarrow>
         (let n = int (nbytes (fe_k e)) + int (nbytes (fe_v e))
          in sbind (sread (\<lambda>a. pa_used a + n \<le> pa_capacity a)) (\<lambda>fits.
               if fits
               then sthen (supd (\<lambda>a. a\<lparr>pa_cache := insert (layer, bid) (pa_cache a), pa_used := pa_used a + n,
                        pa_flash_rd := pa_flash_rd a + n, pa_rd_ops := pa_rd_ops a + 1\<rparr>))
                      (sret (fst acc @ [pe_gid e], snd acc + 1))
               else sret acc))
     | _ \<Rightarrow> sret acc)"

definition pa_prefetch_kv :: "int list \<Rightarrow> int \<Rightarrow> (phys_adapter, nat) meth" where
  "pa_prefetch_kv ids layer =
     sbind (sfor (pa_stage layer) ids ([], 0)) (\<lambda>acc.
     sthen (pa_charge_batch (fst acc))
    (sthen (pa_record_event ''PREFETCH_KV'' layer ids (int (snd acc) * 4096))
     (sret (snd acc))))"

section \<open>In-storage top-k attention\<close>

definition pa_layer_blocks :: "int \<Rightarrow> phys_adapter \<Rightarrow> (int \<times> phys_entry) list" where
  "pa_layer_blocks layer a =
     sort_key fst (map (\<lambda>(j, e). (snd j, e)) (filter (\<lambda>(j, e). fst j = layer) (pa_store a)))"

text \<open>One block of a pass over keys or values: flash is charged and its id kept, or DRAM is charged.\<close>

definition pa_charge_block :: "int \<Rightarrow> int \<times> int \<times> int \<Rightarrow> int list \<Rightarrow> (phys_adapter, int list) meth" where
  "pa_charge_block layer x gids = (case x of (bid, n, gid) \<Rightarrow>
     sbind (sread (\<lambda>a. (layer, bid) \<in> pa_cache a)) (\<lambda>hit.
       if \<not> hit
       then sthen (supd (\<lambda>a. a\<lparr>pa_flash_rd := pa_flash_rd a + n, pa_rd_ops := pa_rd_ops a + 1\<rparr>)) (sret (gids @ [gid]))
       else sthen (supd (\<lambda>a. a\<lparr>pa_dram_rd := pa_dram_rd a + n\<rparr>)) (sret gids)))"

text \<open>The values of a selected block; its id comes from the id map, only when flash is read.\<close>

definition pa_charge_value :: "int \<Rightarrow> int \<Rightarrow> int list \<Rightarrow> (phys_adapter, int list) meth" where
  "pa_charge_value layer bid gids =
     sbind (sread (\<lambda>a. dget (pa_store a) (layer, bid))) (\<lambda>e. case e of
       None \<Rightarrow> sraise KeyError
     | Some e \<Rightarrow>
         (let n = int (nbytes (fe_v e))
          in sbind (sread (\<lambda>a. (layer, bid) \<in> pa_cache a)) (\<lambda>hit.
             if hit then sthen (supd (\<lambda>a. a\<lparr>pa_dram_rd := pa_dram_rd a + n\<rparr>)) (sret gids)
             else sthen (supd (\<lambda>a. a\<lparr>pa_flash_rd := pa_flash_rd a + n, pa_rd_ops := pa_rd_ops a + 1\<rparr>))
                 (sbind (sread (\<lambda>a. dget (pa_gids a) (layer, bid))) (\<lambda>g. case g of
                    None \<Rightarrow> sraise KeyError
                  | Some gid \<Rightarrow> sret (gids @ [gid]))))))"

definition pa_keys_of :: "int \<Rightarrow> phys_adapter \<Rightarrow> int \<Rightarrow> tensor option" where
  "pa_keys_of layer a = (\<lambda>bid. map_option fe_k (dget (pa_store a) (layer, bid)))"

definition pa_logits :: "numpy \<Rightarrow> real \<Rightarrow> tensor \<Rightarrow> int \<Rightarrow> int list \<Rightarrow> nat \<Rightarrow> phys_adapter \<Rightarrow> real list list res" where
  "pa_logits np scale q layer ids heads a =
     (if ids = [] then Inr (replicate heads [])
      else rbind (seq_res (map (\<lambda>bid. case pa_keys_of layer a bid of
               None \<Rightarrow> Inl KeyError | Some k \<Rightarrow> head_logits np scale q k) ids)) hcat)"

definition pa_logit_size :: "numpy \<Rightarrow> tensor \<Rightarrow> int \<Rightarrow> int list \<Rightarrow> phys_adapter \<Rightarrow> nat" where
  "pa_logit_size np q layer ids a =
     (let dts = map (\<lambda>bid. case pa_keys_of layer a bid of
                  None \<Rightarrow> Float32 | Some k \<Rightarrow> np_promote np (np_promote np (elem_type q) (elem_type k)) Float32) ids
      in itemsize (case dts of [] \<Rightarrow> Float32 | d # ds \<Rightarrow> fold (np_promote np) ds d))"

text \<open>Four arrays in every case: an empty layer answers with empty ones, charging nothing.\<close>

definition pa_topk ::
    "numpy \<Rightarrow> c_kernel option \<Rightarrow> tensor \<Rightarrow> int \<Rightarrow> int \<Rightarrow> (phys_adapter, topk_answer) meth" where
  "pa_topk np kern q layer top_k =
     sbind (sread (pa_layer_blocks layer)) (\<lambda>pbs.
     if pbs = []
     then sbind (slift (dim_of 0 q)) (\<lambda>heads.
          sret (TopkHits [] (zeros [0, 0, 0, 0] (elem_type q)) (replicate heads []) []))
     else (let n = int (length pbs); eff = min top_k n;
               bs = map (\<lambda>(bid, e). (bid, flash_entry.truncate e)) pbs
           in sthen (supd (\<lambda>a. a\<lparr>pa_h2d := pa_h2d a + int (nbytes q)\<rparr>))
             (sthen (pa_charge_pcie (int (nbytes q)))
             (sbind (sfor (pa_charge_block layer) (map (\<lambda>(bid, e). (bid, int (nbytes (fe_k e)), pe_gid e)) pbs) []) (\<lambda>kgids.
              sthen (pa_charge_batch kgids)
             (sbind (slift (dim_of 0 (fe_k (snd (hd pbs))))) (\<lambda>tpb.
              sbind (slift (dim_of 0 q)) (\<lambda>heads.
              sbind (slift (dim_of 1 q)) (\<lambda>hdim.
             (let macs = n * int tpb * int heads * int hdim; scale = 1 / sqrt (real hdim)
              in sthen (supd (\<lambda>a. a\<lparr>pa_macs := pa_macs a + macs, pa_time := pa_time a + of_int macs / (19.2 * 1000)\<rparr>))
                (sbind (slift (case kern of Some kf \<Rightarrow> Inr (kf q bs eff) | None \<Rightarrow> select_blocks np scale q bs eff))
                   (\<lambda>(ids, vals, scores).
                 sbind (sfor (pa_charge_value layer) ids []) (\<lambda>vgids.
                 sthen (pa_charge_batch vgids)
                (sbind (sread (pa_logits np scale q layer ids heads)) (\<lambda>lr.
                 sbind (slift lr) (\<lambda>logits.
                 sbind (sread (pa_logit_size np q layer ids)) (\<lambda>ls.
                (let out = int (nbytes vals) + int (ls * sum_list (map length logits)) + 4 * int (length scores) +
                           4 * int (length ids)
                 in sthen (supd (\<lambda>a. a\<lparr>pa_d2h := pa_d2h a + out\<rparr>))
                   (sthen (pa_charge_pcie out)
                   (sthen (pa_record_event ''IN_STORAGE_TOPK'' layer ids out)
                    (sret (TopkHits ids vals logits scores))))))))))))))))))))))"

section \<open>Telemetry\<close>

record pa_telemetry =
  pt_h2d :: int
  pt_d2h :: int
  pt_pcie :: int
  pt_flash_rd :: int
  pt_flash_wr :: int
  pt_dram_rd :: int
  pt_dram_wr :: int
  pt_macs :: int
  pt_rd_ops :: int
  pt_wr_ops :: int
  pt_time_us :: real
  pt_time_ms :: real
  pt_energy :: energy_report
  pt_mode :: string

definition pa_get_telemetry :: "phys_adapter \<Rightarrow> pa_telemetry" where
  "pa_get_telemetry a = \<lparr>pt_h2d = pa_h2d a, pt_d2h = pa_d2h a, pt_pcie = pa_h2d a + pa_d2h a,
     pt_flash_rd = pa_flash_rd a, pt_flash_wr = pa_flash_wr a, pt_dram_rd = pa_dram_rd a, pt_dram_wr = pa_dram_wr a,
     pt_macs = pa_macs a, pt_rd_ops = pa_rd_ops a, pt_wr_ops = pa_wr_ops a, pt_time_us = pa_time a,
     pt_time_ms = pa_time a / 1000,
     pt_energy = calculate_energy_joules (pa_energy a) 0 (pa_h2d a + pa_d2h a) (pa_dram_rd a + pa_dram_wr a)
        (pa_flash_rd a) (pa_flash_wr a) (pa_macs a),
     pt_mode = pa_mode a\<rparr>"

text \<open>The event log is kept.\<close>

definition pa_reset_telemetry :: "phys_adapter \<Rightarrow> phys_adapter" where
  "pa_reset_telemetry a = a\<lparr>pa_h2d := 0, pa_d2h := 0, pa_flash_rd := 0, pa_flash_wr := 0, pa_dram_rd := 0,
     pa_dram_wr := 0, pa_macs := 0, pa_rd_ops := 0, pa_wr_ops := 0, pa_time := 0\<rparr>"

section \<open>A tensor-aware simulator never fails\<close>

text \<open>
  The FTL counts on four dies per channel. When the channels have them, every store succeeds:
  it gives the block a location on the channel its coordinates name, and moves no other block.
\<close>

definition die_counts :: "flash_channel list \<Rightarrow> nat list" where
  "die_counts chs = map (length \<circ> dies) chs"

lemma same_pages_counts: "same_pages chs chs' \<Longrightarrow> die_counts chs' = die_counts chs"
proof -
  assume "same_pages chs chs'"
  then have "map length (map (map planes \<circ> dies) chs') = map length (map (map planes \<circ> dies) chs)"
    by (simp add: same_pages_def)
  then show ?thesis by (simp add: die_counts_def comp_def)
qed

lemma program_page_counts: "die_counts (program_page bid p chs) = die_counts chs"
  by (simp add: die_counts_def program_page_channels)

lemma map_block_counts: "get_block chs ch die pl blk \<noteq> None \<Longrightarrow> die_counts (map_block u ch die pl blk chs) = die_counts chs"
  by (auto simp: die_counts_def map_block_def Let_def map_update comp_def get_block_def bind_eq_Some_conv
      intro!: list_update_same_conv [THEN iffD2] dest!: at_SomeD simp: in_range_def nat_less_iff)

lemma read_page_counts: "die_counts (read_page p chs) = die_counts chs"
proof (cases p)
  case (fields ch die pl blk pg)
  then show ?thesis
    by (auto simp: read_page_def split: option.split intro!: map_block_counts dest!: get_page_block)
qed

definition ta_sim_ok :: "simulator \<Rightarrow> bool" where
  "ta_sim_ok s \<longleftrightarrow> (\<exists>f. ftl (allocator s) = Tensor f \<and> geometry_ok (geom f) \<and>
     channels (geom f) = num_channels s \<and> dies_per_channel (geom f) = SSD_DIES_PER_CHANNEL) \<and>
     (\<forall>n\<in>set (die_counts (sim_channels s)). SSD_DIES_PER_CHANNEL \<le> int n)"

lemma new_sim_ta_ok:
  assumes "0 < c" "SSD_DIES_PER_CHANNEL \<le> nd"
  shows "ta_sim_ok (new_simulator ''tensor_aware'' c nd npl nblk)"
  using assms
  by (auto simp: ta_sim_ok_def new_simulator_def new_allocator_def new_tensor_ftl_def geometry_ok_def
      geometry_const_defs die_counts_def new_channel_def)

lemma schedule_write_total:
  assumes "in_range die (dies (chs ! nat ch))"
  shows "\<exists>chs'. schedule_write ch die chs = (Inr (), chs')"
  using assms by (simp add: schedule_write_def Let_def schedule_transfer_def)

lemma sim_store_ta:
  assumes ok: "ta_sim_ok s"
  shows "\<exists>loc b' s'. sim_store_block b s = (Inr (loc, b'), s') \<and> ta_sim_ok s' \<and>
    num_channels s' = num_channels s \<and> latency s' = latency s \<and>
    sim_get_location (block_id b) s' = Some loc \<and> loc \<noteq> [] \<and>
    extract_channel loc = (token_block_idx b + token_block_idx b div num_channels s + kv_head_start b) mod num_channels s \<and>
    (\<forall>i. i \<noteq> block_id b \<longrightarrow> sim_get_location i s' = sim_get_location i s)"
proof -
  from ok obtain f where f: "ftl (allocator s) = Tensor f" and g: "geometry_ok (geom f)"
    and gc: "channels (geom f) = num_channels s" "dies_per_channel (geom f) = SSD_DIES_PER_CHANNEL"
    and dc: "\<And>n. n \<in> set (die_counts (sim_channels s)) \<Longrightarrow> SSD_DIES_PER_CHANNEL \<le> int n"
    by (auto simp: ta_sim_ok_def)
  let ?b1 = "b\<lparr>storage_tier := ''SSD''\<rparr>"
  let ?p = "ta_place (geom f) (channel_counters f) ?b1"
  obtain b2 f' where al: "ta_allocate ?b1 f = (Inr (location_str ?p, b2), f')" and gf: "geom f' = geom f"
    and tr: "translate (block_id b) f' = Some (location_str ?p)"
      "\<forall>i. i \<noteq> block_id b \<longrightarrow> translate i f' = translate i f"
    using ta_allocate_step [OF g, of ?b1] by auto
  have pok: "coord_ok (geom f) ?p" by (rule ta_place_ok [OF g])
  note parse = parse_location_str [OF coord_ok_phys [OF pok]]
  obtain ch die pl blk pg where pc: "?p = (ch, die, pl, blk, pg)" by (cases ?p) auto
  have chan: "extract_channel (location_str ?p) =
      (token_block_idx b + token_block_idx b div num_channels s + kv_head_start b) mod num_channels s"
  proof -
    have "extract_channel (location_str ?p) = fst ?p" by (rule extract_channel_str [OF coord_ok_phys [OF pok]])
    also have "\<dots> = ta_channel (geom f) (kv_head_start b) (token_block_idx b)"
      by (simp add: ta_place_def Let_def token_block_idx_def block_tokens_def)
    also have "\<dots> = (token_block_idx b + token_block_idx b div num_channels s + kv_head_start b) mod num_channels s"
      by (simp only: ta_channel_def gc ac_simps)
    finally show ?thesis .
  qed
  let ?a = "\<lambda>st. (allocator s)\<lparr>ftl := Tensor f', stored_blocks := st\<rparr>"
  have "\<exists>chs' st. sim_store_block b s = (Inr (location_str ?p, b2), s\<lparr>allocator := ?a st, sim_channels := chs'\<rparr>) \<and>
      die_counts chs' = die_counts (sim_channels s)"
  proof (cases "in_range ch (sim_channels s)")
    case True
    let ?chs = "program_page (block_id b) ?p (sim_channels s)"
    have len: "length ?chs = length (sim_channels s)"
      using program_page_counts [of "block_id b" ?p "sim_channels s"] unfolding die_counts_def by (metis length_map)
    with True have r: "in_range ch ?chs" by (simp add: in_range_def)
    then have "length (dies (?chs ! nat ch)) \<in> set (die_counts ?chs)"
      by (auto simp: die_counts_def in_range_def nat_less_iff intro!: image_eqI [of _ _ "?chs ! nat ch"])
    then have "SSD_DIES_PER_CHANNEL \<le> int (length (dies (?chs ! nat ch)))"
      using dc by (simp add: program_page_counts)
    moreover have "0 \<le> die \<and> die < SSD_DIES_PER_CHANNEL" using pok pc gc by (simp add: coord_ok_def)
    ultimately have "in_range die (dies (?chs ! nat ch))" by (simp add: in_range_def)
    then obtain chs' where w: "schedule_write ch die ?chs = (Inr (), chs')"
      using schedule_write_total by blast
    have "die_counts chs' = die_counts (sim_channels s)"
      using same_pages_counts [OF schedule_write_pages [OF w r]] by (simp add: program_page_counts)
    then show ?thesis using al parse True w
      by (intro exI [of _ chs'] exI [of _ "dset (block_id b2) b2 (stored_blocks (allocator s))"])
        (simp add: sim_store_block_def alloc_store_block_def f pc Let_def)
  next
    case False
    then show ?thesis using al parse
      by (intro exI [of _ "sim_channels s"] exI [of _ "dset (block_id b2) b2 (stored_blocks (allocator s))"])
        (simp add: sim_store_block_def alloc_store_block_def f pc Let_def)
  qed
  then obtain chs' st where st: "sim_store_block b s = (Inr (location_str ?p, b2), s\<lparr>allocator := ?a st, sim_channels := chs'\<rparr>)"
    and dcs: "die_counts chs' = die_counts (sim_channels s)" by blast
  let ?s' = "s\<lparr>allocator := ?a st, sim_channels := chs'\<rparr>"
  have "ta_sim_ok ?s'" using ok g gf gc dcs by (auto simp: ta_sim_ok_def)
  then show ?thesis using st tr chan location_str_nonempty [of ?p]
    by (intro exI [of _ "location_str ?p"] exI [of _ b2] exI [of _ ?s'])
      (simp add: sim_get_location_def alloc_get_location_def f)
qed

text \<open>Batch reads: the locations that count, and what stays.\<close>

definition sim_locs :: "int list \<Rightarrow> simulator \<Rightarrow> string list" where
  "sim_locs ids s = concat (map (\<lambda>i. case sim_get_location i s of
     None \<Rightarrow> [] | Some l \<Rightarrow> if l = [] then [] else [l]) ids)"

lemma sim_get_location_cong: "allocator s' = allocator s \<Longrightarrow> sim_get_location i s' = sim_get_location i s"
  by (simp add: sim_get_location_def)

lemma sim_issue_read_counts:
  assumes "sim_issue_read i s = (ls, s')"
  shows "die_counts (sim_channels s') = die_counts (sim_channels s) \<and> ls = sim_locs [i] s"
  using assms
  by (auto simp: sim_issue_read_def sim_locs_def Let_def same_pages_counts [OF same_pages_enqueue] read_page_counts
      split: option.splits if_splits)

lemma sim_issue_reads_counts:
  "sim_issue_reads is s = (ls, s') \<Longrightarrow>
   die_counts (sim_channels s') = die_counts (sim_channels s) \<and> ls = sim_locs is s"
proof (induction "is" arbitrary: s ls)
  case (Cons i "is")
  obtain l s1 where a: "sim_issue_read i s = (l, s1)" by fastforce
  obtain ls2 where b: "sim_issue_reads is s1 = (ls2, s')" "ls = l @ ls2"
    using Cons.prems a by (auto split: prod.splits)
  have "sim_locs is s1 = sim_locs is s"
    using sim_issue_read_frame [OF a] by (simp add: sim_locs_def sim_get_location_cong [of s1 s])
  with Cons.IH [OF b(1)] sim_issue_read_counts [OF a] b(2) show ?case by (simp add: sim_locs_def)
qed (simp add: sim_locs_def)

lemma sim_estimate_ok:
  assumes "sim_estimate_read_latency ids s = (u, s')"
  shows "u = calculate_batch_read_latency (latency s) (sim_locs ids s) \<and> allocator s' = allocator s \<and>
    num_channels s' = num_channels s \<and> latency s' = latency s \<and> (ta_sim_ok s \<longrightarrow> ta_sim_ok s')"
proof -
  obtain ls s1 where r: "sim_issue_reads ids s = (ls, s1)" by fastforce
  let ?chs = "map (\<lambda>c. snd (process_queue 0 c)) (sim_channels s1)"
  have s': "u = calculate_batch_read_latency (latency s) ls" "s' = s1\<lparr>sim_channels := ?chs\<rparr>"
    using assms by (simp_all add: sim_estimate_read_latency_def r)
  have "die_counts ?chs = die_counts (sim_channels s1)"
    by (intro same_pages_counts same_pages_map process_queue_planes)
  with s' sim_issue_reads_frame [OF r] sim_issue_reads_counts [OF r] show ?thesis
    by (auto simp: ta_sim_ok_def)
qed

section \<open>What the adapter keeps\<close>

definition pa_lookup :: "phys_adapter \<Rightarrow> int \<times> int \<Rightarrow> (tensor \<times> tensor) option" where
  "pa_lookup a = (\<lambda>j. map_option (\<lambda>e. (fe_k e, fe_v e)) (dget (pa_store a) j))"

definition located :: "int \<Rightarrow> simulator \<Rightarrow> bool" where
  "located gid s \<longleftrightarrow> (\<exists>loc. sim_get_location gid s = Some loc \<and> loc \<noteq> [])"

text \<open>The simulator knows where every stored block is, under the id the adapter keeps for it.\<close>

definition pa_placed :: "phys_adapter \<Rightarrow> bool" where
  "pa_placed a \<longleftrightarrow> (\<forall>j e. dget (pa_store a) j = Some e \<longrightarrow>
     pe_gid e = encode_global_block_id (fst j) (snd j) \<and> dget (pa_gids a) j = Some (pe_gid e) \<and>
     located (pe_gid e) (pa_sim a))"

lemma pa_placedD:
  "pa_placed a \<Longrightarrow> dget (pa_store a) j = Some e \<Longrightarrow> pe_gid e = encode_global_block_id (fst j) (snd j) \<and>
     dget (pa_gids a) j = Some (pe_gid e) \<and> located (pe_gid e) (pa_sim a)"
  unfolding pa_placed_def by blast

definition pa_inv :: "phys_adapter \<Rightarrow> bool" where
  "pa_inv a \<longleftrightarrow> flash_timing_ok (pa_timing a) \<and> 0 < pa_channels a \<and> ta_sim_ok (pa_sim a) \<and> num_channels (pa_sim a) = pa_channels a \<and>
     pa_placed a \<and> pa_cache a \<subseteq> dom (pa_lookup a) \<and> pa_used a \<le> pa_capacity a \<and> dict_ok (pa_store a)"

definition pa_same :: "(int \<times> int \<Rightarrow> (tensor \<times> tensor) option) \<Rightarrow> phys_adapter \<Rightarrow> bool" where
  "pa_same L a \<longleftrightarrow> pa_inv a \<and> pa_lookup a = L"

lemmas pa_keep_defs = pa_same_def pa_inv_def pa_lookup_def pa_placed_def

lemma pa_same_frame:
  assumes "pa_same L a" "pa_timing a' = pa_timing a" "pa_channels a' = pa_channels a" "pa_sim a' = pa_sim a"
    "pa_store a' = pa_store a" "pa_gids a' = pa_gids a" "pa_cache a' = pa_cache a" "pa_used a' = pa_used a"
    "pa_capacity a' = pa_capacity a"
  shows "pa_same L a'"
  using assms(1) unfolding pa_keep_defs assms(2-) .

lemma pa_same_cache:
  assumes "pa_same L a" "pa_timing a' = pa_timing a" "pa_channels a' = pa_channels a" "pa_sim a' = pa_sim a"
    "pa_store a' = pa_store a" "pa_gids a' = pa_gids a" "pa_capacity a' = pa_capacity a"
    "pa_cache a' \<subseteq> dom L" "pa_used a' \<le> pa_capacity a"
  shows "pa_same L a'"
proof -
  have "pa_lookup a' = pa_lookup a" "pa_placed a' = pa_placed a" by (simp_all add: pa_lookup_def pa_placed_def assms)
  with assms show ?thesis by (auto simp: pa_same_def pa_inv_def)
qed

lemma pa_same_sim:
  assumes "pa_same L a" "allocator s = allocator (pa_sim a)" "num_channels s = num_channels (pa_sim a)" "ta_sim_ok s"
  shows "pa_same L (a\<lparr>pa_sim := s\<rparr>)"
proof -
  have "located i s = located i (pa_sim a)" for i
    by (simp add: located_def sim_get_location_cong [OF assms(2)])
  then have "pa_placed (a\<lparr>pa_sim := s\<rparr>) = pa_placed a" by (simp add: pa_placed_def)
  moreover have "pa_lookup (a\<lparr>pa_sim := s\<rparr>) = pa_lookup a" by (simp add: pa_lookup_def)
  ultimately show ?thesis using assms by (auto simp: pa_same_def pa_inv_def)
qed

lemma pa_same_upd:
  assumes "\<And>a. pa_timing (h a) = pa_timing a \<and> pa_channels (h a) = pa_channels a \<and> pa_sim (h a) = pa_sim a \<and>
    pa_store (h a) = pa_store a \<and> pa_gids (h a) = pa_gids a \<and> pa_cache (h a) = pa_cache a \<and>
    pa_used (h a) = pa_used a \<and> pa_capacity (h a) = pa_capacity a"
  shows "keeps (pa_same L) (supd h)"
  by (intro keeps_supd) (erule pa_same_frame; simp add: assms)

lemma pa_read_latency_run:
  "\<exists>s'. pa_read_latency gids a = (Inr (calculate_batch_read_latency (latency (pa_sim a)) (sim_locs gids (pa_sim a))),
      a\<lparr>pa_sim := s'\<rparr>) \<and> allocator s' = allocator (pa_sim a) \<and> num_channels s' = num_channels (pa_sim a) \<and>
      latency s' = latency (pa_sim a) \<and> (ta_sim_ok (pa_sim a) \<longrightarrow> ta_sim_ok s')"
proof -
  obtain u s' where e: "sim_estimate_read_latency gids (pa_sim a) = (u, s')" by fastforce
  with sim_estimate_ok [OF e] show ?thesis by (auto simp: pa_read_latency_def)
qed

lemma pa_read_latency_keeps [inv_intros]: "keeps (pa_same L) (pa_read_latency gids)"
  unfolding keeps_def
proof (intro allI impI)
  fix a assume "pa_same L a"
  then have "pa_same L a" "ta_sim_ok (pa_sim a)" by (auto simp: pa_same_def pa_inv_def)
  with pa_read_latency_run [of gids a] show "pa_same L (snd (pa_read_latency gids a))"
    by (elim exE conjE) (simp add: pa_same_sim)
qed

lemma pa_charge_pcie_keeps [inv_intros]: "keeps (pa_same L) (pa_charge_pcie n)"
  unfolding pa_charge_pcie_def by (intro inv_intros pa_same_upd) simp

lemma pa_charge_batch_keeps [inv_intros]: "keeps (pa_same L) (pa_charge_batch gids)"
  unfolding pa_charge_batch_def by (intro inv_intros pa_same_upd) simp

lemma pa_record_event_keeps [inv_intros]: "keeps (pa_same L) (pa_record_event op layer ids n)"
  unfolding pa_record_event_def by (intro inv_intros pa_same_upd) simp

lemma pa_charge_block_keeps [inv_intros]: "keeps (pa_same L) (pa_charge_block layer x gids)"
  unfolding pa_charge_block_def by (cases x) (auto intro!: inv_intros pa_same_upd)

lemma pa_charge_value_keeps [inv_intros]: "keeps (pa_same L) (pa_charge_value layer bid gids)"
  unfolding pa_charge_value_def Let_def by (auto intro!: inv_intros pa_same_upd split: option.split)

lemma pa_topk_keeps: "keeps (pa_same L) (pa_topk np kern q layer k)"
  unfolding pa_topk_def Let_def
  by (intro inv_intros allI; (auto intro!: inv_intros pa_same_upd split: prod.split option.split)?;
      (erule pa_same_frame; simp)?)

lemma pa_stage_keeps [inv_intros]: "keeps (pa_same L) (pa_stage layer bid acc)"
proof -
  have "pa_same L (snd (pa_stage layer bid acc a))" if same: "pa_same L a" for a
  proof (cases "\<exists>e. dget (pa_store a) (layer, bid) = Some e \<and> (layer, bid) \<notin> pa_cache a \<and>
      pa_used a + (int (nbytes (fe_k e)) + int (nbytes (fe_v e))) \<le> pa_capacity a")
    case True
    then obtain e where e: "dget (pa_store a) (layer, bid) = Some e" "(layer, bid) \<notin> pa_cache a"
      "pa_used a + (int (nbytes (fe_k e)) + int (nbytes (fe_v e))) \<le> pa_capacity a" by blast
    then have "(layer, bid) \<in> dom (pa_lookup a)" by (simp add: pa_lookup_def dom_def)
    with same have "(layer, bid) \<in> dom L" "pa_cache a \<subseteq> dom L" by (auto simp: pa_same_def pa_inv_def)
    with e have "pa_same L (a\<lparr>pa_cache := insert (layer, bid) (pa_cache a),
        pa_used := pa_used a + (int (nbytes (fe_k e)) + int (nbytes (fe_v e))),
        pa_flash_rd := pa_flash_rd a + (int (nbytes (fe_k e)) + int (nbytes (fe_v e))), pa_rd_ops := pa_rd_ops a + 1\<rparr>)"
      by (intro pa_same_cache [OF same]) simp_all
    with e show ?thesis by (simp add: pa_stage_def Let_def)
  next
    case False
    then show ?thesis using same
      by (cases "dget (pa_store a) (layer, bid)"; cases "(layer, bid) \<in> pa_cache a") (auto simp: pa_stage_def Let_def)
  qed
  then show ?thesis by (simp add: keeps_def)
qed

lemma pa_prefetch_keeps: "keeps (pa_same L) (pa_prefetch_kv ids layer)"
  unfolding pa_prefetch_kv_def by (intro inv_intros)

lemma pa_load_keeps: "keeps (pa_same L) (pa_load_kv bid layer)"
  unfolding pa_load_kv_def Let_def
  by (intro inv_intros; auto intro!: inv_intros pa_same_upd split: option.split)

lemma pa_charge_pcie_run:
  "flash_timing_ok (pa_timing a) \<Longrightarrow> \<exists>u. pa_charge_pcie n a = (Inr (), a\<lparr>pa_time := u\<rparr>)"
  using pcie_time_total [of "pa_timing a" n] by (auto simp: pa_charge_pcie_def)

lemma pa_load_result:
  assumes "flash_timing_ok (pa_timing a)"
  shows "fst (pa_load_kv bid layer a) = (case pa_lookup a (layer, bid) of None \<Rightarrow> Inl KeyError | Some kv \<Rightarrow> Inr kv)"
proof (cases "dget (pa_store a) (layer, bid)")
  case None
  then show ?thesis by (simp add: pa_load_kv_def pa_lookup_def)
next
  case (Some e)
  obtain s' where r: "pa_read_latency [pe_gid e] a =
      (Inr (calculate_batch_read_latency (latency (pa_sim a)) (sim_locs [pe_gid e] (pa_sim a))), a\<lparr>pa_sim := s'\<rparr>)"
    using pa_read_latency_run by blast
  have p: "fst (sthen (pa_charge_pcie n) (sthen (pa_record_event op l ids m) (sret x)) b) = Inr x"
    if t: "pa_timing b = pa_timing a" for n op l ids m b and x :: "tensor \<times> tensor"
  proof -
    obtain u where "pa_charge_pcie n b = (Inr (), b\<lparr>pa_time := u\<rparr>)"
      using pa_charge_pcie_run [of b n] assms t by auto
    then show ?thesis by (simp add: meth_run(2) pa_record_event_def)
  qed
  show ?thesis using Some r
    by (cases "(layer, bid) \<in> pa_cache a") (simp_all add: pa_load_kv_def Let_def pa_lookup_def meth_run(2) [of "sbind _ _"]
        meth_run(1) [of "pa_read_latency _"] p)
qed

lemma pa_sim_store_run:
  assumes "ta_sim_ok (pa_sim a)"
  shows "\<exists>s'. pa_sim_store b a = (Inr (), a\<lparr>pa_sim := s'\<rparr>) \<and> ta_sim_ok s' \<and> num_channels s' = num_channels (pa_sim a) \<and>
    latency s' = latency (pa_sim a) \<and> (\<forall>i. i = block_id b \<or> located i (pa_sim a) \<longrightarrow> located i s') \<and>
    (\<exists>loc. loc \<noteq> [] \<and> sim_get_location (block_id b) s' = Some loc \<and> extract_channel loc =
       (token_block_idx b + token_block_idx b div num_channels (pa_sim a) + kv_head_start b) mod num_channels (pa_sim a)) \<and>
    (\<forall>i. i \<noteq> block_id b \<longrightarrow> sim_get_location i s' = sim_get_location i (pa_sim a))"
proof -
  from sim_store_ta [OF assms, of b] obtain loc b' s' where st: "sim_store_block b (pa_sim a) = (Inr (loc, b'), s')"
    and r: "ta_sim_ok s'" "num_channels s' = num_channels (pa_sim a)" "latency s' = latency (pa_sim a)"
      "sim_get_location (block_id b) s' = Some loc" "loc \<noteq> []"
      "extract_channel loc = (token_block_idx b + token_block_idx b div num_channels (pa_sim a) + kv_head_start b) mod
         num_channels (pa_sim a)"
      "\<forall>i. i \<noteq> block_id b \<longrightarrow> sim_get_location i s' = sim_get_location i (pa_sim a)"
    by blast
  have "located i s'" if "i = block_id b \<or> located i (pa_sim a)" for i
    using that r(4,5,7) by (cases "i = block_id b") (auto simp: located_def)
  with r show ?thesis by (intro exI [of _ s']) (simp add: pa_sim_store_def st)
qed

lemma pa_store_ok:
  fixes bid layer :: int and k v :: tensor
  assumes inv: "pa_inv a"
  defines "gid \<equiv> encode_global_block_id layer bid" and "dm \<equiv> pa_meta bid layer k"
  shows "\<exists>a'. pa_store_kv bid layer k v md a = (Inr True, a') \<and> pa_inv a' \<and>
    pa_lookup a' = (pa_lookup a)((layer, bid) \<mapsto> (k, v)) \<and>
    pa_cache a' = pa_cache a \<and> pa_used a' = pa_used a \<and> pa_capacity a' = pa_capacity a \<and> pa_channels a' = pa_channels a \<and>
    latency (pa_sim a') = latency (pa_sim a) \<and>
    (\<forall>i. i \<noteq> gid \<longrightarrow> sim_get_location i (pa_sim a') = sim_get_location i (pa_sim a)) \<and>
    (\<exists>loc. loc \<noteq> [] \<and> sim_get_location gid (pa_sim a') = Some loc \<and> (md = None \<longrightarrow> extract_channel loc =
       (let t = token_block_idx (p2_block gid layer dm (itemsize (elem_type k)) k v)
        in (t + t div pa_channels a) mod pa_channels a)))"
proof -
  let ?n = "int (nbytes k) + int (nbytes v)"
  let ?start = "case md of Some m \<Rightarrow> km_token_start m | None \<Rightarrow> km_token_start dm"
  let ?b = "p2_block gid layer (dm\<lparr>km_token_start := ?start\<rparr>) (itemsize (elem_type k)) k v"
  let ?e = "\<lparr>fe_k = k, fe_v = v, fe_meta = (case md of Some m \<Rightarrow> m | None \<Rightarrow> dm), pe_gid = gid\<rparr>"
  have t: "flash_timing_ok (pa_timing a)" and s: "ta_sim_ok (pa_sim a)" "num_channels (pa_sim a) = pa_channels a"
    using inv by (simp_all add: pa_inv_def)
  obtain pu wu where u: "calculate_pcie_transfer_time_us (pa_timing a) ?n = Inr pu"
    "calculate_flash_write_time_us (pa_timing a) ?n = Inr wu"
    using pcie_time_total [OF t] write_time_total [OF t] by blast
  let ?a1 = "a\<lparr>pa_h2d := pa_h2d a + ?n, pa_gids := dset (layer, bid) gid (pa_gids a)\<rparr>"
  obtain s' where s': "pa_sim_store ?b ?a1 = (Inr (), ?a1\<lparr>pa_sim := s'\<rparr>)" "ta_sim_ok s'"
    "num_channels s' = pa_channels a" "latency s' = latency (pa_sim a)"
    and loc: "\<And>i. i = gid \<or> located i (pa_sim a) \<Longrightarrow> located i s'"
      "\<exists>loc. loc \<noteq> [] \<and> sim_get_location gid s' = Some loc \<and> extract_channel loc =
         (token_block_idx ?b + token_block_idx ?b div pa_channels a) mod pa_channels a"
      "\<And>i. i \<noteq> gid \<Longrightarrow> sim_get_location i s' = sim_get_location i (pa_sim a)"
    using pa_sim_store_run [of ?a1 ?b] s by (auto simp: p2_block_def)
  let ?a' = "?a1\<lparr>pa_sim := s', pa_flash_wr := pa_flash_wr a + ?n, pa_wr_ops := pa_wr_ops a + 1,
      pa_time := pa_time a + (pu + wu), pa_store := dset (layer, bid) ?e (pa_store a)\<rparr>"
  have run: "pa_store_kv bid layer k v md a = (Inr True, ?a')"
    using u s'(1) by (simp add: pa_store_kv_def Let_def gid_def [symmetric] dm_def [symmetric] meth_run(2) [of "pa_sim_store _"])
  have look: "pa_lookup ?a' = (pa_lookup a)((layer, bid) \<mapsto> (k, v))"
    by (auto simp: pa_lookup_def fun_eq_iff dict_simps)
  have "pe_gid e = encode_global_block_id (fst j) (snd j) \<and> dget (pa_gids ?a') j = Some (pe_gid e) \<and>
      located (pe_gid e) (pa_sim ?a')" if "dget (pa_store ?a') j = Some e" for j e
  proof (cases "j = (layer, bid)")
    case True
    with that have "e = ?e" by (simp add: dict_simps)
    with True loc(1) [of gid] show ?thesis by (simp add: dict_simps gid_def)
  next
    case False
    with that have "dget (pa_store a) j = Some e" by (simp add: dict_simps)
    moreover have "pa_placed a" using inv by (simp add: pa_inv_def)
    ultimately have "pe_gid e = encode_global_block_id (fst j) (snd j) \<and> dget (pa_gids a) j = Some (pe_gid e) \<and>
        located (pe_gid e) (pa_sim a)"
      by (intro pa_placedD)
    with False loc(1) [of "pe_gid e"] show ?thesis by (auto simp: dict_simps)
  qed
  then have "pa_placed ?a'" unfolding pa_placed_def by blast
  moreover have "pa_cache a \<subseteq> dom (pa_lookup a)" using inv by (simp add: pa_inv_def)
  ultimately have "pa_inv ?a'" using inv s' look by (auto simp: pa_inv_def)
  moreover have "dm\<lparr>km_token_start := km_token_start dm\<rparr> = dm" by simp
  ultimately show ?thesis using run look loc(2,3) s'(4)
    by (intro exI [of _ ?a']) (auto simp: Let_def)
qed

lemma pa_evict_ok:
  assumes inv: "pa_inv a"
  shows "pa_inv (snd (pa_evict_kv bid layer a)) \<and>
    fst (pa_evict_kv bid layer a) = Inr (pa_lookup a (layer, bid) \<noteq> None) \<and>
    pa_lookup (snd (pa_evict_kv bid layer a)) = (pa_lookup a)((layer, bid) := None)"
proof (cases "dmem (layer, bid) (pa_store a)")
  case True
  let ?a' = "a\<lparr>pa_store := dpop (layer, bid) (pa_store a), pa_cache := pa_cache a - {(layer, bid)},
      pa_gids := dpop (layer, bid) (pa_gids a)\<rparr>"
  have look: "pa_lookup ?a' = (pa_lookup a)((layer, bid) := None)"
    by (auto simp: pa_lookup_def fun_eq_iff dict_simps)
  have pl: "pa_placed a" using inv by (simp add: pa_inv_def)
  have "pe_gid e = encode_global_block_id (fst j) (snd j) \<and> dget (pa_gids ?a') j = Some (pe_gid e) \<and>
      located (pe_gid e) (pa_sim ?a')" if "dget (pa_store ?a') j = Some e" for j e
    using that pa_placedD [OF pl, of j e] by (auto simp: dict_simps split: if_splits)
  then have "pa_placed ?a'" unfolding pa_placed_def by blast
  moreover have "pa_cache a \<subseteq> dom (pa_lookup a)" using inv by (simp add: pa_inv_def)
  ultimately have "pa_inv ?a'" using inv look by (auto simp: pa_inv_def)
  with True look show ?thesis by (simp add: pa_evict_kv_def) (simp add: dmem_def pa_lookup_def)
next
  case False
  then have "pa_lookup a (layer, bid) = None" by (simp add: dmem_def pa_lookup_def)
  then have "pa_lookup a = (pa_lookup a)((layer, bid) := None)" by (simp add: fun_eq_iff)
  with False inv \<open>pa_lookup a (layer, bid) = None\<close> show ?thesis by (simp add: pa_evict_kv_def)
qed

text \<open>Rebuilding the simulator registers every stored block again.\<close>

lemma pa_register_all:
  assumes "ta_sim_ok (pa_sim a)" "\<forall>(j, e)\<in>set es. dget (pa_gids a) j = Some (pe_gid e)"
  shows "\<exists>s'. sfor pa_register es () a = (Inr (), a\<lparr>pa_sim := s'\<rparr>) \<and> ta_sim_ok s' \<and>
    num_channels s' = num_channels (pa_sim a) \<and>
    (\<forall>i. located i (pa_sim a) \<or> i \<in> (\<lambda>(j, e). pe_gid e) ` set es \<longrightarrow> located i s')"
  using assms
proof (induction es arbitrary: a)
  case Nil
  then show ?case by (intro exI [of _ "pa_sim a"]) simp
next
  case (Cons x es)
  obtain j e where x: "x = (j, e)" by (cases x)
  let ?b = "p2_block (pe_gid e) (fst j) (fe_meta e) (itemsize (km_dtype (fe_meta e))) (fe_k e) (fe_v e)"
  obtain s1 where s1: "pa_sim_store ?b a = (Inr (), a\<lparr>pa_sim := s1\<rparr>)" "ta_sim_ok s1"
    "num_channels s1 = num_channels (pa_sim a)" "\<And>i. i = pe_gid e \<or> located i (pa_sim a) \<Longrightarrow> located i s1"
    using pa_sim_store_run [OF Cons.prems(1), of ?b] by (auto simp: p2_block_def)
  have "pa_register x () a = (Inr (), a\<lparr>pa_sim := s1\<rparr>)" using Cons.prems(2) s1(1) by (simp add: x pa_register_def)
  moreover obtain s' where s': "sfor pa_register es () (a\<lparr>pa_sim := s1\<rparr>) = (Inr (), a\<lparr>pa_sim := s'\<rparr>)" "ta_sim_ok s'"
    "num_channels s' = num_channels s1" "\<And>i. located i s1 \<or> i \<in> (\<lambda>(j, e). pe_gid e) ` set es \<Longrightarrow> located i s'"
    using Cons.IH [of "a\<lparr>pa_sim := s1\<rparr>"] Cons.prems(2) s1(2) by auto
  ultimately show ?case using s1 by (intro exI [of _ s']) (auto simp: meth_run x)
qed

lemma pa_set_mode_ok:
  assumes "pa_same L a"
  shows "\<exists>a'. pa_set_mode ''tensor_aware'' a = (Inr (), a') \<and> pa_same L a'"
proof -
  let ?a1 = "a\<lparr>pa_mode := ''tensor_aware'',
      pa_sim := new_simulator ''tensor_aware'' (pa_channels a) SSD_DIES_PER_CHANNEL SSD_PLANES_PER_DIE 64\<rparr>"
  from assms have inv: "pa_inv a" and L: "pa_lookup a = L" by (simp_all add: pa_same_def)
  then have pl: "pa_placed a" and d: "dict_ok (pa_store a)" by (simp_all add: pa_inv_def)
  then have mem: "dget (pa_store a) j = Some e" if "(j, e) \<in> set (pa_store a)" for j e
    using that by (simp add: dict_ok_def)
  have "ta_sim_ok (pa_sim ?a1)" using inv by (simp add: new_sim_ta_ok pa_inv_def)
  moreover have "\<forall>(j, e)\<in>set (pa_store a). dget (pa_gids ?a1) j = Some (pe_gid e)"
    using mem pa_placedD [OF pl] by auto
  ultimately obtain s' where s': "sfor pa_register (pa_store a) () ?a1 = (Inr (), ?a1\<lparr>pa_sim := s'\<rparr>)"
    "ta_sim_ok s'" "num_channels s' = pa_channels a" "\<And>i. i \<in> (\<lambda>(j, e). pe_gid e) ` set (pa_store a) \<Longrightarrow> located i s'"
    using pa_register_all [of ?a1 "pa_store a"] by (auto simp: new_simulator_def)
  have run: "pa_set_mode ''tensor_aware'' a = (Inr (), ?a1\<lparr>pa_sim := s'\<rparr>)"
    using s'(1) by (simp add: pa_set_mode_def)
  have "located (pe_gid e) s'" if "dget (pa_store a) j = Some e" for j e
    using s'(4) that by (force dest: map_of_SomeD)
  then have "pa_placed (?a1\<lparr>pa_sim := s'\<rparr>)" using pl by (auto simp: pa_placed_def)
  moreover have "pa_lookup (?a1\<lparr>pa_sim := s'\<rparr>) = L" using L by (simp add: pa_lookup_def)
  ultimately have "pa_same L (?a1\<lparr>pa_sim := s'\<rparr>)" using inv L s'(2,3) by (auto simp: pa_same_def pa_inv_def)
  with run show ?thesis by blast
qed

section \<open>The adapter is a key-value store and a storage for tiering\<close>

datatype pa_query =
    PLoad int int
  | PPrefetch "int list" int
  | PTopk numpy "c_kernel option" tensor int int
  | PRebuild
  | PReset

fun pa_touch :: "pa_query \<Rightarrow> phys_adapter \<Rightarrow> phys_adapter" where
  "pa_touch (PLoad bid layer) a = snd (pa_load_kv bid layer a)"
| "pa_touch (PPrefetch ids layer) a = snd (pa_prefetch_kv ids layer a)"
| "pa_touch (PTopk np kern q layer k) a = snd (pa_topk np kern q layer k a)"
| "pa_touch PRebuild a = snd (pa_set_mode ''tensor_aware'' a)"
| "pa_touch PReset a = pa_reset_telemetry a"

fun pa_put :: "int \<times> int \<Rightarrow> tensor \<times> tensor \<times> kv_meta option \<Rightarrow> phys_adapter \<Rightarrow> phys_adapter" where
  "pa_put (layer, bid) (k, v, md) a = snd (pa_store_kv bid layer k v md a)"

fun pa_val :: "tensor \<times> tensor \<times> kv_meta option \<Rightarrow> tensor \<times> tensor" where
  "pa_val (k, v, md) = (k, v)"

fun pa_del :: "int \<times> int \<Rightarrow> phys_adapter \<Rightarrow> phys_adapter" where
  "pa_del (layer, bid) a = snd (pa_evict_kv bid layer a)"

lemma pa_touch_same:
  assumes "pa_same L a"
  shows "pa_same L (pa_touch c a)"
proof (cases c)
  case PRebuild
  with pa_set_mode_ok [OF assms] show ?thesis by auto
next
  case PReset
  have "pa_same L (pa_reset_telemetry a)" by (rule pa_same_frame [OF assms]) (simp_all add: pa_reset_telemetry_def)
  with PReset show ?thesis by simp
qed (use assms pa_load_keeps pa_prefetch_keeps pa_topk_keeps in \<open>simp_all add: keeps_def\<close>)

interpretation pa: kv_store pa_lookup pa_val pa_put pa_del pa_touch pa_inv "\<lambda>_. True"
proof (unfold_locales, goal_cases)
  case (1 s v k)
  then show ?case using pa_store_ok [where a = s and bid = "snd k" and layer = "fst k" and k = "fst v" and v = "fst (snd v)" and md = "snd (snd v)"]
    by (cases k, cases v) auto
next
  case (2 s v k)
  then show ?case using pa_store_ok [where a = s and bid = "snd k" and layer = "fst k" and k = "fst v" and v = "fst (snd v)" and md = "snd (snd v)"]
    by (cases k, cases v) auto
next
  case (3 s k)
  then show ?case using pa_evict_ok [of s "snd k" "fst k"] by (cases k) simp
next
  case (4 s k)
  then show ?case using pa_evict_ok [of s "snd k" "fst k"] by (cases k) simp
next
  case (5 s c)
  then show ?case using pa_touch_same [of "pa_lookup s" s c] by (simp add: pa_same_def)
next
  case (6 s c)
  then show ?case using pa_touch_same [of "pa_lookup s" s c] by (simp add: pa_same_def)
qed

definition pa_tier_store :: "phys_adapter store_fn" where
  "pa_tier_store bid layer k v a =
     (case pa_store_kv bid layer k v None a of (r, a') \<Rightarrow> (map_sum id (\<lambda>_. ()) r, a'))"

interpretation pat: tier_store pa_tier_store pa_load_kv pa_lookup pa_inv
proof (unfold_locales, goal_cases)
  case (1 s k v i layer)
  then show ?case using pa_store_ok [where a = s and bid = i and layer = layer and k = k and v = v and md = None] by (auto simp: pa_tier_store_def)
next
  case (2 s layer i k v)
  then have t: "flash_timing_ok (pa_timing s)" and same: "pa_same (pa_lookup s) s" by (simp_all add: pa_inv_def pa_same_def)
  obtain r s' where r: "pa_load_kv i layer s = (r, s')" by fastforce
  moreover have "r = Inr (k, v)" using pa_load_result [OF t, of i layer] 2(2) r by simp
  moreover have "pa_same (pa_lookup s) s'" using keepsD [OF pa_load_keeps same r] .
  ultimately show ?case by (auto simp: pa_same_def)
qed

section \<open>Global ids and stripes\<close>

lemma encode_arith: "encode_global_block_id layer bid = layer * 65536 + bid mod 65536"
proof -
  have m: "and bid 65535 = take_bit 16 bid" by (simp add: take_bit_eq_mask mask_eq_exp_minus_1 [of 16])
  have "bit (push_bit 16 layer) n \<longrightarrow> \<not> bit (take_bit 16 bid) n" for n
    by (simp add: bit_push_bit_iff bit_take_bit_iff)
  then have "or (push_bit 16 layer) (take_bit 16 bid) = push_bit 16 layer + take_bit 16 bid"
    by (intro disjunctive_add [symmetric]) auto
  then show ?thesis by (simp add: encode_global_block_id_def m push_bit_eq_mult take_bit_eq_mod)
qed

lemma encode_inj:
  "encode_global_block_id l b = encode_global_block_id l' b' \<longleftrightarrow> l = l' \<and> b mod 65536 = b' mod 65536"
proof
  assume "encode_global_block_id l b = encode_global_block_id l' b'"
  then have "l * 65536 + b mod 65536 = l' * 65536 + b' mod 65536" by (simp only: encode_arith)
  from mixed_radix_inj [OF this] show "l = l' \<and> b mod 65536 = b' mod 65536" by simp
qed (simp add: encode_arith)

definition pair_bytes :: "tensor \<times> tensor \<Rightarrow> int" where
  "pair_bytes kv = int (nbytes (fst kv)) + int (nbytes (snd kv))"

text \<open>Staging distinct stored blocks that fit stages all of them.\<close>

lemma pa_stage_all:
  assumes "pa_placed a" "distinct ids" "\<forall>i\<in>set ids. pa_lookup a (layer, i) = Some (kv i) \<and> (layer, i) \<notin> pa_cache a"
    and "pa_used a + (\<Sum>i\<leftarrow>ids. pair_bytes (kv i)) \<le> pa_capacity a"
  shows "\<exists>a'. sfor (pa_stage layer) ids (gs, n) a = (Inr (gs @ map (encode_global_block_id layer) ids, n + length ids), a') \<and>
    pa_sim a' = pa_sim a \<and> pa_time a' = pa_time a \<and> pa_cache a' = pa_cache a \<union> Pair layer ` set ids"
  using assms
proof (induction ids arbitrary: a gs n)
  case (Cons i ids)
  obtain e where e: "dget (pa_store a) (layer, i) = Some e" "kv i = (fe_k e, fe_v e)" "(layer, i) \<notin> pa_cache a"
    using Cons.prems(3) by (auto simp: pa_lookup_def)
  have gid: "pe_gid e = encode_global_block_id layer i" using pa_placedD [OF Cons.prems(1) e(1)] by simp
  have pos: "0 \<le> (\<Sum>i\<leftarrow>ids. pair_bytes (kv i))" by (intro sum_list_nonneg) (auto simp: pair_bytes_def)
  let ?n = "int (nbytes (fe_k e)) + int (nbytes (fe_v e))"
  let ?a1 = "a\<lparr>pa_cache := insert (layer, i) (pa_cache a), pa_used := pa_used a + ?n,
      pa_flash_rd := pa_flash_rd a + ?n, pa_rd_ops := pa_rd_ops a + 1\<rparr>"
  have n: "?n = pair_bytes (kv i)" by (simp add: e(2) pair_bytes_def)
  have fits: "pa_used a + ?n \<le> pa_capacity a" using Cons.prems(4) pos unfolding n by simp
  have step: "pa_stage layer i (gs, n) a = (Inr (gs @ [encode_global_block_id layer i], n + 1), ?a1)"
    using e fits by (simp add: pa_stage_def Let_def gid)
  have "pa_placed ?a1" using Cons.prems(1) unfolding pa_placed_def by simp (metis (no_types, lifting))
  moreover have "\<forall>i'\<in>set ids. pa_lookup ?a1 (layer, i') = Some (kv i') \<and> (layer, i') \<notin> pa_cache ?a1"
    using Cons.prems(2,3) by (auto simp: pa_lookup_def)
  moreover have "pa_used ?a1 + (\<Sum>i\<leftarrow>ids. pair_bytes (kv i)) \<le> pa_capacity ?a1" using Cons.prems(4) n by simp
  ultimately obtain a' where "sfor (pa_stage layer) ids (gs @ [encode_global_block_id layer i], n + 1) ?a1 =
      (Inr ((gs @ [encode_global_block_id layer i]) @ map (encode_global_block_id layer) ids, n + 1 + length ids), a')"
    "pa_sim a' = pa_sim ?a1" "pa_time a' = pa_time ?a1" "pa_cache a' = pa_cache ?a1 \<union> Pair layer ` set ids"
    using Cons.IH [of ?a1 "gs @ [encode_global_block_id layer i]" "n + 1"] Cons.prems(2) by auto
  with step show ?case by (intro exI [of _ a']) (simp add: meth_run)
qed simp

text \<open>Storing blocks of three axes in sequence, without metadata.\<close>

definition pa_store_ids :: "int \<Rightarrow> (int \<Rightarrow> tensor \<times> tensor) \<Rightarrow> int list \<Rightarrow> phys_adapter \<Rightarrow> phys_adapter" where
  "pa_store_ids layer kv ids = fold (\<lambda>i. pa_put (layer, i) (fst (kv i), snd (kv i), None)) ids"

definition has_tokens :: "tensor \<Rightarrow> bool" where
  "has_tokens k \<longleftrightarrow> 3 \<le> length (shape k) \<and> 0 < shape k ! 0"

lemma pa_meta_block_idx:
  assumes "has_tokens k"
  shows "token_block_idx (p2_block gid layer (pa_meta bid layer k) isz k v) = bid"
  using assms
  by (simp add: token_block_idx_def block_tokens_def p2_block_def pa_meta_def has_tokens_def max_def)

lemma pa_store_ids_ok:
  assumes "pa_inv a" "distinct ids" "\<forall>i\<in>set ids. 0 \<le> i \<and> i < 65536 \<and> has_tokens (fst (kv i))"
  shows "pa_inv (pa_store_ids layer kv ids a) \<and> pa_cache (pa_store_ids layer kv ids a) = pa_cache a \<and>
    pa_used (pa_store_ids layer kv ids a) = pa_used a \<and> pa_capacity (pa_store_ids layer kv ids a) = pa_capacity a \<and>
    pa_channels (pa_store_ids layer kv ids a) = pa_channels a \<and>
    latency (pa_sim (pa_store_ids layer kv ids a)) = latency (pa_sim a) \<and>
    (\<forall>i\<in>set ids. pa_lookup (pa_store_ids layer kv ids a) (layer, i) = Some (kv i) \<and>
       (\<exists>loc. sim_get_location (encode_global_block_id layer i) (pa_sim (pa_store_ids layer kv ids a)) = Some loc \<and>
          loc \<noteq> [] \<and> extract_channel loc = (i + i div pa_channels a) mod pa_channels a))"
  using assms(2,3)
proof (induction ids rule: rev_induct)
  case Nil
  then show ?case using assms(1) by (simp add: pa_store_ids_def)
next
  case (snoc x ids)
  let ?a = "pa_store_ids layer kv ids a"
  have IH: "pa_inv ?a" "pa_cache ?a = pa_cache a" "pa_used ?a = pa_used a" "pa_capacity ?a = pa_capacity a"
    "pa_channels ?a = pa_channels a" "latency (pa_sim ?a) = latency (pa_sim a)"
    "\<And>i. i \<in> set ids \<Longrightarrow> pa_lookup ?a (layer, i) = Some (kv i) \<and>
       (\<exists>loc. sim_get_location (encode_global_block_id layer i) (pa_sim ?a) = Some loc \<and>
          loc \<noteq> [] \<and> extract_channel loc = (i + i div pa_channels a) mod pa_channels a)"
    using snoc by auto
  have step: "pa_store_ids layer kv (ids @ [x]) a = snd (pa_store_kv x layer (fst (kv x)) (snd (kv x)) None ?a)"
    by (simp add: pa_store_ids_def)
  have x: "has_tokens (fst (kv x))" using snoc.prems by simp
  have ne: "encode_global_block_id layer i \<noteq> encode_global_block_id layer x" if "i \<in> set ids" for i
    using that snoc.prems by (auto simp: encode_inj)
  obtain a' where a': "pa_store_kv x layer (fst (kv x)) (snd (kv x)) None ?a = (Inr True, a')" "pa_inv a'"
    "pa_lookup a' = (pa_lookup ?a)((layer, x) \<mapsto> kv x)" "pa_cache a' = pa_cache ?a" "pa_used a' = pa_used ?a"
    "pa_capacity a' = pa_capacity ?a" "pa_channels a' = pa_channels ?a" "latency (pa_sim a') = latency (pa_sim ?a)"
    "\<And>i. i \<noteq> encode_global_block_id layer x \<Longrightarrow> sim_get_location i (pa_sim a') = sim_get_location i (pa_sim ?a)"
    "\<exists>loc. loc \<noteq> [] \<and> sim_get_location (encode_global_block_id layer x) (pa_sim a') = Some loc \<and>
       extract_channel loc = (x + x div pa_channels ?a) mod pa_channels ?a"
    using pa_store_ok [OF IH(1), where bid = x and layer = layer and k = "fst (kv x)" and v = "snd (kv x)" and md = None]
    by (auto simp: Let_def pa_meta_block_idx [OF x])
  have "pa_lookup a' (layer, i) = Some (kv i) \<and>
       (\<exists>loc. sim_get_location (encode_global_block_id layer i) (pa_sim a') = Some loc \<and>
          loc \<noteq> [] \<and> extract_channel loc = (i + i div pa_channels a) mod pa_channels a)" if i: "i \<in> set (ids @ [x])" for i
  proof (cases "i = x")
    case True
    then show ?thesis using a'(3,10) IH(5) by auto
  next
    case False
    then have "i \<in> set ids" using i by simp
    then show ?thesis using IH(7) a'(3) a'(9) [OF ne] False by auto
  qed
  then show ?case using a' IH(2-6) by (simp add: step)
qed

section \<open>Properties\<close>

lemma new_phys_adapter_inv:
  assumes "0 < c" "SSD_DIES_PER_CHANNEL \<le> nd" "0 \<le> mb" "\<forall>t e. fm = Some (t, e) \<longrightarrow> flash_timing_ok t"
  shows "pa_inv (new_phys_adapter ''tensor_aware'' c nd npl nblk mb fm)" 
    and "pa_lookup (new_phys_adapter ''tensor_aware'' c nd npl nblk mb fm) = (\<lambda>_. None)"
proof -
  have "num_channels (new_simulator ''tensor_aware'' c nd npl nblk) = c" by (simp add: new_simulator_def)
  then show "pa_inv (new_phys_adapter ''tensor_aware'' c nd npl nblk mb fm)"
    using assms new_sim_ta_ok [OF assms(1,2)]
    by (auto simp: new_phys_adapter_def pa_inv_def pa_placed_def pa_default_timing_def flash_timing_ok_def
        default_flash_timing_def split: prod.splits option.splits)
qed (simp add: new_phys_adapter_def pa_lookup_def split: prod.split)

text \<open>C5: The physical adapter is a key-value store: over a tensor-aware simulator with at least the four
  dies the translation layer counts on, after any sequence of stores (of tensors of any shape, with
  or without metadata), loads, prefetches, top-k queries, telemetry resets, evictions and rebuilds
  of the simulator, \<open>load_kv\<close> returns the last tensors stored under layer and id, or raises
  \<open>KeyError\<close>; no operation of the placement underneath ever fails.\<close>

theorem physical_adapter_refines_map:
  assumes "0 < c" "SSD_DIES_PER_CHANNEL \<le> nd" "0 \<le> mb" "\<forall>t e. fm = Some (t, e) \<longrightarrow> flash_timing_ok t"
  shows "fst (pa_load_kv bid layer (fold (kv_exec pa_put pa_del pa_touch) ops
      (new_phys_adapter ''tensor_aware'' c nd npl nblk mb fm))) =
    (case fold (map_op pa_val) ops (\<lambda>_. None) (layer, bid) of None \<Rightarrow> Inl KeyError | Some kv \<Rightarrow> Inr kv)"
proof -
  let ?a = "new_phys_adapter ''tensor_aware'' c nd npl nblk mb fm"
  have "\<forall>x\<in>set ops. kv_op_ok (\<lambda>_. True) x" by (metis kv_op_ok.elims(3))
  from pa.run_refines [OF new_phys_adapter_inv(1) [OF assms] this]
  have "pa_inv (fold (kv_exec pa_put pa_del pa_touch) ops ?a)"
    "pa_lookup (fold (kv_exec pa_put pa_del pa_touch) ops ?a) = fold (map_op pa_val) ops (\<lambda>_. None)"
    by (simp_all add: new_phys_adapter_inv(2) [OF assms])
  then show ?thesis by (simp add: pa_load_result pa_inv_def)
qed

lemma physical_adapter_refines_map_witness:
  "fst (pa_load_kv 5 0 (fold (kv_exec pa_put pa_del pa_touch)
     [Put (0, 5) (cube 1, cube 2, None), Put (0, 65541) (cube 3, cube 3, None), Touch (PPrefetch [5, 65541] 0),
      Touch PRebuild, Del (0, 65541)]
     (new_phys_adapter ''tensor_aware'' 8 4 2 64 1024 None))) = Inr (cube 1, cube 2)"
  by (subst physical_adapter_refines_map) (simp_all add: SSD_DIES_PER_CHANNEL_def)

text \<open>C6: Composition: the hot/cold manager over the physical adapter loses no token. Prefill, any
  number of decode tokens with offloading to simulated flash, then fetching every block back:
  attention is handed exactly the bytes put in, in order.\<close>

theorem tiering_over_physical_flash:
  assumes "0 < c" "SSD_DIES_PER_CHANNEL \<le> nd" "0 \<le> mb"
    and "row_ok [h, d] dt n k" "row_ok [h, d] dt n v" "\<forall>x\<in>set xs. tok_ok [h, d] dt x" "0 < n + length xs"
    and "0 < sliding_window_tokens pol" "0 < tp_tokens_per_block pol"
  shows "\<exists>m1 m2 m3 K V.
    prefill_sequence pa_tier_store layer k v
      (new_manager pol h d dt (new_phys_adapter ''tensor_aware'' c nd npl nblk mb None)) = (Inr (), m1) \<and>
    append_tokens pa_tier_store layer xs m1 = (Inr (), m2) \<and>
    fetch_blocks pa_load_kv layer (layer_ids layer (tm_pool m2)) m2 = (Inr (), m3) \<and>
    get_hot_kv layer m3 = Inr (K, V, [0..<n + length xs]) \<and>
    raw K = raw k @ concat (map (raw \<circ> fst) xs) \<and> raw V = raw v @ concat (map (raw \<circ> snd) xs)"
  by (rule pat.no_token_lost [OF fresh_manager_ok [where sinv = pa_inv, OF new_phys_adapter_inv(1) [OF assms(1-3)]]])
    (use assms in \<open>simp_all add: new_manager_def new_pool_def layer_ids_def\<close>)

lemma tiering_over_physical_flash_witness:
  "\<exists>m1 m2 m3 K V.
    prefill_sequence pa_tier_store 0 rows3 rows3 (new_manager small_policy 1 1 Int8
       (new_phys_adapter ''tensor_aware'' 8 4 2 64 1024 None)) = (Inr (), m1) \<and>
    append_tokens pa_tier_store 0 [(tok1 4, tok1 4), (tok1 5, tok1 5)] m1 = (Inr (), m2) \<and>
    fetch_blocks pa_load_kv 0 (layer_ids 0 (tm_pool m2)) m2 = (Inr (), m3) \<and>
    get_hot_kv 0 m3 = Inr (K, V, [0..<5]) \<and> raw K = [1, 2, 3, 4, 5]"
  using tiering_over_physical_flash [of 8 4 1024 1 1 Int8 3 rows3 rows3
      "[(tok1 4, tok1 4), (tok1 5, tok1 5)]" small_policy 0 2 64]
  by (simp add: row_ok_def rows3_def tok_ok_def tok1_def tensor_ok_def small_policy_def SSD_DIES_PER_CHANNEL_def) blast

text \<open>The striping pay-off through the whole stack: store the \<open>C\<close> consecutive blocks of an
  aligned stripe of one layer (as many as channels), then prefetch them; the tensor-aware
  placement puts them on \<open>C\<close> different channels and the prefetch takes the time of one page
  read, while all \<open>C\<close> blocks are staged.\<close>

theorem stripe_prefetched_in_one_read:
  assumes "pa_inv a" "0 \<le> k" "(k + 1) * pa_channels a \<le> 65536" "ids = [k * pa_channels a..(k + 1) * pa_channels a - 1]"
    and "\<forall>i\<in>set ids. has_tokens (fst (kv i)) \<and> (layer, i) \<notin> pa_cache a"
    and "pa_used a + (\<Sum>i\<leftarrow>ids. pair_bytes (kv i)) \<le> pa_capacity a"
    and "pa_prefetch_kv ids layer (pa_store_ids layer kv ids a) = (r, a')"
  shows "r = Inr (nat (pa_channels a)) \<and> Pair layer ` set ids \<subseteq> pa_cache a' \<and>
    pa_time a' = pa_time (pa_store_ids layer kv ids a) + (pcie_overhead_us (latency (pa_sim a)) +
       (t_r_us (latency (pa_sim a)) + bus_transfer_us (latency (pa_sim a))))"
proof -
  let ?C = "pa_channels a" and ?b = "pa_store_ids layer kv ids a" and ?lat = "latency (pa_sim a)"
  let ?gids = "map (encode_global_block_id layer) ids"
  have C: "0 < ?C" using assms(1) by (simp add: pa_inv_def)
  have rng: "0 \<le> i \<and> i < 65536 \<and> i div ?C = k" if "i \<in> set ids" for i
  proof -
    from that assms(4) have i: "k * ?C \<le> i" "i < k * ?C + ?C" by (simp_all add: algebra_simps)
    then have "i div ?C = k" using C by (intro int_div_pos_eq [of _ _ _ "i - k * ?C"]) (simp_all add: mult.commute)
    moreover have "0 \<le> k * ?C" using C assms(2) by simp
    ultimately show ?thesis using i assms(3) by (simp add: algebra_simps)
  qed
  have d: "distinct ids" and ne: "ids \<noteq> []" and len: "length ids = nat ?C"
    using C by (simp_all add: assms(4) algebra_simps)
  have "\<forall>i\<in>set ids. 0 \<le> i \<and> i < 65536 \<and> has_tokens (fst (kv i))" using rng assms(5) by blast
  note st = pa_store_ids_ok [OF assms(1) d this, of layer]
  have "pa_placed ?b" using st by (simp add: pa_inv_def)
  moreover have "\<forall>i\<in>set ids. pa_lookup ?b (layer, i) = Some (kv i) \<and> (layer, i) \<notin> pa_cache ?b" using st assms(5) by simp
  moreover have "pa_used ?b + (\<Sum>i\<leftarrow>ids. pair_bytes (kv i)) \<le> pa_capacity ?b" using st assms(6) by simp
  ultimately obtain b1 where b1: "sfor (pa_stage layer) ids ([], 0) ?b = (Inr (?gids, length ids), b1)"
    "pa_sim b1 = pa_sim ?b" "pa_time b1 = pa_time ?b" "pa_cache b1 = pa_cache ?b \<union> Pair layer ` set ids"
    using pa_stage_all [OF _ d, where gs = "[]" and n = 0] by fastforce
  obtain loc where loc: "\<And>i. i \<in> set ids \<Longrightarrow> sim_get_location (encode_global_block_id layer i) (pa_sim ?b) = Some (loc i) \<and>
      loc i \<noteq> [] \<and> extract_channel (loc i) = (i + k) mod ?C"
    using st rng by (metis (no_types, lifting))
  have locs: "sim_locs ?gids (pa_sim b1) = map loc ids"
    unfolding sim_locs_def b1(2) using loc by (simp add: comp_def concat_map_singleton cong: map_cong)
  have "inj_on (\<lambda>i. (i + k) mod ?C) (set ids)"
  proof (rule inj_onI)
    fix i j assume ij: "i \<in> set ids" "j \<in> set ids" "(i + k) mod ?C = (j + k) mod ?C"
    have eq: "(k * ?C + k + (i - k * ?C)) mod ?C = (k * ?C + k + (j - k * ?C)) mod ?C"
      using ij(3) by (simp add: algebra_simps)
    have "i - k * ?C = j - k * ?C" using ij(1,2) C by (intro mod_shift_inj [OF eq]) (auto simp: assms(4) algebra_simps)
    then show "i = j" by simp
  qed
  moreover have "map extract_channel (map loc ids) = map (\<lambda>i. (i + k) mod ?C) ids" using loc by simp
  ultimately have "distinct (map extract_channel (map loc ids))" using d by (simp only: distinct_map)
  then have "max_load (get_channel_loads (map loc ids)) = 1" using ne by (intro max_load_distinct) simp_all
  then have u: "calculate_batch_read_latency ?lat (map loc ids) = pcie_overhead_us ?lat + (t_r_us ?lat + bus_transfer_us ?lat)"
    using ne by (simp add: calculate_batch_read_latency_def)
  obtain s' where "pa_read_latency ?gids b1 = (Inr (pcie_overhead_us ?lat + (t_r_us ?lat + bus_transfer_us ?lat)), b1\<lparr>pa_sim := s'\<rparr>)"
    using pa_read_latency_run [of ?gids b1] st u locs by (auto simp: b1(2))
  then show ?thesis using assms(7) b1 ne len
    by (auto simp: pa_prefetch_kv_def meth_run pa_charge_batch_def pa_record_event_def)
qed

lemma stripe_prefetched_in_one_read_witness:
  "pa_time (snd (pa_prefetch_kv [8..15] 3 (pa_store_ids 3 (\<lambda>i. (cube 1, cube 2)) [8..15]
      (new_phys_adapter ''tensor_aware'' 8 4 2 64 1024 None)))) =
   pa_time (pa_store_ids 3 (\<lambda>i. (cube 1, cube 2)) [8..15] (new_phys_adapter ''tensor_aware'' 8 4 2 64 1024 None)) + 40"
  using stripe_prefetched_in_one_read [of "new_phys_adapter ''tensor_aware'' 8 4 2 64 1024 None" 1 "[8..15]"
      "\<lambda>i. (cube 1, cube 2)" 3 _ _, OF new_phys_adapter_inv(1) _ _ _ _ _ prod.collapse [symmetric]]
  by (simp add: new_phys_adapter_def SSD_DIES_PER_CHANNEL_def has_tokens_def cube_def pair_bytes_def nbytes_def
      new_simulator_def default_latency_model_def timing_defs upto_rec1)

text \<open>The id under which a block is placed: two blocks share it exactly when they are of one layer and
  their block ids agree modulo 65536, so it is unique only below 65536 blocks per layer.\<close>

theorem global_ids_alias:
  "(encode_global_block_id l b = encode_global_block_id l' b') = (l = l' \<and> b mod 65536 = b' mod 65536) \<and>
   encode_global_block_id l b = l * 65536 + b mod 65536"
  by (simp only: encode_inj simp_thms) (rule encode_arith)

end
