(* ===== verification/Trace.thy ===== *)
theory Trace
  imports Location
begin

text \<open>
  The trace formats: \<open>common/schemas/trace.py\<close> (the canonical record and the manifest),
  \<open>person3_system/trace/trace_schema.py\<close> (header and synthetic record),
  \<open>trace_reader.py\<close> (the validating reader) and \<open>synthetic_generator.py\<close>.

  JSON values are a datatype; an object is a dictionary. A file is its list of lines, each
  blank, not JSON, or the value \<open>json.loads\<close> returns (\<open>json.dumps\<close> followed by \<open>json.loads\<close>
  is the identity on the values written here). Of Python's library, printing floats and
  containers and reading floats from text are parameters; numbers are \<open>int\<close> or \<open>real\<close>.
\<close>

section \<open>JSON values as Python sees them\<close>

datatype json =
    JNull | JBool bool | JInt int | JFloat real | JStr string
  | JList "json list" | JObj "(string \<times> json) list"

type_synonym jobj = "(string, json) dict"

record pystd =
  py_repr :: "json \<Rightarrow> string"
  py_float_of :: "string \<Rightarrow> real option"

text \<open>Truth value, \<open>str\<close>, \<open>int\<close>, \<open>float\<close>, \<open>list\<close>, and multiplication by an integer.\<close>

fun truthy :: "json \<Rightarrow> bool" where
  "truthy JNull = False"
| "truthy (JBool b) = b"
| "truthy (JInt n) = (n \<noteq> 0)"
| "truthy (JFloat x) = (x \<noteq> 0)"
| "truthy (JStr s) = (s \<noteq> [])"
| "truthy (JList xs) = (xs \<noteq> [])"
| "truthy (JObj d) = (d \<noteq> [])"

fun py_str :: "pystd \<Rightarrow> json \<Rightarrow> string" where
  "py_str p (JStr s) = s"
| "py_str p JNull = ''None''"
| "py_str p (JBool b) = (if b then ''True'' else ''False'')"
| "py_str p (JInt n) = show_int n"
| "py_str p v = py_repr p v"

text \<open>Decimal digits, single underscores between them, an optional sign, blanks around.\<close>

definition is_blank :: "char \<Rightarrow> bool" where
  "is_blank c \<longleftrightarrow> char_code c = 32 \<or> (9 \<le> char_code c \<and> char_code c \<le> 13)"

definition py_strip :: "string \<Rightarrow> string" where
  "py_strip s = rev (dropWhile is_blank (rev (dropWhile is_blank s)))"

fun digit_groups :: "bool \<Rightarrow> string \<Rightarrow> bool" where
  "digit_groups after_digit [] = after_digit"
| "digit_groups after_digit (c # cs) =
     (if is_digit c then digit_groups True cs
      else c = CHR ''_'' \<and> after_digit \<and> digit_groups False cs)"

definition unsigned_of_str :: "string \<Rightarrow> int option" where
  "unsigned_of_str s = (if digit_groups False s then Some (read_digits (filter is_digit s)) else None)"

definition int_of_str :: "string \<Rightarrow> int option" where
  "int_of_str s = (case py_strip s of
     [] \<Rightarrow> None
   | c # cs \<Rightarrow> if c = CHR ''-'' then map_option uminus (unsigned_of_str cs)
               else if c = CHR ''+'' then unsigned_of_str cs
               else unsigned_of_str (c # cs))"

definition of_option :: "exn \<Rightarrow> 'a option \<Rightarrow> 'a res" where
  "of_option e x = (case x of None \<Rightarrow> Inl e | Some y \<Rightarrow> Inr y)"

fun py_int :: "json \<Rightarrow> int res" where
  "py_int (JInt n) = Inr n"
| "py_int (JBool b) = Inr (of_bool b)"
| "py_int (JFloat x) = Inr (if 0 \<le> x then \<lfloor>x\<rfloor> else \<lceil>x\<rceil>)"
| "py_int (JStr s) = of_option ValueError (int_of_str s)"
| "py_int v = Inl TypeError"

fun py_float :: "pystd \<Rightarrow> json \<Rightarrow> real res" where
  "py_float p (JFloat x) = Inr x"
| "py_float p (JInt n) = Inr (of_int n)"
| "py_float p (JBool b) = Inr (of_bool b)"
| "py_float p (JStr s) = of_option ValueError (py_float_of p s)"
| "py_float p v = Inl TypeError"

fun py_list :: "json \<Rightarrow> json list res" where
  "py_list (JList xs) = Inr xs"
| "py_list (JStr s) = Inr (map (\<lambda>c. JStr [c]) s)"
| "py_list (JObj d) = Inr (map (\<lambda>kv. JStr (fst kv)) d)"
| "py_list v = Inl TypeError"

fun py_times :: "json \<Rightarrow> nat \<Rightarrow> json res" where
  "py_times (JInt n) k = Inr (JInt (n * int k))"
| "py_times (JBool b) k = Inr (JInt (of_bool b * int k))"
| "py_times (JFloat x) k = Inr (JFloat (x * real k))"
| "py_times (JStr s) k = Inr (JStr (concat (replicate k s)))"
| "py_times (JList xs) k = Inr (JList (concat (replicate k xs)))"
| "py_times v k = Inl TypeError"

text \<open>\<open>xs[0] if xs else 0\<close>.\<close>

fun py_first :: "json \<Rightarrow> json res" where
  "py_first (JList (x # xs)) = Inr x"
| "py_first (JStr (c # cs)) = Inr (JStr [c])"
| "py_first (JObj (kv # d)) = Inl KeyError"
| "py_first v = (if truthy v then Inl TypeError else Inr (JInt 0))"

text \<open>\<open>d.get(k)\<close>, \<open>d.get(k, v)\<close>.\<close>

definition jget :: "string \<Rightarrow> jobj \<Rightarrow> json" where
  "jget k d = (case dget d k of None \<Rightarrow> JNull | Some v \<Rightarrow> v)"

definition jget_or :: "string \<Rightarrow> json \<Rightarrow> jobj \<Rightarrow> json" where
  "jget_or k v d = (case dget d k of None \<Rightarrow> v | Some w \<Rightarrow> w)"

text \<open>\<open>v if v is not None else w\<close>, where \<open>w\<close> may raise.\<close>

definition or_else :: "json \<Rightarrow> json res \<Rightarrow> json res" where
  "or_else v w = (if v = JNull then w else Inr v)"

section \<open>The canonical record\<close>

record canon =
  ca_event :: int
  ca_step :: int
  ca_layer :: int
  ca_head :: int
  ca_op :: string
  ca_block :: int
  ca_tstart :: int
  ca_tend :: "int option"
  ca_tcount :: int
  ca_sub :: string
  ca_bytes :: int
  ca_tier :: string
  ca_hot :: real
  ca_cand :: "json list"
  ca_sel :: "json list"
  ca_query :: json
  ca_ts :: int
  ca_meta :: json

definition ca_timestamp_us :: "canon \<Rightarrow> real" where
  "ca_timestamp_us r = of_int (ca_ts r) / 1000"

definition ca_block_ids :: "canon \<Rightarrow> json list" where
  "ca_block_ids r = (if ca_sel r \<noteq> [] then ca_sel r else if ca_cand r \<noteq> [] then ca_cand r else [JInt (ca_block r)])"

definition ca_is_write :: "canon \<Rightarrow> bool" where
  "ca_is_write r \<longleftrightarrow> ca_op r = ''PREFILL_WRITE'' \<or> ca_op r = ''KV_WRITE''"

definition ca_is_read :: "canon \<Rightarrow> bool" where
  "ca_is_read r \<longleftrightarrow> ca_op r \<in> set [''DECODE_READ'', ''TOPK_FETCH'', ''TOPK_FILTER'', ''KV_READ'', ''KV_TOPK'']"

definition canon_to_dict :: "canon \<Rightarrow> jobj" where
  "canon_to_dict r =
     [(''event_id'', JInt (ca_event r)), (''step'', JInt (ca_step r)), (''layer_id'', JInt (ca_layer r)),
      (''head_id'', JInt (ca_head r)), (''operation'', JStr (ca_op r)), (''block_id'', JInt (ca_block r)),
      (''token_start'', JInt (ca_tstart r)),
      (''token_end'', (case ca_tend r of None \<Rightarrow> JNull | Some n \<Rightarrow> JInt n)),
      (''token_count'', JInt (ca_tcount r)), (''sub_page'', JStr (ca_sub r)), (''byte_size'', JInt (ca_bytes r)),
      (''tier'', JStr (ca_tier r)), (''hotness'', JFloat (ca_hot r)),
      (''candidate_blocks'', JList (ca_cand r)), (''selected_blocks'', JList (ca_sel r)),
      (''query_id'', ca_query r), (''timestamp_ns'', JInt (ca_ts r)), (''metadata'', ca_meta r)]"

text \<open>
  \<open>from_dict\<close>, in the order of its statements: defaults are evaluated before they are needed
  (\<open>b_id * 16\<close>, \<open>data.get("timestamp_us", 0) * 1000\<close>), and the conversions of the last statement
  run from the first field to the last.
\<close>

definition canon_event :: "jobj \<Rightarrow> json res" where
  "canon_event d =
     or_else (jget ''event_id'' d) (or_else (jget ''seq_id'' d) (Inl KeyError))"

definition canon_op :: "pystd \<Rightarrow> jobj \<Rightarrow> string" where
  "canon_op p d = py_str p (if truthy (jget ''operation'' d) then jget ''operation'' d
     else jget_or ''op'' (JStr ''DECODE_READ'') d)"

definition canon_bytes :: "jobj \<Rightarrow> json" where
  "canon_bytes d = (if jget ''byte_size'' d \<noteq> JNull then jget ''byte_size'' d
     else if jget ''byte_length'' d \<noteq> JNull then jget ''byte_length'' d
     else jget_or ''bytes'' (JInt (if jget_or ''sub_page'' (JStr ''BOTH'') d = JStr ''BOTH'' then 8192 else 4096)) d)"

definition canon_from_dict :: "pystd \<Rightarrow> jobj \<Rightarrow> canon res" where
  "canon_from_dict p d =
     rbind (canon_event d) (\<lambda>ev.
     (let step = (if jget ''step'' d = JNull then jget_or ''step_id'' (JInt 0) d else jget ''step'' d);
          head = (if jget ''head_id'' d = JNull then jget_or ''kv_head_id'' (JInt 0) d else jget ''head_id'' d)
      in rbind (or_else (jget ''block_id'' d) (py_first (jget_or ''block_ids'' (JList []) d))) (\<lambda>bid.
         rbind (or_else (jget ''token_start'' d)
                  (rbind (py_times bid 16) (\<lambda>v. Inr (jget_or ''token_idx'' v d)))) (\<lambda>ts.
         rbind (py_float p (jget_or ''hotness'' (JFloat 1) d)) (\<lambda>hot.
         rbind (py_list (jget_or ''candidate_blocks'' (JList []) d)) (\<lambda>cand.
         rbind (py_list (jget_or ''selected_blocks'' (JList []) d)) (\<lambda>sel.
         rbind (py_times (jget_or ''timestamp_us'' (JInt 0) d) 1000) (\<lambda>tus.
         rbind (py_int (jget_or ''timestamp_ns'' tus d)) (\<lambda>tns.
         rbind (py_int ev) (\<lambda>ev'. rbind (py_int step) (\<lambda>step'.
         rbind (py_int (jget_or ''layer_id'' (JInt 0) d)) (\<lambda>lay. rbind (py_int head) (\<lambda>head'.
         rbind (py_int bid) (\<lambda>bid'. rbind (py_int ts) (\<lambda>ts'.
         rbind (if jget ''token_end'' d = JNull then Inr None
                else rbind (py_int (jget ''token_end'' d)) (\<lambda>n. Inr (Some n))) (\<lambda>tend.
         rbind (py_int (jget_or ''token_count'' (JInt 16) d)) (\<lambda>cnt.
         rbind (py_int (canon_bytes d)) (\<lambda>nb.
           Inr \<lparr>ca_event = ev', ca_step = step', ca_layer = lay, ca_head = head', ca_op = canon_op p d,
                ca_block = bid', ca_tstart = ts', ca_tend = tend, ca_tcount = cnt,
                ca_sub = py_str p (jget_or ''sub_page'' (JStr ''BOTH'') d), ca_bytes = nb,
                ca_tier = py_str p (jget_or ''tier'' (JStr ''SSD'') d), ca_hot = hot, ca_cand = cand, ca_sel = sel,
                ca_query = jget ''query_id'' d, ca_ts = tns, ca_meta = jget_or ''metadata'' (JObj []) d\<rparr>))))))))))))))))))"

section \<open>Manifest and header\<close>

text \<open>The fields are what the file holds; nothing checks their types.\<close>

record manifest =
  mf_model_name :: json
  mf_num_layers :: json
  mf_num_query_heads :: json
  mf_num_kv_heads :: json
  mf_head_dim :: json
  mf_dtype :: json
  mf_tokens_per_block :: json
  mf_key_page_bytes :: json
  mf_value_page_bytes :: json
  mf_logical_block_bytes :: json
  mf_total_events :: json
  mf_total_tokens :: json
  mf_version :: json
  mf_gqa_ratio :: json
  mf_raw :: jobj

definition manifest_from_dict :: "jobj \<Rightarrow> manifest" where
  "manifest_from_dict d = \<lparr>mf_model_name = jget_or ''model_name'' (JStr ''unknown'') d,
     mf_num_layers = jget_or ''num_layers'' (JInt 32) d,
     mf_num_query_heads = jget_or ''num_query_heads'' (JInt 32) d,
     mf_num_kv_heads = jget_or ''num_kv_heads'' (JInt 32) d,
     mf_head_dim = jget_or ''head_dim'' (JInt 128) d,
     mf_dtype = jget_or ''dtype'' (JStr ''FP16'') d,
     mf_tokens_per_block = jget_or ''tokens_per_block'' (JInt 16) d,
     mf_key_page_bytes = jget_or ''key_page_bytes'' (JInt 4096) d,
     mf_value_page_bytes = jget_or ''value_page_bytes'' (JInt 4096) d,
     mf_logical_block_bytes = jget_or ''logical_block_bytes'' (JInt 8192) d,
     mf_total_events = jget_or ''total_events'' (JInt 0) d,
     mf_total_tokens = jget_or ''total_tokens'' (JInt 0) d,
     mf_version = jget_or ''trace_format_version'' (JStr ''2.0'') d,
     mf_gqa_ratio = jget_or ''gqa_ratio'' (JInt 1) d,
     mf_raw = d\<rparr>"

record model_meta =
  mm_model_name :: json
  mm_num_layers :: json
  mm_num_heads :: json
  mm_head_dim :: json
  mm_dtype :: json
  mm_context_length :: json
  mm_tokens_per_block :: json
  mm_block_size_bytes :: json

definition model_meta_to_dict :: "model_meta \<Rightarrow> jobj" where
  "model_meta_to_dict m = [(''model_name'', mm_model_name m), (''num_layers'', mm_num_layers m),
     (''num_heads'', mm_num_heads m), (''head_dim'', mm_head_dim m), (''dtype'', mm_dtype m),
     (''context_length'', mm_context_length m), (''tokens_per_block'', mm_tokens_per_block m),
     (''block_size_bytes'', mm_block_size_bytes m)]"

text \<open>\<open>cls(**data)\<close>: an unknown or a missing keyword is a \<open>TypeError\<close>.\<close>

definition model_meta_from :: "json \<Rightarrow> model_meta res" where
  "model_meta_from v = (case v of
     JObj d \<Rightarrow>
       (let required = [''model_name'', ''num_layers'', ''num_heads'', ''head_dim'', ''dtype'', ''context_length''];
            optional = [''tokens_per_block'', ''block_size_bytes'']
        in if list_all (\<lambda>k. k \<in> set (required @ optional)) (dkeys d) \<and> list_all (\<lambda>k. dmem k d) required
           then Inr \<lparr>mm_model_name = jget ''model_name'' d, mm_num_layers = jget ''num_layers'' d,
                     mm_num_heads = jget ''num_heads'' d, mm_head_dim = jget ''head_dim'' d, mm_dtype = jget ''dtype'' d,
                     mm_context_length = jget ''context_length'' d,
                     mm_tokens_per_block = jget_or ''tokens_per_block'' (JInt 16) d,
                     mm_block_size_bytes = jget_or ''block_size_bytes'' (JInt 4096) d\<rparr>
           else Inl TypeError)
   | _ \<Rightarrow> Inl TypeError)"

record trace_header =
  hd_version :: json
  hd_meta :: model_meta
  hd_total :: json
  hd_created :: json
  hd_source :: json

definition header_to_dict :: "trace_header \<Rightarrow> jobj" where
  "header_to_dict h = [(''schema_version'', hd_version h), (''model_metadata'', JObj (model_meta_to_dict (hd_meta h))),
     (''total_records'', hd_total h), (''created_at'', hd_created h), (''source'', hd_source h)]"

definition header_from_dict :: "jobj \<Rightarrow> trace_header res" where
  "header_from_dict d =
     rbind (of_option KeyError (dget d ''model_metadata'')) (\<lambda>mv. rbind (model_meta_from mv) (\<lambda>mm.
     rbind (of_option KeyError (dget d ''schema_version'')) (\<lambda>ver.
       Inr \<lparr>hd_version = ver, hd_meta = mm, hd_total = jget_or ''total_records'' (JInt 0) d,
            hd_created = jget_or ''created_at'' (JStr []) d, hd_source = jget_or ''source'' (JStr ''P1_REAL_LLM'') d\<rparr>)))"

section \<open>The reader\<close>

text \<open>\<open>TraceValidationError\<close> is a \<open>ValueError\<close>, \<open>FileNotFoundError\<close> an \<open>OSError\<close>.\<close>

record reader =
  rd_manifest :: "manifest option"
  rd_header :: "trace_header option"
  rd_last :: int

text \<open>The header built from a manifest; only \<open>tokens_per_block * 256\<close> can raise.\<close>

definition header_of_manifest :: "manifest \<Rightarrow> trace_header res" where
  "header_of_manifest m = rbind (py_times (mf_tokens_per_block m) 256) (\<lambda>ctx.
     Inr \<lparr>hd_version = mf_version m,
          hd_meta = \<lparr>mm_model_name = mf_model_name m, mm_num_layers = mf_num_layers m,
             mm_num_heads = mf_num_kv_heads m, mm_head_dim = mf_head_dim m, mm_dtype = mf_dtype m,
             mm_context_length = ctx, mm_tokens_per_block = mf_tokens_per_block m,
             mm_block_size_bytes = mf_logical_block_bytes m\<rparr>,
          hd_total = mf_total_events m, hd_created = JStr [], hd_source = JStr ''P1_MANIFEST''\<rparr>)"

text \<open>
  The two candidates for a manifest, in order: absent, unreadable, or a JSON value. An exception
  moves on to the next candidate; a manifest that was read before it stays.
\<close>

type_synonym manifest_file = "json res option"

fun discover_manifest :: "manifest_file list \<Rightarrow> reader \<Rightarrow> reader" where
  "discover_manifest [] r = r"
| "discover_manifest (Some (Inr (JObj d)) # fs) r =
     (let m = manifest_from_dict d; r' = r\<lparr>rd_manifest := Some m\<rparr>
      in case header_of_manifest m of Inr h \<Rightarrow> r'\<lparr>rd_header := Some h\<rparr> | Inl _ \<Rightarrow> discover_manifest fs r')"
| "discover_manifest (f # fs) r = discover_manifest fs r"

text \<open>\<open>Path.stem\<close>, and the names looked up beside a trace.\<close>

definition path_stem :: "string \<Rightarrow> string" where
  "path_stem s = (let ext = rev (takeWhile (\<lambda>c. c \<noteq> CHR ''.'') (rev s)); i = length s - length ext
     in if length ext < length s \<and> 1 < i \<and> ext \<noteq> [] then take (i - 1) s else s)"

definition ends_with :: "string \<Rightarrow> string \<Rightarrow> bool" where
  "ends_with s t \<longleftrightarrow> length t \<le> length s \<and> drop (length s - length t) s = t"

definition new_reader :: "string \<Rightarrow> (string \<Rightarrow> manifest_file) \<Rightarrow> reader res" where
  "new_reader name fs =
     (if ends_with name ''.manifest.json'' then Inl ValueError
      else Inr (discover_manifest [fs (path_stem name @ ''.manifest.json''), fs (name @ ''.manifest.json'')]
                 \<lparr>rd_manifest = None, rd_header = None, rd_last = -1\<rparr>))"

text \<open>\<open>n >= v\<close> for an integer and whatever the manifest holds.\<close>

fun py_ge :: "int \<Rightarrow> json \<Rightarrow> bool res" where
  "py_ge n (JInt m) = Inr (m \<le> n)"
| "py_ge n (JBool b) = Inr (of_bool b \<le> n)"
| "py_ge n (JFloat x) = Inr (x \<le> of_int n)"
| "py_ge n v = Inl TypeError"

definition rd_bound :: "(manifest \<Rightarrow> json) \<Rightarrow> (model_meta \<Rightarrow> json) \<Rightarrow> int \<Rightarrow> reader \<Rightarrow> json" where
  "rd_bound fm fh n r = (case rd_manifest r of Some m \<Rightarrow> fm m | None \<Rightarrow>
     (case rd_header r of Some h \<Rightarrow> fh (hd_meta h) | None \<Rightarrow> JInt n))"

definition rd_check :: "bool res \<Rightarrow> (reader, unit) meth" where
  "rd_check bad = sbind (slift bad) (\<lambda>b. if b then sraise ValueError else sret ())"

text \<open>The message of the exception computes \<open>bound - 1\<close>, so a bound that is no number is a \<open>TypeError\<close>.\<close>

definition rd_in_bounds :: "int \<Rightarrow> json \<Rightarrow> bool res" where
  "rd_in_bounds n bound = (if n < 0 then rbind (py_ge n bound) (\<lambda>_. Inr True) else py_ge n bound)"

definition rd_validate :: "canon \<Rightarrow> (reader, unit) meth" where
  "rd_validate c =
     sbind (sread rd_last) (\<lambda>prev.
     sthen (rd_check (Inr (ca_event c \<le> prev)))
    (sthen (supd (\<lambda>r. r\<lparr>rd_last := ca_event c\<rparr>))
    (sbind (sread (rd_bound mf_num_layers mm_num_layers 128)) (\<lambda>ml.
     sthen (rd_check (rd_in_bounds (ca_layer c) ml))
    (sbind (sread (rd_bound mf_num_kv_heads mm_num_heads 64)) (\<lambda>mh.
     sthen (rd_check (rd_in_bounds (ca_head c) mh))
    (sthen (rd_check (Inr (ca_bytes c \<le> 0)))
           (rd_check (Inr (ca_block c < 0))))))))))"

datatype trace_line = LBlank | LBad | LJson json

text \<open>\<open>data.get\<close> on anything but an object is an \<open>AttributeError\<close>.\<close>

definition rd_record :: "pystd \<Rightarrow> json \<Rightarrow> (reader, canon) meth" where
  "rd_record p v = (case v of
     JObj d \<Rightarrow> sbind (slift (canon_from_dict p d)) (\<lambda>c. sthen (rd_validate c) (sret c))
   | _ \<Rightarrow> sraise AttributeError)"

text \<open>
  The generator: the records yielded so far and, when it stopped with one, the exception.
\<close>

type_synonym rd_stream = "(canon list \<times> exn option) \<times> reader"

fun rd_lines :: "pystd \<Rightarrow> trace_line list \<Rightarrow> reader \<Rightarrow> rd_stream" where
  "rd_lines p [] r = (([], None), r)"
| "rd_lines p (LBlank # ls) r = rd_lines p ls r"
| "rd_lines p (LBad # ls) r = (([], Some ValueError), r)"
| "rd_lines p (LJson v # ls) r = (case rd_record p v r of
     (Inl e, r') \<Rightarrow> (([], Some e), r')
   | (Inr c, r') \<Rightarrow> (case rd_lines p ls r' of ((cs, e), r'') \<Rightarrow> ((c # cs, e), r'')))"

text \<open>\<open>s in v\<close>: a key, a list element, a substring.\<close>

definition is_substring :: "string \<Rightarrow> string \<Rightarrow> bool" where
  "is_substring s t \<longleftrightarrow> list_ex (\<lambda>i. take (length s) (drop i t) = s) [0..<Suc (length t)]"

fun py_in :: "string \<Rightarrow> json \<Rightarrow> bool res" where
  "py_in s (JObj d) = Inr (dmem s d)"
| "py_in s (JList xs) = Inr (JStr s \<in> set xs)"
| "py_in s (JStr t) = Inr (is_substring s t)"
| "py_in s v = Inl TypeError"

definition SUPPORTED_VERSIONS :: "string list" where
  "SUPPORTED_VERSIONS = [''v2.0'', ''v1.0'', ''2.0'', ''1.0'']"

text \<open>A list or an object is no hashable element of the set of versions.\<close>

definition rd_version_ok :: "json \<Rightarrow> bool res" where
  "rd_version_ok v = (case v of JStr s \<Rightarrow> Inr (s \<in> set SUPPORTED_VERSIONS)
     | JList _ \<Rightarrow> Inl TypeError | JObj _ \<Rightarrow> Inl TypeError | _ \<Rightarrow> Inr False)"

definition rd_header_line :: "json \<Rightarrow> trace_header res" where
  "rd_header_line v = (case v of
     JObj d \<Rightarrow> rbind (rd_version_ok (jget ''schema_version'' d)) (\<lambda>ok.
       if ok then header_from_dict d else Inl ValueError)
   | _ \<Rightarrow> Inl TypeError)"

definition read_records :: "pystd \<Rightarrow> trace_line list option \<Rightarrow> reader \<Rightarrow> rd_stream" where
  "read_records p file r0 = (case file of
     None \<Rightarrow> (([], Some OSError), r0)
   | Some ls \<Rightarrow>
       (let r = r0\<lparr>rd_last := -1\<rparr>
        in case ls of
             [] \<Rightarrow> (([], Some ValueError), r)
           | l # rest \<Rightarrow> (case l of
               LJson v \<Rightarrow>
                 (case rbind (py_in ''schema_version'' v) (\<lambda>a. if a then py_in ''model_metadata'' v else Inr False) of
                    Inl e \<Rightarrow> (([], Some e), r)
                  | Inr True \<Rightarrow> (case rd_header_line v of
                        Inl e \<Rightarrow> (([], Some e), r)
                      | Inr h \<Rightarrow> rd_lines p rest (r\<lparr>rd_header := Some h\<rparr>))
                  | Inr False \<Rightarrow> rd_lines p (l # rest) r)
             | _ \<Rightarrow> (([], Some ValueError), r))))"

definition load_all :: "pystd \<Rightarrow> trace_line list option \<Rightarrow> (reader, canon list) meth" where
  "load_all p file r = (case read_records p file r of ((cs, None), r') \<Rightarrow> (Inr cs, r') | ((cs, Some e), r') \<Rightarrow> (Inl e, r'))"

section \<open>Synthetic traces\<close>

record gen_config =
  gc_model_name :: string
  gc_layers :: int
  gc_heads :: int
  gc_head_dim :: int
  gc_dtype :: string
  gc_context :: int
  gc_tpb :: int

definition gen_block_bytes :: "gen_config \<Rightarrow> int" where
  "gen_block_bytes g = gc_tpb g * gc_head_dim g * (if gc_dtype g = ''FP16'' then 2 else 4)"

definition gen_meta :: "gen_config \<Rightarrow> model_meta" where
  "gen_meta g = \<lparr>mm_model_name = JStr (gc_model_name g), mm_num_layers = JInt (gc_layers g),
     mm_num_heads = JInt (gc_heads g), mm_head_dim = JInt (gc_head_dim g), mm_dtype = JStr (gc_dtype g),
     mm_context_length = JInt (gc_context g), mm_tokens_per_block = JInt (gc_tpb g),
     mm_block_size_bytes = JInt (gen_block_bytes g)\<rparr>"

record trace_record =
  tr_seq :: int
  tr_step :: int
  tr_layer :: int
  tr_head :: int
  tr_op :: string
  tr_blocks :: "int list"
  tr_offset :: int
  tr_length :: int
  tr_top_k :: "int option"
  tr_time :: "real option"
  tr_meta :: jobj

definition trace_record_to_dict :: "trace_record \<Rightarrow> jobj" where
  "trace_record_to_dict r =
     [(''seq_id'', JInt (tr_seq r)), (''step_id'', JInt (tr_step r)), (''layer_id'', JInt (tr_layer r)),
      (''head_id'', JInt (tr_head r)), (''operation'', JStr (tr_op r)), (''block_ids'', JList (map JInt (tr_blocks r))),
      (''byte_offset'', JInt (tr_offset r)), (''byte_length'', JInt (tr_length r)),
      (''top_k'', (case tr_top_k r of None \<Rightarrow> JNull | Some k \<Rightarrow> JInt k)),
      (''timestamp_us'', (case tr_time r of None \<Rightarrow> JNull | Some t \<Rightarrow> JFloat t)), (''metadata'', JObj (tr_meta r))]"

text \<open>The blocks a layer asks for: sinks, a strided piece of the middle, the recent window; sorted.\<close>

definition gen_candidates :: "int \<Rightarrow> int \<Rightarrow> int \<Rightarrow> int list" where
  "gen_candidates nblk step l =
     (let cur = min nblk ((step + 1) * 32 + 64); rs = max 0 (cur - 16);
          off = (if 4 < rs then (l * 3) mod max 1 (rs - 4) else 0)
      in sort (remdups ([0..min 4 nblk - 1] @ [4 + off..min rs (4 + off + 12) - 1] @ [rs..cur - 1])))"

definition gen_record :: "gen_config \<Rightarrow> int \<Rightarrow> int \<Rightarrow> int \<Rightarrow> int \<Rightarrow> int \<Rightarrow> trace_record" where
  "gen_record g nblk top_k step l seq =
     (let cs = gen_candidates nblk step l
      in \<lparr>tr_seq = seq, tr_step = step, tr_layer = l, tr_head = 0, tr_op = ''KV_TOPK'', tr_blocks = cs,
          tr_offset = 0, tr_length = int (length cs) * gen_block_bytes g, tr_top_k = Some (min top_k (int (length cs))),
          tr_time = Some (of_int seq * 50), tr_meta = []\<rparr>)"

fun gen_layers :: "gen_config \<Rightarrow> int \<Rightarrow> int \<Rightarrow> int \<Rightarrow> int list \<Rightarrow> int \<Rightarrow> trace_record list \<times> int" where
  "gen_layers g nblk k step [] seq = ([], seq)"
| "gen_layers g nblk k step (l # ls) seq =
     (let (rs, seq') = gen_layers g nblk k step ls (seq + 1) in (gen_record g nblk k step l seq # rs, seq'))"

fun gen_steps :: "gen_config \<Rightarrow> int \<Rightarrow> int \<Rightarrow> int list \<Rightarrow> int \<Rightarrow> trace_record list \<times> int" where
  "gen_steps g nblk k [] seq = ([], seq)"
| "gen_steps g nblk k (st # sts) seq =
     (let (rs, seq1) = gen_layers g nblk k st [0..gc_layers g - 1] seq; (rs', seq2) = gen_steps g nblk k sts seq1
      in (rs @ rs', seq2))"

text \<open>The lines written and the number returned; \<open>now\<close> is the time stamp of the header.\<close>

definition generate_trace :: "gen_config \<Rightarrow> string \<Rightarrow> int \<Rightarrow> int \<Rightarrow> (trace_line list \<times> int) res" where
  "generate_trace g now steps k =
     (if gc_tpb g = 0 then Inl ZeroDivisionError
      else (let nblk = gc_context g div gc_tpb g;
                h = \<lparr>hd_version = JStr ''v2.0'', hd_meta = gen_meta g, hd_total = JInt (steps * gc_layers g),
                     hd_created = JStr now, hd_source = JStr ''P3_SYNTHETIC_GENERATOR''\<rparr>;
                (rs, n) = gen_steps g nblk k [0..steps - 1] 0
            in Inr (LJson (JObj (header_to_dict h)) # map (\<lambda>r. LJson (JObj (trace_record_to_dict r))) rs, n)))"

section \<open>Validated records\<close>

text \<open>What the validator promises of a record that follows event \<open>prev\<close>.\<close>

definition json_below :: "int \<Rightarrow> json \<Rightarrow> bool" where
  "json_below n v \<longleftrightarrow> 0 \<le> n \<and> py_ge n v = Inr False"

definition canon_valid :: "json \<Rightarrow> json \<Rightarrow> int \<Rightarrow> canon \<Rightarrow> bool" where
  "canon_valid ml mh prev c \<longleftrightarrow> prev < ca_event c \<and> json_below (ca_layer c) ml \<and> json_below (ca_head c) mh \<and>
     0 < ca_bytes c \<and> 0 \<le> ca_block c"

abbreviation layer_bound :: "reader \<Rightarrow> json" where
  "layer_bound r \<equiv> rd_bound mf_num_layers mm_num_layers 128 r"

abbreviation head_bound :: "reader \<Rightarrow> json" where
  "head_bound r \<equiv> rd_bound mf_num_kv_heads mm_num_heads 64 r"

lemma rd_bound_last [simp]: "rd_bound fm fh n (r\<lparr>rd_last := i\<rparr>) = rd_bound fm fh n r"
  by (simp add: rd_bound_def split: option.split)

lemma rd_check_run: "rd_check b r = (case b of Inl e \<Rightarrow> (Inl e, r) | Inr bad \<Rightarrow> (if bad then Inl ValueError else Inr (), r))"
  by (simp add: rd_check_def split: sum.split)

lemma json_below_bounds: "json_below n v \<longleftrightarrow> rd_in_bounds n v = Inr False"
  by (auto simp: json_below_def rd_in_bounds_def rbind_Inr_iff)

text \<open>The validator accepts exactly the valid records; it remembers the event id either way, once it is larger.\<close>

lemma rd_validate_ok:
  "fst (rd_validate c r) = Inr () \<longleftrightarrow> canon_valid (layer_bound r) (head_bound r) (rd_last r) c"
  unfolding rd_validate_def canon_valid_def json_below_bounds
  by (cases "rd_in_bounds (ca_layer c) (layer_bound r)"; cases "rd_in_bounds (ca_head c) (head_bound r)")
    (auto simp: meth_run(2) [of "rd_check _"] rd_check_run)

lemma rd_validate_state:
  "snd (rd_validate c r) = (if rd_last r < ca_event c then r\<lparr>rd_last := ca_event c\<rparr> else r)"
  unfolding rd_validate_def
  by (cases "rd_in_bounds (ca_layer c) (layer_bound r)"; cases "rd_in_bounds (ca_head c) (head_bound r)")
    (auto simp: meth_run(2) [of "rd_check _"] rd_check_run)

lemma rd_record_state: "\<exists>i. snd (rd_record p v r) = r\<lparr>rd_last := i\<rparr>"
proof -
  have same: "\<exists>i. r = r\<lparr>rd_last := i\<rparr>" by (intro exI [of _ "rd_last r"]) simp
  show ?thesis
  proof (cases v)
    case (JObj d)
    show ?thesis
    proof (cases "canon_from_dict p d")
      case (Inr c)
      have "snd (rd_record p v r) = snd (rd_validate c r)"
        by (simp add: rd_record_def JObj Inr meth_run split: prod.split sum.split)
      then show ?thesis using same by (auto simp: rd_validate_state)
    qed (use same in \<open>simp add: rd_record_def JObj\<close>)
  qed (use same in \<open>simp_all add: rd_record_def\<close>)
qed

lemma rd_record_ok:
  assumes "rd_record p v r = (Inr c, r')"
  shows "canon_valid (layer_bound r) (head_bound r) (rd_last r) c \<and> r' = r\<lparr>rd_last := ca_event c\<rparr> \<and>
    (\<exists>d. v = JObj d \<and> canon_from_dict p d = Inr c)"
proof -
  obtain d where d: "v = JObj d" "canon_from_dict p d = Inr c" "fst (rd_validate c r) = Inr ()" "snd (rd_validate c r) = r'"
    using assms by (auto simp: rd_record_def meth_run split: json.splits sum.splits prod.splits)
  then have "canon_valid (layer_bound r) (head_bound r) (rd_last r) c" by (simp add: rd_validate_ok)
  with d rd_validate_state [of c r] show ?thesis by (simp add: canon_valid_def)
qed

text \<open>Increasing event ids, every record valid.\<close>

fun stream_valid :: "json \<Rightarrow> json \<Rightarrow> int \<Rightarrow> canon list \<Rightarrow> bool" where
  "stream_valid ml mh prev [] = True"
| "stream_valid ml mh prev (c # cs) = (canon_valid ml mh prev c \<and> stream_valid ml mh (ca_event c) cs)"

lemma rd_lines_valid:
  "rd_lines p ls r = ((cs, e), r') \<Longrightarrow> stream_valid (layer_bound r) (head_bound r) (rd_last r) cs \<and>
     rd_manifest r' = rd_manifest r \<and> rd_header r' = rd_header r"
proof (induction p ls r arbitrary: cs e r' rule: rd_lines.induct)
  case (4 p v ls r)
  show ?case
  proof (cases "rd_record p v r")
    case (Pair x r1)
    show ?thesis
    proof (cases x)
      case (Inl er)
      obtain i where "r1 = r\<lparr>rd_last := i\<rparr>" using rd_record_state [of p v r] Pair by auto
      with 4(2) Inl Pair show ?thesis by auto
    next
      case (Inr c)
      note rec = rd_record_ok [OF Pair [unfolded Inr]]
      obtain cs1 e1 r2 where l: "rd_lines p ls r1 = ((cs1, e1), r2)" by (metis prod.exhaust)
      from 4(1) [OF Pair [symmetric] Inr l] rec have
        "stream_valid (layer_bound r) (head_bound r) (ca_event c) cs1 \<and> rd_manifest r2 = rd_manifest r \<and> rd_header r2 = rd_header r"
        by simp
      with rec 4(2) Inr Pair l show ?thesis by auto
    qed
  qed
qed auto

lemma stream_valid_sorted: "stream_valid ml mh prev cs \<Longrightarrow> sorted_wrt (<) (prev # map ca_event cs)"
proof (induction cs arbitrary: prev)
  case (Cons c cs)
  then have "sorted_wrt (<) (ca_event c # map ca_event cs)" "prev < ca_event c" by (auto simp: canon_valid_def)
  then show ?case by (auto dest: less_trans)
qed simp

lemma stream_valid_all: "stream_valid ml mh prev cs \<Longrightarrow> c \<in> set cs \<Longrightarrow>
  json_below (ca_layer c) ml \<and> json_below (ca_head c) mh \<and> 0 < ca_bytes c \<and> 0 \<le> ca_block c"
  by (induction cs arbitrary: prev) (auto simp: canon_valid_def)

section \<open>Reading back a synthetic trace\<close>

lemma jget_simps [simp]:
  "jget k [] = JNull" "jget k ((j, v) # d) = (if k = j then v else jget k d)"
  "jget_or k w [] = w" "jget_or k w ((j, v) # d) = (if k = j then v else jget_or k w d)"
  by (auto simp: jget_def jget_or_def)

lemma gen_candidates_first:
  assumes "0 < nblk"
  shows "\<exists>bs. gen_candidates nblk step l = 0 # bs"
proof -
  let ?cs = "gen_candidates nblk step l"
  have mem: "0 \<in> set ?cs" using assms by (simp add: gen_candidates_def Let_def)
  have nonneg: "0 \<le> x" if "0 \<le> off" "x \<in> set (sort (remdups ([0..a] @ [4 + off..b] @ [max 0 c..d])))" for x off a b c d :: int
    using that by auto
  have "0 \<le> x" if "x \<in> set ?cs" for x
    using that unfolding gen_candidates_def Let_def by (elim nonneg [rotated]) simp
  then have ge: "\<forall>x\<in>set ?cs. 0 \<le> x" by blast
  have "sorted ?cs" by (simp add: gen_candidates_def Let_def)
  with mem ge show ?thesis by (cases ?cs) (auto simp: order.antisym)
qed

text \<open>A synthetic record parses to a canonical one that keeps the event, the layer and the first block only.\<close>

definition gen_canon :: "gen_config \<Rightarrow> int \<Rightarrow> int \<Rightarrow> int \<Rightarrow> int \<Rightarrow> canon" where
  "gen_canon g nblk step l seq = \<lparr>ca_event = seq, ca_step = step, ca_layer = l, ca_head = 0, ca_op = ''KV_TOPK'',
     ca_block = 0, ca_tstart = 0, ca_tend = None, ca_tcount = 16, ca_sub = ''BOTH'',
     ca_bytes = int (length (gen_candidates nblk step l)) * gen_block_bytes g, ca_tier = ''SSD'', ca_hot = 1,
     ca_cand = [], ca_sel = [], ca_query = JNull, ca_ts = seq * 50000, ca_meta = JObj []\<rparr>"

lemma gen_record_parses:
  assumes "0 < nblk"
  shows "canon_from_dict p (trace_record_to_dict (gen_record g nblk k step l seq)) = Inr (gen_canon g nblk step l seq)"
proof -
  obtain bs where cs: "gen_candidates nblk step l = 0 # bs" using gen_candidates_first [OF assms] by blast
  have "(0 \<le> real_of_int seq * 50 * 1000 \<longrightarrow> \<lfloor>real_of_int seq * 50 * 1000\<rfloor> = seq * 50000) \<and>
      \<lceil>real_of_int seq * 50 * 1000\<rceil> = seq * 50000"
    using floor_of_int [of "seq * 50000", where 'a = real] ceiling_of_int [of "seq * 50000", where 'a = real]
    by (simp add: mult.assoc)
  then show ?thesis
    by (simp add: canon_from_dict_def trace_record_to_dict_def gen_record_def Let_def cs canon_event_def or_else_def
        canon_bytes_def canon_op_def gen_canon_def)
qed

definition gen_lines :: "trace_record list \<Rightarrow> trace_line list" where
  "gen_lines = map (\<lambda>r. LJson (JObj (trace_record_to_dict r)))"

definition gen_ok :: "gen_config \<Rightarrow> reader \<Rightarrow> bool" where
  "gen_ok g r \<longleftrightarrow> 0 < gc_tpb g \<and> 0 < gc_head_dim g \<and> 0 < gc_heads g \<and>
     layer_bound r = JInt (gc_layers g) \<and> head_bound r = JInt (gc_heads g)"

lemma rd_record_gen:
  assumes "gen_ok g r" "0 < nblk" "rd_last r < seq" "0 \<le> l" "l < gc_layers g"
  shows "rd_record p (JObj (trace_record_to_dict (gen_record g nblk k step l seq))) r =
    (Inr (gen_canon g nblk step l seq), r\<lparr>rd_last := seq\<rparr>)"
proof -
  let ?c = "gen_canon g nblk step l seq"
  obtain bs where cs: "gen_candidates nblk step l = 0 # bs" using gen_candidates_first [OF assms(2)] by blast
  have "0 < gen_block_bytes g" using assms(1) by (simp add: gen_ok_def gen_block_bytes_def)
  then have "0 < ca_bytes ?c" by (simp add: gen_canon_def cs)
  then have "canon_valid (layer_bound r) (head_bound r) (rd_last r) ?c"
    using assms by (simp add: canon_valid_def gen_ok_def gen_canon_def json_below_def)
  then have "fst (rd_validate ?c r) = Inr ()" by (simp add: rd_validate_ok)
  moreover have "snd (rd_validate ?c r) = r\<lparr>rd_last := seq\<rparr>"
    using assms(3) by (simp add: rd_validate_state gen_canon_def)
  ultimately have "rd_validate ?c r = (Inr (), r\<lparr>rd_last := seq\<rparr>)" by (metis prod.collapse)
  then show ?thesis by (simp add: rd_record_def gen_record_parses [OF assms(2)] meth_run)
qed

lemma gen_ok_last [simp]: "gen_ok g (r\<lparr>rd_last := i\<rparr>) = gen_ok g r"
  by (simp add: gen_ok_def)

text \<open>The layers of one step, numbered from \<open>seq\<close>.\<close>

lemma rd_gen_layers:
  assumes "gen_ok g r" "0 < nblk" "rd_last r < seq" "\<forall>l\<in>set ls. 0 \<le> l \<and> l < gc_layers g"
    and "gen_layers g nblk k step ls seq = (rs, seq')"
    and "rd_lines p rest (r\<lparr>rd_last := (if ls = [] then rd_last r else seq' - 1)\<rparr>) = ((cs, e), r')"
  shows "seq' = seq + int (length ls) \<and>
    rd_lines p (gen_lines rs @ rest) r = ((map2 (gen_canon g nblk step) ls [seq..seq' - 1] @ cs, e), r')"
  using assms
proof (induction ls arbitrary: r seq rs)
  case (Cons l ls)
  obtain rs1 where g1: "gen_layers g nblk k step ls (seq + 1) = (rs1, seq')" "rs = gen_record g nblk k step l seq # rs1"
    using Cons.prems(5) by (auto split: prod.splits)
  have e1: "seq' = seq + 1" if "ls = []" using g1(1) that by simp
  have "rd_lines p rest (r\<lparr>rd_last := seq, rd_last := (if ls = [] then seq else seq' - 1)\<rparr>) = ((cs, e), r')"
    using Cons.prems(6) e1 by (cases "ls = []") simp_all
  then have IH: "seq' = seq + 1 + int (length ls) \<and>
      rd_lines p (gen_lines rs1 @ rest) (r\<lparr>rd_last := seq\<rparr>) =
        ((map2 (gen_canon g nblk step) ls [seq + 1..seq' - 1] @ cs, e), r')"
    using Cons.prems(1-4) g1(1) by (intro Cons.IH) (simp_all cong: if_cong split del: if_split)
  have "[seq..seq' - 1] = seq # [seq + 1..seq' - 1]" using IH by (intro upto_rec1) simp
  with IH show ?case
    using rd_record_gen [OF Cons.prems(1-3), of l p k step] Cons.prems(4) g1(2)
    by (simp add: gen_lines_def)
qed (simp add: gen_lines_def)

lemma gen_layers_counts:
  "gen_layers g nblk k step ls seq = (rs, seq') \<Longrightarrow> seq' = seq + int (length ls) \<and> length rs = length ls"
  by (induction ls arbitrary: seq rs) (fastforce split: prod.splits)+

lemma rd_gen_steps:
  assumes "gen_ok g r" "0 < nblk" "rd_last r = seq - 1" "gen_steps g nblk k sts seq = (rs, seq')"
  shows "\<exists>cs r'. rd_lines p (gen_lines rs) r = ((cs, None), r') \<and>
    map ca_event cs = [seq..seq' - 1] \<and> (\<forall>c\<in>set cs. ca_block_ids c = [JInt 0]) \<and>
    seq' = seq + int (length sts) * max 0 (gc_layers g)"
  using assms
proof (induction sts arbitrary: r seq rs)
  case Nil
  then show ?case by (simp add: gen_lines_def)
next
  case (Cons st sts)
  let ?ls = "[0..gc_layers g - 1]"
  obtain rs1 seq1 rs2 where g: "gen_layers g nblk k st ?ls seq = (rs1, seq1)" "gen_steps g nblk k sts seq1 = (rs2, seq')"
    "rs = rs1 @ rs2"
    using Cons.prems(4) by (auto simp: Let_def split: prod.splits)
  have n: "seq1 = seq + max 0 (gc_layers g)" using gen_layers_counts [OF g(1)] by auto
  let ?r1 = "r\<lparr>rd_last := (if ?ls = [] then rd_last r else seq1 - 1)\<rparr>"
  have "rd_last ?r1 = seq1 - 1" using n Cons.prems(3) by (auto simp: max_def)
  then obtain cs2 r' where IH: "rd_lines p (gen_lines rs2) ?r1 = ((cs2, None), r')" "map ca_event cs2 = [seq1..seq' - 1]"
    "\<forall>c\<in>set cs2. ca_block_ids c = [JInt 0]" "seq' = seq1 + int (length sts) * max 0 (gc_layers g)"
    using Cons.IH [of ?r1 seq1 rs2] Cons.prems(1,2) g(2) by auto
  let ?cs1 = "map2 (gen_canon g nblk st) ?ls [seq..seq1 - 1]"
  have "rd_lines p (gen_lines rs1 @ gen_lines rs2) r = ((?cs1 @ cs2, None), r')"
    using rd_gen_layers [OF Cons.prems(1,2) _ _ g(1) IH(1)] Cons.prems(3) by simp
  moreover have "map ca_event ?cs1 = [seq..seq1 - 1]"
  proof -
    have "length ?ls = length [seq..seq1 - 1]" using n by simp
    then have "map (\<lambda>x. snd x) (zip ?ls [seq..seq1 - 1]) = [seq..seq1 - 1]" by (rule map_snd_zip)
    then show ?thesis by (simp add: comp_def case_prod_beta gen_canon_def)
  qed
  moreover have "[seq..seq1 - 1] @ [seq1..seq' - 1] = [seq..seq' - 1]"
  proof -
    have "0 \<le> int (length sts) * max 0 (gc_layers g)" by simp
    then have "seq \<le> seq1" "seq1 \<le> seq'" using n IH(4) by linarith+
    then show ?thesis using upto_split1 [of seq seq1 "seq' - 1"] by (cases "seq1 = seq'") simp_all
  qed
  moreover have "\<forall>c\<in>set ?cs1. ca_block_ids c = [JInt 0]"
    by (auto simp: gen_canon_def ca_block_ids_def)
  ultimately show ?case using IH n g(3)
    by (intro exI [of _ "?cs1 @ cs2"] exI [of _ r']) (auto simp: gen_lines_def algebra_simps)
qed

section \<open>Properties\<close>

text \<open>C7: What the reader yields is well typed and in order: however reading ends, the event ids of the
  records delivered increase strictly from zero or more, every layer and head lies in the range
  the manifest, else the header, else the default gives, sizes are positive and block ids are
  not negative.\<close>

theorem reader_yields_valid:
  assumes "read_records p file r0 = ((cs, e), r)" "c \<in> set cs"
  shows "sorted_wrt (<) (-1 # map ca_event cs) \<and> json_below (ca_layer c) (layer_bound r) \<and>
    json_below (ca_head c) (head_bound r) \<and> 0 < ca_bytes c \<and> 0 \<le> ca_block c"
proof -
  obtain r1 ls where l: "rd_lines p ls r1 = ((cs, e), r)" "rd_last r1 = -1"
    using assms
    by (auto simp: read_records_def Let_def simp del: rd_lines.simps
        split: option.splits list.splits trace_line.splits sum.splits bool.splits)
  from rd_lines_valid [OF l(1)] have v: "stream_valid (layer_bound r1) (head_bound r1) (-1) cs"
    "rd_manifest r = rd_manifest r1" "rd_header r = rd_header r1" by (simp_all add: l(2))
  have "layer_bound r = layer_bound r1" "head_bound r = head_bound r1"
    unfolding rd_bound_def v(2,3) by (rule refl)+
  with stream_valid_sorted [OF v(1)] stream_valid_all [OF v(1) assms(2)] show ?thesis by simp
qed

definition some_std :: pystd where
  "some_std = \<lparr>py_repr = (\<lambda>_. ''[]''), py_float_of = (\<lambda>_. None)\<rparr>"

definition empty_reader :: reader where
  "empty_reader = \<lparr>rd_manifest = None, rd_header = None, rd_last = 5\<rparr>"

definition p1_line :: "int \<Rightarrow> trace_line" where
  "p1_line i = LJson (JObj [(''seq_id'', JInt i), (''op'', JStr ''KV_READ''), (''byte_length'', JInt 4096)])"

lemma reader_yields_valid_witness:
  "\<exists>c r. read_records some_std (Some [p1_line 3]) empty_reader = (([c], None), r) \<and>
     sorted_wrt (<) [-1, ca_event c] \<and> 0 < ca_bytes c"
proof -
  let ?r = "empty_reader\<lparr>rd_last := -1\<rparr>"
  let ?d = "[(''seq_id'', JInt 3), (''op'', JStr ''KV_READ''), (''byte_length'', JInt 4096)]"
  obtain c where c: "canon_from_dict some_std ?d = Inr c" "ca_event c = 3" "ca_layer c = 0" "ca_head c = 0" "ca_bytes c = 4096"
    "ca_block c = 0"
    by (simp add: canon_from_dict_def canon_event_def or_else_def canon_bytes_def canon_op_def Let_def)
  have "fst (rd_validate c ?r) = Inr ()"
    by (simp add: rd_validate_ok canon_valid_def c json_below_def rd_bound_def empty_reader_def)
  moreover obtain r where "snd (rd_validate c ?r) = r" by simp
  ultimately have "rd_validate c ?r = (Inr (), r)" by (metis prod.collapse)
  then have run: "read_records some_std (Some [p1_line 3]) empty_reader = (([c], None), r)"
    using c(1) by (simp add: read_records_def p1_line_def dmem_def Let_def rd_record_def meth_run)
  from reader_yields_valid [OF run, of c] run show ?thesis by simp
qed

text \<open>Round trip of a canonical record through its dictionary: every field comes back, except that an
  empty operation is read as \<open>DECODE_READ\<close>.\<close>

theorem canon_roundtrip:
  "canon_from_dict p (canon_to_dict c) = Inr (c\<lparr>ca_op := (if ca_op c = [] then ''DECODE_READ'' else ca_op c)\<rparr>)"
  by (cases c) (simp add: canon_from_dict_def canon_to_dict_def canon_event_def or_else_def canon_op_def canon_bytes_def
      Let_def split: option.split)

text \<open>A synthetic trace is accepted by the reader: for a model with positive sizes and at least one block
  of context, reading back what the generator writes yields one record per step and layer, with the
  event ids \<open>0, 1, 2, ...\<close> and as many as the generator reports. But each record keeps only
  the first of its candidate blocks: all of them name block 0.\<close>

theorem synthetic_trace_accepted:
  assumes "0 < gc_tpb g" "0 < gc_head_dim g" "0 < gc_heads g" "gc_tpb g \<le> gc_context g" "rd_manifest r0 = None"
    and "generate_trace g now steps k = Inr (ls, n)"
  shows "\<exists>cs r. load_all p (Some ls) r0 = (Inr cs, r) \<and> map ca_event cs = [0..n - 1] \<and>
    n = max 0 steps * max 0 (gc_layers g) \<and> (\<forall>c\<in>set cs. ca_block_ids c = [JInt 0])"
proof -
  let ?nblk = "gc_context g div gc_tpb g"
  let ?h = "\<lparr>hd_version = JStr ''v2.0'', hd_meta = gen_meta g, hd_total = JInt (steps * gc_layers g),
     hd_created = JStr now, hd_source = JStr ''P3_SYNTHETIC_GENERATOR''\<rparr>"
  have nb: "0 < ?nblk" using assms(1,4) by (simp add: pos_imp_zdiv_pos_iff)
  obtain rs where rs: "gen_steps g ?nblk k [0..steps - 1] 0 = (rs, n)"
    "ls = LJson (JObj (header_to_dict ?h)) # gen_lines rs"
    using assms(1,6) by (auto simp: generate_trace_def Let_def gen_lines_def split: prod.splits)
  let ?r = "r0\<lparr>rd_last := -1, rd_header := Some ?h\<rparr>"
  have h: "rd_header_line (JObj (header_to_dict ?h)) = Inr ?h"
    by (simp add: rd_header_line_def header_to_dict_def rd_version_ok_def SUPPORTED_VERSIONS_def header_from_dict_def
        of_option_def model_meta_from_def model_meta_to_dict_def gen_meta_def dmem_def Let_def)
  have "gen_ok g ?r" using assms by (simp add: gen_ok_def rd_bound_def gen_meta_def)
  from rd_gen_steps [OF this nb _ rs(1), of p] obtain cs r' where
    "rd_lines p (gen_lines rs) ?r = ((cs, None), r')" "map ca_event cs = [0..n - 1]" "\<forall>c\<in>set cs. ca_block_ids c = [JInt 0]"
    "n = max 0 steps * max 0 (gc_layers g)"
    by (auto simp: max_def)
  then show ?thesis using h
    by (simp add: load_all_def read_records_def rs(2) Let_def)
      (simp add: header_to_dict_def dmem_def)
qed

definition tiny_gen :: gen_config where
  "tiny_gen = \<lparr>gc_model_name = ''m'', gc_layers = 2, gc_heads = 1, gc_head_dim = 8, gc_dtype = ''FP16'', gc_context = 64, gc_tpb = 16\<rparr>"

lemma synthetic_trace_accepted_witness:
  "\<exists>ls n cs r. generate_trace tiny_gen ''t'' 3 16 = Inr (ls, n) \<and> load_all some_std (Some ls) empty_reader = (Inr cs, r) \<and>
     map ca_event cs = [0, 1, 2, 3, 4, 5]"
proof -
  obtain rs m where "gen_steps tiny_gen (gc_context tiny_gen div gc_tpb tiny_gen) 16 [0..3 - 1] 0 = (rs, m)" by fastforce
  moreover have "gc_tpb tiny_gen \<noteq> 0" by (simp add: tiny_gen_def)
  ultimately obtain ls n where g: "generate_trace tiny_gen ''t'' 3 16 = Inr (ls, n)"
    by (simp only: generate_trace_def Let_def if_False prod.case)
  from synthetic_trace_accepted [OF _ _ _ _ _ g, of empty_reader some_std] obtain cs r where
    "load_all some_std (Some ls) empty_reader = (Inr cs, r)" "map ca_event cs = [0..n - 1]" "n = 6"
    by (auto simp: tiny_gen_def empty_reader_def)
  with g show ?thesis by (auto simp: upto_rec1)
qed

end
