(* ===== verification/Replay.thy ===== *)
theory Replay
  imports Trace TensorMapper StorageSim "HOL-Library.List_Lexorder" "HOL-Library.Char_ord"
begin

text \<open>
  The trace replayer, \<open>person2_ssd/trace_replay/replayer.py\<close>: strict validation of records, trace
  discovery and synthesis, and the replay that maps every record to a channel and a die, accounts
  its bytes and times the reads in batches. Directories are the lists of their file names; elapsed
  wall-clock time is left out of the report. The replay takes records whose token and block
  positions are integers (\<open>validate_record\<close> lets other JSON values through).
\<close>

section \<open>Validation\<close>

definition VALID_OPERATIONS :: "string list" where
  "VALID_OPERATIONS = [''PREFILL_WRITE'', ''DECODE_READ'', ''TOPK_FILTER'', ''TOPK_FETCH'', ''WRITE'', ''READ'']"

record vrec =
  vr_event :: json
  vr_op :: string
  vr_layer :: int
  vr_head :: int
  vr_token :: json
  vr_block :: json
  vr_bytes :: int
  vr_sub :: string
  vr_raw :: jobj

text \<open>\<open>isinstance(v, int)\<close>: integers and booleans.\<close>

fun as_pyint :: "json \<Rightarrow> int option" where
  "as_pyint (JInt n) = Some n"
| "as_pyint (JBool b) = Some (of_bool b)"
| "as_pyint v = None"

fun py_floordiv :: "json \<Rightarrow> int \<Rightarrow> json res" where
  "py_floordiv (JInt n) k = Inr (JInt (n div k))"
| "py_floordiv (JBool b) k = Inr (JInt (of_bool b div k))"
| "py_floordiv (JFloat x) k = Inr (JFloat (of_int \<lfloor>x / of_int k\<rfloor>))"
| "py_floordiv v k = Inl TypeError"

definition pick :: "string \<Rightarrow> string \<Rightarrow> jobj \<Rightarrow> json" where
  "pick a b d = (if jget a d \<noteq> JNull then jget a d else jget b d)"

definition int_at_least :: "int \<Rightarrow> json \<Rightarrow> int res" where
  "int_at_least m v = (case as_pyint v of Some n \<Rightarrow> if n < m then Inl ValueError else Inr n | None \<Rightarrow> Inl ValueError)"

text \<open>A truthy operation that is no string prints as no valid operation.\<close>

definition valid_op :: "json \<Rightarrow> string res" where
  "valid_op v = (case v of
     JStr s \<Rightarrow> if upper_str s \<in> set VALID_OPERATIONS then Inr (upper_str s) else Inl ValueError
   | _ \<Rightarrow> Inl ValueError)"

definition validate_record :: "pystd \<Rightarrow> jobj \<Rightarrow> int \<Rightarrow> vrec res" where
  "validate_record p item line =
     rbind (valid_op (if truthy (jget ''operation'' item) then jget ''operation'' item else jget ''op'' item)) (\<lambda>op.
     rbind (int_at_least 0 (jget ''layer_id'' item)) (\<lambda>layer.
     rbind (int_at_least 0 (pick ''head_id'' ''kv_head_id'' item)) (\<lambda>head.
     rbind (int_at_least 1 (pick ''byte_size'' ''bytes'' item)) (\<lambda>n.
     (let tok = pick ''token_start'' ''token_idx'' item; blk = jget ''block_id'' item
      in if tok = JNull \<and> blk = JNull then Inl ValueError
         else rbind (if blk \<noteq> JNull then Inr blk else py_floordiv tok 16) (\<lambda>blk'.
           Inr \<lparr>vr_event = jget_or ''event_id'' (jget_or ''seq_id'' (JInt line) item) item, vr_op = op,
                vr_layer = layer, vr_head = head, vr_token = (if tok \<noteq> JNull then tok else JInt 0), vr_block = blk',
                vr_bytes = n, vr_sub = upper_str (py_str p (jget_or ''sub_page'' (JStr ''BOTH'') item)),
                vr_raw = item\<rparr>))))))"

fun load_trace :: "pystd \<Rightarrow> trace_line list \<Rightarrow> int \<Rightarrow> vrec list res" where
  "load_trace p [] line = Inr []"
| "load_trace p (LBlank # ls) line = load_trace p ls (line + 1)"
| "load_trace p (LBad # ls) line = Inl ValueError"
| "load_trace p (LJson v # ls) line =
     (case v of
        JObj d \<Rightarrow> rbind (validate_record p d line) (\<lambda>r. rbind (load_trace p ls (line + 1)) (\<lambda>rs. Inr (r # rs)))
      | _ \<Rightarrow> Inl AttributeError)"

section \<open>Discovery\<close>

fun py_replace :: "string \<Rightarrow> string \<Rightarrow> nat \<Rightarrow> string \<Rightarrow> string" where
  "py_replace old new skip [] = []"
| "py_replace old new (Suc n) (c # cs) = py_replace old new n cs"
| "py_replace old new 0 (c # cs) =
     (if old \<noteq> [] \<and> take (length old) (c # cs) = old
      then new @ py_replace old new (length old - 1) cs else c # py_replace old new 0 cs)"

text \<open>
  The file chosen in a directory, and its manifest when one is there and can be parsed. The
  directory is given by its path and the names in it (\<open>None\<close> when it does not exist), the manifests
  by their paths.
\<close>

definition discover_trace_file ::
    "string \<Rightarrow> string list option \<Rightarrow> (string \<Rightarrow> manifest_file) \<Rightarrow> string option \<Rightarrow> (string \<times> json option) res" where
  "discover_trace_file dir names fs trace_name =
     (case names of
        None \<Rightarrow> Inl OSError
      | Some ns \<Rightarrow>
          rbind (case trace_name of
                   Some (c # cs) \<Rightarrow>
                     if (c # cs) \<notin> set ns then Inl OSError
                     else if \<not> ends_with (c # cs) ''.jsonl'' then Inl ValueError else Inr (c # cs)
                 | _ \<Rightarrow>
                     (let files = sort (filter (\<lambda>n. ends_with n ''.jsonl'') ns);
                          preferred = filter (is_substring ''context512'') files
                      in if files = [] then Inl OSError
                         else Inr (if preferred \<noteq> [] then hd preferred else hd files)))
            (\<lambda>f. let path = dir @ ''/'' @ f
                 in Inr (path, (case fs (py_replace ''.jsonl'' ''.manifest.json'' 0 path) of
                                  Some (Inr v) \<Rightarrow> Some v | _ \<Rightarrow> None))))"

section \<open>Synthetic traces\<close>

definition synth_item :: "string \<Rightarrow> int \<Rightarrow> int \<Rightarrow> int \<Rightarrow> int \<Rightarrow> int \<Rightarrow> jobj" where
  "synth_item op ev l h t blk =
     [(''event_id'', JInt ev), (''operation'', JStr op), (''layer_id'', JInt l), (''head_id'', JInt h),
      (''token_start'', JInt t), (''block_id'', JInt blk), (''byte_size'', JInt 8192), (''sub_page'', JStr ''BOTH'')]"

definition synth_write :: "pystd \<Rightarrow> int \<times> int \<times> int \<times> int \<Rightarrow> vrec res" where
  "synth_write p x = (case x of (ev, l, h, t) \<Rightarrow> validate_record p (synth_item ''PREFILL_WRITE'' ev l h t ev) 0)"

definition synth_read :: "pystd \<Rightarrow> int \<Rightarrow> int \<Rightarrow> int \<times> int \<times> int \<times> int \<Rightarrow> vrec res" where
  "synth_read p nh seq x = (case x of (ev, st, l, h) \<Rightarrow>
     if seq = 0 then Inl ZeroDivisionError
     else (let t = (st * 16 + h * 32) mod seq
           in validate_record p (synth_item ''DECODE_READ'' ev l h t ((l * nh + h) * 44 + t div 16)) 0))"

text \<open>The event counter numbers the writes and goes on through the reads.\<close>

definition synthesize_trace :: "pystd \<Rightarrow> int \<Rightarrow> int \<Rightarrow> int \<Rightarrow> vrec list res" where
  "synthesize_trace p nl nh seq =
     (let ws = points3 [0..nl - 1] [0..nh - 1] (map (\<lambda>i. 16 * i) [0..ceil_div seq 16 - 1]);
          rs = points3 [0..15] [0..nl - 1] [0..nh - 1]; n = int (length ws)
      in rbind (map_res (synth_write p) (zip [0..n - 1] ws)) (\<lambda>xs.
         rbind (map_res (synth_read p nh seq) (zip [n..n + int (length rs) - 1] rs)) (\<lambda>ys.
           Inr (xs @ ys))))"

text \<open>Any exception of discovery or loading falls back to the synthetic trace.\<close>

definition discover_or_synthesize ::
    "pystd \<Rightarrow> string \<Rightarrow> string list option \<Rightarrow> (string \<Rightarrow> manifest_file) \<Rightarrow> (string \<Rightarrow> trace_line list) \<Rightarrow>
      int \<Rightarrow> int \<Rightarrow> int \<Rightarrow> vrec list res" where
  "discover_or_synthesize p dir names fs files nl nh seq =
     (case rbind (discover_trace_file dir names fs None) (\<lambda>(f, _). load_trace p (files f) 1) of
        Inr rs \<Rightarrow> Inr rs
      | Inl _ \<Rightarrow> synthesize_trace p nl nh seq)"

section \<open>Replay\<close>

record rrec =
  rr_op :: string
  rr_layer :: int
  rr_head :: int
  rr_token :: int
  rr_block :: int
  rr_bytes :: int
  rr_sub :: string

definition int_record :: "vrec \<Rightarrow> rrec option" where
  "int_record v = (case (as_pyint (vr_token v), as_pyint (vr_block v)) of
     (Some t, Some b) \<Rightarrow> Some \<lparr>rr_op = vr_op v, rr_layer = vr_layer v, rr_head = vr_head v, rr_token = t,
        rr_block = b, rr_bytes = vr_bytes v, rr_sub = vr_sub v\<rparr>
   | _ \<Rightarrow> None)"

record replayer =
  ry_channels :: int
  ry_dies :: int
  ry_depth :: int
  ry_tpb :: int
  ry_mapper :: tensor_mapper

definition new_replayer :: "int \<Rightarrow> int \<Rightarrow> int \<Rightarrow> int \<Rightarrow> int \<Rightarrow> int \<Rightarrow> replayer" where
  "new_replayer c d qd nl nh tpb = \<lparr>ry_channels = c, ry_dies = d, ry_depth = qd, ry_tpb = tpb,
     ry_mapper = new_mapper c d SSD_PLANES_PER_DIE 64 SSD_PAGES_PER_BLOCK 4096 32768 nl nh\<rparr>"

record replay_st =
  rp_counters :: "(int, int) dict"
  rp_access :: "(int, int) dict"
  rp_dies :: "(int, int) dict"
  rp_blocks :: "int set"
  rp_ops :: "(string, int) dict"
  rp_rd :: int
  rp_wr :: int
  rp_k :: int
  rp_v :: int
  rp_both :: int
  rp_lats :: "real list"
  rp_queue :: "(int \<times> int) list"

definition replay_init :: "replayer \<Rightarrow> replay_st" where
  "replay_init y = \<lparr>rp_counters = zero_counters (ry_channels y), rp_access = zero_counters (ry_channels y),
     rp_dies = zero_counters (ry_dies y), rp_blocks = {},
     rp_ops = [(''PREFILL_WRITE'', 0), (''DECODE_READ'', 0), (''TOPK_FILTER'', 0), (''TOPK_FETCH'', 0)],
     rp_rd = 0, rp_wr = 0, rp_k = 0, rp_v = 0, rp_both = 0, rp_lats = [], rp_queue = []\<rparr>"

definition process_batch :: "(int \<times> int) list \<Rightarrow> real" where
  "process_batch b =
     (if b = [] then 0
      else PCIE_OVERHEAD_US + of_int (max_load (fold (\<lambda>x d. dinc (fst x) 1 d) b [])) * (T_R_US + BUS_TRANSFER_US_PER_PAGE))"

definition is_write_op :: "string \<Rightarrow> bool" where
  "is_write_op op \<longleftrightarrow> op = ''PREFILL_WRITE'' \<or> op = ''WRITE''"

definition replay_account :: "rrec \<Rightarrow> replay_st \<Rightarrow> replay_st" where
  "replay_account r s =
     (let s1 = s\<lparr>rp_blocks := insert (rr_block r) (rp_blocks s), rp_ops := dinc (rr_op r) 1 (rp_ops s)\<rparr>;
          s2 = (if is_write_op (rr_op r) then s1\<lparr>rp_wr := rp_wr s1 + rr_bytes r\<rparr> else s1\<lparr>rp_rd := rp_rd s1 + rr_bytes r\<rparr>)
      in if rr_sub r = ''KEY'' then s2\<lparr>rp_k := rp_k s2 + rr_bytes r\<rparr>
         else if rr_sub r = ''VALUE'' then s2\<lparr>rp_v := rp_v s2 + rr_bytes r\<rparr>
         else if rr_sub r = ''BOTH'' then s2\<lparr>rp_both := rp_both s2 + rr_bytes r\<rparr> else s2)"

definition replay_coord :: "replayer \<Rightarrow> int \<Rightarrow> rrec \<Rightarrow> tensor_coord" where
  "replay_coord y bph r = \<lparr>co_layer_id = rr_layer r, co_head_id = rr_head r, token_idx = rr_token r,
     tokens_per_block = ry_tpb y, co_block_id = Some (rr_block r), co_blocks_per_head = bph\<rparr>"

definition replay_enqueue :: "replayer \<Rightarrow> int \<Rightarrow> int \<Rightarrow> replay_st \<Rightarrow> replay_st" where
  "replay_enqueue y ch die s =
     (let q = rp_queue s @ [(ch, die)]
      in if ry_depth y \<le> int (length q) then s\<lparr>rp_lats := rp_lats s @ [process_batch q], rp_queue := []\<rparr>
         else s\<lparr>rp_queue := q\<rparr>)"

definition replay_step :: "replayer \<Rightarrow> string \<Rightarrow> int \<Rightarrow> rrec \<Rightarrow> (replay_st, unit) meth" where
  "replay_step y md bph r =
     sthen (supd (replay_account r))
    (sbind (sread (\<lambda>s. tensor_to_nand_physical (ry_mapper y) (replay_coord y bph r) md (Some (rp_counters s)))) (\<lambda>pr.
     sbind (slift pr) (\<lambda>p. case p of (ch, die, _) \<Rightarrow>
     sbind (sread (\<lambda>s. dadd ch 1 (rp_counters s))) (\<lambda>a. sbind (slift a) (\<lambda>d.
     sthen (supd (\<lambda>s. s\<lparr>rp_counters := d\<rparr>))
    (sbind (sread (\<lambda>s. dadd ch 1 (rp_access s))) (\<lambda>a. sbind (slift a) (\<lambda>d.
     sthen (supd (\<lambda>s. s\<lparr>rp_access := d\<rparr>))
    (sbind (sread (\<lambda>s. dadd die 1 (rp_dies s))) (\<lambda>a. sbind (slift a) (\<lambda>d.
     sthen (supd (\<lambda>s. s\<lparr>rp_dies := d\<rparr>))
           (if is_write_op (rr_op r) then sret () else supd (replay_enqueue y ch die)))))))))))))"

definition replay_flush :: "replay_st \<Rightarrow> replay_st" where
  "replay_flush s = (if rp_queue s = [] then s else s\<lparr>rp_lats := rp_lats s @ [process_batch (rp_queue s)]\<rparr>)"

record replay_report =
  rt_mode :: string
  rt_events :: nat
  rt_ops :: "(string, int) dict"
  rt_read_bytes :: int
  rt_write_bytes :: int
  rt_k_bytes :: int
  rt_v_bytes :: int
  rt_combined_bytes :: int
  rt_bytes :: int
  rt_queue_depth :: int
  rt_latency_us :: real
  rt_batch_latency_us :: real
  rt_throughput :: real
  rt_channels :: "(int, int) dict"
  rt_dies :: "(int, int) dict"
  rt_unique_blocks :: nat
  rt_min_block :: int
  rt_max_block :: int
  rt_max_load :: int
  rt_avg_load :: real
  rt_contention :: real
  rt_dropped :: int

definition replay_result :: "replayer \<Rightarrow> string \<Rightarrow> nat \<Rightarrow> replay_st \<Rightarrow> replay_report" where
  "replay_result y md n s =
     (let lat = sum_list (rp_lats s); avg = of_int (dsum (rp_access s)) / of_int (max 1 (ry_channels y));
          mx = max_load (rp_access s);
          mb = of_int (rp_rd s + rp_wr s) / (1024 * 1024) :: real
      in \<lparr>rt_mode = md, rt_events = n, rt_ops = rp_ops s, rt_read_bytes = rp_rd s, rt_write_bytes = rp_wr s,
          rt_k_bytes = rp_k s, rt_v_bytes = rp_v s, rt_combined_bytes = rp_both s, rt_bytes = rp_rd s + rp_wr s,
          rt_queue_depth = ry_depth y, rt_latency_us = round_to 2 lat,
          rt_batch_latency_us = (if rp_lats s = [] then 0 else round_to 2 (lat / real (max 1 (length (rp_lats s))))),
          rt_throughput = round_to 2 (if 0 < lat then mb / (lat / 10 ^ 6) else 0),
          rt_channels = rp_access s, rt_dies = rp_dies s, rt_unique_blocks = card (rp_blocks s),
          rt_min_block = (if rp_blocks s = {} then 0 else Min (rp_blocks s)),
          rt_max_block = (if rp_blocks s = {} then 0 else Max (rp_blocks s)),
          rt_max_load = mx, rt_avg_load = round_to 2 avg,
          rt_contention = round_to 2 (of_int mx / max (1 / 10 ^ 6) avg), rt_dropped = 0\<rparr>)"

definition replay :: "replayer \<Rightarrow> rrec list \<Rightarrow> string \<Rightarrow> int \<Rightarrow> replay_report res" where
  "replay y rs md bph = (case sfor (\<lambda>r _. replay_step y md bph r) rs () (replay_init y) of
     (Inl e, s) \<Rightarrow> Inl e
   | (Inr _, s) \<Rightarrow> Inr (replay_result y md (length rs) (replay_flush s)))"

section \<open>Well-formed replays\<close>

definition replayer_ok :: "replayer \<Rightarrow> bool" where
  "replayer_ok y \<longleftrightarrow> 0 < ry_channels y \<and> 0 < ry_dies y \<and> mapper_ok (ry_mapper y) \<and>
     m_channels (ry_mapper y) = ry_channels y \<and> m_dies (ry_mapper y) = ry_dies y"

lemma new_replayer_ok: "0 < c \<Longrightarrow> 0 < d \<Longrightarrow> replayer_ok (new_replayer c d qd nl nh tpb)"
  using new_mapper_ok [of c d SSD_PLANES_PER_DIE 64 SSD_PAGES_PER_BLOCK 4096 32768 nl nh]
  by (simp add: replayer_ok_def new_replayer_def geometry_const_defs) (simp add: new_mapper_def)

text \<open>What holds after \<open>n\<close> records of which \<open>rd\<close> are reads and which carry \<open>b\<close> bytes.\<close>

definition replay_inv :: "replayer \<Rightarrow> nat \<Rightarrow> nat \<Rightarrow> int \<Rightarrow> replay_st \<Rightarrow> bool" where
  "replay_inv y n rd b s \<longleftrightarrow> dkeys (rp_counters s) = [0..ry_channels y - 1] \<and> dkeys (rp_access s) = [0..ry_channels y - 1] \<and>
     dkeys (rp_dies s) = [0..ry_dies y - 1] \<and> dsum (rp_access s) = int n \<and> dsum (rp_dies s) = int n \<and>
     dsum (rp_ops s) = int n \<and> rp_rd s + rp_wr s = b \<and> finite (rp_blocks s) \<and> card (rp_blocks s) \<le> n \<and>
     int (length (rp_queue s)) < max 1 (ry_depth y) \<and>
     int (length (rp_lats s)) * max 1 (ry_depth y) + int (length (rp_queue s)) = int rd"

lemma replay_init_inv: "replay_inv y 0 0 0 (replay_init y)"
  by (simp add: replay_inv_def replay_init_def dsum_def [where d = "[(''PREFILL_WRITE'', 0), (''DECODE_READ'', 0), (''TOPK_FILTER'', 0), (''TOPK_FETCH'', 0)]"])

lemma replay_account_fields [simp]:
  "rp_counters (replay_account r s) = rp_counters s" "rp_access (replay_account r s) = rp_access s"
  "rp_dies (replay_account r s) = rp_dies s" "rp_queue (replay_account r s) = rp_queue s"
  "rp_lats (replay_account r s) = rp_lats s" "rp_blocks (replay_account r s) = insert (rr_block r) (rp_blocks s)"
  "rp_ops (replay_account r s) = dinc (rr_op r) 1 (rp_ops s)"
  "rp_rd (replay_account r s) + rp_wr (replay_account r s) = rp_rd s + rp_wr s + rr_bytes r"
  by (simp_all add: replay_account_def Let_def)

lemma replay_phys:
  assumes "replayer_ok y" "md = ''conventional'' \<or> md = ''tensor_aware''"
  shows "\<exists>ch die pos. tensor_to_nand_physical (ry_mapper y) c md cs = Inr (ch, die, pos) \<and>
    0 \<le> ch \<and> ch < ry_channels y \<and> 0 \<le> die \<and> die < ry_dies y \<and> (md = ''conventional'' \<longrightarrow> ch = 0)"
proof -
  have m: "mapper_ok (ry_mapper y)" "m_channels (ry_mapper y) = ry_channels y" "m_dies (ry_mapper y) = ry_dies y"
    "0 < ry_channels y" "0 < ry_dies y" using assms(1) by (simp_all add: replayer_ok_def)
  then have nz: "m_pages (ry_mapper y) \<noteq> 0" "m_blocks (ry_mapper y) \<noteq> 0" "m_planes (ry_mapper y) \<noteq> 0"
    by (simp_all add: mapper_ok_def)
  from assms(2) show ?thesis
  proof
    assume "md = ''conventional''"
    then show ?thesis using m nz by (simp add: tensor_to_nand_physical_def Let_def)
  next
    assume "md = ''tensor_aware''"
    then show ?thesis using m nz target_ranges [OF m(1)] by (simp add: tensor_to_nand_physical_def Let_def)
  qed
qed

lemma dadd_key: "dkeys d = [0..n - 1] \<Longrightarrow> 0 \<le> k \<Longrightarrow> k < n \<Longrightarrow>
  \<exists>d'. dadd k m d = Inr d' \<and> dkeys d' = [0..n - 1] \<and> dsum d' = dsum d + m"
  using dadd_total [of k d m] dadd_keys dsum_dadd by fastforce

lemma replay_step_ok:
  assumes y: "replayer_ok y" "md = ''conventional'' \<or> md = ''tensor_aware''" and inv: "replay_inv y n rd b s"
  shows "\<exists>s'. replay_step y md bph r s = (Inr (), s') \<and>
    replay_inv y (Suc n) (if is_write_op (rr_op r) then rd else Suc rd) (b + rr_bytes r) s' \<and>
    (\<exists>ch. 0 \<le> ch \<and> ch < ry_channels y \<and> dadd ch 1 (rp_access s) = Inr (rp_access s') \<and> (md = ''conventional'' \<longrightarrow> ch = 0))"
proof -
  let ?s0 = "replay_account r s"
  obtain ch die pos where p: "tensor_to_nand_physical (ry_mapper y) (replay_coord y bph r) md (Some (rp_counters ?s0)) =
      Inr (ch, die, pos)" "0 \<le> ch" "ch < ry_channels y" "0 \<le> die" "die < ry_dies y" "md = ''conventional'' \<longrightarrow> ch = 0"
    using replay_phys [OF y] by blast
  obtain d1 where d1: "dadd ch 1 (rp_counters s) = Inr d1" "dkeys d1 = [0..ry_channels y - 1]"
    using dadd_key [of "rp_counters s"] inv p(2,3) unfolding replay_inv_def by metis
  obtain d2 where d2: "dadd ch 1 (rp_access s) = Inr d2" "dkeys d2 = [0..ry_channels y - 1]" "dsum d2 = int (Suc n)"
    using dadd_key [of "rp_access s" "ry_channels y" ch 1] inv p(2,3) unfolding replay_inv_def by auto
  obtain d3 where d3: "dadd die 1 (rp_dies s) = Inr d3" "dkeys d3 = [0..ry_dies y - 1]" "dsum d3 = int (Suc n)"
    using dadd_key [of "rp_dies s" "ry_dies y" die 1] inv p(4,5) unfolding replay_inv_def by auto
  let ?s1 = "?s0\<lparr>rp_counters := d1, rp_access := d2, rp_dies := d3\<rparr>"
  let ?s' = "if is_write_op (rr_op r) then ?s1 else replay_enqueue y ch die ?s1"
  have run: "replay_step y md bph r s = (Inr (), ?s')"
    using p(1) d1(1) d2(1) d3(1) by (simp add: replay_step_def)
  have ops: "dsum (rp_ops ?s1) = int (Suc n)" using inv by (simp add: replay_inv_def dict_simps)
  have fin: "finite (rp_blocks ?s1)" "card (rp_blocks ?s1) \<le> Suc n"
    using inv card_insert_le_m1 [of "Suc n" "rp_blocks s" "rr_block r"] by (simp_all add: replay_inv_def)
  have inv1: "replay_inv y (Suc n) rd (b + rr_bytes r) ?s1"
    using inv d1(2) d2(2,3) d3(2,3) ops fin by (simp add: replay_inv_def)
  have "replay_inv y (Suc n) (Suc rd) (b + rr_bytes r) (replay_enqueue y ch die ?s1)"
    using inv1 by (auto simp: replay_inv_def replay_enqueue_def Let_def algebra_simps max_def split: if_splits)
  moreover have "rp_access ?s' = d2" by (simp add: replay_enqueue_def Let_def)
  ultimately show ?thesis using run inv1 p(2,3,6) d2(1)
    by (intro exI [of _ ?s'] conjI exI [of _ ch]) simp_all
qed

lemma replay_run_ok:
  assumes "replayer_ok y" "md = ''conventional'' \<or> md = ''tensor_aware''" "replay_inv y n rd b s"
  shows "\<exists>s'. sfor (\<lambda>r _. replay_step y md bph r) rs () s = (Inr (), s') \<and>
    replay_inv y (n + length rs) (rd + length (filter (\<lambda>r. \<not> is_write_op (rr_op r)) rs)) (b + (\<Sum>r\<leftarrow>rs. rr_bytes r)) s'"
  using assms(3)
proof (induction rs arbitrary: n rd b s)
  case (Cons r rs)
  obtain s1 where s1: "replay_step y md bph r s = (Inr (), s1)"
    "replay_inv y (Suc n) (if is_write_op (rr_op r) then rd else Suc rd) (b + rr_bytes r) s1"
    using replay_step_ok [OF assms(1,2) Cons.prems] by blast
  from Cons.IH [OF s1(2)] show ?case using s1(1)
    by (cases "is_write_op (rr_op r)") (simp_all add: meth_run add.assoc)
qed simp

text \<open>The conventional mode puts every record on channel 0.\<close>

lemma replay_run_conventional:
  assumes "replayer_ok y" "replay_inv y n rd b s" "dget (rp_access s) 0 = Some (int n)" "\<forall>k. k \<noteq> 0 \<longrightarrow> dget (rp_access s) k \<in> {None, Some 0}"
    and "sfor (\<lambda>r _. replay_step y ''conventional'' bph r) rs () s = (res, s')"
  shows "dget (rp_access s') 0 = Some (int (n + length rs)) \<and> (\<forall>k. k \<noteq> 0 \<longrightarrow> dget (rp_access s') k \<in> {None, Some 0})"
  using assms(2-)
proof (induction rs arbitrary: n rd b s)
  case (Cons r rs)
  obtain s1 where s1: "replay_step y ''conventional'' bph r s = (Inr (), s1)"
    "replay_inv y (Suc n) (if is_write_op (rr_op r) then rd else Suc rd) (b + rr_bytes r) s1"
    "dadd 0 1 (rp_access s) = Inr (rp_access s1)"
    using replay_step_ok [OF assms(1) _ Cons.prems(1), of "''conventional''" bph r] by auto
  have "rp_access s1 = dset 0 (int n + 1) (rp_access s)" using s1(3) Cons.prems(2) by (simp add: dadd_def)
  then have "dget (rp_access s1) 0 = Some (int (Suc n))" "\<forall>k. k \<noteq> 0 \<longrightarrow> dget (rp_access s1) k \<in> {None, Some 0}"
    using Cons.prems(3) by (simp_all add: dict_simps)
  from Cons.IH [OF s1(2) this] Cons.prems(4) s1(1) show ?case by (simp add: meth_run)
qed simp

lemma max_load_single:
  assumes "dget d 0 = Some n" "\<forall>k. k \<noteq> 0 \<longrightarrow> dget d k \<in> {None, Some 0}" "0 \<le> n" "dict_ok d"
  shows "max_load d = n"
proof -
  have mem: "n \<in> set (dvalues d)" using assms(1) by (force dest: map_of_SomeD)
  have "v \<le> n" if "v \<in> set (dvalues d)" for v
  proof -
    from that obtain k where "(k, v) \<in> set d" by auto
    then have "dget d k = Some v" using assms(4) by (simp add: dict_ok_def)
    with assms(1-3) show ?thesis by (cases "k = 0") auto
  qed
  then have "Max (set (dvalues d)) = n" using mem by (intro Max_eqI) auto
  moreover have "d \<noteq> []" using mem by auto
  ultimately show ?thesis by (simp add: max_load_Max)
qed

lemma round_to_int [simp]: "round_to 2 (of_int n) = of_int n"
proof -
  have "(10::real)\<^sup>2 * of_int n = of_int (100 * n)" by simp
  then show ?thesis by (simp add: round_to_def Let_def)
qed

section \<open>Properties\<close>

lemma int_at_least_Inr: "int_at_least m v = Inr n \<Longrightarrow> m \<le> n"
  by (auto simp: int_at_least_def split: option.splits if_splits)

definition vrec_ok :: "vrec \<Rightarrow> bool" where
  "vrec_ok v \<longleftrightarrow> vr_op v \<in> set VALID_OPERATIONS \<and> 0 \<le> vr_layer v \<and> 0 \<le> vr_head v \<and> 0 < vr_bytes v"

lemma validate_record_ok: "validate_record p d n = Inr v \<Longrightarrow> vrec_ok v"
  by (auto simp: validate_record_def rbind_Inr_iff Let_def valid_op_def vrec_ok_def dest!: int_at_least_Inr
      split: json.splits if_splits)

lemma load_trace_ok: "load_trace p ls n = Inr vs \<Longrightarrow> \<forall>v\<in>set vs. vrec_ok v"
proof (induction p ls n arbitrary: vs rule: load_trace.induct)
  case (4 p v ls n)
  then show ?case by (fastforce simp: rbind_Inr_iff validate_record_ok split: json.splits)
qed auto

lemma int_record_bytes: "map int_record vs = map Some rs \<Longrightarrow> map vr_bytes vs = map rr_bytes rs"
proof (induction vs arbitrary: rs)
  case (Cons v vs)
  then obtain r rs' where "rs = r # rs'" "int_record v = Some r" "map int_record vs = map Some rs'"
    by (auto simp: Cons_eq_map_conv)
  moreover from this have "vr_bytes v = rr_bytes r" by (auto simp: int_record_def split: option.splits)
  ultimately show ?case using Cons.IH by simp
qed simp

text \<open>C8: Well-typed traces do not go wrong: every record a loaded trace holds has a known operation,
  non-negative layer and head and a positive size; and when token and block positions are integers,
  replaying them on any positive geometry, in either mode, raises nothing and balances its books:
  bytes read and written add up to the bytes of the records, and operations, channel accesses and
  die accesses each to their number.\<close>

theorem loaded_trace_replays:
  assumes "load_trace p ls i = Inr vs" "map int_record vs = map Some rs" "0 < c" "0 < d"
    and "md = ''conventional'' \<or> md = ''tensor_aware''"
  shows "(\<forall>v\<in>set vs. vrec_ok v) \<and> (\<exists>t. replay (new_replayer c d qd nl nh tpb) rs md bph = Inr t \<and> rt_events t = length vs \<and>
    rt_read_bytes t + rt_write_bytes t = (\<Sum>v\<leftarrow>vs. vr_bytes v) \<and> dsum (rt_ops t) = int (length vs) \<and>
    dsum (rt_channels t) = int (length vs) \<and> dkeys (rt_channels t) = [0..c - 1] \<and>
    dsum (rt_dies t) = int (length vs) \<and> rt_unique_blocks t \<le> length vs)"
proof -
  let ?y = "new_replayer c d qd nl nh tpb"
  have y: "replayer_ok ?y" "ry_channels ?y = c" using assms new_replayer_ok by (auto simp: new_replayer_def)
  obtain s where s: "sfor (\<lambda>r _. replay_step ?y md bph r) rs () (replay_init ?y) = (Inr (), s)"
    "replay_inv ?y (length rs) (length (filter (\<lambda>r. \<not> is_write_op (rr_op r)) rs)) (\<Sum>r\<leftarrow>rs. rr_bytes r) s"
    using replay_run_ok [OF y(1) assms(5) replay_init_inv, of bph rs] by auto
  have len: "length rs = length vs" using assms(2) by (metis length_map)
  have "map vr_bytes vs = map rr_bytes rs" by (rule int_record_bytes [OF assms(2)])
  then have "replay_inv ?y (length vs) (length (filter (\<lambda>r. \<not> is_write_op (rr_op r)) rs)) (\<Sum>v\<leftarrow>vs. vr_bytes v) s"
    using s(2) len by metis
  with s(1) len y(2) show ?thesis using load_trace_ok [OF assms(1)]
    by (simp add: replay_def replay_result_def Let_def replay_flush_def replay_inv_def)
qed

definition line_at :: "string \<Rightarrow> int \<Rightarrow> trace_line" where
  "line_at op t = LJson (JObj [(''op'', JStr op), (''layer_id'', JInt 1), (''head_id'', JBool True), (''bytes'', JInt 4096),
     (''token_idx'', JInt t)])"

lemma loaded_trace_replays_witness:
  "\<exists>t. replay (new_replayer 8 4 8 24 2 16)
     [\<lparr>rr_op = ''WRITE'', rr_layer = 1, rr_head = 1, rr_token = 32, rr_block = 2, rr_bytes = 4096, rr_sub = ''BOTH''\<rparr>]
     ''tensor_aware'' 44 = Inr t \<and> rt_events t = 1 \<and> rt_read_bytes t + rt_write_bytes t = 4096"
proof -
  let ?r = "\<lparr>rr_op = ''WRITE'', rr_layer = 1, rr_head = 1, rr_token = 32, rr_block = 2, rr_bytes = 4096, rr_sub = ''BOTH''\<rparr>"
  have u: "upper_str ''WRITE'' = ''WRITE''" "upper_str ''BOTH'' = ''BOTH''"
    by (simp_all add: upper_str_def upper_char_def char_code_def)
  obtain v where v: "load_trace some_std [LBlank, line_at ''WRITE'' 32] 1 = Inr [v]" "int_record v = Some ?r" "vr_bytes v = 4096"
    by (simp add: line_at_def validate_record_def valid_op_def u VALID_OPERATIONS_def int_at_least_def pick_def Let_def
        int_record_def)
  from loaded_trace_replays [OF v(1), of "[?r]" 8 4 "''tensor_aware''" 8 24 2 16 44] v show ?thesis by auto
qed

text \<open>What striping is measured against: the conventional mode maps every record to channel 0, so
  the replay of any non-empty trace reports a contention ratio of exactly the number of channels, whatever
  the trace; all other channels stay idle.\<close>

theorem conventional_replay_contends:
  assumes "0 < c" "c \<le> 1000000" "0 < d" "rs \<noteq> []"
  shows "\<exists>t. replay (new_replayer c d qd nl nh tpb) rs ''conventional'' bph = Inr t \<and>
    rt_contention t = of_int c \<and> dget (rt_channels t) 0 = Some (int (length rs)) \<and>
    (\<forall>k. 0 < k \<and> k < c \<longrightarrow> dget (rt_channels t) k = Some 0)"
proof -
  let ?y = "new_replayer c d qd nl nh tpb" and ?n = "int (length rs)"
  have y: "replayer_ok ?y" "ry_channels ?y = c" using assms new_replayer_ok by (auto simp: new_replayer_def)
  obtain s where s: "sfor (\<lambda>r _. replay_step ?y ''conventional'' bph r) rs () (replay_init ?y) = (Inr (), s)"
    "replay_inv ?y (length rs) (length (filter (\<lambda>r. \<not> is_write_op (rr_op r)) rs)) (\<Sum>r\<leftarrow>rs. rr_bytes r) s"
    using replay_run_ok [OF y(1) _ replay_init_inv, of "''conventional''" bph rs] by auto
  have z: "dget (zero_counters c) k = (if 0 \<le> k \<and> k < c then Some 0 else None)" for k
    by (auto simp: zero_counters_def map_of_map_restrict [where f = "\<lambda>_. 0", simplified] restrict_map_def comp_def)
  have a: "dget (rp_access s) 0 = Some ?n" "\<forall>k. k \<noteq> 0 \<longrightarrow> dget (rp_access s) k \<in> {None, Some 0}"
    using replay_run_conventional [OF y(1) replay_init_inv _ _ s(1)] assms(1) by (simp_all add: replay_init_def y(2) z)
  have keys: "dkeys (rp_access s) = [0..c - 1]" and total: "dsum (rp_access s) = ?n" using s(2) y(2) by (simp_all add: replay_inv_def)
  have "dget (rp_access s) k = Some 0" if "0 < k" "k < c" for k
  proof -
    have "k \<in> set (dkeys (rp_access s))" using that by (simp add: keys)
    then have "dget (rp_access s) k \<noteq> None" by (simp add: map_of_eq_None_iff)
    moreover have "dget (rp_access s) k \<in> {None, Some 0}" using a(2) that by simp
    ultimately show ?thesis by auto
  qed
  moreover have "max_load (rp_access s) = ?n" using a by (intro max_load_single) (simp_all add: dict_ok_def keys)
  moreover have "of_int ?n / max (1 / 10 ^ 6) (of_int ?n / of_int (max 1 c)) = (of_int c :: real)"
  proof -
    have "1 \<le> real (length rs)" "real_of_int c \<le> 10 ^ 6" using assms by (cases rs; simp)+
    then have "1 * real_of_int c \<le> real (length rs) * 10 ^ 6" using assms(1) by (intro mult_mono) auto
    then have "1 / 10 ^ 6 \<le> real (length rs) / of_int c" using assms(1) by (simp add: field_simps)
    then show ?thesis using assms by (simp add: max_def)
  qed
  ultimately show ?thesis using s(1) a(1) y(2) total
    by (simp add: replay_def replay_result_def Let_def replay_flush_def)
qed

lemma conventional_replay_contends_witness:
  "\<exists>t. replay (new_replayer 8 4 8 24 2 16)
     [\<lparr>rr_op = ''DECODE_READ'', rr_layer = 3, rr_head = 1, rr_token = 32, rr_block = 2, rr_bytes = 4096, rr_sub = ''KEY''\<rparr>]
     ''conventional'' 44 = Inr t \<and> rt_contention t = 8"
  using conventional_replay_contends [of 8 4 "[\<lparr>rr_op = ''DECODE_READ'', rr_layer = 3, rr_head = 1, rr_token = 32,
     rr_block = 2, rr_bytes = 4096, rr_sub = ''KEY''\<rparr>]" 8 24 2 16 44] by auto

end
