(* ===== verification/CacheManager.thy ===== *)
theory CacheManager
  imports Location Nand KvStore
begin

text \<open>
  The first paged cache of the first subsystem: \<open>cache_manager/block_manager.py\<close>,
  \<open>hot_cold.py\<close>, \<open>eviction.py\<close>, \<open>kv_cache.py\<close> and the storage it was written against,
  \<open>person1_kv_engine/mock_ssd.py\<close>. Blocks are mutable objects that the manager and the mock SSD
  share, so the model has a heap: a block is a reference into a list of objects, and storing a
  block stores its reference.
\<close>

section \<open>Objects\<close>

record cache_block =
  cb_meta :: kv_block
  cb_k :: "tensor option"
  cb_v :: "tensor option"

record mock_ssd =
  ms_storage :: "(int, nat) dict"
  ms_latency :: real
  ms_writes :: int
  ms_reads :: int
  ms_h2d :: int
  ms_d2h :: int
  ms_flash_rd :: int
  ms_flash_wr :: int
  ms_time :: real

record paged_cache =
  pc_layers :: int
  pc_heads :: int
  pc_head_dim :: int
  pc_block_tokens :: int
  pc_dtype :: string
  pc_sink :: int
  pc_recent :: int
  pc_heap :: "cache_block list"
  pc_next :: int
  pc_blocks :: "(int, nat) dict"
  pc_ssd :: "mock_ssd option"

definition new_mock_ssd :: "real \<Rightarrow> mock_ssd" where
  "new_mock_ssd lat = \<lparr>ms_storage = [], ms_latency = lat, ms_writes = 0, ms_reads = 0, ms_h2d = 0, ms_d2h = 0,
     ms_flash_rd = 0, ms_flash_wr = 0, ms_time = 0\<rparr>"

definition new_paged_cache :: "int \<Rightarrow> int \<Rightarrow> int \<Rightarrow> int \<Rightarrow> string \<Rightarrow> int \<Rightarrow> int \<Rightarrow> mock_ssd option \<Rightarrow> paged_cache" where
  "new_paged_cache nl nh hdim bt dt sink rec ssd = \<lparr>pc_layers = nl, pc_heads = nh, pc_head_dim = hdim, pc_block_tokens = bt,
     pc_dtype = dt, pc_sink = sink, pc_recent = rec, pc_heap = [], pc_next = 0, pc_blocks = [], pc_ssd = ssd\<rparr>"

definition upd_obj :: "nat \<Rightarrow> (cache_block \<Rightarrow> cache_block) \<Rightarrow> paged_cache \<Rightarrow> paged_cache" where
  "upd_obj r f c = c\<lparr>pc_heap := (pc_heap c)[r := f (pc_heap c ! r)]\<rparr>"

definition set_tier :: "string \<Rightarrow> cache_block \<Rightarrow> cache_block" where
  "set_tier t b = b\<lparr>cb_meta := (cb_meta b)\<lparr>storage_tier := t\<rparr>\<rparr>"

section \<open>Block manager\<close>

text \<open>The id is taken before \<open>np.zeros\<close> may raise \<open>ValueError\<close> for a negative extent.\<close>

definition cm_allocate ::
    "int \<Rightarrow> int \<Rightarrow> int option \<Rightarrow> int \<Rightarrow> int \<Rightarrow> string \<Rightarrow> bool \<Rightarrow> (paged_cache, nat) meth" where
  "cm_allocate layer start cnt hs hc tier attach =
     sbind (sread (\<lambda>c. c)) (\<lambda>c.
     sthen (supd (\<lambda>c. c\<lparr>pc_next := pc_next c + 1\<rparr>))
     (let n = (case cnt of None \<Rightarrow> pc_block_tokens c | Some k \<Rightarrow> if k = 0 then pc_block_tokens c else k);
          m = create_default (pc_next c) layer start n hs hc (pc_head_dim c) (pc_dtype c) tier 1;
          z = zeros [nat n, nat hc, nat (pc_head_dim c)] (if upper_str (pc_dtype c) = ''FP16'' then Float16 else Float32);
          t = (if attach then Some z else None); r = length (pc_heap c); i = pc_next c
      in if attach \<and> (n < 0 \<or> hc < 0 \<or> pc_head_dim c < 0) then sraise ValueError
         else sthen (supd (\<lambda>c. c\<lparr>pc_heap := pc_heap c @ [\<lparr>cb_meta = m, cb_k = t, cb_v = t\<rparr>],
                                pc_blocks := dset i r (pc_blocks c)\<rparr>))
                (sret r)))"

definition cm_get_block :: "int \<Rightarrow> paged_cache \<Rightarrow> nat option" where
  "cm_get_block i c = dget (pc_blocks c) i"

definition cm_total_blocks :: "paged_cache \<Rightarrow> nat" where
  "cm_total_blocks c = length (pc_blocks c)"

definition cm_all_blocks :: "paged_cache \<Rightarrow> nat list" where
  "cm_all_blocks c = dvalues (pc_blocks c)"

definition cm_clear :: "paged_cache \<Rightarrow> paged_cache" where
  "cm_clear c = c\<lparr>pc_blocks := [], pc_next := 0\<rparr>"

section \<open>Mock SSD\<close>

definition mock_location :: "int \<Rightarrow> string" where
  "mock_location i = ''mock_ch'' @ show_int (i mod 8) @ ''_die0_pg'' @ show_int i"

text \<open>Without a backend these are not called.\<close>

definition on_ssd :: "(mock_ssd \<Rightarrow> mock_ssd) \<Rightarrow> paged_cache \<Rightarrow> paged_cache" where
  "on_ssd f c = c\<lparr>pc_ssd := map_option f (pc_ssd c)\<rparr>"

definition mock_store :: "nat \<Rightarrow> paged_cache \<Rightarrow> string \<times> paged_cache" where
  "mock_store r c =
     (let i = block_id (cb_meta (pc_heap c ! r)); loc = mock_location i;
          c1 = upd_obj r (\<lambda>b. b\<lparr>cb_meta := (cb_meta b)\<lparr>storage_tier := ''SSD'', physical_location := Some loc\<rparr>\<rparr>) c;
          n = total_size_bytes (cb_meta (pc_heap c1 ! r))
      in (loc, on_ssd (\<lambda>s. s\<lparr>ms_storage := dset i r (ms_storage s), ms_writes := ms_writes s + 1, ms_h2d := ms_h2d s + n,
                       ms_flash_wr := ms_flash_wr s + n, ms_time := ms_time s + (1.5 + T_PROG_US)\<rparr>) c1))"

definition mock_lookup :: "int \<Rightarrow> paged_cache \<Rightarrow> nat option" where
  "mock_lookup i c = Option.bind (pc_ssd c) (\<lambda>s. dget (ms_storage s) i)"

definition mock_load :: "int \<Rightarrow> paged_cache \<Rightarrow> nat option \<times> paged_cache" where
  "mock_load i c =
     (let c1 = on_ssd (\<lambda>s. s\<lparr>ms_reads := ms_reads s + 1\<rparr>) c
      in case mock_lookup i c1 of
           None \<Rightarrow> (None, c1)
         | Some r \<Rightarrow>
             (let c2 = upd_obj r (set_tier ''DRAM'') c1; n = total_size_bytes (cb_meta (pc_heap c2 ! r))
              in (Some r, on_ssd (\<lambda>s. s\<lparr>ms_d2h := ms_d2h s + n, ms_flash_rd := ms_flash_rd s + n,
                                        ms_time := ms_time s + ms_latency s\<rparr>) c2)))"

definition mock_get_location :: "int \<Rightarrow> paged_cache \<Rightarrow> string option" where
  "mock_get_location i c = Option.bind (mock_lookup i c) (\<lambda>r. physical_location (cb_meta (pc_heap c ! r)))"

definition mock_estimate :: "int list \<Rightarrow> mock_ssd \<Rightarrow> real" where
  "mock_estimate ids s = real (length ids) * ms_latency s"

definition mock_prefetch :: "int list \<Rightarrow> mock_ssd \<Rightarrow> int list" where
  "mock_prefetch ids s = filter (\<lambda>i. dmem i (ms_storage s)) ids"

definition mock_has_block :: "int \<Rightarrow> mock_ssd \<Rightarrow> bool" where
  "mock_has_block i s = dmem i (ms_storage s)"

definition mock_clear :: "mock_ssd \<Rightarrow> mock_ssd" where
  "mock_clear s = new_mock_ssd (ms_latency s)"

record mock_telemetry =
  mt_writes :: int
  mt_reads :: int
  mt_stored :: nat
  mt_h2d :: int
  mt_d2h :: int
  mt_pcie :: int
  mt_flash_rd :: int
  mt_flash_wr :: int
  mt_time :: real

definition mock_get_telemetry :: "mock_ssd \<Rightarrow> mock_telemetry" where
  "mock_get_telemetry s = \<lparr>mt_writes = ms_writes s, mt_reads = ms_reads s, mt_stored = length (ms_storage s),
     mt_h2d = ms_h2d s, mt_d2h = ms_d2h s, mt_pcie = ms_h2d s + ms_d2h s, mt_flash_rd = ms_flash_rd s,
     mt_flash_wr = ms_flash_wr s, mt_time = ms_time s\<rparr>"

section \<open>Classification and eviction\<close>

definition classify_block :: "int \<Rightarrow> int \<Rightarrow> kv_block \<Rightarrow> int \<Rightarrow> bool" where
  "classify_block sink rec b ctx \<longleftrightarrow> token_start b < sink \<or> max 0 (ctx - rec) < token_start b + token_count b"

definition cold_hotness :: "int \<Rightarrow> kv_block \<Rightarrow> real" where
  "cold_hotness ctx b = max 0.1 (1 - of_int (ctx - token_start b) / of_int (max 1 ctx))"

definition is_hot_ref :: "int \<Rightarrow> paged_cache \<Rightarrow> nat \<Rightarrow> bool" where
  "is_hot_ref ctx c r = classify_block (pc_sink c) (pc_recent c) (cb_meta (pc_heap c ! r)) ctx"

fun partition_blocks :: "nat list \<Rightarrow> int \<Rightarrow> paged_cache \<Rightarrow> (nat list \<times> nat list) \<times> paged_cache" where
  "partition_blocks [] ctx c = (([], []), c)"
| "partition_blocks (r # rs) ctx c =
     (let hot = is_hot_ref ctx c r;
          c1 = upd_obj r (\<lambda>b. b\<lparr>cb_meta := (cb_meta b)\<lparr>hotness := (if hot then 1 else cold_hotness ctx (cb_meta b))\<rparr>\<rparr>) c;
          ((hs, cs), c2) = partition_blocks rs ctx c1
      in (if hot then (r # hs, cs) else (hs, r # cs), c2))"

definition free_tensors :: "cache_block \<Rightarrow> cache_block" where
  "free_tensors b = (set_tier ''SSD'' b)\<lparr>cb_k := None, cb_v := None\<rparr>"

fun evict_to_ssd :: "nat list \<Rightarrow> paged_cache \<Rightarrow> int list \<times> paged_cache" where
  "evict_to_ssd [] c = ([], c)"
| "evict_to_ssd (r # rs) c =
     (if storage_tier (cb_meta (pc_heap c ! r)) \<noteq> ''SSD''
      then (let (_, c1) = mock_store r c; c2 = upd_obj r free_tensors c1; (ids, c3) = evict_to_ssd rs c2
            in (block_id (cb_meta (pc_heap c2 ! r)) # ids, c3))
      else evict_to_ssd rs c)"

section \<open>Paged cache\<close>

definition cm_init_step :: "int \<Rightarrow> int \<Rightarrow> bool \<Rightarrow> int \<times> int \<times> int \<Rightarrow> unit \<Rightarrow> (paged_cache, unit) meth" where
  "cm_init_step bt ctx attach x _ = (case x of (l, h, b) \<Rightarrow>
     sbind (cm_allocate l (b * bt) (Some (min bt (ctx - b * bt))) h 1 ''GPU'' attach) (\<lambda>_. sret ()))"

definition initialize_context :: "int \<Rightarrow> bool \<Rightarrow> (paged_cache, nat) meth" where
  "initialize_context ctx attach =
     sbind (sread (\<lambda>c. c)) (\<lambda>c.
     if pc_block_tokens c = 0 then sraise ZeroDivisionError
     else (let bt = pc_block_tokens c; n = ceil_div ctx bt
           in sthen (sfor (cm_init_step bt ctx attach) (points3 [0..pc_layers c - 1] [0..pc_heads c - 1] [0..n - 1]) ())
                (sread cm_total_blocks)))"

definition run_offload_pass :: "int \<Rightarrow> paged_cache \<Rightarrow> (nat \<times> nat) \<times> paged_cache" where
  "run_offload_pass ctx c =
     (let ((hs, cs), c1) = partition_blocks (cm_all_blocks c) ctx c;
          c2 = (if pc_ssd c1 \<noteq> None then snd (evict_to_ssd cs c1) else c1)
      in ((length hs, length cs), c2))"

definition tier_bytes :: "(string \<Rightarrow> bool) \<Rightarrow> paged_cache \<Rightarrow> int" where
  "tier_bytes P c = (\<Sum>r\<leftarrow>filter (\<lambda>r. P (storage_tier (cb_meta (pc_heap c ! r)))) (cm_all_blocks c). total_size_bytes (cb_meta (pc_heap c ! r)))"

definition get_host_memory_bytes :: "paged_cache \<Rightarrow> int" where
  "get_host_memory_bytes = tier_bytes (\<lambda>t. t \<noteq> ''SSD'')"

definition get_offloaded_memory_bytes :: "paged_cache \<Rightarrow> int" where
  "get_offloaded_memory_bytes = tier_bytes (\<lambda>t. t = ''SSD'')"

section \<open>Well-formed caches\<close>

text \<open>The block table names distinct objects of the heap under their own ids.\<close>

definition pc_wf :: "paged_cache \<Rightarrow> bool" where
  "pc_wf c \<longleftrightarrow> dict_ok (pc_blocks c) \<and> distinct (cm_all_blocks c) \<and>
     (\<forall>(i, r)\<in>set (pc_blocks c). r < length (pc_heap c) \<and> block_id (cb_meta (pc_heap c ! r)) = i)"

text \<open>Two caches that differ only in what the objects hold besides their identity and their sizes.\<close>

definition same_identity :: "cache_block \<Rightarrow> cache_block \<Rightarrow> bool" where
  "same_identity a b \<longleftrightarrow> block_id (cb_meta a) = block_id (cb_meta b) \<and> token_start (cb_meta a) = token_start (cb_meta b) \<and>
     token_count (cb_meta a) = token_count (cb_meta b) \<and> total_size_bytes (cb_meta a) = total_size_bytes (cb_meta b)"

lemma same_identity_refl [simp]: "same_identity a a"
  by (simp add: same_identity_def)

lemma same_identity_trans: "same_identity a b \<Longrightarrow> same_identity b d \<Longrightarrow> same_identity a d"
  by (simp add: same_identity_def)

definition same_blocks :: "paged_cache \<Rightarrow> paged_cache \<Rightarrow> bool" where
  "same_blocks c c' \<longleftrightarrow> pc_blocks c' = pc_blocks c \<and> pc_sink c' = pc_sink c \<and> pc_recent c' = pc_recent c \<and>
     length (pc_heap c') = length (pc_heap c) \<and> (\<forall>r. same_identity (pc_heap c ! r) (pc_heap c' ! r))"

lemma same_blocks_trans: "same_blocks a b \<Longrightarrow> same_blocks b d \<Longrightarrow> same_blocks a d"
  unfolding same_blocks_def by (auto intro: same_identity_trans)

lemma same_blocks_refl [simp]: "same_blocks c c"
  by (simp add: same_blocks_def)

lemma upd_obj_nth: "pc_heap (upd_obj r f c) ! q = (if q = r \<and> r < length (pc_heap c) then f (pc_heap c ! r) else pc_heap c ! q)"
  by (cases "r < length (pc_heap c)") (auto simp: upd_obj_def nth_list_update list_update_beyond)

lemma upd_obj_same: "(\<And>b. same_identity b (f b)) \<Longrightarrow> same_blocks c (upd_obj r f c)"
  by (simp add: same_blocks_def upd_obj_nth) (simp add: upd_obj_def)

lemma on_ssd_fields [simp]: "pc_heap (on_ssd f c) = pc_heap c" "pc_blocks (on_ssd f c) = pc_blocks c"
  "pc_sink (on_ssd f c) = pc_sink c" "pc_recent (on_ssd f c) = pc_recent c" "pc_ssd (on_ssd f c) = map_option f (pc_ssd c)"
  by (simp_all add: on_ssd_def)

lemma upd_obj_fields [simp]: "pc_blocks (upd_obj r f c) = pc_blocks c" "pc_ssd (upd_obj r f c) = pc_ssd c"
  "length (pc_heap (upd_obj r f c)) = length (pc_heap c)"
  by (simp_all add: upd_obj_def)

lemma same_blocks_on_ssd: "same_blocks c d \<Longrightarrow> same_blocks c (on_ssd f d)"
  by (simp add: same_blocks_def)

lemma same_blocks_hot: "same_blocks c c' \<Longrightarrow> is_hot_ref ctx c' r = is_hot_ref ctx c r"
  by (simp add: same_blocks_def is_hot_ref_def classify_block_def same_identity_def)

text \<open>Partitioning sorts by class and changes hotness only.\<close>

lemma partition_blocks_ok:
  "partition_blocks rs ctx c = ((hs, cs), c') \<Longrightarrow>
   hs = filter (is_hot_ref ctx c) rs \<and> cs = filter (\<lambda>r. \<not> is_hot_ref ctx c r) rs \<and> same_blocks c c' \<and> pc_ssd c' = pc_ssd c \<and>
   (\<forall>q. storage_tier (cb_meta (pc_heap c' ! q)) = storage_tier (cb_meta (pc_heap c ! q)) \<and>
      cb_k (pc_heap c' ! q) = cb_k (pc_heap c ! q) \<and> cb_v (pc_heap c' ! q) = cb_v (pc_heap c ! q))"
proof (induction rs arbitrary: c hs cs)
  case (Cons r rs)
  let ?f = "\<lambda>b. b\<lparr>cb_meta := (cb_meta b)\<lparr>hotness := (if is_hot_ref ctx c r then 1 else cold_hotness ctx (cb_meta b))\<rparr>\<rparr>"
  let ?c1 = "upd_obj r ?f c"
  obtain hs1 cs1 where p: "partition_blocks rs ctx ?c1 = ((hs1, cs1), c')"
    "(hs, cs) = (if is_hot_ref ctx c r then (r # hs1, cs1) else (hs1, r # cs1))"
    using Cons.prems by (auto simp: Let_def split: prod.splits if_splits)
  have s1: "same_blocks c ?c1" by (rule upd_obj_same) (simp add: same_identity_def total_size_bytes_def)
  have f: "is_hot_ref ctx ?c1 = is_hot_ref ctx c" using same_blocks_hot [OF s1] by (simp add: fun_eq_iff)
  have "storage_tier (cb_meta (pc_heap ?c1 ! q)) = storage_tier (cb_meta (pc_heap c ! q)) \<and>
      cb_k (pc_heap ?c1 ! q) = cb_k (pc_heap c ! q) \<and> cb_v (pc_heap ?c1 ! q) = cb_v (pc_heap c ! q)" for q
    by (simp add: upd_obj_nth)
  with Cons.IH [OF p(1)] p(2) s1 f show ?case by (auto intro: same_blocks_trans)
qed simp

text \<open>What eviction leaves of an object: its tensors only where it was on the SSD already.\<close>

definition evicted :: "cache_block \<Rightarrow> cache_block \<Rightarrow> bool" where
  "evicted b b' \<longleftrightarrow> same_identity b b' \<and> storage_tier (cb_meta b') = ''SSD'' \<and>
     (storage_tier (cb_meta b) \<noteq> ''SSD'' \<longrightarrow> cb_k b' = None \<and> cb_v b' = None) \<and>
     (storage_tier (cb_meta b) = ''SSD'' \<longrightarrow> b' = b)"

definition inject :: "paged_cache \<Rightarrow> nat list \<Rightarrow> bool" where
  "inject c rs \<longleftrightarrow> distinct rs \<and> (\<forall>r\<in>set rs. r < length (pc_heap c)) \<and>
     inj_on (\<lambda>r. block_id (cb_meta (pc_heap c ! r))) (set rs)"

lemma inject_same: "same_blocks c c' \<Longrightarrow> inject c' rs = inject c rs"
  by (simp add: same_blocks_def inject_def same_identity_def cong: inj_on_cong)

lemma evict_ok:
  "evict_to_ssd rs c = (ids, c') \<Longrightarrow> inject c rs \<Longrightarrow> pc_ssd c \<noteq> None \<Longrightarrow>
   same_blocks c c' \<and> pc_ssd c' \<noteq> None \<and>
   (\<forall>q. if q \<in> set rs then evicted (pc_heap c ! q) (pc_heap c' ! q) else pc_heap c' ! q = pc_heap c ! q) \<and>
   (\<forall>q\<in>set rs. storage_tier (cb_meta (pc_heap c ! q)) \<noteq> ''SSD'' \<longrightarrow>
      mock_lookup (block_id (cb_meta (pc_heap c ! q))) c' = Some q) \<and>
   (\<forall>i. i \<notin> (\<lambda>r. block_id (cb_meta (pc_heap c ! r))) ` set rs \<longrightarrow> mock_lookup i c' = mock_lookup i c)"
proof (induction rs arbitrary: c ids)
  case (Cons r rs)
  have inj: "inject c rs" "r \<notin> set rs" "r < length (pc_heap c)"
    "block_id (cb_meta (pc_heap c ! r)) \<notin> (\<lambda>r. block_id (cb_meta (pc_heap c ! r))) ` set rs"
    using Cons.prems(2) by (auto simp: inject_def)
  show ?case
  proof (cases "storage_tier (cb_meta (pc_heap c ! r)) = ''SSD''")
    case True
    then have "evict_to_ssd rs c = (ids, c')" using Cons.prems(1) by simp
    from Cons.IH [OF this inj(1) Cons.prems(3)] have
      IH: "same_blocks c c'" "pc_ssd c' \<noteq> None"
        "\<And>q. if q \<in> set rs then evicted (pc_heap c ! q) (pc_heap c' ! q) else pc_heap c' ! q = pc_heap c ! q"
        "\<And>q. q \<in> set rs \<Longrightarrow> storage_tier (cb_meta (pc_heap c ! q)) \<noteq> ''SSD'' \<Longrightarrow>
           mock_lookup (block_id (cb_meta (pc_heap c ! q))) c' = Some q"
        "\<And>i. i \<notin> (\<lambda>r. block_id (cb_meta (pc_heap c ! r))) ` set rs \<Longrightarrow> mock_lookup i c' = mock_lookup i c"
      by blast+
    have "evicted (pc_heap c ! r) (pc_heap c' ! r)" using IH(3) [of r] inj(2) True by (simp add: evicted_def)
    then have obj: "if q \<in> set (r # rs) then evicted (pc_heap c ! q) (pc_heap c' ! q) else pc_heap c' ! q = pc_heap c ! q" for q
      using IH(3) [of q] by (cases "q = r") simp_all
    have found: "mock_lookup (block_id (cb_meta (pc_heap c ! q))) c' = Some q"
      if "q \<in> set (r # rs)" "storage_tier (cb_meta (pc_heap c ! q)) \<noteq> ''SSD''" for q
      using that IH(4) True by auto
    have rest: "mock_lookup i c' = mock_lookup i c" if "i \<notin> (\<lambda>r. block_id (cb_meta (pc_heap c ! r))) ` set (r # rs)" for i
      using that IH(5) by simp
    show ?thesis using IH(1,2) obj found rest by blast
  next
    case False
    let ?c1 = "snd (mock_store r c)" and ?i = "block_id (cb_meta (pc_heap c ! r))"
    let ?c2 = "upd_obj r free_tensors ?c1"
    obtain ids1 where e: "evict_to_ssd rs ?c2 = (ids1, c')"
      using Cons.prems(1) False by (auto simp: Let_def split: prod.splits)
    have s1: "same_blocks c ?c1"
      unfolding mock_store_def Let_def snd_conv
      by (intro same_blocks_on_ssd upd_obj_same) (simp add: same_identity_def total_size_bytes_def)
    have s2: "same_blocks ?c1 ?c2"
      by (rule upd_obj_same) (simp add: same_identity_def total_size_bytes_def free_tensors_def set_tier_def)
    note s = same_blocks_trans [OF s1 s2]
    have h: "pc_heap ?c2 ! q = pc_heap c ! q" if "q \<noteq> r" for q
      using that by (simp add: upd_obj_nth mock_store_def Let_def)
    have hr: "evicted (pc_heap c ! r) (pc_heap ?c2 ! r)"
      using inj(3) False
      by (simp add: upd_obj_nth mock_store_def Let_def evicted_def free_tensors_def set_tier_def same_identity_def
          total_size_bytes_def)
    have ssd: "pc_ssd ?c2 \<noteq> None" using Cons.prems(3) by (simp add: mock_store_def Let_def)
    have lk: "mock_lookup i ?c2 = (if i = ?i then Some r else mock_lookup i c)" for i
      using Cons.prems(3) by (auto simp: mock_lookup_def mock_store_def Let_def dict_simps)
    have ids_eq: "block_id (cb_meta (pc_heap ?c2 ! q)) = block_id (cb_meta (pc_heap c ! q))" for q
      using s by (simp add: same_blocks_def same_identity_def)
    have im: "(\<lambda>r. block_id (cb_meta (pc_heap ?c2 ! r))) ` set rs = (\<lambda>r. block_id (cb_meta (pc_heap c ! r))) ` set rs"
      by (simp only: ids_eq)
    have "inject ?c2 rs" using inj(1) inject_same [OF s] by simp
    from Cons.IH [OF e this ssd, unfolded im ids_eq] have
      IH: "same_blocks ?c2 c'" "pc_ssd c' \<noteq> None"
        "\<And>q. if q \<in> set rs then evicted (pc_heap ?c2 ! q) (pc_heap c' ! q) else pc_heap c' ! q = pc_heap ?c2 ! q"
        "\<And>q. q \<in> set rs \<Longrightarrow> storage_tier (cb_meta (pc_heap ?c2 ! q)) \<noteq> ''SSD'' \<Longrightarrow>
           mock_lookup (block_id (cb_meta (pc_heap c ! q))) c' = Some q"
        "\<And>i. i \<notin> (\<lambda>r. block_id (cb_meta (pc_heap c ! r))) ` set rs \<Longrightarrow> mock_lookup i c' = mock_lookup i ?c2"
      by blast+
    have obj: "if q \<in> set (r # rs) then evicted (pc_heap c ! q) (pc_heap c' ! q) else pc_heap c' ! q = pc_heap c ! q" for q
      using IH(3) [of q] h [of q] hr inj(2) by (cases "q = r") auto
    have found: "mock_lookup (block_id (cb_meta (pc_heap c ! q))) c' = Some q"
      if "q \<in> set (r # rs)" "storage_tier (cb_meta (pc_heap c ! q)) \<noteq> ''SSD''" for q
      using that IH(4) [of q] IH(5) [of ?i] inj(2,4) h [of q] lk [of ?i] by (cases "q = r") auto
    have rest: "mock_lookup i c' = mock_lookup i c" if "i \<notin> (\<lambda>r. block_id (cb_meta (pc_heap c ! r))) ` set (r # rs)" for i
      using that IH(5) [of i] lk [of i] by simp
    show ?thesis using same_blocks_trans [OF s IH(1)] IH(2) obj found rest by blast
  qed
qed simp

section \<open>Filling a fresh cache\<close>

text \<open>Blocks allocated so far: object \<open>n\<close> has id \<open>n\<close>.\<close>

definition pc_dense :: "paged_cache \<Rightarrow> bool" where
  "pc_dense c \<longleftrightarrow> pc_blocks c = map (\<lambda>n. (int n, n)) [0..<length (pc_heap c)] \<and> pc_next c = int (length (pc_heap c)) \<and>
     (\<forall>n<length (pc_heap c). block_id (cb_meta (pc_heap c ! n)) = int n)"

lemma pc_dense_wf: "pc_dense c \<Longrightarrow> pc_wf c"
proof -
  have "inj_on int {0..<k}" for k by (simp add: inj_on_def)
  then show "pc_dense c \<Longrightarrow> pc_wf c"
    by (auto simp: pc_dense_def pc_wf_def dict_ok_def cm_all_blocks_def comp_def distinct_map)
qed

definition tensor_for :: "paged_cache \<Rightarrow> int \<Rightarrow> bool \<Rightarrow> tensor option" where
  "tensor_for c n attach = (if attach
     then Some (zeros [nat n, 1, nat (pc_head_dim c)] (if upper_str (pc_dtype c) = ''FP16'' then Float16 else Float32)) else None)"

definition init_obj :: "paged_cache \<Rightarrow> int \<Rightarrow> bool \<Rightarrow> int \<Rightarrow> int \<times> int \<times> int \<Rightarrow> cache_block" where
  "init_obj c ctx attach i x = (case x of (l, h, b) \<Rightarrow>
     (let bt = pc_block_tokens c; n = min bt (ctx - b * bt)
      in \<lparr>cb_meta = create_default i l (b * bt) n h 1 (pc_head_dim c) (pc_dtype c) ''GPU'' 1,
          cb_k = tensor_for c n attach, cb_v = tensor_for c n attach\<rparr>))"

lemma cm_allocate_run:
  assumes "pc_dense c" "n \<noteq> 0" "attach \<longrightarrow> 0 \<le> n \<and> 0 \<le> pc_head_dim c"
  shows "\<exists>c'. cm_allocate l start (Some n) h 1 tier attach c = (Inr (length (pc_heap c)), c') \<and> pc_dense c' \<and>
    pc_heap c' = pc_heap c @ [\<lparr>cb_meta = create_default (pc_next c) l start n h 1 (pc_head_dim c) (pc_dtype c) tier 1,
       cb_k = tensor_for c n attach, cb_v = tensor_for c n attach\<rparr>] \<and>
    pc_head_dim c' = pc_head_dim c \<and> pc_dtype c' = pc_dtype c \<and> pc_block_tokens c' = pc_block_tokens c \<and>
    pc_ssd c' = pc_ssd c"
proof -
  let ?o = "\<lparr>cb_meta = create_default (pc_next c) l start n h 1 (pc_head_dim c) (pc_dtype c) tier 1,
       cb_k = tensor_for c n attach, cb_v = tensor_for c n attach\<rparr>"
  let ?c' = "c\<lparr>pc_next := pc_next c + 1, pc_heap := pc_heap c @ [?o], pc_blocks := pc_blocks c @ [(pc_next c, length (pc_heap c))]\<rparr>"
  have "pc_next c \<notin> set (dkeys (pc_blocks c))" using assms(1) by (auto simp: pc_dense_def comp_def)
  then have fresh: "dset (pc_next c) r (pc_blocks c) = pc_blocks c @ [(pc_next c, r)]" for r
    by (simp add: dset_fresh dmem_keys)
  have run: "cm_allocate l start (Some n) h 1 tier attach c = (Inr (length (pc_heap c)), ?c')"
    using assms(2,3) by (auto simp: cm_allocate_def Let_def fresh tensor_for_def)
  have "pc_dense ?c'" using assms(1)
    by (auto simp: pc_dense_def nth_append less_Suc_eq create_default_def Let_def)
  with run show ?thesis by (intro exI [of _ ?c']) simp
qed

lemma init_loop:
  assumes "pc_dense c" "\<forall>(l, h, b)\<in>set xs. 0 < min (pc_block_tokens c) (ctx - b * pc_block_tokens c)" "attach \<longrightarrow> 0 \<le> pc_head_dim c"
  shows "\<exists>c'. sfor (cm_init_step (pc_block_tokens c) ctx attach) xs () c = (Inr (), c') \<and>
    pc_dense c' \<and> pc_heap c' = pc_heap c @ map2 (init_obj c ctx attach) [pc_next c..pc_next c + int (length xs) - 1] xs \<and>
    pc_ssd c' = pc_ssd c"
  using assms
proof (induction xs arbitrary: c)
  case (Cons x xs)
  obtain l h b where x: "x = (l, h, b)" by (cases x) auto
  let ?bt = "pc_block_tokens c"
  let ?n = "min ?bt (ctx - b * ?bt)"
  have n: "0 < ?n" using Cons.prems(2) x by simp
  obtain c1 where c1: "cm_allocate l (b * ?bt) (Some ?n) h 1 ''GPU'' attach c = (Inr (length (pc_heap c)), c1)" "pc_dense c1"
    "pc_heap c1 = pc_heap c @ [init_obj c ctx attach (pc_next c) x]"
    "pc_head_dim c1 = pc_head_dim c" "pc_dtype c1 = pc_dtype c" "pc_block_tokens c1 = ?bt" "pc_ssd c1 = pc_ssd c"
    using cm_allocate_run [OF Cons.prems(1), of ?n attach l "b * ?bt" h "''GPU''"] n Cons.prems(3)
    by (auto simp: init_obj_def x Let_def)
  have nx: "pc_next c1 = pc_next c + 1" using c1(2,3) Cons.prems(1) by (simp add: pc_dense_def)
  have io: "init_obj c1 = init_obj c" by (simp only: fun_eq_iff init_obj_def tensor_for_def c1(4-6)) simp
  obtain c' where c': "sfor (cm_init_step ?bt ctx attach) xs () c1 = (Inr (), c')" "pc_dense c'" "pc_ssd c' = pc_ssd c1"
    "pc_heap c' = pc_heap c1 @ map2 (init_obj c ctx attach) [pc_next c1..pc_next c1 + int (length xs) - 1] xs"
    using Cons.IH [OF c1(2)] Cons.prems(2,3) c1(4,6) io by auto
  have "[pc_next c..pc_next c + int (length (x # xs)) - 1] = pc_next c # [pc_next c1..pc_next c1 + int (length xs) - 1]"
    by (subst upto_rec1) (simp_all add: nx)
  moreover have "cm_init_step ?bt ctx attach x () c = (Inr (), c1)" using c1(1) by (simp add: cm_init_step_def x meth_run)
  ultimately show ?case using c1(3,7) c' by (intro exI [of _ c']) (simp add: meth_run)
qed simp

text \<open>The blocks of one head cover the context exactly.\<close>

lemma block_tokens_sum:
  assumes "0 < bt" "0 \<le> ctx"
  shows "(\<Sum>b\<leftarrow>[0..ceil_div ctx bt - 1]. min bt (ctx - b * bt)) = ctx"
proof -
  have partial: "(\<Sum>b\<leftarrow>[0..int n - 1]. min bt (ctx - b * bt)) = min (int n * bt) ctx" if "int n \<le> ceil_div ctx bt" for n
    using that
  proof (induction n)
    case (Suc n)
    have "int n < ceil_div ctx bt" using Suc.prems by simp
    then have "int n * bt < ctx" by (simp add: ceil_div_le_iff [OF assms(1)])
    moreover have "[0..int (Suc n) - 1] = [0..int n - 1] @ [int n]" using upto_rec2 [of 0 "int n"] by simp
    ultimately show ?case using Suc by (simp add: min_def algebra_simps)
  qed (use assms in simp)
  have "\<not> ceil_div ctx bt < 0"
    using assms pos_imp_zdiv_nonneg_iff [of bt "ctx + bt - 1"] by (simp add: ceil_div_def)
  then have c0: "0 \<le> ceil_div ctx bt" by simp
  then have "(\<Sum>b\<leftarrow>[0..ceil_div ctx bt - 1]. min bt (ctx - b * bt)) = min (ceil_div ctx bt * bt) ctx"
    using partial [of "nat (ceil_div ctx bt)"] by simp
  then show ?thesis using ceil_div_bounds(1) [OF assms(1), of ctx] by simp
qed

lemma sum_points3: "(\<Sum>(x, y, z)\<leftarrow>points3 xs ys zs. f z) = int (length xs) * (int (length ys) * (\<Sum>z\<leftarrow>zs. f z))"
proof -
  have one: "(\<Sum>(x, y, z)\<leftarrow>map (\<lambda>z. (x, y, z)) zs. f z) = (\<Sum>z\<leftarrow>zs. f z)" for x :: 'a and y :: 'b
    by (simp add: comp_def)
  have two: "(\<Sum>(x, y, z)\<leftarrow>concat (map (\<lambda>y. map (\<lambda>z. (x, y, z)) zs) ys). f z) = int (length ys) * (\<Sum>z\<leftarrow>zs. f z)" for x :: 'a
    by (induction ys) (simp_all add: one [simplified] distrib_right)
  show ?thesis by (induction xs) (simp_all add: points3_def two distrib_right)
qed

lemma length_points3: "length (points3 xs ys zs) = length xs * (length ys * length zs)"
  by (simp add: points3_def length_concat comp_def sum_list_triv)

lemma points3_mem: "(x, y, z) \<in> set (points3 xs ys zs) \<longleftrightarrow> x \<in> set xs \<and> y \<in> set ys \<and> z \<in> set zs"
  by (auto simp: points3_def)

section \<open>Properties\<close>

lemma pc_wfD:
  assumes "pc_wf c" "dget (pc_blocks c) i = Some r"
  shows "r \<in> set (cm_all_blocks c)" "block_id (cb_meta (pc_heap c ! r)) = i" "r < length (pc_heap c)"
  using assms map_of_SomeD [OF assms(2)] by (force simp: pc_wf_def cm_all_blocks_def)+

lemma pc_wf_inject: "pc_wf c \<Longrightarrow> inject c (filter P (cm_all_blocks c))"
proof -
  assume wf: "pc_wf c"
  have "inj_on (\<lambda>r. block_id (cb_meta (pc_heap c ! r))) (set (cm_all_blocks c))"
  proof (rule inj_onI)
    fix r q assume rq: "r \<in> set (cm_all_blocks c)" "q \<in> set (cm_all_blocks c)"
      "block_id (cb_meta (pc_heap c ! r)) = block_id (cb_meta (pc_heap c ! q))"
    then obtain i j where "(i, r) \<in> set (pc_blocks c)" "(j, q) \<in> set (pc_blocks c)" by (auto simp: cm_all_blocks_def)
    moreover have "block_id (cb_meta (pc_heap c ! r)) = i" if "(i, r) \<in> set (pc_blocks c)" for i r
      using wf that by (auto simp: pc_wf_def)
    ultimately have "i = j" using rq(3) by metis
    moreover note \<open>(i, r) \<in> set (pc_blocks c)\<close> \<open>(j, q) \<in> set (pc_blocks c)\<close>
    moreover have "distinct (dkeys (pc_blocks c))" using wf by (simp add: pc_wf_def dict_ok_def)
    ultimately have "dget (pc_blocks c) i = Some r" "dget (pc_blocks c) i = Some q" using map_of_is_SomeI by metis+
    then show "r = q" by simp
  qed
  moreover have "\<forall>r\<in>set (cm_all_blocks c). r < length (pc_heap c)" using wf by (auto simp: pc_wf_def cm_all_blocks_def)
  ultimately show ?thesis using wf by (auto simp: inject_def pc_wf_def intro: inj_on_subset)
qed

lemma pc_wf_same: "same_blocks c c' \<Longrightarrow> pc_wf c' = pc_wf c"
  by (simp add: same_blocks_def pc_wf_def same_identity_def cm_all_blocks_def)

text \<open>The two steps of a pass, with the objects before and after.\<close>

lemma offload_pass_ok:
  assumes "pc_wf c" "pc_ssd c \<noteq> None" "run_offload_pass ctx c = ((h, k), c')"
  shows "same_blocks c c' \<and> pc_ssd c' \<noteq> None \<and>
    h = length (filter (is_hot_ref ctx c) (cm_all_blocks c)) \<and> k = length (filter (\<lambda>r. \<not> is_hot_ref ctx c r) (cm_all_blocks c)) \<and>
    (\<forall>r\<in>set (cm_all_blocks c). storage_tier (cb_meta (pc_heap c' ! r)) =
       (if is_hot_ref ctx c r then storage_tier (cb_meta (pc_heap c ! r)) else ''SSD'')) \<and>
    (\<forall>r\<in>set (cm_all_blocks c). \<not> is_hot_ref ctx c r \<and> storage_tier (cb_meta (pc_heap c ! r)) \<noteq> ''SSD'' \<longrightarrow>
       mock_lookup (block_id (cb_meta (pc_heap c ! r))) c' = Some r \<and> cb_k (pc_heap c' ! r) = None \<and> cb_v (pc_heap c' ! r) = None)"
proof -
  obtain hs cs c1 where p: "partition_blocks (cm_all_blocks c) ctx c = ((hs, cs), c1)" by (metis prod.exhaust)
  note part = partition_blocks_ok [OF p]
  then have s1: "same_blocks c c1" and ssd1: "pc_ssd c1 \<noteq> None" using assms(2) by auto
  obtain ids c2 where e: "evict_to_ssd cs c1 = (ids, c2)" by fastforce
  have c': "h = length hs" "k = length cs" "c' = c2" using assms(3) p e ssd1 by (auto simp: run_offload_pass_def)
  have "inject c1 cs" using pc_wf_inject [OF assms(1)] part inject_same [OF s1] by simp
  from evict_ok [OF e this ssd1] have
    ev: "same_blocks c1 c2" "pc_ssd c2 \<noteq> None"
      "\<And>q. if q \<in> set cs then evicted (pc_heap c1 ! q) (pc_heap c2 ! q) else pc_heap c2 ! q = pc_heap c1 ! q"
      "\<And>q. q \<in> set cs \<Longrightarrow> storage_tier (cb_meta (pc_heap c1 ! q)) \<noteq> ''SSD'' \<Longrightarrow>
         mock_lookup (block_id (cb_meta (pc_heap c1 ! q))) c2 = Some q"
    by blast+
  have idq: "block_id (cb_meta (pc_heap c1 ! q)) = block_id (cb_meta (pc_heap c ! q))" for q
    using s1 by (simp add: same_blocks_def same_identity_def)
  have tq: "storage_tier (cb_meta (pc_heap c1 ! q)) = storage_tier (cb_meta (pc_heap c ! q))" for q using part by simp
  have cs: "q \<in> set cs \<longleftrightarrow> q \<in> set (cm_all_blocks c) \<and> \<not> is_hot_ref ctx c q" for q using part by auto
  have tier: "storage_tier (cb_meta (pc_heap c2 ! r)) = (if is_hot_ref ctx c r then storage_tier (cb_meta (pc_heap c ! r)) else ''SSD'')"
    if "r \<in> set (cm_all_blocks c)" for r
    using ev(3) [of r] that cs [of r] tq [of r] by (auto simp: evicted_def split: if_splits)
  have gone: "mock_lookup (block_id (cb_meta (pc_heap c ! r))) c2 = Some r \<and> cb_k (pc_heap c2 ! r) = None \<and> cb_v (pc_heap c2 ! r) = None"
    if "r \<in> set (cm_all_blocks c)" "\<not> is_hot_ref ctx c r" "storage_tier (cb_meta (pc_heap c ! r)) \<noteq> ''SSD''" for r
    using ev(3,4) [of r] that cs [of r] tq [of r] idq [of r] by (simp add: evicted_def)
  show ?thesis using same_blocks_trans [OF s1 ev(1)] ev(2) c' part tier gone by auto
qed

text \<open>What the SSD holds and counts after storing the blocks \<open>rs\<close>, one by one.\<close>

definition stored_all :: "cache_block list \<Rightarrow> nat list \<Rightarrow> mock_ssd \<Rightarrow> mock_ssd" where
  "stored_all heap rs s =
     (let n = (\<Sum>r\<leftarrow>rs. total_size_bytes (cb_meta (heap ! r)))
      in s\<lparr>ms_storage := fold (\<lambda>r. dset (block_id (cb_meta (heap ! r))) r) rs (ms_storage s),
           ms_writes := ms_writes s + int (length rs), ms_h2d := ms_h2d s + n, ms_flash_wr := ms_flash_wr s + n,
           ms_time := ms_time s + real (length rs) * (1.5 + T_PROG_US)\<rparr>)"

lemma stored_all_Nil [simp]: "stored_all heap [] s = s"
  by (simp add: stored_all_def Let_def)

lemma stored_all_Cons: "stored_all heap (r # rs) s = stored_all heap rs (stored_all heap [r] s)"
  by (simp add: stored_all_def Let_def algebra_simps)

lemma stored_all_cong:
  "(\<And>r. r \<in> set rs \<Longrightarrow> same_identity (heap ! r) (heap' ! r)) \<Longrightarrow> stored_all heap' rs s = stored_all heap rs s"
proof -
  assume same: "\<And>r. r \<in> set rs \<Longrightarrow> same_identity (heap ! r) (heap' ! r)"
  have "(\<Sum>r\<leftarrow>rs. total_size_bytes (cb_meta (heap' ! r))) = (\<Sum>r\<leftarrow>rs. total_size_bytes (cb_meta (heap ! r)))"
    using same by (intro arg_cong [where f = sum_list] map_cong) (simp_all add: same_identity_def)
  moreover have "fold (\<lambda>r. dset (block_id (cb_meta (heap' ! r))) r) rs d = fold (\<lambda>r. dset (block_id (cb_meta (heap ! r))) r) rs d" for d
    using same by (intro fold_cong refl) (simp add: same_identity_def)
  ultimately show ?thesis by (simp add: stored_all_def Let_def)
qed

text \<open>Eviction stores the blocks that are not on the SSD, and only those.\<close>

definition off_ssd :: "paged_cache \<Rightarrow> nat list \<Rightarrow> nat list" where
  "off_ssd c rs = filter (\<lambda>r. storage_tier (cb_meta (pc_heap c ! r)) \<noteq> ''SSD'') rs"

lemma evict_stores:
  assumes "evict_to_ssd rs c = (ids, c')" "distinct rs" "\<forall>r\<in>set rs. r < length (pc_heap c)" "pc_ssd c = Some s"
  shows "pc_ssd c' = Some (stored_all (pc_heap c) (off_ssd c rs) s) \<and>
    (\<forall>q. physical_location (cb_meta (pc_heap c' ! q)) =
       (if q \<in> set (off_ssd c rs) then Some (mock_location (block_id (cb_meta (pc_heap c ! q))))
        else physical_location (cb_meta (pc_heap c ! q))))"
  using assms
proof (induction rs arbitrary: c ids s)
  case (Cons r rs)
  show ?case
  proof (cases "storage_tier (cb_meta (pc_heap c ! r)) = ''SSD''")
    case True
    then show ?thesis using Cons.IH [of c ids s] Cons.prems by (simp add: off_ssd_def)
  next
    case False
    let ?c1 = "snd (mock_store r c)" and ?i = "block_id (cb_meta (pc_heap c ! r))"
    let ?c2 = "upd_obj r free_tensors ?c1"
    obtain ids1 where e: "evict_to_ssd rs ?c2 = (ids1, c')"
      using Cons.prems(1) False by (auto simp: Let_def split: prod.splits)
    have r: "r < length (pc_heap c)" "r \<notin> set rs" using Cons.prems(2,3) by simp_all
    have h: "pc_heap ?c2 ! q = pc_heap c ! q" if "q \<noteq> r" for q
      using that by (simp add: upd_obj_nth mock_store_def Let_def)
    have len: "length (pc_heap ?c2) = length (pc_heap c)" by (simp add: mock_store_def Let_def)
    have loc: "physical_location (cb_meta (pc_heap ?c2 ! r)) = Some (mock_location ?i)"
      using r(1) by (simp add: upd_obj_nth mock_store_def Let_def free_tensors_def set_tier_def)
    have ssd: "pc_ssd ?c2 = Some (stored_all (pc_heap c) [r] s)"
      using Cons.prems(4) r(1) by (simp add: mock_store_def Let_def stored_all_def upd_obj_nth total_size_bytes_def)
    let ?m = "off_ssd c rs"
    have m: "off_ssd ?c2 rs = ?m" unfolding off_ssd_def
      using h r(2) by (intro filter_cong refl) metis
    have "stored_all (pc_heap ?c2) ?m s' = stored_all (pc_heap c) ?m s'" for s'
      using h r(2) by (intro stored_all_cong) (metis off_ssd_def filter_is_subset same_identity_refl subsetD)
    with Cons.IH [OF e _ _ ssd] Cons.prems(2,3) len m have
      IH: "pc_ssd c' = Some (stored_all (pc_heap c) ?m (stored_all (pc_heap c) [r] s))"
        "\<And>q. physical_location (cb_meta (pc_heap c' ! q)) =
          (if q \<in> set ?m then Some (mock_location (block_id (cb_meta (pc_heap ?c2 ! q))))
           else physical_location (cb_meta (pc_heap ?c2 ! q)))"
      by auto
    have nr: "r \<notin> set ?m" using r(2) by (simp add: off_ssd_def)
    have "physical_location (cb_meta (pc_heap c' ! q)) =
        (if q \<in> set (r # ?m) then Some (mock_location (block_id (cb_meta (pc_heap c ! q))))
         else physical_location (cb_meta (pc_heap c ! q)))" for q
      using IH(2) [of q] h [of q] loc nr by (cases "q = r") auto
    moreover have "off_ssd c (r # rs) = r # ?m" using False by (simp add: off_ssd_def)
    ultimately show ?thesis using IH(1) by (simp add: stored_all_Cons [of _ r ?m])
  qed
qed (simp add: off_ssd_def)

lemma partition_location:
  "partition_blocks rs ctx c = (x, c') \<Longrightarrow> physical_location (cb_meta (pc_heap c' ! q)) = physical_location (cb_meta (pc_heap c ! q))"
proof (induction rs arbitrary: c x)
  case (Cons r rs)
  then show ?case by (auto simp: Let_def upd_obj_nth split: prod.splits if_splits)
qed simp

lemma tier_bytes_split:
  "get_host_memory_bytes c + get_offloaded_memory_bytes c = (\<Sum>r\<leftarrow>cm_all_blocks c. total_size_bytes (cb_meta (pc_heap c ! r)))"
proof -
  have "(\<Sum>r\<leftarrow>filter (\<lambda>r. \<not> P r) rs. f r) + (\<Sum>r\<leftarrow>filter P rs. f r) = (\<Sum>r\<leftarrow>rs. f r)" for P rs and f :: "nat \<Rightarrow> int"
    by (induction rs) simp_all
  then show ?thesis by (simp add: get_host_memory_bytes_def get_offloaded_memory_bytes_def tier_bytes_def)
qed

lemma offload_pass_moves:
  assumes "pc_wf c" "pc_ssd c = Some s" "run_offload_pass ctx c = ((h, k), c')"
  defines "cold \<equiv> filter (\<lambda>r. \<not> is_hot_ref ctx c r) (cm_all_blocks c)"
  shows "same_blocks c c'" "h = length (filter (is_hot_ref ctx c) (cm_all_blocks c))" "k = length cold"
    and "pc_ssd c' = Some (stored_all (pc_heap c) (off_ssd c cold) s)"
    and "\<forall>r\<in>set (cm_all_blocks c). let b = pc_heap c ! r; b' = pc_heap c' ! r in
      if r \<in> set (off_ssd c cold)
      then storage_tier (cb_meta b') = ''SSD'' \<and> cb_k b' = None \<and> cb_v b' = None \<and>
           physical_location (cb_meta b') = Some (mock_location (block_id (cb_meta b)))
      else storage_tier (cb_meta b') = storage_tier (cb_meta b) \<and> cb_k b' = cb_k b \<and> cb_v b' = cb_v b \<and>
           physical_location (cb_meta b') = physical_location (cb_meta b)"
proof -
  have ssd: "pc_ssd c \<noteq> None" using assms(2) by simp
  note ok = offload_pass_ok [OF assms(1) ssd assms(3)]
  then show "same_blocks c c'" "h = length (filter (is_hot_ref ctx c) (cm_all_blocks c))" "k = length cold"
    by (simp_all add: cold_def)
  obtain hs cs c1 where p: "partition_blocks (cm_all_blocks c) ctx c = ((hs, cs), c1)" by (metis prod.exhaust)
  note part = partition_blocks_ok [OF p]
  have s1: "same_blocks c c1" "pc_ssd c1 = Some s" "cs = cold" using part assms(2) by (simp_all add: cold_def)
  obtain ids c2 where e: "evict_to_ssd cold c1 = (ids, c2)" by fastforce
  have c': "c' = c2" using assms(3) p e s1(2,3) by (auto simp: run_offload_pass_def)
  have inj: "inject c1 cold" using pc_wf_inject [OF assms(1)] inject_same [OF s1(1)] by (simp add: cold_def)
  then have d: "distinct cold" "\<forall>r\<in>set cold. r < length (pc_heap c1)" by (simp_all add: inject_def)
  have m: "off_ssd c1 cold = off_ssd c cold" using part by (simp add: off_ssd_def)
  have "stored_all (pc_heap c1) xs s = stored_all (pc_heap c) xs s" for xs
    using s1(1) by (intro stored_all_cong) (simp add: same_blocks_def)
  with evict_stores [OF e d s1(2)] show "pc_ssd c' = Some (stored_all (pc_heap c) (off_ssd c cold) s)"
    by (simp add: c' m)
  have idq: "block_id (cb_meta (pc_heap c1 ! q)) = block_id (cb_meta (pc_heap c ! q))" for q
    using s1(1) by (simp add: same_blocks_def same_identity_def)
  have loc: "physical_location (cb_meta (pc_heap c' ! q)) =
      (if q \<in> set (off_ssd c cold) then Some (mock_location (block_id (cb_meta (pc_heap c ! q))))
       else physical_location (cb_meta (pc_heap c ! q)))" for q
    using evict_stores [OF e d s1(2)] partition_location [OF p] by (simp add: c' m idq)
  have ev: "if q \<in> set cold then evicted (pc_heap c1 ! q) (pc_heap c' ! q) else pc_heap c' ! q = pc_heap c1 ! q" for q
    using evict_ok [OF e inj] s1(2) unfolding c' by blast
  have obj: "if q \<in> set (off_ssd c cold) then storage_tier (cb_meta (pc_heap c' ! q)) = ''SSD'' \<and> cb_k (pc_heap c' ! q) = None \<and> cb_v (pc_heap c' ! q) = None
      else storage_tier (cb_meta (pc_heap c' ! q)) = storage_tier (cb_meta (pc_heap c ! q)) \<and> cb_k (pc_heap c' ! q) = cb_k (pc_heap c ! q) \<and>
        cb_v (pc_heap c' ! q) = cb_v (pc_heap c ! q)" for q
    using ev [of q] part by (cases "q \<in> set cold") (auto simp: evicted_def off_ssd_def)
  show "\<forall>r\<in>set (cm_all_blocks c). let b = pc_heap c ! r; b' = pc_heap c' ! r in
      if r \<in> set (off_ssd c cold)
      then storage_tier (cb_meta b') = ''SSD'' \<and> cb_k b' = None \<and> cb_v b' = None \<and>
           physical_location (cb_meta b') = Some (mock_location (block_id (cb_meta b)))
      else storage_tier (cb_meta b') = storage_tier (cb_meta b) \<and> cb_k b' = cb_k b \<and> cb_v b' = cb_v b \<and>
           physical_location (cb_meta b') = physical_location (cb_meta b)"
    using obj loc by (auto simp: Let_def)
qed

lemma tier_bytes_moved:
  assumes "cm_all_blocks c' = cm_all_blocks c"
    and "\<forall>r\<in>set (cm_all_blocks c). total_size_bytes (cb_meta (pc_heap c' ! r)) = total_size_bytes (cb_meta (pc_heap c ! r)) \<and>
      (storage_tier (cb_meta (pc_heap c' ! r)) = ''SSD'' \<longleftrightarrow> storage_tier (cb_meta (pc_heap c ! r)) = ''SSD'' \<or> P r)"
  shows "get_host_memory_bytes c' = get_host_memory_bytes c -
      (\<Sum>r\<leftarrow>off_ssd c (filter P (cm_all_blocks c)). total_size_bytes (cb_meta (pc_heap c ! r))) \<and>
    get_offloaded_memory_bytes c' = get_offloaded_memory_bytes c +
      (\<Sum>r\<leftarrow>off_ssd c (filter P (cm_all_blocks c)). total_size_bytes (cb_meta (pc_heap c ! r)))"
proof -
  have "(\<Sum>r\<leftarrow>filter (\<lambda>r. t' r \<noteq> ''SSD'') rs. n' r) = (\<Sum>r\<leftarrow>filter (\<lambda>r. t r \<noteq> ''SSD'') rs. n r) -
        (\<Sum>r\<leftarrow>filter (\<lambda>r. t r \<noteq> ''SSD'') (filter P rs). n r) \<and>
      (\<Sum>r\<leftarrow>filter (\<lambda>r. t' r = ''SSD'') rs. n' r) = (\<Sum>r\<leftarrow>filter (\<lambda>r. t r = ''SSD'') rs. n r) +
        (\<Sum>r\<leftarrow>filter (\<lambda>r. t r \<noteq> ''SSD'') (filter P rs). n r)"
    if "\<forall>r\<in>set rs. n' r = n r \<and> (t' r = ''SSD'' \<longleftrightarrow> t r = ''SSD'' \<or> P r)" for rs and n n' :: "nat \<Rightarrow> int" and t t' :: "nat \<Rightarrow> string"
    using that by (induction rs) auto
  from this [OF assms(2)] show ?thesis
    by (simp add: get_host_memory_bytes_def get_offloaded_memory_bytes_def tier_bytes_def assms(1) off_ssd_def)
qed

text \<open>A small cache for the witnesses: three blocks of two tokens of one layer and head.\<close>

definition demo_block :: "int \<Rightarrow> cache_block" where
  "demo_block i = (let t = \<lparr>shape = [2, 1, 1], elem_type = Float16, raw = [1, 2, 3, 4]\<rparr>
     in \<lparr>cb_meta = create_default i 0 (2 * i) 2 0 1 1 ''FP16'' ''GPU'' 1, cb_k = Some t, cb_v = Some t\<rparr>)"

definition demo_cache :: paged_cache where
  "demo_cache = (new_paged_cache 1 1 1 2 ''FP16'' 2 2 (Some (new_mock_ssd 20)))
     \<lparr>pc_heap := [demo_block 0, demo_block 1, demo_block 2], pc_next := 3, pc_blocks := [(0, 0), (1, 1), (2, 2)]\<rparr>"

lemma demo_cache_facts:
  "pc_wf demo_cache" "pc_ssd demo_cache \<noteq> None" "dget (pc_blocks demo_cache) 1 = Some 1"
  "\<not> classify_block (pc_sink demo_cache) (pc_recent demo_cache) (cb_meta (pc_heap demo_cache ! 1)) 6"
  "storage_tier (cb_meta (pc_heap demo_cache ! 1)) \<noteq> ''SSD''"
  "pc_sink demo_cache \<le> token_start (cb_meta (pc_heap demo_cache ! 1)) \<and>
   token_start (cb_meta (pc_heap demo_cache ! 1)) + token_count (cb_meta (pc_heap demo_cache ! 1)) \<le> max 0 (6 - pc_recent demo_cache)"
  by (simp_all add: pc_wf_def dict_ok_def demo_cache_def new_paged_cache_def cm_all_blocks_def demo_block_def Let_def
      create_default_def classify_block_def)

text \<open>C15: An offload pass of the paged cache. Call a block cold when it starts behind the sinks and ends
  before the recent window. The pass counts hot and cold blocks, and stores exactly the cold
  blocks that are not on the SSD yet: the SSD holds each of them under its id and counts their
  writes, bytes and programming times; each is marked with its tier and location on the SSD and
  its tensors are dropped from host memory. Every other block of the table keeps tier, location
  and tensors, and host memory shrinks by exactly the bytes of the blocks stored.\<close>

theorem offload_pass_moves_cold:
  assumes "pc_wf c" "pc_ssd c = Some s" "run_offload_pass ctx c = ((h, k), c')"
  shows "let meta = (\<lambda>r. cb_meta (pc_heap c ! r));
             cold = filter (\<lambda>r. pc_sink c \<le> token_start (meta r) \<and>
                      token_start (meta r) + token_count (meta r) \<le> max 0 (ctx - pc_recent c)) (cm_all_blocks c);
             moved = filter (\<lambda>r. storage_tier (meta r) \<noteq> ''SSD'') cold;
             bytes = (\<Sum>r\<leftarrow>moved. total_size_bytes (meta r))
         in k = length cold \<and> h + k = cm_total_blocks c \<and> pc_wf c' \<and> pc_blocks c' = pc_blocks c \<and>
            pc_ssd c' = Some (s\<lparr>ms_storage := fold (\<lambda>r. dset (block_id (meta r)) r) moved (ms_storage s),
              ms_writes := ms_writes s + int (length moved), ms_h2d := ms_h2d s + bytes,
              ms_flash_wr := ms_flash_wr s + bytes, ms_time := ms_time s + real (length moved) * (1.5 + T_PROG_US)\<rparr>) \<and>
            (\<forall>r\<in>set (cm_all_blocks c). let b = pc_heap c ! r; b' = pc_heap c' ! r in
               if r \<in> set moved
               then storage_tier (cb_meta b') = ''SSD'' \<and> cb_k b' = None \<and> cb_v b' = None \<and>
                    physical_location (cb_meta b') = Some (mock_location (block_id (cb_meta b)))
               else storage_tier (cb_meta b') = storage_tier (cb_meta b) \<and> cb_k b' = cb_k b \<and> cb_v b' = cb_v b \<and>
                    physical_location (cb_meta b') = physical_location (cb_meta b)) \<and>
            get_host_memory_bytes c' = get_host_memory_bytes c - bytes \<and>
            get_offloaded_memory_bytes c' = get_offloaded_memory_bytes c + bytes"
proof -
  let ?cold = "filter (\<lambda>r. \<not> is_hot_ref ctx c r) (cm_all_blocks c)"
  let ?moved = "off_ssd c ?cold" and ?n = "\<lambda>r. total_size_bytes (cb_meta (pc_heap c ! r))"
  have hot: "(pc_sink c \<le> token_start (cb_meta (pc_heap c ! r)) \<and>
      token_start (cb_meta (pc_heap c ! r)) + token_count (cb_meta (pc_heap c ! r)) \<le> max 0 (ctx - pc_recent c)) = (\<not> is_hot_ref ctx c r)" for r
    unfolding is_hot_ref_def classify_block_def by (metis not_less)
  note ok = offload_pass_moves [OF assms]
  have wf: "pc_wf c'" using ok(1) assms(1) pc_wf_same by blast
  have bl: "pc_blocks c' = pc_blocks c" "cm_all_blocks c' = cm_all_blocks c"
    using ok(1) by (simp_all add: same_blocks_def cm_all_blocks_def)
  have "h + k = cm_total_blocks c"
    unfolding ok(2,3) by (simp only: sum_length_filter_compl) (simp add: cm_total_blocks_def cm_all_blocks_def)
  moreover have "get_host_memory_bytes c' = get_host_memory_bytes c - (\<Sum>r\<leftarrow>?moved. ?n r) \<and>
      get_offloaded_memory_bytes c' = get_offloaded_memory_bytes c + (\<Sum>r\<leftarrow>?moved. ?n r)"
  proof (rule tier_bytes_moved [OF bl(2)], intro ballI conjI)
    fix r assume r: "r \<in> set (cm_all_blocks c)"
    show "total_size_bytes (cb_meta (pc_heap c' ! r)) = total_size_bytes (cb_meta (pc_heap c ! r))"
      using ok(1) by (simp add: same_blocks_def same_identity_def)
    show "storage_tier (cb_meta (pc_heap c' ! r)) = ''SSD'' \<longleftrightarrow>
        storage_tier (cb_meta (pc_heap c ! r)) = ''SSD'' \<or> \<not> is_hot_ref ctx c r"
      using bspec [OF ok(5) r] r by (auto simp: off_ssd_def Let_def split: if_splits)
  qed
  moreover have "pc_ssd c' = Some (stored_all (pc_heap c) ?moved s)" by (rule ok(4))
  ultimately show ?thesis using ok(3,5) wf bl(1)
    unfolding Let_def hot off_ssd_def [symmetric] stored_all_def by blast
qed

theorem offload_pass_moves_cold_witness:
  "\<exists>h k c' s'. run_offload_pass 6 demo_cache = ((h, k), c') \<and> k = 1 \<and> pc_ssd c' = Some s' \<and>
     dget (ms_storage s') 1 = Some 1 \<and> get_host_memory_bytes c' = get_host_memory_bytes demo_cache - 8"
proof -
  obtain h k c' where run: "run_offload_pass 6 demo_cache = ((h, k), c')" by (metis prod.exhaust)
  have s: "pc_ssd demo_cache = Some (new_mock_ssd 20)" by (simp add: demo_cache_def new_paged_cache_def)
  have cold: "filter (\<lambda>r. pc_sink demo_cache \<le> token_start (cb_meta (pc_heap demo_cache ! r)) \<and>
      token_start (cb_meta (pc_heap demo_cache ! r)) + token_count (cb_meta (pc_heap demo_cache ! r)) \<le>
        max 0 (6 - pc_recent demo_cache)) (cm_all_blocks demo_cache) = [1]"
    and b: "storage_tier (cb_meta (pc_heap demo_cache ! 1)) \<noteq> ''SSD''" "block_id (cb_meta (pc_heap demo_cache ! 1)) = 1"
      "total_size_bytes (cb_meta (pc_heap demo_cache ! 1)) = 8"
    by code_simp+
  show ?thesis using offload_pass_moves_cold [OF demo_cache_facts(1) s run] run b
    unfolding Let_def cold by (auto simp: new_mock_ssd_def)
qed

text \<open>Offloading loses the data. The SSD keeps a reference to the very object whose tensors the
  eviction then drops: loading a block that a pass moved finds it, counts its bytes as read
  from flash, and hands back an object without key and value tensors, whatever it held before.\<close>

theorem offloaded_tensors_lost:
  assumes "pc_wf c" "pc_ssd c \<noteq> None" "run_offload_pass ctx c = ((h, k), c')" "dget (pc_blocks c) i = Some r"
    and "\<not> classify_block (pc_sink c) (pc_recent c) (cb_meta (pc_heap c ! r)) ctx"
    and "storage_tier (cb_meta (pc_heap c ! r)) \<noteq> ''SSD''" "mock_load i c' = (q, c'')"
  shows "q = Some r \<and> cb_k (pc_heap c'' ! r) = None \<and> cb_v (pc_heap c'' ! r) = None \<and>
    storage_tier (cb_meta (pc_heap c'' ! r)) = ''DRAM''"
proof -
  note ok = offload_pass_ok [OF assms(1-3)]
  note r = pc_wfD [OF assms(1,4)]
  have cold: "\<not> is_hot_ref ctx c r" using assms(5) by (simp add: is_hot_ref_def)
  then have f: "mock_lookup i c' = Some r" "cb_k (pc_heap c' ! r) = None" "cb_v (pc_heap c' ! r) = None"
    using ok r assms(6) by auto
  have "r < length (pc_heap c')" using ok r(3) by (simp add: same_blocks_def)
  moreover have "mock_lookup i (on_ssd (\<lambda>s. s\<lparr>ms_reads := ms_reads s + 1\<rparr>) c') = Some r"
    using f(1) by (auto simp: mock_lookup_def bind_eq_Some_conv)
  ultimately show ?thesis using assms(7) f(2,3) by (auto simp: mock_load_def Let_def upd_obj_nth set_tier_def)
qed

theorem offloaded_tensors_lost_witness:
  "\<exists>c' c'' q. c' = snd (run_offload_pass 6 demo_cache) \<and> cb_k (pc_heap demo_cache ! 1) \<noteq> None \<and>
     mock_load 1 c' = (q, c'') \<and> q = Some 1 \<and> cb_k (pc_heap c'' ! 1) = None"
proof -
  obtain h k c' where run: "run_offload_pass 6 demo_cache = ((h, k), c')" by (metis prod.exhaust)
  obtain q c'' where load: "mock_load 1 c' = (q, c'')" by fastforce
  note step = offloaded_tensors_lost [OF demo_cache_facts(1,2) run demo_cache_facts(3-5) load]
  have k: "cb_k (pc_heap demo_cache ! 1) \<noteq> None" by (simp add: demo_cache_def demo_block_def Let_def)
  show ?thesis by (intro exI [of _ c'] exI [of _ c''] exI [of _ q] conjI) (use run load step k in \<open>simp_all\<close>)
qed

text \<open>C16: Initialising a context on a fresh cache allocates one block per layer, head and block of tokens,
  and the blocks cover the context exactly: the host memory reported is layers times heads times context
  length times the bytes of one key and one value row.\<close>

theorem context_fills_exactly:
  assumes "0 < bt" "0 \<le> ctx" "0 \<le> nl" "0 \<le> nh" "0 < hdim"
  shows "\<exists>c. initialize_context ctx attach (new_paged_cache nl nh hdim bt dt sink rec ssd) =
      (Inr (nat (nl * (nh * ceil_div ctx bt))), c) \<and> pc_wf c \<and>
    get_host_memory_bytes c = nl * (nh * ctx) * (2 * hdim * bytes_per_elem dt) \<and> get_offloaded_memory_bytes c = 0"
proof -
  let ?c0 = "new_paged_cache nl nh hdim bt dt sink rec ssd"
  let ?xs = "points3 [0..nl - 1] [0..nh - 1] [0..ceil_div ctx bt - 1]"
  have d0: "pc_dense ?c0" by (simp add: pc_dense_def new_paged_cache_def)
  have pos: "0 < min bt (ctx - b * bt)" if "(l, h, b) \<in> set ?xs" for l h b
    using that assms(1) ceil_div_le_iff [OF assms(1), of b ctx] by (simp add: points3_mem)
  have sel: "pc_block_tokens ?c0 = bt" "pc_head_dim ?c0 = hdim" "pc_next ?c0 = 0" "pc_heap ?c0 = []" "pc_dtype ?c0 = dt"
    "pc_layers ?c0 = nl" "pc_heads ?c0 = nh"
    by (simp_all add: new_paged_cache_def)
  obtain c where c: "sfor (cm_init_step bt ctx attach) ?xs () ?c0 = (Inr (), c)" "pc_dense c" "pc_heap c = map2 (init_obj ?c0 ctx attach) [0..int (length ?xs) - 1] ?xs"
    using init_loop [OF d0, of ?xs ctx attach] pos assms(5) unfolding sel by fastforce
  have len: "int (length ?xs) = nl * (nh * ceil_div ctx bt)"
  proof -
    have "0 \<le> ceil_div ctx bt" using assms(1,2) pos_imp_zdiv_nonneg_iff [of bt "ctx + bt - 1"] by (simp add: ceil_div_def)
    then show ?thesis using assms(3,4) by (simp add: length_points3)
  qed
  have n: "length (pc_heap c) = length ?xs" by (simp add: c(3))
  have blocks: "cm_all_blocks c = [0..<length ?xs]" using c(2) n by (simp add: pc_dense_def cm_all_blocks_def comp_def)
  have obj: "storage_tier (cb_meta (init_obj ?c0 ctx attach i x)) = ''GPU'' \<and>
      (x \<in> set ?xs \<longrightarrow> total_size_bytes (cb_meta (init_obj ?c0 ctx attach i x)) =
        (case x of (l, h, b) \<Rightarrow> min bt (ctx - b * bt) * (2 * hdim * bytes_per_elem dt)))" for i x
  proof -
    obtain l h b where x: "x = (l, h, b)" by (cases x) auto
    have "0 < bytes_per_elem dt" by (simp add: bytes_per_elem_def)
    then have "x \<in> set ?xs \<Longrightarrow> 0 < min bt (ctx - b * bt) * (hdim * bytes_per_elem dt)" using pos assms(5) x by simp
    then show ?thesis using pos x
      by (auto simp: init_obj_def Let_def create_default_def total_size_bytes_def sel ac_simps)
  qed
  have heap: "pc_heap c ! j = init_obj ?c0 ctx attach (int j) (?xs ! j)" if "j < length ?xs" for j
    using that by (simp add: c(3) nth_upto)
  have gpu: "storage_tier (cb_meta (pc_heap c ! j)) = ''GPU''" if "j < length ?xs" for j using heap [OF that] obj by simp
  have host: "filter (\<lambda>r. storage_tier (cb_meta (pc_heap c ! r)) \<noteq> ''SSD'') (cm_all_blocks c) = cm_all_blocks c"
    using gpu by (intro filter_True) (auto simp: blocks)
  have off: "filter (\<lambda>r. storage_tier (cb_meta (pc_heap c ! r)) = ''SSD'') (cm_all_blocks c) = []"
    using gpu by (intro filter_False) (auto simp: blocks)
  have "map (\<lambda>r. total_size_bytes (cb_meta (pc_heap c ! r))) (cm_all_blocks c) =
      map (\<lambda>x. case x of (l, h, b) \<Rightarrow> min bt (ctx - b * bt) * (2 * hdim * bytes_per_elem dt)) ?xs"
    unfolding blocks by (rule nth_equalityI) (use heap obj nth_mem in \<open>simp_all\<close>)
  then have "(\<Sum>r\<leftarrow>cm_all_blocks c. total_size_bytes (cb_meta (pc_heap c ! r))) =
      nl * (nh * (\<Sum>b\<leftarrow>[0..ceil_div ctx bt - 1]. min bt (ctx - b * bt) * (2 * hdim * bytes_per_elem dt)))"
    using sum_points3 [of "\<lambda>b. min bt (ctx - b * bt) * (2 * hdim * bytes_per_elem dt)" "[0..nl - 1]" "[0..nh - 1]"
        "[0..ceil_div ctx bt - 1]"] assms(3,4) by simp
  then have "get_host_memory_bytes c = nl * (nh * ctx) * (2 * hdim * bytes_per_elem dt)"
    by (simp add: get_host_memory_bytes_def tier_bytes_def host sum_list_mult_const block_tokens_sum [OF assms(1,2)] mult.assoc)
  moreover have "cm_total_blocks c = nat (nl * (nh * ceil_div ctx bt))"
    using len c(2) n by (simp add: cm_total_blocks_def pc_dense_def)
  moreover have "get_offloaded_memory_bytes c = 0" by (simp add: get_offloaded_memory_bytes_def tier_bytes_def off)
  ultimately show ?thesis using c(1) pc_dense_wf [OF c(2)] assms(1)
    by (intro exI [of _ c]) (simp add: initialize_context_def sel Let_def meth_run(2) [of "sfor _ _ _"])
qed

theorem context_fills_exactly_witness:
  "\<exists>c. initialize_context 5 True (new_paged_cache 2 1 4 2 ''FP16'' 2 2 None) = (Inr 6, c) \<and> get_host_memory_bytes c = 160"
proof -
  have n: "nat (2 * (1 * ceil_div 5 2)) = 6" by (simp add: ceil_div_def)
  have b: "2 * (1 * 5) * (2 * 4 * bytes_per_elem ''FP16'') = (160::int)" by code_simp
  show ?thesis
    using context_fills_exactly [of 2 5 2 1 4 True "''FP16''" 2 2 None] unfolding n b by auto
qed

end
