(* ===== verification/StateProvider.thy ===== *)
theory StateProvider
  imports PrefetchCoherence TopkFilter
begin

text \<open>
  The state providers of \<open>person1_kv_engine/adapters/\<close>: how the key-value cache of a prompt is cut
  into blocks, offloaded, selected and put together again for attention
  (\<open>transformer_kv.py\<close>, \<open>sliding_window_kv.py\<close>, \<open>hybrid_state.py\<close>, \<open>descriptor.py\<close>). The backend is
  any object with the page interface, and with or without the in-storage filter and the prefetch
  call, as \<open>hasattr\<close> finds out; backends without batched reads are not modelled. Batches have
  size one, the layers of a model share heads and head dimension, and elapsed times are left out.
\<close>

section \<open>Torch tensors of shape [1, heads, tokens, dim]\<close>

datatype tdtype = THalf | TBFloat | TFloat

text \<open>The rows are the tokens, an entry of a row the bytes of one head's vector.\<close>

type_synonym kv_row = "byte list list"

record kv4 =
  q4_dtype :: tdtype
  q4_heads :: nat
  q4_dim :: nat
  q4_rows :: "kv_row list"

definition half_bits :: "tdtype \<Rightarrow> bool" where
  "half_bits d \<longleftrightarrow> d = THalf \<or> d = TBFloat"

text \<open>\<open>tensor.numpy()\<close>: numpy has no bfloat16, torch raises \<open>TypeError\<close>.\<close>

fun np_of :: "tdtype \<Rightarrow> np_dtype option" where
  "np_of THalf = Some Float16"
| "np_of TFloat = Some Float32"
| "np_of TBFloat = None"

definition empty4 :: "kv4 \<Rightarrow> kv4" where
  "empty4 t = t\<lparr>q4_rows := []\<rparr>"

definition tokens4 :: "kv4 \<Rightarrow> nat" where
  "tokens4 t = length (q4_rows t)"

text \<open>\<open>t[:, :, :n, :]\<close> and \<open>t[:, :, -n:, :]\<close>; \<open>-0:\<close> is the whole tensor.\<close>

definition first_tokens :: "nat \<Rightarrow> kv4 \<Rightarrow> kv4" where
  "first_tokens n t = t\<lparr>q4_rows := take n (q4_rows t)\<rparr>"

definition last_tokens :: "nat \<Rightarrow> kv4 \<Rightarrow> kv4" where
  "last_tokens n t = t\<lparr>q4_rows := (if n = 0 then q4_rows t else drop (tokens4 t - n) (q4_rows t))\<rparr>"

text \<open>\<open>torch.cat(parts, dim=2)\<close>; different element types, which torch promotes, count as an error too.\<close>

definition fits4 :: "kv4 \<Rightarrow> kv4 \<Rightarrow> bool" where
  "fits4 t u \<longleftrightarrow> q4_heads u = q4_heads t \<and> q4_dim u = q4_dim t \<and> q4_dtype u = q4_dtype t"

fun cat4 :: "kv4 list \<Rightarrow> kv4 res" where
  "cat4 [] = Inl ValueError"
| "cat4 (t # ts) = (if \<forall>u\<in>set ts. fits4 t u then Inr (t\<lparr>q4_rows := concat (map q4_rows (t # ts))\<rparr>) else Inl RuntimeError)"

section \<open>Configuration and state\<close>

record model_config =
  mc_layers :: int
  mc_heads :: int
  mc_kv_heads :: int
  mc_head_dim :: int
  mc_window :: "int option"
  mc_layer_types :: "string list option"

definition config_gqa :: "model_config \<Rightarrow> int" where
  "config_gqa c = (if 0 < mc_kv_heads c then max 1 (mc_heads c div mc_kv_heads c) else 1)"

definition layer_type_in :: "string set \<Rightarrow> bool \<Rightarrow> model_config \<Rightarrow> int \<Rightarrow> bool \<Rightarrow> bool" where
  "layer_type_in S untyped c i outside = (case mc_layer_types c of
     None \<Rightarrow> untyped
   | Some ts \<Rightarrow> if 0 \<le> i \<and> i < int (length ts) then ts ! nat i \<in> S else outside)"

definition is_layer_attention :: "model_config \<Rightarrow> int \<Rightarrow> bool" where
  "is_layer_attention c i = layer_type_in {''attention'', ''self_attn'', ''attn''} True c i True"

definition is_layer_ssm :: "model_config \<Rightarrow> int \<Rightarrow> bool" where
  "is_layer_ssm c i = layer_type_in {''ssm'', ''mamba'', ''linear_attention''} False c i False"

record layer_state =
  ls_sink_k :: kv4
  ls_sink_v :: kv4
  ls_recent_k :: kv4
  ls_recent_v :: kv4
  ls_cands :: "(int \<times> int) list"
  ls_total :: nat

record 's provider =
  sp_backend :: 's
  sp_sink :: nat
  sp_recent :: nat
  sp_tpb :: nat
  sp_pct :: real
  sp_compute :: bool
  sp_prefetch :: bool
  sp_async :: bool
  sp_active :: bool
  sp_num_layers :: int
  sp_kv_heads :: int
  sp_head_dim :: int
  sp_gqa :: int
  sp_bpe :: "int option"
  sp_page_bytes :: "int option"
  sp_layers :: "(int, layer_state) dict"
  sp_cand_k_bytes :: int
  sp_win_k_bytes :: int
  sp_win_v_bytes :: int
  sp_meta_bytes :: int

definition new_provider ::
    "model_config \<Rightarrow> 's \<Rightarrow> nat \<Rightarrow> nat \<Rightarrow> nat \<Rightarrow> real \<Rightarrow> bool \<Rightarrow> bool \<Rightarrow> bool \<Rightarrow> 's provider" where
  "new_provider c s sink rec tpb pct cst pre asy = \<lparr>sp_backend = s, sp_sink = sink, sp_recent = rec, sp_tpb = tpb,
     sp_pct = pct, sp_compute = cst, sp_prefetch = pre, sp_async = asy, sp_active = False, sp_num_layers = mc_layers c,
     sp_kv_heads = mc_kv_heads c, sp_head_dim = mc_head_dim c, sp_gqa = config_gqa c, sp_bpe = None,
     sp_page_bytes = None, sp_layers = [], sp_cand_k_bytes = 0, sp_win_k_bytes = 0, sp_win_v_bytes = 0,
     sp_meta_bytes = 0\<rparr>"

definition sp_reset_timings :: "('s, 'm) provider_scheme \<Rightarrow> ('s, 'm) provider_scheme" where
  "sp_reset_timings p = p\<lparr>sp_cand_k_bytes := 0, sp_win_k_bytes := 0, sp_win_v_bytes := 0, sp_meta_bytes := 0\<rparr>"

text \<open>What a provider finds in its backend.\<close>

record 's kv_service =
  sv_pages :: "'s page_ops"
  sv_topk :: "(int \<Rightarrow> (int \<times> int) list \<Rightarrow> real list list \<Rightarrow> int \<Rightarrow> real \<Rightarrow> nat \<Rightarrow> int \<Rightarrow> ('s, scored list) meth) option"
  sv_prefetch :: "(int \<Rightarrow> int list \<Rightarrow> bool option \<Rightarrow> ('s, unit) meth) option"

definition on_kv :: "('s, 'a) meth \<Rightarrow> (('s, 'm) provider_scheme, 'a) meth" where
  "on_kv m p = (case m (sp_backend p) of (r, s) \<Rightarrow> (r, p\<lparr>sp_backend := s\<rparr>))"

section \<open>Prefill\<close>

text \<open>
  The shapes in which a model hands over its cache: by layer, as cache layers (some without
  keys), as key and value lists, or as a list of pairs.
\<close>

datatype past =
    PDict "(int, kv4 \<times> kv4) dict"
  | PLayers "(kv4 \<times> kv4) option list"
  | PCache "kv4 list" "kv4 list"
  | PList "(kv4 \<times> kv4) list"

fun enum_layers :: "int \<Rightarrow> (kv4 \<times> kv4) option list \<Rightarrow> (int, kv4 \<times> kv4) dict" where
  "enum_layers i [] = []"
| "enum_layers i (None # xs) = enum_layers (i + 1) xs"
| "enum_layers i (Some kv # xs) = (i, kv) # enum_layers (i + 1) xs"

definition past_count :: "past \<Rightarrow> int option" where
  "past_count x = (case x of PDict _ \<Rightarrow> None | PLayers ls \<Rightarrow> Some (int (length ls))
     | PCache ks _ \<Rightarrow> Some (int (length ks)) | PList kvs \<Rightarrow> Some (int (length kvs)))"

definition past_layers :: "past \<Rightarrow> (int, kv4 \<times> kv4) dict res" where
  "past_layers x = (case x of
     PDict d \<Rightarrow> (if d = [] then Inl StopIteration else Inr d)
   | PLayers ls \<Rightarrow> (let d = enum_layers 0 ls in if d = [] then Inl ValueError else Inr d)
   | PCache ks vs \<Rightarrow> (if ks = [] \<or> length vs < length ks then Inl IndexError
                     else Inr (enum_layers 0 (map Some (zip ks vs))))
   | PList kvs \<Rightarrow> (if kvs = [] then Inl IndexError else Inr (enum_layers 0 (map Some kvs))))"

text \<open>
  Bytes of a numpy block of shape (tokens, heads, dim): the rows one after the other, then zeros.
  Broadcasting of axes of extent one is left out, a mismatch of extents is a \<open>ValueError\<close>.
\<close>

definition rows_bytes :: "kv_row list \<Rightarrow> byte list" where
  "rows_bytes rs = concat (map concat rs)"

definition pack_block ::
    "(np_dtype \<Rightarrow> np_dtype \<Rightarrow> byte list \<Rightarrow> byte list) \<Rightarrow> nat \<Rightarrow> int \<Rightarrow> int \<Rightarrow> np_dtype \<Rightarrow> kv4 \<Rightarrow> nat \<Rightarrow> kv_row list \<Rightarrow> tensor res" where
  "pack_block conv tpb h d dt t tok rs = (case np_of (q4_dtype t) of
     None \<Rightarrow> Inl TypeError
   | Some src \<Rightarrow>
       if h \<noteq> int (q4_heads t) \<or> d \<noteq> int (q4_dim t) \<or> length rs \<noteq> tok then Inl ValueError
       else (let bs = rows_bytes rs; cs = (if src = dt then bs else conv src dt bs)
             in Inr \<lparr>shape = [tpb, nat h, nat d], elem_type = dt,
                     raw = cs @ replicate (itemsize dt * (tpb * (nat h * nat d)) - length cs) 0\<rparr>))"

definition write_hist_block ::
    "(np_dtype \<Rightarrow> np_dtype \<Rightarrow> byte list \<Rightarrow> byte list) \<Rightarrow> 's kv_service \<Rightarrow> np_dtype \<Rightarrow> int \<Rightarrow> kv4 \<times> kv4 \<Rightarrow>
     kv_row list \<times> kv_row list \<Rightarrow> nat \<Rightarrow> (int \<times> int) list \<Rightarrow> (('s, 'm) provider_scheme, (int \<times> int) list) meth" where
  "write_hist_block conv sv dt layer kv hist bid cands =
     sbind (sread (\<lambda>p. p)) (\<lambda>p.
     (let n = sp_tpb p; tok = min n (length (fst hist) - bid * n);
          part = (\<lambda>rs. take tok (drop (bid * n) rs));
          pack = (\<lambda>t rs. pack_block conv n (sp_kv_heads p) (sp_head_dim p) dt t tok (part rs))
      in sbind (slift (pack (fst kv) (fst hist))) (\<lambda>kb. sbind (slift (pack (snd kv) (snd hist))) (\<lambda>vb.
         sthen (on_kv (po_write (sv_pages sv) layer (int bid) kb vb 0 0))
               (sret (cands @ [(int bid, int tok)]))))))"

text \<open>\<open>numpy()\<close> of keys and values comes before the loop.\<close>

definition offload_history ::
    "(np_dtype \<Rightarrow> np_dtype \<Rightarrow> byte list \<Rightarrow> byte list) \<Rightarrow> 's kv_service \<Rightarrow> np_dtype \<Rightarrow> int \<Rightarrow> kv4 \<times> kv4 \<Rightarrow>
     (('s, 'm) provider_scheme, (int \<times> int) list) meth" where
  "offload_history conv sv dt layer kv =
     sbind (sread (\<lambda>p. p)) (\<lambda>p.
     (let hist = (\<lambda>t. drop (sp_sink p) (take (tokens4 (fst kv) - sp_recent p) (q4_rows t))); n = sp_tpb p;
          total = length (hist (fst kv))
      in if np_of (q4_dtype (fst kv)) = None \<or> np_of (q4_dtype (snd kv)) = None then sraise TypeError
         else if n = 0 then sraise ValueError
         else sfor (write_hist_block conv sv dt layer kv (hist (fst kv), hist (snd kv)))
                [0..<(total + n - 1) div n] []))"

definition init_layer ::
    "(np_dtype \<Rightarrow> np_dtype \<Rightarrow> byte list \<Rightarrow> byte list) \<Rightarrow> 's kv_service \<Rightarrow> np_dtype \<Rightarrow> int \<times> kv4 \<times> kv4 \<Rightarrow> unit \<Rightarrow>
     (('s, 'm) provider_scheme, unit) meth" where
  "init_layer conv sv dt x _ = (case x of (layer, k, v) \<Rightarrow>
     sbind (sread (\<lambda>p. p)) (\<lambda>p.
     (let n = tokens4 k; s = sp_sink p; r = sp_recent p
      in if n \<le> s + r
         then supd (\<lambda>p. p\<lparr>sp_layers := dset layer \<lparr>ls_sink_k = k, ls_sink_v = v, ls_recent_k = empty4 k,
                ls_recent_v = empty4 v, ls_cands = [], ls_total = n\<rparr> (sp_layers p)\<rparr>)
         else sbind (offload_history conv sv dt layer (k, v)) (\<lambda>cands.
              supd (\<lambda>p. p\<lparr>sp_layers := dset layer \<lparr>ls_sink_k = first_tokens s k, ls_sink_v = first_tokens s v,
                ls_recent_k = last_tokens r k, ls_recent_v = last_tokens r v, ls_cands = cands, ls_total = n\<rparr>
                (sp_layers p)\<rparr>)))))"

definition set_geometry :: "kv4 \<Rightarrow> ('s, 'm) provider_scheme \<Rightarrow> ('s, 'm) provider_scheme" where
  "set_geometry k p = (let e = (if half_bits (q4_dtype k) then 2 else 4)
     in p\<lparr>sp_kv_heads := int (q4_heads k), sp_head_dim := int (q4_dim k), sp_bpe := Some e,
          sp_page_bytes := Some (int (sp_tpb p) * int (q4_heads k) * int (q4_dim k) * e)\<rparr>)"

definition sp_init_from_prefill ::
    "(np_dtype \<Rightarrow> np_dtype \<Rightarrow> byte list \<Rightarrow> byte list) \<Rightarrow> 's kv_service \<Rightarrow> past \<Rightarrow> (('s, 'm) provider_scheme, unit) meth" where
  "sp_init_from_prefill conv sv x =
     sthen (supd (\<lambda>p. case past_count x of None \<Rightarrow> p | Some n \<Rightarrow> p\<lparr>sp_num_layers := n\<rparr>))
    (sbind (slift (past_layers x)) (\<lambda>layers.
     (let k0 = fst (snd (layers ! 0))
      in sthen (supd (set_geometry k0))
        (sthen (sfor (init_layer conv sv (if half_bits (q4_dtype k0) then Float16 else Float32)) layers ())
               (supd (\<lambda>p. p\<lparr>sp_active := True\<rparr>))))))"

text \<open>\<open>recent[:, :, 1:, :]\<close> followed by the new token, keys first.\<close>

definition slide :: "kv4 \<Rightarrow> kv4 \<Rightarrow> kv4 res" where
  "slide t tok = cat4 [t\<lparr>q4_rows := drop 1 (q4_rows t)\<rparr>, tok]"

definition upd_layer :: "int \<Rightarrow> (layer_state \<Rightarrow> layer_state) \<Rightarrow> ('s, 'm) provider_scheme \<Rightarrow> ('s, 'm) provider_scheme" where
  "upd_layer layer f p = (case dget (sp_layers p) layer of
     None \<Rightarrow> p | Some ls \<Rightarrow> p\<lparr>sp_layers := dset layer (f ls) (sp_layers p)\<rparr>)"

definition sp_append_new_token :: "int \<Rightarrow> kv4 \<Rightarrow> kv4 \<Rightarrow> (('s, 'm) provider_scheme, unit) meth" where
  "sp_append_new_token layer k v =
     sbind (sread (\<lambda>p. dget (sp_layers p) layer)) (\<lambda>l. case l of
       None \<Rightarrow> sraise KeyError
     | Some ls \<Rightarrow>
         sbind (slift (slide (ls_recent_k ls) k)) (\<lambda>rk.
         sthen (supd (upd_layer layer (\<lambda>ls. ls\<lparr>ls_recent_k := rk\<rparr>)))
        (sbind (slift (slide (ls_recent_v ls) v)) (\<lambda>rv.
         supd (upd_layer layer (\<lambda>ls. ls\<lparr>ls_recent_v := rv, ls_total := ls_total ls + 1\<rparr>))))))"

section \<open>Selecting and fetching\<close>

text \<open>\<open>page[:n]\<close> as rows of heads; a page that is no array of three axes cannot be permuted.\<close>

definition page_row :: "tensor \<Rightarrow> nat \<Rightarrow> nat \<Rightarrow> nat \<Rightarrow> kv_row" where
  "page_row t h w i = map (\<lambda>j. take w (drop ((i * h + j) * w) (raw t))) [0..<h]"

definition page_rows :: "tensor \<Rightarrow> kv_row list" where
  "page_rows t = (case shape t of
     [n, h, d] \<Rightarrow> map (page_row t h (d * itemsize (elem_type t))) [0..<n] | _ \<Rightarrow> [])"

definition page_tensor ::
    "(np_dtype \<Rightarrow> tdtype \<Rightarrow> byte list \<Rightarrow> byte list) \<Rightarrow> tdtype \<Rightarrow> tensor \<Rightarrow> int \<Rightarrow> kv4 res" where
  "page_tensor tconv td t tok = (case shape t of
     [n, h, d] \<Rightarrow>
       (let f = (if np_of td = Some (elem_type t) then (\<lambda>x. x) else tconv (elem_type t) td)
        in Inr \<lparr>q4_dtype = td, q4_heads = h, q4_dim = d, q4_rows = map (map f) (slice_to tok (page_rows t))\<rparr>)
   | _ \<Rightarrow> Inl RuntimeError)"

definition k_to_fetch :: "real \<Rightarrow> nat \<Rightarrow> int" where
  "k_to_fetch pct n = max 1 \<lceil>of_nat n * (pct / 100)\<rceil>"

definition page_len :: "('s, 'm) provider_scheme \<Rightarrow> int" where
  "page_len p = (case sp_page_bytes p of Some n \<Rightarrow> n | None \<Rightarrow> 4096)"

definition read_pages :: "'s kv_service \<Rightarrow> page_kind \<Rightarrow> int \<Rightarrow> int list \<Rightarrow> (('s, 'm) provider_scheme, (int, tensor list) dict) meth" where
  "read_pages sv pk layer ids = on_kv (po_batch (sv_pages sv) pk layer ids 0 0)"

definition predict_next :: "'s kv_service \<Rightarrow> int \<Rightarrow> int list \<Rightarrow> bool option \<Rightarrow> (('s, 'm) provider_scheme, unit) meth" where
  "predict_next sv layer ids mode = sbind (sread sp_prefetch) (\<lambda>on. case sv_prefetch sv of
     None \<Rightarrow> sret () | Some f \<Rightarrow> if on then on_kv (f layer ids mode) else sret ())"

definition pick_page :: "nat \<Rightarrow> (int, tensor list) dict \<Rightarrow> int \<Rightarrow> tensor res" where
  "pick_page i d bid = (case dget d bid of None \<Rightarrow> Inl KeyError | Some ts \<Rightarrow> Inr (ts ! i))"

text \<open>The pages of the winners: whether they came as blocks or as pages, a dictionary of keys and one of values.\<close>

type_synonym fetched = "scored list \<times> (int, tensor list) dict \<times> (int, tensor list) dict"

definition fetch_winners_async :: "'s kv_service \<Rightarrow> int \<Rightarrow> scored list \<Rightarrow> (('s, 'm) provider_scheme, fetched) meth" where
  "fetch_winners_async sv layer tops =
     (let win = map (\<lambda>x. fst (snd x)) tops
      in sbind (read_pages sv WholeBlock layer win) (\<lambda>d.
         sbind (slift (map_res (pick_page 0 d) win)) (\<lambda>_.
         sthen (supd (\<lambda>p. p\<lparr>sp_win_v_bytes := sp_win_v_bytes p + int (length win) * page_len p,
                            sp_win_k_bytes := sp_win_k_bytes p + int (length win) * page_len p\<rparr>))
        (sthen (predict_next sv layer win (Some True))
               (sret (tops, map (\<lambda>(i, ts). (i, [ts ! 0])) d, map (\<lambda>(i, ts). (i, [ts ! 1])) d))))))"

definition fetch_winners_sync :: "'s kv_service \<Rightarrow> int \<Rightarrow> scored list \<Rightarrow> (('s, 'm) provider_scheme, fetched) meth" where
  "fetch_winners_sync sv layer tops =
     (let win = map (\<lambda>x. fst (snd x)) tops
      in sthen (predict_next sv layer win None)
        (sbind (read_pages sv ValuePage layer win) (\<lambda>vs.
         sthen (supd (\<lambda>p. p\<lparr>sp_win_v_bytes := sp_win_v_bytes p + int (length win) * page_len p\<rparr>))
        (sbind (read_pages sv KeyPage layer win) (\<lambda>ks.
         sthen (supd (\<lambda>p. p\<lparr>sp_win_k_bytes := sp_win_k_bytes p + int (length win) * page_len p\<rparr>))
               (sret (tops, ks, vs)))))))"

text \<open>Scoring on the host: the native kernel when there is one, else the einsum loop.\<close>

definition host_scores ::
    "(np_dtype \<Rightarrow> byte list \<Rightarrow> real list) \<Rightarrow> kernel option \<Rightarrow> real list list \<Rightarrow> real \<Rightarrow> int \<Rightarrow> int \<Rightarrow>
     (int \<times> int) list \<Rightarrow> tensor list \<Rightarrow> scored list res" where
  "host_scores decode kern q scale r k cands ks = (case kern of
     Some kf \<Rightarrow> (if length (shape (ks ! 0)) < 2 then Inl IndexError
               else Inr (map (\<lambda>(idx, s). (s, cands ! idx)) (kf q ks (map snd cands) k)))
   | None \<Rightarrow> rbind (map_res (score_block decode q scale (length q) r) (zip ks cands)) (\<lambda>ss. Inr (select_topk k ss)))"

definition fetch_on_host ::
    "(np_dtype \<Rightarrow> byte list \<Rightarrow> real list) \<Rightarrow> kernel option \<Rightarrow> 's kv_service \<Rightarrow> int \<Rightarrow> real list list \<Rightarrow> real \<Rightarrow> int \<Rightarrow>
     (int \<times> int) list \<Rightarrow> (('s, 'm) provider_scheme, fetched) meth" where
  "fetch_on_host decode kern sv layer q scale k cands =
     sbind (read_pages sv KeyPage layer (map fst cands)) (\<lambda>ks.
     sbind (slift (map_res (pick_page 0 ks) (map fst cands))) (\<lambda>kl.
     sthen (supd (\<lambda>p. p\<lparr>sp_cand_k_bytes := sp_cand_k_bytes p + int (length cands) * page_len p\<rparr>))
    (sbind (sread sp_gqa) (\<lambda>r.
     sbind (slift (host_scores decode kern q scale r k cands kl)) (\<lambda>tops.
     (let win = map (\<lambda>x. fst (snd x)) tops
      in sthen (predict_next sv layer win None)
        (sbind (read_pages sv ValuePage layer win) (\<lambda>vs.
         sthen (supd (\<lambda>p. p\<lparr>sp_win_v_bytes := sp_win_v_bytes p + int (length win) * page_len p\<rparr>))
               (sret (tops, ks, vs))))))))))"

definition fetch_in_storage ::
    "'s kv_service \<Rightarrow> (int \<Rightarrow> (int \<times> int) list \<Rightarrow> real list list \<Rightarrow> int \<Rightarrow> real \<Rightarrow> nat \<Rightarrow> int \<Rightarrow> ('s, scored list) meth) \<Rightarrow>
     int \<Rightarrow> real list list \<Rightarrow> real \<Rightarrow> int \<Rightarrow> (int \<times> int) list \<Rightarrow> (('s, 'm) provider_scheme, fetched) meth" where
  "fetch_in_storage sv topk layer q scale k cands =
     sbind (sread (\<lambda>p. (sp_kv_heads p, sp_async p))) (\<lambda>(kvh, asy).
     sbind (on_kv (topk layer cands q k scale (length q) kvh)) (\<lambda>tops.
     sthen (supd (\<lambda>p. p\<lparr>sp_meta_bytes := sp_meta_bytes p + int (length tops) * 12\<rparr>))
           (if asy then fetch_winners_async sv layer tops else fetch_winners_sync sv layer tops)))"

definition fetch_selected ::
    "(np_dtype \<Rightarrow> byte list \<Rightarrow> real list) \<Rightarrow> kernel option \<Rightarrow> 's kv_service \<Rightarrow> int \<Rightarrow> real list list \<Rightarrow> real \<Rightarrow>
     (int \<times> int) list \<Rightarrow> (('s, 'm) provider_scheme, fetched) meth" where
  "fetch_selected decode kern sv layer q scale cands =
     sbind (sread (\<lambda>p. p)) (\<lambda>p.
     (let k = k_to_fetch (sp_pct p) (length cands)
      in if cands = [] then sret ([], [], [])
         else (case (sp_compute p, sv_topk sv) of
                 (True, Some topk) \<Rightarrow> fetch_in_storage sv topk layer q scale k cands
               | _ \<Rightarrow> fetch_on_host decode kern sv layer q scale k cands)))"

text \<open>The winners in the order of their ids, so that tokens keep their order.\<close>

definition rebuild ::
    "(np_dtype \<Rightarrow> tdtype \<Rightarrow> byte list \<Rightarrow> byte list) \<Rightarrow> tdtype \<Rightarrow> (int, tensor list) dict \<Rightarrow> scored \<Rightarrow> kv4 res" where
  "rebuild tconv td d x = rbind (pick_page 0 d (fst (snd x))) (\<lambda>t. page_tensor tconv td t (snd (snd x)))"

definition rebuild_both ::
    "(np_dtype \<Rightarrow> tdtype \<Rightarrow> byte list \<Rightarrow> byte list) \<Rightarrow> tdtype \<Rightarrow> fetched \<Rightarrow> (kv4 list \<times> kv4 list) res" where
  "rebuild_both tconv td f = (case f of (tops, ks, vs) \<Rightarrow>
     (let xs = sort_key (\<lambda>x. fst (snd x)) tops
      in rbind (map_res (rebuild tconv td ks) xs) (\<lambda>kl. rbind (map_res (rebuild tconv td vs) xs) (\<lambda>vl. Inr (kl, vl)))))"

definition sp_select_and_fetch ::
    "(np_dtype \<Rightarrow> byte list \<Rightarrow> real list) \<Rightarrow> kernel option \<Rightarrow> (np_dtype \<Rightarrow> tdtype \<Rightarrow> byte list \<Rightarrow> byte list) \<Rightarrow> 's kv_service \<Rightarrow>
     int \<Rightarrow> real list list option \<Rightarrow> (('s, 'm) provider_scheme, kv4 \<times> kv4) meth" where
  "sp_select_and_fetch decode kern tconv sv layer query = (case query of
     None \<Rightarrow> sraise ValueError
   | Some q \<Rightarrow>
       sbind (sread (\<lambda>p. (dget (sp_layers p) layer, sp_head_dim p))) (\<lambda>(l, d). case l of
         None \<Rightarrow> sraise KeyError
       | Some ls \<Rightarrow>
           if d \<le> 0 then sraise (if d = 0 then ZeroDivisionError else ValueError)
           else sbind (fetch_selected decode kern sv layer q (1 / sqrt (of_int d)) (ls_cands ls)) (\<lambda>f.
                sbind (slift (rebuild_both tconv (q4_dtype (ls_sink_k ls)) f)) (\<lambda>(kl, vl).
                sbind (slift (cat4 ([ls_sink_k ls] @ kl @ [ls_recent_k ls]))) (\<lambda>ak.
                sbind (slift (cat4 ([ls_sink_v ls] @ vl @ [ls_recent_v ls]))) (\<lambda>av. sret (ak, av)))))))"

section \<open>Memory and descriptors\<close>

record sp_stats =
  ss_active_mb :: real
  ss_total_mb :: real
  ss_offload_pct :: real
  ss_per_layer :: "(int \<times> int) option"

definition sp_get_memory_stats :: "('s, 'm) provider_scheme \<Rightarrow> sp_stats" where
  "sp_get_memory_stats p = (case dvalues (sp_layers p) of
     [] \<Rightarrow> \<lparr>ss_active_mb = 0, ss_total_mb = 0, ss_offload_pct = 0, ss_per_layer = None\<rparr>
   | ls # _ \<Rightarrow>
       (let k = (if ls_cands ls = [] then 0 else k_to_fetch (sp_pct p) (length (ls_cands ls)));
            active = int (sp_sink p) + int (sp_recent p) + k * int (sp_tpb p);
            per_tok = sp_kv_heads p * sp_head_dim p * (case sp_bpe p of Some e \<Rightarrow> e | None \<Rightarrow> 4) * 2 * int (length (sp_layers p));
            all = int (ls_total ls) * per_tok; act = active * per_tok
        in \<lparr>ss_active_mb = of_int act / (1024 * 1024), ss_total_mb = of_int all / (1024 * 1024),
            ss_offload_pct = max 0 (1 - of_int act / max 1 (of_int all)) * 100,
            ss_per_layer = Some (active, int (ls_total ls))\<rparr>))"

datatype state_type = ATTENTION_KV | SLIDING_WINDOW_KV | SSM | RECURRENT | UNKNOWN
datatype residency = AI_SSD | HOST_DRAM

record state_desc =
  sd_type :: state_type
  sd_layer :: int
  sd_residency :: residency
  sd_shape :: "int list"
  sd_dtype :: string
  sd_bytes :: int
  sd_layout :: string
  sd_block :: int
  sd_window :: "int option"
  sd_resident :: bool

text \<open>The first layer's keys; a cache object without them fails differently from a dictionary without layer 0.\<close>

definition sample_key :: "past \<Rightarrow> kv4 res" where
  "sample_key x = (case x of
     PDict d \<Rightarrow> (case dget d 0 of None \<Rightarrow> Inl KeyError | Some kv \<Rightarrow> Inr (fst kv))
   | PLayers [] \<Rightarrow> Inl IndexError | PLayers (None # _) \<Rightarrow> Inl AttributeError | PLayers (Some kv # _) \<Rightarrow> Inr (fst kv)
   | PCache [] _ \<Rightarrow> Inl IndexError | PCache (k # _) _ \<Rightarrow> Inr k
   | PList [] \<Rightarrow> Inl IndexError | PList (kv # _) \<Rightarrow> Inr (fst kv))"

definition kv_desc :: "nat \<Rightarrow> int \<Rightarrow> int \<Rightarrow> kv4 \<Rightarrow> int \<Rightarrow> state_desc" where
  "kv_desc tpb h d k i = \<lparr>sd_type = ATTENTION_KV, sd_layer = i, sd_residency = AI_SSD, sd_shape = [int tpb, h, d],
     sd_dtype = (if half_bits (q4_dtype k) then ''fp16'' else ''fp32''),
     sd_bytes = int tpb * h * d * (if half_bits (q4_dtype k) then 2 else 4) * 2, sd_layout = ''tokens_heads_dim'',
     sd_block = int tpb, sd_window = None, sd_resident = False\<rparr>"

definition sp_inspect_state :: "past \<Rightarrow> ('s, 'm) provider_scheme \<Rightarrow> state_desc list res" where
  "sp_inspect_state x p = rbind (sample_key x) (\<lambda>k.
     Inr (map (kv_desc (sp_tpb p) (sp_kv_heads p) (sp_head_dim p) k)
       [0..(case x of PDict d \<Rightarrow> int (length d) | _ \<Rightarrow> the (past_count x)) - 1]))"

section \<open>Sliding window\<close>

record 's sw_provider = "'s provider" +
  sw_window :: int

definition new_sw_provider ::
    "model_config \<Rightarrow> 's \<Rightarrow> nat \<Rightarrow> nat \<Rightarrow> nat \<Rightarrow> real \<Rightarrow> bool \<Rightarrow> bool \<Rightarrow> bool \<Rightarrow> 's sw_provider" where
  "new_sw_provider c s sink rec tpb pct cst pre asy = provider.extend (new_provider c s sink rec tpb pct cst pre asy)
     \<lparr>sw_window = (case mc_window c of None \<Rightarrow> 4096 | Some w \<Rightarrow> if w = 0 then 4096 else w)\<rparr>"

definition sw_inspect_state :: "past \<Rightarrow> 's sw_provider \<Rightarrow> state_desc list res" where
  "sw_inspect_state x p = rbind (sp_inspect_state x p) (\<lambda>ds.
     Inr (map (\<lambda>d. d\<lparr>sd_type := SLIDING_WINDOW_KV, sd_window := Some (sw_window p)\<rparr>) ds))"

text \<open>Blocks that end inside the window; before the window is full, all of them.\<close>

definition in_window :: "'s sw_provider \<Rightarrow> nat \<Rightarrow> int \<times> int \<Rightarrow> bool" where
  "in_window p n c = (int n - sw_window p < int (sp_sink p) + fst c * int (sp_tpb p) + snd c)"

definition window_cands :: "'s sw_provider \<Rightarrow> layer_state \<Rightarrow> (int \<times> int) list" where
  "window_cands p ls = (if sw_window p < int (ls_total ls) then filter (in_window p (ls_total ls)) (ls_cands ls) else ls_cands ls)"

text \<open>The candidate list is replaced for the call and put back however the call ends.\<close>

definition sw_select_and_fetch ::
    "(np_dtype \<Rightarrow> byte list \<Rightarrow> real list) \<Rightarrow> kernel option \<Rightarrow> (np_dtype \<Rightarrow> tdtype \<Rightarrow> byte list \<Rightarrow> byte list) \<Rightarrow> 's kv_service \<Rightarrow>
     int \<Rightarrow> real list list option \<Rightarrow> ('s sw_provider, kv4 \<times> kv4) meth" where
  "sw_select_and_fetch decode kern tconv sv layer query =
     sbind (sread (\<lambda>p. p)) (\<lambda>p. case dget (sp_layers p) layer of
       None \<Rightarrow> sraise KeyError
     | Some ls \<Rightarrow>
         sthen (supd (upd_layer layer (\<lambda>ls. ls\<lparr>ls_cands := window_cands p ls\<rparr>)))
           (\<lambda>p1. case sp_select_and_fetch decode kern tconv sv layer query p1 of
              (r, p2) \<Rightarrow> (r, upd_layer layer (\<lambda>l. l\<lparr>ls_cands := ls_cands ls\<rparr>) p2)))"

section \<open>Hybrid models\<close>

text \<open>A layer of the model's own cache: keys and values, or the state of a state-space layer, of any type.\<close>

datatype 'x native_layer = AttnLayer kv4 kv4 | SsmLayer 'x

record ('s, 'x) hybrid =
  hy_attn :: "'s provider"
  hy_config :: model_config
  hy_ssm :: "(int, 'x \<times> bool) dict"
  hy_native :: "'x native_layer list"

definition new_hybrid ::
    "model_config \<Rightarrow> 's \<Rightarrow> nat \<Rightarrow> nat \<Rightarrow> nat \<Rightarrow> real \<Rightarrow> bool \<Rightarrow> bool \<Rightarrow> bool \<Rightarrow> ('s, 'x) hybrid" where
  "new_hybrid c s sink rec tpb pct cst pre asy = \<lparr>hy_attn = new_provider c s sink rec tpb pct cst pre asy, hy_config = c,
     hy_ssm = [], hy_native = []\<rparr>"

fun split_native :: "int \<Rightarrow> 'x native_layer list \<Rightarrow> (int, 'x \<times> bool) dict \<Rightarrow> (int, kv4 \<times> kv4) dict \<times> (int, 'x \<times> bool) dict" where
  "split_native i [] d = ([], d)"
| "split_native i (AttnLayer k v # ls) d = (case split_native (i + 1) ls d of (a, e) \<Rightarrow> ((i, (k, v)) # a, e))"
| "split_native i (SsmLayer x # ls) d = split_native (i + 1) ls (dset i (x, False) d)"

fun strip_native :: "'x native_layer \<Rightarrow> 'x native_layer" where
  "strip_native (AttnLayer k v) = AttnLayer (empty4 k) (empty4 v)"
| "strip_native (SsmLayer x) = SsmLayer x"

definition on_attn :: "('s provider, 'a) meth \<Rightarrow> (('s, 'x) hybrid, 'a) meth" where
  "on_attn m y = (case m (hy_attn y) of (r, p) \<Rightarrow> (r, y\<lparr>hy_attn := p\<rparr>))"

definition hy_init_from_prefill ::
    "(np_dtype \<Rightarrow> np_dtype \<Rightarrow> byte list \<Rightarrow> byte list) \<Rightarrow> 's kv_service \<Rightarrow> 'x native_layer list \<Rightarrow> (('s, 'x) hybrid, unit) meth" where
  "hy_init_from_prefill conv sv ls =
     sbind (sread (\<lambda>y. split_native 0 ls (hy_ssm y))) (\<lambda>(attn, ssm).
     sthen (supd (\<lambda>y. y\<lparr>hy_ssm := ssm\<rparr>))
    (sthen (on_attn (sp_init_from_prefill conv sv (PDict attn)))
           (supd (\<lambda>y. y\<lparr>hy_native := map strip_native ls\<rparr>))))"

definition hy_append_new_token :: "int \<Rightarrow> kv4 \<Rightarrow> kv4 \<Rightarrow> (('s, 'x) hybrid, unit) meth" where
  "hy_append_new_token layer k v =
     sbind (sread (\<lambda>y. y)) (\<lambda>y.
       if is_layer_attention (hy_config y) layer then on_attn (sp_append_new_token layer k v)
       else (case dget (hy_ssm y) layer of
               None \<Rightarrow> sret ()
             | Some (x, _) \<Rightarrow> supd (\<lambda>y. y\<lparr>hy_ssm := dset layer (x, True) (hy_ssm y)\<rparr>)))"

definition hy_select_and_fetch ::
    "(np_dtype \<Rightarrow> byte list \<Rightarrow> real list) \<Rightarrow> kernel option \<Rightarrow> (np_dtype \<Rightarrow> tdtype \<Rightarrow> byte list \<Rightarrow> byte list) \<Rightarrow> 's kv_service \<Rightarrow>
     int \<Rightarrow> real list list option \<Rightarrow> (('s, 'x) hybrid, (kv4 \<times> kv4) + ('x \<times> bool) option) meth" where
  "hy_select_and_fetch decode kern tconv sv layer query =
     sbind (sread (\<lambda>y. y)) (\<lambda>y.
       if is_layer_attention (hy_config y) layer
       then sbind (on_attn (sp_select_and_fetch decode kern tconv sv layer query)) (\<lambda>kv. sret (Inl kv))
       else sret (Inr (dget (hy_ssm y) layer)))"

definition hy_get_memory_stats :: "('s, 'x) hybrid \<Rightarrow> sp_stats \<times> nat" where
  "hy_get_memory_stats y = (let st = sp_get_memory_stats (hy_attn y); n = length (hy_ssm y)
     in (st\<lparr>ss_active_mb := ss_active_mb st + of_nat n / 10\<rparr>, n))"

text \<open>The shape of the convolution state is a parameter; \<open>()\<close> of a layer without one is \<open>(0,)\<close>.\<close>

definition ssm_desc :: "('x \<Rightarrow> int list option) \<Rightarrow> 'x \<Rightarrow> int \<Rightarrow> state_desc" where
  "ssm_desc sh x i = \<lparr>sd_type = SSM, sd_layer = i, sd_residency = HOST_DRAM,
     sd_shape = (case sh x of None \<Rightarrow> [0] | Some s \<Rightarrow> s), sd_dtype = ''fp32'', sd_bytes = 1024, sd_layout = ''ssm_state'',
     sd_block = 0, sd_window = None, sd_resident = True\<rparr>"

definition hy_inspect_state :: "('x \<Rightarrow> int list option) \<Rightarrow> 'x native_layer list \<Rightarrow> ('s, 'x) hybrid \<Rightarrow> state_desc list" where
  "hy_inspect_state sh ls y = map (\<lambda>(i, l). case l of
       AttnLayer k v \<Rightarrow> kv_desc (sp_tpb (hy_attn y)) (mc_kv_heads (hy_config y)) (mc_head_dim (hy_config y)) k i
     | SsmLayer x \<Rightarrow> ssm_desc sh x i) (zip [0..int (length ls) - 1] ls)"

end
