(* ===== verification/StateCoherence.thy ===== *)
theory StateCoherence
  imports StateProvider "HOL-Library.Multiset"
begin

text \<open>
  What the state providers promise: the contract they ask of a backend (locale \<open>kv_serving\<close>,
  interpreted on the inference backend and on the prefetch adapter in front of it), and the
  proof that attention is handed the tokens of the prompt, keys and values alike, in order.
\<close>

section \<open>Lists of equal pieces\<close>

lemma nth_concat_uniform:
  "\<forall>x\<in>set xs. length x = w \<Longrightarrow> i < length xs \<Longrightarrow> j < w \<Longrightarrow> concat xs ! (i * w + j) = xs ! i ! j"
proof (induction xs arbitrary: i)
  case (Cons x xs)
  then show ?case by (cases i) (auto simp: nth_append)
qed simp

lemma length_concat_uniform: "\<forall>x\<in>set xs. length x = w \<Longrightarrow> length (concat xs) = length xs * w"
  by (induction xs) simp_all

lemma take_drop_concat:
  "\<forall>x\<in>set xs. length x = w \<Longrightarrow> i < length xs \<Longrightarrow> take w (drop (i * w) (concat xs @ ys)) = xs ! i"
proof (induction xs arbitrary: i)
  case (Cons x xs)
  then show ?case by (cases i) auto
qed simp

lemma nat_less_mult:
  assumes "i < n" "j < (h :: nat)"
  shows "i * h + j < n * h"
proof -
  have "Suc i * h \<le> n * h" using assms(1) by (intro mult_right_mono) simp_all
  then show ?thesis using assms(2) by simp
qed

lemma blocks_cover:
  assumes "0 < (t :: nat)"
  shows "concat (map (\<lambda>b. take (min t (length xs - b * t)) (drop (b * t) xs)) [0..<(length xs + t - 1) div t]) = xs"
proof -
  have "concat (map (\<lambda>b. take (min t (length xs - b * t)) (drop (b * t) xs)) [0..<n]) = take (n * t) xs" for n
    by (induction n) (auto simp: take_add min_def add.commute [of t])
  moreover have "length xs \<le> ((length xs + t - 1) div t) * t"
    using assms div_mult_mod_eq [of "length xs + t - 1" t] mod_less_divisor [of t "length xs + t - 1"] by linarith
  ultimately show ?thesis by simp
qed

text \<open>A selection of blocks is a selection of their tokens, the same one for keys and values.\<close>

lemma nths_concat:
  fixes ps :: "('a list \<times> 'a list) list"
  assumes "\<forall>(a, b)\<in>set ps. length a = length b"
  shows "\<exists>J. concat (map fst (nths ps S)) = nths (concat (map fst ps)) J \<and>
             concat (map snd (nths ps S)) = nths (concat (map snd ps)) J"
  using assms
proof (induction ps arbitrary: S)
  case (Cons p ps)
  obtain a b where p: "p = (a, b)" "length a = length b" using Cons.prems by (cases p) auto
  let ?n = "length b"
  obtain J where J: "concat (map fst (nths ps {j. Suc j \<in> S})) = nths (concat (map fst ps)) J"
    "concat (map snd (nths ps {j. Suc j \<in> S})) = nths (concat (map snd ps)) J"
    using Cons.IH [of "{j. Suc j \<in> S}"] Cons.prems by auto
  let ?J = "(if 0 \<in> S then {..<?n} else {}) \<union> (+) ?n ` J"
  have "nths c ?J = (if 0 \<in> S then c else [])" if "length c = ?n" for c :: "'a list"
  proof (cases "0 \<in> S")
    case False
    then have "set (nths c ?J) = {}" using that by (auto simp: set_nths)
    then show ?thesis using False by simp
  qed (use that in \<open>simp add: nths_all\<close>)
  note here = this
  have "{j. j + ?n \<in> ?J} = J" by auto
  then show ?case using J p here [of a] here [of b]
    by (intro exI [of _ ?J]) (simp add: nths_Cons nths_append)
qed simp

lemma list_all2_nths: "list_all2 R xs ys \<Longrightarrow> list_all2 R (nths xs S) (nths ys S)"
  by (induction xs ys arbitrary: S rule: list_all2_induct) (simp_all add: nths_Cons)

section \<open>Blocks and pages\<close>

text \<open>What torch guarantees of a tensor of the given heads and dimension.\<close>

definition kv4_ok :: "nat \<Rightarrow> nat \<Rightarrow> tdtype \<Rightarrow> kv4 \<Rightarrow> bool" where
  "kv4_ok h d td t \<longleftrightarrow> q4_heads t = h \<and> q4_dim t = d \<and> q4_dtype t = td \<and>
     (\<forall>r\<in>set (q4_rows t). length r = h \<and> (\<forall>e\<in>set r. length e = d * (if half_bits td then 2 else 4)))"

definition page_fits :: "nat list \<Rightarrow> np_dtype \<Rightarrow> tensor \<Rightarrow> bool" where
  "page_fits geo dt t \<longleftrightarrow> tensor_ok t \<and> shape t = geo \<and> elem_type t = dt"

definition rows_ok :: "nat \<Rightarrow> nat \<Rightarrow> kv_row list \<Rightarrow> bool" where
  "rows_ok h w rs \<longleftrightarrow> (\<forall>r\<in>set rs. length r = h \<and> (\<forall>e\<in>set r. length e = w))"

lemma np_itemsize: "np_of td = Some dt \<Longrightarrow> itemsize dt = (if half_bits td then 2 else 4)"
  by (cases td) (auto simp: half_bits_def)

lemma kv4_rows_ok: "kv4_ok h d td t \<Longrightarrow> np_of td = Some dt \<Longrightarrow> rows_ok h (d * itemsize dt) (q4_rows t)"
  by (simp add: kv4_ok_def rows_ok_def np_itemsize)

lemma rows_ok_sub: "rows_ok h w rs \<Longrightarrow> set qs \<subseteq> set rs \<Longrightarrow> rows_ok h w qs"
  by (auto simp: rows_ok_def)

lemma length_rows_bytes:
  assumes "rows_ok h w rs"
  shows "length (rows_bytes rs) = length rs * (h * w)"
proof -
  have "\<forall>x\<in>set (map concat rs). length x = h * w"
    using assms by (auto simp: rows_ok_def length_concat_uniform)
  then show ?thesis using length_concat_uniform [of "map concat rs" "h * w"] by (simp add: rows_bytes_def)
qed

lemma rows_bytes_flat: "rows_bytes rs = concat (concat rs)"
  by (induction rs) (simp_all add: rows_bytes_def)

lemma packed_row:
  assumes "rows_ok h w rs" "i < length rs"
  shows "page_row \<lparr>shape = sh, elem_type = dt, raw = rows_bytes rs @ ys\<rparr> h w i = rs ! i"
proof (rule nth_equalityI)
  have ri: "length (rs ! i) = h" using assms by (simp add: rows_ok_def)
  then show "length (page_row \<lparr>shape = sh, elem_type = dt, raw = rows_bytes rs @ ys\<rparr> h w i) = length (rs ! i)"
    by (simp add: page_row_def)
  fix j assume "j < length (page_row \<lparr>shape = sh, elem_type = dt, raw = rows_bytes rs @ ys\<rparr> h w i)"
  then have j: "j < h" by (simp add: page_row_def)
  have u: "\<forall>x\<in>set rs. length x = h" "\<forall>x\<in>set (concat rs). length x = w" using assms(1) by (auto simp: rows_ok_def)
  have "i * h + j < length (concat rs)"
    using nat_less_mult [OF assms(2) j] length_concat_uniform [OF u(1)] by simp
  from take_drop_concat [OF u(2) this] nth_concat_uniform [OF u(1) assms(2) j] j
  show "page_row \<lparr>shape = sh, elem_type = dt, raw = rows_bytes rs @ ys\<rparr> h w i ! j = rs ! i ! j"
    by (simp add: page_row_def rows_bytes_flat)
qed

lemma pack_block_ok:
  assumes "kv4_ok h d td t" "np_of td = Some dt" "rows_ok h (d * itemsize dt) rs" "length rs = tok" "tok \<le> tpb"
  shows "\<exists>b. pack_block conv tpb (int h) (int d) dt t tok rs = Inr b \<and> page_fits [tpb, h, d] dt b \<and>
    slice_to (int tok) (page_rows b) = rs"
proof -
  let ?b = "\<lparr>shape = [tpb, h, d], elem_type = dt,
     raw = rows_bytes rs @ replicate (itemsize dt * (tpb * (h * d)) - length (rows_bytes rs)) 0\<rparr>"
  have "length (rows_bytes rs) \<le> itemsize dt * (tpb * (h * d))"
    using assms(4,5) mult_right_mono [of tok tpb "h * (d * itemsize dt)"] by (simp add: length_rows_bytes [OF assms(3)] mult_ac)
  then have fit: "page_fits [tpb, h, d] dt ?b" by (simp add: page_fits_def tensor_ok_def)
  have "slice_to (int tok) (page_rows ?b) = map (page_row ?b h (d * itemsize dt)) [0..<tok]"
    using assms(5) by (simp add: page_rows_def slice_to_nonneg take_map)
  also have "\<dots> = rs"
    by (rule nth_equalityI) (simp_all add: assms(4) packed_row [OF assms(3)])
  finally show ?thesis using assms fit by (intro exI [of _ ?b]) (simp add: pack_block_def kv4_ok_def Let_def)
qed

lemma page_tensor_ok:
  assumes "page_fits [n, h, d] dt t" "np_of td = Some dt"
  shows "page_tensor tconv td t tok = Inr \<lparr>q4_dtype = td, q4_heads = h, q4_dim = d, q4_rows = slice_to tok (page_rows t)\<rparr>"
  using assms by (simp add: page_tensor_def page_fits_def Let_def map_idI)

section \<open>The contract of a backend\<close>

text \<open>A query of vectors of the right dimension, whose heads find their key heads.\<close>

definition query_ready :: "nat \<Rightarrow> nat \<Rightarrow> int \<Rightarrow> real list list \<Rightarrow> bool" where
  "query_ready h d r q \<longleftrightarrow> q \<noteq> [] \<and> 0 < r \<and> (int (length q) - 1) div r < int h \<and> (\<forall>row\<in>set q. length row = d)"

text \<open>A top-k answer: as many of the candidates as asked for, none twice.\<close>

definition chosen :: "int \<Rightarrow> (int \<times> int) list \<Rightarrow> scored list \<Rightarrow> bool" where
  "chosen k cands res \<longleftrightarrow> distinct (map snd res) \<and> set (map snd res) \<subseteq> set cands \<and> length res = min (nat k) (length cands)"

text \<open>The native kernel returns distinct indices of blocks, as many as asked for.\<close>

definition kernel_ok :: "kernel option \<Rightarrow> bool" where
  "kernel_ok kern \<longleftrightarrow> (\<forall>kf. kern = Some kf \<longrightarrow> (\<forall>q ks ts k. length ts = length ks \<longrightarrow> 0 \<le> k \<longrightarrow>
     distinct (map fst (kf q ks ts k)) \<and> set (map fst (kf q ks ts k)) \<subseteq> {..<length ks} \<and>
     length (kf q ks ts k) = min (nat k) (length ks)))"

text \<open>
  \<open>inv P s\<close>: the backend is sound and what \<open>P\<close> says is stored is stored. Blocks are written while
  it is \<open>calm\<close>; reads, prefetches and filtering forget nothing.
\<close>

type_synonym contents = "int \<times> int \<Rightarrow> (tensor \<times> tensor) option"

definition known :: "contents \<Rightarrow> nat list \<Rightarrow> np_dtype \<Rightarrow> int \<times> int \<Rightarrow> bool" where
  "known P geo dt key \<longleftrightarrow> (\<exists>k v. P key = Some (k, v) \<and> page_fits geo dt k \<and> page_fits geo dt v)"

locale kv_serving =
  fixes sv :: "'s kv_service" and inv :: "contents \<Rightarrow> 's \<Rightarrow> bool" and calm :: "'s \<Rightarrow> bool"
    and tpb :: nat and hn :: nat and dn :: nat and dt :: np_dtype
  assumes write_law: "inv P s \<Longrightarrow> calm s \<Longrightarrow> page_fits [tpb, hn, dn] dt k \<Longrightarrow> page_fits [tpb, hn, dn] dt v \<Longrightarrow>
      \<exists>s'. po_write (sv_pages sv) layer bid k v 0 0 s = (Inr (), s') \<and> inv (P((layer, bid) \<mapsto> (k, v))) s' \<and> calm s'"
    and batch_law: "inv P s \<Longrightarrow> \<forall>i\<in>set ids. known P [tpb, hn, dn] dt (layer, i) \<Longrightarrow>
      \<exists>d s'. po_batch (sv_pages sv) pk layer ids 0 0 s = (Inr d, s') \<and> inv P s' \<and>
        (\<forall>i\<in>set ids. dget d i = Some (pages_of pk (the (P (layer, i)))))"
    and prefetch_law: "sv_prefetch sv = Some f \<Longrightarrow> inv P s \<Longrightarrow> \<exists>s'. f layer ids mode s = (Inr (), s') \<and> inv P s'"
    and topk_law: "sv_topk sv = Some g \<Longrightarrow> inv P s \<Longrightarrow> cands \<noteq> [] \<Longrightarrow> distinct cands \<Longrightarrow> 0 \<le> n \<Longrightarrow> 0 < tpb \<Longrightarrow>
      \<forall>c\<in>set cands. 0 < snd c \<and> known P [tpb, hn, dn] dt (layer, fst c) \<Longrightarrow>
      query_ready hn dn (int (length q) div int hn) q \<Longrightarrow>
      \<exists>res s'. g layer cands q n scale (length q) (int hn) s = (Inr res, s') \<and> inv P s' \<and> chosen n cands res"

section \<open>Winners\<close>

text \<open>Sorted by block id, winners are a selection of the candidate list.\<close>

lemma sorted_selection:
  fixes cs :: "(int \<times> int) list"
  assumes "sorted_wrt (<) (map fst cs)" "set xs \<subseteq> set cs" "sorted (map fst xs)" "distinct xs"
  shows "xs = filter (\<lambda>c. c \<in> set xs) cs"
proof -
  let ?ys = "filter (\<lambda>c. c \<in> set xs) cs"
  have inj: "inj_on fst (set cs)" using assms(1) by (simp add: strict_sorted_iff distinct_map)
  have "sorted_wrt (<) (map fst ?ys)" using assms(1) by (simp add: sorted_wrt_map sorted_wrt_filter)
  then have y: "sorted (map fst ?ys)" "distinct (map fst ?ys)" by (simp_all add: strict_sorted_iff)
  have x: "distinct (map fst xs)" using assms(2,4) inj by (simp add: distinct_map inj_on_subset)
  have st: "set xs = set ?ys" using assms(2) by auto
  then have "map fst xs = map fst ?ys" using assms(3) x y by (intro sorted_distinct_set_unique) simp_all
  moreover have "inj_on fst (set xs \<union> set ?ys)" using inj by (rule inj_on_subset) (use assms(2) in auto)
  ultimately show ?thesis by (rule map_inj_on)
qed

lemma winners_in_order:
  assumes "chosen k cands tops" "sorted_wrt (<) (map fst cands)"
  shows "\<exists>S. map snd (sort_key (\<lambda>x. fst (snd x)) tops) = nths cands S"
proof -
  define xs where "xs = map snd (sort_key (\<lambda>x. fst (snd x)) tops)"
  have "mset xs = mset (map snd tops)" by (simp only: xs_def mset_map mset_sort)
  then have "distinct xs" "set xs \<subseteq> set cands"
    using assms(1) mset_eq_setD [of xs "map snd tops"] mset_eq_imp_distinct_iff [of xs "map snd tops"]
    by (auto simp: chosen_def)
  moreover have "sorted (map fst xs)"
    using sorted_sort_key [of "\<lambda>x. fst (snd x)" tops] by (simp add: xs_def comp_def)
  ultimately have "xs = filter (\<lambda>c. c \<in> set xs) cands" using sorted_selection [OF assms(2)] by blast
  then show ?thesis unfolding xs_def [symmetric] by (metis filter_eq_nths)
qed

section \<open>What a layer holds\<close>

definition piece :: "nat \<Rightarrow> 'a list \<Rightarrow> nat \<Rightarrow> 'a list" where
  "piece t xs b = take (min t (length xs - b * t)) (drop (b * t) xs)"

lemma pieces_cover: "0 < t \<Longrightarrow> concat (map (\<lambda>b. piece t xs b) [0..<(length xs + t - 1) div t]) = xs"
  unfolding piece_def by (rule blocks_cover)

definition block_holds :: "contents \<Rightarrow> nat list \<Rightarrow> np_dtype \<Rightarrow> int \<Rightarrow> int \<times> int \<Rightarrow> kv_row list \<times> kv_row list \<Rightarrow> bool" where
  "block_holds P geo dt layer c kv \<longleftrightarrow> 0 < snd c \<and> (\<exists>kb vb. P (layer, fst c) = Some (kb, vb) \<and> page_fits geo dt kb \<and>
     page_fits geo dt vb \<and> slice_to (snd c) (page_rows kb) = fst kv \<and> slice_to (snd c) (page_rows vb) = snd kv)"

definition same_kind :: "nat \<Rightarrow> nat \<Rightarrow> tdtype \<Rightarrow> kv4 \<Rightarrow> bool" where
  "same_kind h d td t \<longleftrightarrow> q4_heads t = h \<and> q4_dim t = d \<and> q4_dtype t = td"

text \<open>A layer's candidates are stored in order, with the parts of the history listed.\<close>

definition layer_holds ::
    "contents \<Rightarrow> nat \<Rightarrow> nat \<Rightarrow> nat \<Rightarrow> np_dtype \<Rightarrow> tdtype \<Rightarrow> int \<Rightarrow> layer_state \<Rightarrow> (kv_row list \<times> kv_row list) list \<Rightarrow> bool" where
  "layer_holds P t h d dt td layer ls parts \<longleftrightarrow> np_of td = Some dt \<and>
     list_all2 (block_holds P [t, h, d] dt layer) (ls_cands ls) parts \<and> sorted_wrt (<) (map fst (ls_cands ls)) \<and>
     (\<forall>x\<in>{ls_sink_k ls, ls_sink_v ls, ls_recent_k ls, ls_recent_v ls}. same_kind h d td x)"

lemma block_holds_known: "block_holds P geo dt layer c kv \<Longrightarrow> known P geo dt (layer, fst c)"
  by (auto simp: block_holds_def known_def)

lemma block_holds_mono:
  "block_holds P geo dt layer c kv \<Longrightarrow> Q (layer, fst c) = P (layer, fst c) \<Longrightarrow> block_holds Q geo dt layer c kv"
  by (simp add: block_holds_def)

lemma rows_ok_piece: "rows_ok h w rs \<Longrightarrow> rows_ok h w (piece t rs b)"
  by (erule rows_ok_sub) (auto simp: piece_def dest: in_set_takeD in_set_dropD)

lemma length_piece: "length (piece t xs b) = min t (length xs - b * t)"
  by (simp add: piece_def)

lemma block_start:
  assumes "0 < (t :: nat)" "b < (n + t - 1) div t"
  shows "b * t < n"
proof -
  have "(b + 1) * t \<le> n + t - 1" using assms by (metis Suc_eq_plus1 Suc_leI less_eq_div_iff_mult_less_eq)
  then show ?thesis using assms(1) by simp
qed

text \<open>What a layer is after the prefill of keys \<open>k\<close> and values \<open>v\<close>.\<close>

definition blocks_in_place :: "nat \<Rightarrow> (int \<times> int) list \<Rightarrow> ('a list \<times> 'b) list \<Rightarrow> bool" where
  "blocks_in_place t cs parts \<longleftrightarrow> (\<forall>b<length parts. cs ! b = (int b, int (length (fst (parts ! b)))) \<and> length (fst (parts ! b)) \<le> t \<and>
     length (concat (map fst (take b parts))) = b * t)"

lemma pieces_in_place:
  assumes "0 < t"
  shows "blocks_in_place t (map (\<lambda>b. (int b, int (min t (length xs - b * t)))) [0..<(length xs + t - 1) div t])
    (map (\<lambda>b. (piece t xs b, f b)) [0..<(length xs + t - 1) div t])"
proof -
  have "length (concat (map (piece t xs) [0..<b])) = b * t" if "b < (length xs + t - 1) div t" for b
  proof -
    have "b * t < length xs" by (rule block_start [OF assms that])
    then have "length (piece t xs c) = t" if "c < b" for c
      using that mult_le_mono1 [of "Suc c" b t] by (simp add: length_piece)
    then show ?thesis by (subst length_concat_uniform [where w = t]) auto
  qed
  then show ?thesis by (simp add: blocks_in_place_def length_piece take_map comp_def)
qed

definition layer_from ::
    "contents \<Rightarrow> nat \<Rightarrow> nat \<Rightarrow> nat \<Rightarrow> np_dtype \<Rightarrow> tdtype \<Rightarrow> nat \<Rightarrow> nat \<Rightarrow> int \<Rightarrow> kv4 \<Rightarrow> kv4 \<Rightarrow> layer_state \<Rightarrow> bool" where
  "layer_from P t h d dt td sink rec layer k v ls \<longleftrightarrow> (\<exists>parts. layer_holds P t h d dt td layer ls parts \<and>
     (\<forall>(a, b)\<in>set parts. length a = length b) \<and> blocks_in_place t (ls_cands ls) parts \<and> ls_total ls = tokens4 k \<and>
     tokens4 (ls_sink_k ls) = (if tokens4 k \<le> sink + rec then tokens4 k else sink) \<and> tokens4 (ls_sink_v ls) = tokens4 (ls_sink_k ls) \<and>
     tokens4 (ls_recent_k ls) = (if tokens4 k \<le> sink + rec then 0 else rec) \<and> tokens4 (ls_recent_v ls) = tokens4 (ls_recent_k ls) \<and>
     q4_rows (ls_sink_k ls) @ concat (map fst parts) @ q4_rows (ls_recent_k ls) = q4_rows k \<and>
     q4_rows (ls_sink_v ls) @ concat (map snd parts) @ q4_rows (ls_recent_v ls) = q4_rows v)"

lemma layer_from_mono:
  assumes "layer_from P t h d dt td sink rec layer k v ls" "\<forall>b. Q (layer, b) = P (layer, b)"
  shows "layer_from Q t h d dt td sink rec layer k v ls"
proof -
  have "block_holds Q [t, h, d] dt layer = block_holds P [t, h, d] dt layer"
    using assms(2) by (simp add: block_holds_def fun_eq_iff)
  then show ?thesis using assms(1) unfolding layer_from_def layer_holds_def by (simp only:)
qed

lemma tokens_first: "s \<le> tokens4 t \<Longrightarrow> tokens4 (first_tokens s t) = s"
  by (simp add: tokens4_def first_tokens_def)

lemma tokens_last: "0 < r \<Longrightarrow> r \<le> tokens4 t \<Longrightarrow> tokens4 (last_tokens r t) = r"
  by (simp add: tokens4_def last_tokens_def)

lemma layer_fromI:
  assumes "\<not> tokens4 k \<le> s + r" "layer_holds P t h d dt td layer ls parts" "\<forall>(a, b)\<in>set parts. length a = length b"
    and "blocks_in_place t (ls_cands ls) parts" "ls_total ls = tokens4 k" "tokens4 (ls_sink_k ls) = s" "tokens4 (ls_sink_v ls) = s" "tokens4 (ls_recent_k ls) = r"
    and "tokens4 (ls_recent_v ls) = r" "q4_rows (ls_sink_k ls) @ concat (map fst parts) @ q4_rows (ls_recent_k ls) = q4_rows k"
    and "q4_rows (ls_sink_v ls) @ concat (map snd parts) @ q4_rows (ls_recent_v ls) = q4_rows v"
  shows "layer_from P t h d dt td s r layer k v ls"
  unfolding layer_from_def using assms by (intro exI [of _ parts]) simp

context kv_serving
begin

abbreviation geo :: "nat list" where
  "geo \<equiv> [tpb, hn, dn]"

lemma write_hist_ok:
  fixes p :: "('s, 'm) provider_scheme"
  assumes "inv P (sp_backend p)" "calm (sp_backend p)" "sp_tpb p = tpb" "sp_kv_heads p = int hn" "sp_head_dim p = int dn"
    and "kv4_ok hn dn td k" "kv4_ok hn dn td v" "np_of td = Some dt" "rows_ok hn (dn * itemsize dt) hk"
    and "rows_ok hn (dn * itemsize dt) hv" "length hv = length hk" "b * tpb < length hk" "0 < tpb"
  shows "\<exists>P' s'. write_hist_block conv sv dt layer (k, v) (hk, hv) b acc p =
      (Inr (acc @ [(int b, int (min tpb (length hk - b * tpb)))]), p\<lparr>sp_backend := s'\<rparr>) \<and> inv P' s' \<and> calm s' \<and>
    (\<forall>key. key \<noteq> (layer, int b) \<longrightarrow> P' key = P key) \<and>
    block_holds P' geo dt layer (int b, int (min tpb (length hk - b * tpb))) (piece tpb hk b, piece tpb hv b)"
proof -
  let ?n = "min tpb (length hk - b * tpb)"
  obtain kb where kb: "pack_block conv tpb (int hn) (int dn) dt k ?n (piece tpb hk b) = Inr kb" "page_fits geo dt kb"
    "slice_to (int ?n) (page_rows kb) = piece tpb hk b"
    using pack_block_ok [OF assms(6,8) rows_ok_piece [OF assms(9)], of tpb b ?n tpb conv] by (auto simp: length_piece)
  obtain vb where vb: "pack_block conv tpb (int hn) (int dn) dt v ?n (piece tpb hv b) = Inr vb" "page_fits geo dt vb"
    "slice_to (int ?n) (page_rows vb) = piece tpb hv b"
    using pack_block_ok [OF assms(7,8) rows_ok_piece [OF assms(10)], of tpb b ?n tpb conv] by (auto simp: length_piece assms(11))
  obtain s' where w: "po_write (sv_pages sv) layer (int b) kb vb 0 0 (sp_backend p) = (Inr (), s')"
    "inv (P((layer, int b) \<mapsto> (kb, vb))) s'" "calm s'"
    using write_law [OF assms(1,2) kb(2) vb(2)] by blast
  have pc: "take ?n (drop (b * tpb) hk) = piece tpb hk b" "take ?n (drop (b * tpb) hv) = piece tpb hv b"
    by (simp_all add: piece_def assms(11))
  have "write_hist_block conv sv dt layer (k, v) (hk, hv) b acc p = (Inr (acc @ [(int b, int ?n)]), p\<lparr>sp_backend := s'\<rparr>)"
    using kb(1) vb(1) w(1) by (simp add: write_hist_block_def Let_def assms(3-5) pc on_kv_def meth_run)
  moreover have "block_holds (P((layer, int b) \<mapsto> (kb, vb))) geo dt layer (int b, int ?n) (piece tpb hk b, piece tpb hv b)"
    using kb vb assms(12,13) by (simp add: block_holds_def)
  ultimately show ?thesis using w(2,3) by (intro exI [of _ "P((layer, int b) \<mapsto> (kb, vb))"] exI [of _ s']) simp
qed

lemma hist_loop_ok:
  fixes p :: "('s, 'm) provider_scheme"
  assumes "inv P (sp_backend p)" "calm (sp_backend p)" "sp_tpb p = tpb" "sp_kv_heads p = int hn" "sp_head_dim p = int dn"
    and "kv4_ok hn dn td k" "kv4_ok hn dn td v" "np_of td = Some dt" "rows_ok hn (dn * itemsize dt) hk"
    and "rows_ok hn (dn * itemsize dt) hv" "length hv = length hk" "0 < tpb"
    and "\<forall>b\<in>set bs. b * tpb < length hk" "distinct bs"
  shows "\<exists>P' s'. sfor (write_hist_block conv sv dt layer (k, v) (hk, hv)) bs acc p =
      (Inr (acc @ map (\<lambda>b. (int b, int (min tpb (length hk - b * tpb)))) bs), p\<lparr>sp_backend := s'\<rparr>) \<and> inv P' s' \<and> calm s' \<and>
    (\<forall>key. key \<notin> Pair layer ` int ` set bs \<longrightarrow> P' key = P key) \<and>
    (\<forall>b\<in>set bs. block_holds P' geo dt layer (int b, int (min tpb (length hk - b * tpb))) (piece tpb hk b, piece tpb hv b))"
  using assms(1-5,13,14)
proof (induction bs arbitrary: P p acc)
  case Nil
  show ?case by (rule exI [of _ P], rule exI [of _ "sp_backend p"]) (use Nil in simp)
next
  case (Cons b bs)
  let ?w = "write_hist_block conv sv dt layer (k, v) (hk, hv)" and ?c = "\<lambda>b. (int b, int (min tpb (length hk - b * tpb)))"
  let ?holds = "\<lambda>P b. block_holds P geo dt layer (?c b) (piece tpb hk b, piece tpb hv b)"
  have b: "b * tpb < length hk" "b \<notin> set bs" using Cons.prems(6,7) by simp_all
  obtain P1 s1 where one: "?w b acc p = (Inr (acc @ [?c b]), p\<lparr>sp_backend := s1\<rparr>)" "inv P1 s1" "calm s1"
    "\<forall>key. key \<noteq> (layer, int b) \<longrightarrow> P1 key = P key" "?holds P1 b"
    using write_hist_ok [OF Cons.prems(1-5) assms(6-11) b(1) assms(12), of conv layer acc] by blast
  let ?p = "p\<lparr>sp_backend := s1\<rparr>"
  have "\<exists>P' s'. sfor ?w bs (acc @ [?c b]) ?p = (Inr ((acc @ [?c b]) @ map ?c bs), ?p\<lparr>sp_backend := s'\<rparr>) \<and> inv P' s' \<and> calm s' \<and>
      (\<forall>key. key \<notin> Pair layer ` int ` set bs \<longrightarrow> P' key = P1 key) \<and> (\<forall>b\<in>set bs. ?holds P' b)"
    by (rule Cons.IH) (use Cons.prems one(2,3) in simp_all)
  then obtain P2 s2 where two: "sfor ?w bs (acc @ [?c b]) ?p = (Inr ((acc @ [?c b]) @ map ?c bs), ?p\<lparr>sp_backend := s2\<rparr>)"
    "inv P2 s2" "calm s2" "\<forall>key. key \<notin> Pair layer ` int ` set bs \<longrightarrow> P2 key = P1 key" "\<forall>b\<in>set bs. ?holds P2 b"
    by blast
  have "(layer, int b) \<notin> Pair layer ` int ` set bs" using b(2) by auto
  then have "P2 (layer, int b) = P1 (layer, int b)" using two(4) by blast
  then have "?holds P2 b" using block_holds_mono [OF one(5)] by simp
  then show ?case using one(1,4) two
    by (intro exI [of _ P2] exI [of _ s2] conjI) (simp_all add: meth_run)
qed

lemma short_layer_ok:
  assumes "kv4_ok hn dn td k" "kv4_ok hn dn td v" "tokens4 v = tokens4 k" "np_of td = Some dt" "tokens4 k \<le> sink + rec"
  shows "layer_from P tpb hn dn dt td sink rec layer k v \<lparr>ls_sink_k = k, ls_sink_v = v, ls_recent_k = empty4 k,
    ls_recent_v = empty4 v, ls_cands = [], ls_total = tokens4 k\<rparr>"
  using assms
  by (auto simp: layer_from_def layer_holds_def same_kind_def kv4_ok_def empty4_def tokens4_def blocks_in_place_def intro: exI [of _ "[]"])

lemma init_layer_ok:
  fixes p :: "('s, 'm) provider_scheme"
  assumes "inv P (sp_backend p)" "calm (sp_backend p)" "sp_tpb p = tpb" "sp_kv_heads p = int hn" "sp_head_dim p = int dn"
    and "kv4_ok hn dn td k" "kv4_ok hn dn td v" "tokens4 v = tokens4 k" "np_of td = Some dt" "0 < tpb" "0 < sp_recent p"
  shows "\<exists>P' s' ls. init_layer conv sv dt (layer, k, v) () p =
      (Inr (), p\<lparr>sp_backend := s', sp_layers := dset layer ls (sp_layers p)\<rparr>) \<and> inv P' s' \<and> calm s' \<and>
    (\<forall>key. fst key \<noteq> layer \<longrightarrow> P' key = P key) \<and>
    layer_from P' tpb hn dn dt td (sp_sink p) (sp_recent p) layer k v ls"
proof (cases "tokens4 k \<le> sp_sink p + sp_recent p")
  case True
  let ?ls = "\<lparr>ls_sink_k = k, ls_sink_v = v, ls_recent_k = empty4 k, ls_recent_v = empty4 v, ls_cands = [], ls_total = tokens4 k\<rparr>"
  have "init_layer conv sv dt (layer, k, v) () p =
      (Inr (), p\<lparr>sp_backend := sp_backend p, sp_layers := dset layer ?ls (sp_layers p)\<rparr>)"
    using True by (simp add: init_layer_def Let_def)
  then show ?thesis using assms(1,2) short_layer_ok [OF assms(6-9) True] by blast
next
  case False
  let ?n = "tokens4 k" and ?s = "sp_sink p" and ?r = "sp_recent p"
  let ?hist = "\<lambda>t. drop ?s (take (?n - ?r) (q4_rows t))"
  let ?hk = "?hist k" and ?hv = "?hist v"
  let ?m = "(length ?hk + tpb - 1) div tpb" and ?c = "\<lambda>b. (int b, int (min tpb (length ?hk - b * tpb)))"
  have len: "length ?hv = length ?hk" using assms(8) by (simp add: tokens4_def)
  have ok: "rows_ok hn (dn * itemsize dt) (?hist t)" if "kv4_ok hn dn td t" for t
    using kv4_rows_ok [OF that assms(9)] by (rule rows_ok_sub) (auto dest: in_set_dropD in_set_takeD)
  have starts: "\<forall>b\<in>set [0..<?m]. b * tpb < length ?hk" using block_start [OF assms(10)] by simp
  obtain P' s' where run: "sfor (write_hist_block conv sv dt layer (k, v) (?hk, ?hv)) [0..<?m] [] p =
      (Inr ([] @ map ?c [0..<?m]), p\<lparr>sp_backend := s'\<rparr>)" "inv P' s'" "calm s'"
    "\<forall>key. key \<notin> Pair layer ` int ` set [0..<?m] \<longrightarrow> P' key = P key"
    "\<forall>b\<in>set [0..<?m]. block_holds P' geo dt layer (?c b) (piece tpb ?hk b, piece tpb ?hv b)"
    using hist_loop_ok [OF assms(1-7,9) ok [OF assms(6)] ok [OF assms(7)] len assms(10) starts distinct_upt, of conv layer "[]"]
    by blast
  let ?parts = "map (\<lambda>b. (piece tpb ?hk b, piece tpb ?hv b)) [0..<?m]"
  let ?ls = "\<lparr>ls_sink_k = first_tokens ?s k, ls_sink_v = first_tokens ?s v, ls_recent_k = last_tokens ?r k,
    ls_recent_v = last_tokens ?r v, ls_cands = map ?c [0..<?m], ls_total = ?n\<rparr>"
  have "offload_history conv sv dt layer (k, v) p = (Inr (map ?c [0..<?m]), p\<lparr>sp_backend := s'\<rparr>)"
    using run(1) assms(3,6,7,9,10) by (simp add: offload_history_def Let_def kv4_ok_def)
  then have step: "init_layer conv sv dt (layer, k, v) () p =
      (Inr (), p\<lparr>sp_backend := s', sp_layers := dset layer ?ls (sp_layers p)\<rparr>)"
    using False by (simp add: init_layer_def Let_def meth_run)
  have "list_all2 (block_holds P' geo dt layer) (map ?c [0..<?m]) ?parts"
    using run(5) by (simp add: list_all2_map1 list_all2_map2 list_all2_same)
  moreover have "sorted_wrt (<) (map fst (map ?c [0..<?m]))" by (simp add: comp_def sorted_wrt_map)
  ultimately have holds: "layer_holds P' tpb hn dn dt td layer ?ls ?parts"
    using assms(6,7,9) by (simp add: layer_holds_def same_kind_def kv4_ok_def first_tokens_def last_tokens_def)
  have cover: "concat (map fst ?parts) = ?hk" "concat (map snd ?parts) = ?hv"
    using pieces_cover [OF assms(10), of ?hk] pieces_cover [OF assms(10), of ?hv]
    unfolding map_map comp_def fst_conv snd_conv len by simp_all
  have whole: "take ?s xs @ drop ?s (take (?n - ?r) xs) @ drop (?n - ?r) xs = xs" if "length xs = ?n" for xs :: "kv_row list"
  proof -
    have "?s \<le> ?n - ?r" using False by simp
    then have "take ?s xs = take ?s (take (?n - ?r) xs)" by simp
    then show ?thesis by (metis append_assoc append_take_drop_id)
  qed
  have n: "length (q4_rows k) = ?n" "length (q4_rows v) = ?n" using assms(8) by (simp_all add: tokens4_def)
  have rows: "q4_rows (ls_sink_k ?ls) = take ?s (q4_rows k)" "q4_rows (ls_sink_v ?ls) = take ?s (q4_rows v)"
    "q4_rows (ls_recent_k ?ls) = drop (?n - ?r) (q4_rows k)" "q4_rows (ls_recent_v ?ls) = drop (?n - ?r) (q4_rows v)"
    using assms(8,11) by (simp_all add: first_tokens_def last_tokens_def)
  have whole_k: "q4_rows (ls_sink_k ?ls) @ concat (map fst ?parts) @ q4_rows (ls_recent_k ?ls) = q4_rows k"
    unfolding rows cover using whole [OF n(1)] .
  have whole_v: "q4_rows (ls_sink_v ?ls) @ concat (map snd ?parts) @ q4_rows (ls_recent_v ?ls) = q4_rows v"
    unfolding rows cover using whole [OF n(2)] .
  have toks: "tokens4 (ls_sink_k ?ls) = ?s" "tokens4 (ls_sink_v ?ls) = ?s" "tokens4 (ls_recent_k ?ls) = ?r"
    "tokens4 (ls_recent_v ?ls) = ?r"
    using False assms(8,11) by (simp_all add: tokens_first tokens_last)
  have pieces: "\<forall>(a, b)\<in>set ?parts. length a = length b"
    using assms(8) by (simp add: length_piece tokens4_def)
  have placed: "blocks_in_place tpb (ls_cands ?ls) ?parts"
    unfolding layer_state.select_convs by (rule pieces_in_place [OF assms(10)])
  have "layer_from P' tpb hn dn dt td ?s ?r layer k v ?ls"
    by (rule layer_fromI [OF False holds pieces placed _ toks whole_k whole_v]) simp
  moreover have "P' key = P key" if "fst key \<noteq> layer" for key using run(4) that by (cases key) auto
  ultimately show ?thesis using step run(2,3) by blast
qed

lemma init_layers_ok:
  fixes p :: "('s, 'm) provider_scheme"
  assumes "inv P (sp_backend p)" "calm (sp_backend p)" "sp_tpb p = tpb" "sp_kv_heads p = int hn" "sp_head_dim p = int dn"
    and "np_of td = Some dt" "0 < tpb" "0 < sp_recent p" "dict_ok layers"
    and "\<forall>(l, k, v)\<in>set layers. kv4_ok hn dn td k \<and> kv4_ok hn dn td v \<and> tokens4 v = tokens4 k"
  shows "\<exists>P' s' L. sfor (init_layer conv sv dt) layers () p = (Inr (), p\<lparr>sp_backend := s', sp_layers := L\<rparr>) \<and>
    inv P' s' \<and> calm s' \<and> (\<forall>key. fst key \<notin> set (dkeys layers) \<longrightarrow> P' key = P key) \<and>
    (\<forall>l. l \<notin> set (dkeys layers) \<longrightarrow> dget L l = dget (sp_layers p) l) \<and>
    (\<forall>(l, k, v)\<in>set layers. \<exists>ls. dget L l = Some ls \<and> layer_from P' tpb hn dn dt td (sp_sink p) (sp_recent p) l k v ls)"
  using assms(1-5,8-10)
proof (induction layers arbitrary: P p)
  case Nil
  show ?case by (rule exI [of _ P], rule exI [of _ "sp_backend p"], rule exI [of _ "sp_layers p"]) (use Nil in simp)
next
  case (Cons x layers)
  obtain l k v where x: "x = (l, k, v)" by (cases x)
  have kv: "kv4_ok hn dn td k" "kv4_ok hn dn td v" "tokens4 v = tokens4 k" and l: "l \<notin> set (dkeys layers)"
    using Cons.prems(7,8) x by (simp_all add: dict_ok_def)
  let ?from = "\<lambda>P l k v. layer_from P tpb hn dn dt td (sp_sink p) (sp_recent p) l k v"
  obtain P1 s1 ls where one: "init_layer conv sv dt (l, k, v) () p = (Inr (), p\<lparr>sp_backend := s1, sp_layers := dset l ls (sp_layers p)\<rparr>)"
    "inv P1 s1" "calm s1" "\<forall>key. fst key \<noteq> l \<longrightarrow> P1 key = P key" "?from P1 l k v ls"
    using init_layer_ok [OF Cons.prems(1-5) kv assms(6,7) Cons.prems(6), of conv l] by blast
  let ?p = "p\<lparr>sp_backend := s1, sp_layers := dset l ls (sp_layers p)\<rparr>"
  have "\<exists>P' s' L. sfor (init_layer conv sv dt) layers () ?p = (Inr (), ?p\<lparr>sp_backend := s', sp_layers := L\<rparr>) \<and>
    inv P' s' \<and> calm s' \<and> (\<forall>key. fst key \<notin> set (dkeys layers) \<longrightarrow> P' key = P1 key) \<and>
    (\<forall>l. l \<notin> set (dkeys layers) \<longrightarrow> dget L l = dget (sp_layers ?p) l) \<and>
    (\<forall>(l, k, v)\<in>set layers. \<exists>ls. dget L l = Some ls \<and> layer_from P' tpb hn dn dt td (sp_sink ?p) (sp_recent ?p) l k v ls)"
    by (rule Cons.IH) (use Cons.prems one(2,3) in \<open>simp_all add: dict_ok_def\<close>)
  then obtain P2 s2 L where two: "sfor (init_layer conv sv dt) layers () ?p = (Inr (), ?p\<lparr>sp_backend := s2, sp_layers := L\<rparr>)"
    "inv P2 s2" "calm s2" "\<forall>key. fst key \<notin> set (dkeys layers) \<longrightarrow> P2 key = P1 key"
    "\<forall>l. l \<notin> set (dkeys layers) \<longrightarrow> dget L l = dget (sp_layers ?p) l"
    "\<forall>(l, k, v)\<in>set layers. \<exists>ls. dget L l = Some ls \<and> ?from P2 l k v ls"
    by simp blast
  have "?from P2 l k v ls" by (rule layer_from_mono [OF one(5)]) (use two(4) l in simp)
  moreover have "dget L l = Some ls" using two(5) l by (simp add: dict_simps)
  ultimately have all: "\<forall>(l, k, v)\<in>set (x # layers). \<exists>ls. dget L l = Some ls \<and> ?from P2 l k v ls"
    using two(6) x by simp
  have frame: "P2 key = P key" if "fst key \<notin> set (dkeys (x # layers))" for key
    using that two(4) one(4) by (cases key) (simp add: x)
  have other: "dget L l' = dget (sp_layers p) l'" if "l' \<notin> set (dkeys (x # layers))" for l'
    using that two(5) by (simp add: x dict_simps)
  have "sfor (init_layer conv sv dt) (x # layers) () p = (Inr (), p\<lparr>sp_backend := s2, sp_layers := L\<rparr>)"
    using one(1) two(1) by (simp add: x meth_run)
  then show ?case using two(2,3) all frame other by blast
qed

lemma prefill_ok:
  fixes p :: "('s, 'm) provider_scheme"
  assumes "inv P (sp_backend p)" "calm (sp_backend p)" "sp_tpb p = tpb" "np_of td = Some dt" "0 < tpb" "0 < sp_recent p"
    and "past_layers x = Inr layers" "dict_ok layers" "(l, k, v) \<in> set layers"
    and "\<forall>(l, k, v)\<in>set layers. kv4_ok hn dn td k \<and> kv4_ok hn dn td v \<and> tokens4 v = tokens4 k"
  shows "\<exists>P' p' ls. sp_init_from_prefill conv sv x p = (Inr (), p') \<and> inv P' (sp_backend p') \<and>
    sp_kv_heads p' = int hn \<and> sp_head_dim p' = int dn \<and> sp_pct p' = sp_pct p \<and> sp_gqa p' = sp_gqa p \<and> sp_tpb p' = tpb \<and>
    provider.more p' = provider.more p \<and> sp_sink p' = sp_sink p \<and>
    dget (sp_layers p') l = Some ls \<and> layer_from P' tpb hn dn dt td (sp_sink p) (sp_recent p) l k v ls"
proof -
  let ?p = "case past_count x of None \<Rightarrow> p | Some n \<Rightarrow> p\<lparr>sp_num_layers := n\<rparr>"
  let ?k0 = "fst (snd (layers ! 0))"
  let ?q = "set_geometry ?k0 ?p"
  have "layers ! 0 \<in> set layers" using assms(9) by (cases layers) auto
  then have k0: "kv4_ok hn dn td ?k0" using bspec [OF assms(10)] by (metis (no_types, lifting) case_prod_beta)
  have dt: "(if half_bits (q4_dtype ?k0) then Float16 else Float32) = dt"
    using k0 assms(4) by (cases td) (auto simp: kv4_ok_def half_bits_def)
  have q: "sp_backend ?q = sp_backend p" "sp_tpb ?q = tpb" "sp_kv_heads ?q = int hn" "sp_head_dim ?q = int dn"
    "sp_recent ?q = sp_recent p" "sp_sink ?q = sp_sink p" "sp_pct ?q = sp_pct p" "sp_gqa ?q = sp_gqa p"
    "provider.more ?q = provider.more p"
    using k0 assms(3) by (simp_all add: set_geometry_def Let_def kv4_ok_def split: option.split)
  obtain P' s' L where run: "sfor (init_layer conv sv dt) layers () ?q = (Inr (), ?q\<lparr>sp_backend := s', sp_layers := L\<rparr>)"
    "inv P' s'" "\<forall>(l, k, v)\<in>set layers. \<exists>ls. dget L l = Some ls \<and>
       layer_from P' tpb hn dn dt td (sp_sink ?q) (sp_recent ?q) l k v ls"
    using init_layers_ok [of P ?q td layers conv] assms q by auto
  obtain ls where ls: "dget L l = Some ls" "layer_from P' tpb hn dn dt td (sp_sink p) (sp_recent p) l k v ls"
    using run(3) assms(9) q by fastforce
  let ?r = "?q\<lparr>sp_backend := s', sp_layers := L, sp_active := True\<rparr>"
  have "sp_init_from_prefill conv sv x p = (Inr (), ?r)"
    using run(1) by (simp add: sp_init_from_prefill_def assms(7) Let_def dt meth_run(2) [of "sfor _ _ _"])
  then show ?thesis using run(2) ls q by (intro exI [of _ P'] exI [of _ ?r] exI [of _ ls]) simp
qed

end

section \<open>Scores\<close>

lemma map_res_total:
  assumes "\<forall>x\<in>set xs. \<exists>y. f x = Inr y \<and> g y = h x"
  shows "\<exists>ys. map_res f xs = Inr ys \<and> map g ys = map h xs"
  using assms by (induction xs) auto

lemma dot_rows_ok:
  assumes "page_fits [n, h, d] dt t" "query_ready h d r q"
  shows "\<exists>rows. dot_rows decode q scale (length q) r t = Inr rows \<and> length rows = n \<and> (\<forall>row\<in>set rows. row \<noteq> [])"
proof -
  have "int i div r < int h \<and> 0 \<le> int i div r" if "i < length q" for i
  proof -
    have "int i div r \<le> (int (length q) - 1) div r" using assms(2) that by (intro zdiv_mono1) (auto simp: query_ready_def)
    then show ?thesis using assms(2) by (simp add: query_ready_def pos_imp_zdiv_nonneg_iff)
  qed
  then have "\<not> (\<exists>i\<in>set [0..<length q]. \<not> (- int h \<le> int i div r \<and> int i div r < int h))" by fastforce
  then show ?thesis using assms by (auto simp: dot_rows_def page_fits_def query_ready_def Let_def)
qed

lemma score_ok:
  assumes "page_fits [n, h, d] dt t" "query_ready h d r q" "0 < n" "0 < snd c"
  shows "\<exists>s. score_block decode q scale (length q) r (t, c) = Inr (s, c)"
proof -
  obtain rows where rows: "dot_rows decode q scale (length q) r t = Inr rows" "length rows = n" "\<forall>row\<in>set rows. row \<noteq> []"
    using dot_rows_ok [OF assms(1,2)] by blast
  have "\<exists>x. x \<in> set (slice_to (snd c) rows)"
    using rows(2) assms(3,4) by (cases rows; cases "nat (snd c)") (auto simp: slice_to_def)
  then have "concat (slice_to (snd c) rows) \<noteq> []" using rows(3) assms(4) by (auto simp: slice_to_def dest: in_set_takeD)
  then obtain x xs where "concat (slice_to (snd c) rows) = x # xs" by (meson neq_Nil_conv)
  then show ?thesis using rows(1) by (cases c) (simp add: score_block_def max_dot_def)
qed

lemma chosen_select:
  assumes "map snd ss = cands" "distinct cands" "0 \<le> k"
  shows "chosen k cands (select_topk k ss)"
proof -
  obtain rest where m: "mset ss = mset (select_topk k ss) + mset rest" using select_topk_spec(3) [OF assms(3), of ss] by blast
  then have "mset cands = mset (map snd (select_topk k ss @ rest))" unfolding assms(1) [symmetric] by (metis mset_append mset_map)
  then have "distinct (map snd (select_topk k ss @ rest))" "set cands = set (map snd (select_topk k ss @ rest))"
    using assms(2) mset_eq_imp_distinct_iff mset_eq_setD by blast+
  moreover have "length ss = length cands" using assms(1) by (metis length_map)
  ultimately show ?thesis using select_topk_spec(2) [OF assms(3), of ss] by (simp add: chosen_def)
qed

lemma chosen_kernel:
  assumes "kernel_ok (Some kf)" "length ks = length cands" "distinct cands" "0 \<le> k"
  shows "chosen k cands (map (\<lambda>(idx, s). (s, cands ! idx)) (kf q ks (map snd cands) k))"
proof -
  let ?out = "kf q ks (map snd cands) k"
  have o: "distinct (map fst ?out)" "set (map fst ?out) \<subseteq> {..<length cands}" "length ?out = min (nat k) (length cands)"
    using assms(1) [unfolded kernel_ok_def, rule_format, OF refl, of "map snd cands" ks k q] assms(2,4) by simp_all
  have "map snd (map (\<lambda>(idx, s). (s, cands ! idx)) ?out) = map ((!) cands) (map fst ?out)" by (simp add: case_prod_beta)
  moreover have "distinct (map ((!) cands) (map fst ?out))"
    unfolding distinct_map [of "(!) cands"] using o(1,2) inj_on_nth [OF assms(3)] by blast
  moreover have "set (map ((!) cands) (map fst ?out)) \<subseteq> set cands" using o(2) by auto
  ultimately show ?thesis using o(3) unfolding chosen_def length_map by (simp only: simp_thms)
qed

lemma scored_ok:
  assumes "\<forall>t\<in>set ks. page_fits [n, h, d] dt t" "length ks = length cands" "distinct cands" "\<forall>c\<in>set cands. 0 < snd c"
    and "query_ready h d r q" "0 < n" "kernel_ok kern" "0 \<le> k"
  shows "\<exists>tops. (case kern of
       Some kf \<Rightarrow> Inr (map (\<lambda>(idx, s). (s, cands ! idx)) (kf q ks (map snd cands) k))
     | None \<Rightarrow> rbind (map_res (score_block decode q scale (length q) r) (zip ks cands)) (\<lambda>ss. Inr (select_topk k ss))) = Inr tops \<and>
    chosen k cands tops"
proof (cases kern)
  case None
  have "\<forall>x\<in>set (zip ks cands). \<exists>y. score_block decode q scale (length q) r x = Inr y \<and> snd y = snd x"
  proof
    fix x assume x: "x \<in> set (zip ks cands)"
    obtain t c where tc: "x = (t, c)" by (cases x)
    then have "page_fits [n, h, d] dt t" "0 < snd c" using x assms(1,4) by (auto dest: set_zip_leftD set_zip_rightD)
    then show "\<exists>y. score_block decode q scale (length q) r x = Inr y \<and> snd y = snd x"
      using score_ok [OF _ assms(5,6)] tc by fastforce
  qed
  from map_res_total [OF this] obtain ss where ss: "map_res (score_block decode q scale (length q) r) (zip ks cands) = Inr ss"
    "map snd ss = cands" using assms(2) by auto
  then show ?thesis using None chosen_select [OF ss(2) assms(3,8)] by simp
next
  case (Some kf)
  then show ?thesis using chosen_kernel assms by simp
qed

section \<open>Fetching\<close>

text \<open>What a call may change of a provider: its backend and its counters.\<close>

definition touched :: "('s, 'm) provider_scheme \<Rightarrow> ('s, 'm) provider_scheme \<Rightarrow> bool" where
  "touched p p' \<longleftrightarrow> (\<exists>s a b c d. p' = p\<lparr>sp_backend := s, sp_cand_k_bytes := a, sp_win_k_bytes := b, sp_win_v_bytes := c,
     sp_meta_bytes := d\<rparr>)"

lemma touchedI:
  "touched p (p\<lparr>sp_backend := s\<rparr>)" "touched p (p\<lparr>sp_cand_k_bytes := n\<rparr>)" "touched p (p\<lparr>sp_win_k_bytes := n\<rparr>)"
  "touched p (p\<lparr>sp_win_v_bytes := n\<rparr>)" "touched p (p\<lparr>sp_meta_bytes := n\<rparr>)"
  "touched p (p\<lparr>sp_win_v_bytes := n, sp_win_k_bytes := m\<rparr>)" "touched p p"
  unfolding touched_def by (cases p, force)+

lemma touched_trans: "touched p q \<Longrightarrow> touched q r \<Longrightarrow> touched p r"
  unfolding touched_def by force

lemma touched_same:
  assumes "touched p p'"
  shows "sp_layers p' = sp_layers p" "sp_kv_heads p' = sp_kv_heads p" "sp_head_dim p' = sp_head_dim p"
    "sp_gqa p' = sp_gqa p" "sp_pct p' = sp_pct p" "sp_tpb p' = sp_tpb p" "sp_sink p' = sp_sink p"
    "sp_recent p' = sp_recent p" "sp_compute p' = sp_compute p" "sp_async p' = sp_async p" "provider.more p' = provider.more p"
  using assms by (auto simp: touched_def)

text \<open>The pages of the winners, as stored.\<close>

definition pages_fetched :: "contents \<Rightarrow> int \<Rightarrow> scored list \<Rightarrow> (int, tensor list) dict \<Rightarrow> (tensor \<times> tensor \<Rightarrow> tensor) \<Rightarrow> bool" where
  "pages_fetched P layer tops d f \<longleftrightarrow> (\<forall>x\<in>set tops. pick_page 0 d (fst (snd x)) = Inr (f (the (P (layer, fst (snd x))))))"

lemma dget_map_val: "dget (map (\<lambda>(i, ts). (i, f ts)) d) k = map_option f (dget d k)"
  by (induction d) auto

context kv_serving
begin

lemma read_pages_ok:
  fixes p :: "('s, 'm) provider_scheme"
  assumes "inv P (sp_backend p)" "\<forall>i\<in>set ids. known P geo dt (layer, i)"
  shows "\<exists>d p'. read_pages sv pk layer ids p = (Inr d, p') \<and> inv P (sp_backend p') \<and> touched p p' \<and>
    (\<forall>i\<in>set ids. dget d i = Some (pages_of pk (the (P (layer, i)))))"
proof -
  obtain d s' where "po_batch (sv_pages sv) pk layer ids 0 0 (sp_backend p) = (Inr d, s')" "inv P s'"
    "\<forall>i\<in>set ids. dget d i = Some (pages_of pk (the (P (layer, i))))"
    using batch_law [OF assms] by blast
  then show ?thesis by (intro exI [of _ d] exI [of _ "p\<lparr>sp_backend := s'\<rparr>"]) (simp add: read_pages_def on_kv_def touchedI)
qed

lemma predict_next_ok:
  fixes p :: "('s, 'm) provider_scheme"
  assumes "inv P (sp_backend p)"
  shows "\<exists>p'. predict_next sv layer ids mode p = (Inr (), p') \<and> inv P (sp_backend p') \<and> touched p p'"
proof (cases "sv_prefetch sv")
  case (Some f)
  obtain s' where "f layer ids mode (sp_backend p) = (Inr (), s')" "inv P s'" using prefetch_law [OF Some assms] by blast
  then show ?thesis using assms touchedI [of p]
    by (cases "sp_prefetch p") (auto simp: predict_next_def Some on_kv_def)
qed (use assms touchedI [of p] in \<open>simp add: predict_next_def\<close>)

abbreviation served :: "contents \<Rightarrow> int \<Rightarrow> scored list \<Rightarrow> fetched \<Rightarrow> bool" where
  "served P layer tops f \<equiv> fst f = tops \<and> pages_fetched P layer tops (fst (snd f)) fst \<and> pages_fetched P layer tops (snd (snd f)) snd"

lemma winners_async_ok:
  fixes p :: "('s, 'm) provider_scheme"
  assumes "inv P (sp_backend p)" "\<forall>x\<in>set tops. known P geo dt (layer, fst (snd x))"
  shows "\<exists>f p'. fetch_winners_async sv layer tops p = (Inr f, p') \<and> inv P (sp_backend p') \<and> touched p p' \<and> served P layer tops f"
proof -
  let ?win = "map (\<lambda>x. fst (snd x)) tops"
  have kn: "\<forall>i\<in>set ?win. known P geo dt (layer, i)" using assms(2) by simp
  obtain d p1 where d: "read_pages sv WholeBlock layer ?win p = (Inr d, p1)" "inv P (sp_backend p1)" "touched p p1"
    "\<forall>i\<in>set ?win. dget d i = Some (pages_of WholeBlock (the (P (layer, i))))"
    using read_pages_ok [OF assms(1) kn] by blast
  have "\<forall>i\<in>set ?win. \<exists>y. pick_page 0 d i = Inr y \<and> True = True" using d(4) by (simp add: pick_page_def)
  then obtain ys where ys: "map_res (pick_page 0 d) ?win = Inr ys" using map_res_total [of ?win "pick_page 0 d" "\<lambda>_. True" "\<lambda>_. True"] by blast
  let ?n = "int (length ?win) * page_len p1"
  let ?p2 = "p1\<lparr>sp_win_v_bytes := sp_win_v_bytes p1 + ?n, sp_win_k_bytes := sp_win_k_bytes p1 + ?n\<rparr>"
  have "inv P (sp_backend ?p2)" using d(2) by simp
  from predict_next_ok [OF this, of layer ?win "Some True"] obtain p3 where p3: "predict_next sv layer ?win (Some True) ?p2 = (Inr (), p3)"
    "inv P (sp_backend p3)" "touched ?p2 p3" by blast
  let ?f = "(tops, map (\<lambda>(i, ts). (i, [ts ! 0])) d, map (\<lambda>(i, ts). (i, [ts ! 1])) d)"
  have "fetch_winners_async sv layer tops p = (Inr ?f, p3)"
    using d(1) ys p3(1) by (simp add: fetch_winners_async_def Let_def meth_run)
  moreover have "served P layer tops ?f"
    using d(4) by (simp add: pages_fetched_def pick_page_def dget_map_val)
  moreover have "touched p p3" using touched_trans [OF d(3) touched_trans [OF touchedI(6) p3(3)]] .
  ultimately show ?thesis using p3(2) by blast
qed

lemma winners_sync_ok:
  fixes p :: "('s, 'm) provider_scheme"
  assumes "inv P (sp_backend p)" "\<forall>x\<in>set tops. known P geo dt (layer, fst (snd x))"
  shows "\<exists>f p'. fetch_winners_sync sv layer tops p = (Inr f, p') \<and> inv P (sp_backend p') \<and> touched p p' \<and> served P layer tops f"
proof -
  let ?win = "map (\<lambda>x. fst (snd x)) tops"
  have kn: "\<forall>i\<in>set ?win. known P geo dt (layer, i)" using assms(2) by simp
  obtain p1 where p1: "predict_next sv layer ?win None p = (Inr (), p1)" "inv P (sp_backend p1)" "touched p p1"
    using predict_next_ok [OF assms(1)] by blast
  obtain vs p2 where v: "read_pages sv ValuePage layer ?win p1 = (Inr vs, p2)" "inv P (sp_backend p2)" "touched p1 p2"
    "\<forall>i\<in>set ?win. dget vs i = Some (pages_of ValuePage (the (P (layer, i))))"
    using read_pages_ok [OF p1(2) kn] by blast
  let ?p2 = "p2\<lparr>sp_win_v_bytes := sp_win_v_bytes p2 + int (length ?win) * page_len p2\<rparr>"
  have "inv P (sp_backend ?p2)" using v(2) by simp
  from read_pages_ok [OF this kn, of KeyPage] obtain ks p3 where k: "read_pages sv KeyPage layer ?win ?p2 = (Inr ks, p3)"
    "inv P (sp_backend p3)" "touched ?p2 p3" "\<forall>i\<in>set ?win. dget ks i = Some (pages_of KeyPage (the (P (layer, i))))"
    by blast
  let ?p3 = "p3\<lparr>sp_win_k_bytes := sp_win_k_bytes p3 + int (length ?win) * page_len p3\<rparr>"
  have "fetch_winners_sync sv layer tops p = (Inr (tops, ks, vs), ?p3)"
    using p1(1) v(1) k(1) by (simp add: fetch_winners_sync_def Let_def meth_run)
  moreover have "served P layer tops (tops, ks, vs)" using v(4) k(4) by (simp add: pages_fetched_def pick_page_def)
  moreover have "touched p ?p3"
    by (rule touched_trans [OF touched_trans [OF p1(3) v(3)] touched_trans [OF touchedI(4) touched_trans [OF k(3) touchedI(3)]]])
  moreover have "inv P (sp_backend ?p3)" using k(2) by simp
  ultimately show ?thesis by blast
qed

lemma in_storage_ok:
  fixes p :: "('s, 'm) provider_scheme"
  assumes "inv P (sp_backend p)" "sv_topk sv = Some g" "cands \<noteq> []" "distinct cands" "0 \<le> n" "0 < tpb" "sp_kv_heads p = int hn"
    and "\<forall>c\<in>set cands. 0 < snd c \<and> known P geo dt (layer, fst c)" "query_ready hn dn (int (length q) div int hn) q"
  shows "\<exists>f p' tops. fetch_in_storage sv g layer q scale n cands p = (Inr f, p') \<and> inv P (sp_backend p') \<and> touched p p' \<and>
    chosen n cands tops \<and> served P layer tops f"
proof -
  obtain tops s' where t: "g layer cands q n scale (length q) (int hn) (sp_backend p) = (Inr tops, s')" "inv P s'" "chosen n cands tops"
    using topk_law [OF assms(2,1,3-6,8,9)] by blast
  have kn: "\<forall>x\<in>set tops. known P geo dt (layer, fst (snd x))" using t(3) assms(8) by (auto simp: chosen_def)
  let ?p1 = "p\<lparr>sp_backend := s'\<rparr>"
  let ?p2 = "?p1\<lparr>sp_meta_bytes := sp_meta_bytes ?p1 + int (length tops) * 12\<rparr>"
  have i2: "inv P (sp_backend ?p2)" using t(2) by simp
  have t2: "touched p ?p2" by (rule touched_trans [OF touchedI(1) touchedI(5)])
  obtain f p3 where f: "(if sp_async p then fetch_winners_async sv layer tops else fetch_winners_sync sv layer tops) ?p2 = (Inr f, p3)"
    "inv P (sp_backend p3)" "touched ?p2 p3" "served P layer tops f"
    using winners_async_ok [OF i2 kn] winners_sync_ok [OF i2 kn] by (cases "sp_async p") (simp_all only: if_True if_False, blast+)
  have "fetch_in_storage sv g layer q scale n cands p = (Inr f, p3)"
    using t(1) f(1) assms(7) by (simp add: fetch_in_storage_def on_kv_def meth_run)
  then show ?thesis using f(2,4) t(3) touched_trans [OF t2 f(3)] by blast
qed

lemma on_host_ok:
  fixes p :: "('s, 'm) provider_scheme"
  assumes "inv P (sp_backend p)" "cands \<noteq> []" "distinct cands" "0 \<le> n" "0 < tpb" "kernel_ok kern"
    and "\<forall>c\<in>set cands. 0 < snd c \<and> known P geo dt (layer, fst c)" "query_ready hn dn (sp_gqa p) q"
  shows "\<exists>f p' tops. fetch_on_host decode kern sv layer q scale n cands p = (Inr f, p') \<and> inv P (sp_backend p') \<and> touched p p' \<and>
    chosen n cands tops \<and> served P layer tops f"
proof -
  let ?ids = "map fst cands"
  have kn: "\<forall>i\<in>set ?ids. known P geo dt (layer, i)" using assms(7) by simp
  obtain ks p1 where k: "read_pages sv KeyPage layer ?ids p = (Inr ks, p1)" "inv P (sp_backend p1)" "touched p p1"
    "\<forall>i\<in>set ?ids. dget ks i = Some (pages_of KeyPage (the (P (layer, i))))"
    using read_pages_ok [OF assms(1) kn] by blast
  have "\<forall>i\<in>set ?ids. \<exists>y. pick_page 0 ks i = Inr y \<and> y = fst (the (P (layer, i)))" using k(4) by (simp add: pick_page_def)
  from map_res_total [OF this] obtain kl where kl: "map_res (pick_page 0 ks) ?ids = Inr kl"
    "map (\<lambda>y. y) kl = map (\<lambda>i. fst (the (P (layer, i)))) ?ids" by blast
  have fits: "\<forall>t\<in>set kl. page_fits geo dt t" using kl(2) kn by (auto simp: known_def)
  have len: "length kl = length cands" using kl(2) by (metis length_map)
  let ?p2 = "p1\<lparr>sp_cand_k_bytes := sp_cand_k_bytes p1 + int (length cands) * page_len p1\<rparr>"
  have "kl ! 0 \<in> set kl" using len assms(2) by (cases kl) auto
  then have sh: "shape (kl ! 0) = geo" using fits by (simp add: page_fits_def)
  obtain tops where tops: "host_scores decode kern q scale (sp_gqa p) n cands kl = Inr tops" "chosen n cands tops"
    using scored_ok [OF fits len assms(3) _ assms(8,5,6,4), of decode scale] assms(7)
    by (cases kern) (auto simp: host_scores_def sh)
  have kt: "\<forall>x\<in>set tops. fst (snd x) \<in> set ?ids" using tops(2) by (auto simp: chosen_def)
  let ?win = "map (\<lambda>x. fst (snd x)) tops"
  have wn: "\<forall>i\<in>set ?win. known P geo dt (layer, i)" unfolding set_map [of "\<lambda>x. fst (snd x)"] using kt kn by blast
  have "inv P (sp_backend ?p2)" using k(2) by simp
  from predict_next_ok [OF this, of layer ?win None] obtain p3 where p3: "predict_next sv layer ?win None ?p2 = (Inr (), p3)"
    "inv P (sp_backend p3)" "touched ?p2 p3" by blast
  obtain vs p4 where v: "read_pages sv ValuePage layer ?win p3 = (Inr vs, p4)" "inv P (sp_backend p4)" "touched p3 p4"
    "\<forall>i\<in>set ?win. dget vs i = Some (pages_of ValuePage (the (P (layer, i))))"
    using read_pages_ok [OF p3(2) wn] by blast
  let ?p4 = "p4\<lparr>sp_win_v_bytes := sp_win_v_bytes p4 + int (length ?win) * page_len p4\<rparr>"
  have "fetch_on_host decode kern sv layer q scale n cands p = (Inr (tops, ks, vs), ?p4)"
    using k(1) kl(1) tops(1) p3(1) v(1) touched_same(4) [OF k(3)]
    by (simp add: fetch_on_host_def Let_def meth_run)
  moreover have "dget ks (fst (snd x)) = Some [fst (the (P (layer, fst (snd x))))]" if "x \<in> set tops" for x
    using bspec [OF k(4) bspec [OF kt that]] by simp
  then have "served P layer tops (tops, ks, vs)" using v(4) by (simp add: pages_fetched_def pick_page_def)
  moreover have "touched p ?p4"
    by (rule touched_trans [OF touched_trans [OF k(3) touchedI(2)] touched_trans [OF p3(3) touched_trans [OF v(3) touchedI(4)]]])
  moreover have "inv P (sp_backend ?p4)" using v(2) by simp
  ultimately show ?thesis using tops(2) by blast
qed

lemma fetch_selected_ok:
  fixes p :: "('s, 'm) provider_scheme"
  assumes "inv P (sp_backend p)" "distinct cands" "0 < tpb" "kernel_ok kern" "sp_kv_heads p = int hn"
    and "\<forall>c\<in>set cands. 0 < snd c \<and> known P geo dt (layer, fst c)"
    and "query_ready hn dn (sp_gqa p) q" "query_ready hn dn (int (length q) div int hn) q"
  shows "\<exists>f p' tops. fetch_selected decode kern sv layer q scale cands p = (Inr f, p') \<and> inv P (sp_backend p') \<and> touched p p' \<and>
    chosen (k_to_fetch (sp_pct p) (length cands)) cands tops \<and> served P layer tops f"
proof (cases "cands = []")
  case True
  then show ?thesis using assms(1)
    by (intro exI [of _ "([], [], [])"] exI [of _ p] exI [of _ "[]"])
      (simp add: fetch_selected_def Let_def touchedI chosen_def pages_fetched_def)
next
  case False
  let ?k = "k_to_fetch (sp_pct p) (length cands)"
  have k: "0 \<le> ?k" by (simp add: k_to_fetch_def)
  show ?thesis
  proof (cases "sp_compute p \<and> sv_topk sv \<noteq> None")
    case True
    then obtain g where g: "sv_topk sv = Some g" by blast
    then have "fetch_selected decode kern sv layer q scale cands p = fetch_in_storage sv g layer q scale ?k cands p"
      using False True by (simp add: fetch_selected_def Let_def)
    then show ?thesis using in_storage_ok [OF assms(1) g False assms(2) k assms(3,5,6,8)] by simp
  next
    case no: False
    then have "fetch_selected decode kern sv layer q scale cands p = fetch_on_host decode kern sv layer q scale ?k cands p"
      using False by (auto simp: fetch_selected_def Let_def split: bool.split)
    then show ?thesis using on_host_ok [OF assms(1) False assms(2) k assms(3,4,6,7)] by simp
  qed
qed

end

lemma map_res_rel:
  assumes "list_all2 (\<lambda>x y. \<exists>t. f x = Inr t \<and> g t = h y \<and> Q t) xs ys"
  shows "\<exists>ts. map_res f xs = Inr ts \<and> map g ts = map h ys \<and> (\<forall>t\<in>set ts. Q t)"
  using assms by (induction rule: list_all2_induct) auto

lemma rebuild_page:
  assumes "pages_fetched P layer tops d sel" "x \<in> set tops" "P (layer, fst (snd x)) = Some kv" "page_fits [n, h, w] dt (sel kv)"
    and "np_of td = Some dt"
  shows "\<exists>t. rebuild tconv td d x = Inr t \<and> q4_rows t = slice_to (snd (snd x)) (page_rows (sel kv)) \<and> same_kind h w td t"
proof -
  have "pick_page 0 d (fst (snd x)) = Inr (sel kv)" using assms(1-3) by (auto simp: pages_fetched_def)
  then show ?thesis using page_tensor_ok [OF assms(4,5)] by (simp add: rebuild_def same_kind_def)
qed

lemma rebuild_both_ok:
  assumes "fst f = tops" "pages_fetched P layer tops (fst (snd f)) fst" "pages_fetched P layer tops (snd (snd f)) snd"
    and "chosen k (ls_cands ls) tops" "layer_holds P n h w dt td layer ls parts"
  shows "\<exists>S kl vl. rebuild_both tconv td f = Inr (kl, vl) \<and> map q4_rows kl = map fst (nths parts S) \<and>
    map q4_rows vl = map snd (nths parts S) \<and> (\<forall>t\<in>set kl \<union> set vl. same_kind h w td t) \<and>
    length (nths parts S) = min (nat k) (length parts)"
proof -
  have holds: "np_of td = Some dt" "list_all2 (block_holds P [n, h, w] dt layer) (ls_cands ls) parts"
    "sorted_wrt (<) (map fst (ls_cands ls))"
    using assms(5) by (simp_all add: layer_holds_def)
  let ?xs = "sort_key (\<lambda>x. fst (snd x)) tops"
  obtain S where S: "map snd ?xs = nths (ls_cands ls) S" using winners_in_order [OF assms(4) holds(3)] by blast
  have two: "list_all2 (\<lambda>x. block_holds P [n, h, w] dt layer (snd x)) ?xs (nths parts S)"
    using list_all2_nths [OF holds(2), of S] by (simp add: list_all2_map1 flip: S)
  have K: "list_all2 (\<lambda>x y. \<exists>t. rebuild tconv td (fst (snd f)) x = Inr t \<and> q4_rows t = fst y \<and> same_kind h w td t) ?xs (nths parts S)"
    using two
  proof (rule list.rel_mono_strong)
    fix x kv assume x: "x \<in> set ?xs" "block_holds P [n, h, w] dt layer (snd x) kv"
    then obtain kb vb where b: "P (layer, fst (snd x)) = Some (kb, vb)" "page_fits [n, h, w] dt kb"
      "slice_to (snd (snd x)) (page_rows kb) = fst kv" by (auto simp: block_holds_def)
    show "\<exists>t. rebuild tconv td (fst (snd f)) x = Inr t \<and> q4_rows t = fst kv \<and> same_kind h w td t"
      using rebuild_page [OF assms(2) _ b(1) _ holds(1), of n h w tconv] x(1) b(2,3) by simp
  qed
  have V: "list_all2 (\<lambda>x y. \<exists>t. rebuild tconv td (snd (snd f)) x = Inr t \<and> q4_rows t = snd y \<and> same_kind h w td t) ?xs (nths parts S)"
    using two
  proof (rule list.rel_mono_strong)
    fix x kv assume x: "x \<in> set ?xs" "block_holds P [n, h, w] dt layer (snd x) kv"
    then obtain kb vb where b: "P (layer, fst (snd x)) = Some (kb, vb)" "page_fits [n, h, w] dt vb"
      "slice_to (snd (snd x)) (page_rows vb) = snd kv" by (auto simp: block_holds_def)
    show "\<exists>t. rebuild tconv td (snd (snd f)) x = Inr t \<and> q4_rows t = snd kv \<and> same_kind h w td t"
      using rebuild_page [OF assms(3) _ b(1) _ holds(1), of n h w tconv] x(1) b(2,3) by simp
  qed
  obtain kl where kl: "map_res (rebuild tconv td (fst (snd f))) ?xs = Inr kl" "map q4_rows kl = map fst (nths parts S)"
    "\<forall>t\<in>set kl. same_kind h w td t" using map_res_rel [OF K] by blast
  obtain vl where vl: "map_res (rebuild tconv td (snd (snd f))) ?xs = Inr vl" "map q4_rows vl = map snd (nths parts S)"
    "\<forall>t\<in>set vl. same_kind h w td t" using map_res_rel [OF V] by blast
  have "length (nths parts S) = length tops" using list_all2_lengthD [OF two] by simp
  then have "length (nths parts S) = min (nat k) (length parts)"
    using assms(4) list_all2_lengthD [OF holds(2)] by (simp add: chosen_def)
  moreover have "rebuild_both tconv td f = Inr (kl, vl)"
    using kl(1) vl(1) assms(1) by (cases f) (simp add: rebuild_both_def Let_def)
  ultimately show ?thesis using kl vl by blast
qed

section \<open>What attention is handed\<close>

text \<open>
  Keys and values at the same positions \<open>I\<close> of the prompt, in order; the first \<open>sink\<close> and the last
  \<open>rec\<close> tokens are among them.
\<close>

definition attends :: "nat \<Rightarrow> nat \<Rightarrow> kv4 \<Rightarrow> kv4 \<Rightarrow> nat set \<Rightarrow> kv4 \<times> kv4 \<Rightarrow> bool" where
  "attends sink rec k v I kv \<longleftrightarrow> q4_rows (fst kv) = nths (q4_rows k) I \<and> q4_rows (snd kv) = nths (q4_rows v) I \<and>
     {..<sink} \<inter> {..<tokens4 k} \<subseteq> I \<and> {tokens4 k - rec..<tokens4 k} \<subseteq> I"

lemma same_kind_fits: "same_kind h d td t \<Longrightarrow> same_kind h d td u \<Longrightarrow> fits4 t u"
  by (simp add: same_kind_def fits4_def)

lemma cat4_ok:
  assumes "\<forall>t\<in>set (a # ts @ [b]). same_kind h d td t"
  shows "cat4 ([a] @ ts @ [b]) = Inr (a\<lparr>q4_rows := q4_rows a @ concat (map q4_rows ts) @ q4_rows b\<rparr>)"
  using assms same_kind_fits by auto

lemma nths_bounded:
  assumes "\<And>i. i < length xs \<Longrightarrow> (i \<in> A) = (i \<in> B)"
  shows "nths xs A = nths xs B"
  unfolding nths_def by (intro arg_cong [of _ _ "map fst"] filter_cong refl) (use assms in \<open>auto dest: set_zip_rightD\<close>)

definition sandwich :: "nat \<Rightarrow> nat \<Rightarrow> nat set \<Rightarrow> nat set" where
  "sandwich a b J = {i. i < a \<or> a + b \<le> i \<or> i - a \<in> J}"

lemma nths_sandwich:
  assumes "length xs = a" "length ys = b"
  shows "nths (xs @ ys @ zs) (sandwich a b J) = xs @ nths ys J @ zs"
proof -
  have x: "nths xs (sandwich a b J) = xs" by (rule nths_all) (simp add: sandwich_def assms)
  have y: "nths ys {j. j + a \<in> sandwich a b J} = nths ys J"
    by (rule nths_bounded) (simp add: sandwich_def assms)
  have z: "nths zs {j. j + b \<in> {j. j + a \<in> sandwich a b J}} = zs" by (rule nths_all) (simp add: sandwich_def)
  show ?thesis by (simp only: nths_append assms x y z)
qed

context kv_serving
begin

lemma select_ok:
  fixes p :: "('s, 'm) provider_scheme"
  assumes "inv P (sp_backend p)" "sp_kv_heads p = int hn" "sp_head_dim p = int dn" "0 < dn" "0 < tpb" "kernel_ok kern"
    and "dget (sp_layers p) l = Some ls" "layer_holds P tpb hn dn dt td l ls parts"
    and "query_ready hn dn (sp_gqa p) q" "query_ready hn dn (int (length q) div int hn) q"
  shows "\<exists>ak av p' S. sp_select_and_fetch decode kern tconv sv l (Some q) p = (Inr (ak, av), p') \<and> inv P (sp_backend p') \<and>
    touched p p' \<and> length (nths parts S) = min (nat (k_to_fetch (sp_pct p) (length parts))) (length parts) \<and>
    q4_rows ak = q4_rows (ls_sink_k ls) @ concat (map fst (nths parts S)) @ q4_rows (ls_recent_k ls) \<and>
    q4_rows av = q4_rows (ls_sink_v ls) @ concat (map snd (nths parts S)) @ q4_rows (ls_recent_v ls)"
proof -
  have lh: "np_of td = Some dt" "list_all2 (block_holds P geo dt l) (ls_cands ls) parts" "sorted_wrt (<) (map fst (ls_cands ls))"
    "same_kind hn dn td (ls_sink_k ls)" "same_kind hn dn td (ls_sink_v ls)" "same_kind hn dn td (ls_recent_k ls)"
    "same_kind hn dn td (ls_recent_v ls)" using assms(8) by (simp_all add: layer_holds_def)
  have dis: "distinct (ls_cands ls)" using lh(3) by (simp add: strict_sorted_iff distinct_map)
  have cands: "\<forall>c\<in>set (ls_cands ls). 0 < snd c \<and> known P geo dt (l, fst c)"
  proof
    fix c assume "c \<in> set (ls_cands ls)"
    then obtain kv where "block_holds P geo dt l c kv" using lh(2) by (metis in_set_conv_nth list_all2_conv_all_nth)
    then show "0 < snd c \<and> known P geo dt (l, fst c)" using block_holds_known by (auto simp: block_holds_def)
  qed
  have len: "length (ls_cands ls) = length parts" using list_all2_lengthD [OF lh(2)] .
  let ?scale = "1 / sqrt (of_int (int dn))"
  obtain f p' tops where f: "fetch_selected decode kern sv l q ?scale (ls_cands ls) p = (Inr f, p')" "inv P (sp_backend p')"
    "touched p p'" "chosen (k_to_fetch (sp_pct p) (length parts)) (ls_cands ls) tops" "fst f = tops"
    "pages_fetched P l tops (fst (snd f)) fst" "pages_fetched P l tops (snd (snd f)) snd"
    using fetch_selected_ok [OF assms(1) dis assms(5,6,2) cands assms(9,10)] len by metis
  obtain S kl vl where r: "rebuild_both tconv td f = Inr (kl, vl)" "map q4_rows kl = map fst (nths parts S)"
    "map q4_rows vl = map snd (nths parts S)" "\<forall>t\<in>set kl \<union> set vl. same_kind hn dn td t"
    "length (nths parts S) = min (nat (k_to_fetch (sp_pct p) (length parts))) (length parts)"
    using rebuild_both_ok [OF f(5-7,4) assms(8), of tconv] by blast
  have td: "q4_dtype (ls_sink_k ls) = td" using lh(4) by (simp add: same_kind_def)
  have ck: "cat4 ([ls_sink_k ls] @ kl @ [ls_recent_k ls]) =
      Inr ((ls_sink_k ls)\<lparr>q4_rows := q4_rows (ls_sink_k ls) @ concat (map fst (nths parts S)) @ q4_rows (ls_recent_k ls)\<rparr>)"
    unfolding r(2) [symmetric] by (rule cat4_ok) (use lh r(4) in auto)
  have cv: "cat4 ([ls_sink_v ls] @ vl @ [ls_recent_v ls]) =
      Inr ((ls_sink_v ls)\<lparr>q4_rows := q4_rows (ls_sink_v ls) @ concat (map snd (nths parts S)) @ q4_rows (ls_recent_v ls)\<rparr>)"
    unfolding r(3) [symmetric] by (rule cat4_ok) (use lh r(4) in auto)
  have "sp_select_and_fetch decode kern tconv sv l (Some q) p =
      (Inr ((ls_sink_k ls)\<lparr>q4_rows := q4_rows (ls_sink_k ls) @ concat (map fst (nths parts S)) @ q4_rows (ls_recent_k ls)\<rparr>,
            (ls_sink_v ls)\<lparr>q4_rows := q4_rows (ls_sink_v ls) @ concat (map snd (nths parts S)) @ q4_rows (ls_recent_v ls)\<rparr>), p')"
    using f(1) r(1) ck cv assms(3,4,7) td by (simp add: sp_select_and_fetch_def meth_run del: cat4.simps)
  then show ?thesis using f(2,3) r(5) by fastforce
qed

end

end
