(* ===== verification/StateProperties.thy ===== *)
theory StateProperties
  imports StateCoherence
begin

text \<open>
  The inference backend and the prefetch adapter as backends of the state providers, and the
  properties of the providers over them.
\<close>

section \<open>Positions\<close>

lemma nths_full:
  assumes "length (nths xs S) = length xs"
  shows "nths xs S = xs"
proof -
  have "card {i. i < length xs \<and> i \<in> S} = card {..<length xs}" using assms by (simp add: length_nths)
  moreover have "{i. i < length xs \<and> i \<in> S} \<subseteq> {..<length xs}" by auto
  ultimately have "{i. i < length xs \<and> i \<in> S} = {..<length xs}" by (intro card_subset_eq) simp_all
  then show ?thesis by (intro nths_all) blast
qed

lemma k_to_fetch_all: "100 \<le> pct \<Longrightarrow> int n \<le> k_to_fetch pct n"
proof -
  assume "100 \<le> pct"
  then have "of_nat n * 1 \<le> of_nat n * (pct / 100)" by (intro mult_left_mono) simp_all
  then have "of_int (int n) \<le> of_nat n * (pct / 100)" by simp
  then show ?thesis unfolding k_to_fetch_def by (metis ceiling_mono ceiling_of_int max.coboundedI2)
qed

lemma sandwich_covers:
  "n = a + b + c \<Longrightarrow> min sink n \<le> a \<Longrightarrow> n \<le> a \<or> rec \<le> c \<Longrightarrow>
   {..<sink} \<inter> {..<n} \<subseteq> sandwich a b J \<and> {n - rec..<n} \<subseteq> sandwich a b J"
  by (auto simp: sandwich_def)

lemma attends_parts:
  assumes "q4_rows (fst kv) = sk @ concat (map fst (nths parts S)) @ rk" "q4_rows (snd kv) = sv @ concat (map snd (nths parts S)) @ rv"
    and "q4_rows k = sk @ concat (map fst parts) @ rk" "q4_rows v = sv @ concat (map snd parts) @ rv"
    and "length sv = length sk" "\<forall>(a, b)\<in>set parts. length a = length b"
    and "min sink (tokens4 k) \<le> length sk" "tokens4 k \<le> length sk \<or> rec \<le> length rk"
  shows "\<exists>I. attends sink rec k v I kv"
proof -
  obtain J where J: "concat (map fst (nths parts S)) = nths (concat (map fst parts)) J"
    "concat (map snd (nths parts S)) = nths (concat (map snd parts)) J"
    using nths_concat [OF assms(6)] by blast
  have "map length (map fst parts) = map length (map snd parts)" using assms(6) by (auto simp: case_prod_beta)
  then have len: "length (concat (map snd parts)) = length (concat (map fst parts))" by (simp only: length_concat)
  let ?I = "sandwich (length sk) (length (concat (map fst parts))) J"
  have "q4_rows (fst kv) = nths (q4_rows k) ?I" unfolding assms(1,3) J(1) nths_sandwich [OF refl refl] ..
  moreover have "q4_rows (snd kv) = nths (q4_rows v) ?I" unfolding assms(2,4) J(2) nths_sandwich [OF assms(5) len] ..
  moreover have "tokens4 k = length sk + length (concat (map fst parts)) + length rk" by (simp add: tokens4_def assms(3))
  then have "{..<sink} \<inter> {..<tokens4 k} \<subseteq> ?I" "{tokens4 k - rec..<tokens4 k} \<subseteq> ?I"
    using sandwich_covers [OF _ assms(7,8)] by blast+
  ultimately have "attends sink rec k v ?I kv" by (simp add: attends_def)
  then show ?thesis ..
qed

section \<open>From the prefill to attention\<close>

text \<open>A prompt as a model with \<open>h\<close> key heads of dimension \<open>d\<close> hands it over: keys and values of equal length.\<close>

definition prompt_ok :: "nat \<Rightarrow> nat \<Rightarrow> tdtype \<Rightarrow> past \<Rightarrow> int \<Rightarrow> kv4 \<Rightarrow> kv4 \<Rightarrow> bool" where
  "prompt_ok h d td x l k v \<longleftrightarrow> (\<exists>layers. past_layers x = Inr layers \<and> dict_ok layers \<and> (l, k, v) \<in> set layers \<and>
     (\<forall>(l, k, v)\<in>set layers. kv4_ok h d td k \<and> kv4_ok h d td v \<and> tokens4 v = tokens4 k))"

text \<open>A query whose heads find their key heads, in storage and on the host.\<close>

definition query_ok :: "nat \<Rightarrow> nat \<Rightarrow> int \<Rightarrow> real list list \<Rightarrow> bool" where
  "query_ok h d r q \<longleftrightarrow> query_ready h d r q \<and> query_ready h d (int (length q) div int h) q"

context kv_serving
begin

lemma select_after_prefill:
  fixes p :: "('s, 'm) provider_scheme"
  assumes "inv P (sp_backend p)" "sp_kv_heads p = int hn" "sp_head_dim p = int dn" "0 < dn" "0 < tpb" "kernel_ok kern"
    and "dget (sp_layers p) l = Some ls" "layer_from P tpb hn dn dt td sink rec l k v ls" "query_ok hn dn (sp_gqa p) q"
  shows "\<exists>kv p' I. sp_select_and_fetch decode kern tconv sv l (Some q) p = (Inr kv, p') \<and> inv P (sp_backend p') \<and> touched p p' \<and>
    attends sink rec k v I kv \<and> (100 \<le> sp_pct p \<longrightarrow> q4_rows (fst kv) = q4_rows k \<and> q4_rows (snd kv) = q4_rows v)"
proof -
  obtain parts where f: "layer_holds P tpb hn dn dt td l ls parts" "\<forall>(a, b)\<in>set parts. length a = length b"
    "tokens4 (ls_sink_k ls) = (if tokens4 k \<le> sink + rec then tokens4 k else sink)" "tokens4 (ls_sink_v ls) = tokens4 (ls_sink_k ls)"
    "tokens4 (ls_recent_k ls) = (if tokens4 k \<le> sink + rec then 0 else rec)"
    "q4_rows k = q4_rows (ls_sink_k ls) @ concat (map fst parts) @ q4_rows (ls_recent_k ls)"
    "q4_rows v = q4_rows (ls_sink_v ls) @ concat (map snd parts) @ q4_rows (ls_recent_v ls)"
    using assms(8) by (auto simp: layer_from_def simp del: map_map)
  obtain ak av p' S where r: "sp_select_and_fetch decode kern tconv sv l (Some q) p = (Inr (ak, av), p')" "inv P (sp_backend p')"
    "touched p p'" "length (nths parts S) = min (nat (k_to_fetch (sp_pct p) (length parts))) (length parts)"
    "q4_rows ak = q4_rows (ls_sink_k ls) @ concat (map fst (nths parts S)) @ q4_rows (ls_recent_k ls)"
    "q4_rows av = q4_rows (ls_sink_v ls) @ concat (map snd (nths parts S)) @ q4_rows (ls_recent_v ls)"
    using select_ok [OF assms(1-7) f(1)] assms(9) unfolding query_ok_def by blast
  have "length (q4_rows (ls_sink_v ls)) = length (q4_rows (ls_sink_k ls))" using f(4) by (simp add: tokens4_def)
  moreover have "min sink (tokens4 k) \<le> length (q4_rows (ls_sink_k ls))"
    using f(3) unfolding tokens4_def [of "ls_sink_k ls"] by (simp split: if_splits)
  moreover have "tokens4 k \<le> length (q4_rows (ls_sink_k ls)) \<or> rec \<le> length (q4_rows (ls_recent_k ls))"
    using f(3,5) unfolding tokens4_def [of "ls_sink_k ls"] tokens4_def [of "ls_recent_k ls"] by (simp split: if_splits)
  ultimately obtain I where I: "attends sink rec k v I (ak, av)"
    using attends_parts [of "(ak, av)", OF _ _ f(6,7) _ f(2)] r(5,6) by fastforce
  have "q4_rows ak = q4_rows k \<and> q4_rows av = q4_rows v" if "100 \<le> sp_pct p"
  proof -
    have "nths parts S = parts" using r(4) k_to_fetch_all [OF that, of "length parts"] by (intro nths_full) simp
    then show ?thesis using r(5,6) f(6,7) by simp
  qed
  then show ?thesis using r(1-3) I by (intro exI [of _ "(ak, av)"] exI [of _ p'] exI [of _ I]) simp
qed

lemma prefill_then_select:
  assumes "inv (\<lambda>_. None) s" "calm s" "0 < hn" "0 < dn" "0 < tpb" "0 < rec" "kernel_ok kern" "np_of td = Some dt"
    and "prompt_ok hn dn td x l k v" "query_ok hn dn (config_gqa c) q"
  shows "\<exists>p1 kv p2 I. sp_init_from_prefill conv sv x (new_provider c s sink rec tpb pct cst pre asy) = (Inr (), p1) \<and>
    sp_select_and_fetch decode kern tconv sv l (Some q) p1 = (Inr kv, p2) \<and> attends sink rec k v I kv \<and>
    (100 \<le> pct \<longrightarrow> q4_rows (fst kv) = q4_rows k \<and> q4_rows (snd kv) = q4_rows v)"
proof -
  let ?p = "new_provider c s sink rec tpb pct cst pre asy"
  have p: "sp_backend ?p = s" "sp_tpb ?p = tpb" "sp_recent ?p = rec" "sp_sink ?p = sink" "sp_pct ?p = pct" "sp_gqa ?p = config_gqa c"
    by (simp_all add: new_provider_def)
  obtain layers where x: "past_layers x = Inr layers" "dict_ok layers" "(l, k, v) \<in> set layers"
    "\<forall>(l, k, v)\<in>set layers. kv4_ok hn dn td k \<and> kv4_ok hn dn td v \<and> tokens4 v = tokens4 k"
    using assms(9) by (auto simp: prompt_ok_def)
  obtain P1 p1 ls where one: "sp_init_from_prefill conv sv x ?p = (Inr (), p1)" "inv P1 (sp_backend p1)"
    "sp_kv_heads p1 = int hn" "sp_head_dim p1 = int dn" "sp_pct p1 = pct" "sp_gqa p1 = config_gqa c"
    "dget (sp_layers p1) l = Some ls" "layer_from P1 tpb hn dn dt td sink rec l k v ls"
    using prefill_ok [of "\<lambda>_. None" ?p td x layers l k v conv, unfolded p, OF assms(1,2) refl assms(8,5,6) x(1,2,3,4)] by blast
  from select_after_prefill [OF one(2-4) assms(4,5,7) one(7,8)] assms(10) one(1,5,6) show ?thesis by metis
qed

end

section \<open>The inference backend\<close>

definition rb_service :: "(np_dtype \<Rightarrow> byte list \<Rightarrow> real list) \<Rightarrow> kernel option \<Rightarrow> backend kv_service" where
  "rb_service decode kern = \<lparr>sv_pages = rb_ops,
     sv_topk = Some (\<lambda>layer cands q k scale qh kvh. rb_compute_topk_filter decode kern layer cands q k scale qh kvh),
     sv_prefetch = None\<rparr>"

definition rb_knows :: "contents \<Rightarrow> backend \<Rightarrow> bool" where
  "rb_knows P b \<longleftrightarrow> rb_sound b \<and> (\<forall>key kv. P key = Some kv \<longrightarrow> rb_lookup b key = Some kv)"

lemma topk_candidates_ok:
  "rb_good b \<Longrightarrow> \<forall>c\<in>set cands. rb_lookup b (layer, fst c) \<noteq> None \<Longrightarrow>
   \<exists>infos b1. topk_candidates layer cands b = (Inr infos, b1) \<and> same_store b b1 \<and> rb_good b1 \<and>
     list_all2 (\<lambda>i c. \<exists>m. dget (rb_storage b) (layer, fst c) = Some m \<and> i = (k_offset m, k_size m, fst c, snd c)) infos cands"
proof (induction cands arbitrary: b)
  case (Cons c cands)
  obtain bid tok where c: "c = (bid, tok)" by (cases c)
  obtain m where m: "dget (rb_storage b) (layer, bid) = Some m" using Cons.prems(2) by (auto simp: c rb_lookup_def)
  then have "0 \<le> bm_channel m" "bm_channel m < rb_channels b" using Cons.prems(1) by (auto simp: rb_good_def channels_ok_def)
  from charge_read_good [OF Cons.prems(1) this, of "int (k_size m)"] obtain b1 where
    b1: "charge_read (bm_channel m) (int (k_size m)) b = (Inr (), b1)" "same_store b b1" "rb_good b1" by blast
  have st: "rb_storage b1 = rb_storage b" using b1(2) by (simp add: same_store_def)
  have "\<forall>c\<in>set cands. rb_lookup b1 (layer, fst c) \<noteq> None"
    using Cons.prems(2) same_store_lookup [OF b1(2)] by simp
  from Cons.IH [OF b1(3) this] obtain infos b2 where two: "topk_candidates layer cands b1 = (Inr infos, b2)" "same_store b1 b2" "rb_good b2"
    "list_all2 (\<lambda>i c. \<exists>m. dget (rb_storage b1) (layer, fst c) = Some m \<and> i = (k_offset m, k_size m, fst c, snd c)) infos cands"
    by blast
  then show ?case using m b1 same_store_trans [OF b1(2) two(2)] by (simp add: c st)
qed simp

lemma cand_tensor_ok:
  assumes "rb_sound b" "rb_lookup b (layer, bid) = Some (k, v)" "dget (rb_storage b) (layer, bid) = Some m"
  shows "cand_tensor layer b (k_offset m, k_size m, bid, tok) = Inr k"
proof -
  obtain f where f: "rb_backing b = Some f" using assms(1) by (auto simp: rb_sound_def rb_good_def rb_inv_def store_ok_def)
  have k: "k = stored_key f m" using assms(2,3) f by (simp add: rb_lookup_def)
  have "tensor_ok k" using assms(1,2) unfolding rb_sound_def by blast
  then show ?thesis using assms(3) f by (simp add: cand_tensor_def from_buffer_def Let_def k stored_key_def)
qed

lemma knows_lookup: "rb_knows P b \<Longrightarrow> known P geo dt key \<Longrightarrow> \<exists>k v. P key = Some (k, v) \<and> rb_lookup b key = Some (k, v) \<and> page_fits geo dt k"
  by (cases key) (auto simp: rb_knows_def known_def)

lemma rb_topk_ok:
  assumes "rb_knows P b" "cands \<noteq> []" "distinct cands" "0 \<le> n" "0 < t" "0 < h" "kernel_ok kern"
    and "\<forall>c\<in>set cands. 0 < snd c \<and> known P [t, h, d] dt (layer, fst c)" "query_ready h d (int (length q) div int h) q"
  shows "\<exists>res b'. rb_compute_topk_filter decode kern layer cands q n scale (length q) (int h) b = (Inr res, b') \<and>
    rb_knows P b' \<and> rb_page b' = rb_page b \<and> chosen n cands res"
proof -
  have snd: "rb_sound b" and g: "rb_good b" using assms(1) by (simp_all add: rb_knows_def rb_sound_def)
  have stored: "\<forall>c\<in>set cands. rb_lookup b (layer, fst c) \<noteq> None" using knows_lookup [OF assms(1)] assms(8) by fastforce
  obtain infos b1 where t: "topk_candidates layer cands b = (Inr infos, b1)" "same_store b b1" "rb_good b1"
    "list_all2 (\<lambda>i c. \<exists>m. dget (rb_storage b) (layer, fst c) = Some m \<and> i = (k_offset m, k_size m, fst c, snd c)) infos cands"
    using topk_candidates_ok [OF g stored] by blast
  have lk: "rb_lookup b1 = rb_lookup b" "rb_storage b1 = rb_storage b"
    using same_store_lookup [OF t(2)] t(2) by (simp_all add: same_store_def)
  have snd1: "rb_sound b1" using snd t(3) lk by (simp add: rb_sound_def)
  have "list_all2 (\<lambda>i c. \<exists>k. cand_tensor layer b1 i = Inr k \<and> k = k \<and> page_fits [t, h, d] dt k) infos cands"
    using t(4)
  proof (rule list.rel_mono_strong)
    fix i c assume c: "c \<in> set cands" "\<exists>m. dget (rb_storage b) (layer, fst c) = Some m \<and> i = (k_offset m, k_size m, fst c, snd c)"
    then obtain m k v where "dget (rb_storage b1) (layer, fst c) = Some m" "i = (k_offset m, k_size m, fst c, snd c)"
      "rb_lookup b1 (layer, fst c) = Some (k, v)" "page_fits [t, h, d] dt k"
      using knows_lookup [OF assms(1)] assms(8) lk by metis
    then show "\<exists>k. cand_tensor layer b1 i = Inr k \<and> k = k \<and> page_fits [t, h, d] dt k" using cand_tensor_ok [OF snd1] by blast
  qed
  then have "list_all2 (\<lambda>i c. \<exists>k. cand_tensor layer b1 i = Inr k \<and> () = () \<and> page_fits [t, h, d] dt k) infos cands" by simp
  from map_res_rel [OF this] obtain ks where ks: "map_res (cand_tensor layer b1) infos = Inr ks" "\<forall>k\<in>set ks. page_fits [t, h, d] dt k"
    "map (\<lambda>_. ()) ks = map (\<lambda>_. ()) cands" by blast
  have len: "length ks = length cands" using ks(3) by (metis length_map)
  have r: "gqa_ratio (int (length q)) (int h) = int (length q) div int h" using assms(6) by (simp add: gqa_ratio_def)
  obtain tops where tops: "(case kern of
       Some kf \<Rightarrow> Inr (map (\<lambda>(idx, s). (s, cands ! idx)) (kf q ks (map snd cands) n))
     | None \<Rightarrow> rbind (map_res (score_block decode q scale (length q) (int (length q) div int h)) (zip ks cands))
         (\<lambda>ss. Inr (select_topk n ss))) = Inr tops" "chosen n cands tops"
    using scored_ok [OF ks(2) len assms(3) _ assms(9,5,7,4), of decode scale] assms(8) by blast
  let ?m = "int (sum_list (map (\<lambda>c. fst (snd c)) infos))"
  let ?b = "b1\<lparr>rb_storage_batches := rb_storage_batches b1 + 1, rb_requests := rb_requests b1 + 1,
     rb_topk_calls := rb_topk_calls b1 + 1, rb_internal_k_blocks := rb_internal_k_blocks b1 + int (length cands),
     rb_internal_k_bytes := rb_internal_k_bytes b1 + ?m, rb_bytes_read := rb_bytes_read b1 + ?m,
     rb_access_log := rb_access_log b1 @ [TopkAccess layer (int (length cands)) n ?m]\<rparr>"
  have "rb_compute_topk_filter decode kern layer cands q n scale (length q) (int h) b = (Inr tops, ?b)"
    using assms(2) t(1) ks(1) tops(1) by (cases kern) (auto simp: rb_compute_topk_filter_def Let_def r rbind_Inr_iff)
  moreover have same: "same_store b1 ?b" by (simp add: same_store_def block_shape_def)
  then have "rb_knows P ?b"
    using same_store_good [of b1 ?b] same_store_lookup [of b1 ?b] t(3) snd1 lk assms(1)
    by (simp add: rb_knows_def rb_sound_def counters_ok_def rb_good_def rb_inv_def)
  moreover have "rb_page ?b = rb_page b" using same_store_page [OF same] same_store_page [OF t(2)] by simp
  ultimately show ?thesis using tops(2) by blast
qed

lemma rb_serving:
  assumes "kernel_ok kern" "0 < h"
  shows "kv_serving (rb_service decode kern) rb_knows (\<lambda>_. True) t h d dt"
proof (unfold_locales, goal_cases)
  case (1 P s k v layer bid)
  then have g: "rb_good s" by (simp add: rb_knows_def rb_sound_def)
  obtain b' where w: "rb_write_block layer bid (Arr k) (Arr v) 0 0 s = (Inr (), b')" "rb_good b'"
    "rb_lookup b' = (rb_lookup s)((layer, bid) \<mapsto> (k, v))"
    using write_block_ok [OF g, of layer bid "Arr k" "Arr v" 0 0] by auto
  have "rb_knows (P((layer, bid) \<mapsto> (k, v))) b'"
    using 1 w(2,3) unfolding rb_knows_def rb_sound_def page_fits_def by (auto split: if_splits)
  then show ?case using w(1) by (simp add: rb_service_def rb_ops_def)
next
  case (2 P s ids layer pk)
  then have snd: "rb_sound s" by (simp add: rb_knows_def)
  then have g: "rb_good s" by (simp add: rb_sound_def)
  obtain r s' where r: "read_batch pk layer ids 0 0 s = (r, s')" by fastforce
  note sp = read_batch_spec [OF g r]
  obtain dd where dd: "r = Inr dd" using sp page_spec_total [OF snd] by (cases r) auto
  have lk: "rb_lookup s' = rb_lookup s" using sp dd same_store_lookup [of s s'] by auto
  then have "rb_knows P s'" using 2(1) sp dd by (auto simp: rb_knows_def rb_sound_def)
  moreover have "dget dd i = Some (pages_of pk (the (P (layer, i))))" if i: "i \<in> set ids" for i
  proof -
    obtain k v where "P (layer, i) = Some (k, v)" "rb_lookup s (layer, i) = Some (k, v)"
      using knows_lookup [OF 2(1)] 2(2) i by blast
    then show ?thesis using sp i by (auto simp: dd page_spec_page [OF snd] rb_page_def)
  qed
  ultimately show ?case using r dd by (simp add: rb_service_def rb_ops_def)
next
  case (3 f P s layer ids mode)
  then show ?case by (simp add: rb_service_def)
next
  case (4 g P s cands n layer q scale)
  from 4(1) have g: "g = rb_compute_topk_filter decode kern" by (simp add: rb_service_def)
  show ?case unfolding g using rb_topk_ok [OF 4(2-6) assms(2,1) 4(7,8)] by blast
qed

interpretation rbv: kv_serving "rb_service decode None" rb_knows "\<lambda>_. True" t "Suc h" d dt for decode t h d dt
  by (rule rb_serving) (simp_all add: kernel_ok_def)

section \<open>The prefetch adapter\<close>

text \<open>The adapter as a store with pages; filtering goes to the store below, prefetching is its own.\<close>

definition ad_pages :: "numpy \<Rightarrow> 's page_ops \<Rightarrow> 's adapter page_ops" where
  "ad_pages np ops = \<lparr>po_write = (\<lambda>layer bid k v. ad_write_block np ops layer bid (Arr k) (Arr v)), po_read = ad_read ops,
     po_batch = ad_read_batch ops, po_evict = ad_evict_block ops, po_contains = ad_contains_block ops, po_reset = ad_reset_stats ops\<rparr>"

definition ad_service :: "numpy \<Rightarrow> (np_dtype \<Rightarrow> byte list \<Rightarrow> real list) \<Rightarrow> kernel option \<Rightarrow> backend adapter kv_service" where
  "ad_service np decode kern = \<lparr>sv_pages = ad_pages np rb_ops,
     sv_topk = Some (\<lambda>layer cands q k scale qh kvh. ad_compute_topk_filter
       (\<lambda>layer (cands, q, k, scale, qh, kvh). rb_compute_topk_filter decode kern layer cands q k scale qh kvh)
       layer (cands, q, k, scale, qh, kvh)),
     sv_prefetch = Some (\<lambda>layer ids mode. sbind (ad_predict_and_prefetch rb_ops layer ids 0 mode) (\<lambda>_. sret ()))\<rparr>"

text \<open>What no call changes.\<close>

definition ad_static :: "np_dtype \<times> nat list \<times> int \<times> int \<Rightarrow> 's adapter \<Rightarrow> bool" where
  "ad_static x a \<longleftrightarrow> x = (ad_dtype a, ad_default_shape a, ad_capacity a, lp_total_layers (ad_predictor a))"

lemma static_frame:
  "ad_dtype a' = ad_dtype a \<Longrightarrow> ad_default_shape a' = ad_default_shape a \<Longrightarrow> ad_capacity a' = ad_capacity a \<Longrightarrow>
   lp_total_layers (ad_predictor a') = lp_total_layers (ad_predictor a) \<Longrightarrow> ad_static x a \<Longrightarrow> ad_static x a'"
  by (simp add: ad_static_def)

lemma static_on_store [inv_intros]: "keeps (ad_static x) (on_store m)"
  by (auto simp: keeps_def on_store_def ad_static_def ad_default_shape_def split: prod.split)

lemma static_capacity [inv_intros]: "keeps (ad_static x) ensure_buffer_capacity"
  by (auto simp: keeps_def ensure_buffer_capacity_def ad_static_def ad_default_shape_def split: prod.split)

lemma static_resolve [inv_intros]: "keeps (ad_static x) (resolve_entry ops key)"
proof -
  have "ad_static x (ad_complete ops j a)" if "ad_static x a" for j a
    using that by (auto simp: ad_complete_def ad_static_def ad_default_shape_def split: job.split prod.split)
  then show ?thesis
    by (auto simp: keeps_def resolve_entry_def Let_def split: option.split sum.split)
      (auto simp: ad_static_def ad_default_shape_def)
qed

lemmas static_defs = ad_static_def ad_default_shape_def mark_useful_def set_staged_def ad_record_hit_def ad_record_miss_def
  count_dispatch_def update_peak_def

lemma static_hit [inv_intros]: "keeps (ad_static x) (ad_hit ops shaped pk key)"
  unfolding ad_hit_def by (intro inv_intros) (auto simp: static_defs split: option.split)

lemma static_batch_hit [inv_intros]: "keeps (ad_static x) (batch_hit ops pk layer bid acc)"
  unfolding batch_hit_def by (cases acc) (auto intro!: inv_intros simp: static_defs)

lemma static_read_batch: "keeps (ad_static x) (ad_read_batch ops pk layer ids head tok)"
proof -
  have "ad_static x (fold (\<lambda>_ a. ad_record_miss (ad_page_size pk a) a) ms a)" if "ad_static x a" for ms :: "int list" and a :: "'s adapter"
    using that by (induction ms arbitrary: a) (simp_all add: static_defs)
  then show ?thesis unfolding ad_read_batch_def
    by (auto intro!: inv_intros simp: case_prod_beta) (auto simp: static_defs)
qed

lemma static_prefetch: "keeps (ad_static x) (ad_prefetch ops ids layer head tok mode)"
  unfolding ad_prefetch_def stage_pending_def stage_fetched_def
  by (intro inv_intros) (auto simp: static_defs intro!: inv_intros split: option.split)

text \<open>With room for a block, a prefetch from a reader raises nothing.\<close>

lemma stage_fetched_total:
  "\<forall>b\<in>set ids. dget fetched b \<noteq> None \<Longrightarrow>
   \<exists>a'. sfor (stage_fetched ops layer head tok fetched) ids acc a = (Inr (acc @ ids), a')"
proof (induction ids arbitrary: acc a)
  case (Cons b ids)
  then obtain ts where "dget fetched b = Some ts" by auto
  with Cons.IH [of "acc @ [b]"] Cons.prems show ?case by (simp add: stage_fetched_def meth_run)
qed simp

context page_reader
begin

lemma prefetch_total:
  assumes "fresh P a" "0 < ad_capacity a"
  shows "\<exists>ds a'. ad_prefetch ops ids layer head tok mode a = (Inr ds, a') \<and> fresh P a'"
proof -
  let ?miss = "filter (\<lambda>b. \<not> dmem (layer, b) (ad_staging a)) ids"
  obtain r a' where r: "ad_prefetch ops ids layer head tok mode a = (r, a')" by fastforce
  have f: "fresh P a'" using keepsD [OF keeps_prefetch assms(1) r] .
  have "r \<in> range Inr"
  proof (cases "?miss = []")
    case True
    then show ?thesis using r by (auto simp: ad_prefetch_def)
  next
    case False
    obtain a1 where a1: "sfor (\<lambda>_ _. ensure_buffer_capacity) ?miss () a = (Inr (), a1)" using ensure_loop [OF assms(2)] by blast
    have k: "keeps (fresh P) (sfor (\<lambda>_ _. ensure_buffer_capacity) ?miss ())" by (intro inv_intros keeps_capacity)
    have f1: "fresh P a1" by (rule keepsD [OF k assms(1) a1])
    show ?thesis
    proof (cases "case mode of Some m \<Rightarrow> m | None \<Rightarrow> ad_async a1")
      case True
      then show ?thesis
        using r False a1 stage_pending_length [of layer head "length (ad_jobs a1)" ?miss "[]"
            "a1\<lparr>ad_jobs := ad_jobs a1 @ [JPending layer ?miss head tok]\<rparr>"]
        by (auto simp: ad_prefetch_def meth_run)
    next
      case sync: False
      obtain d s' where d: "on_store (po_batch ops WholeBlock layer ?miss head tok) a1 = (Inr d, a1\<lparr>ad_store := s'\<rparr>)"
        "\<forall>i. dget d i = (if i \<in> set ?miss then Some (pages_of WholeBlock (P (layer, i))) else None)"
        using on_store_batch [OF f1] by blast
      have "\<forall>b\<in>set ?miss. dget d b \<noteq> None" using d(2) by simp
      from stage_fetched_total [OF this, of ops layer head tok "[]" "a1\<lparr>ad_store := s'\<rparr>"]
      show ?thesis using r False a1 sync d(1) by (auto simp: ad_prefetch_def meth_run)
    qed
  qed
  then show ?thesis using r f by auto
qed

lemma predict_total:
  assumes "fresh P a" "0 < ad_capacity a" "lp_total_layers (ad_predictor a) \<noteq> 0"
  shows "\<exists>x a'. ad_predict_and_prefetch ops layer ids stride mode a = (Inr x, a') \<and> fresh P a'"
proof -
  obtain l bs p where u: "predict_next_layer_blocks layer ids stride (ad_predictor a) = (Inr (l, bs), p)"
    using assms(3) by (simp add: predict_next_layer_blocks_def)
  have "fresh P (a\<lparr>ad_predictor := p\<rparr>)" using assms(1) by (simp add: ad_fresh_def)
  from prefetch_total [OF this, of bs l 0 0 "Some (case mode of Some m \<Rightarrow> m | None \<Rightarrow> ad_async a)"] assms(2) u
  show ?thesis by (auto simp: ad_predict_and_prefetch_def meth_run)
qed

end

interpretation rbk: page_reader rb_ops rb_page "rb_knows P" for P
proof (unfold_locales, goal_cases)
  case (1 s pk layer bid head tok)
  then show ?case using rb_read_law [of s pk layer bid head tok] unfolding rb_knows_def by fastforce
next
  case (2 s pk layer ids head tok)
  then show ?case using rb_batch_law [of s pk layer ids head tok] unfolding rb_knows_def by fastforce
qed

definition ad_knows :: "nat list \<Rightarrow> np_dtype \<Rightarrow> contents \<Rightarrow> backend adapter \<Rightarrow> bool" where
  "ad_knows geo dt P a \<longleftrightarrow> (\<exists>Q. ad_fresh rb_page (rb_knows P) Q a) \<and> ad_default_shape a = geo \<and> ad_dtype a = dt \<and>
     0 < ad_capacity a \<and> lp_total_layers (ad_predictor a) \<noteq> 0"

lemma ad_knows_keep:
  assumes "ad_knows geo dt P a" "ad_fresh rb_page (rb_knows P) Q a'" "\<And>x. ad_static x a \<Longrightarrow> ad_static x a'"
  shows "ad_knows geo dt P a'"
  using assms(1,2) assms(3) [of "(dt, geo, ad_capacity a, lp_total_layers (ad_predictor a))"]
  by (auto simp: ad_knows_def ad_static_def)

lemma ad_serving:
  assumes "kernel_ok kern" "0 < h"
  shows "kv_serving (ad_service np decode kern) (ad_knows [t, h, d] dt) (\<lambda>a. ad_staging a = []) t h d dt"
proof (unfold_locales, goal_cases)
  case (1 P a k v layer bid)
  then have kn: "rb_knows P (ad_store a)" "ad_dtype a = dt" by (auto simp: ad_knows_def ad_fresh_def)
  obtain b' where w: "po_write rb_ops layer bid k v 0 0 (ad_store a) = (Inr (), b')" "rb_knows (P((layer, bid) \<mapsto> (k, v))) b'"
    using kv_serving.write_law [OF rb_serving [OF assms, of decode t d dt] kn(1) TrueI 1(3,4), of layer bid]
    by (auto simp: rb_service_def simp del: fun_upd_apply)
  obtain a' where run: "ad_write_block np rb_ops layer bid (Arr k) (Arr v) 0 0 a = (Inr (), a')" and a': "ad_store a' = b'"
    "ad_staging a' = []" "ad_default_shape a' = ad_default_shape a" "ad_dtype a' = ad_dtype a" "ad_capacity a' = ad_capacity a"
    "ad_predictor a' = ad_predictor a"
    using 1(2-4) kn(2) w(1)
    by (simp add: ad_write_block_def ad_cast_def page_fits_def on_store_def meth_run ad_default_shape_def)
  have "ad_fresh rb_page (rb_knows (P((layer, bid) \<mapsto> (k, v)))) (rb_page b') a'"
    using w(2) a' by (simp add: ad_fresh_def staging_fresh_def dict_ok_def)
  then have "ad_knows [t, h, d] dt (P((layer, bid) \<mapsto> (k, v))) a'" using 1(1) a' by (auto simp: ad_knows_def)
  then show ?case using run a'(2) by (simp add: ad_service_def ad_pages_def)
next
  case (2 P a ids layer pk)
  obtain Q where f: "ad_fresh rb_page (rb_knows P) Q a" "ad_default_shape a = [t, h, d]" using 2(1) by (auto simp: ad_knows_def)
  have Q: "Q (layer, i) = the (P (layer, i)) \<and> page_fits [t, h, d] dt (fst (Q (layer, i))) \<and> page_fits [t, h, d] dt (snd (Q (layer, i)))"
    if "i \<in> set ids" for i
  proof -
    obtain k v where "P (layer, i) = Some (k, v)" "page_fits [t, h, d] dt k" "page_fits [t, h, d] dt v"
      using 2(2) \<open>i \<in> set ids\<close> by (auto simp: known_def)
    moreover then have "rb_page (ad_store a) (layer, i) = (k, v)" using f(1) by (auto simp: ad_fresh_def rb_knows_def rb_page_def)
    ultimately show ?thesis using f(1) by (auto simp: ad_fresh_def)
  qed
  have "\<forall>i\<in>set ids. page_shaped Q (ad_default_shape a) True pk (layer, i)"
    unfolding page_shaped_def f(2) using Q unfolding page_fits_def by metis
  from rbk.read_batch_ok [OF f(1) this] obtain dd a' where b: "ad_read_batch rb_ops pk layer ids 0 0 a = (Inr dd, a')"
    "ad_fresh rb_page (rb_knows P) Q a'" "\<forall>i. dget dd i = (if i \<in> set ids then Some (pages_of pk (Q (layer, i))) else None)" by blast
  have "ad_knows [t, h, d] dt P a'" by (rule ad_knows_keep [OF 2(1) b(2)]) (rule keepsD [OF static_read_batch _ b(1)])
  then show ?case using b Q by (simp add: ad_service_def ad_pages_def)
next
  case (3 f P a layer ids mode)
  obtain Q where q: "ad_fresh rb_page (rb_knows P) Q a" "0 < ad_capacity a" "lp_total_layers (ad_predictor a) \<noteq> 0"
    using 3(2) by (auto simp: ad_knows_def)
  obtain x a' where r: "ad_predict_and_prefetch rb_ops layer ids 0 mode a = (Inr x, a')" "ad_fresh rb_page (rb_knows P) Q a'"
    using rbk.predict_total [OF q] by blast
  have "ad_static y a'" if "ad_static y a" for y
  proof -
    have "ad_static y (snd (ad_predict_and_prefetch rb_ops layer ids 0 mode a))"
    proof -
      obtain l bs p where u: "predict_next_layer_blocks layer ids 0 (ad_predictor a) = (Inr (l, bs), p)"
        "lp_total_layers p = lp_total_layers (ad_predictor a)"
        using q(3) by (simp add: predict_next_layer_blocks_def)
      have "keeps (ad_static y) (sbind (ad_prefetch rb_ops bs l 0 0 m) (\<lambda>ds. sret (l, ds)))" for m
        by (intro inv_intros static_prefetch)
      then show ?thesis using u that by (auto simp: ad_predict_and_prefetch_def keeps_def ad_static_def ad_default_shape_def)
    qed
    then show ?thesis by (simp add: r(1))
  qed
  then have "ad_knows [t, h, d] dt P a'" using ad_knows_keep [OF 3(2) r(2)] by blast
  then show ?case using 3(1) r(1) by (auto simp: ad_service_def meth_run)
next
  case (4 g P a cands n layer q scale)
  obtain Q where f: "ad_fresh rb_page (rb_knows P) Q a" using 4(2) by (auto simp: ad_knows_def)
  then have kn: "rb_knows P (ad_store a)" and page: "rb_page (ad_store a) = Q" by (auto simp: ad_fresh_def)
  obtain res b' where r: "rb_compute_topk_filter decode kern layer cands q n scale (length q) (int h) (ad_store a) = (Inr res, b')"
    "rb_knows P b'" "rb_page b' = rb_page (ad_store a)" "chosen n cands res"
    using rb_topk_ok [OF kn 4(3-6) assms(2,1) 4(7,8)] by blast
  have "ad_fresh rb_page (rb_knows P) Q (a\<lparr>ad_store := b'\<rparr>)" using f r(2,3) page by (simp add: ad_fresh_def staging_fresh_def)
  moreover have "ad_static y a \<Longrightarrow> ad_static y (a\<lparr>ad_store := b'\<rparr>)" for y by (simp add: ad_static_def ad_default_shape_def)
  ultimately have "ad_knows [t, h, d] dt P (a\<lparr>ad_store := b'\<rparr>)" using ad_knows_keep [OF 4(2)] by blast
  then show ?case using 4(1) r(1,4) by (auto simp: ad_service_def ad_compute_topk_filter_def on_store_def)
qed

interpretation ads: kv_serving "ad_service np decode None" "ad_knows [t, Suc h, d] dt" "\<lambda>a. ad_staging a = []" t "Suc h" d dt
  for np decode t h d dt
  by (rule ad_serving) (simp_all add: kernel_ok_def)

section \<open>Decoding\<close>

text \<open>Each new token takes the place of the oldest recent one.\<close>

definition decode_tokens :: "int \<Rightarrow> (kv4 \<times> kv4) list \<Rightarrow> (('s, 'm) provider_scheme, unit) meth" where
  "decode_tokens layer ts = sfor (\<lambda>(k, v) _. sp_append_new_token layer k v) ts ()"

definition token_ok :: "nat \<Rightarrow> nat \<Rightarrow> tdtype \<Rightarrow> kv4 \<times> kv4 \<Rightarrow> bool" where
  "token_ok h d td kv \<longleftrightarrow> same_kind h d td (fst kv) \<and> same_kind h d td (snd kv) \<and> tokens4 (fst kv) = 1 \<and> tokens4 (snd kv) = 1"

definition decoded :: "(kv4 \<times> kv4) list \<Rightarrow> layer_state \<Rightarrow> layer_state \<Rightarrow> bool" where
  "decoded ts ls ls' \<longleftrightarrow> (\<exists>rk rv. ls' = ls\<lparr>ls_recent_k := (ls_recent_k ls)\<lparr>q4_rows := rk\<rparr>,
     ls_recent_v := (ls_recent_v ls)\<lparr>q4_rows := rv\<rparr>, ls_total := ls_total ls + length ts\<rparr> \<and>
     rk = drop (length ts) (q4_rows (ls_recent_k ls) @ concat (map (\<lambda>t. q4_rows (fst t)) ts)) \<and>
     rv = drop (length ts) (q4_rows (ls_recent_v ls) @ concat (map (\<lambda>t. q4_rows (snd t)) ts)))"

lemma dset_again: "dset k v (dset k w d) = dset k v d"
  by (induction d) auto

lemma dset_same: "dget d k = Some v \<Longrightarrow> dset k v d = d"
  by (induction d) (auto split: if_splits)

lemma drop_again: "xs \<noteq> [] \<Longrightarrow> drop n (drop (Suc 0) xs @ ys) = drop (Suc n) (xs @ ys)"
  by (cases xs) simp_all

lemma cut_last: "a @ b @ c = xs \<Longrightarrow> length c = r \<Longrightarrow> take (length xs - r) xs = a @ b \<and> drop (length xs - r) xs = c"
  by auto

lemma slide_ok: "same_kind h d td t \<Longrightarrow> same_kind h d td u \<Longrightarrow> slide t u = Inr (t\<lparr>q4_rows := drop 1 (q4_rows t) @ q4_rows u\<rparr>)"
  by (simp add: slide_def same_kind_def fits4_def)

lemma append_one:
  assumes "dget (sp_layers p) l = Some ls" "same_kind h d td (ls_recent_k ls)" "same_kind h d td (ls_recent_v ls)"
    and "token_ok h d td (k, v)"
  shows "\<exists>ls'. sp_append_new_token l k v p = (Inr (), p\<lparr>sp_layers := dset l ls' (sp_layers p)\<rparr>) \<and>
    ls' = ls\<lparr>ls_recent_k := (ls_recent_k ls)\<lparr>q4_rows := drop 1 (q4_rows (ls_recent_k ls)) @ q4_rows k\<rparr>,
      ls_recent_v := (ls_recent_v ls)\<lparr>q4_rows := drop 1 (q4_rows (ls_recent_v ls)) @ q4_rows v\<rparr>, ls_total := ls_total ls + 1\<rparr>"
  using assms slide_ok [OF assms(2)] slide_ok [OF assms(3)]
  by (simp add: sp_append_new_token_def meth_run upd_layer_def token_ok_def dict_simps dset_again)

lemma tokens_appended:
  assumes "dget (sp_layers p) l = Some ls" "same_kind h d td (ls_recent_k ls)" "same_kind h d td (ls_recent_v ls)"
    and "\<forall>t\<in>set ts. token_ok h d td t" "q4_rows (ls_recent_k ls) \<noteq> []" "q4_rows (ls_recent_v ls) \<noteq> []"
  shows "\<exists>L ls'. decode_tokens l ts p = (Inr (), p\<lparr>sp_layers := L\<rparr>) \<and> dget L l = Some ls' \<and> decoded ts ls ls'"
  using assms
proof (induction ts arbitrary: p ls)
  case Nil
  then show ?case unfolding decode_tokens_def by (intro exI [of _ "sp_layers p"] exI [of _ ls]) (simp add: decoded_def sret_def)
next
  case (Cons t ts)
  obtain k v where t: "t = (k, v)" by (cases t)
  let ?ls = "ls\<lparr>ls_recent_k := (ls_recent_k ls)\<lparr>q4_rows := drop 1 (q4_rows (ls_recent_k ls)) @ q4_rows k\<rparr>,
      ls_recent_v := (ls_recent_v ls)\<lparr>q4_rows := drop 1 (q4_rows (ls_recent_v ls)) @ q4_rows v\<rparr>, ls_total := ls_total ls + 1\<rparr>"
  have tok: "token_ok h d td (k, v)" using Cons.prems(4) t by simp
  have one: "sp_append_new_token l k v p = (Inr (), p\<lparr>sp_layers := dset l ?ls (sp_layers p)\<rparr>)"
    using append_one [OF Cons.prems(1-3) tok] by blast
  have ne: "q4_rows k \<noteq> []" "q4_rows v \<noteq> []" using tok by (auto simp: token_ok_def tokens4_def)
  obtain L ls' where two: "decode_tokens l ts (p\<lparr>sp_layers := dset l ?ls (sp_layers p)\<rparr>) = (Inr (), p\<lparr>sp_layers := L\<rparr>)"
    "dget L l = Some ls'" "decoded ts ?ls ls'"
    using Cons.IH [of "p\<lparr>sp_layers := dset l ?ls (sp_layers p)\<rparr>" ?ls] Cons.prems ne by (auto simp: dict_simps same_kind_def)
  have "decoded (t # ts) ls ls'"
    using two(3) unfolding decoded_def t
    by (simp add: drop_again [OF Cons.prems(5)] drop_again [OF Cons.prems(6)] del: drop_append)
  moreover have "decode_tokens l (t # ts) p = (Inr (), p\<lparr>sp_layers := L\<rparr>)"
    using one two(1) by (simp add: decode_tokens_def t meth_run)
  ultimately show ?case using two(2) by blast
qed

context kv_serving
begin

lemma decode_after_prefill:
  assumes "inv (\<lambda>_. None) s" "calm s" "0 < hn" "0 < dn" "0 < tpb" "0 < rec" "kernel_ok kern" "np_of td = Some dt"
    and "prompt_ok hn dn td x l k v" "query_ok hn dn (config_gqa c) q" "100 \<le> pct" "sink + rec < tokens4 k"
    and "\<forall>t\<in>set ts. token_ok hn dn td t"
  shows "\<exists>p1 p2 kv p3. sp_init_from_prefill conv sv x (new_provider c s sink rec tpb pct cst pre asy) = (Inr (), p1) \<and>
    decode_tokens l ts p1 = (Inr (), p2) \<and> sp_select_and_fetch decode kern tconv sv l (Some q) p2 = (Inr kv, p3) \<and>
    q4_rows (fst kv) = take (tokens4 k - rec) (q4_rows k) @
      drop (length ts) (drop (tokens4 k - rec) (q4_rows k) @ concat (map (\<lambda>t. q4_rows (fst t)) ts)) \<and>
    q4_rows (snd kv) = take (tokens4 k - rec) (q4_rows v) @
      drop (length ts) (drop (tokens4 k - rec) (q4_rows v) @ concat (map (\<lambda>t. q4_rows (snd t)) ts))"
proof -
  let ?p = "new_provider c s sink rec tpb pct cst pre asy"
  have p: "sp_backend ?p = s" "sp_tpb ?p = tpb" "sp_recent ?p = rec" "sp_sink ?p = sink" "sp_pct ?p = pct" "sp_gqa ?p = config_gqa c"
    by (simp_all add: new_provider_def)
  obtain layers where x: "past_layers x = Inr layers" "dict_ok layers" "(l, k, v) \<in> set layers"
    "\<forall>(l, k, v)\<in>set layers. kv4_ok hn dn td k \<and> kv4_ok hn dn td v \<and> tokens4 v = tokens4 k"
    using assms(9) by (auto simp: prompt_ok_def)
  then have tv: "tokens4 v = tokens4 k" by auto
  obtain P1 p1 ls where one: "sp_init_from_prefill conv sv x ?p = (Inr (), p1)" "inv P1 (sp_backend p1)"
    "sp_kv_heads p1 = int hn" "sp_head_dim p1 = int dn" "sp_pct p1 = pct" "sp_gqa p1 = config_gqa c"
    "dget (sp_layers p1) l = Some ls" "layer_from P1 tpb hn dn dt td sink rec l k v ls"
    using prefill_ok [of "\<lambda>_. None" ?p td x layers l k v conv, unfolded p, OF assms(1,2) refl assms(8,5,6) x(1,2,3,4)] by blast
  obtain parts where f: "layer_holds P1 tpb hn dn dt td l ls parts"
    "tokens4 (ls_recent_k ls) = rec" "tokens4 (ls_recent_v ls) = rec"
    "q4_rows (ls_sink_k ls) @ concat (map fst parts) @ q4_rows (ls_recent_k ls) = q4_rows k"
    "q4_rows (ls_sink_v ls) @ concat (map snd parts) @ q4_rows (ls_recent_v ls) = q4_rows v"
    using one(8) assms(12) by (auto simp: layer_from_def simp del: map_map)
  have kinds: "same_kind hn dn td (ls_recent_k ls)" "same_kind hn dn td (ls_recent_v ls)" using f(1) by (simp_all add: layer_holds_def)
  have ne: "q4_rows (ls_recent_k ls) \<noteq> []" "q4_rows (ls_recent_v ls) \<noteq> []" using f(2,3) assms(6) by (auto simp: tokens4_def)
  obtain L ls' where two: "decode_tokens l ts p1 = (Inr (), p1\<lparr>sp_layers := L\<rparr>)" "dget L l = Some ls'" "decoded ts ls ls'"
    using tokens_appended [OF one(7) kinds assms(13) ne] by blast
  have h: "layer_holds P1 tpb hn dn dt td l ls' parts"
    using two(3) f(1) by (auto simp: decoded_def layer_holds_def same_kind_def)
  obtain ak av p3 S where three: "sp_select_and_fetch decode kern tconv sv l (Some q) (p1\<lparr>sp_layers := L\<rparr>) = (Inr (ak, av), p3)"
    "length (nths parts S) = min (nat (k_to_fetch pct (length parts))) (length parts)"
    "q4_rows ak = q4_rows (ls_sink_k ls') @ concat (map fst (nths parts S)) @ q4_rows (ls_recent_k ls')"
    "q4_rows av = q4_rows (ls_sink_v ls') @ concat (map snd (nths parts S)) @ q4_rows (ls_recent_v ls')"
    using select_ok [of P1 "p1\<lparr>sp_layers := L\<rparr>" kern l ls' td parts q decode tconv] one(2-6) assms(4,5,7,10) two(2) h
    unfolding query_ok_def by auto
  have all: "nths parts S = parts" using three(2) k_to_fetch_all [OF assms(11), of "length parts"] by (intro nths_full) simp
  have cut: "take (tokens4 k - rec) (q4_rows k) = q4_rows (ls_sink_k ls) @ concat (map fst parts)"
    "drop (tokens4 k - rec) (q4_rows k) = q4_rows (ls_recent_k ls)"
    "take (tokens4 k - rec) (q4_rows v) = q4_rows (ls_sink_v ls) @ concat (map snd parts)"
    "drop (tokens4 k - rec) (q4_rows v) = q4_rows (ls_recent_v ls)"
    using cut_last [OF f(4)] cut_last [OF f(5)] f(2,3) tv by (simp_all add: tokens4_def)
  show ?thesis using one(1) two(1) three(1,3,4) two(3) unfolding all cut
    by (intro exI [of _ p1] exI [of _ "p1\<lparr>sp_layers := L\<rparr>"] exI [of _ "(ak, av)"] exI [of _ p3]) (auto simp: decoded_def)
qed

end

section \<open>The sliding window\<close>

lemma filter_suffix: "sorted_wrt (\<lambda>x y. P x \<longrightarrow> P y) xs \<Longrightarrow> filter P xs = drop (length (takeWhile (\<lambda>x. \<not> P x) xs)) xs"
proof (induction xs)
  case (Cons x xs)
  then show ?case by (cases "P x") (auto intro!: filter_True)
qed simp

text \<open>The blocks of a layer cut its offloaded tokens into pieces of \<open>t\<close>, the last one of what is left.\<close>

lemma in_place_facts:
  assumes "blocks_in_place t cs parts" "\<forall>b<length parts. 0 < length (fst (parts ! b))"
  defines "mid \<equiv> length (concat (map fst parts))"
  shows "b < length parts \<longleftrightarrow> b * t < mid" and "b < length parts \<Longrightarrow> length (fst (parts ! b)) = min t (mid - b * t)"
proof -
  have le: "length (fst (parts ! b)) \<le> t" and start: "length (concat (map fst (take b parts))) = b * t" if "b < length parts" for b
    using assms(1) that by (simp_all add: blocks_in_place_def)
  have cut: "mid = b * t + length (fst (parts ! b)) + length (concat (map fst (drop (Suc b) parts)))" if "b < length parts" for b
  proof -
    have "parts = take b parts @ parts ! b # drop (Suc b) parts" using id_take_nth_drop [OF that] .
    then have "concat (map fst parts) = concat (map fst (take b parts)) @ fst (parts ! b) @ concat (map fst (drop (Suc b) parts))"
      by (metis concat.simps(2) concat_append list.simps(9) map_append)
    then show ?thesis using start [OF that] by (simp add: mid_def)
  qed
  have upper: "mid \<le> length parts * t"
  proof (cases "length parts")
    case (Suc n)
    then show ?thesis using cut [of n] le [of n] by simp
  qed (simp add: mid_def)
  show "b < length parts \<longleftrightarrow> b * t < mid"
  proof
    assume "b < length parts"
    then show "b * t < mid" using cut [of b] assms(2) by simp
  next
    assume b: "b * t < mid"
    show "b < length parts"
    proof (rule ccontr)
      assume "\<not> b < length parts"
      then have "length parts * t \<le> b * t" by (intro mult_le_mono1) simp
      with b upper show False by linarith
    qed
  qed
  show "length (fst (parts ! b)) = min t (mid - b * t)" if "b < length parts"
  proof (cases "Suc b < length parts")
    case True
    have "length (concat (map fst (take (Suc b) parts))) = b * t + length (fst (parts ! b))"
      using start [OF that] that by (simp add: take_Suc_conv_app_nth)
    then have "length (fst (parts ! b)) = t" using start [OF True] by simp
    then show ?thesis using cut [OF that] by simp
  next
    case False
    then have "drop (Suc b) parts = []" by simp
    then show ?thesis using cut [OF that] le [OF that] by simp
  qed
qed

lemma nths_first: "length p \<le> t \<Longrightarrow> nths p {j. j div t \<in> B} = (if 0 \<in> B then p else [])"
proof -
  assume "length p \<le> t"
  then have "nths p {j. j div t \<in> B} = nths p (if 0 \<in> B then UNIV else {})" by (intro nths_bounded) simp
  then show ?thesis by (simp add: nths_all)
qed

lemma nths_blocks:
  assumes "0 < t" "\<forall>b. Suc b < length ps \<longrightarrow> length (ps ! b) = t" "ps \<noteq> [] \<longrightarrow> length (ps ! (length ps - 1)) \<le> t"
  shows "nths (concat ps) {j. j div t \<in> B} = concat (nths ps B)"
  using assms(2,3)
proof (induction ps arbitrary: B)
  case (Cons p qs)
  show ?case
  proof (cases "qs = []")
    case True
    then show ?thesis using nths_first [of p t B] Cons.prems(2) by (simp add: nths_singleton)
  next
    case False
    have p: "length p = t" using Cons.prems(1) [rule_format, of 0] False by simp
    have IH: "nths (concat qs) {j. j div t \<in> {b. Suc b \<in> B}} = concat (nths qs {b. Suc b \<in> B})"
    proof (rule Cons.IH)
      show "\<forall>b. Suc b < length qs \<longrightarrow> length (qs ! b) = t"
      proof (intro allI impI)
        fix b assume "Suc b < length qs"
        then show "length (qs ! b) = t" using Cons.prems(1) [rule_format, of "Suc b"] by simp
      qed
      show "qs \<noteq> [] \<longrightarrow> length (qs ! (length qs - 1)) \<le> t" using Cons.prems(2) False by (simp add: nth_Cons')
    qed
    have "{j. j + length p \<in> {j. j div t \<in> B}} = {j. j div t \<in> {b. Suc b \<in> B}}" using assms(1) p by simp
    then have "nths (concat (p # qs)) {j. j div t \<in> B} = nths p {j. j div t \<in> B} @ nths (concat qs) {j. j div t \<in> {b. Suc b \<in> B}}"
      unfolding concat.simps(2) nths_append by simp
    then show ?thesis unfolding IH nths_first [OF eq_refl [OF p]] nths_Cons by simp
  qed
qed simp

lemma nths_suffix: "length xs = b \<Longrightarrow> nths (xs @ ys) {j. b \<le> j \<and> j - b \<in> J} = nths ys J"
proof -
  assume b: "length xs = b"
  then have "nths xs {j. b \<le> j \<and> j - b \<in> J} = []" by (auto simp flip: set_empty simp: set_nths)
  then show ?thesis using b by (simp add: nths_append)
qed

text \<open>
  The offloaded blocks of a prompt of \<open>T\<close> tokens that end inside a window of \<open>W\<close> tokens; a block
  ends \<open>tpb\<close> tokens after its start or where the recent tokens begin.
\<close>

definition window_blocks :: "int \<Rightarrow> nat \<Rightarrow> nat \<Rightarrow> nat \<Rightarrow> nat \<Rightarrow> nat set" where
  "window_blocks W T sink rec tpb =
     {b. sink + b * tpb < T - rec \<and> int T - W < int (min (sink + b * tpb + tpb) (T - rec))}"

lemma finite_window_blocks: "0 < tpb \<Longrightarrow> finite (window_blocks W T sink rec tpb)"
proof -
  assume "0 < tpb"
  then have le: "b \<le> b * tpb" for b by simp
  have "window_blocks W T sink rec tpb \<subseteq> {..<T}"
  proof
    fix b assume "b \<in> window_blocks W T sink rec tpb"
    then have "sink + b * tpb < T - rec" unfolding window_blocks_def by blast
    with le [of b] have "b < T" by linarith
    then show "b \<in> {..<T}" by simp
  qed
  then show ?thesis by (rule finite_subset) simp
qed

text \<open>Every token of the window is a sink, a recent token or in a block that ends inside it.\<close>

lemma window_blocks_cover:
  assumes "0 < tpb" "i < T" "int T - W \<le> int i"
  shows "i < sink \<or> T - rec \<le> i \<or> (i - sink) div tpb \<in> window_blocks W T sink rec tpb"
proof (cases "i < sink \<or> T - rec \<le> i")
  case False
  obtain b where b: "b = (i - sink) div tpb" by blast
  have "b * tpb \<le> i - sink" "i - sink < b * tpb + tpb"
    using assms(1) unfolding b by (simp_all only: div_times_less_eq_dividend dividend_less_div_times add.commute)
  then have "sink + b * tpb < T - rec" "i < sink + b * tpb + tpb" "i < T - rec" using False by linarith+
  then have "b \<in> window_blocks W T sink rec tpb" using assms(3) by (simp add: window_blocks_def del: of_nat_add of_nat_mult)
  then show ?thesis by (simp add: b)
qed blast

lemma window_suffix:
  assumes "blocks_in_place t (ls_cands ls) parts" "length (ls_cands ls) = length parts" "sp_tpb p = t"
    and "\<forall>b<length parts. 0 < length (fst (parts ! b))"
  shows "\<exists>m\<le>length parts. window_cands p ls = drop m (ls_cands ls) \<and>
    (\<forall>b<length parts. m \<le> b \<longleftrightarrow> int (ls_total ls) - sw_window p < int (sp_sink p + b * t + length (fst (parts ! b))))"
proof -
  let ?in = "in_window p (ls_total ls)" and ?cs = "ls_cands ls"
  have place: "?cs ! b = (int b, int (length (fst (parts ! b)))) \<and> length (fst (parts ! b)) \<le> t" if "b < length parts" for b
    using assms(1) that by (simp add: blocks_in_place_def)
  have at: "?in (?cs ! b) \<longleftrightarrow> int (ls_total ls) - sw_window p < int (sp_sink p + b * t + length (fst (parts ! b)))"
    if "b < length parts" for b using place [OF that] assms(3) by (simp add: in_window_def)
  show ?thesis
  proof (cases "sw_window p < int (ls_total ls)")
    case True
    have reach: "i * t + length (fst (parts ! i)) \<le> j * t" if "i < j" "i < length parts" for i j
      using place [OF that(2)] mult_le_mono1 [of "Suc i" j t] that(1) by simp
    have "sorted_wrt (\<lambda>x y. ?in x \<longrightarrow> ?in y) ?cs"
      unfolding sorted_wrt_iff_nth_less
    proof (intro allI impI)
      fix i j assume ij: "i < j" "j < length ?cs" "?in (?cs ! i)"
      then have "int (ls_total ls) - sw_window p < int (sp_sink p + i * t + length (fst (parts ! i)))" using at [of i] assms(2) by simp
      moreover have "sp_sink p + i * t + length (fst (parts ! i)) \<le> sp_sink p + j * t + length (fst (parts ! j))"
        using reach [of i j] ij(1,2) assms(2) by linarith
      ultimately have "int (ls_total ls) - sw_window p < int (sp_sink p + j * t + length (fst (parts ! j)))" by linarith
      then show "?in (?cs ! j)" using at [of j] ij(2) assms(2) by simp
    qed
    then have f: "filter ?in ?cs = drop (length (takeWhile (\<lambda>x. \<not> ?in x) ?cs)) ?cs" (is "_ = drop ?m ?cs") by (rule filter_suffix)
    have m: "?m \<le> length parts" using assms(2) length_takeWhile_le by metis
    have "?m \<le> b \<longleftrightarrow> ?in (?cs ! b)" if "b < length parts" for b
    proof
      assume "?m \<le> b"
      then have "?cs ! b = drop ?m ?cs ! (b - ?m)" "b - ?m < length (drop ?m ?cs)" using that assms(2) by simp_all
      then have "?cs ! b \<in> set (filter ?in ?cs)" using f by (metis nth_mem)
      then show "?in (?cs ! b)" by simp
    next
      assume "?in (?cs ! b)"
      then show "?m \<le> b" using nth_length_takeWhile [of "\<lambda>x. \<not> ?in x" ?cs] takeWhile_nth [of b "\<lambda>x. \<not> ?in x" ?cs]
        by (metis not_le_imp_less nth_mem set_takeWhileD)
    qed
    then show ?thesis using True f m at by (auto simp: window_cands_def)
  next
    case False
    then have "int (ls_total ls) - sw_window p < int (sp_sink p + b * t + length (fst (parts ! b)))" if "b < length parts" for b
    proof -
      have "0 < length (fst (parts ! b))" using assms(4) that by blast
      then have "0 < int (sp_sink p + b * t + length (fst (parts ! b)))" by linarith
      then show ?thesis using False by linarith
    qed
    then show ?thesis using False by (intro exI [of _ 0]) (simp add: window_cands_def)
  qed
qed

lemma window_blocks_range:
  assumes "blocks_in_place t cs parts" "\<forall>b<length parts. 0 < length (fst (parts ! b))"
    and "\<And>b. b < length parts \<Longrightarrow> m \<le> b \<longleftrightarrow> int T - W < int (sink + b * t + length (fst (parts ! b)))"
    and "n = (if T \<le> sink + rec then T else sink)" "r = (if T \<le> sink + rec then 0 else rec)"
    and "T = n + length (concat (map fst parts)) + r"
  shows "window_blocks W T sink rec t = {m..<length parts}"
proof (cases "T \<le> sink + rec")
  case True
  then have "n = T" using assms(4) by simp
  then have "length (concat (map fst parts)) = 0" using assms(6) by linarith
  then have "\<not> 0 < length parts" using in_place_facts(1) [OF assms(1,2), of 0] by linarith
  then show ?thesis using True by (auto simp: window_blocks_def)
next
  case False
  note fa = in_place_facts [OF assms(1,2)]
  have ends: "n = sink" "r = rec" using assms(4,5) False by simp_all
  have mid: "length (concat (map fst parts)) = T - rec - sink" using assms(6) ends by linarith
  have "b \<in> window_blocks W T sink rec t \<longleftrightarrow> b < length parts \<and> int T - W < int (sink + b * t + length (fst (parts ! b)))" for b
  proof (cases "b < length parts")
    case True
    then have lt: "b * t < T - rec - sink" using fa(1) [of b] mid by simp
    then have in_mid: "sink + b * t < T - rec" by linarith
    have "sink + b * t + length (fst (parts ! b)) = min (sink + b * t + t) (T - rec)"
      unfolding fa(2) [OF True] mid using lt by linarith
    then show ?thesis unfolding window_blocks_def mem_Collect_eq using in_mid True by metis
  next
    case out: False
    then have "\<not> b * t < T - rec - sink" using fa(1) [of b] mid by simp
    then have "\<not> sink + b * t < T - rec" by linarith
    then show ?thesis unfolding window_blocks_def mem_Collect_eq using out by blast
  qed
  then show ?thesis using assms(3) by auto
qed

lemma attends_blocks:
  assumes "0 < t" "blocks_in_place t cs parts" "\<forall>b<length parts. 0 < length (fst (parts ! b))"
    and "\<forall>(a, b)\<in>set parts. length a = length b"
    and "tokens4 sk = (if tokens4 k \<le> sink + rec then tokens4 k else sink)" "tokens4 rk = (if tokens4 k \<le> sink + rec then 0 else rec)"
    and "q4_rows k = q4_rows sk @ concat (map fst parts) @ q4_rows rk" "q4_rows v = sv @ concat (map snd parts) @ rv"
    and "length sv = length (q4_rows sk)" "length rv = length (q4_rows rk)"
    and "q4_rows (fst kv) = q4_rows sk @ concat (map fst (nths parts B)) @ q4_rows rk"
    and "q4_rows (snd kv) = sv @ concat (map snd (nths parts B)) @ rv"
  shows "attends sink rec k v {i. i < tokens4 k \<and> (i < sink \<or> tokens4 k - rec \<le> i \<or> (i - sink) div t \<in> B)} kv"
proof -
  let ?c = "length (concat (map fst parts))" and ?J = "{j. j div t \<in> B}" and ?a = "length (q4_rows sk)"
  let ?I = "{i. i < tokens4 k \<and> (i < sink \<or> tokens4 k - rec \<le> i \<or> (i - sink) div t \<in> B)}"
  note fa = in_place_facts [OF assms(2,3)]
  have eq: "length (snd (parts ! b)) = length (fst (parts ! b))" if "b < length parts" for b
    using assms(4) that nth_mem [OF that] by (auto simp: case_prod_beta)
  have full: "length (fst (parts ! b)) = t" if "Suc b < length parts" for b
    using that fa(2) [of b] fa(1) [of "Suc b"] by simp
  have last_le: "length (fst (parts ! b)) \<le> t" if "b < length parts" for b using that fa(2) [of b] by simp
  have js: "nths (concat (map fst parts)) ?J = concat (map fst (nths parts B))"
    "nths (concat (map snd parts)) ?J = concat (map snd (nths parts B))"
    using nths_blocks [OF assms(1), of "map fst parts" B] nths_blocks [OF assms(1), of "map snd parts" B]
    by (simp_all add: full last_le eq nths_map)
  have "length (snd x) = length (fst x)" if "x \<in> set parts" for x using assms(4) that by (simp add: case_prod_beta)
  then have "map length (map snd parts) = map length (map fst parts)" by simp
  then have cs: "length (concat (map snd parts)) = ?c" by (simp only: length_concat)
  have T: "tokens4 k = ?a + ?c + length (q4_rows rk)" "length (q4_rows v) = tokens4 k"
    using assms(9,10) cs by (simp_all add: tokens4_def assms(7,8))
  have a: "?a = (if tokens4 k \<le> sink + rec then tokens4 k else sink)" "length (q4_rows rk) = (if tokens4 k \<le> sink + rec then 0 else rec)"
    using assms(5,6) by (simp_all add: tokens4_def)
  have same: "i \<in> sandwich ?a ?c ?J \<longleftrightarrow> i \<in> ?I" if i: "i < tokens4 k" for i
  proof (cases "tokens4 k \<le> sink + rec")
    case True
    have "i < sink \<or> tokens4 k - rec \<le> i" using True i by linarith
    then have "i \<in> ?I" using i by blast
    moreover have "i < ?a" using True i a(1) by simp
    ultimately show ?thesis by (simp only: sandwich_def mem_Collect_eq simp_thms)
  next
    case False
    then have sizes: "?a = sink" "length (q4_rows rk) = rec" using a by simp_all
    then have "sink + ?c = tokens4 k - rec" using T(1) by linarith
    then show ?thesis using i by (simp only: sandwich_def mem_Collect_eq sizes simp_thms)
  qed
  have "q4_rows (fst kv) = nths (q4_rows k) (sandwich ?a ?c ?J)"
    unfolding assms(7,11) nths_sandwich [OF refl refl] js ..
  moreover have "q4_rows (snd kv) = nths (q4_rows v) (sandwich ?a ?c ?J)"
    unfolding assms(8,12) nths_sandwich [OF assms(9) cs] js ..
  moreover have "nths (q4_rows k) (sandwich ?a ?c ?J) = nths (q4_rows k) ?I"
    by (rule nths_bounded) (use same in \<open>simp add: tokens4_def\<close>)
  moreover have "nths (q4_rows v) (sandwich ?a ?c ?J) = nths (q4_rows v) ?I"
    by (rule nths_bounded) (use same in \<open>simp add: T(2)\<close>)
  ultimately show ?thesis by (auto simp: attends_def)
qed

context kv_serving
begin

lemma window_after_prefill:
  assumes "inv (\<lambda>_. None) s" "calm s" "0 < hn" "0 < dn" "0 < tpb" "0 < rec" "kernel_ok kern" "np_of td = Some dt"
    and "prompt_ok hn dn td x l k v" "query_ok hn dn (config_gqa c) q"
    and W: "W = sw_window (new_sw_provider c s sink rec tpb pct cst pre asy)"
  shows "\<exists>p1 kv p2 B. sp_init_from_prefill conv sv x (new_sw_provider c s sink rec tpb pct cst pre asy) = (Inr (), p1) \<and>
    sw_select_and_fetch decode kern tconv sv l (Some q) p1 = (Inr kv, p2) \<and>
    B \<subseteq> window_blocks W (tokens4 k) sink rec tpb \<and>
    card B = min (nat (k_to_fetch pct (card (window_blocks W (tokens4 k) sink rec tpb)))) (card (window_blocks W (tokens4 k) sink rec tpb)) \<and>
    attends sink rec k v {i. i < tokens4 k \<and> (i < sink \<or> tokens4 k - rec \<le> i \<or> (i - sink) div tpb \<in> B)} kv \<and>
    sp_layers p2 = sp_layers p1"
proof -
  let ?p = "new_sw_provider c s sink rec tpb pct cst pre asy"
  have p: "sp_backend ?p = s" "sp_tpb ?p = tpb" "sp_recent ?p = rec" "sp_sink ?p = sink" "sp_pct ?p = pct" "sp_gqa ?p = config_gqa c"
    by (simp_all add: new_sw_provider_def new_provider_def provider.defs)
  obtain layers where x: "past_layers x = Inr layers" "dict_ok layers" "(l, k, v) \<in> set layers"
    "\<forall>(l, k, v)\<in>set layers. kv4_ok hn dn td k \<and> kv4_ok hn dn td v \<and> tokens4 v = tokens4 k"
    using assms(9) by (auto simp: prompt_ok_def)
  obtain P1 p1 ls where one: "sp_init_from_prefill conv sv x ?p = (Inr (), p1)" "inv P1 (sp_backend p1)"
    "sp_kv_heads p1 = int hn" "sp_head_dim p1 = int dn" "sp_gqa p1 = config_gqa c" "sp_tpb p1 = tpb" "sp_sink p1 = sink" "sp_pct p1 = pct"
    "provider.more p1 = provider.more ?p" "dget (sp_layers p1) l = Some ls" "layer_from P1 tpb hn dn dt td sink rec l k v ls"
    using prefill_ok [of "\<lambda>_. None" ?p td x layers l k v conv, unfolded p, OF assms(1,2) refl assms(8,5,6) x(1,2,3,4)] by blast
  have w: "sw_window p1 = W" using one(9) unfolding W by (cases p1, cases ?p) auto
  obtain parts where f: "layer_holds P1 tpb hn dn dt td l ls parts" "\<forall>(a, b)\<in>set parts. length a = length b"
    "blocks_in_place tpb (ls_cands ls) parts" "ls_total ls = tokens4 k"
    "tokens4 (ls_sink_k ls) = (if tokens4 k \<le> sink + rec then tokens4 k else sink)" "tokens4 (ls_sink_v ls) = tokens4 (ls_sink_k ls)"
    "tokens4 (ls_recent_k ls) = (if tokens4 k \<le> sink + rec then 0 else rec)" "tokens4 (ls_recent_v ls) = tokens4 (ls_recent_k ls)"
    "q4_rows k = q4_rows (ls_sink_k ls) @ concat (map fst parts) @ q4_rows (ls_recent_k ls)"
    "q4_rows v = q4_rows (ls_sink_v ls) @ concat (map snd parts) @ q4_rows (ls_recent_v ls)"
    using one(11) by (auto simp: layer_from_def simp del: map_map)
  have la: "list_all2 (block_holds P1 [tpb, hn, dn] dt l) (ls_cands ls) parts" using f(1) by (simp add: layer_holds_def)
  then have len: "length (ls_cands ls) = length parts" by (rule list_all2_lengthD)
  have pos: "\<forall>b<length parts. 0 < length (fst (parts ! b))"
    using la f(3) len by (auto simp: list_all2_conv_all_nth block_holds_def blocks_in_place_def)
  obtain m where m: "m \<le> length parts" "window_cands p1 ls = drop m (ls_cands ls)"
    "\<And>b. b < length parts \<Longrightarrow> m \<le> b \<longleftrightarrow> int (tokens4 k) - W < int (sink + b * tpb + length (fst (parts ! b)))"
    using window_suffix [OF f(3) len one(6) pos] f(4) one(7) w by auto
  let ?ls = "ls\<lparr>ls_cands := drop m (ls_cands ls)\<rparr>"
  let ?p1 = "p1\<lparr>sp_layers := dset l ?ls (sp_layers p1)\<rparr>"
  have cut: "upd_layer l (\<lambda>ls. ls\<lparr>ls_cands := window_cands p1 ls\<rparr>) p1 = ?p1"
    using one(10) m(2) by (simp add: upd_layer_def)
  have h: "layer_holds P1 tpb hn dn dt td l ?ls (drop m parts)"
    using f(1) by (auto simp: layer_holds_def drop_map [symmetric] intro: list_all2_dropI sorted_wrt_drop)
  obtain ak av p2 S where r: "sp_select_and_fetch decode kern tconv sv l (Some q) ?p1 = (Inr (ak, av), p2)" "touched ?p1 p2"
    "length (nths (drop m parts) S) = min (nat (k_to_fetch pct (length (drop m parts)))) (length (drop m parts))"
    "q4_rows ak = q4_rows (ls_sink_k ls) @ concat (map fst (nths (drop m parts) S)) @ q4_rows (ls_recent_k ls)"
    "q4_rows av = q4_rows (ls_sink_v ls) @ concat (map snd (nths (drop m parts) S)) @ q4_rows (ls_recent_v ls)"
    using select_ok [of P1 ?p1 kern l ?ls td "drop m parts" q decode tconv] one(2-5,8) assms(4,5,7,10) h
    unfolding query_ok_def by (auto simp: dict_simps)
  have reset: "upd_layer l (\<lambda>l. l\<lparr>ls_cands := ls_cands ls\<rparr>) p2 = p2\<lparr>sp_layers := sp_layers p1\<rparr>"
    using one(10) by (simp add: upd_layer_def touched_same(1) [OF r(2)] dict_simps dset_again dset_same)
  have run: "sw_select_and_fetch decode kern tconv sv l (Some q) p1 = (Inr (ak, av), p2\<lparr>sp_layers := sp_layers p1\<rparr>)"
    using one(10) m(2) r(1) reset cut by (simp add: sw_select_and_fetch_def meth_run)
  define B where "B = {b. m \<le> b \<and> b < length parts \<and> b - m \<in> S}"
  have pick: "nths (drop m parts) S = nths parts B"
  proof -
    have "nths (take m parts @ drop m parts) {j. m \<le> j \<and> j - m \<in> S} = nths (drop m parts) S"
      using m(1) by (intro nths_suffix) simp
    moreover have "nths parts {j. m \<le> j \<and> j - m \<in> S} = nths parts B" by (rule nths_bounded) (simp add: B_def)
    ultimately show ?thesis by simp
  qed
  have geo: "length (q4_rows (ls_sink_v ls)) = length (q4_rows (ls_sink_k ls))"
    "length (concat (map snd parts)) = length (concat (map fst parts))"
    "length (q4_rows (ls_recent_v ls)) = length (q4_rows (ls_recent_k ls))"
    "tokens4 k = tokens4 (ls_sink_k ls) + length (concat (map fst parts)) + tokens4 (ls_recent_k ls)"
  proof -
    have "length (snd x) = length (fst x)" if "x \<in> set parts" for x using f(2) that by (simp add: case_prod_beta)
    then have "map length (map snd parts) = map length (map fst parts)" by simp
    then show "length (concat (map snd parts)) = length (concat (map fst parts))" by (simp only: length_concat)
  qed (use f(6,8) in \<open>simp_all add: tokens4_def f(9)\<close>)
  have wb: "window_blocks W (tokens4 k) sink rec tpb = {m..<length parts}"
    using window_blocks_range [OF f(3) pos m(3) f(5,7) geo(4)] by blast
  show ?thesis
  proof (intro exI conjI)
    show "sp_init_from_prefill conv sv x ?p = (Inr (), p1)" by (rule one(1))
    show "sw_select_and_fetch decode kern tconv sv l (Some q) p1 = (Inr (ak, av), p2\<lparr>sp_layers := sp_layers p1\<rparr>)" by (rule run)
    show "B \<subseteq> window_blocks W (tokens4 k) sink rec tpb" by (auto simp: wb B_def)
    have "card B = length (nths parts B)" by (simp add: length_nths B_def conj_commute conj_left_commute)
    then show "card B = min (nat (k_to_fetch pct (card (window_blocks W (tokens4 k) sink rec tpb)))) (card (window_blocks W (tokens4 k) sink rec tpb))"
      using r(3) by (simp add: pick wb)
    show "attends sink rec k v {i. i < tokens4 k \<and> (i < sink \<or> tokens4 k - rec \<le> i \<or> (i - sink) div tpb \<in> B)} (ak, av)"
      using r(4,5) unfolding pick by (intro attends_blocks [OF assms(5) f(3) pos f(2,5,7,9,10) geo(1,3)]) simp_all
  qed simp
qed

end

section \<open>Hybrid models\<close>

lemma split_native_keys:
  "distinct (dkeys (fst (split_native i ls d))) \<and>
   (\<forall>(a, k, v)\<in>set (fst (split_native i ls d)). i \<le> a \<and> nat (a - i) < length ls \<and> ls ! nat (a - i) = AttnLayer k v)"
proof (induction i ls d rule: split_native.induct)
  case (2 i k v ls d)
  obtain a e where s: "split_native (i + 1) ls d = (a, e)" by fastforce
  have IH: "distinct (dkeys a)" "\<forall>(a, k, v)\<in>set a. i + 1 \<le> a \<and> nat (a - (i + 1)) < length ls \<and> ls ! nat (a - (i + 1)) = AttnLayer k v"
    using 2 s by simp_all
  have step: "nat (a - i) = Suc (nat (a - (i + 1)))" if "i + 1 \<le> a" for a using that by simp
  show ?case using s IH by (force simp: step image_iff)
next
  case (3 i x ls d)
  have step: "nat (a - i) = Suc (nat (a - (i + 1)))" if "i + 1 \<le> a" for a using that by simp
  show ?case using 3 by (force simp: step)
qed simp

lemma split_attn: "j < length ls \<Longrightarrow> ls ! j = AttnLayer k v \<Longrightarrow> (i + int j, k, v) \<in> set (fst (split_native i ls d))"
proof (induction i ls d arbitrary: j rule: split_native.induct)
  case (2 i k' v' ls d)
  then show ?case by (cases j) (auto split: prod.split simp: algebra_simps)
next
  case (3 i x ls d)
  then show ?case by (cases j) (auto simp: algebra_simps)
qed simp

lemma split_ssm_keep: "a < i \<Longrightarrow> dget (snd (split_native i ls d)) a = dget d a"
  by (induction i ls d rule: split_native.induct) (auto split: prod.split simp: dict_simps)

lemma split_ssm: "j < length ls \<Longrightarrow> ls ! j = SsmLayer x \<Longrightarrow> dget (snd (split_native i ls d)) (i + int j) = Some (x, False)"
proof (induction i ls d arbitrary: j rule: split_native.induct)
  case (2 i k' v' ls d)
  then show ?case by (cases j) (auto split: prod.split simp: algebra_simps)
next
  case (3 i y ls d)
  then show ?case by (cases j) (auto simp: algebra_simps split_ssm_keep dict_simps)
qed simp

section \<open>Properties\<close>

definition sample_tokens :: "nat \<Rightarrow> nat \<Rightarrow> kv4" where
  "sample_tokens i n = \<lparr>q4_dtype = THalf, q4_heads = 1, q4_dim = 1, q4_rows = map (\<lambda>j. [[of_nat j, 0]]) [i..<i + n]\<rparr>"

definition sample_past :: past where
  "sample_past = PDict [(0, (sample_tokens 1 4, sample_tokens 11 4))]"

definition sample_config :: model_config where
  "sample_config = \<lparr>mc_layers = 1, mc_heads = 1, mc_kv_heads = 1, mc_head_dim = 1, mc_window = None, mc_layer_types = None\<rparr>"

lemma sample_prompt: "prompt_ok 1 1 THalf sample_past 0 (sample_tokens 1 4) (sample_tokens 11 4)"
  by (simp add: prompt_ok_def past_layers_def sample_past_def sample_tokens_def dict_ok_def kv4_ok_def half_bits_def tokens4_def)

lemma sample_dtype: "adapter_dtype ''FP16'' = Float16"
  by code_simp

lemma sample_query: "query_ok 1 1 (config_gqa sample_config) [[1]]"
  by (simp add: query_ok_def query_ready_def config_gqa_def sample_config_def)

lemma rb_knows_nothing: "rb_sound b \<Longrightarrow> rb_knows (\<lambda>_. None) b"
  by (simp add: rb_knows_def)

text \<open>C29: After the prefill of any prompt over the inference backend, selection returns keys and
  values of the same positions in the order of the prompt, every sink token and every recent token
  among them; when all blocks are to be fetched, it returns the whole prompt.\<close>

theorem prompt_attended_in_order:
  assumes "rb_sound b" "kernel_ok kern" "0 < h" "0 < d" "0 < tpb" "0 < rec" "np_of td = Some dt"
    and "prompt_ok h d td x l k v" "query_ok h d (config_gqa c) q"
  shows "\<exists>p1 kv p2 I. sp_init_from_prefill conv (rb_service decode kern) x (new_provider c b sink rec tpb pct cst pre asy) = (Inr (), p1) \<and>
    sp_select_and_fetch decode kern tconv (rb_service decode kern) l (Some q) p1 = (Inr kv, p2) \<and> attends sink rec k v I kv \<and>
    (100 \<le> pct \<longrightarrow> q4_rows (fst kv) = q4_rows k \<and> q4_rows (snd kv) = q4_rows v)"
  by (rule kv_serving.prefill_then_select [OF rb_serving [OF assms(2,3)] rb_knows_nothing [OF assms(1)] TrueI assms(3-6,2,7-9)])

theorem prompt_attended_in_order_witness:
  "\<exists>p1 kv p2 I. sp_init_from_prefill (\<lambda>_ _ x. x) (rb_service sample_decode None) sample_past
      (new_provider sample_config (new_backend 8 4 2 256 1024 24 2 1 1 ''tensor_aware'' True 35 350 25) 1 1 1 100 True True False) = (Inr (), p1) \<and>
    sp_select_and_fetch sample_decode None (\<lambda>_ _ x. x) (rb_service sample_decode None) 0 (Some [[1]]) p1 = (Inr kv, p2) \<and>
    attends 1 1 (sample_tokens 1 4) (sample_tokens 11 4) I kv \<and>
    ((100 :: real) \<le> 100 \<longrightarrow> q4_rows (fst kv) = q4_rows (sample_tokens 1 4) \<and> q4_rows (snd kv) = q4_rows (sample_tokens 11 4))"
  by (rule prompt_attended_in_order [OF sample_small_strong _ _ _ _ _ _ sample_prompt sample_query])
    (simp_all add: kernel_ok_def)

lemma ad_knows_new:
  assumes "rb_sound b" "0 < cap" "n \<noteq> 0" "adapter_dtype name = dt"
  shows "ad_knows [t, h, d] dt (\<lambda>_. None) (new_adapter b cap bytes t h d name n async)"
proof -
  have "ad_fresh rb_page (rb_knows (\<lambda>_. None)) (rb_page b) (new_adapter b cap bytes t h d name n async)"
    using rb_knows_nothing [OF assms(1)] by (simp add: new_adapter_def ad_fresh_def staging_fresh_def dict_ok_def)
  then show ?thesis using assms(2-4) by (auto simp: ad_knows_def new_adapter_def ad_default_shape_def new_predictor_def)
qed

text \<open>C30: The same with the prefetch adapter between provider and backend, synchronous or
  asynchronous: staging blocks ahead of their use changes nothing of what is attended.\<close>

theorem prompt_attended_through_prefetch:
  assumes "rb_sound b" "kernel_ok kern" "0 < h" "0 < d" "0 < tpb" "0 < rec" "np_of td = Some dt"
    and "prompt_ok h d td x l k v" "query_ok h d (config_gqa c) q" "0 < cap" "n \<noteq> 0" "adapter_dtype name = dt"
  shows "\<exists>p1 kv p2 I. sp_init_from_prefill conv (ad_service np decode kern) x
      (new_provider c (new_adapter b cap bytes tpb h d name n async) sink rec tpb pct cst pre asy) = (Inr (), p1) \<and>
    sp_select_and_fetch decode kern tconv (ad_service np decode kern) l (Some q) p1 = (Inr kv, p2) \<and> attends sink rec k v I kv \<and>
    (100 \<le> pct \<longrightarrow> q4_rows (fst kv) = q4_rows k \<and> q4_rows (snd kv) = q4_rows v)"
  by (rule kv_serving.prefill_then_select [OF ad_serving [OF assms(2,3)] ad_knows_new [OF assms(1,10-12)] _ assms(3-6,2,7-9)])
    (simp add: new_adapter_def)

theorem prompt_attended_through_prefetch_witness:
  "\<exists>p1 kv p2 I. sp_init_from_prefill (\<lambda>_ _ x. x) (ad_service sample_np sample_decode None) sample_past
      (new_provider sample_config (new_adapter (new_backend 8 4 2 256 1024 24 2 1 1 ''tensor_aware'' True 35 350 25)
        2 4096 1 1 1 ''FP16'' 24 True) 1 1 1 100 True True True) = (Inr (), p1) \<and>
    sp_select_and_fetch sample_decode None (\<lambda>_ _ x. x) (ad_service sample_np sample_decode None) 0 (Some [[1]]) p1 = (Inr kv, p2) \<and>
    attends 1 1 (sample_tokens 1 4) (sample_tokens 11 4) I kv \<and>
    ((100 :: real) \<le> 100 \<longrightarrow> q4_rows (fst kv) = q4_rows (sample_tokens 1 4) \<and> q4_rows (snd kv) = q4_rows (sample_tokens 11 4))"
  by (rule prompt_attended_through_prefetch [OF sample_small_strong _ _ _ _ _ _ sample_prompt sample_query])
    (simp_all add: kernel_ok_def sample_dtype)

text \<open>C33: Decoding loses tokens: each appended token pushes the oldest recent one out, and it is not
  offloaded. After a long prompt and \<open>m\<close> decoded tokens even a full fetch returns the prompt up to
  the recent window and then the window moved by \<open>m\<close>; the \<open>m\<close> tokens between are never attended.\<close>

theorem decoding_drops_recent_tokens:
  assumes "rb_sound b" "kernel_ok kern" "0 < h" "0 < d" "0 < tpb" "0 < rec" "np_of td = Some dt"
    and "prompt_ok h d td x l k v" "query_ok h d (config_gqa c) q" "100 \<le> pct" "sink + rec < tokens4 k"
    and "\<forall>t\<in>set ts. token_ok h d td t"
  shows "\<exists>p1 p2 kv p3. sp_init_from_prefill conv (rb_service decode kern) x (new_provider c b sink rec tpb pct cst pre asy) = (Inr (), p1) \<and>
    decode_tokens l ts p1 = (Inr (), p2) \<and> sp_select_and_fetch decode kern tconv (rb_service decode kern) l (Some q) p2 = (Inr kv, p3) \<and>
    q4_rows (fst kv) = take (tokens4 k - rec) (q4_rows k) @
      drop (length ts) (drop (tokens4 k - rec) (q4_rows k) @ concat (map (\<lambda>t. q4_rows (fst t)) ts)) \<and>
    q4_rows (snd kv) = take (tokens4 k - rec) (q4_rows v) @
      drop (length ts) (drop (tokens4 k - rec) (q4_rows v) @ concat (map (\<lambda>t. q4_rows (snd t)) ts))"
  by (rule kv_serving.decode_after_prefill [OF rb_serving [OF assms(2,3)] rb_knows_nothing [OF assms(1)] TrueI assms(3-6,2,7-12)])

theorem decoding_drops_recent_tokens_witness:
  "\<exists>p1 p2 kv p3. sp_init_from_prefill (\<lambda>_ _ x. x) (rb_service sample_decode None) sample_past
      (new_provider sample_config (new_backend 8 4 2 256 1024 24 2 1 1 ''tensor_aware'' True 35 350 25) 1 2 1 100 True True False) = (Inr (), p1) \<and>
    decode_tokens 0 [(sample_tokens 5 1, sample_tokens 15 1)] p1 = (Inr (), p2) \<and>
    sp_select_and_fetch sample_decode None (\<lambda>_ _ x. x) (rb_service sample_decode None) 0 (Some [[1]]) p2 = (Inr kv, p3) \<and>
    q4_rows (fst kv) = [[[1, 0]], [[2, 0]], [[4, 0]], [[5, 0]]]"
proof -
  note d = decoding_drops_recent_tokens [OF sample_small_strong _ _ _ _ _ _ sample_prompt sample_query, where ts = "[(sample_tokens 5 1, sample_tokens 15 1)]" and
    sink = 1 and rec = 2 and tpb = 1 and pct = 100 and kern = None and decode = sample_decode and conv = "\<lambda>_ _ x. x" and tconv = "\<lambda>_ _ x. x"
    and cst = True and pre = True and asy = False and dt = Float16]
  have "kernel_ok None" "tokens4 (sample_tokens 1 4) = 4" "\<forall>t\<in>set [(sample_tokens 5 1, sample_tokens 15 1)]. token_ok 1 1 THalf t"
    by (simp_all add: kernel_ok_def tokens4_def sample_tokens_def token_ok_def same_kind_def)
  with d show ?thesis by (fastforce simp: sample_tokens_def upt_rec)
qed

text \<open>C31: Selection under a sliding window of \<open>W\<close> tokens attends, in the order of the prompt, every sink
  token, every recent token, and the tokens of a set of offloaded blocks that end inside the
  window: as many of those blocks as the budget of the provider asks for, at least one when there
  is one, and all of them for a budget of 100 per cent, so that then every token of the window is
  attended. No block outside the window is, and the layer's candidate list is afterwards what it
  was before the call.\<close>

theorem sliding_window_attends_window:
  assumes "rb_sound b" "kernel_ok kern" "0 < h" "0 < d" "0 < tpb" "0 < rec" "np_of td = Some dt"
    and "prompt_ok h d td x l k v" "query_ok h d (config_gqa c) q"
    and "W = sw_window (new_sw_provider c b sink rec tpb pct cst pre asy)"
    and "win = window_blocks W (tokens4 k) sink rec tpb"
  shows "\<exists>p1 kv p2 B I. sp_init_from_prefill conv (rb_service decode kern) x (new_sw_provider c b sink rec tpb pct cst pre asy) = (Inr (), p1) \<and>
    sw_select_and_fetch decode kern tconv (rb_service decode kern) l (Some q) p1 = (Inr kv, p2) \<and>
    q4_rows (fst kv) = nths (q4_rows k) I \<and> q4_rows (snd kv) = nths (q4_rows v) I \<and>
    I = {i. i < tokens4 k \<and> (i < sink \<or> tokens4 k - rec \<le> i \<or> (i - sink) div tpb \<in> B)} \<and>
    B \<subseteq> win \<and> card B = min (nat (max 1 \<lceil>of_nat (card win) * (pct / 100)\<rceil>)) (card win) \<and>
    (100 \<le> pct \<longrightarrow> B = win \<and> (\<forall>i<tokens4 k. int (tokens4 k) - W \<le> int i \<longrightarrow> i \<in> I)) \<and>
    sp_layers p2 = sp_layers p1"
proof -
  obtain p1 kv p2 B where r: "sp_init_from_prefill conv (rb_service decode kern) x (new_sw_provider c b sink rec tpb pct cst pre asy) = (Inr (), p1)"
    "sw_select_and_fetch decode kern tconv (rb_service decode kern) l (Some q) p1 = (Inr kv, p2)"
    "B \<subseteq> win" "card B = min (nat (k_to_fetch pct (card win))) (card win)"
    "attends sink rec k v {i. i < tokens4 k \<and> (i < sink \<or> tokens4 k - rec \<le> i \<or> (i - sink) div tpb \<in> B)} kv"
    "sp_layers p2 = sp_layers p1"
    using kv_serving.window_after_prefill [OF rb_serving [OF assms(2,3)] rb_knows_nothing [OF assms(1)] TrueI assms(3-6,2,7-10)]
    unfolding assms(11) by blast
  have all: "B = win" if "100 \<le> pct"
  proof (rule card_subset_eq [OF _ r(3)])
    show "finite win" using finite_window_blocks [OF assms(5)] by (simp only: assms(11))
    have "card win \<le> nat (k_to_fetch pct (card win))" using k_to_fetch_all [OF that, of "card win"] by linarith
    then show "card B = card win" using r(4) by simp
  qed
  let ?I = "{i. i < tokens4 k \<and> (i < sink \<or> tokens4 k - rec \<le> i \<or> (i - sink) div tpb \<in> B)}"
  have kv: "q4_rows (fst kv) = nths (q4_rows k) ?I" "q4_rows (snd kv) = nths (q4_rows v) ?I"
    using r(5) by (simp_all add: attends_def)
  have whole: "B = win \<and> (\<forall>i<tokens4 k. int (tokens4 k) - W \<le> int i \<longrightarrow> i \<in> ?I)" if "100 \<le> pct"
    using all [OF that] window_blocks_cover [OF assms(5), of _ "tokens4 k" W sink rec] unfolding assms(11) by blast
  show ?thesis
    by (rule exI [of _ p1], rule exI [of _ kv], rule exI [of _ p2], rule exI [of _ B], rule exI [of _ ?I], intro conjI)
      (use r(1-3,6) kv whole r(4) [unfolded k_to_fetch_def] in \<open>blast+\<close>)
qed

theorem sliding_window_attends_window_witness:
  "\<exists>p1 kv p2. sp_init_from_prefill (\<lambda>_ _ x. x) (rb_service sample_decode None) sample_past
      (new_sw_provider (sample_config\<lparr>mc_window := Some 2\<rparr>) (new_backend 8 4 2 256 1024 24 2 1 1 ''tensor_aware'' True 35 350 25)
        1 1 1 100 True True False) = (Inr (), p1) \<and>
    sw_select_and_fetch sample_decode None (\<lambda>_ _ x. x) (rb_service sample_decode None) 0 (Some [[1]]) p1 = (Inr kv, p2) \<and>
    q4_rows (fst kv) = [[[1, 0]], [[3, 0]], [[4, 0]]] \<and> sp_layers p2 = sp_layers p1"
proof -
  let ?c = "sample_config\<lparr>mc_window := Some 2\<rparr>"
  let ?p = "new_sw_provider ?c (new_backend 8 4 2 256 1024 24 2 1 1 ''tensor_aware'' True 35 350 25) 1 1 1 100 True True False"
  have q: "query_ok 1 1 (config_gqa ?c) [[1]]" by (simp add: query_ok_def query_ready_def config_gqa_def sample_config_def)
  have W: "2 = sw_window ?p" by (simp add: new_sw_provider_def provider.defs)
  have win: "window_blocks 2 (tokens4 (sample_tokens 1 4)) 1 1 1 = {1}"
    by (auto simp: window_blocks_def tokens4_def sample_tokens_def)
  obtain p1 kv p2 B I where w: "sp_init_from_prefill (\<lambda>_ _ x. x) (rb_service sample_decode None) sample_past ?p = (Inr (), p1)"
    "sw_select_and_fetch sample_decode None (\<lambda>_ _ x. x) (rb_service sample_decode None) 0 (Some [[1]]) p1 = (Inr kv, p2)"
    "q4_rows (fst kv) = nths (q4_rows (sample_tokens 1 4)) I"
    "I = {i. i < tokens4 (sample_tokens 1 4) \<and> (i < 1 \<or> tokens4 (sample_tokens 1 4) - 1 \<le> i \<or> (i - 1) div 1 \<in> B)}"
    "(100 :: real) \<le> 100 \<longrightarrow> B = window_blocks 2 (tokens4 (sample_tokens 1 4)) 1 1 1" "sp_layers p2 = sp_layers p1"
    using sliding_window_attends_window [OF sample_small_strong _ _ _ _ _ _ sample_prompt q W refl, where
      kern = None and decode = sample_decode and conv = "\<lambda>_ _ x. x" and tconv = "\<lambda>_ _ x. x" and dt = Float16]
    by (fastforce simp: kernel_ok_def)
  have "B = {1}" using w(5) win by simp
  then have I: "I = {0, 2, 3}" using w(4) by (auto simp: tokens4_def sample_tokens_def)
  have "q4_rows (fst kv) = [[[1, 0]], [[3, 0]], [[4, 0]]]"
    unfolding w(3) I by (simp add: sample_tokens_def upt_rec nths_Cons)
  then show ?thesis using w(1,2,6) by blast
qed

text \<open>C32: A hybrid model's layers are told apart: after the prefill, an attention layer is selected
  from its offloaded prompt, and a state-space layer is handed back as the model gave it.\<close>

theorem hybrid_routes_layers:
  assumes "rb_sound b" "kernel_ok kern" "0 < h" "0 < d" "0 < tpb" "0 < rec" "np_of td = Some dt"
    and "\<forall>j<length ls. \<forall>k v. ls ! j = AttnLayer k v \<longrightarrow> kv4_ok h d td k \<and> kv4_ok h d td v \<and> tokens4 v = tokens4 k"
    and "i < length ls" "ls ! i = AttnLayer k v" "is_layer_attention c (int i)"
    and "j < length ls" "ls ! j = SsmLayer x" "\<not> is_layer_attention c (int j)" "query_ok h d (config_gqa c) q"
  shows "\<exists>y1 kv y2 I. hy_init_from_prefill conv (rb_service decode kern) ls (new_hybrid c b sink rec tpb pct cst pre asy) = (Inr (), y1) \<and>
    hy_select_and_fetch decode kern tconv (rb_service decode kern) (int i) (Some q) y1 = (Inr (Inl kv), y2) \<and> attends sink rec k v I kv \<and>
    hy_select_and_fetch decode kern tconv (rb_service decode kern) (int j) query y1 = (Inr (Inr (Some (x, False))), y1)"
proof -
  let ?attn = "fst (split_native 0 ls [])" and ?ssm = "snd (split_native 0 ls [])"
  have pr: "prompt_ok h d td (PDict ?attn) (int i) k v"
    unfolding prompt_ok_def using split_attn [OF assms(9,10), of 0 "[]"] assms(8) split_native_keys [of 0 ls "[]"]
    by (intro exI [of _ ?attn]) (auto simp: past_layers_def dict_ok_def)
  have "\<exists>p1 kv p2 I. sp_init_from_prefill conv (rb_service decode kern) (PDict ?attn)
      (new_provider c b sink rec tpb pct cst pre asy) = (Inr (), p1) \<and>
    sp_select_and_fetch decode kern tconv (rb_service decode kern) (int i) (Some q) p1 = (Inr kv, p2) \<and> attends sink rec k v I kv \<and>
    (100 \<le> pct \<longrightarrow> q4_rows (fst kv) = q4_rows k \<and> q4_rows (snd kv) = q4_rows v)"
    by (rule kv_serving.prefill_then_select [OF rb_serving [OF assms(2,3)] rb_knows_nothing [OF assms(1)] TrueI assms(3-6,2,7) pr assms(15)])
  then obtain p1 kv p2 I where one: "sp_init_from_prefill conv (rb_service decode kern) (PDict ?attn)
      (new_provider c b sink rec tpb pct cst pre asy) = (Inr (), p1)"
    "sp_select_and_fetch decode kern tconv (rb_service decode kern) (int i) (Some q) p1 = (Inr kv, p2)" "attends sink rec k v I kv"
    by blast
  let ?y = "\<lparr>hy_attn = p1, hy_config = c, hy_ssm = ?ssm, hy_native = map strip_native ls\<rparr>"
  have "hy_init_from_prefill conv (rb_service decode kern) ls (new_hybrid c b sink rec tpb pct cst pre asy) = (Inr (), ?y)"
    using one(1) by (simp add: hy_init_from_prefill_def new_hybrid_def on_attn_def meth_run case_prod_beta)
  moreover have "hy_select_and_fetch decode kern tconv (rb_service decode kern) (int i) (Some q) ?y = (Inr (Inl kv), ?y\<lparr>hy_attn := p2\<rparr>)"
    using one(2) assms(11) by (simp add: hy_select_and_fetch_def on_attn_def meth_run)
  moreover have "hy_select_and_fetch decode kern tconv (rb_service decode kern) (int j) query ?y = (Inr (Inr (Some (x, False))), ?y)"
    using split_ssm [OF assms(12,13), of 0 "[]"] assms(14) by (simp add: hy_select_and_fetch_def meth_run)
  ultimately show ?thesis using one(3) by blast
qed

definition sample_hybrid :: "string native_layer list" where
  "sample_hybrid = [AttnLayer (sample_tokens 1 4) (sample_tokens 11 4), SsmLayer ''state'']"

theorem hybrid_routes_layers_witness:
  "\<exists>y1 kv y2 I. hy_init_from_prefill (\<lambda>_ _ x. x) (rb_service sample_decode None) sample_hybrid
      (new_hybrid (sample_config\<lparr>mc_layer_types := Some [''attention'', ''ssm'']\<rparr>)
        (new_backend 8 4 2 256 1024 24 2 1 1 ''tensor_aware'' True 35 350 25) 1 1 1 50 False True False) = (Inr (), y1) \<and>
    hy_select_and_fetch sample_decode None (\<lambda>_ _ x. x) (rb_service sample_decode None) (int 0) (Some [[1]]) y1 = (Inr (Inl kv), y2) \<and>
    attends 1 1 (sample_tokens 1 4) (sample_tokens 11 4) I kv \<and>
    hy_select_and_fetch sample_decode None (\<lambda>_ _ x. x) (rb_service sample_decode None) (int 1) None y1 = (Inr (Inr (Some (''state'', False))), y1)"
  by (rule hybrid_routes_layers [OF sample_small_strong, where h = 1 and d = 1 and td = THalf and dt = Float16])
    (auto simp: kernel_ok_def sample_hybrid_def sample_tokens_def kv4_ok_def half_bits_def tokens4_def less_Suc_eq nth_Cons
      is_layer_attention_def layer_type_in_def query_ok_def query_ready_def config_gqa_def sample_config_def)

end
