(* ===== verification/SystemPipeline.thy ===== *)
theory SystemPipeline
  imports PhysicalAdapter Prefetchers TopkFilter
begin

text \<open>
  The system interface of the third subsystem: requests and responses
  (\<open>common/schemas/request.py\<close>, \<open>result.py\<close>, \<open>api/requests.py\<close>, \<open>responses.py\<close>), the gateway
  (\<open>api/ai_ssd.py\<close>), the orchestrator that wires tiering, physical adapter and prefetcher together
  (\<open>integration/orchestrator.py\<close>) and the simulated decoding loop (\<open>integration/pipeline.py\<close>).
  Tiering manager and gateway share one adapter: it lives in the manager. The prefetcher is the
  adapter's only listener; a listener reads its event and changes nothing but the prefetcher, so
  it is run on the events of a call after the call.
\<close>

section \<open>Requests and responses\<close>

text \<open>\<open>NoOperation\<close> stands for a value outside the enumeration, printed as the given text.\<close>

datatype kv_operation = KV_WRITE | KV_READ | KV_EVICT | KV_PREFETCH | KV_TOPK | NoOperation string

record kv_request =
  rq_id :: string
  rq_op :: kv_operation
  rq_layer :: int
  rq_head :: int
  rq_query :: "int option"
  rq_cands :: "int list"
  rq_topk :: "int option"
  rq_writes :: "int list"
  rq_target :: "string option"

datatype op_status = SUCCESS | CACHE_HIT | EVICTED | ERROR

record kv_response =
  rs_id :: string
  rs_status :: op_status
  rs_selected :: "int list"
  rs_requested :: int
  rs_transferred :: int
  rs_latency :: real
  rs_hit :: bool
  rs_details :: "string option"

definition success_response :: "string \<Rightarrow> int list \<Rightarrow> int \<Rightarrow> int \<Rightarrow> real \<Rightarrow> bool \<Rightarrow> kv_response" where
  "success_response i sel req tr lat hit = \<lparr>rs_id = i, rs_status = SUCCESS, rs_selected = sel, rs_requested = req,
     rs_transferred = tr, rs_latency = lat, rs_hit = hit, rs_details = None\<rparr>"

definition error_response :: "string \<Rightarrow> string \<Rightarrow> kv_response" where
  "error_response i d = \<lparr>rs_id = i, rs_status = ERROR, rs_selected = [], rs_requested = 0, rs_transferred = 0,
     rs_latency = 0, rs_hit = False, rs_details = Some d\<rparr>"

text \<open>\<open>f"req_{n:06d}"\<close> for the positive counter.\<close>

definition request_id_str :: "nat \<Rightarrow> string" where
  "request_id_str n = ''req_'' @ replicate (6 - length (show_nat n)) (CHR ''0'') @ show_nat n"

definition create_topk_request :: "int \<Rightarrow> int \<Rightarrow> int list \<Rightarrow> int \<Rightarrow> int option \<Rightarrow> nat \<Rightarrow> kv_request \<times> nat" where
  "create_topk_request layer head cands k q c = (\<lparr>rq_id = request_id_str (c + 1), rq_op = KV_TOPK, rq_layer = layer,
     rq_head = head, rq_query = q, rq_cands = cands, rq_topk = Some k, rq_writes = [], rq_target = None\<rparr>, c + 1)"

definition create_prefetch_request :: "int \<Rightarrow> int list \<Rightarrow> nat \<Rightarrow> kv_request \<times> nat" where
  "create_prefetch_request layer cands c = (\<lparr>rq_id = request_id_str (c + 1), rq_op = KV_PREFETCH, rq_layer = layer,
     rq_head = 0, rq_query = None, rq_cands = cands, rq_topk = None, rq_writes = [], rq_target = None\<rparr>, c + 1)"

section \<open>The gateway\<close>

text \<open>What \<open>hasattr\<close> finds in the storage engine.\<close>

record 's ssd_engine =
  en_latency :: "(int list \<Rightarrow> ('s, real) meth) option"
  en_prefetch :: "(int list \<Rightarrow> int \<Rightarrow> ('s, unit) meth) option"
  en_evict :: "(int \<Rightarrow> int \<Rightarrow> ('s, unit) meth) option"

text \<open>The gateway also keeps a \<open>kv_engine\<close> it is given, and none of its methods uses it.\<close>

record 's gateway =
  gw_ssd :: 's
  gw_prefetcher :: "spec_prefetcher option"

definition on_engine :: "('s, 'a) meth \<Rightarrow> ('s gateway, 'a) meth" where
  "on_engine m g = (case m (gw_ssd g) of (r, s) \<Rightarrow> (r, g\<lparr>gw_ssd := s\<rparr>))"

definition on_prefetcher :: "'a \<Rightarrow> (spec_prefetcher, 'a) meth \<Rightarrow> ('s gateway, 'a) meth" where
  "on_prefetcher x m g = (case gw_prefetcher g of
     None \<Rightarrow> (Inr x, g)
   | Some p \<Rightarrow> (case m p of (r, p') \<Rightarrow> (r, g\<lparr>gw_prefetcher := Some p'\<rparr>)))"

definition engine_latency :: "'s ssd_engine \<Rightarrow> int list \<Rightarrow> ('s gateway, real) meth" where
  "engine_latency en ids = (case en_latency en of
     None \<Rightarrow> sret (real (length ids) * 25) | Some f \<Rightarrow> on_engine (f ids))"

definition topk_count :: "kv_request \<Rightarrow> int" where
  "topk_count r = (let n = int (length (rq_cands r));
       k = (case rq_topk r of Some k \<Rightarrow> if k \<noteq> 0 then k else min n 16 | None \<Rightarrow> min n 16)
     in if rq_cands r = [] then 0 else min k n)"

definition handle_topk :: "'s ssd_engine \<Rightarrow> kv_request \<Rightarrow> ('s gateway, kv_response) meth" where
  "handle_topk en r =
     (let cands = rq_cands r; sel = slice_to (topk_count r) cands
      in sbind (if cands = [] then sret False else on_prefetcher False (sp_is_staged cands (Some (rq_layer r)) 70)) (\<lambda>hit.
         sbind (if hit then sret 1 else engine_latency en sel) (\<lambda>lat.
         sret (success_response (rq_id r) sel (int (length cands) * 4096) (int (length sel) * 4096) lat hit))))"

definition handle_read :: "'s ssd_engine \<Rightarrow> kv_request \<Rightarrow> ('s gateway, kv_response) meth" where
  "handle_read en r =
     (let cands = rq_cands r; n = int (length cands) * 4096
      in sbind (engine_latency en cands) (\<lambda>lat. sret (success_response (rq_id r) cands n n lat False)))"

definition handle_write :: "kv_request \<Rightarrow> ('s gateway, kv_response) meth" where
  "handle_write r =
     (let bs = (if rq_writes r \<noteq> [] then rq_writes r else rq_cands r); n = int (length bs) * 4096
      in sret (success_response (rq_id r) bs n n (real (length bs) * 200) False))"

text \<open>Exceptions of the engine's own prefetch are dropped, its effects stay.\<close>

definition handle_prefetch :: "'s ssd_engine \<Rightarrow> kv_request \<Rightarrow> ('s gateway, kv_response) meth" where
  "handle_prefetch en r =
     (let cands = rq_cands r
      in sthen (if cands = [] then sret () else on_prefetcher () (sp_stage_blocks cands (rq_layer r)))
        (sthen (case en_prefetch en of None \<Rightarrow> sret ()
                | Some f \<Rightarrow> supd (\<lambda>g. snd (on_engine (f cands (rq_layer r)) g)))
               (sret (success_response (rq_id r) cands (int (length cands) * 4096) 0 1 True))))"

definition handle_evict :: "'s ssd_engine \<Rightarrow> kv_request \<Rightarrow> ('s gateway, kv_response) meth" where
  "handle_evict en r =
     sthen (case en_evict en of None \<Rightarrow> sret ()
            | Some f \<Rightarrow> sfor (\<lambda>b _. on_engine (f b (rq_layer r))) (rq_cands r) ())
           (sret (success_response (rq_id r) (rq_cands r) 0 0 5 False))"

definition execute :: "'s ssd_engine \<Rightarrow> kv_request \<Rightarrow> ('s gateway, kv_response) meth" where
  "execute en r = (case rq_op r of
     KV_TOPK \<Rightarrow> handle_topk en r
   | KV_READ \<Rightarrow> handle_read en r
   | KV_WRITE \<Rightarrow> handle_write r
   | KV_PREFETCH \<Rightarrow> handle_prefetch en r
   | KV_EVICT \<Rightarrow> handle_evict en r
   | NoOperation s \<Rightarrow> sret (error_response (rq_id r) (''Unsupported operation '' @ s)))"

text \<open>The physical adapter has no latency estimate of its own; the storage simulator has nothing else.\<close>

definition physical_engine :: "phys_adapter ssd_engine" where
  "physical_engine = \<lparr>en_latency = None,
     en_prefetch = Some (\<lambda>ids layer. sbind (pa_prefetch_kv ids layer) (\<lambda>_. sret ())),
     en_evict = Some (\<lambda>bid layer. sbind (pa_evict_kv bid layer) (\<lambda>_. sret ()))\<rparr>"

definition simulator_engine :: "simulator ssd_engine" where
  "simulator_engine = \<lparr>en_latency = Some (\<lambda>ids s. case sim_estimate_read_latency ids s of (u, s') \<Rightarrow> (Inr u, s')),
     en_prefetch = None, en_evict = None\<rparr>"

section \<open>The orchestrator\<close>

record orchestrator =
  or_mode :: string
  or_manager :: "phys_adapter tier_mgr"
  or_prefetcher :: "spec_prefetcher option"

definition system_policy :: tier_policy where
  "system_policy = \<lparr>sink_tokens = 64, sliding_window_tokens = 512, tp_tokens_per_block = 16\<rparr>"

text \<open>An orchestrator that is given no engines of its own; the number of layers only configures attention.\<close>

definition new_orchestrator :: "bool \<Rightarrow> string \<Rightarrow> nat \<Rightarrow> nat \<Rightarrow> string \<Rightarrow> orchestrator" where
  "new_orchestrator enable md heads hdim dt = \<lparr>or_mode = md,
     or_manager = new_manager system_policy heads hdim (if dt = ''FP16'' then Float16 else Float32)
       (new_phys_adapter md 8 SSD_DIES_PER_CHANNEL SSD_PLANES_PER_DIE 64 1024 None),
     or_prefetcher = (if enable then Some (new_spec 512 4096 65) else None)\<rparr>"

text \<open>The listener: prefetches are ignored, other accesses stage the same blocks of the next layer.\<close>

definition on_access :: "pa_event \<Rightarrow> spec_prefetcher \<Rightarrow> spec_prefetcher" where
  "on_access ev p = (if pe_op ev \<in> {''PREFETCH_KV'', ''PREFETCH''} \<or> pe_blocks ev = [] then p
     else fst (snd (sp_prefetch_next_layer None (pe_layer ev) (pe_blocks ev) (p, ()))))"

definition new_events :: "orchestrator \<Rightarrow> phys_adapter tier_mgr \<Rightarrow> pa_event list" where
  "new_events o1 m = drop (length (pa_log (tm_store (or_manager o1)))) (pa_log (tm_store m))"

text \<open>A call of the tiering manager, and a request through the gateway.\<close>

definition orch_kv :: "(phys_adapter tier_mgr, 'a) meth \<Rightarrow> (orchestrator, 'a) meth" where
  "orch_kv f o1 = (case f (or_manager o1) of (r, m) \<Rightarrow>
     (r, o1\<lparr>or_manager := m, or_prefetcher := map_option (fold on_access (new_events o1 m)) (or_prefetcher o1)\<rparr>))"

definition orch_execute :: "kv_request \<Rightarrow> (orchestrator, kv_response) meth" where
  "orch_execute r o1 =
     (case execute physical_engine r \<lparr>gw_ssd = tm_store (or_manager o1), gw_prefetcher = or_prefetcher o1\<rparr> of
        (res, g) \<Rightarrow> (let m = (or_manager o1)\<lparr>tm_store := gw_ssd g\<rparr>
          in (res, o1\<lparr>or_manager := m, or_prefetcher := map_option (fold on_access (new_events o1 m)) (gw_prefetcher g)\<rparr>)))"

record system_telemetry =
  sy_mode :: string
  sy_storage :: pa_telemetry
  sy_prefetch :: "spec_telemetry option"
  sy_host_mb :: real
  sy_ssd_mb :: real

definition orch_get_telemetry :: "orchestrator \<Rightarrow> system_telemetry" where
  "orch_get_telemetry o1 = (let m = or_manager o1
     in \<lparr>sy_mode = pa_mode (tm_store m), sy_storage = pa_get_telemetry (tm_store m),
         sy_prefetch = map_option sp_get_telemetry (or_prefetcher o1),
         sy_host_mb = real (host_ram_bytes m) / (1024 * 1024), sy_ssd_mb = real (offloaded_bytes m) / (1024 * 1024)\<rparr>)"

section \<open>The simulated decoding loop\<close>

definition run_decode_layer :: "int \<Rightarrow> int \<Rightarrow> int list \<Rightarrow> int \<Rightarrow> nat \<Rightarrow> (orchestrator, kv_response) meth \<times> nat" where
  "run_decode_layer layer head cands k c =
     (case create_topk_request layer head cands k None c of (r, c') \<Rightarrow> (orch_execute r, c'))"

definition cold_blocks :: "int \<Rightarrow> real \<Rightarrow> int" where
  "cold_blocks ctx off = max 1 (trunc (of_int (max 1 (ctx div 16)) * (off / 100)))"

definition topk_blocks :: "int \<Rightarrow> real \<Rightarrow> real \<Rightarrow> int" where
  "topk_blocks ctx off pct = max 1 (trunc (of_int (cold_blocks ctx off) * (pct / 100)))"

definition sample_kv_block :: "int \<Rightarrow> kv_block" where
  "sample_kv_block bid = create_default bid 0 (bid * 16) 16 0 1 128 ''FP16'' ''SSD'' 1"

text \<open>The sample goes into two fresh simulators, first conventional, then tensor-aware.\<close>

definition store_sample :: "int \<Rightarrow> unit \<Rightarrow> (simulator \<times> simulator, unit) meth" where
  "store_sample bid _ = (\<lambda>(c, t). case sim_store_block (sample_kv_block bid) c of
     (Inl e, c') \<Rightarrow> (Inl e, (c', t))
   | (Inr _, c') \<Rightarrow> (case sim_store_block (sample_kv_block bid) t of
       (Inl e, t') \<Rightarrow> (Inl e, (c', t')) | (Inr _, t') \<Rightarrow> (Inr (), (c', t'))))"

definition compare_ftls :: "int \<Rightarrow> (real \<times> real) res" where
  "compare_ftls k = (case sfor store_sample [0..k - 1] ()
        (new_simulator ''conventional'' 8 SSD_DIES_PER_CHANNEL SSD_PLANES_PER_DIE 64,
         new_simulator ''tensor_aware'' 8 SSD_DIES_PER_CHANNEL SSD_PLANES_PER_DIE 64) of
     (Inl e, _) \<Rightarrow> Inl e
   | (Inr _, (c, t)) \<Rightarrow> Inr (fst (sim_estimate_read_latency [0..k - 1] c), fst (sim_estimate_read_latency [0..k - 1] t)))"

definition decode_layer_step :: "int list \<Rightarrow> real \<Rightarrow> int \<Rightarrow> unit \<Rightarrow> (spec_prefetcher \<times> phys_adapter, unit) meth" where
  "decode_layer_step ids lat l _ = (\<lambda>(p, a). case sp_is_staged ids (Some l) lat p of
     (Inl e, p') \<Rightarrow> (Inl e, (p', a))
   | (Inr _, p') \<Rightarrow> sbind (sp_prefetch_next_layer (Some (\<lambda>ids l a. snd (pa_prefetch_kv ids l a))) l ids) (\<lambda>_. sret ()) (p', a))"

record sim_report =
  sr_context :: int
  sr_baseline_mb :: real
  sr_proposed_mb :: real
  sr_reduction :: real
  sr_requested :: int
  sr_transferred :: int
  sr_traffic :: real
  sr_conv_us :: real
  sr_ta_us :: real
  sr_speedup :: real
  sr_hit_rate :: real
  sr_stalls :: int
  sr_bubble :: real
  sr_base_ms :: real
  sr_proposed_ms :: real
  sr_overhead :: real

definition sim_summary :: "int \<Rightarrow> real \<Rightarrow> real \<Rightarrow> int \<Rightarrow> int \<Rightarrow> real \<times> real \<Rightarrow> real \<times> int \<times> real \<Rightarrow> sim_report res" where
  "sim_summary ctx mb off req tr lats pref = (case (lats, pref) of ((conv, ta), (rate, stalls, bubble)) \<Rightarrow>
     (let base = 100 + of_int ctx / 1000 * 0.5; prop = base + bubble / 1000
      in if base = 0 then Inl ZeroDivisionError
         else Inr \<lparr>sr_context = ctx, sr_baseline_mb = round_to 1 mb, sr_proposed_mb = round_to 1 (mb * (1 - off / 100)),
           sr_reduction = round_to 1 off, sr_requested = req, sr_transferred = tr,
           sr_traffic = round_to 1 ((1 - of_int tr / of_int req) * 100),
           sr_conv_us = round_to 1 conv, sr_ta_us = round_to 1 ta,
           sr_speedup = round_to 2 (if 0 < ta then conv / ta else 1),
           sr_hit_rate = round_to 2 rate, sr_stalls = stalls, sr_bubble = round_to 1 bubble,
           sr_base_ms = round_to 2 base, sr_proposed_ms = round_to 2 prop,
           sr_overhead = round_to 1 ((prop - base) / base * 100)\<rparr>))"

text \<open>The prefetcher is emptied and given room for four samples, and stays so afterwards.\<close>

definition run_prefetch_loop :: "int \<Rightarrow> int \<Rightarrow> real \<Rightarrow> (orchestrator, real \<times> int \<times> real) meth" where
  "run_prefetch_loop layers k lat o1 = (case or_prefetcher o1 of
     None \<Rightarrow> (Inr (0, layers, of_int layers * lat), o1)
   | Some p \<Rightarrow>
       (case sfor (decode_layer_step [0..k - 1] lat) [0..layers - 1] ()
               ((sp_clear p)\<lparr>sp_capacity := max 512 (k * 4)\<rparr>, tm_store (or_manager o1)) of (r, (p', a)) \<Rightarrow>
          (map_sum id (\<lambda>_. (sp_hit_rate p', sp_stalls p', sp_stall_time p')) r,
           o1\<lparr>or_prefetcher := Some p', or_manager := (or_manager o1)\<lparr>tm_store := a\<rparr>\<rparr>)))"

definition run_simulation ::
    "int \<Rightarrow> int \<Rightarrow> int \<Rightarrow> int \<Rightarrow> real \<Rightarrow> real \<Rightarrow> string \<Rightarrow> (orchestrator, sim_report) meth" where
  "run_simulation ctx layers heads hdim off pct dt =
     (let elem = (if upper_str dt = ''FP16'' then 2 else 4); cold = cold_blocks ctx off; k = topk_blocks ctx off pct;
          mb = of_int (2 * layers * heads * hdim * ctx * elem) / (1024 * 1024);
          req = layers * cold * 4096; tr = layers * k * 4096
      in if req = 0 then sraise ZeroDivisionError
         else sbind (slift (compare_ftls k)) (\<lambda>lats.
              sbind (run_prefetch_loop layers k (snd lats)) (\<lambda>pref.
              slift (sim_summary ctx mb off req tr lats pref))))"

section \<open>The staging buffer keeps what was staged last\<close>

text \<open>The keys in \<open>S\<close> are the newest ones.\<close>

definition lru :: "'k set \<Rightarrow> ('k, 'v) dict \<Rightarrow> bool" where
  "lru S d \<longleftrightarrow> dict_ok d \<and> (\<exists>old new. dkeys d = old @ new \<and> set new = S)"

lemma dkeys_dpop: "dkeys (dpop k d) = filter (\<lambda>j. j \<noteq> k) (dkeys d)"
  by (induction d) auto

lemma lru_move: "lru S d \<Longrightarrow> dmem k d \<Longrightarrow> lru (insert k S) (move_to_end k d)"
proof -
  assume a: "lru S d" "dmem k d"
  then obtain old new where k: "dkeys d = old @ new" "set new = S" by (auto simp: lru_def)
  obtain v where "dget d k = Some v" using a(2) by (auto simp: dmem_def)
  then have "dkeys (move_to_end k d) = filter (\<lambda>j. j \<noteq> k) old @ (filter (\<lambda>j. j \<noteq> k) new @ [k])"
    by (simp add: move_to_end_def dkeys_dpop k(1))
  moreover have "set (filter (\<lambda>j. j \<noteq> k) new @ [k]) = insert k S" using k(2) by auto
  moreover have "dict_ok (move_to_end k d)" using a(1) by (simp add: lru_def)
  ultimately show ?thesis unfolding lru_def by blast
qed

lemma lru_push: "lru S d \<Longrightarrow> \<not> dmem k d \<Longrightarrow> lru (insert k S) (dset k v d)"
proof -
  assume a: "lru S d" "\<not> dmem k d"
  then obtain old new where k: "dkeys d = old @ new" "set new = S" by (auto simp: lru_def)
  have "dkeys (dset k v d) = old @ (new @ [k])" using a(2) k(1) by (simp add: dset_fresh)
  then show ?thesis using a(1) k(2) unfolding lru_def
    by (intro conjI dict_ok_dset exI [of _ old] exI [of _ "new @ [k]"]) auto
qed

lemma lru_evict: "lru S (x # d) \<Longrightarrow> card S < length (x # d) \<Longrightarrow> lru S d"
proof -
  assume a: "lru S (x # d)" "card S < length (x # d)"
  then obtain old new where k: "dkeys (x # d) = old @ new" "set new = S" by (auto simp: lru_def)
  have "distinct (old @ new)" using a(1) k(1) by (metis dict_ok_def lru_def)
  then have "card S = length new" using k(2) by (auto simp: distinct_card)
  moreover have "length (x # d) = length old + length new" using k(1) by (metis length_append length_map)
  ultimately obtain y ys where "old = y # ys" using a(2) by (cases old) auto
  then have "dkeys d = ys @ new" using k(1) by simp
  then show ?thesis using a(1) k(2) by (auto simp: lru_def dict_ok_def)
qed

text \<open>What staging leaves alone.\<close>

definition restaged :: "spec_prefetcher \<Rightarrow> spec_prefetcher \<Rightarrow> bool" where
  "restaged p p' \<longleftrightarrow> (\<exists>d l n. p' = p\<lparr>sp_buffer := d, sp_legacy := l, sp_prefetched_bytes := n\<rparr>)"

lemma restagedI: "restaged p (p\<lparr>sp_buffer := d, sp_legacy := l, sp_prefetched_bytes := n\<rparr>)"
  unfolding restaged_def by blast

lemma restaged_trans: "restaged p q \<Longrightarrow> restaged q r \<Longrightarrow> restaged p r"
  unfolding restaged_def by force

lemma restaged_same:
  "restaged p p' \<Longrightarrow> sp_capacity p' = sp_capacity p \<and> sp_predictor p' = sp_predictor p \<and> sp_compute p' = sp_compute p \<and>
   sp_hits p' = sp_hits p \<and> sp_misses p' = sp_misses p \<and> sp_blocks_hit p' = sp_blocks_hit p \<and>
   sp_blocks_requested p' = sp_blocks_requested p \<and> sp_stalls p' = sp_stalls p \<and> sp_stall_time p' = sp_stall_time p"
  by (auto simp: restaged_def)

lemma stage_one_ok:
  assumes "lru (Pair l ` S) (sp_buffer p)" "finite S" "card (insert b S) \<le> nat (sp_capacity p)"
  shows "\<exists>p'. sp_stage_one l b u p = (Inr (), p') \<and> lru (Pair l ` insert b S) (sp_buffer p') \<and> restaged p p' \<and>
    set (dkeys (sp_buffer p')) \<subseteq> insert (l, b) (set (dkeys (sp_buffer p)))"
proof -
  let ?d = "sp_buffer p"
  let ?legacy = "if int (length (sp_legacy p)) < sp_capacity p \<and> b \<notin> set (sp_legacy p) then sp_legacy p @ [b] else sp_legacy p"
  have "\<exists>d'. sp_stage_one l b u p = (Inr (), p\<lparr>sp_buffer := d', sp_legacy := ?legacy,
      sp_prefetched_bytes := sp_prefetched_bytes p + sp_block_bytes p\<rparr>) \<and> lru (insert (l, b) (Pair l ` S)) d' \<and>
      set (dkeys d') \<subseteq> insert (l, b) (set (dkeys ?d))"
  proof (cases "dmem (l, b) ?d")
    case True
    then have "set (dkeys (move_to_end (l, b) ?d)) \<subseteq> insert (l, b) (set (dkeys ?d))"
      by (auto simp: move_to_end_def dmem_def dkeys_dpop simp del: set_map)
    then show ?thesis using True lru_move [OF assms(1) True] by (auto simp: sp_stage_one_def Let_def simp del: set_map)
  next
    case new: False
    then have "b \<notin> S" using assms(1) by (auto simp: lru_def dmem_keys simp del: set_map)
    then have small: "card (Pair l ` S) < nat (sp_capacity p)"
      using assms(2,3) by (simp add: card_image inj_on_def)
    show ?thesis
    proof (cases "sp_capacity p \<le> int (length ?d)")
      case True
      then have big: "card (Pair l ` S) < length ?d" using small by linarith
      then obtain x d where d: "?d = x # d" by (cases ?d) auto
      have "lru (Pair l ` S) d" using lru_evict assms(1) big unfolding d by blast
      moreover have "\<not> dmem (l, b) d" using new by (auto simp: d dmem_keys)
      ultimately show ?thesis using new True lru_push [of "Pair l ` S" d "(l, b)" True]
        by (auto simp: sp_stage_one_def Let_def d dset_fresh simp del: set_map)
    next
      case False
      then show ?thesis using new lru_push [OF assms(1) new, of True]
        by (auto simp: sp_stage_one_def Let_def dset_fresh simp del: set_map)
    qed
  qed
  then obtain d' where d': "sp_stage_one l b u p = (Inr (), p\<lparr>sp_buffer := d', sp_legacy := ?legacy,
      sp_prefetched_bytes := sp_prefetched_bytes p + sp_block_bytes p\<rparr>)" "lru (insert (l, b) (Pair l ` S)) d'"
    "set (dkeys d') \<subseteq> insert (l, b) (set (dkeys ?d))" by blast
  let ?p = "p\<lparr>sp_buffer := d', sp_legacy := ?legacy, sp_prefetched_bytes := sp_prefetched_bytes p + sp_block_bytes p\<rparr>"
  have "sp_buffer ?p = d'" by simp
  then show ?thesis using d' restagedI [where p = p and d = d' and l = ?legacy] unfolding image_insert by metis
qed

lemma stage_blocks_from:
  assumes "lru (Pair l ` S) (sp_buffer p)" "finite S" "card (S \<union> set ids) \<le> nat (sp_capacity p)"
  shows "\<exists>p'. sp_stage_blocks ids l p = (Inr (), p') \<and> lru (Pair l ` (S \<union> set ids)) (sp_buffer p') \<and> restaged p p' \<and>
    set (dkeys (sp_buffer p')) \<subseteq> set (dkeys (sp_buffer p)) \<union> Pair l ` set ids"
  using assms
proof (induction ids arbitrary: p S)
  case Nil
  have "restaged p p" unfolding restaged_def
    by (intro exI [of _ "sp_buffer p"] exI [of _ "sp_legacy p"] exI [of _ "sp_prefetched_bytes p"]) simp
  then show ?case using Nil by (simp add: sp_stage_blocks_def)
next
  case (Cons b ids)
  have "card (insert b S) \<le> card (S \<union> set (b # ids))" using Cons.prems(2) by (intro card_mono) auto
  then have "card (insert b S) \<le> nat (sp_capacity p)" using Cons.prems(3) by simp
  from stage_one_ok [OF Cons.prems(1,2) this, of "()"] obtain p1 where one: "sp_stage_one l b () p = (Inr (), p1)"
    "lru (Pair l ` insert b S) (sp_buffer p1)" "restaged p p1" "set (dkeys (sp_buffer p1)) \<subseteq> insert (l, b) (set (dkeys (sp_buffer p)))"
    by blast
  have "card (insert b S \<union> set ids) \<le> nat (sp_capacity p1)" using Cons.prems(3) restaged_same [OF one(3)] by simp
  from Cons.IH [OF one(2) _ this] Cons.prems(2) obtain p2 where two: "sp_stage_blocks ids l p1 = (Inr (), p2)"
    "lru (Pair l ` (insert b S \<union> set ids)) (sp_buffer p2)" "restaged p1 p2"
    "set (dkeys (sp_buffer p2)) \<subseteq> set (dkeys (sp_buffer p1)) \<union> Pair l ` set ids" by auto
  have "sp_stage_blocks (b # ids) l p = (Inr (), p2)" using one(1) two(1) by (simp add: sp_stage_blocks_def meth_run)
  moreover have "insert b S \<union> set ids = S \<union> set (b # ids)" by auto
  ultimately show ?case using two(2,4) one(4) restaged_trans [OF one(3) two(3)] by (auto simp del: set_map)
qed

lemma stage_blocks_ok:
  assumes "dict_ok (sp_buffer p)" "card (set ids) \<le> nat (sp_capacity p)"
  shows "\<exists>p'. sp_stage_blocks ids l p = (Inr (), p') \<and> dict_ok (sp_buffer p') \<and> (\<forall>b\<in>set ids. dmem (l, b) (sp_buffer p')) \<and>
    restaged p p' \<and> set (dkeys (sp_buffer p')) \<subseteq> set (dkeys (sp_buffer p)) \<union> Pair l ` set ids"
proof -
  have "lru (Pair l ` {}) (sp_buffer p)" using assms(1) by (auto simp: lru_def)
  from stage_blocks_from [OF this _, of ids] assms(2) obtain p' where p: "sp_stage_blocks ids l p = (Inr (), p')"
    "lru (Pair l ` set ids) (sp_buffer p')" "restaged p p'" "set (dkeys (sp_buffer p')) \<subseteq> set (dkeys (sp_buffer p)) \<union> Pair l ` set ids"
    by auto
  moreover have "\<forall>b\<in>set ids. dmem (l, b) (sp_buffer p')" using p(2) by (auto simp: lru_def dmem_keys simp del: set_map)
  ultimately show ?thesis by (auto simp: lru_def simp del: set_map)
qed

section \<open>The prefetch loop\<close>

lemma is_staged_all:
  assumes "ids \<noteq> []" "\<forall>b\<in>set ids. dmem (l, b) (sp_buffer p)"
  shows "sp_is_staged ids (Some l) lat p = (Inr True, p\<lparr>sp_blocks_hit := sp_blocks_hit p + int (length ids),
    sp_blocks_requested := sp_blocks_requested p + int (length ids), sp_hits := sp_hits p + 1\<rparr>)"
proof -
  have "filter (\<lambda>b. sp_is_in (Some l) b p) ids = ids" "filter (\<lambda>b. \<not> sp_is_in (Some l) b p) ids = []"
    using assms(2) by (simp_all add: sp_is_in_def filter_empty_conv)
  then show ?thesis using assms(1) by (simp add: sp_is_staged_def sp_check_staging_def Let_def)
qed

lemma is_staged_none:
  assumes "ids \<noteq> []" "\<forall>b\<in>set ids. \<not> dmem (l, b) (sp_buffer p)"
  shows "sp_is_staged ids (Some l) lat p = (Inr False, p\<lparr>sp_blocks_requested := sp_blocks_requested p + int (length ids),
    sp_misses := sp_misses p + 1, sp_stalls := sp_stalls p + 1,
    sp_stall_time := sp_stall_time p + max 0 (lat - sp_compute p)\<rparr>)"
proof -
  have "filter (\<lambda>b. sp_is_in (Some l) b p) ids = []"
    using assms(2) by (simp add: sp_is_in_def filter_empty_conv)
  then show ?thesis using assms(1) by (simp add: sp_is_staged_def sp_check_staging_def Let_def)
qed

lemma prefetch_next_ok:
  assumes "dict_ok (sp_buffer p)" "card (set ids) \<le> nat (sp_capacity p)" "lp_total_layers (sp_predictor p) \<noteq> 0"
  shows "\<exists>bs p'. sp_prefetch_next_layer pf layer ids (p, s) =
      (Inr bs, (p', case pf of None \<Rightarrow> s | Some f \<Rightarrow> f bs ((layer + 1) mod lp_total_layers (sp_predictor p)) s)) \<and>
    dict_ok (sp_buffer p') \<and> (\<forall>b\<in>set ids. dmem ((layer + 1) mod lp_total_layers (sp_predictor p), b) (sp_buffer p')) \<and>
    set (dkeys (sp_buffer p')) \<subseteq> set (dkeys (sp_buffer p)) \<union> Pair ((layer + 1) mod lp_total_layers (sp_predictor p)) ` set ids \<and>
    lp_total_layers (sp_predictor p') = lp_total_layers (sp_predictor p) \<and>
    (\<exists>q. restaged (p\<lparr>sp_predictor := q\<rparr>) p')"
proof -
  let ?T = "lp_total_layers (sp_predictor p)" and ?bs = "shifted_targets 0 ids []"
  let ?q = "(sp_predictor p)\<lparr>lp_history := record_access layer ids (lp_history (sp_predictor p))\<rparr>"
  have bs: "set ?bs = set ids" by (simp add: shifted_targets_set)
  obtain p' where p': "sp_stage_blocks ?bs ((layer + 1) mod ?T) (p\<lparr>sp_predictor := ?q\<rparr>) = (Inr (), p')"
    "dict_ok (sp_buffer p')" "\<forall>b\<in>set ids. dmem ((layer + 1) mod ?T, b) (sp_buffer p')" "restaged (p\<lparr>sp_predictor := ?q\<rparr>) p'"
    "set (dkeys (sp_buffer p')) \<subseteq> set (dkeys (sp_buffer p)) \<union> Pair ((layer + 1) mod ?T) ` set ids"
    using stage_blocks_ok [of "p\<lparr>sp_predictor := ?q\<rparr>" ?bs "(layer + 1) mod ?T"] assms(1,2) bs by auto
  have "lp_total_layers (sp_predictor p') = ?T" using restaged_same [OF p'(4)] by simp
  then show ?thesis using p' assms(3)
    by (intro exI [of _ ?bs] exI [of _ p']) (auto simp: sp_prefetch_next_layer_def predict_next_layer_blocks_def simp del: set_map)
qed

text \<open>
  Over \<open>T\<close> predicted layers, layer 0 misses, the layers up to \<open>T\<close> hit, and those behind miss: the
  prefetcher wraps around.
\<close>

definition hit_layers :: "int \<Rightarrow> int \<Rightarrow> int" where
  "hit_layers T n = (if n = 0 then 0 else min n T - 1)"

definition loop_inv :: "int \<Rightarrow> int list \<Rightarrow> real \<Rightarrow> real \<Rightarrow> int \<Rightarrow> spec_prefetcher \<Rightarrow> bool" where
  "loop_inv T ids lat cpt n p \<longleftrightarrow> dict_ok (sp_buffer p) \<and> card (set ids) \<le> nat (sp_capacity p) \<and>
     lp_total_layers (sp_predictor p) = T \<and> sp_compute p = cpt \<and>
     (\<forall>j\<in>set (dkeys (sp_buffer p)). 0 \<le> fst j \<and> fst j < T) \<and>
     (if n = 0 then sp_buffer p = [] else n < T \<longrightarrow> (\<forall>b\<in>set ids. dmem (n, b) (sp_buffer p))) \<and>
     sp_blocks_requested p = n * int (length ids) \<and> sp_blocks_hit p = hit_layers T n * int (length ids) \<and>
     sp_stalls p = n - hit_layers T n \<and> sp_stall_time p = of_int (n - hit_layers T n) * max 0 (lat - cpt)"

lemma loop_step:
  assumes "loop_inv T ids lat cpt n p" "0 \<le> n" "0 < T" "ids \<noteq> []"
  shows "\<exists>p' a'. decode_layer_step ids lat n () (p, a) = (Inr (), (p', a')) \<and> loop_inv T ids lat cpt (n + 1) p'"
proof -
  let ?L = "int (length ids)" and ?hit = "0 < n \<and> n < T"
  obtain x p1 where st: "sp_is_staged ids (Some n) lat p = (Inr x, p1)" "sp_buffer p1 = sp_buffer p" "sp_capacity p1 = sp_capacity p"
    "sp_predictor p1 = sp_predictor p" "sp_compute p1 = sp_compute p" "sp_blocks_requested p1 = sp_blocks_requested p + ?L"
    "sp_blocks_hit p1 = sp_blocks_hit p + (if ?hit then ?L else 0)" "sp_stalls p1 = sp_stalls p + (if ?hit then 0 else 1)"
    "sp_stall_time p1 = sp_stall_time p + (if ?hit then 0 else max 0 (lat - sp_compute p))"
  proof (cases ?hit)
    case True
    then have "\<forall>b\<in>set ids. dmem (n, b) (sp_buffer p)" using assms(1) by (auto simp: loop_inv_def split: if_splits)
    from is_staged_all [OF assms(4) this, of lat] True that show ?thesis by simp
  next
    case False
    then have "\<forall>b\<in>set ids. \<not> dmem (n, b) (sp_buffer p)"
      using assms(1,2) by (fastforce simp: loop_inv_def dmem_keys dmem_def split: if_splits)
    from is_staged_none [OF assms(4) this, of lat] False that show ?thesis by auto
  qed
  let ?pf = "Some (\<lambda>ids l a. snd (pa_prefetch_kv ids l a))"
  have T: "lp_total_layers (sp_predictor p1) = T" using assms(1) st(4) by (simp add: loop_inv_def)
  obtain bs p2 where nx: "sp_prefetch_next_layer ?pf n ids (p1, a) = (Inr bs, (p2, snd (pa_prefetch_kv bs ((n + 1) mod T) a)))"
    "dict_ok (sp_buffer p2)" "\<forall>b\<in>set ids. dmem ((n + 1) mod T, b) (sp_buffer p2)"
    "set (dkeys (sp_buffer p2)) \<subseteq> set (dkeys (sp_buffer p1)) \<union> Pair ((n + 1) mod T) ` set ids"
    "lp_total_layers (sp_predictor p2) = T" "\<exists>q. restaged (p1\<lparr>sp_predictor := q\<rparr>) p2"
    using prefetch_next_ok [of p1 ids ?pf n a] assms(1,3) st(2,3) T by (auto simp: loop_inv_def)
  from nx(6) obtain q where q: "restaged (p1\<lparr>sp_predictor := q\<rparr>) p2" ..
  have same: "sp_capacity p2 = sp_capacity p" "sp_compute p2 = sp_compute p" "sp_blocks_requested p2 = sp_blocks_requested p1"
    "sp_blocks_hit p2 = sp_blocks_hit p1" "sp_stalls p2 = sp_stalls p1" "sp_stall_time p2 = sp_stall_time p1"
    using restaged_same [OF q] st(3,5) by simp_all
  have step: "hit_layers T (n + 1) = hit_layers T n + (if ?hit then 1 else 0)" using assms(2,3) by (auto simp: hit_layers_def)
  have keys: "\<forall>j\<in>set (dkeys (sp_buffer p2)). 0 \<le> fst j \<and> fst j < T"
    using nx(4) st(2) assms(1,3) by (fastforce simp: loop_inv_def)
  have inv: "card (set ids) \<le> nat (sp_capacity p)" "sp_compute p = cpt" "sp_blocks_requested p = n * ?L"
    "sp_blocks_hit p = hit_layers T n * ?L" "sp_stalls p = n - hit_layers T n"
    "sp_stall_time p = of_int (n - hit_layers T n) * max 0 (lat - cpt)" using assms(1) by (simp_all add: loop_inv_def)
  have count: "sp_blocks_requested p2 = (n + 1) * ?L" "sp_blocks_hit p2 = hit_layers T (n + 1) * ?L"
    "sp_stalls p2 = n + 1 - hit_layers T (n + 1)"
    unfolding same st(6-8) inv step by (simp_all add: algebra_simps)
  have time: "sp_stall_time p2 = of_int (n + 1 - hit_layers T (n + 1)) * max 0 (lat - cpt)"
    unfolding same st(9) inv step by (simp add: algebra_simps)
  have "n + 1 < T \<longrightarrow> (\<forall>b\<in>set ids. dmem (n + 1, b) (sp_buffer p2))"
    using nx(3) assms(2) by (auto simp: mod_pos_pos_trivial)
  then have "loop_inv T ids lat cpt (n + 1) p2"
    using inv(1,2) nx(2,5) keys count time same(1,2) assms(2) unfolding loop_inv_def by simp
  then show ?thesis using st(1) nx(1) by (simp add: decode_layer_step_def meth_run)
qed

lemma sfor_upto:
  assumes "\<And>n s. l \<le> n \<Longrightarrow> n < N \<Longrightarrow> J n s \<Longrightarrow> \<exists>s'. f n () s = (Inr (), s') \<and> J (n + 1) s'" "J l s" "l \<le> N"
  shows "\<exists>s'. sfor f [l..N - 1] () s = (Inr (), s') \<and> J N s'"
  using assms
proof (induction "nat (N - l)" arbitrary: l s)
  case (Suc m)
  then have l: "l < N" by simp
  obtain s1 where one: "f l () s = (Inr (), s1)" "J (l + 1) s1" using Suc.prems(1) [OF order_refl l Suc.prems(2)] by blast
  have "\<exists>s'. sfor f [l + 1..N - 1] () s1 = (Inr (), s') \<and> J N s'"
    by (rule Suc.hyps(1)) (use Suc.hyps(2) Suc.prems(1) one(2) l in auto)
  then show ?case using one(1) l by (auto simp: upto_rec1 meth_run)
qed simp

lemma loop_run:
  assumes "loop_inv T ids lat cpt 0 p" "0 \<le> n" "0 < T" "ids \<noteq> []"
  shows "\<exists>p' a'. sfor (decode_layer_step ids lat) [0..n - 1] () (p, a) = (Inr (), (p', a')) \<and> loop_inv T ids lat cpt n p'"
proof -
  have "\<exists>s'. sfor (decode_layer_step ids lat) [0..n - 1] () (p, a) = (Inr (), s') \<and> loop_inv T ids lat cpt n (fst s')"
  proof (rule sfor_upto [where J = "\<lambda>n s. loop_inv T ids lat cpt n (fst s)"])
    fix i and s :: "spec_prefetcher \<times> phys_adapter" assume "0 \<le> i" "loop_inv T ids lat cpt i (fst s)"
    with loop_step [of T ids lat cpt i "fst s" "snd s"] assms(3,4)
    show "\<exists>s'. decode_layer_step ids lat i () s = (Inr (), s') \<and> loop_inv T ids lat cpt (i + 1) (fst s')" by force
  qed (use assms in simp_all)
  then show ?thesis by force
qed

section \<open>Both translation layers on one sample\<close>

lemma sim_store_conv_ftl:
  assumes "sim_store_block b s = (Inr x, s')" "ftl (allocator s) = Conv f" "conv_inv f" "linear_counter f < total_pages (geom f)"
  shows "\<exists>f'. ftl (allocator s') = Conv f' \<and> conv_inv f' \<and> geom f' = geom f \<and> linear_counter f' = linear_counter f + 1 \<and>
    latency s' = latency s"
proof -
  obtain f' where f': "conv_allocate (b\<lparr>storage_tier := ''SSD''\<rparr>) f = (Inr (location_str (conv_place (geom f) (linear_counter f)),
      b\<lparr>storage_tier := ''SSD'', physical_location := Some (location_str (conv_place (geom f) (linear_counter f)))\<rparr>), f')"
    "conv_inv f'" "geom f' = geom f" "linear_counter f' = linear_counter f + 1"
    using conv_allocate_ok [OF assms(3,4), of "b\<lparr>storage_tier := ''SSD''\<rparr>"] by auto
  show ?thesis using assms(1,2) f'
    by (auto simp: sim_store_block_def alloc_store_block_def Let_def split: option.splits if_splits sum.splits prod.splits)
qed

definition sample_stored :: "int \<Rightarrow> simulator \<times> simulator \<Rightarrow> bool" where
  "sample_stored n = (\<lambda>(c, t). conv_sim_inv c \<and> ta_sim_ok t \<and> num_channels t = 8 \<and>
     latency c = default_latency_model 8 \<and> latency t = default_latency_model 8 \<and>
     (\<exists>f. ftl (allocator c) = Conv f \<and> geom f = default_geometry 8 \<and> linear_counter f = n) \<and>
     (\<forall>i. 0 \<le> i \<and> i < n \<longrightarrow> sim_get_location i c = Some (location_str (conv_place (default_geometry 8) i)) \<and>
        (\<exists>loc. sim_get_location i t = Some loc \<and> loc \<noteq> [] \<and> extract_channel loc = (i + i div 8) mod 8)))"

lemma sample_block_facts:
  "block_id (sample_kv_block i) = i" "token_block_idx (sample_kv_block i) = i" "kv_head_start (sample_kv_block i) = 0"
  by (simp_all add: sample_kv_block_def create_default_def Let_def token_block_idx_def block_tokens_def)

lemma store_sample_ok:
  assumes "sample_stored n s" "0 \<le> n" "n < 65536"
  shows "\<exists>s'. store_sample n () s = (Inr (), s') \<and> sample_stored (n + 1) s'"
proof -
  obtain c t where s: "s = (c, t)" by (cases s)
  obtain f where f: "ftl (allocator c) = Conv f" "geom f = default_geometry 8" "linear_counter f = n"
    using assms(1) by (auto simp: sample_stored_def s)
  have inv: "conv_sim_inv c" using assms(1) by (simp add: sample_stored_def s)
  then have ci: "conv_inv f" using f(1) by (auto simp: conv_sim_inv_def)
  have room: "linear_counter f < total_pages (geom f)" using assms(3) f(2,3) by (simp add: total_pages_def geometry_const_defs)
  obtain b' c' where c': "sim_store_block (sample_kv_block n) c = (Inr (location_str (conv_place (default_geometry 8) n), b'), c')"
    "conv_sim_inv c'" "sim_get_location n c' = Some (location_str (conv_place (default_geometry 8) n))"
    "\<forall>i. i \<noteq> n \<longrightarrow> sim_get_location i c' = sim_get_location i c"
    using sim_store_conv [OF inv f(1) room, of "sample_kv_block n"] f(2,3) by (auto simp: sample_block_facts)
  obtain f' where f': "ftl (allocator c') = Conv f'" "geom f' = default_geometry 8" "linear_counter f' = n + 1" "latency c' = latency c"
    using sim_store_conv_ftl [OF c'(1) f(1) ci room] f(2,3) by auto
  have t: "ta_sim_ok t" "num_channels t = 8" using assms(1) by (simp_all add: sample_stored_def s)
  obtain loc b2 t' where t': "sim_store_block (sample_kv_block n) t = (Inr (loc, b2), t')" "ta_sim_ok t'" "num_channels t' = 8"
    "latency t' = latency t" "sim_get_location n t' = Some loc" "loc \<noteq> []" "extract_channel loc = (n + n div 8) mod 8"
    "\<forall>i. i \<noteq> n \<longrightarrow> sim_get_location i t' = sim_get_location i t"
    using sim_store_ta [OF t(1), of "sample_kv_block n"] t(2) by (auto simp: sample_block_facts)
  have old: "latency c = default_latency_model 8" "latency t = default_latency_model 8"
    "\<forall>i. 0 \<le> i \<and> i < n \<longrightarrow> sim_get_location i c = Some (location_str (conv_place (default_geometry 8) i)) \<and>
        (\<exists>loc. sim_get_location i t = Some loc \<and> loc \<noteq> [] \<and> extract_channel loc = (i + i div 8) mod 8)"
    using assms(1) by (simp_all add: sample_stored_def s)
  have "sim_get_location i c' = Some (location_str (conv_place (default_geometry 8) i)) \<and>
      (\<exists>loc. sim_get_location i t' = Some loc \<and> loc \<noteq> [] \<and> extract_channel loc = (i + i div 8) mod 8)"
    if "0 \<le> i" "i < n + 1" for i
  proof (cases "i = n")
    case True
    then show ?thesis using c'(3) t'(5-7) by blast
  next
    case False
    then have "i < n" using that by simp
    then show ?thesis using old(3) that(1) c'(4) t'(8) False by metis
  qed
  then have "sample_stored (n + 1) (c', t')"
    using old(1,2) c'(2) f' t'(2-4) unfolding sample_stored_def by simp
  then show ?thesis using c'(1) t'(1) by (simp add: store_sample_def s)
qed

lemma sample_start:
  "sample_stored 0 (new_simulator ''conventional'' 8 SSD_DIES_PER_CHANNEL SSD_PLANES_PER_DIE 64,
     new_simulator ''tensor_aware'' 8 SSD_DIES_PER_CHANNEL SSD_PLANES_PER_DIE 64)"
  using new_simulator_inv [of 8 "''conventional''"] new_sim_ta_ok [of 8 SSD_DIES_PER_CHANNEL SSD_PLANES_PER_DIE 64]
  by (auto simp: sample_stored_def new_simulator_def new_allocator_def new_conventional_def)

text \<open>Eight channels share \<open>k\<close> consecutive blocks evenly.\<close>

lemma stripe_load:
  assumes "0 < k" "\<forall>i\<in>{0..k - 1}. extract_channel (g i) = (i + i div 8) mod 8"
  shows "max_load (get_channel_loads (map g [0..k - 1])) = ceil_div k 8"
proof (rule antisym)
  let ?locs = "map g [0..k - 1]"
  have ne: "?locs \<noteq> []" using assms(1) by simp
  have "\<forall>l\<in>set ?locs. 0 \<le> extract_channel l \<and> extract_channel l < 8" using assms(2) by auto
  from max_load_bounds(1) [OF ne this] assms(1) show "ceil_div k 8 \<le> max_load (get_channel_loads ?locs)" by simp
  obtain c where c: "max_load (get_channel_loads ?locs) = int (load_of c ?locs)" using max_load_channel(1) [OF ne] by blast
  let ?S = "{i \<in> {0..k - 1}. extract_channel (g i) = c}"
  have "load_of c ?locs = length (filter (\<lambda>i. extract_channel (g i) = c) [0..k - 1])"
    by (simp add: load_of_def filter_map comp_def)
  also have "\<dots> = card (set (filter (\<lambda>i. extract_channel (g i) = c) [0..k - 1]))"
    by (rule distinct_card [symmetric]) (simp add: distinct_filter)
  also have "set (filter (\<lambda>i. extract_channel (g i) = c) [0..k - 1]) = ?S" by auto
  finally have load: "load_of c ?locs = card ?S" .
  have inj: "inj_on (\<lambda>i. i div 8) ?S"
  proof (rule inj_onI)
    fix i j assume ij: "i \<in> ?S" "j \<in> ?S" "i div 8 = j div 8"
    then have "(i + i div 8) mod 8 = (j + i div 8) mod 8" using assms(2) by auto
    then have "8 dvd i - j" by (simp add: mod_eq_dvd_iff)
    then have "i mod 8 = j mod 8" by (simp add: mod_eq_dvd_iff)
    then show "i = j" using ij(3) by (metis div_mult_mod_eq)
  qed
  have "(\<lambda>i. i div 8) ` ?S \<subseteq> {0..<ceil_div k 8}"
  proof
    fix x assume "x \<in> (\<lambda>i. i div 8) ` ?S"
    then obtain i where i: "0 \<le> i" "i < k" "x = i div 8" by auto
    have "\<not> ceil_div k 8 \<le> x"
    proof
      assume "ceil_div k 8 \<le> x"
      then have "k \<le> x * 8" using ceil_div_bounds [of 8 k] assms(1) by (smt (verit) mult_right_mono)
      then show False using i by presburger
    qed
    moreover have "0 \<le> x" using i by simp
    ultimately show "x \<in> {0..<ceil_div k 8}" by simp
  qed
  then have "card ((\<lambda>i. i div 8) ` ?S) \<le> card {0..<ceil_div k 8}" by (intro card_mono) simp_all
  then have "card ?S \<le> card {0..<ceil_div k 8}" unfolding card_image [OF inj] .
  then have "card ?S \<le> nat (ceil_div k 8)" by simp
  then show "max_load (get_channel_loads ?locs) \<le> ceil_div k 8" unfolding c load
    using ceil_div_bounds [of 8 k] assms(1) by linarith
qed

lemma compare_ftls_ok:
  assumes "0 < k" "k \<le> 65536"
  shows "compare_ftls k = Inr (PCIE_OVERHEAD_US + of_int k * (T_R_US + BUS_TRANSFER_US_PER_PAGE),
    PCIE_OVERHEAD_US + of_int (ceil_div k 8) * (T_R_US + BUS_TRANSFER_US_PER_PAGE))"
proof -
  let ?g = "default_geometry 8"
  obtain c t where st: "sfor store_sample [0..k - 1] () (new_simulator ''conventional'' 8 SSD_DIES_PER_CHANNEL SSD_PLANES_PER_DIE 64,
     new_simulator ''tensor_aware'' 8 SSD_DIES_PER_CHANNEL SSD_PLANES_PER_DIE 64) = (Inr (), (c, t))" "sample_stored k (c, t)"
    using sfor_upto [where J = sample_stored and f = store_sample and l = 0 and N = k, OF _ sample_start] store_sample_ok assms by force
  let ?cl = "map (\<lambda>i. location_str (conv_place ?g i)) [0..k - 1]" and ?tl = "map (\<lambda>i. the (sim_get_location i t)) [0..k - 1]"
  have loc: "sim_get_location i c = Some (location_str (conv_place ?g i))"
    "\<exists>loc. sim_get_location i t = Some loc \<and> loc \<noteq> [] \<and> extract_channel loc = (i + i div 8) mod 8" if "i \<in> set [0..k - 1]" for i
    using st(2) that by (auto simp: sample_stored_def)
  have "sim_locs [0..k - 1] c = concat (map (\<lambda>i. [location_str (conv_place ?g i)]) [0..k - 1])"
    unfolding sim_locs_def by (intro arg_cong [where f = concat] map_cong) (simp_all add: loc location_str_nonempty)
  then have lc: "sim_locs [0..k - 1] c = ?cl" by simp
  have "sim_locs [0..k - 1] t = concat (map (\<lambda>i. [the (sim_get_location i t)]) [0..k - 1])"
    unfolding sim_locs_def by (intro arg_cong [where f = concat] map_cong) (use loc(2) in fastforce)+
  then have lt: "sim_locs [0..k - 1] t = ?tl" by simp
  have "extract_channel (location_str (conv_place ?g i)) = 0" if "0 \<le> i" "i < k" for i
  proof -
    have "coord_ok (?g\<lparr>channels := 1\<rparr>) (conv_place (?g\<lparr>channels := 1\<rparr>) i)"
      using that assms by (intro conv_place_ok) (auto simp: geometry_ok_def total_pages_def geometry_const_defs)
    then have "phys_ok (conv_place ?g i)" "fst (conv_place ?g i) = 0"
      by (auto simp: coord_ok_def phys_ok_def conv_place_def Let_def split: prod.splits)
    then show ?thesis by (simp add: extract_channel_str)
  qed
  then have "max_load (get_channel_loads ?cl) = int (length ?cl)" using assms(1) by (intro max_load_same [of _ 0]) auto
  then have mc: "max_load (get_channel_loads ?cl) = k" using assms(1) by simp
  have mt: "max_load (get_channel_loads ?tl) = ceil_div k 8"
    by (rule stripe_load [OF assms(1)]) (use loc(2) in fastforce)
  have lat: "latency c = default_latency_model 8" "latency t = default_latency_model 8" using st(2) by (simp_all add: sample_stored_def)
  have est: "fst (sim_estimate_read_latency ids s) = calculate_batch_read_latency (latency s) (sim_locs ids s)" for ids s
    using sim_estimate_ok [of ids s] by (metis prod.collapse)
  have "[0..k - 1] \<noteq> []" using assms(1) by simp
  then show ?thesis using st(1)
    by (simp add: compare_ftls_def est lc lt calculate_batch_read_latency_def mc mt lat default_latency_model_def del: upto.simps)
qed

section \<open>Requests and the stored blocks\<close>

definition ssd_holds :: "(int \<times> int \<Rightarrow> (tensor \<times> tensor) option) \<Rightarrow> phys_adapter gateway \<Rightarrow> bool" where
  "ssd_holds L g \<longleftrightarrow> pa_same L (gw_ssd g)"

lemma holds_prefetcher [inv_intros]: "keeps (ssd_holds L) (on_prefetcher x m)"
  by (auto simp: keeps_def on_prefetcher_def ssd_holds_def split: option.split prod.split)

lemma holds_latency [inv_intros]: "keeps (ssd_holds L) (engine_latency physical_engine ids)"
  by (simp add: engine_latency_def physical_engine_def keeps_basic)

lemma holds_ssd:
  assumes "keeps (pa_same L) m" "ssd_holds L g"
  shows "ssd_holds L (snd (on_engine m g))"
  using assms by (auto simp: keeps_def on_engine_def ssd_holds_def split: prod.split)

lemma holds_execute:
  assumes "rq_op r \<noteq> KV_EVICT"
  shows "keeps (ssd_holds L) (execute physical_engine r)"
proof -
  have pf: "keeps (pa_same L) (sbind (pa_prefetch_kv ids layer) (\<lambda>_. sret ()))" for ids layer
    by (intro inv_intros pa_prefetch_keeps)
  have "keeps (ssd_holds L) (supd (\<lambda>g. snd (on_engine (sbind (pa_prefetch_kv ids layer) (\<lambda>_. sret ())) g)))" for ids layer
    by (intro keeps_supd holds_ssd [OF pf])
  then have "keeps (ssd_holds L) (handle_prefetch physical_engine r)"
    unfolding handle_prefetch_def Let_def by (intro inv_intros) (simp_all add: physical_engine_def inv_intros)
  moreover have "keeps (ssd_holds L) (handle_topk physical_engine r)" unfolding handle_topk_def Let_def by (intro inv_intros)
  moreover have "keeps (ssd_holds L) (handle_read physical_engine r)" unfolding handle_read_def Let_def by (intro inv_intros)
  moreover have "keeps (ssd_holds L) (handle_write r)" unfolding handle_write_def Let_def by (intro inv_intros)
  ultimately show ?thesis using assms unfolding execute_def
    by (cases "rq_op r") (auto intro!: inv_intros)
qed

lemma orch_execute_manager:
  "orch_execute r o1 = (res, o2) \<Longrightarrow> \<exists>g. execute physical_engine r \<lparr>gw_ssd = tm_store (or_manager o1), gw_prefetcher = or_prefetcher o1\<rparr> = (res, g) \<and>
     or_manager o2 = (or_manager o1)\<lparr>tm_store := gw_ssd g\<rparr>"
  by (auto simp: orch_execute_def Let_def split: prod.splits)

text \<open>What a load leaves in the log.\<close>

lemma pa_load_log:
  assumes "pa_load_kv bid layer a = (Inr kv, a')"
  shows "\<exists>n t. pa_log a' = pa_log a @ [PaEvent ''LOAD_KV'' layer [bid] n t]"
proof -
  have lat: "pa_log (snd (pa_read_latency gids b)) = pa_log b" for gids b
    by (simp add: pa_read_latency_def split: prod.split)
  have pc: "pa_log b' = pa_log b" if "pa_charge_pcie n b = (r, b')" for n b r b'
    using that by (auto simp: pa_charge_pcie_def meth_run split: sum.splits)
  obtain e where e: "dget (pa_store a) (layer, bid) = Some e" using assms by (auto simp: pa_load_kv_def meth_run split: option.splits)
  obtain u a1 where r: "pa_read_latency [pe_gid e] a = (Inr u, a1)" using pa_read_latency_run by blast
  have a1: "pa_log a1 = pa_log a" using lat [of "[pe_gid e]" a] r by simp
  let ?n = "int (nbytes (fe_k e)) + int (nbytes (fe_v e))"
  have tail: "\<exists>t. pa_log a' = pa_log b @ [PaEvent ''LOAD_KV'' layer [bid] ?n t]"
    if "sthen (pa_charge_pcie ?n) (sthen (pa_record_event ''LOAD_KV'' layer [bid] ?n) (sret x)) b = (Inr kv, a')" for b x
  proof -
    obtain q b' where q: "pa_charge_pcie ?n b = (q, b')" by fastforce
    show ?thesis using that pc [OF q] by (cases q) (auto simp: q meth_run pa_record_event_def)
  qed
  show ?thesis
  proof (cases "(layer, bid) \<in> pa_cache a")
    case True
    with assms e tail [of "(fe_k e, fe_v e)" "a\<lparr>pa_dram_rd := pa_dram_rd a + ?n, pa_time := pa_time a + 1, pa_d2h := pa_d2h a + ?n\<rparr>"]
    show ?thesis by (auto simp: pa_load_kv_def meth_run Let_def)
  next
    case False
    with assms e r a1 tail [of "(fe_k e, fe_v e)" "a1\<lparr>pa_flash_rd := pa_flash_rd a1 + ?n, pa_rd_ops := pa_rd_ops a1 + 1,
        pa_time := pa_time a1 + u, pa_d2h := pa_d2h a1 + ?n\<rparr>"]
    show ?thesis by (auto simp: pa_load_kv_def meth_run Let_def)
  qed
qed

section \<open>Properties\<close>

text \<open>The orchestrator after some requests, whether they were answered or raised.\<close>

definition serve :: "kv_request list \<Rightarrow> orchestrator \<Rightarrow> orchestrator" where
  "serve rs o1 = fold (\<lambda>r os. snd (orch_execute r os)) rs o1"

lemma request_keeps_storage:
  assumes "pa_same L (tm_store (or_manager o1))" "rq_op r \<noteq> KV_EVICT"
  shows "pa_same L (tm_store (or_manager (snd (orch_execute r o1))))"
proof -
  obtain res o2 where o2: "orch_execute r o1 = (res, o2)" by fastforce
  obtain g where g: "execute physical_engine r \<lparr>gw_ssd = tm_store (or_manager o1), gw_prefetcher = or_prefetcher o1\<rparr> = (res, g)"
    "or_manager o2 = (or_manager o1)\<lparr>tm_store := gw_ssd g\<rparr>" using orch_execute_manager [OF o2] by blast
  have "ssd_holds L \<lparr>gw_ssd = tm_store (or_manager o1), gw_prefetcher = or_prefetcher o1\<rparr>"
    using assms(1) by (simp add: ssd_holds_def)
  from keepsD [OF holds_execute [OF assms(2)] this g(1)] show ?thesis using g(2) o2 by (simp add: ssd_holds_def)
qed

lemma serve_keeps_storage:
  "pa_same L (tm_store (or_manager o1)) \<Longrightarrow> \<forall>r\<in>set rs. rq_op r \<noteq> KV_EVICT \<Longrightarrow> pa_same L (tm_store (or_manager (serve rs o1)))"
  by (induction rs arbitrary: o1) (simp_all add: serve_def request_keeps_storage)

text \<open>C34: Requests that score, read or prefetch blocks never change what the storage behind the gateway
  holds: after any sequence of them, each answered or raising, a load of any block returns exactly
  the tensors that were stored for it before, and raises \<open>KeyError\<close> for a block that was not
  stored, whatever the prefetches moved between flash and the device cache. Writes and evictions
  are excluded: see the findings on both.\<close>

theorem requests_keep_tokens:
  assumes "pa_inv (tm_store (or_manager o1))" "\<forall>r\<in>set rs. rq_op r \<in> {KV_TOPK, KV_READ, KV_PREFETCH}"
  shows "fst (pa_load_kv bid layer (tm_store (or_manager (serve rs o1)))) =
    (case pa_lookup (tm_store (or_manager o1)) (layer, bid) of None \<Rightarrow> Inl KeyError | Some kv \<Rightarrow> Inr kv)"
proof -
  let ?L = "pa_lookup (tm_store (or_manager o1))" and ?s = "tm_store (or_manager (serve rs o1))"
  have "\<forall>r\<in>set rs. rq_op r \<noteq> KV_EVICT" using assms(2) by auto
  with assms(1) have "pa_same ?L ?s" by (intro serve_keeps_storage) (simp_all add: pa_same_def)
  then have "flash_timing_ok (pa_timing ?s)" "pa_lookup ?s = ?L" by (simp_all add: pa_same_def pa_inv_def)
  then show ?thesis using pa_load_result by simp
qed

definition sample_request :: "kv_operation \<Rightarrow> int \<Rightarrow> int list \<Rightarrow> kv_request" where
  "sample_request op l cands = \<lparr>rq_id = ''req_000001'', rq_op = op, rq_layer = l, rq_head = 0, rq_query = None, rq_cands = cands,
     rq_topk = Some 2, rq_writes = [], rq_target = None\<rparr>"

lemma new_orchestrator_inv: "pa_inv (tm_store (or_manager (new_orchestrator en ''tensor_aware'' h d dt)))"
  using new_phys_adapter_inv(1) [of 8 SSD_DIES_PER_CHANNEL 1024 None] by (simp add: new_orchestrator_def new_manager_def)

text \<open>C35: Blocks that a prefetch request staged are found by the next top-k request for them: it is a
  cache hit of one microsecond on any storage engine, as long as the blocks fit into the buffer,
  however full it was before.\<close>

theorem prefetched_request_hits:
  assumes "gw_prefetcher g = Some p" "dict_ok (sp_buffer p)" "cands \<noteq> []" "card (set cands) \<le> nat (sp_capacity p)"
    and "rq_op r1 = KV_PREFETCH" "rq_op r2 = KV_TOPK" "rq_cands r1 = cands" "rq_cands r2 = cands" "rq_layer r2 = rq_layer r1"
  shows "\<exists>a g1 b g2. execute en r1 g = (Inr a, g1) \<and> execute en r2 g1 = (Inr b, g2) \<and> rs_transferred a = 0 \<and>
    rs_hit b \<and> rs_latency b = 1 \<and> rs_selected b = slice_to (topk_count r2) cands"
proof -
  obtain p' where p': "sp_stage_blocks cands (rq_layer r1) p = (Inr (), p')" "\<forall>b\<in>set cands. dmem (rq_layer r1, b) (sp_buffer p')"
    using stage_blocks_ok [OF assms(2,4)] by blast
  let ?m = "case en_prefetch en of None \<Rightarrow> sret () | Some f \<Rightarrow> supd (\<lambda>g. snd (on_engine (f cands (rq_layer r1)) g))"
  obtain g1 where g1: "?m (g\<lparr>gw_prefetcher := Some p'\<rparr>) = (Inr (), g1)" "gw_prefetcher g1 = Some p'"
    by (cases "en_prefetch en") (simp_all add: on_engine_def split: prod.split)
  have one: "execute en r1 g = (Inr (success_response (rq_id r1) cands (int (length cands) * 4096) 0 1 True), g1)"
    using p'(1) g1(1) assms(1,3,5,7) by (simp add: execute_def handle_prefetch_def on_prefetcher_def meth_run Let_def)
  note hit = is_staged_all [OF assms(3) p'(2), of 70]
  have "\<exists>g2. execute en r2 g1 = (Inr (success_response (rq_id r2) (slice_to (topk_count r2) cands) (int (length cands) * 4096)
      (int (length (slice_to (topk_count r2) cands)) * 4096) 1 True), g2)"
    using g1(2) hit assms(3,6,8,9) by (simp add: execute_def handle_topk_def on_prefetcher_def meth_run Let_def)
  then show ?thesis using one by (auto simp: success_response_def)
qed

theorem prefetched_request_hits_witness:
  "\<exists>a g1 b g2. execute simulator_engine (sample_request KV_PREFETCH 3 [1, 2, 5])
      \<lparr>gw_ssd = new_simulator ''tensor_aware'' 8 4 2 64, gw_prefetcher = Some (new_spec 4 4096 65)\<rparr> = (Inr a, g1) \<and>
    execute simulator_engine (sample_request KV_TOPK 3 [1, 2, 5]) g1 = (Inr b, g2) \<and> rs_transferred a = 0 \<and>
    rs_hit b \<and> rs_latency b = 1 \<and> rs_selected b = slice_to (topk_count (sample_request KV_TOPK 3 [1, 2, 5])) [1, 2, 5]"
  by (rule prefetched_request_hits [where p = "new_spec 4 4096 65"]) (simp_all add: sample_request_def new_spec_def)

text \<open>C36: Fetching a cold block of a layer stages the same block of the next layer: the listener of
  the adapter hears of the load, and the next layer's top-k request for that block is a hit.\<close>

theorem fetch_stages_next_layer:
  assumes "or_prefetcher o1 = Some p" "dict_ok (sp_buffer p)" "0 < sp_capacity p" "lp_total_layers (sp_predictor p) \<noteq> 0"
    and "pool_get_block bid (tm_pool (or_manager o1)) = Some b" "\<not> tb_in_ram b"
    and "orch_kv (fetch_cold_block pa_load_kv bid layer) o1 = (Inr b', o2)"
    and "rq_op r = KV_TOPK" "rq_layer r = (layer + 1) mod lp_total_layers (sp_predictor p)" "rq_cands r = [bid]"
  shows "\<exists>a o3. orch_execute r o2 = (Inr a, o3) \<and> rs_hit a \<and> rs_latency a = 1 \<and> or_manager o3 = or_manager o2"
proof -
  let ?m = "or_manager o1"
  obtain kv a' where l: "pa_load_kv bid layer (tm_store ?m) = (Inr kv, a')"
    using assms(5-7) by (auto simp: orch_kv_def fetch_cold_block_def split: prod.splits sum.splits)
  obtain n t where log: "pa_log a' = pa_log (tm_store ?m) @ [PaEvent ''LOAD_KV'' layer [bid] n t]" using pa_load_log [OF l] by blast
  have m2: "tm_store (or_manager o2) = a'" "or_prefetcher o2 = Some (on_access (PaEvent ''LOAD_KV'' layer [bid] n t) p)"
    using assms(1,5-7) l log
    by (auto simp: orch_kv_def fetch_cold_block_def new_events_def put_block_def Let_def split: prod.splits)
  obtain p' where p': "or_prefetcher o2 = Some p'" "dmem (rq_layer r, bid) (sp_buffer p')"
  proof -
    have "card (set [bid]) \<le> nat (sp_capacity p)" using assms(3) by simp
    from prefetch_next_ok [OF assms(2) this assms(4), of None layer "()"] assms(9) m2(2) that show ?thesis by (auto simp: on_access_def)
  qed
  have st: "sp_is_staged [bid] (Some (rq_layer r)) 70 p' = (Inr True, p'\<lparr>sp_blocks_hit := sp_blocks_hit p' + 1,
      sp_blocks_requested := sp_blocks_requested p' + 1, sp_hits := sp_hits p' + 1\<rparr>)"
    using is_staged_all [of "[bid]" "rq_layer r" p' 70] p'(2) by simp
  show ?thesis using st p'(1) assms(8,10)
    by (simp add: orch_execute_def execute_def handle_topk_def on_prefetcher_def meth_run Let_def success_response_def)
qed

definition sample_block_tensor :: tensor where
  "sample_block_tensor = \<lparr>shape = [1, 1, 1], elem_type = Int8, raw = [7]\<rparr>"

definition sample_cold :: orchestrator where
  "sample_cold = (let o1 = new_orchestrator True ''tensor_aware'' 1 1 ''FP16''; m = or_manager o1;
       b = \<lparr>tb_id = 0, tb_layer = 3, tb_start = 0, tb_count = 1, tb_pinned = False, tb_in_ram = False, tb_tier = ''COLD_SSD'',
            tb_k = None, tb_v = None\<rparr>
     in o1\<lparr>or_manager := m\<lparr>tm_pool := new_pool\<lparr>bp_blocks := [(0, b)]\<rparr>,
          tm_store := snd (pa_store_kv 0 3 sample_block_tensor sample_block_tensor None (tm_store m))\<rparr>\<rparr>)"

lemma sample_cold_facts:
  "or_prefetcher sample_cold = Some (new_spec 512 4096 65)" "pool_get_block 0 (tm_pool (or_manager sample_cold)) \<noteq> None"
  "\<not> tb_in_ram (the (pool_get_block 0 (tm_pool (or_manager sample_cold))))"
  "pa_inv (tm_store (or_manager sample_cold))"
  "pa_lookup (tm_store (or_manager sample_cold)) (3, 0) = Some (sample_block_tensor, sample_block_tensor)"
proof -
  show "or_prefetcher sample_cold = Some (new_spec 512 4096 65)" "pool_get_block 0 (tm_pool (or_manager sample_cold)) \<noteq> None"
    "\<not> tb_in_ram (the (pool_get_block 0 (tm_pool (or_manager sample_cold))))"
    by (simp_all add: sample_cold_def Let_def new_orchestrator_def pool_get_block_def new_pool_def)
  let ?a = "tm_store (or_manager (new_orchestrator True ''tensor_aware'' 1 1 ''FP16''))"
  have "pa_inv ?a" by (rule new_orchestrator_inv)
  from pa_store_ok [OF this, of 0 3 sample_block_tensor sample_block_tensor None]
  show "pa_inv (tm_store (or_manager sample_cold))"
    "pa_lookup (tm_store (or_manager sample_cold)) (3, 0) = Some (sample_block_tensor, sample_block_tensor)"
    by (auto simp: sample_cold_def Let_def)
qed

lemma sample_cold_fetch: "\<exists>b' o2. orch_kv (fetch_cold_block pa_load_kv 0 3) sample_cold = (Inr b', o2)"
proof -
  let ?m = "or_manager sample_cold"
  have "flash_timing_ok (pa_timing (tm_store ?m))" using sample_cold_facts(4) by (simp add: pa_inv_def)
  from pa_load_result [OF this, of 0 3] obtain a' where "pa_load_kv 0 3 (tm_store ?m) = (Inr (sample_block_tensor, sample_block_tensor), a')"
    by (simp add: sample_cold_facts(5)) (metis prod.collapse)
  then show ?thesis using sample_cold_facts(2,3)
    by (auto simp: orch_kv_def fetch_cold_block_def Let_def split: option.split)
qed

theorem requests_keep_tokens_witness:
  "fst (pa_load_kv 0 3 (tm_store (or_manager (serve [sample_request KV_PREFETCH 3 [0, 1], sample_request KV_TOPK 3 [0]] sample_cold)))) =
    Inr (sample_block_tensor, sample_block_tensor)"
  using requests_keep_tokens [OF sample_cold_facts(4), of "[sample_request KV_PREFETCH 3 [0, 1], sample_request KV_TOPK 3 [0]]" 0 3]
  by (simp add: sample_request_def sample_cold_facts(5))

text \<open>
  A write request stores nothing: it is answered with success and the bytes of its blocks, and
  the orchestrator is what it was.
\<close>

lemma write_request_stores_nothing:
  assumes "pa_inv (tm_store (or_manager o1))" "pa_lookup (tm_store (or_manager o1)) (rq_layer r, bid) = None"
    and "rq_op r = KV_WRITE" "rq_writes r = [bid]"
  shows "\<exists>a o2. orch_execute r o1 = (Inr a, o2) \<and> rs_status a = SUCCESS \<and> rs_selected a = [bid] \<and> rs_transferred a = 4096 \<and>
    fst (pa_load_kv bid (rq_layer r) (tm_store (or_manager o2))) = Inl KeyError"
proof -
  have "flash_timing_ok (pa_timing (tm_store (or_manager o1)))" using assms(1) by (simp add: pa_inv_def)
  then have "fst (pa_load_kv bid (rq_layer r) (tm_store (or_manager o1))) = Inl KeyError"
    using pa_load_result [of "tm_store (or_manager o1)" bid "rq_layer r"] assms(2) by simp
  then show ?thesis using assms(3,4) by (simp add: orch_execute_def execute_def handle_write_def success_response_def Let_def meth_run)
qed

theorem fetch_stages_next_layer_witness:
  "\<exists>b' o2 a o3. orch_kv (fetch_cold_block pa_load_kv 0 3) sample_cold = (Inr b', o2) \<and>
    orch_execute (sample_request KV_TOPK 4 [0]) o2 = (Inr a, o3) \<and> rs_hit a \<and> rs_latency a = 1 \<and> or_manager o3 = or_manager o2"
proof -
  obtain b' o2 where f: "orch_kv (fetch_cold_block pa_load_kv 0 3) sample_cold = (Inr b', o2)" using sample_cold_fetch by blast
  obtain b where b: "pool_get_block 0 (tm_pool (or_manager sample_cold)) = Some b" "\<not> tb_in_ram b" using sample_cold_facts(2,3) by auto
  show ?thesis
    using fetch_stages_next_layer [OF sample_cold_facts(1) _ _ _ b f, of "sample_request KV_TOPK 4 [0]"] f
    by (simp add: new_spec_def new_predictor_def dict_ok_def sample_request_def)
qed

text \<open>C37: An eviction request destroys offloaded tokens: it deletes the block from storage without
  asking the tiering manager, whose cold block can then no longer be fetched.\<close>

theorem evict_request_loses_block:
  assumes "pa_inv (tm_store (or_manager o1))" "pool_get_block bid (tm_pool (or_manager o1)) = Some b" "\<not> tb_in_ram b"
    and "rq_op r = KV_EVICT" "rq_layer r = layer" "rq_cands r = [bid]"
  shows "\<exists>a o2. orch_execute r o1 = (Inr a, o2) \<and> rs_status a = SUCCESS \<and>
    fst (orch_kv (fetch_cold_block pa_load_kv bid layer) o2) = Inl KeyError"
proof -
  let ?a = "tm_store (or_manager o1)"
  obtain x a' where e: "pa_evict_kv bid layer ?a = (Inr x, a')" "pa_inv a'" "pa_lookup a' (layer, bid) = None"
    using pa_evict_ok [OF assms(1), of bid layer] by (metis fst_conv fun_upd_same prod.collapse snd_conv)
  obtain g where g: "execute physical_engine r \<lparr>gw_ssd = ?a, gw_prefetcher = or_prefetcher o1\<rparr> =
      (Inr (success_response (rq_id r) [bid] 0 0 5 False), g)" "gw_ssd g = a'"
    using e(1) assms(4-6) by (simp add: execute_def handle_evict_def physical_engine_def on_engine_def meth_run)
  obtain o2 where o2: "orch_execute r o1 = (Inr (success_response (rq_id r) [bid] 0 0 5 False), o2)"
    using g(1) by (simp add: orch_execute_def Let_def)
  have m: "or_manager o2 = (or_manager o1)\<lparr>tm_store := a'\<rparr>" using orch_execute_manager [OF o2] g by auto
  have "fst (pa_load_kv bid layer a') = Inl KeyError"
    using pa_load_result [of a' bid layer] e(2,3) by (simp add: pa_inv_def)
  then obtain a2 where "pa_load_kv bid layer a' = (Inl KeyError, a2)" by (metis prod.collapse)
  then have "fst (orch_kv (fetch_cold_block pa_load_kv bid layer) o2) = Inl KeyError"
    using assms(2,3) by (simp add: orch_kv_def fetch_cold_block_def m)
  then show ?thesis using o2 by (auto simp: success_response_def)
qed

theorem evict_request_loses_block_witness:
  "\<exists>a o2. orch_execute (sample_request KV_EVICT 3 [0]) sample_cold = (Inr a, o2) \<and> rs_status a = SUCCESS \<and>
    fst (orch_kv (fetch_cold_block pa_load_kv 0 3) o2) = Inl KeyError"
proof -
  obtain b where b: "pool_get_block 0 (tm_pool (or_manager sample_cold)) = Some b" "\<not> tb_in_ram b" using sample_cold_facts(2,3) by auto
  show ?thesis by (rule evict_request_loses_block [OF sample_cold_facts(4) b]) (simp_all add: sample_request_def)
qed

lemma topk_blocks_le: "pct \<le> 100 \<Longrightarrow> topk_blocks ctx off pct \<le> cold_blocks ctx off"
proof -
  assume "pct \<le> 100"
  moreover have c: "1 \<le> cold_blocks ctx off" by (simp add: cold_blocks_def)
  ultimately have "of_int (cold_blocks ctx off) * (pct / 100) \<le> of_int (cold_blocks ctx off) * 1"
    by (intro mult_left_mono) simp_all
  then have "trunc (of_int (cold_blocks ctx off) * (pct / 100)) \<le> max 0 (cold_blocks ctx off)" by (intro trunc_le) simp
  then show ?thesis using c by (simp add: topk_blocks_def)
qed

text \<open>C38: The simulated decoding loop, on any context of at least no tokens, any positive number of layers,
  any share \<open>pct\<close> that asks for at most 65536 blocks per layer, and an orchestrator whose
  prefetcher predicts at least one layer: it reports, the conventional layout reads
  the sample one page after the other while the tensor-aware one reads eight at a time, and the
  prefetcher misses on the first layer, hits on every further layer it predicts, and misses
  again on all layers beyond the number it predicts. 65536 is the number of pages of one channel of
  the simulated flash: the conventional layout fills a channel before it goes to the next, so
  that beyond it the reads of a sample overlap.\<close>

theorem pipeline_report:
  assumes "0 < layers" "0 \<le> ctx" "topk_blocks ctx off pct \<le> 65536" "or_prefetcher o1 = Some p" "0 < lp_total_layers (sp_predictor p)"
  defines "k \<equiv> topk_blocks ctx off pct" and "page \<equiv> T_R_US + BUS_TRANSFER_US_PER_PAGE"
    and "hits \<equiv> min layers (lp_total_layers (sp_predictor p)) - 1"
  shows "\<exists>rep o2. run_simulation ctx layers heads hdim off pct dt o1 = (Inr rep, o2) \<and>
    sr_conv_us rep = round_to 1 (PCIE_OVERHEAD_US + of_int k * page) \<and>
    sr_ta_us rep = round_to 1 (PCIE_OVERHEAD_US + of_int (ceil_div k 8) * page) \<and>
    sr_stalls rep = layers - hits \<and> sr_hit_rate rep = round_to 2 (of_int hits / of_int layers) \<and>
    sr_bubble rep = round_to 1 (of_int (layers - hits) *
      max 0 (PCIE_OVERHEAD_US + of_int (ceil_div k 8) * page - sp_compute p)) \<and>
    (pct \<le> 100 \<longrightarrow> sr_transferred rep \<le> sr_requested rep)"
proof -
  let ?T = "lp_total_layers (sp_predictor p)" and ?ids = "[0..k - 1]"
  let ?ta = "PCIE_OVERHEAD_US + of_int (ceil_div k 8) * page" and ?cv = "PCIE_OVERHEAD_US + of_int k * page"
  let ?p = "(sp_clear p)\<lparr>sp_capacity := max 512 (k * 4)\<rparr>" and ?a = "tm_store (or_manager o1)"
  have k: "0 < k" "k \<le> 65536" using assms(3) by (simp_all add: k_def topk_blocks_def)
  have ids: "?ids \<noteq> []" "int (length ?ids) = k" "card (set ?ids) = nat k" using k(1) by simp_all
  have start: "loop_inv ?T ?ids ?ta (sp_compute p) 0 ?p"
    using k ids(3) by (simp add: loop_inv_def sp_clear_def hit_layers_def dict_ok_def del: set_upto upto.simps)
  obtain p' a' where loop: "sfor (decode_layer_step ?ids ?ta) [0..layers - 1] () (?p, ?a) = (Inr (), (p', a'))"
    "loop_inv ?T ?ids ?ta (sp_compute p) layers p'"
    using loop_run [OF start less_imp_le [OF assms(1)] assms(5) ids(1), of ?a] by blast
  have h: "hit_layers ?T layers = hits" using assms(1) by (simp add: hit_layers_def hits_def)
  have res: "sp_blocks_requested p' = layers * k" "sp_blocks_hit p' = hits * k" "sp_stalls p' = layers - hits"
    "sp_stall_time p' = of_int (layers - hits) * max 0 (?ta - sp_compute p)"
    using loop(2) unfolding loop_inv_def h ids(2) by simp_all
  have rate: "sp_hit_rate p' = of_int hits / of_int layers"
    using res(1,2) k(1) assms(1) by (simp add: sp_hit_rate_def)
  have cmp: "compare_ftls k = Inr (?cv, ?ta)" unfolding page_def by (rule compare_ftls_ok [OF k])
  have pf: "run_prefetch_loop layers k ?ta o1 = (Inr (of_int hits / of_int layers, layers - hits, sp_stall_time p'),
      o1\<lparr>or_prefetcher := Some p', or_manager := (or_manager o1)\<lparr>tm_store := a'\<rparr>\<rparr>)"
    using loop(1) assms(4) rate res(3) by (simp add: run_prefetch_loop_def del: upto.simps)
  have base: "(100 :: real) + of_int ctx / 1000 * 0.5 \<noteq> 0"
  proof -
    have "0 \<le> (of_int ctx :: real) / 1000 * 0.5" using assms(2) by simp
    then show ?thesis by linarith
  qed
  have req: "layers * cold_blocks ctx off * 4096 \<noteq> 0" using assms(1) by (simp add: cold_blocks_def)
  have "pct \<le> 100 \<Longrightarrow> layers * k * 4096 \<le> layers * cold_blocks ctx off * 4096"
    using topk_blocks_le [of pct ctx off] assms(1) by (simp add: k_def)
  then show ?thesis using cmp pf base req res(4) unfolding run_simulation_def k_def [symmetric]
    by (simp add: Let_def meth_run sim_summary_def)
qed

theorem pipeline_report_witness:
  "\<exists>rep o2. run_simulation 32768 40 32 128 80 10 ''FP16'' (new_orchestrator True ''tensor_aware'' 32 128 ''FP16'') = (Inr rep, o2) \<and>
    sr_stalls rep = 9 \<and> sr_transferred rep \<le> sr_requested rep"
proof -
  have k: "topk_blocks 32768 80 10 \<le> 65536"
    by (simp add: topk_blocks_def cold_blocks_def trunc_def floor_le_iff)
  show ?thesis
    using pipeline_report [OF _ _ k, of 40 "new_orchestrator True ''tensor_aware'' 32 128 ''FP16''" "new_spec 512 4096 65" 32 128 "''FP16''"]
    by (auto simp: new_orchestrator_def new_spec_def new_predictor_def)
qed

end
