(* ===== verification/RealTrace.thy ===== *)
theory RealTrace
  imports Replay KvStore
begin

text \<open>
  Traces of model runs, \<open>person1_kv_engine/real_llm/\<close>: the slicing of key and value arrays into
  blocks (\<open>block_adapter.py\<close>), the synthetic run of the engine (\<open>RealLLMEngine._mock_inference\<close> in
  \<open>engine.py\<close>) and the trace generator (\<open>trace_generator.py\<close>), whose files the reader and the
  replayer of the other subsystems take. Array elements are reals, so that the casts to float32
  change the element type only; an axis of extent one is not broadcast. Timings of a run are left out.
\<close>

section \<open>Arrays of keys and values\<close>

text \<open>\<open>[heads, tokens, dim]\<close>, with slices, padding along the tokens and the size in bytes.\<close>

record kv_array =
  ka_dtype :: np_dtype
  ka_heads :: nat
  ka_seq :: nat
  ka_dim :: nat
  ka_data :: "real list list list"

definition kv_array_ok :: "kv_array \<Rightarrow> bool" where
  "kv_array_ok a \<longleftrightarrow> length (ka_data a) = ka_heads a \<and>
     (\<forall>r\<in>set (ka_data a). length r = ka_seq a \<and> (\<forall>x\<in>set r. length x = ka_dim a))"

definition kv_slice :: "nat \<Rightarrow> nat \<Rightarrow> nat \<Rightarrow> nat \<Rightarrow> kv_array \<Rightarrow> kv_array" where
  "kv_slice h n t m a = a\<lparr>ka_heads := min n (ka_heads a - h), ka_seq := min m (ka_seq a - t),
     ka_data := map (\<lambda>r. take m (drop t r)) (take n (drop h (ka_data a)))\<rparr>"

text \<open>\<open>np.concatenate([a, np.zeros((h, pad, d))], axis=1)\<close>.\<close>

definition kv_pad :: "nat \<Rightarrow> nat \<Rightarrow> nat \<Rightarrow> kv_array \<Rightarrow> kv_array res" where
  "kv_pad h pad d a =
     (if ka_heads a \<noteq> h \<or> ka_dim a \<noteq> d then Inl ValueError
      else Inr (a\<lparr>ka_seq := ka_seq a + pad, ka_data := map (\<lambda>r. r @ replicate pad (replicate d 0)) (ka_data a)\<rparr>))"

definition ka_nbytes :: "kv_array \<Rightarrow> nat" where
  "ka_nbytes a = ka_heads a * ka_seq a * ka_dim a * itemsize (ka_dtype a)"

text \<open>\<open>range(0, n, s)\<close> for a step that is not negative.\<close>

definition py_range :: "nat \<Rightarrow> nat \<Rightarrow> nat list res" where
  "py_range n s = (if s = 0 then Inl ValueError else Inr (map (\<lambda>i. i * s) [0..<(n + s - 1) div s]))"

section \<open>The block adapter\<close>

record block_adapter =
  ba_tpb :: nat
  ba_khpb :: nat
  ba_dim :: nat
  ba_dtype :: string
  ba_sinks :: int
  ba_recent :: int
  ba_elem_bytes :: nat
  ba_key_bytes :: nat
  ba_value_bytes :: nat
  ba_block_bytes :: nat
  ba_key_pages :: nat
  ba_value_pages :: nat
  ba_pages :: nat

definition elem_bytes_of :: "string \<Rightarrow> nat" where
  "elem_bytes_of s = (let dt = upper_str s
     in if dt = ''FP32'' \<or> dt = ''FLOAT32'' then 4
        else if dt = ''FP16'' \<or> dt = ''FLOAT16'' \<or> dt = ''BF16'' then 2
        else if dt = ''FP8'' \<or> dt = ''INT8'' then 1 else 4)"

definition new_block_adapter :: "nat \<Rightarrow> nat \<Rightarrow> nat \<Rightarrow> string \<Rightarrow> int \<Rightarrow> int \<Rightarrow> block_adapter" where
  "new_block_adapter tpb khpb d dt sinks recent =
     (let eb = elem_bytes_of (upper_str dt); kb = tpb * khpb * d * eb; pages = (kb + 4095) div 4096
      in \<lparr>ba_tpb = tpb, ba_khpb = khpb, ba_dim = d, ba_dtype = upper_str dt, ba_sinks = sinks, ba_recent = recent,
          ba_elem_bytes = eb, ba_key_bytes = kb, ba_value_bytes = kb, ba_block_bytes = kb + kb,
          ba_key_pages = pages, ba_value_pages = pages, ba_pages = pages + pages\<rparr>)"

definition validate_geometry :: "block_adapter \<Rightarrow> kv_array \<Rightarrow> kv_array \<Rightarrow> bool res" where
  "validate_geometry ad k v =
     (if ka_nbytes k \<noteq> ba_key_bytes ad then Inl ValueError
      else if ka_nbytes v \<noteq> ba_key_bytes ad then Inl ValueError else Inr True)"

type_synonym block_payload = "kv_array \<times> kv_array"
type_synonym block_entry = "kv_block \<times> block_payload"

text \<open>A last block that is not full is padded with zeros to full geometry.\<close>

definition pad_partial :: "block_adapter \<Rightarrow> nat \<Rightarrow> nat \<Rightarrow> nat \<Rightarrow> kv_array \<Rightarrow> kv_array res" where
  "pad_partial ad h n d a = (if n < ba_tpb ad then kv_pad h (ba_tpb ad - n) d a else Inr a)"

definition tier_of :: "block_adapter \<Rightarrow> nat \<Rightarrow> nat \<Rightarrow> nat \<Rightarrow> string \<times> real" where
  "tier_of ad T t te =
     (let sink = int t < ba_sinks ad; recent = int T - ba_recent ad < int te
      in if sink \<or> recent then (''DRAM'', if sink then 1 else 0.9)
         else (''SSD'', max 0.05 (0.5 * (1 - real t / max 1 (real T)))))"

definition blockize_one :: "block_adapter \<Rightarrow> int \<Rightarrow> kv_array \<Rightarrow> kv_array \<Rightarrow> (nat \<times> nat) \<times> int \<Rightarrow> block_entry res" where
  "blockize_one ad layer k v p = (case p of ((h, t), idx) \<Rightarrow>
     (let hc = min (ba_khpb ad) (ka_heads k - h); te = min (t + ba_tpb ad) (ka_seq k); n = te - t
      in rbind (pad_partial ad hc n (ka_dim k) (kv_slice h hc t n k)) (\<lambda>ks.
         rbind (pad_partial ad hc n (ka_dim k) (kv_slice h hc t n v)) (\<lambda>vs.
         rbind (validate_geometry ad ks vs) (\<lambda>_.
           Inr (\<lparr>block_id = idx, layer_id = layer, token_start = int t, token_count = int (ba_tpb ad),
                 kv_head_start = int h, kv_head_count = int hc, head_dim = int (ba_dim ad), dtype = ba_dtype ad,
                 key_size_bytes = int (ba_key_bytes ad), value_size_bytes = int (ba_value_bytes ad),
                 storage_tier = fst (tier_of ad (ka_seq k) t te), hotness = snd (tier_of ad (ka_seq k) t te),
                 physical_location = None\<rparr>,
                ks\<lparr>ka_dtype := Float32\<rparr>, vs\<lparr>ka_dtype := Float32\<rparr>))))))"

definition blockize_layer :: "block_adapter \<Rightarrow> int \<Rightarrow> kv_array \<Rightarrow> kv_array \<Rightarrow> int \<Rightarrow> block_entry list res" where
  "blockize_layer ad layer k v off =
     (if ka_dim k \<noteq> ba_dim ad then Inl AssertionError
      else rbind (py_range (ka_heads k) (ba_khpb ad)) (\<lambda>hs.
        if hs = [] then Inr []
        else rbind (py_range (ka_seq k) (ba_tpb ad)) (\<lambda>ts.
          let ps = List.product hs ts
          in map_res (blockize_one ad layer k v) (zip ps [off..off + int (length ps) - 1]))))"

text \<open>The layers in ascending order; the block counter runs through all of them.\<close>

fun blockize_from ::
    "block_adapter \<Rightarrow> (int, block_payload) dict \<Rightarrow> int list \<Rightarrow> int \<Rightarrow> (int, block_entry list) dict \<Rightarrow> (int, block_entry list) dict res" where
  "blockize_from ad d [] cur acc = Inr acc"
| "blockize_from ad d (l # ls) cur acc =
     rbind (of_option KeyError (dget d l)) (\<lambda>(k, v).
     rbind (blockize_layer ad l k v cur) (\<lambda>bs.
       blockize_from ad d ls (cur + int (length bs)) (dset l bs acc)))"

definition blockize_all_layers :: "block_adapter \<Rightarrow> (int, block_payload) dict \<Rightarrow> (int, block_entry list) dict res" where
  "blockize_all_layers ad d = blockize_from ad d (sort (dkeys d)) 0 []"

section \<open>The synthetic run\<close>

record run_meta =
  rm_name :: string
  rm_layers :: int
  rm_heads :: int
  rm_kv_heads :: int
  rm_dim :: int
  rm_gqa :: int
  rm_dtype :: string

record llm_run =
  ir_prompt :: string
  ir_text :: string
  ir_prompt_tokens :: int
  ir_generated :: int
  ir_total :: int
  ir_kv :: "(int, block_payload) dict"
  ir_queries :: "(int, real list list) dict list"
  ir_meta :: run_meta

record llm_engine =
  le_name :: string
  le_layers :: nat
  le_heads :: nat
  le_kv_heads :: nat
  le_dim :: nat
  le_dtype :: string

definition engine_gqa :: "llm_engine \<Rightarrow> nat res" where
  "engine_gqa e = (if le_kv_heads e = 0 then Inl ZeroDivisionError else Inr (max 1 (le_heads e div le_kv_heads e)))"

text \<open>\<open>len(s.split())\<close>.\<close>

fun count_words :: "bool \<Rightarrow> string \<Rightarrow> nat" where
  "count_words inside [] = 0"
| "count_words inside (c # cs) =
     (if is_blank c then count_words False cs else (if inside then 0 else 1) + count_words True cs)"

text \<open>\<open>rng.randn\<close> takes the next numbers of the seeded stream \<open>rnd\<close>, row by row.\<close>

definition randn2 :: "(nat \<Rightarrow> real) \<Rightarrow> nat \<Rightarrow> nat \<Rightarrow> nat \<Rightarrow> real list list" where
  "randn2 rnd pos m n = map (\<lambda>i. map (\<lambda>j. rnd (pos + i * n + j)) [0..<n]) [0..<m]"

definition randn3 :: "(nat \<Rightarrow> real) \<Rightarrow> nat \<Rightarrow> nat \<Rightarrow> nat \<Rightarrow> nat \<Rightarrow> kv_array" where
  "randn3 rnd pos h t d = \<lparr>ka_dtype = Float32, ka_heads = h, ka_seq = t, ka_dim = d,
     ka_data = map (\<lambda>i. randn2 rnd (pos + i * (t * d)) t d) [0..<h]\<rparr>"

definition mock_inference :: "(nat \<Rightarrow> real) \<Rightarrow> llm_engine \<Rightarrow> string \<Rightarrow> nat \<Rightarrow> llm_run res" where
  "mock_inference rnd e prompt new =
     (let pl = max 8 (count_words False prompt); tot = pl + new; L = le_layers e;
          n = le_kv_heads e * tot * le_dim e; qn = le_heads e * le_dim e
      in rbind (engine_gqa e) (\<lambda>gqa. Inr
           \<lparr>ir_prompt = prompt, ir_text = prompt @ '' [mock generated '' @ show_nat new @ '' tokens]'',
            ir_prompt_tokens = int pl, ir_generated = int new, ir_total = int tot,
            ir_kv = map (\<lambda>l. (int l, randn3 rnd (2 * l * n) (le_kv_heads e) tot (le_dim e),
                                   randn3 rnd (2 * l * n + n) (le_kv_heads e) tot (le_dim e))) [0..<L],
            ir_queries = map (\<lambda>s. map (\<lambda>l. (int l, randn2 rnd (2 * L * n + (s * L + l) * qn) (le_heads e) (le_dim e))) [0..<L])
              [0..<new],
            ir_meta = \<lparr>rm_name = le_name e, rm_layers = int L, rm_heads = int (le_heads e), rm_kv_heads = int (le_kv_heads e),
              rm_dim = int (le_dim e), rm_gqa = int gqa, rm_dtype = le_dtype e\<rparr>\<rparr>))"

section \<open>The trace generator\<close>

text \<open>Events are numbered as they are logged. The files are the lines of the trace, the checksum and the manifest.\<close>

record trace_gen =
  tg_events :: "jobj list"
  tg_next :: int
  tg_file :: "jobj list option"
  tg_sha :: "string option"
  tg_manifest :: "jobj option"

record run_tracer =
  rg_dir :: string
  rg_version :: string
  rg_commit :: string

definition emit :: "(int \<Rightarrow> jobj) \<Rightarrow> (trace_gen, unit) meth" where
  "emit f = supd (\<lambda>g. g\<lparr>tg_events := tg_events g @ [f (tg_next g)], tg_next := tg_next g + 1\<rparr>)"

text \<open>An event about one block, in query (and step) \<open>q\<close>, and the event of an in-storage filter.\<close>

definition block_event ::
    "int \<Rightarrow> int \<Rightarrow> int \<Rightarrow> string \<Rightarrow> kv_block \<Rightarrow> string \<Rightarrow> int \<Rightarrow> string \<Rightarrow> int list \<Rightarrow> int list \<Rightarrow> int \<Rightarrow> jobj" where
  "block_event base q l op b sub n tier cand sel i =
     [(''event_id'', JInt i), (''query_id'', JInt q), (''step'', JInt q), (''layer_id'', JInt l),
      (''head_id'', JInt (kv_head_start b)), (''operation'', JStr op), (''block_id'', JInt (block_id b)),
      (''token_start'', JInt (token_start b)), (''token_end'', JInt (token_start b + token_count b)),
      (''sub_page'', JStr sub), (''byte_size'', JInt n), (''tier'', JStr tier), (''hotness'', JFloat (hotness b)),
      (''candidate_blocks'', JList (map JInt cand)), (''selected_blocks'', JList (map JInt sel)),
      (''timestamp_ns'', JInt (base + i * 100))]"

definition filter_event :: "int \<Rightarrow> int \<Rightarrow> int \<Rightarrow> int \<Rightarrow> int list \<Rightarrow> int list \<Rightarrow> int \<Rightarrow> int \<Rightarrow> jobj" where
  "filter_event base q l n cand sel k i =
     [(''event_id'', JInt i), (''query_id'', JInt q), (''step'', JInt q), (''layer_id'', JInt l),
      (''head_id'', JInt 0), (''operation'', JStr ''TOPK_FILTER''), (''block_id'', JInt (hd cand)),
      (''token_start'', JInt 0), (''token_end'', JInt 0), (''sub_page'', JStr ''KEY''), (''byte_size'', JInt n),
      (''tier'', JStr ''SSD''), (''hotness'', JFloat 0.5), (''candidate_blocks'', JList (map JInt cand)),
      (''selected_blocks'', JList (map JInt sel)), (''topk_k'', JInt k), (''timestamp_ns'', JInt (base + i * 100))]"

text \<open>
  The native kernel, when it is loaded, is handed the first head of every block; otherwise a block
  is scored by its largest dot product, all its key heads added up.
\<close>

type_synonym topk_kernel = "real list list \<Rightarrow> (int \<times> real list list \<times> real list list) list \<Rightarrow> int \<Rightarrow> int list res"

definition first_head :: "block_entry \<Rightarrow> (int \<times> real list list \<times> real list list) res" where
  "first_head e = (case e of (b, k, v) \<Rightarrow> (case (ka_data k, ka_data v) of
     (x # _, y # _) \<Rightarrow> Inr (block_id b, x, y) | _ \<Rightarrow> Inl IndexError))"

definition ref_score :: "real \<Rightarrow> real list list \<Rightarrow> kv_array \<Rightarrow> real res" where
  "ref_score scale q k =
     (if \<not> list_all (\<lambda>r. length r = ka_dim k) q then Inl ValueError
      else (case concat (map (\<lambda>r. map (\<lambda>t. (\<Sum>h<ka_heads k. \<Sum>d<ka_dim k. r ! d * ka_data k ! h ! t ! d) * scale) [0..<ka_seq k]) q) of
              [] \<Rightarrow> Inl ValueError | x # xs \<Rightarrow> Inr (fold max xs x)))"

definition select_ssd :: "topk_kernel option \<Rightarrow> real \<Rightarrow> real list list \<Rightarrow> block_entry list \<Rightarrow> int \<Rightarrow> int list res" where
  "select_ssd knl scale q es k = (case knl of
     Some f \<Rightarrow> rbind (map_res first_head es) (\<lambda>xs. f q xs k)
   | None \<Rightarrow> rbind (map_res (\<lambda>e. rbind (ref_score scale q (fst (snd e))) (\<lambda>s. Inr (s, block_id (fst e)))) es) (\<lambda>ss.
       Inr (map snd (take (nat k) (sort_key (\<lambda>x. - fst x) ss)))))"

definition topk_budget :: "nat \<Rightarrow> real \<Rightarrow> int" where
  "topk_budget n pct = (if n = 0 then 0 else max 1 (trunc (real n * (pct / 100))))"

definition prefill_layer :: "int \<Rightarrow> (int, block_entry list) dict \<Rightarrow> int \<Rightarrow> (trace_gen, unit) meth" where
  "prefill_layer base lb l = sbind (slift (of_option KeyError (dget lb l))) (\<lambda>bs.
     sfor (\<lambda>e _. emit (block_event base 0 l ''PREFILL_WRITE'' (fst e) ''BOTH'' (total_size_bytes (fst e))
       (storage_tier (fst e)) [] [block_id (fst e)])) bs ())"

definition log_fetch :: "int \<Rightarrow> int \<Rightarrow> int \<Rightarrow> kv_block list \<Rightarrow> int list \<Rightarrow> int list \<Rightarrow> int \<Rightarrow> (trace_gen, unit) meth" where
  "log_fetch base q l ssd cand sel i =
     sbind (slift (of_option StopIteration (find (\<lambda>b. block_id b = i) ssd))) (\<lambda>b.
       emit (block_event base q l ''TOPK_FETCH'' b ''VALUE'' (value_size_bytes b) ''SSD'' cand sel))"

definition decode_layer ::
    "topk_kernel option \<Rightarrow> int \<Rightarrow> real \<Rightarrow> real \<Rightarrow> (int, block_entry list) dict \<Rightarrow> int \<Rightarrow> (int, real list list) dict \<Rightarrow> int \<Rightarrow>
      (trace_gen, unit) meth" where
  "decode_layer knl base scale pct lb q sq l =
     sbind (slift (of_option KeyError (dget sq l))) (\<lambda>ql.
     sbind (slift (of_option KeyError (dget lb l))) (\<lambda>bs.
     (let dram = filter (\<lambda>b. storage_tier b = ''DRAM'') (map fst bs);
          es = filter (\<lambda>e. storage_tier (fst e) = ''SSD'') bs;
          cand = map (\<lambda>e. block_id (fst e)) es; k = topk_budget (length cand) pct
      in sbind (if cand = [] then sret [] else slift (select_ssd knl scale ql es k)) (\<lambda>sel.
         sthen (sfor (\<lambda>b _. emit (block_event base q l ''DECODE_READ'' b ''BOTH'' (total_size_bytes b) ''DRAM'' [] [block_id b])) dram ())
          (if cand = [] then sret ()
           else sthen (emit (filter_event base q l (int (length cand) * key_size_bytes (fst (hd bs))) cand sel k))
                      (sfor (\<lambda>i _. log_fetch base q l (map fst es) cand sel i) sel ()))))))"

definition run_manifest ::
    "run_tracer \<Rightarrow> llm_run \<Rightarrow> kv_block \<Rightarrow> string \<Rightarrow> nat \<Rightarrow> real \<Rightarrow> string \<Rightarrow> string \<Rightarrow> jobj" where
  "run_manifest rg r b name n pct now digest = (let m = ir_meta r
     in [(''model_name'', JStr (rm_name m)), (''model_architecture'', JStr ''Qwen2ForCausalLM''),
         (''num_layers'', JInt (rm_layers m)), (''num_query_heads'', JInt (rm_heads m)),
         (''num_kv_heads'', JInt (rm_kv_heads m)), (''head_dim'', JInt (rm_dim m)), (''gqa_ratio'', JInt (rm_gqa m)),
         (''dtype'', JStr (rm_dtype m)), (''tokens_per_block'', JInt (token_count b)),
         (''key_page_bytes'', JInt (key_size_bytes b)), (''value_page_bytes'', JInt (value_size_bytes b)),
         (''logical_block_bytes'', JInt (total_size_bytes b)), (''workload_name'', JStr name),
         (''prompt'', JStr (ir_prompt r)), (''prompt_tokens'', JInt (ir_prompt_tokens r)),
         (''generated_tokens'', JInt (ir_generated r)), (''total_tokens'', JInt (ir_prompt_tokens r + ir_generated r)),
         (''total_steps'', JInt (int (length (ir_queries r)))), (''total_events'', JInt (int n)),
         (''top_k_percent'', JFloat pct), (''trace_format_version'', JStr (rg_version rg)),
         (''git_commit'', JStr (rg_commit rg)), (''timestamp_utc'', JStr now), (''sha256_checksum'', JStr digest)])"

text \<open>
  The geometry in the manifest is that of the first block of the layer looked at last. \<open>hash\<close> is the
  checksum of the file with these lines, \<open>base\<close> and \<open>now\<close> are the time at the start and at the end.
\<close>

definition generate_run_trace ::
    "topk_kernel option \<Rightarrow> (jobj list \<Rightarrow> string) \<Rightarrow> int \<Rightarrow> string \<Rightarrow> run_tracer \<Rightarrow> llm_run \<Rightarrow> (int, block_entry list) dict \<Rightarrow>
      string \<Rightarrow> real \<Rightarrow> (trace_gen, string \<times> string \<times> string) meth" where
  "generate_run_trace knl hash base now rg r lb name pct =
     (let m = ir_meta r; ls = [0..rm_layers m - 1]; scale = 1 / sqrt (of_int (rm_dim m));
          file = ''trace_'' @ name @ ''.jsonl''; steps = zip [1..int (length (ir_queries r))] (ir_queries r)
      in sthen (supd (\<lambda>g. g\<lparr>tg_events := [], tg_next := 0\<rparr>))
        (sthen (sfor (\<lambda>l _. prefill_layer base lb l) ls ())
        (sthen (sfor (\<lambda>(q, sq) _. sfor (\<lambda>l _. decode_layer knl base scale pct lb q sq l) ls ()) steps ())
        (sthen (supd (\<lambda>g. g\<lparr>tg_file := Some (tg_events g)\<rparr>))
        (sbind (sread (\<lambda>g. hash (tg_events g))) (\<lambda>digest.
         sthen (supd (\<lambda>g. g\<lparr>tg_sha := Some (digest @ ''  '' @ file @ [CHR 0x0A])\<rparr>))
        (sbind (slift (if ls = [] then Inl UnboundLocalError
                       else case dget lb (last ls) of Some (e # _) \<Rightarrow> Inr (fst e) | _ \<Rightarrow> Inl IndexError)) (\<lambda>b.
         sthen (supd (\<lambda>g. g\<lparr>tg_manifest := Some (run_manifest rg r b name (length (tg_events g)) pct now digest)\<rparr>))
               (sret (rg_dir rg @ ''/'' @ file, rg_dir rg @ ''/trace_'' @ name @ ''.manifest.json'', digest))))))))))"

section \<open>Blocks hold what was sliced\<close>

definition fits_adapter :: "block_adapter \<Rightarrow> nat \<Rightarrow> nat \<Rightarrow> kv_array \<Rightarrow> bool" where
  "fits_adapter ad H T a \<longleftrightarrow> kv_array_ok a \<and> ka_heads a = H \<and> ka_seq a = T \<and> ka_dim a = ba_dim ad \<and>
     itemsize (ka_dtype a) = ba_elem_bytes ad"

text \<open>The rows of a block of array \<open>a\<close> at head \<open>h\<close> and token \<open>t\<close>, with zeros behind the last token.\<close>

definition block_of :: "block_adapter \<Rightarrow> kv_array \<Rightarrow> nat \<Rightarrow> nat \<Rightarrow> kv_array \<Rightarrow> bool" where
  "block_of ad a h t b \<longleftrightarrow> kv_array_ok b \<and> ka_heads b = ba_khpb ad \<and> ka_seq b = ba_tpb ad \<and> ka_dim b = ba_dim ad \<and>
     (\<forall>i<ba_khpb ad. \<forall>j<ba_tpb ad. ka_data b ! i ! j =
        (if t + j < ka_seq a then ka_data a ! (h + i) ! (t + j) else replicate (ba_dim ad) 0))"

lemma pad_partial_ok:
  assumes "fits_adapter ad H T a" "h + ba_khpb ad \<le> H" "t < T"
  defines "n \<equiv> min (t + ba_tpb ad) T - t"
  shows "\<exists>b. pad_partial ad (ba_khpb ad) n (ba_dim ad) (kv_slice h (ba_khpb ad) t n a) = Inr b \<and> block_of ad a h t b \<and>
    ka_dtype b = ka_dtype a"
proof -
  let ?K = "ba_khpb ad" and ?B = "ba_tpb ad" and ?s = "kv_slice h (ba_khpb ad) t n a"
  have a: "length (ka_data a) = H" "ka_heads a = H" "ka_seq a = T" "ka_dim a = ba_dim ad"
    "\<And>r. r \<in> set (ka_data a) \<Longrightarrow> length r = T" "\<And>r x. r \<in> set (ka_data a) \<Longrightarrow> x \<in> set r \<Longrightarrow> length x = ba_dim ad"
    using assms(1) by (auto simp: fits_adapter_def kv_array_ok_def)
  have n: "n \<le> ?B" "t + n \<le> T" "n < ?B \<Longrightarrow> t + n = T" using assms(3) by (auto simp: n_def)
  have s: "ka_heads ?s = ?K" "ka_seq ?s = n" "ka_dim ?s = ba_dim ad" "ka_dtype ?s = ka_dtype a"
    using assms(2) a n by (auto simp: kv_slice_def)
  have rows: "\<And>r. r \<in> set (take ?K (drop h (ka_data a))) \<Longrightarrow> r \<in> set (ka_data a)" by (meson in_set_dropD in_set_takeD)
  have cells: "length x = ba_dim ad" if "r \<in> set (take ?K (drop h (ka_data a)))" "x \<in> set (take n (drop t r))" for r x
    using that rows a(6) by (meson in_set_dropD in_set_takeD)
  have nth: "ka_data ?s ! i ! j = ka_data a ! (h + i) ! (t + j)" "length (ka_data ?s ! i) = n" if "i < ?K" "j < n" for i j
    using that assms(2) a(1) a(5) [of "ka_data a ! (h + i)"] n by (auto simp: kv_slice_def)
  have len: "length (ka_data ?s) = ?K" using assms(2) a(1) by (simp add: kv_slice_def)
  have row: "length (ka_data ?s ! i) = n" if "i < ?K" for i
    using that assms(2) a(1) a(5) [of "ka_data a ! (h + i)"] n by (auto simp: kv_slice_def)
  show ?thesis
  proof (cases "n < ?B")
    case True
    let ?b = "?s\<lparr>ka_seq := n + (?B - n), ka_data := map (\<lambda>r. r @ replicate (?B - n) (replicate (ba_dim ad) 0)) (ka_data ?s)\<rparr>"
    have "pad_partial ad ?K n (ba_dim ad) ?s = Inr ?b" using True s by (simp add: pad_partial_def kv_pad_def)
    moreover have "kv_array_ok ?b" using s len rows a(5) cells n by (auto simp: kv_array_ok_def kv_slice_def)
    moreover have "block_of ad a h t ?b"
      using calculation(2) s len row nth True n(3) a(3) by (auto simp: block_of_def nth_append)
    ultimately show ?thesis using s(4) by auto
  next
    case False
    then have "n = ?B" using n(1) by simp
    then have "block_of ad a h t ?s" using s len row nth n(2) a(3,5) cells rows
      by (auto simp: block_of_def kv_array_ok_def kv_slice_def)
    then show ?thesis using False s(4) by (simp add: pad_partial_def)
  qed
qed

lemma adapter_sizes [simp]:
  "ba_key_bytes (new_block_adapter tpb khpb d dt sinks recent) = tpb * khpb * d * ba_elem_bytes (new_block_adapter tpb khpb d dt sinks recent)"
  "ba_tpb (new_block_adapter tpb khpb d dt sinks recent) = tpb" "ba_khpb (new_block_adapter tpb khpb d dt sinks recent) = khpb"
  "ba_dim (new_block_adapter tpb khpb d dt sinks recent) = d" "ba_sinks (new_block_adapter tpb khpb d dt sinks recent) = sinks"
  "ba_recent (new_block_adapter tpb khpb d dt sinks recent) = recent"
  "ba_value_bytes (new_block_adapter tpb khpb d dt sinks recent) = ba_key_bytes (new_block_adapter tpb khpb d dt sinks recent)"
  by (simp_all add: new_block_adapter_def Let_def)

definition adapter_ok :: "block_adapter \<Rightarrow> bool" where
  "adapter_ok ad \<longleftrightarrow> ba_key_bytes ad = ba_tpb ad * ba_khpb ad * ba_dim ad * ba_elem_bytes ad \<and>
     ba_value_bytes ad = ba_key_bytes ad \<and> 0 < ba_tpb ad \<and> 0 < ba_khpb ad"

lemma block_of_nbytes: "block_of ad a h t b \<Longrightarrow> adapter_ok ad \<Longrightarrow> itemsize (ka_dtype b) = ba_elem_bytes ad \<Longrightarrow> ka_nbytes b = ba_key_bytes ad"
  by (simp add: block_of_def adapter_ok_def ka_nbytes_def mult.commute mult.left_commute)

text \<open>What the descriptor of a block says.\<close>

definition describes :: "block_adapter \<Rightarrow> int \<Rightarrow> nat \<Rightarrow> nat \<Rightarrow> nat \<Rightarrow> int \<Rightarrow> kv_block \<Rightarrow> bool" where
  "describes ad layer T h t idx b \<longleftrightarrow> block_id b = idx \<and> layer_id b = layer \<and> token_start b = int t \<and>
     token_count b = int (ba_tpb ad) \<and> kv_head_start b = int h \<and> kv_head_count b = int (ba_khpb ad) \<and>
     key_size_bytes b = int (ba_key_bytes ad) \<and> value_size_bytes b = int (ba_key_bytes ad) \<and>
     storage_tier b \<in> {''DRAM'', ''SSD''} \<and>
     (storage_tier b = ''DRAM'' \<longleftrightarrow> int t < ba_sinks ad \<or> int T - ba_recent ad < int (min (t + ba_tpb ad) T))"

lemma tier_of_fst:
  "fst (tier_of ad T t te) = (if int t < ba_sinks ad \<or> int T - ba_recent ad < int te then ''DRAM'' else ''SSD'')"
  by (simp add: tier_of_def Let_def)

lemma blockize_one_ok:
  assumes "adapter_ok ad" "fits_adapter ad H T k" "fits_adapter ad H T v" "h + ba_khpb ad \<le> H" "t < T"
  shows "\<exists>b bk bv. blockize_one ad layer k v ((h, t), idx) = Inr (b, bk, bv) \<and> describes ad layer T h t idx b \<and>
    block_of ad k h t bk \<and> block_of ad v h t bv"
proof -
  let ?n = "min (t + ba_tpb ad) T - t"
  obtain bk where bk: "pad_partial ad (ba_khpb ad) ?n (ba_dim ad) (kv_slice h (ba_khpb ad) t ?n k) = Inr bk" "block_of ad k h t bk"
    "ka_dtype bk = ka_dtype k" using pad_partial_ok [OF assms(2,4,5)] by blast
  obtain bv where bv: "pad_partial ad (ba_khpb ad) ?n (ba_dim ad) (kv_slice h (ba_khpb ad) t ?n v) = Inr bv" "block_of ad v h t bv"
    "ka_dtype bv = ka_dtype v" using pad_partial_ok [OF assms(3,4,5)] by blast
  have sz: "ka_nbytes bk = ba_key_bytes ad" "ka_nbytes bv = ba_key_bytes ad"
    using block_of_nbytes bk bv assms(1-3) by (auto simp: fits_adapter_def)
  have cast: "block_of ad a h t (b\<lparr>ka_dtype := Float32\<rparr>) = block_of ad a h t b" for a b
    by (simp add: block_of_def kv_array_ok_def)
  have k: "ka_heads k = H" "ka_seq k = T" "ka_dim k = ba_dim ad" using assms(2) by (simp_all add: fits_adapter_def)
  have hc: "min (ba_khpb ad) (H - h) = ba_khpb ad" using assms(4) by simp
  show ?thesis using bk bv sz assms(1)
    by (simp add: blockize_one_def Let_def hc k cast validate_geometry_def describes_def adapter_ok_def tier_of_fst)
qed

lemma py_range_nth: "py_range n s = Inr xs \<Longrightarrow> length xs = (n + s - 1) div s \<and> (\<forall>i<length xs. xs ! i = i * s \<and> i * s < n)"
proof -
  assume a: "py_range n s = Inr xs"
  then have s: "0 < s" and xs: "xs = map (\<lambda>i. i * s) [0..<(n + s - 1) div s]" by (auto simp: py_range_def split: if_splits)
  have "i * s < n" if "i < (n + s - 1) div s" for i
  proof -
    from that have "Suc i * s \<le> n + s - 1" using s by (metis Suc_leI less_eq_div_iff_mult_less_eq)
    then show ?thesis using s by simp
  qed
  then show ?thesis by (simp add: xs)
qed

lemma blockize_layer_ok:
  assumes "adapter_ok ad" "fits_adapter ad H T k" "fits_adapter ad H T v" "ba_khpb ad dvd H" "0 < H"
  defines "nh \<equiv> H div ba_khpb ad" and "nb \<equiv> (T + ba_tpb ad - 1) div ba_tpb ad"
  shows "\<exists>bs. blockize_layer ad layer k v off = Inr bs \<and> length bs = nh * nb \<and>
    (\<forall>i<nh. \<forall>j<nb. case bs ! (i * nb + j) of (b, bk, bv) \<Rightarrow>
       describes ad layer T (i * ba_khpb ad) (j * ba_tpb ad) (off + int (i * nb + j)) b \<and>
       block_of ad k (i * ba_khpb ad) (j * ba_tpb ad) bk \<and> block_of ad v (i * ba_khpb ad) (j * ba_tpb ad) bv)"
proof -
  have pos: "0 < ba_khpb ad" "0 < ba_tpb ad" using assms(1) by (simp_all add: adapter_ok_def)
  have k: "ka_heads k = H" "ka_seq k = T" "ka_dim k = ba_dim ad" using assms(2) by (simp_all add: fits_adapter_def)
  obtain hs where hs: "py_range H (ba_khpb ad) = Inr hs" using pos by (simp add: py_range_def)
  obtain ts where ts: "py_range T (ba_tpb ad) = Inr ts" using pos by (simp add: py_range_def)
  obtain c where c: "H = ba_khpb ad * c" using assms(4) by (elim dvdE)
  have "(ba_khpb ad * c + (ba_khpb ad - 1)) div ba_khpb ad = c"
    by (subst div_mult_self4) (use pos(1) in simp_all)
  then have "(H + ba_khpb ad - 1) div ba_khpb ad = c" using pos(1) by (simp add: c)
  then have lh: "length hs = nh" using py_range_nth [OF hs] pos by (simp add: nh_def c)
  have lt: "length ts = nb" using py_range_nth [OF ts] by (simp add: nb_def)
  let ?ps = "List.product hs ts" and ?ids = "[off..off + int (nh * nb) - 1]"
  have nth: "zip ?ps ?ids ! i = ((i div nb * ba_khpb ad, i mod nb * ba_tpb ad), off + int i)" "i mod nb * ba_tpb ad < T"
    "i div nb * ba_khpb ad + ba_khpb ad \<le> H" if "i < nh * nb" for i
  proof -
    have nb: "0 < nb" using that by (cases nb) auto
    have "i div nb < nh" using that by (simp add: less_mult_imp_div_less)
    then show "i div nb * ba_khpb ad + ba_khpb ad \<le> H" using pos by (simp add: nh_def c)
      (metis Suc_leI add.commute mult.commute mult_Suc mult_le_mono1)
    have h: "hs ! (i div nb) = i div nb * ba_khpb ad" using py_range_nth [OF hs] \<open>i div nb < nh\<close> lh by metis
    have "i mod nb < nb" using nb by simp
    then have t: "ts ! (i mod nb) = i mod nb * ba_tpb ad \<and> i mod nb * ba_tpb ad < T" using py_range_nth [OF ts] lt by metis
    have id: "?ids ! i = off + int i" using that by (intro nth_upto) linarith
    have "?ps ! i = (hs ! (i div nb), ts ! (i mod nb))" using that lh lt product_nth [of i hs ts] by metis
    moreover have "length ?ps = nh * nb" "length ?ids = nh * nb" using lh lt by (simp_all del: of_nat_mult)
    ultimately show "zip ?ps ?ids ! i = ((i div nb * ba_khpb ad, i mod nb * ba_tpb ad), off + int i)" "i mod nb * ba_tpb ad < T"
      using that h t id by (simp_all only: nth_zip conj_absorb)
  qed
  have "\<forall>i<nh * nb. \<exists>e. blockize_one ad layer k v (zip ?ps ?ids ! i) = Inr e"
    using blockize_one_ok [OF assms(1-3)] nth by fastforce
  then obtain f where f: "\<forall>i<nh * nb. blockize_one ad layer k v (zip ?ps ?ids ! i) = Inr (f i)" by metis
  let ?bs = "map f [0..<nh * nb]"
  have "map_res (blockize_one ad layer k v) (zip ?ps ?ids) = Inr ?bs"
    using f by (simp add: map_res_Inr list_all2_conv_all_nth lh lt del: of_nat_mult)
  moreover have "hs \<noteq> []" using lh c assms(5) pos by (auto simp: nh_def)
  ultimately have "blockize_layer ad layer k v off = Inr ?bs"
    using hs ts by (simp add: blockize_layer_def k lh lt Let_def)
  moreover have "case ?bs ! (i * nb + j) of (b, bk, bv) \<Rightarrow>
       describes ad layer T (i * ba_khpb ad) (j * ba_tpb ad) (off + int (i * nb + j)) b \<and>
       block_of ad k (i * ba_khpb ad) (j * ba_tpb ad) bk \<and> block_of ad v (i * ba_khpb ad) (j * ba_tpb ad) bv"
    if "i < nh" "j < nb" for i j
  proof -
    have "Suc i * nb \<le> nh * nb" using that(1) by (intro mult_le_mono1) simp
    then have m: "i * nb + j < nh * nb" using that(2) by simp
    have "(i * nb + j) div nb = i" "(i * nb + j) mod nb = j" using that by auto
    then show ?thesis using nth [OF m] f m blockize_one_ok [OF assms(1-3) nth(3,2) [OF m], of layer "off + int (i * nb + j)"]
      by auto
  qed
  ultimately show ?thesis by (intro exI [of _ ?bs]) simp
qed

text \<open>C39: Round trip of the block adapter: when the key heads come in full groups, slicing a layer gives
  numbered blocks in which every token of every head is found again at its place, in keys and values,
  and every token of the attention sink or the recent window lies in a block kept in DRAM.\<close>

theorem blocks_reassemble:
  assumes "0 < tpb" "0 < khpb" "0 < H" "khpb dvd H"
    and "fits_adapter (new_block_adapter tpb khpb d dt sinks recent) H T k"
    and "fits_adapter (new_block_adapter tpb khpb d dt sinks recent) H T v"
  shows "\<exists>bs. blockize_layer (new_block_adapter tpb khpb d dt sinks recent) layer k v off = Inr bs \<and>
    length bs = H div khpb * ((T + tpb - 1) div tpb) \<and> (\<forall>i<length bs. block_id (fst (bs ! i)) = off + int i) \<and>
    (\<forall>h<H. \<forall>t<T. case bs ! (h div khpb * ((T + tpb - 1) div tpb) + t div tpb) of (b, bk, bv) \<Rightarrow>
       ka_data bk ! (h mod khpb) ! (t mod tpb) = ka_data k ! h ! t \<and>
       ka_data bv ! (h mod khpb) ! (t mod tpb) = ka_data v ! h ! t \<and>
       token_start b \<le> int t \<and> int t < token_start b + token_count b \<and>
       (int t < sinks \<or> int T - recent \<le> int t \<longrightarrow> storage_tier b = ''DRAM''))"
proof -
  let ?ad = "new_block_adapter tpb khpb d dt sinks recent" and ?nh = "H div khpb" and ?nb = "(T + tpb - 1) div tpb"
  have "adapter_ok ?ad" using assms(1,2) by (simp add: adapter_ok_def)
  from blockize_layer_ok [OF this assms(5,6) _ assms(3), of layer off] assms(4) obtain bs where
    run: "blockize_layer ?ad layer k v off = Inr bs" "length bs = ?nh * ?nb" and
    at: "\<And>i j. i < ?nh \<Longrightarrow> j < ?nb \<Longrightarrow> case bs ! (i * ?nb + j) of (b, bk, bv) \<Rightarrow>
       describes ?ad layer T (i * khpb) (j * tpb) (off + int (i * ?nb + j)) b \<and>
       block_of ?ad k (i * khpb) (j * tpb) bk \<and> block_of ?ad v (i * khpb) (j * tpb) bv" by auto
  have ids: "block_id (fst (bs ! i)) = off + int i" if "i < length bs" for i
  proof -
    have i: "i < ?nh * ?nb" using that run(2) by simp
    then have nb: "0 < ?nb" by (cases ?nb) auto
    have "i div ?nb < ?nh" using i by (simp only: less_mult_imp_div_less)
    moreover have "i mod ?nb < ?nb" using nb by simp
    moreover have "i div ?nb * ?nb + i mod ?nb = i" by (rule div_mult_mod_eq)
    moreover note calculation
    then show ?thesis using at [of "i div ?nb" "i mod ?nb"] by (auto simp: describes_def split: prod.splits)
  qed
  have found: "case bs ! (h div khpb * ?nb + t div tpb) of (b, bk, bv) \<Rightarrow>
       ka_data bk ! (h mod khpb) ! (t mod tpb) = ka_data k ! h ! t \<and>
       ka_data bv ! (h mod khpb) ! (t mod tpb) = ka_data v ! h ! t \<and>
       token_start b \<le> int t \<and> int t < token_start b + token_count b \<and>
       (int t < sinks \<or> int T - recent \<le> int t \<longrightarrow> storage_tier b = ''DRAM'')" if "h < H" "t < T" for h t
  proof -
    have "h div khpb < ?nh" using that(1) assms(4) by (simp add: less_mult_imp_div_less)
    moreover have "t div tpb < ?nb"
    proof -
      have "(t + tpb) div tpb \<le> ?nb" using that(2) by (intro div_le_mono) simp
      then show ?thesis using assms(1) by simp
    qed
    ultimately obtain b bk bv where e: "bs ! (h div khpb * ?nb + t div tpb) = (b, bk, bv)"
      "describes ?ad layer T (h div khpb * khpb) (t div tpb * tpb) (off + int (h div khpb * ?nb + t div tpb)) b"
      "block_of ?ad k (h div khpb * khpb) (t div tpb * tpb) bk" "block_of ?ad v (h div khpb * khpb) (t div tpb * tpb) bv"
      using at [of "h div khpb" "t div tpb"] by (auto split: prod.splits)
    have m: "h mod khpb < khpb" "t mod tpb < tpb" "h div khpb * khpb + h mod khpb = h" "t div tpb * tpb + t mod tpb = t"
      using assms(1,2) by simp_all
    then have le: "t div tpb * tpb \<le> t" "t < t div tpb * tpb + tpb" by linarith+
    have seq: "ka_seq k = T" "ka_seq v = T" using assms(5,6) by (simp_all add: fits_adapter_def)
    have rows: "ka_data bk ! (h mod khpb) ! (t mod tpb) = ka_data k ! h ! t" "ka_data bv ! (h mod khpb) ! (t mod tpb) = ka_data v ! h ! t"
      using e(3,4) m seq that(2) by (simp_all add: block_of_def)
    have lo: "int (t div tpb * tpb) \<le> int t" and hi: "int t < int (min (t div tpb * tpb + tpb) T)" and
      up: "int t < int (t div tpb * tpb) + int tpb" using le that(2) by linarith+
    have d: "storage_tier b = ''DRAM'' \<longleftrightarrow> int (t div tpb * tpb) < sinks \<or> int T - recent < int (min (t div tpb * tpb + tpb) T)"
      "token_start b = int (t div tpb * tpb)" "token_count b = int tpb"
      using e(2) by (simp_all add: describes_def del: of_nat_mult)
    have tier: "int t < sinks \<or> int T - recent \<le> int t \<longrightarrow> storage_tier b = ''DRAM''"
      unfolding d(1) by (intro impI, elim disjE) (rule disjI1, rule order.strict_trans1 [OF lo], assumption,
        rule disjI2, rule order.strict_trans1 [OF _ hi])
    show ?thesis unfolding e(1) prod.case d(2,3) using rows lo up tier by blast
  qed
  show ?thesis by (intro exI [of _ bs] conjI allI impI run ids found)
qed

definition sample_rows :: "nat \<Rightarrow> real \<Rightarrow> kv_array" where
  "sample_rows T x = \<lparr>ka_dtype = Float32, ka_heads = 1, ka_seq = T, ka_dim = 1, ka_data = [map (\<lambda>t. [x + real t]) [0..<T]]\<rparr>"

lemma sample_rows_fit: "fits_adapter (new_block_adapter 2 1 1 ''FP32'' 1 1) 1 T (sample_rows T x)"
  by (simp add: fits_adapter_def sample_rows_def kv_array_ok_def new_block_adapter_def Let_def elem_bytes_of_def upper_str_def
      upper_char_def char_code_def)

lemma blocks_reassemble_witness:
  "\<exists>bs. blockize_layer (new_block_adapter 2 1 1 ''FP32'' 1 1) 0 (sample_rows 5 10) (sample_rows 5 20) 7 = Inr bs \<and> length bs = 3 \<and>
     ka_data (fst (snd (bs ! 1))) ! 0 ! 1 = [13]"
proof -
  obtain bs where "blockize_layer (new_block_adapter 2 1 1 ''FP32'' 1 1) 0 (sample_rows 5 10) (sample_rows 5 20) 7 = Inr bs"
    "length bs = 3" "\<forall>h<1. \<forall>t<5. case bs ! (h div 1 * ((5 + 2 - 1) div 2) + t div 2) of (b, bk, bv) \<Rightarrow>
       ka_data bk ! (h mod 1) ! (t mod 2) = ka_data (sample_rows 5 10) ! h ! t"
    using blocks_reassemble [of 2 1 1 1 "''FP32''" 1 1 5 "sample_rows 5 10" "sample_rows 5 20" 0 7] sample_rows_fit [of 5]
    by (fastforce split: prod.splits)
  then show ?thesis by (cases "bs ! 1") (auto simp: sample_rows_def dest!: spec [of _ 3])
qed

section \<open>Every event is accepted\<close>

text \<open>
  An event numbered \<open>i\<close> of a model with \<open>L\<close> layers and \<open>N\<close> key heads: the replayer's validation takes it
  at any line, with integer positions, and its canonical record is inside the model.
\<close>

definition event_ok :: "pystd \<Rightarrow> int \<Rightarrow> int \<Rightarrow> int \<Rightarrow> jobj \<Rightarrow> bool" where
  "event_ok p L N i ev \<longleftrightarrow> dget ev ''schema_version'' = None \<and>
     (\<exists>v r. (\<forall>line. validate_record p ev line = Inr v) \<and> vr_event v = JInt i \<and> int_record v = Some r) \<and>
     (\<exists>c. canon_from_dict p ev = Inr c \<and> ca_event c = i \<and> canon_valid (JInt L) (JInt N) (i - 1) c)"

lemma trace_words [simp]:
  "upper_str ''PREFILL_WRITE'' = ''PREFILL_WRITE''" "upper_str ''DECODE_READ'' = ''DECODE_READ''"
  "upper_str ''TOPK_FILTER'' = ''TOPK_FILTER''" "upper_str ''TOPK_FETCH'' = ''TOPK_FETCH''"
  "upper_str ''BOTH'' = ''BOTH''" "upper_str ''KEY'' = ''KEY''" "upper_str ''VALUE'' = ''VALUE''"
  by (simp_all add: upper_str_def upper_char_def char_code_def)

lemma py_list_ints [simp]: "py_list (JList xs) = Inr xs"
  by simp

lemma block_event_ok:
  assumes "op \<in> {''PREFILL_WRITE'', ''DECODE_READ'', ''TOPK_FETCH''}" "sub \<in> {''BOTH'', ''VALUE''}"
    and "0 \<le> l" "l < L" "0 \<le> kv_head_start b" "kv_head_start b < N" "0 < n" "0 \<le> block_id b"
  shows "event_ok p L N i (block_event base q l op b sub n tier cand sel i)"
proof -
  let ?e = "block_event base q l op b sub n tier cand sel i"
  have up: "upper_str op = op" "upper_str sub = sub" "op \<in> set VALID_OPERATIONS" "op \<noteq> []"
    using assms(1,2) by (auto simp: VALID_OPERATIONS_def)
  have "validate_record p ?e line = Inr \<lparr>vr_event = JInt i, vr_op = op, vr_layer = l, vr_head = kv_head_start b,
      vr_token = JInt (token_start b), vr_block = JInt (block_id b), vr_bytes = n, vr_sub = sub, vr_raw = ?e\<rparr>" for line
    using assms(3,5,7) up
    by (simp add: validate_record_def block_event_def jget_def jget_or_def valid_op_def int_at_least_def pick_def Let_def)
  moreover obtain c where "canon_from_dict p ?e = Inr c" "ca_event c = i" "ca_layer c = l" "ca_head c = kv_head_start b"
    "ca_bytes c = n" "ca_block c = block_id b"
    using assms(2) by (auto simp: canon_from_dict_def block_event_def jget_def jget_or_def canon_event_def or_else_def canon_op_def
        canon_bytes_def Let_def)
  ultimately show ?thesis using assms(3-8)
    by (auto simp: event_ok_def int_record_def canon_valid_def json_below_def block_event_def)
qed

lemma filter_event_ok:
  assumes "0 \<le> l" "l < L" "0 < N" "0 < n" "0 \<le> hd cand"
  shows "event_ok p L N i (filter_event base q l n cand sel k i)"
proof -
  let ?e = "filter_event base q l n cand sel k i"
  have "validate_record p ?e line = Inr \<lparr>vr_event = JInt i, vr_op = ''TOPK_FILTER'', vr_layer = l, vr_head = 0,
      vr_token = JInt 0, vr_block = JInt (hd cand), vr_bytes = n, vr_sub = ''KEY'', vr_raw = ?e\<rparr>" for line
    using assms by (simp add: validate_record_def filter_event_def jget_def jget_or_def valid_op_def VALID_OPERATIONS_def
        int_at_least_def pick_def Let_def)
  moreover obtain c where "canon_from_dict p ?e = Inr c" "ca_event c = i" "ca_layer c = l" "ca_head c = 0"
    "ca_bytes c = n" "ca_block c = hd cand"
    by (auto simp: canon_from_dict_def filter_event_def jget_def jget_or_def canon_event_def or_else_def canon_op_def
        canon_bytes_def Let_def)
  ultimately show ?thesis using assms
    by (auto simp: event_ok_def int_record_def canon_valid_def json_below_def filter_event_def)
qed

definition tg_ok :: "pystd \<Rightarrow> int \<Rightarrow> int \<Rightarrow> trace_gen \<Rightarrow> bool" where
  "tg_ok p L N g \<longleftrightarrow> tg_next g = int (length (tg_events g)) \<and>
     (\<forall>i<length (tg_events g). event_ok p L N (int i) (tg_events g ! i))"

lemma emit_ok:
  assumes "tg_ok p L N g" "\<And>i. event_ok p L N i (f i)"
  shows "\<exists>g'. emit f g = (Inr (), g') \<and> tg_ok p L N g'"
  using assms by (auto simp: emit_def meth_run tg_ok_def nth_append less_Suc_eq)

lemma sfor_total:
  assumes "\<And>x s. x \<in> set xs \<Longrightarrow> I s \<Longrightarrow> \<exists>s'. f x () s = (Inr (), s') \<and> I s'" "I s"
  shows "\<exists>s'. sfor f xs () s = (Inr (), s') \<and> I s'"
  using assms
proof (induction xs arbitrary: s)
  case (Cons x xs)
  then obtain s1 where "f x () s = (Inr (), s1)" "I s1" by (metis list.set_intros(1))
  then show ?case using Cons.IH [of s1] Cons.prems(1) by (auto simp: meth_run)
qed (simp add: meth_run)

text \<open>The blocks a trace is made of.\<close>

definition entry_ok :: "nat \<Rightarrow> int \<Rightarrow> block_entry \<Rightarrow> bool" where
  "entry_ok d N e \<longleftrightarrow> 0 \<le> block_id (fst e) \<and> 0 \<le> kv_head_start (fst e) \<and> kv_head_start (fst e) < N \<and>
     0 < key_size_bytes (fst e) \<and> 0 < value_size_bytes (fst e) \<and>
     ka_dim (fst (snd e)) = d \<and> 0 < ka_seq (fst (snd e)) \<and> ka_data (fst (snd e)) \<noteq> [] \<and> ka_data (snd (snd e)) \<noteq> []"

text \<open>A native kernel that is asked for at least one of some blocks answers with ids of those blocks.\<close>

definition native_answers :: "topk_kernel option \<Rightarrow> bool" where
  "native_answers knl \<longleftrightarrow> (\<forall>f q xs k. knl = Some f \<longrightarrow> xs \<noteq> [] \<longrightarrow> 1 \<le> k \<longrightarrow> (\<exists>sel. f q xs k = Inr sel \<and> set sel \<subseteq> fst ` set xs))"

lemma native_answers_none: "native_answers None"
  by (simp add: native_answers_def)

lemma ref_score_total:
  assumes "\<forall>r\<in>set q. length r = ka_dim k" "q \<noteq> []" "0 < ka_seq k"
  shows "\<exists>x. ref_score scale q k = Inr x"
proof -
  obtain r q' where "q = r # q'" using assms(2) by (cases q) auto
  moreover obtain m where "ka_seq k = Suc m" using assms(3) by (cases "ka_seq k") auto
  ultimately show ?thesis using assms(1) by (simp add: ref_score_def list_all_iff upt_conv_Cons del: upt_Suc)
qed

lemma map_res_defined: "(\<And>x. x \<in> set xs \<Longrightarrow> \<exists>y. f x = Inr y) \<Longrightarrow> \<exists>ys. map_res f xs = Inr ys"
proof (induction xs)
  case (Cons x xs)
  then obtain y where "f x = Inr y" by fastforce
  moreover obtain ys where "map_res f xs = Inr ys" using Cons by fastforce
  ultimately show ?case by simp
qed simp

lemma reference_total:
  assumes "\<forall>e\<in>set es. entry_ok d N e" "\<forall>r\<in>set q. length r = d" "q \<noteq> []"
  shows "\<exists>sel. select_ssd None scale q es k = Inr sel \<and> set sel \<subseteq> (\<lambda>e. block_id (fst e)) ` set es"
proof -
  let ?f = "\<lambda>e::block_entry. rbind (ref_score scale q (fst (snd e))) (\<lambda>s. Inr (s, block_id (fst e)))"
  have "\<exists>y. ?f e = Inr y" if "e \<in> set es" for e
    using ref_score_total [of q "fst (snd e)" scale] that assms by (fastforce simp: entry_ok_def)
  then obtain ss where ss: "map_res ?f es = Inr ss" using map_res_defined [of es ?f] by auto
  have "snd s \<in> (\<lambda>e. block_id (fst e)) ` set es" if "s \<in> set ss" for s
  proof -
    obtain i where i: "i < length ss" "s = ss ! i" using \<open>s \<in> set ss\<close> by (metis in_set_conv_nth)
    then have "i < length es" "?f (es ! i) = Inr s" using ss by (auto simp: map_res_Inr list_all2_conv_all_nth)
    then show ?thesis by (auto simp: rbind_Inr_iff intro: imageI)
  qed
  then show ?thesis using ss by (auto simp: select_ssd_def dest!: in_set_takeD)
qed

lemma native_total:
  assumes "\<forall>e\<in>set es. entry_ok d N e" "native_answers (Some f)" "es \<noteq> []" "1 \<le> k"
  shows "\<exists>sel. select_ssd (Some f) scale q es k = Inr sel \<and> set sel \<subseteq> (\<lambda>e. block_id (fst e)) ` set es"
proof -
  have one: "\<exists>y. first_head e = Inr y \<and> fst y = block_id (fst e)" if "e \<in> set es" for e
    using assms(1) that by (cases e; cases "ka_data (fst (snd e))"; cases "ka_data (snd (snd e))") (fastforce simp: first_head_def entry_ok_def)+
  then obtain xs where xs: "map_res first_head es = Inr xs" using map_res_defined [of es first_head] by blast
  then have la: "list_all2 (\<lambda>e y. first_head e = Inr y) es xs" by (simp add: map_res_Inr)
  have ids: "fst ` set xs \<subseteq> (\<lambda>e. block_id (fst e)) ` set es"
  proof
    fix i assume "i \<in> fst ` set xs"
    then obtain n where n: "n < length xs" "i = fst (xs ! n)" by (auto simp: in_set_conv_nth)
    then have "n < length es" "first_head (es ! n) = Inr (xs ! n)" using la by (auto simp: list_all2_conv_all_nth)
    then show "i \<in> (\<lambda>e. block_id (fst e)) ` set es" using one [of "es ! n"] n(2) by (metis image_eqI nth_mem sum.inject(2))
  qed
  have "xs \<noteq> []" using la assms(3) by auto
  then obtain sel where "f q xs k = Inr sel" "set sel \<subseteq> fst ` set xs" using assms(2,4) unfolding native_answers_def by blast
  then show ?thesis using xs ids by (auto simp: select_ssd_def)
qed

lemma select_ssd_total:
  assumes "\<forall>e\<in>set es. entry_ok d N e" "\<forall>r\<in>set q. length r = d" "q \<noteq> []" "native_answers knl" "es \<noteq> []"
  shows "\<exists>sel. select_ssd knl scale q es (topk_budget (length es) pct) = Inr sel \<and> set sel \<subseteq> (\<lambda>e. block_id (fst e)) ` set es"
proof (cases knl)
  case None
  then show ?thesis using reference_total [OF assms(1-3)] by simp
next
  case (Some f)
  have "1 \<le> topk_budget (length es) pct" using assms(5) by (simp add: topk_budget_def)
  then show ?thesis using native_total [OF assms(1) _ assms(5)] assms(4) Some by simp
qed

lemma prefill_layer_ok:
  assumes "dget lb l = Some bs" "\<forall>e\<in>set bs. entry_ok d N e" "0 \<le> l" "l < L" "tg_ok p L N g"
  shows "\<exists>g'. prefill_layer base lb l g = (Inr (), g') \<and> tg_ok p L N g'"
proof -
  have "\<exists>g'. sfor (\<lambda>e _. emit (block_event base 0 l ''PREFILL_WRITE'' (fst e) ''BOTH'' (total_size_bytes (fst e))
      (storage_tier (fst e)) [] [block_id (fst e)])) bs () g = (Inr (), g') \<and> tg_ok p L N g'"
    using assms(2-5) by (intro sfor_total emit_ok block_event_ok) (auto simp: entry_ok_def total_size_bytes_def)
  then show ?thesis using assms(1) by (simp add: prefill_layer_def of_option_def)
qed

lemma log_fetch_ok:
  assumes "\<forall>e\<in>set es. entry_ok d N e" "i \<in> (\<lambda>e. block_id (fst e)) ` set es" "0 \<le> l" "l < L" "tg_ok p L N g"
  shows "\<exists>g'. log_fetch base q l (map fst es) cand sel i g = (Inr (), g') \<and> tg_ok p L N g'"
proof -
  obtain b where b: "find (\<lambda>b. block_id b = i) (map fst es) = Some b"
    using assms(2) by (cases "find (\<lambda>b. block_id b = i) (map fst es)") (auto simp: find_None_iff)
  then have "b \<in> fst ` set es" by (auto simp: find_Some_iff intro: nth_mem)
  then have "\<exists>g'. emit (block_event base q l ''TOPK_FETCH'' b ''VALUE'' (value_size_bytes b) ''SSD'' cand sel) g = (Inr (), g') \<and> tg_ok p L N g'"
    using assms by (intro emit_ok block_event_ok) (auto simp: entry_ok_def)
  then show ?thesis using b by (simp add: log_fetch_def of_option_def)
qed

lemma sthen_total:
  "(\<exists>s1. m s = (Inr (), s1) \<and> I s1) \<Longrightarrow> (\<And>s1. I s1 \<Longrightarrow> \<exists>s2. k s1 = (Inr (), s2) \<and> I s2) \<Longrightarrow> \<exists>s2. sthen m k s = (Inr (), s2) \<and> I s2"
  by (auto simp: meth_run)

lemma decode_layer_ok:
  assumes "dget lb l = Some bs" "\<forall>e\<in>set bs. entry_ok d N e" "0 \<le> l" "l < L" "0 < N" "tg_ok p L N g"
    and "dget sq l = Some ql" "ql \<noteq> []" "\<forall>r\<in>set ql. length r = d" "native_answers knl"
  shows "\<exists>g'. decode_layer knl base scale pct lb q sq l g = (Inr (), g') \<and> tg_ok p L N g'"
proof -
  let ?es = "filter (\<lambda>e. storage_tier (fst e) = ''SSD'') bs" and ?dram = "filter (\<lambda>b. storage_tier b = ''DRAM'') (map fst bs)"
  let ?cand = "map (\<lambda>e. block_id (fst e)) ?es" and ?I = "tg_ok p L N"
  let ?k = "topk_budget (length ?cand) pct"
  have es: "\<forall>e\<in>set ?es. entry_ok d N e" using assms(2) by simp
  have "\<exists>sel. (?es \<noteq> [] \<longrightarrow> select_ssd knl scale ql ?es ?k = Inr sel) \<and> set sel \<subseteq> (\<lambda>e. block_id (fst e)) ` set ?es"
  proof (cases "?es = []")
    case True
    then show ?thesis by (intro exI [of _ "[]"]) simp
  next
    case False
    then show ?thesis using select_ssd_total [OF es assms(9,8,10) False] by auto
  qed
  then obtain sel where sel: "?es \<noteq> [] \<Longrightarrow> select_ssd knl scale ql ?es ?k = Inr sel" "set sel \<subseteq> (\<lambda>e. block_id (fst e)) ` set ?es"
    by blast
  have "\<exists>g'. sthen (sfor (\<lambda>b _. emit (block_event base q l ''DECODE_READ'' b ''BOTH'' (total_size_bytes b) ''DRAM'' [] [block_id b])) ?dram ())
          (if ?cand = [] then sret ()
           else sthen (emit (filter_event base q l (int (length ?cand) * key_size_bytes (fst (hd bs))) ?cand sel ?k))
                      (sfor (\<lambda>i _. log_fetch base q l (map fst ?es) ?cand sel i) sel ())) g = (Inr (), g') \<and> ?I g'"
  proof (rule sthen_total)
    show "\<exists>g'. sfor (\<lambda>b _. emit (block_event base q l ''DECODE_READ'' b ''BOTH'' (total_size_bytes b) ''DRAM'' [] [block_id b])) ?dram () g = (Inr (), g') \<and> ?I g'"
      using assms(2-6) by (intro sfor_total emit_ok block_event_ok) (auto simp: entry_ok_def total_size_bytes_def)
    fix g1 assume g1: "?I g1"
    show "\<exists>g'. (if ?cand = [] then sret () else sthen (emit (filter_event base q l (int (length ?cand) * key_size_bytes (fst (hd bs))) ?cand sel ?k))
        (sfor (\<lambda>i _. log_fetch base q l (map fst ?es) ?cand sel i) sel ())) g1 = (Inr (), g') \<and> ?I g'"
    proof (cases "?cand = []")
      case False
      then have "bs \<noteq> []" "?es \<noteq> []" by auto
      then have "hd bs \<in> set bs" "hd ?es \<in> set ?es" using hd_in_set by blast+
      moreover have "hd ?cand = block_id (fst (hd ?es))" using False by (simp add: hd_map)
      ultimately have pos: "0 < int (length ?cand) * key_size_bytes (fst (hd bs))" "0 \<le> hd ?cand"
        using False assms(2) es by (auto simp: entry_ok_def)
      have "\<exists>g'. sthen (emit (filter_event base q l (int (length ?cand) * key_size_bytes (fst (hd bs))) ?cand sel ?k))
        (sfor (\<lambda>i _. log_fetch base q l (map fst ?es) ?cand sel i) sel ()) g1 = (Inr (), g') \<and> ?I g'"
        using assms(3-5) sel(2) g1 pos
        by (intro sthen_total sfor_total log_fetch_ok [OF es] emit_ok filter_event_ok) blast+
      then show ?thesis using False by (simp only: if_False)
    qed (use g1 in simp)
  qed
  then show ?thesis using assms(1,7) sel(1)
    by (cases "?cand = []") (simp_all add: decode_layer_def of_option_def Let_def)
qed

text \<open>The trace of a whole run, and what it leaves behind.\<close>

definition blocks_ok :: "nat \<Rightarrow> int \<Rightarrow> int \<Rightarrow> (int, block_entry list) dict \<Rightarrow> bool" where
  "blocks_ok d L N lb \<longleftrightarrow> (\<forall>l. 0 \<le> l \<and> l < L \<longrightarrow> (\<exists>bs. dget lb l = Some bs \<and> bs \<noteq> [] \<and> (\<forall>e\<in>set bs. entry_ok d N e)))"

definition queries_ok :: "nat \<Rightarrow> int \<Rightarrow> (int, real list list) dict list \<Rightarrow> bool" where
  "queries_ok d L qs \<longleftrightarrow> (\<forall>sq\<in>set qs. \<forall>l. 0 \<le> l \<and> l < L \<longrightarrow>
     (\<exists>q. dget sq l = Some q \<and> q \<noteq> [] \<and> (\<forall>r\<in>set q. length r = d)))"

lemma logged_emit [inv_intros]: "keeps (\<lambda>g. tg_events g \<noteq> []) (emit f)"
  unfolding emit_def by (rule keeps_supd) simp

lemma logged_prefill [inv_intros]: "keeps (\<lambda>g. tg_events g \<noteq> []) (prefill_layer base lb l)"
  unfolding prefill_layer_def by (intro inv_intros)

lemma logged_decode [inv_intros]: "keeps (\<lambda>g. tg_events g \<noteq> []) (decode_layer knl base scale pct lb q sq l)"
  unfolding decode_layer_def log_fetch_def Let_def by (intro inv_intros)

lemma prefill_logs:
  assumes "dget lb l = Some bs" "bs \<noteq> []" "prefill_layer base lb l g = (r, g')"
  shows "tg_events g' \<noteq> []"
proof -
  obtain e es where bs: "bs = e # es" using assms(2) by (cases bs) auto
  let ?f = "\<lambda>e (_::unit). emit (block_event base 0 l ''PREFILL_WRITE'' (fst e) ''BOTH'' (total_size_bytes (fst e))
       (storage_tier (fst e)) [] [block_id (fst e)])"
  obtain g1 where g1: "?f e () g = (Inr (), g1)" "tg_events g1 \<noteq> []" by (simp add: emit_def meth_run)
  have "keeps (\<lambda>g. tg_events g \<noteq> []) (sfor ?f es ())" by (intro inv_intros)
  moreover have "sfor ?f es () g1 = (r, g')"
    using assms(1,3) g1(1) by (simp add: bs prefill_layer_def of_option_def meth_run)
  ultimately show ?thesis using g1(2) keepsD by fast
qed

lemma generate_run_trace_ok:
  assumes "blocks_ok d (rm_layers (ir_meta r)) (rm_kv_heads (ir_meta r)) lb" "queries_ok d (rm_layers (ir_meta r)) (ir_queries r)"
    and "0 < rm_layers (ir_meta r)" "0 < rm_kv_heads (ir_meta r)" "native_answers knl"
  shows "\<exists>g' evs b. generate_run_trace knl hash base now rg r lb name pct g =
      (Inr (rg_dir rg @ ''/'' @ ''trace_'' @ name @ ''.jsonl'', rg_dir rg @ ''/trace_'' @ name @ ''.manifest.json'', hash evs), g') \<and>
    tg_file g' = Some evs \<and> tg_manifest g' = Some (run_manifest rg r b name (length evs) pct now (hash evs)) \<and>
    (\<forall>i<length evs. event_ok p (rm_layers (ir_meta r)) (rm_kv_heads (ir_meta r)) (int i) (evs ! i)) \<and> evs \<noteq> []"
proof -
  let ?L = "rm_layers (ir_meta r)" and ?N = "rm_kv_heads (ir_meta r)"
  let ?I = "tg_ok p ?L ?N" and ?ls = "[0..?L - 1]" and ?scale = "1 / sqrt (of_int (rm_dim (ir_meta r)))"
  let ?steps = "zip [1..int (length (ir_queries r))] (ir_queries r)"
  let ?g0 = "g\<lparr>tg_events := [], tg_next := 0\<rparr>"
  have one: "\<exists>g'. prefill_layer base lb l g1 = (Inr (), g') \<and> ?I g'" if "l \<in> set ?ls" "?I g1" for l g1
    using that assms(1) prefill_layer_ok [where d = d and N = ?N and L = ?L] by (fastforce simp: blocks_ok_def)
  have two: "\<exists>g'. decode_layer knl base ?scale pct lb q sq l g1 = (Inr (), g') \<and> ?I g'"
    if "l \<in> set ?ls" "sq \<in> set (ir_queries r)" "?I g1" for q sq l g1
  proof -
    have l: "0 \<le> l" "l < ?L" using that(1) by auto
    note sq = that(2) and g1 = that(3)
    obtain bs where bs: "dget lb l = Some bs" "\<forall>e\<in>set bs. entry_ok d ?N e" using assms(1) l by (auto simp: blocks_ok_def)
    obtain ql where ql: "dget sq l = Some ql" "ql \<noteq> []" "\<forall>x\<in>set ql. length x = d"
      using bspec [OF assms(2) [unfolded queries_ok_def] sq] l by blast
    show ?thesis by (rule decode_layer_ok [OF bs l assms(4) g1 ql assms(5)])
  qed
  have g0: "?I ?g0" by (simp add: tg_ok_def)
  obtain g1 where g1: "sfor (\<lambda>l _. prefill_layer base lb l) ?ls () ?g0 = (Inr (), g1)" "?I g1"
    using sfor_total [where I = ?I and xs = ?ls and f = "\<lambda>l _. prefill_layer base lb l"] one g0 by blast
  have logged: "tg_events g1 \<noteq> []"
  proof -
    have ls: "?ls = 0 # [1..?L - 1]" using assms(3) by (simp add: upto_rec1)
    obtain bs where bs: "dget lb 0 = Some bs" "bs \<noteq> []"
      using assms(1) [unfolded blocks_ok_def, rule_format, of 0] assms(3) by auto
    obtain g' where g': "prefill_layer base lb 0 ?g0 = (Inr (), g')" using one [of 0] g0 by (auto simp: ls)
    have "sfor (\<lambda>l _. prefill_layer base lb l) [1..?L - 1] () g' = (Inr (), g1)" using g1(1) g' by (simp add: ls meth_run)
    moreover have "keeps (\<lambda>g. tg_events g \<noteq> []) (sfor (\<lambda>l _. prefill_layer base lb l) [1..?L - 1] ())" by (intro inv_intros)
    ultimately show ?thesis using prefill_logs [OF bs g'] keepsD by fast
  qed
  have "\<exists>g'. sfor (\<lambda>(q, sq) _. sfor (\<lambda>l _. decode_layer knl base ?scale pct lb q sq l) ?ls ()) ?steps () g1 = (Inr (), g') \<and> ?I g'"
  proof (rule sfor_total [where I = ?I, OF _ g1(2)])
    fix x g2 assume x: "x \<in> set ?steps" and g2: "?I g2"
    obtain q sq where q: "x = (q, sq)" by (cases x)
    have sq: "sq \<in> set (ir_queries r)" using x unfolding q by (rule set_zip_rightD)
    show "\<exists>g'. (case x of (q, sq) \<Rightarrow> \<lambda>_. sfor (\<lambda>l _. decode_layer knl base ?scale pct lb q sq l) ?ls ()) () g2 = (Inr (), g') \<and> ?I g'"
      using sfor_total [where I = ?I and xs = ?ls and f = "\<lambda>l _. decode_layer knl base ?scale pct lb q sq l"] two sq g2
      by (simp add: q)
  qed
  then obtain g2 where g2: "sfor (\<lambda>(q, sq) _. sfor (\<lambda>l _. decode_layer knl base ?scale pct lb q sq l) ?ls ()) ?steps () g1 = (Inr (), g2)" "?I g2"
    by blast
  have "keeps (\<lambda>g. tg_events g \<noteq> []) (sfor (\<lambda>(q, sq) _. sfor (\<lambda>l _. decode_layer knl base ?scale pct lb q sq l) ?ls ()) ?steps ())"
    unfolding case_prod_unfold by (intro inv_intros)
  then have "tg_events g2 \<noteq> []" using keepsD logged g2(1) by fast
  have last: "?ls \<noteq> []" "last ?ls = ?L - 1" using assms(3) by (simp_all add: upto_rec2)
  obtain bs where "dget lb (?L - 1) = Some bs" "bs \<noteq> []"
    using assms(1) [unfolded blocks_ok_def, rule_format, of "?L - 1"] assms(3) by auto
  then obtain e es where e: "dget lb (last ?ls) = Some (e # es)" using last(2) by (metis list.exhaust)
  show ?thesis using g1(1) g2 last(1) e \<open>tg_events g2 \<noteq> []\<close>
    by (simp add: generate_run_trace_def Let_def meth_run tg_ok_def) blast
qed

section \<open>Reader, replayer and the whole pipeline\<close>

abbreviation trace_lines :: "jobj list \<Rightarrow> trace_line list" where
  "trace_lines evs \<equiv> map (\<lambda>ev. LJson (JObj ev)) evs"

lemma rd_lines_accept:
  assumes "\<forall>i<length evs. event_ok p L N (n + int i) (evs ! i)" "layer_bound r = JInt L" "head_bound r = JInt N" "rd_last r = n - 1"
  shows "\<exists>cs r'. rd_lines p (trace_lines evs) r = ((cs, None), r') \<and> map ca_event cs = [n..n + int (length evs) - 1]"
  using assms
proof (induction evs arbitrary: n r)
  case (Cons ev evs)
  have ok: "event_ok p L N n ev" using Cons.prems(1) [rule_format, of 0] by simp
  then obtain c where c: "canon_from_dict p ev = Inr c" "ca_event c = n" "canon_valid (JInt L) (JInt N) (n - 1) c"
    by (auto simp: event_ok_def)
  have "fst (rd_validate c r) = Inr ()" using c Cons.prems(2-4) by (simp add: rd_validate_ok)
  moreover have "snd (rd_validate c r) = r\<lparr>rd_last := n\<rparr>" using c Cons.prems(4) by (simp add: rd_validate_state)
  ultimately have "rd_validate c r = (Inr (), r\<lparr>rd_last := n\<rparr>)" by (metis prod.collapse)
  then have rec: "rd_record p (JObj ev) r = (Inr c, r\<lparr>rd_last := n\<rparr>)" using c(1) by (simp add: rd_record_def meth_run)
  have "\<forall>i<length evs. event_ok p L N (n + 1 + int i) (evs ! i)"
  proof (intro allI impI)
    fix i assume "i < length evs"
    then show "event_ok p L N (n + 1 + int i) (evs ! i)" using Cons.prems(1) [rule_format, of "Suc i"] by (simp add: add.assoc)
  qed
  from Cons.IH [OF this, of "r\<lparr>rd_last := n\<rparr>"] Cons.prems(2,3) obtain cs r' where
    IH: "rd_lines p (trace_lines evs) (r\<lparr>rd_last := n\<rparr>) = ((cs, None), r')" "map ca_event cs = [n + 1..n + 1 + int (length evs) - 1]" by auto
  have "[n..n + int (length (ev # evs)) - 1] = n # [n + 1..n + 1 + int (length evs) - 1]"
    by (subst upto_rec1) (simp_all add: algebra_simps)
  then show ?case using rec IH c(2) by simp
qed simp

lemma load_trace_accept:
  assumes "\<forall>i<length evs. \<exists>k. event_ok p L N k (evs ! i)"
  shows "\<exists>vs rs. load_trace p (trace_lines evs) line = Inr vs \<and> map int_record vs = map Some rs \<and> length vs = length evs"
  using assms
proof (induction evs arbitrary: line)
  case (Cons ev evs)
  obtain k where "event_ok p L N k ev" using Cons.prems [rule_format, of 0] by auto
  then obtain v r where v: "\<And>line. validate_record p ev line = Inr v" "int_record v = Some r" by (auto simp: event_ok_def)
  have "\<forall>i<length evs. \<exists>k. event_ok p L N k (evs ! i)" using Cons.prems [rule_format, of "Suc i" for i] by auto
  from Cons.IH [OF this, of "line + 1"] obtain vs rs where
    "load_trace p (trace_lines evs) (line + 1) = Inr vs" "map int_record vs = map Some rs" "length vs = length evs" by blast
  then show ?case using v by (intro exI [of _ "v # vs"] exI [of _ "r # rs"]) simp
qed simp

text \<open>The reader finds the manifest by the name of the trace.\<close>

lemma ends_with_jsonl: "\<not> ends_with (''trace_'' @ name @ ''.jsonl'') ''.manifest.json''"
proof
  assume "ends_with (''trace_'' @ name @ ''.jsonl'') ''.manifest.json''"
  then obtain x where "''trace_'' @ name @ ''.jsonl'' = x @ ''.manifest.json''"
    unfolding ends_with_def by (metis append_take_drop_id)
  then have "last (''trace_'' @ name @ ''.jsonl'') = last (x @ ''.manifest.json'')" by (rule arg_cong)
  then show False by simp
qed

lemma path_stem_jsonl: "path_stem (''trace_'' @ name @ ''.jsonl'') = ''trace_'' @ name"
  by (simp add: path_stem_def Let_def)

lemma header_of_run_manifest:
  "\<exists>h. header_of_manifest (manifest_from_dict (run_manifest rg r b name n pct now digest)) = Inr h"
  by (simp add: header_of_manifest_def manifest_from_dict_def run_manifest_def Let_def jget_or_def)

lemma run_manifest_bounds:
  "mf_num_layers (manifest_from_dict (run_manifest rg r b name n pct now digest)) = JInt (rm_layers (ir_meta r))"
  "mf_num_kv_heads (manifest_from_dict (run_manifest rg r b name n pct now digest)) = JInt (rm_kv_heads (ir_meta r))"
  "mf_gqa_ratio (manifest_from_dict (run_manifest rg r b name n pct now digest)) = JInt (rm_gqa (ir_meta r))"
  by (simp_all add: manifest_from_dict_def run_manifest_def Let_def jget_or_def)

lemma reader_of_run:
  assumes "fs (''trace_'' @ name @ ''.manifest.json'') = Some (Inr (JObj (run_manifest rg r b name n pct now digest)))"
  shows "\<exists>rd m. new_reader (''trace_'' @ name @ ''.jsonl'') fs = Inr rd \<and> rd_manifest rd = Some m \<and>
    mf_num_layers m = JInt (rm_layers (ir_meta r)) \<and> mf_num_kv_heads m = JInt (rm_kv_heads (ir_meta r)) \<and>
    mf_gqa_ratio m = JInt (rm_gqa (ir_meta r))"
proof -
  obtain h where "header_of_manifest (manifest_from_dict (run_manifest rg r b name n pct now digest)) = Inr h"
    using header_of_run_manifest by blast
  then show ?thesis using assms
    by (simp add: new_reader_def ends_with_jsonl [simplified] path_stem_jsonl [simplified] Let_def run_manifest_bounds)
qed

text \<open>All layers of a run, sliced.\<close>

lemma blockize_layer_entries:
  assumes "adapter_ok ad" "fits_adapter ad H T k" "fits_adapter ad H T v" "ba_khpb ad dvd H" "0 < H" "0 < T" "0 \<le> off"
    and "0 < ba_key_bytes ad"
  shows "\<exists>bs. blockize_layer ad layer k v off = Inr bs \<and> bs \<noteq> [] \<and> (\<forall>e\<in>set bs. entry_ok (ba_dim ad) (int H) e)"
proof -
  let ?nh = "H div ba_khpb ad" and ?nb = "(T + ba_tpb ad - 1) div ba_tpb ad"
  have pos: "0 < ba_khpb ad" "0 < ba_tpb ad" using assms(1) by (simp_all add: adapter_ok_def)
  from blockize_layer_ok [OF assms(1-5), of layer off] obtain bs where
    bs: "blockize_layer ad layer k v off = Inr bs" "length bs = ?nh * ?nb" and
    at: "\<And>i j. i < ?nh \<Longrightarrow> j < ?nb \<Longrightarrow> case bs ! (i * ?nb + j) of (b, bk, bv) \<Rightarrow>
       describes ad layer T (i * ba_khpb ad) (j * ba_tpb ad) (off + int (i * ?nb + j)) b \<and>
       block_of ad k (i * ba_khpb ad) (j * ba_tpb ad) bk \<and> block_of ad v (i * ba_khpb ad) (j * ba_tpb ad) bv" by auto
  have "entry_ok (ba_dim ad) (int H) (bs ! m)" if "m < length bs" for m
  proof -
    have m: "m < ?nh * ?nb" using that bs(2) by simp
    then have "0 < ?nb" by (cases ?nb) auto
    then have "m mod ?nb < ?nb" by simp
    have ih: "m div ?nb < ?nh" using m by (simp only: less_mult_imp_div_less)
    obtain b bk bv where e: "bs ! m = (b, bk, bv)" by (cases "bs ! m")
    have d: "describes ad layer T (m div ?nb * ba_khpb ad) (m mod ?nb * ba_tpb ad) (off + int m) b"
      "block_of ad k (m div ?nb * ba_khpb ad) (m mod ?nb * ba_tpb ad) bk"
      "block_of ad v (m div ?nb * ba_khpb ad) (m mod ?nb * ba_tpb ad) bv"
      using at [OF ih \<open>m mod ?nb < ?nb\<close>] unfolding div_mult_mod_eq e prod.case by blast+
    have heads: "ka_data bk \<noteq> []" "ka_data bv \<noteq> []" using d(2,3) pos(1) by (auto simp: block_of_def kv_array_ok_def)
    have "m div ?nb * ba_khpb ad < ?nh * ba_khpb ad" using ih pos by (intro mult_less_mono1)
    then have "int (m div ?nb * ba_khpb ad) < int H" using assms(4) by (simp del: of_nat_mult)
    then show ?thesis using d(1,2) heads assms(7,8) pos
      by (auto simp: entry_ok_def describes_def block_of_def e simp del: of_nat_mult)
  qed
  then have "\<forall>e\<in>set bs. entry_ok (ba_dim ad) (int H) e" by (metis in_set_conv_nth)
  moreover have "0 < ?nh" using assms(4,5) pos by (simp add: div_greater_zero_iff dvd_imp_le)
  moreover have "0 < ?nb" using assms(6) pos by (simp add: div_greater_zero_iff)
  ultimately show ?thesis using bs by fastforce
qed

lemma blockize_from_ok:
  assumes "adapter_ok ad" "ba_khpb ad dvd H" "0 < H" "0 < T" "0 < ba_key_bytes ad"
    and "\<forall>l\<in>set ls. \<exists>k v. dget d l = Some (k, v) \<and> fits_adapter ad H T k \<and> fits_adapter ad H T v" "distinct ls" "0 \<le> cur"
  shows "\<exists>lb. blockize_from ad d ls cur acc = Inr lb \<and> (\<forall>l. l \<notin> set ls \<longrightarrow> dget lb l = dget acc l) \<and>
    (\<forall>l\<in>set ls. \<exists>bs. dget lb l = Some bs \<and> bs \<noteq> [] \<and> (\<forall>e\<in>set bs. entry_ok (ba_dim ad) (int H) e))"
  using assms(6-8)
proof (induction ls arbitrary: cur acc)
  case (Cons l ls)
  obtain k v where kv: "dget d l = Some (k, v)" "fits_adapter ad H T k" "fits_adapter ad H T v" using Cons.prems(1) by auto
  obtain bs where bs: "blockize_layer ad l k v cur = Inr bs" "bs \<noteq> []" "\<forall>e\<in>set bs. entry_ok (ba_dim ad) (int H) e"
    using blockize_layer_entries [OF assms(1) kv(2,3) assms(2-4) Cons.prems(3) assms(5)] by blast
  have "0 \<le> cur + int (length bs)" using Cons.prems(3) by simp
  from Cons.IH [OF _ _ this, of "dset l bs acc"] Cons.prems(1,2) obtain lb where
    lb: "blockize_from ad d ls (cur + int (length bs)) (dset l bs acc) = Inr lb"
    "\<forall>j. j \<notin> set ls \<longrightarrow> dget lb j = dget (dset l bs acc) j"
    "\<forall>j\<in>set ls. \<exists>bs. dget lb j = Some bs \<and> bs \<noteq> [] \<and> (\<forall>e\<in>set bs. entry_ok (ba_dim ad) (int H) e)" by auto
  have "dget lb l = Some bs" using lb(2) Cons.prems(2) by (simp add: dict_simps)
  then show ?case using lb bs kv(1) by (auto simp: of_option_def dict_simps)
qed simp

lemma dget_enum: "0 \<le> l \<Longrightarrow> l < int n \<Longrightarrow> dget (map (\<lambda>i. (int i, f i)) [0..<n]) l = Some (f (nat l))"
proof -
  assume a: "0 \<le> l" "l < int n"
  have "distinct (dkeys (map (\<lambda>i. (int i, f i)) [0..<n]))" by (simp add: comp_def distinct_map inj_on_def)
  moreover have "(l, f (nat l)) \<in> set (map (\<lambda>i. (int i, f i)) [0..<n])"
    using a by (auto simp: image_iff intro!: bexI [of _ "nat l"])
  ultimately show ?thesis by (rule map_of_is_SomeI)
qed

lemma randn3_fits: "fits_adapter (new_block_adapter tpb khpb d ''FP32'' sinks recent) h t (randn3 rnd pos h t d)"
  by (auto simp: fits_adapter_def randn3_def randn2_def kv_array_ok_def new_block_adapter_def Let_def elem_bytes_of_def
      upper_str_def upper_char_def char_code_def)

text \<open>C40: From a run to its replay: for any model with positive sizes and whole groups of key heads, the key
  and value arrays of a synthetic run are sliced and traced without an exception, whether the
  blocks are ranked in Python or by the native kernel, as long as that answers with ids of the
  candidates it was given; the reader, which finds the written manifest by the name of the trace,
  takes from it the layer and head bounds and the group ratio of the run, accepts the file and
  yields every event in order, numbered \<open>0, 1, 2, ...\<close>; and the replayer loads all of them, with
  integer positions.\<close>

theorem run_trace_accepted:
  assumes "0 < le_layers e" "0 < le_heads e" "0 < le_kv_heads e" "0 < le_dim e" "0 < tpb" "0 < khpb" "khpb dvd le_kv_heads e"
    and "native_answers knl"
  shows "\<exists>r lb files g evs man. mock_inference rnd e prompt new = Inr r \<and>
    blockize_all_layers (new_block_adapter tpb khpb (le_dim e) ''FP32'' sinks recent) (ir_kv r) = Inr lb \<and>
    generate_run_trace knl hash base now rg r lb name pct g0 = (Inr files, g) \<and>
    tg_file g = Some evs \<and> tg_manifest g = Some man \<and>
    (\<forall>fs. fs (''trace_'' @ name @ ''.manifest.json'') = Some (Inr (JObj man)) \<longrightarrow>
      (\<exists>rd m cs rd'. new_reader (''trace_'' @ name @ ''.jsonl'') fs = Inr rd \<and> rd_manifest rd = Some m \<and>
        mf_num_layers m = JInt (int (le_layers e)) \<and> mf_num_kv_heads m = JInt (int (le_kv_heads e)) \<and>
        mf_gqa_ratio m = JInt (int (max 1 (le_heads e div le_kv_heads e))) \<and>
        load_all p (Some (trace_lines evs)) rd = (Inr cs, rd') \<and> map ca_event cs = [0..int (length evs) - 1])) \<and>
    (\<exists>vs rs. load_trace p (trace_lines evs) 1 = Inr vs \<and> map int_record vs = map Some rs \<and> length vs = length evs)"
proof -
  let ?ad = "new_block_adapter tpb khpb (le_dim e) ''FP32'' sinks recent"
  let ?L = "le_layers e" and ?H = "le_kv_heads e" and ?T = "max 8 (count_words False prompt) + new"
  obtain r where r: "mock_inference rnd e prompt new = Inr r"
    using assms(3) by (simp add: mock_inference_def engine_gqa_def Let_def)
  then have m: "rm_layers (ir_meta r) = int ?L" "rm_kv_heads (ir_meta r) = int ?H"
    "rm_gqa (ir_meta r) = int (max 1 (le_heads e div ?H))"
    by (auto simp: mock_inference_def engine_gqa_def Let_def split: if_splits)
  have kv: "ir_kv r = map (\<lambda>l. (int l, randn3 rnd (2 * l * (?H * ?T * le_dim e)) ?H ?T (le_dim e),
      randn3 rnd (2 * l * (?H * ?T * le_dim e) + ?H * ?T * le_dim e) ?H ?T (le_dim e))) [0..<?L]"
    using r by (auto simp: mock_inference_def engine_gqa_def Let_def split: if_splits)
  have qs: "ir_queries r = map (\<lambda>s. map (\<lambda>l. (int l, randn2 rnd (2 * ?L * (?H * ?T * le_dim e) + (s * ?L + l) * (le_heads e * le_dim e))
      (le_heads e) (le_dim e))) [0..<?L]) [0..<new]"
    using r by (auto simp: mock_inference_def engine_gqa_def Let_def split: if_splits)
  have T: "0 < ?T" by (simp add: max_def)
  have dv: "ba_khpb ?ad dvd ?H" using assms(7) by simp
  have keys: "dkeys (ir_kv r) = map int [0..<?L]" by (simp add: kv comp_def)
  have ad: "adapter_ok ?ad" using assms(5,6) by (simp add: adapter_ok_def)
  have "ba_elem_bytes ?ad = 4"
    using randn3_fits [of tpb khpb "le_dim e" sinks recent 1 1 rnd 0] by (simp add: fits_adapter_def randn3_def)
  then have bytes: "0 < ba_key_bytes ?ad" using assms(4-6) by simp
  have fits: "\<exists>k v. dget (ir_kv r) l = Some (k, v) \<and> fits_adapter ?ad ?H ?T k \<and> fits_adapter ?ad ?H ?T v"
    if "0 \<le> l" "l < int ?L" for l unfolding kv dget_enum [OF that] by (intro exI conjI) (rule refl, rule randn3_fits, rule randn3_fits)
  have "\<forall>l\<in>set (sort (dkeys (ir_kv r))). \<exists>k v. dget (ir_kv r) l = Some (k, v) \<and> fits_adapter ?ad ?H ?T k \<and> fits_adapter ?ad ?H ?T v"
    unfolding keys using fits by auto
  moreover have "distinct (sort (dkeys (ir_kv r)))" unfolding keys by (simp add: distinct_map)
  ultimately obtain lb where lb: "blockize_all_layers ?ad (ir_kv r) = Inr lb"
    "\<forall>l\<in>set (sort (dkeys (ir_kv r))). \<exists>bs. dget lb l = Some bs \<and> bs \<noteq> [] \<and> (\<forall>e\<in>set bs. entry_ok (ba_dim ?ad) (int ?H) e)"
    using blockize_from_ok [OF ad dv assms(3) T bytes _ _ order.refl, of "sort (dkeys (ir_kv r))" "ir_kv r" "[]"]
    unfolding blockize_all_layers_def by blast
  have "blocks_ok (le_dim e) (rm_layers (ir_meta r)) (rm_kv_heads (ir_meta r)) lb"
    unfolding blocks_ok_def m
  proof (intro allI impI)
    fix l assume "0 \<le> l \<and> l < int ?L"
    then have "l \<in> set (sort (dkeys (ir_kv r)))" unfolding keys by (auto simp: image_iff intro!: bexI [of _ "nat l"])
    from bspec [OF lb(2) this]
    show "\<exists>bs. dget lb l = Some bs \<and> bs \<noteq> [] \<and> (\<forall>x\<in>set bs. entry_ok (le_dim e) (int ?H) x)" by (simp only: adapter_sizes)
  qed
  moreover have "queries_ok (le_dim e) (rm_layers (ir_meta r)) (ir_queries r)"
    using assms(2) by (auto simp: queries_ok_def qs m dget_enum randn2_def)
  ultimately obtain g evs b where g: "generate_run_trace knl hash base now rg r lb name pct g0 =
      (Inr (rg_dir rg @ ''/'' @ ''trace_'' @ name @ ''.jsonl'', rg_dir rg @ ''/trace_'' @ name @ ''.manifest.json'', hash evs), g)"
    "tg_file g = Some evs" "tg_manifest g = Some (run_manifest rg r b name (length evs) pct now (hash evs))"
    "\<forall>i<length evs. event_ok p (int ?L) (int ?H) (int i) (evs ! i)" "evs \<noteq> []"
    using generate_run_trace_ok [of "le_dim e" r lb knl hash base now rg name pct g0 p] assms(1,3,8) by (auto simp: m)
  have read: "\<exists>rd m cs rd'. new_reader (''trace_'' @ name @ ''.jsonl'') fs = Inr rd \<and> rd_manifest rd = Some m \<and>
      mf_num_layers m = JInt (int ?L) \<and> mf_num_kv_heads m = JInt (int ?H) \<and>
      mf_gqa_ratio m = JInt (int (max 1 (le_heads e div ?H))) \<and>
      load_all p (Some (trace_lines evs)) rd = (Inr cs, rd') \<and> map ca_event cs = [0..int (length evs) - 1]"
    if fs: "fs (''trace_'' @ name @ ''.manifest.json'') = Some (Inr (JObj (run_manifest rg r b name (length evs) pct now (hash evs))))" for fs
  proof -
    obtain rd mf where rd: "new_reader (''trace_'' @ name @ ''.jsonl'') fs = Inr rd" "rd_manifest rd = Some mf"
      "mf_num_layers mf = JInt (int ?L)" "mf_num_kv_heads mf = JInt (int ?H)" "mf_gqa_ratio mf = JInt (int (max 1 (le_heads e div ?H)))"
      using reader_of_run [where fs = fs and name = name, OF fs] m by metis
    then have b: "layer_bound rd = JInt (int ?L)" "head_bound rd = JInt (int ?H)" by (simp_all add: rd_bound_def)
    obtain cs rd' where "rd_lines p (trace_lines evs) (rd\<lparr>rd_last := -1\<rparr>) = ((cs, None), rd')" "map ca_event cs = [0..int (length evs) - 1]"
      using rd_lines_accept [of evs p "int ?L" "int ?H" 0 "rd\<lparr>rd_last := -1\<rparr>"] g(4) b rd(2) by (auto simp: rd_bound_def)
    moreover obtain ev rest where "evs = ev # rest" using g(5) by (cases evs) auto
    moreover from this have "\<not> dmem ''schema_version'' ev" using g(4) by (auto simp: event_ok_def dmem_def)
    ultimately show ?thesis using rd by (simp add: load_all_def read_records_def Let_def)
  qed
  have "\<exists>vs rs. load_trace p (trace_lines evs) 1 = Inr vs \<and> map int_record vs = map Some rs \<and> length vs = length evs"
    using load_trace_accept [of evs p "int ?L" "int ?H" 1] g(4) by blast
  then show ?thesis using r lb(1) g(1-3) read by blast
qed

definition tiny_llm :: llm_engine where
  "tiny_llm = \<lparr>le_name = ''m'', le_layers = 2, le_heads = 4, le_kv_heads = 2, le_dim = 8, le_dtype = ''FP32''\<rparr>"

definition tiny_tracer :: run_tracer where
  "tiny_tracer = \<lparr>rg_dir = ''d'', rg_version = ''2.0'', rg_commit = ''c''\<rparr>"

definition no_trace :: trace_gen where
  "no_trace = \<lparr>tg_events = [], tg_next = 0, tg_file = None, tg_sha = None, tg_manifest = None\<rparr>"

definition first_blocks :: topk_kernel where
  "first_blocks q xs k = Inr (map fst (take (nat k) xs))"

lemma run_trace_accepted_witness:
  "\<exists>r lb files g evs vs. mock_inference (\<lambda>_. 1) tiny_llm ''a b'' 3 = Inr r \<and>
     blockize_all_layers (new_block_adapter 16 1 8 ''FP32'' 4 16) (ir_kv r) = Inr lb \<and>
     generate_run_trace (Some first_blocks) (\<lambda>_. ''h'') 5 ''t'' tiny_tracer r lb ''w'' 10 no_trace = (Inr files, g) \<and> tg_file g = Some evs \<and>
     load_trace some_std (trace_lines evs) 1 = Inr vs \<and> length vs = length evs"
proof -
  have "native_answers (Some first_blocks)"
    by (auto simp: native_answers_def first_blocks_def dest: in_set_takeD)
  then show ?thesis
    using run_trace_accepted [of tiny_llm 16 1 "Some first_blocks" "\<lambda>_. 1" "''a b''" 3 4 16 "\<lambda>_. ''h''" 5 "''t''" tiny_tracer "''w''" 10 no_trace some_std]
    by (auto simp: tiny_llm_def)
qed

end
