(* ===== verification/Spec2Isabelle.thy ===== *)
theory Spec2Isabelle
  imports StorageSim TopkFilter Tiering Attention PrefetchCoherence NvmeDevice PrefetchAccounting
    PhysicalAdapter Replay CacheManager StateProperties SystemPipeline RealTrace
begin

text \<open>
  A verification library for AI-SSD, a Python system that keeps the key and value tensors of a
  language model (the KV cache) on a solid state drive.

  \<^bold>\<open>The program and its parts.\<close> The repository has three subsystems. The first
  (\<open>src/person1_kv_engine\<close>) pages the KV cache into blocks and moves cold blocks out of host
  memory. The second (\<open>src/person2_ssd\<close>) is the drive: a simulator of NAND structures, channels
  and flash translation layers, the mapping of tensors to addresses, and the storage backend of
  live inference, which writes a file or talks to a guest machine with an NVMe device. The third
  (\<open>src/person3_system\<close>) predicts and prefetches blocks and accounts for the traffic. A block
  goes from the tiering manager through the prefetch adapter into the inference backend, which
  places its pages by the tensor mapper; the simulators replay the same placements to estimate
  latencies.

  \<^bold>\<open>Theories.\<close>

  \<^item> \<open>Prelude\<close>: exceptions as values (\<open>exn + 'a\<close>), methods as functions from a state to a
    result and a state, loops over them, dictionaries as association lists in insertion
    order, counters, and the arithmetic all components use. The collections \<open>dict_simps\<close> and
    \<open>inv_intros\<close> carry most component proofs.

  \<^item> \<open>Nand\<close> (\<open>nand/page.py\<close>, \<open>block.py\<close>, \<open>nand.py\<close>): page states, sequential allocation and
    erasure, dies with their busy times. The exact outcome of an allocation on any reachable block:
    the next page in order, \<open>None\<close> when full, \<open>ValueError\<close> when the next page was changed behind the
    back of the block.

  \<^item> \<open>Channel\<close> (\<open>channels/channel.py\<close>): the queue and bus of a channel. Transfers of a reachable
    channel are disjoint in time; the queue is processed in order; reads of idle dies overlap
    their sensing.

  \<^item> \<open>Location\<close> (\<open>common/schemas/kv_block.py\<close>, the two location parsers): printing and parsing of
    physical locations, the KV block schema.

  \<^item> \<open>Ftl\<close> (\<open>ftl/\<close>): both flash translation layers over one mapping record. Consistency of the
    forward and reverse maps, exact capacity of the conventional one, absence of aliases in the
    tensor-aware one within channel capacity and the alias beyond it.

  \<^item> \<open>TensorMapper\<close> (\<open>kv_allocator/tensor_mapping.py\<close>): both address translations in both modes,
    with every division that can raise. Injectivity, agreement of the two, and the aliases of
    the tensor-aware addresses.

  \<^item> \<open>StorageSim\<close> (\<open>storage_model/latency.py\<close>, \<open>io_model.py\<close>, \<open>kv_allocator/allocator.py\<close>): latency
    model, allocator and simulator, composed of the theories above. In a reachable conventional
    simulator that covers the geometry of its allocator the page of a mapped block holds that block.

  \<^item> \<open>KvStore\<close>: tensors as numpy passes them (shape, element type, bytes), positional file
    access, and the locale \<open>kv_store\<close> of a key-value store, interpreted on the inference backend
    and on the simulated controller.

  \<^item> \<open>InferenceBackend\<close>, \<open>TopkFilter\<close> (\<open>inference_backend.py\<close>): the file-backed store of live
    inference with its counters, single and batched reads, and the in-storage top-k filter. The
    backend refines a map from blocks to tensors, absent blocks included; batched reads equal
    single reads; read and write counters agree with the per-channel ones, with what a filter call
    charges to no channel written out; the filter returns the candidates of the best scores.

  \<^item> \<open>NvmeDaemon\<close> (\<open>scripts/nvme_guest_daemon.c\<close>), \<open>NvmeClient\<close> (\<open>nvme_client.py\<close>) and \<open>NvmeDevice\<close>:
    the wire format, the command loop in the guest, the client, and the refinement of a byte
    device by the two of them and the network between (locales \<open>raw_device\<close> and
    \<open>batch_device\<close>, interpreted on client and daemon).

  \<^item> \<open>FlashController\<close> (\<open>storage_backend/\<close>): the simulated controller with its flash timing, DRAM cache
    and in-storage top-k attention. A round trip for stored tensors and a bound on the cache.

  \<^item> \<open>Tiering\<close>, \<open>Attention\<close> (\<open>tiering/\<close>, \<open>computational_storage/\<close>): the pool of KV blocks, the hot/cold
    policy, offloading and fetching over any key-value store, and decode attention over both
    tiers. No token is lost; the running softmax over partitions is softmax attention over all
    tokens.

  \<^item> \<open>Predictor\<close>, \<open>PrefetchAdapter\<close>, \<open>PrefetchCoherence\<close> (\<open>prefetch/predictor.py\<close>, \<open>history.py\<close>,
    \<open>inference_adapter.py\<close>): prediction, the staging buffer in front of a page store, its
    asynchronous jobs as an explicit list whose entries may run at any later step, and the
    relation \<open>ad_reach\<close> of adapters reached by safe calls. The store's contract is the locale
    \<open>page_backend\<close>, interpreted on the inference backend: the adapter is transparent, and what it
    has dispatched is served.

  \<^item> \<open>ByteStorage\<close>, \<open>Prefetchers\<close>, \<open>PrefetchAccounting\<close> (\<open>person3_system/storage/\<close>, \<open>v2_prefetcher.py\<close>,
    \<open>prefetcher.py\<close>): the request interface with its mock, file and analytical backends and the
    two simulated prefetchers over it (locale \<open>batch_storage\<close>, interpreted on all three); the
    books of prefetchers and backends balance.

  \<^item> \<open>PhysicalAdapter\<close> (\<open>person3_system/adapters/physical_adapter.py\<close>): the adapter that stores
    KV blocks in the storage simulator and keeps a controller DRAM, traffic counters and an
    access log. It refines a map from layer and block to tensors whatever the simulator does
    with the placement, and interprets \<open>kv_store\<close> and \<open>tier_store\<close> (\<open>pa\<close>, \<open>pat\<close>), so the
    tiering theorems hold over simulated flash.

  \<^item> \<open>Trace\<close>, \<open>Replay\<close> (\<open>common/schemas/trace.py\<close>, \<open>person3_system/trace/\<close>,
    \<open>person2_ssd/trace_replay/replayer.py\<close>): canonical trace records over JSON values, the
    validating reader as a fold over lines, the synthetic generator, and the replayer over both
    translation layers. What the reader delivers is well typed and ordered, the generator's
    traces are accepted, and a loaded trace replays without an exception and with balanced books.

  \<^item> \<open>CacheManager\<close> (\<open>person1_kv_engine/cache_manager/\<close>): the paged cache of the first
    subsystem with its free list, hot/cold classification and eviction. Invariants of the
    allocator, the exact extent of a context, and what one offload pass stores and moves.

  \<^item> \<open>StateProvider\<close>, \<open>StateCoherence\<close>, \<open>StateProperties\<close> (\<open>person1_kv_engine/adapters/\<close>): the
    transformer, sliding-window and hybrid state providers. The store's contract is the locale
    \<open>page_reader\<close>, the provider's view of it \<open>kv_serving\<close>; they are interpreted on the inference
    backend (\<open>rbk\<close>, \<open>rbv\<close>) and on the prefetch adapter in front of it (\<open>ads\<close>). Attention is handed the
    tokens of the prompt in order, minus blocks that were not selected; decoding drops tokens
    that leave the recent window. Under a sliding window the blocks that end inside it are attended, as
    many as the budget asks for, and the whole window when that is 100 per cent.

  \<^item> \<open>SystemPipeline\<close> (\<open>common/schemas/request.py\<close>, \<open>result.py\<close>, \<open>person3_system/api/\<close>,
    \<open>integration/\<close>): the request gateway, the orchestrator that wires tiering, physical adapter
    and prefetcher together, and the simulated decoding loop. Top-k, read and prefetch requests keep
    every stored block (a write request stores nothing and an eviction loses tokens, see the
    findings), fetches stage the next layer, and the loop's report is computed exactly.

  \<^item> \<open>RealTrace\<close> (\<open>person1_kv_engine/real_llm/block_adapter.py\<close>, \<open>engine.py\<close>, \<open>trace_generator.py\<close>): the
    slicing of key and value arrays into padded blocks, the synthetic run of the engine and the
    trace generator with its manifest. Sliced blocks hold every token at its place; the trace of a
    run is accepted by the reader of the third subsystem and by the replayer of the second.

  \<^bold>\<open>Conventions.\<close> A Python integer is an \<open>int\<close> (a \<open>nat\<close> for sizes that the code never lets become
  negative), a float a \<open>real\<close>, so that rounding is not modelled; a byte is an \<open>8 word\<close>; a
  C integer is a natural number with the wire format's width written out where it is packed and
  unpacked. A method that can raise returns the exception together with the state at
  that moment, so that partial effects are kept. An array that is updated in place is a value
  of the record that owns it. A subclass is an extension of the record of its base class.

  \<^bold>\<open>Recursion and termination.\<close> Loops are structural or carry a termination proof: \<open>daemon_run\<close> by the
  bytes of the stream that are left, \<open>recv_exact\<close> by the bytes that are missing together with
  the segments that are left, \<open>show_nat\<close> by the number. No fuel is used.

  \<^bold>\<open>Parameters.\<close> numpy (decoding, promotion, partial sorting), the native top-k kernel, the FP16
  arithmetic of the guest's vector instructions and the segmentation of a network stream are
  arguments of the definitions that use them; the hypotheses about them are named in the
  properties, whose witnesses instantiate them.

  \<^bold>\<open>Interfaces.\<close> Where one component relies on another, what it relies on is a locale and the
  lemmas of the client are proved inside it: \<open>ftl_interface\<close> (batches over a translation layer;
  interpreted on both layers), \<open>kv_store\<close> (call sequences on a keyed store; on the inference
  backend, the simulated controller and the physical adapter), \<open>tier_store\<close> (tiering over a
  store; on the same three), \<open>page_reader\<close> and its extension \<open>page_backend\<close> (prefetch adapter
  over a page store; on the inference backend), \<open>kv_serving\<close> (state providers; on the backend
  and on the prefetch adapter), \<open>batch_storage\<close> (prefetcher over a request interface; on its
  three backends), \<open>raw_device\<close> and its extension \<open>batch_device\<close> (client over a guest; on client
  and daemon).

  \<^bold>\<open>Not modelled.\<close> The branches of the inference backend that hand pages to the NVMe client, and
  starting the guest machine: they depend on a running QEMU. Thread pools, locks and wall-clock
  times: asynchronous jobs are entries of a list that may run at any later step. Access
  listeners other than the orchestrator's own. The adapter's branches for stores without a page
  interface. The dictionary forms of requests and responses, the loader of model
  configurations (\<open>registry.py\<close>, \<open>model_adapter.py\<close>) and the NVMe state descriptors. The native
  top-k kernel, vector code behind a \<open>ctypes\<close> loader, is a parameter. Model loading and
  generation with PyTorch (\<open>real_llm\<close>), dashboards, experiments, benchmarks and scripts are input
  and output around the parts above.
\<close>

end
